(* ===== verification/Prelude.thy ===== *)
theory Prelude
  imports Main "HOL-Library.Char_ord" "HOL-Library.List_Lexorder" "HOL-Library.Product_Lexorder"
begin

text \<open>
  What the components share: the types that stand for Rust's, the checked integer conversions,
  and the operations of Rust's standard library on byte slices, strings and lists that the
  components use, each with the lemmas about it.

  \<^item> A byte is a HOL \<open>char\<close> (an octet), so \<open>[u8]\<close>, \<open>Vec<u8>\<close>, \<open>str\<close> and \<open>String\<close> are all
    \<open>bytes\<close>: a Rust string is the list of its UTF-8 octets.
  \<^item> A line number (\<open>u32\<close>) is a \<open>nat\<close>; every conversion that can fail is written out with its
    bound. Subtractions of line numbers are between ends of ranges that are in order.
  \<^item> \<open>Range<u32>\<close> is the pair of its ends.
\<close>

named_theorems text_simps \<open>how the slice and string operations act on constructors and appends\<close>

type_synonym byte = char
type_synonym bytes = "char list"
type_synonym range = "nat \<times> nat"

section \<open>Integers\<close>

definition u32_max :: nat where
  "u32_max = 2 ^ 32 - 1"

definition u64_max :: nat where
  "u64_max = 2 ^ 64 - 1"

text \<open>\<open>u32::try_from(i).ok()\<close> for an \<open>i64\<close>.\<close>

definition u32_of_int :: "int \<Rightarrow> nat option" where
  "u32_of_int i = (if 0 \<le> i \<and> i \<le> int u32_max then Some (nat i) else None)"

text \<open>\<open>u32::try_from(n).unwrap_or(u32::MAX)\<close> for a length.\<close>

definition u32_saturate :: "nat \<Rightarrow> nat" where
  "u32_saturate n = min n u32_max"

text \<open>\<open>u32\<close> addition and subtraction where the operands come from a file's content and can
  leave the range: they wrap, as in a release build.\<close>

definition u32_add :: "nat \<Rightarrow> nat \<Rightarrow> nat" where
  "u32_add a b = (a + b) mod 2 ^ 32"

definition u32_sub :: "nat \<Rightarrow> nat \<Rightarrow> nat" where
  "u32_sub a b = (a + (2 ^ 32 - b)) mod 2 ^ 32"

text \<open>\<open>u64::saturating_add\<close>, \<open>saturating_mul\<close> and \<open>checked_add\<close>.\<close>

definition u64_checked_add :: "nat \<Rightarrow> nat \<Rightarrow> nat option" where
  "u64_checked_add a b = (if a + b \<le> u64_max then Some (a + b) else None)"

definition u64_saturating_mul :: "nat \<Rightarrow> nat \<Rightarrow> nat" where
  "u64_saturating_mul a b = min (a * b) u64_max"

definition u32_saturating_add :: "nat \<Rightarrow> nat \<Rightarrow> nat" where
  "u32_saturating_add a b = min (a + b) u32_max"

lemma u32_of_int_nat [simp]: "n \<le> u32_max \<Longrightarrow> u32_of_int (int n) = Some n"
  by (simp add: u32_of_int_def)

lemma u32_of_int_SomeD: "u32_of_int i = Some n \<Longrightarrow> i = int n \<and> n \<le> u32_max"
  by (auto simp: u32_of_int_def split: if_splits)

lemma u32_saturate_id [simp]: "n \<le> u32_max \<Longrightarrow> u32_saturate n = n"
  by (simp add: u32_saturate_def)

lemma u32_add_exact [simp]: "a + b \<le> u32_max \<Longrightarrow> u32_add a b = a + b"
  by (simp add: u32_add_def u32_max_def)

lemma u32_sub_exact: "b \<le> a \<Longrightarrow> a \<le> u32_max \<Longrightarrow> u32_sub a b = a - b"
proof -
  assume "b \<le> a" "a \<le> u32_max"
  then have "a + (2 ^ 32 - b) = (a - b) + 2 ^ 32" and "a - b < 2 ^ 32"
    by (auto simp: u32_max_def)
  then show ?thesis by (simp add: u32_sub_def)
qed

section \<open>Ranges\<close>

definition in_range :: "range \<Rightarrow> nat \<Rightarrow> bool" where
  "in_range r n \<longleftrightarrow> fst r \<le> n \<and> n < snd r"

definition range_empty :: "range \<Rightarrow> bool" where
  "range_empty r \<longleftrightarrow> \<not> fst r < snd r"

definition range_list :: "range \<Rightarrow> nat list" where
  "range_list r = [fst r ..< snd r]"

lemma set_range_list [simp]: "set (range_list r) = {n. in_range r n}"
  by (auto simp: range_list_def in_range_def)

lemma length_range_list [simp]: "length (range_list r) = snd r - fst r"
  by (simp add: range_list_def)

lemma range_list_empty [simp]: "range_list r = [] \<longleftrightarrow> range_empty r"
  by (auto simp: range_list_def range_empty_def)

text \<open>\<open>slice::get(a..b)\<close>: none when the range is reversed or runs past the end.\<close>

definition slice_get :: "'a list \<Rightarrow> range \<Rightarrow> 'a list option" where
  "slice_get xs r =
     (if fst r \<le> snd r \<and> snd r \<le> length xs then Some (take (snd r - fst r) (drop (fst r) xs))
      else None)"

text \<open>\<open>slice::get(i)\<close>.\<close>

definition list_get :: "'a list \<Rightarrow> nat \<Rightarrow> 'a option" where
  "list_get xs i = (if i < length xs then Some (xs ! i) else None)"

abbreviation slice :: "'a list \<Rightarrow> nat \<Rightarrow> nat \<Rightarrow> 'a list" where
  "slice xs i j \<equiv> take (j - i) (drop i xs)"

lemma slice_get_Some [simp]:
  "i \<le> j \<Longrightarrow> j \<le> length xs \<Longrightarrow> slice_get xs (i, j) = Some (slice xs i j)"
  by (simp add: slice_get_def)

lemma slice_get_SomeD:
  "slice_get xs r = Some ys \<Longrightarrow>
     fst r \<le> snd r \<and> snd r \<le> length xs \<and> ys = slice xs (fst r) (snd r)"
  by (auto simp: slice_get_def split: if_splits)

lemma length_slice [simp]: "i \<le> j \<Longrightarrow> j \<le> length xs \<Longrightarrow> length (slice xs i j) = j - i"
  by simp

lemma slice_empty [simp]: "slice xs i i = []"
  by simp

lemma slice_append: "i \<le> j \<Longrightarrow> j \<le> k \<Longrightarrow> slice xs i j @ slice xs j k = slice xs i k"
proof -
  assume "i \<le> j" "j \<le> k"
  then have "k - i = (j - i) + (k - j)" and "drop j xs = drop (j - i) (drop i xs)"
    by simp_all
  then show ?thesis by (simp add: take_add)
qed

lemma slice_to_end: "i \<le> length xs \<Longrightarrow> slice xs i (length xs) = drop i xs"
  by simp

lemma slice_nth: "i + n < j \<Longrightarrow> j \<le> length xs \<Longrightarrow> slice xs i j ! n = xs ! (i + n)"
  by simp

lemma slice_one: "i < length xs \<Longrightarrow> slice xs i (Suc i) = [xs ! i]"
  by (simp add: take_Suc_conv_app_nth Suc_diff_le)

lemma map_zip_fst: "length xs = length ys \<Longrightarrow> map (\<lambda>x. f (fst x)) (zip xs ys) = map f xs"
  by (induction xs ys rule: list_induct2) auto

lemma map_zip_snd: "length xs = length ys \<Longrightarrow> map (\<lambda>x. f (snd x)) (zip xs ys) = map f ys"
  by (induction xs ys rule: list_induct2) auto

section \<open>Loops that can give up\<close>

text \<open>A \<open>for\<close> loop whose body leaves the function with \<open>None\<close> (the \<open>?\<close> operator).\<close>

fun fold_opt :: "('s \<Rightarrow> 'a \<Rightarrow> 's option) \<Rightarrow> 's \<Rightarrow> 'a list \<Rightarrow> 's option" where
  "fold_opt f s [] = Some s"
| "fold_opt f s (x # xs) = (case f s x of None \<Rightarrow> None | Some s' \<Rightarrow> fold_opt f s' xs)"

lemma fold_opt_append:
  "fold_opt f s (xs @ ys) = (case fold_opt f s xs of None \<Rightarrow> None | Some s' \<Rightarrow> fold_opt f s' ys)"
  by (induction xs arbitrary: s) (auto split: option.splits)

definition list_of_option :: "'a option \<Rightarrow> 'a list" where
  "list_of_option x = (case x of None \<Rightarrow> [] | Some y \<Rightarrow> [y])"

text \<open>\<open>Iterator::enumerate\<close> and \<open>filter_map\<close>.\<close>

definition numbered :: "nat \<Rightarrow> 'a list \<Rightarrow> (nat \<times> 'a) list" where
  "numbered n xs = zip [n ..< n + length xs] xs"

definition filter_map :: "('a \<Rightarrow> 'b option) \<Rightarrow> 'a list \<Rightarrow> 'b list" where
  "filter_map f xs = concat (map (\<lambda>x. list_of_option (f x)) xs)"

lemma list_of_option_simps [simp]: "list_of_option None = []" "list_of_option (Some x) = [x]"
  by (simp_all add: list_of_option_def)

lemma filter_map_simps [simp]:
  "filter_map f [] = []" "filter_map f (x # xs) = list_of_option (f x) @ filter_map f xs"
  by (simp_all add: filter_map_def)

lemma set_filter_map: "set (filter_map f xs) = {y. \<exists>x \<in> set xs. f x = Some y}"
  by (auto simp: filter_map_def list_of_option_def split: option.splits)

lemma length_numbered [simp]: "length (numbered n xs) = length xs"
  by (simp add: numbered_def)

lemma map_numbered_snd [simp]: "map snd (numbered n xs) = xs"
  by (simp add: numbered_def)

section \<open>Operations that change a state and can fail\<close>

text \<open>An operation returns an error or a result, and the state it leaves; \<open>reading\<close> is one that only
  reads, and \<open>and_then\<close> is the \<open>?\<close> of the source between two of them.\<close>

type_synonym ('s, 'e, 'a) fallible = "'s \<Rightarrow> ('e + 'a) \<times> 's"

definition reading :: "('s \<Rightarrow> 'e + 'a) \<Rightarrow> ('s, 'e, 'a) fallible" where
  "reading f s = (f s, s)"

definition and_then :: "('s, 'e, 'a) fallible \<Rightarrow> ('a \<Rightarrow> ('s, 'e, 'b) fallible) \<Rightarrow> ('s, 'e, 'b) fallible" where
  "and_then m f s = (case m s of (Inl e, s) \<Rightarrow> (Inl e, s) | (Inr x, s) \<Rightarrow> f x s)"

lemma and_then_Inr: "and_then m f s = (Inr y, s') \<longleftrightarrow> (\<exists>x s1. m s = (Inr x, s1) \<and> f x s1 = (Inr y, s'))"
  by (auto simp: and_then_def split: sum.splits prod.splits)

lemma and_then_Inl:
  "and_then m f s = (Inl e, s') \<longleftrightarrow>
     m s = (Inl e, s') \<or> (\<exists>x s1. m s = (Inr x, s1) \<and> f x s1 = (Inl e, s'))"
  by (auto simp: and_then_def split: sum.splits prod.splits)

lemma map_sum_eq:
  "map_sum f id s = Inr y \<longleftrightarrow> s = Inr y" "map_sum f id s = Inl e \<longleftrightarrow> (\<exists>e'. s = Inl e' \<and> f e' = e)"
  by (cases s; auto)+

lemma reading_eq [simp]: "reading f s = (r, s') \<longleftrightarrow> f s = r \<and> s' = s"
  by (auto simp: reading_def)

lemma and_then_reading: "and_then (reading f) g s = (case f s of Inl e \<Rightarrow> (Inl e, s) | Inr x \<Rightarrow> g x s)"
  by (simp add: and_then_def reading_def split: sum.splits)

text \<open>An invariant of the state that every part of an operation keeps.\<close>

definition keeps_state :: "('s \<Rightarrow> 's \<Rightarrow> bool) \<Rightarrow> ('s, 'e, 'a) fallible \<Rightarrow> bool" where
  "keeps_state R m \<longleftrightarrow> (\<forall>s. R s (snd (m s)))"

lemma keeps_reading [simp]: "reflp R \<Longrightarrow> keeps_state R (reading f)"
  by (simp add: keeps_state_def reading_def reflp_def)

lemma keeps_and_then:
  assumes "transp R" "keeps_state R m" "\<And>x. keeps_state R (f x)"
  shows "keeps_state R (and_then m f)"
  unfolding keeps_state_def
proof
  fix s
  show "R s (snd (and_then m f s))"
  proof (cases "m s")
    case (Pair r s1)
    have m: "R s s1" using assms(2) Pair unfolding keeps_state_def by (metis snd_conv)
    show ?thesis
    proof (cases r)
      case (Inr x)
      have "R s1 (snd (f x s1))" using assms(3) by (simp add: keeps_state_def)
      with m assms(1) Pair Inr show ?thesis by (auto simp: and_then_def dest: transpD)
    qed (use m Pair in \<open>simp add: and_then_def\<close>)
  qed
qed

lemma keeps_run: "keeps_state R m \<Longrightarrow> m s = (r, s') \<Longrightarrow> R s s'"
  by (auto simp: keeps_state_def dest: spec [of _ s])

end
