(* ===== verification/ByteText.thy ===== *)
theory ByteText
  imports Prelude
begin

text \<open>
  Rust's operations on byte slices and strings that the components use: splitting, prefixes and
  suffixes, decimal numbers, and UTF-8 validation with the replacement of invalid sequences.
\<close>

section \<open>Splitting into lines\<close>

definition nl :: byte where "nl = CHR 0x0A"
definition cr :: byte where "cr = CHR 0x0D"

text \<open>\<open>slice::split_inclusive(|byte| *byte == b'\<^bold>n')\<close>: the lines with their terminators; an empty
  slice has none.\<close>

fun split_inclusive :: "bytes \<Rightarrow> bytes list" where
  "split_inclusive [] = []"
| "split_inclusive (c # cs) =
     (if c = nl then [c] # split_inclusive cs
      else case split_inclusive cs of [] \<Rightarrow> [[c]] | l # ls \<Rightarrow> (c # l) # ls)"

text \<open>\<open>slice::split(|byte| *byte == b'\<^bold>n')\<close>: the pieces between the terminators; always one more
  than there are terminators.\<close>

fun split_nl :: "bytes \<Rightarrow> bytes list" where
  "split_nl [] = [[]]"
| "split_nl (c # cs) =
     (if c = nl then [] # split_nl cs
      else case split_nl cs of [] \<Rightarrow> [[c]] | l # ls \<Rightarrow> (c # l) # ls)"

text \<open>\<open>strip_prefix\<close>, \<open>strip_suffix\<close> and \<open>split_once\<close>.\<close>

fun strip_prefix :: "'a list \<Rightarrow> 'a list \<Rightarrow> 'a list option" where
  "strip_prefix [] xs = Some xs"
| "strip_prefix (p # ps) [] = None"
| "strip_prefix (p # ps) (x # xs) = (if p = x then strip_prefix ps xs else None)"

definition starts_with :: "'a list \<Rightarrow> 'a list \<Rightarrow> bool" where
  "starts_with p xs \<longleftrightarrow> strip_prefix p xs \<noteq> None"

definition strip_last :: "'a \<Rightarrow> 'a list \<Rightarrow> 'a list option" where
  "strip_last c xs = (if xs \<noteq> [] \<and> last xs = c then Some (butlast xs) else None)"

definition trim_last :: "'a \<Rightarrow> 'a list \<Rightarrow> 'a list" where
  "trim_last c xs = (case strip_last c xs of Some ys \<Rightarrow> ys | None \<Rightarrow> xs)"

fun split_once :: "'a list \<Rightarrow> 'a list \<Rightarrow> ('a list \<times> 'a list) option" where
  "split_once p [] = (if p = [] then Some ([], []) else None)"
| "split_once p (x # xs) =
     (case strip_prefix p (x # xs) of
        Some rest \<Rightarrow> Some ([], rest)
      | None \<Rightarrow> map_option (\<lambda>(l, r). (x # l, r)) (split_once p xs))"

fun contains :: "'a list \<Rightarrow> 'a list \<Rightarrow> bool" where
  "contains p [] = (p = [])"
| "contains p (x # xs) = (starts_with p (x # xs) \<or> contains p xs)"

text \<open>\<open>str::lines\<close>: without the line feed, and without a carriage return right before it.\<close>

definition str_lines :: "bytes \<Rightarrow> bytes list" where
  "str_lines t = map (\<lambda>l. case strip_last nl l of None \<Rightarrow> l | Some l' \<Rightarrow> trim_last cr l')
     (split_inclusive t)"

text \<open>What every list of lines looks like: only the last may lack its terminator.\<close>

definition line_ok :: "bytes \<Rightarrow> bool" where
  "line_ok l \<longleftrightarrow> l \<noteq> [] \<and> nl \<notin> set (butlast l)"

fun lines_ok :: "bytes list \<Rightarrow> bool" where
  "lines_ok [] \<longleftrightarrow> True"
| "lines_ok [l] \<longleftrightarrow> line_ok l"
| "lines_ok (l # k # ls) \<longleftrightarrow> line_ok l \<and> last l = nl \<and> lines_ok (k # ls)"

lemma concat_split_inclusive [simp]: "concat (split_inclusive t) = t"
  by (induction t) (auto split: list.splits)

lemma split_inclusive_Nil [simp]: "split_inclusive t = [] \<longleftrightarrow> t = []"
  by (cases t) (auto split: list.splits)

lemma lines_ok_split_inclusive: "lines_ok (split_inclusive t)"
proof (induction t)
  case Nil
  then show ?case by simp
next
  case (Cons c t)
  show ?case
  proof (cases "split_inclusive t")
    case Nil
    then show ?thesis by (auto simp: line_ok_def)
  next
    case (Cons l ls)
    with Cons.IH show ?thesis by (cases ls) (auto simp: line_ok_def)
  qed
qed

lemma lines_ok_tl: "lines_ok (l # ls) \<Longrightarrow> lines_ok ls"
  by (cases ls) auto

lemma lines_ok_hd: "lines_ok (l # ls) \<Longrightarrow> line_ok l"
  by (cases ls) auto

lemma lines_ok_append: "lines_ok (xs @ ys) \<Longrightarrow> lines_ok xs \<and> lines_ok ys"
  by (induction xs rule: lines_ok.induct) (auto dest: lines_ok_tl lines_ok_hd)

lemma lines_ok_take: "lines_ok ls \<Longrightarrow> lines_ok (take n ls)"
  by (metis append_take_drop_id lines_ok_append)

lemma lines_ok_drop: "lines_ok ls \<Longrightarrow> lines_ok (drop n ls)"
  by (metis append_take_drop_id lines_ok_append)

lemma lines_ok_memberD: "lines_ok ls \<Longrightarrow> l \<in> set ls \<Longrightarrow> line_ok l"
  by (induction ls rule: lines_ok.induct) auto

lemma split_inclusive_no_nl: "nl \<notin> set l \<Longrightarrow> l \<noteq> [] \<Longrightarrow> split_inclusive l = [l]"
proof (induction l)
  case (Cons c l)
  then show ?case by (cases "l = []") auto
qed simp

lemma split_inclusive_line: "nl \<notin> set l \<Longrightarrow> split_inclusive (l @ nl # t) = (l @ [nl]) # split_inclusive t"
  by (induction l) auto

lemma line_ok_cases:
  assumes "line_ok l"
  obtains (ended) k where "l = k @ [nl]" "nl \<notin> set k" | (unended) "nl \<notin> set l" "l \<noteq> []"
proof (cases "last l = nl")
  case True
  with assms show ?thesis using ended [of "butlast l"]
    by (metis append_butlast_last_id line_ok_def)
next
  case False
  with assms have "nl \<notin> set (butlast l @ [last l])" and "l \<noteq> []"
    by (auto simp: line_ok_def simp del: append_butlast_last_id)
  then show ?thesis using unended by (metis append_butlast_last_id)
qed

lemma split_inclusive_concat: "lines_ok ls \<Longrightarrow> split_inclusive (concat ls) = ls"
proof (induction ls rule: lines_ok.induct)
  case (2 l)
  then have "line_ok l" by simp
  then show ?case
    by (cases rule: line_ok_cases) (use split_inclusive_line [of _ "[]"] in \<open>auto simp: split_inclusive_no_nl\<close>)
next
  case (3 l k ls)
  then have "line_ok l" and "last l = nl" and IH: "split_inclusive (concat (k # ls)) = k # ls"
    by auto
  then obtain m where "l = m @ [nl]" "nl \<notin> set m"
    by (metis last_in_set line_ok_cases)
  then show ?case using IH split_inclusive_line [of m "concat (k # ls)"] by simp
qed simp

lemma split_nl_line: "nl \<notin> set l \<Longrightarrow> split_nl (l @ nl # t) = l # split_nl t"
  by (induction l) auto

lemma split_nl_pieces: "\<forall>p \<in> set ps. nl \<notin> set p \<Longrightarrow> split_nl (concat (map (\<lambda>p. p @ [nl]) ps)) = ps @ [[]]"
  by (induction ps) (auto simp: split_nl_line)

lemma split_nl_no_nl: "l \<in> set (split_nl t) \<Longrightarrow> nl \<notin> set l"
  by (induction t arbitrary: l) (auto split: list.splits if_splits)

lemma strip_last_append [simp]: "strip_last c (xs @ [c]) = Some xs"
  by (simp add: strip_last_def)

lemma trim_last_append [simp]: "trim_last c (xs @ [c]) = xs"
  by (simp add: trim_last_def)

lemma strip_last_None: "c \<notin> set xs \<Longrightarrow> strip_last c xs = None"
  by (auto simp: strip_last_def)

lemma trim_last_id: "c \<notin> set xs \<Longrightarrow> trim_last c xs = xs"
  by (simp add: trim_last_def strip_last_None)

lemma strip_prefix_append [simp]: "strip_prefix p (p @ xs) = Some xs"
  by (induction p) auto

lemma strip_prefix_SomeD: "strip_prefix p xs = Some ys \<Longrightarrow> xs = p @ ys"
  by (induction p xs rule: strip_prefix.induct) (auto split: if_splits)

lemma starts_with_iff: "starts_with p xs \<longleftrightarrow> (\<exists>ys. xs = p @ ys)"
  by (metis starts_with_def strip_prefix_SomeD strip_prefix_append not_None_eq)

lemma strip_prefix_None_hd: "p = c # q \<Longrightarrow> c \<notin> set xs \<Longrightarrow> strip_prefix p (xs @ ys) = None \<or> xs = []"
  by (cases xs) auto

lemma split_once_append:
  assumes "c \<notin> set l" shows "split_once (c # p) (l @ (c # p) @ r) = Some (l, r)"
  using assms by (induction l) auto

section \<open>Decimal numbers\<close>

definition digit :: "nat \<Rightarrow> byte" where
  "digit d = char_of (48 + d)"

function show_nat :: "nat \<Rightarrow> bytes" where
  "show_nat n = (if n < 10 then [digit n] else show_nat (n div 10) @ [digit (n mod 10)])"
  by pat_completeness auto
termination
  by (relation "measure id") auto

declare show_nat.simps [simp del]

definition is_digit :: "byte \<Rightarrow> bool" where
  "is_digit c \<longleftrightarrow> 48 \<le> (of_char c :: nat) \<and> of_char c \<le> (57 :: nat)"

definition digits_value :: "bytes \<Rightarrow> nat" where
  "digits_value cs = foldl (\<lambda>v c. 10 * v + (of_char c - 48)) 0 cs"

text \<open>\<open>str::parse::<u32>\<close>: an optional plus sign, then one or more digits, within 32 bits.\<close>

definition parse_u32 :: "bytes \<Rightarrow> nat option" where
  "parse_u32 s =
     (let ds = (case strip_prefix ''+'' s of Some rest \<Rightarrow> rest | None \<Rightarrow> s)
      in if ds \<noteq> [] \<and> list_all is_digit ds \<and> digits_value ds \<le> u32_max
         then Some (digits_value ds) else None)"

lemma of_char_digit [simp]: "d < 10 \<Longrightarrow> (of_char (digit d) :: nat) = 48 + d"
  by (simp add: digit_def)

lemma is_digit_digit [simp]: "d < 10 \<Longrightarrow> is_digit (digit d)"
  by (simp add: is_digit_def)

lemma show_nat_digits: "list_all is_digit (show_nat n)"
proof (induction n rule: show_nat.induct)
  case (1 n)
  then show ?case by (subst show_nat.simps) auto
qed

lemma show_nat_not_Nil [simp]: "show_nat n \<noteq> []"
  by (subst show_nat.simps) simp

lemma digits_value_show_nat [simp]: "digits_value (show_nat n) = n"
proof (induction n rule: show_nat.induct)
  case (1 n)
  show ?case
  proof (cases "n < 10")
    case True
    then show ?thesis by (subst show_nat.simps) (simp add: digits_value_def)
  next
    case False
    then have "digits_value (show_nat (n div 10)) = n div 10" using 1 by simp
    with False show ?thesis by (subst show_nat.simps) (simp add: digits_value_def)
  qed
qed

lemma digit_not_special: "is_digit c \<Longrightarrow> c \<noteq> CHR ''+'' \<and> c \<noteq> CHR '','' \<and> c \<noteq> CHR '' '' \<and> c \<noteq> nl \<and> (of_char c :: nat) < 128"
  by (auto simp: is_digit_def nl_def)

lemma set_show_nat: "c \<in> set (show_nat n) \<Longrightarrow> is_digit c"
  using show_nat_digits [of n] by (auto simp: list_all_iff)

lemma parse_u32_show_nat: "n \<le> u32_max \<Longrightarrow> parse_u32 (show_nat n) = Some n"
proof -
  assume n: "n \<le> u32_max"
  have "strip_prefix ''+'' (show_nat n) = None"
    using set_show_nat [of "CHR ''+''" n] digit_not_special by (cases "show_nat n") auto
  with n show ?thesis by (simp add: parse_u32_def show_nat_digits)
qed

section \<open>UTF-8\<close>

definition is_cont :: "byte \<Rightarrow> bool" where
  "is_cont c \<longleftrightarrow> 128 \<le> (of_char c :: nat) \<and> of_char c \<le> (191 :: nat)"

definition second_ok :: "byte \<Rightarrow> byte \<Rightarrow> bool" where
  "second_ok b c =
     (let x = of_char b :: nat; y = of_char c :: nat
      in if x = 224 then 160 \<le> y \<and> y \<le> 191
         else if x = 237 then 128 \<le> y \<and> y \<le> 159
         else if x = 240 then 144 \<le> y \<and> y \<le> 191
         else if x = 244 then 128 \<le> y \<and> y \<le> 143
         else is_cont c)"

definition seq_len :: "byte \<Rightarrow> nat" where
  "seq_len b =
     (let x = of_char b :: nat
      in if x < 128 then 1 else if 194 \<le> x \<and> x \<le> 223 then 2
         else if 224 \<le> x \<and> x \<le> 239 then 3 else if 240 \<le> x \<and> x \<le> 244 then 4 else 0)"

text \<open>The first sequence of a non-empty text: whether it encodes a character, and how many bytes it
  takes. An invalid one is cut where the standard library cuts it: before the first byte that
  cannot continue it.\<close>

definition utf8_step :: "bytes \<Rightarrow> bool \<times> nat" where
  "utf8_step t =
     (case t of [] \<Rightarrow> (True, 0)
      | b # rest \<Rightarrow>
          (let n = seq_len b
           in if n = 1 then (True, 1)
              else if n = 0 \<or> rest = [] \<or> \<not> second_ok b (hd rest) then (False, 1)
              else if n = 2 then (True, 2)
              else if length rest < 2 \<or> \<not> is_cont (rest ! 1) then (False, 2)
              else if n = 3 then (True, 3)
              else if length rest < 3 \<or> \<not> is_cont (rest ! 2) then (False, 3)
              else (True, 4)))"

definition replacement :: bytes where
  "replacement = [CHR 0xEF, CHR 0xBF, CHR 0xBD]"

lemma utf8_step_pos: "t \<noteq> [] \<Longrightarrow> 0 < snd (utf8_step t)"
  by (cases t) (auto simp: utf8_step_def Let_def)

text \<open>\<open>str::from_utf8(t).is_ok()\<close> and \<open>String::from_utf8_lossy(t)\<close>.\<close>

function utf8_valid :: "bytes \<Rightarrow> bool" where
  "utf8_valid t =
     (if t = [] then True
      else if fst (utf8_step t) then utf8_valid (drop (snd (utf8_step t)) t) else False)"
  by pat_completeness auto
termination
proof (relation "measure length")
  fix t :: bytes
  assume "t \<noteq> []"
  then show "(drop (snd (utf8_step t)) t, t) \<in> measure length"
    using utf8_step_pos [of t] by simp
qed simp

function utf8_lossy :: "bytes \<Rightarrow> bytes" where
  "utf8_lossy t =
     (if t = [] then []
      else (if fst (utf8_step t) then take (snd (utf8_step t)) t else replacement)
             @ utf8_lossy (drop (snd (utf8_step t)) t))"
  by pat_completeness auto
termination
proof (relation "measure length")
  fix t :: bytes
  assume "t \<noteq> []"
  then show "(drop (snd (utf8_step t)) t, t) \<in> measure length"
    using utf8_step_pos [of t] by simp
qed simp

declare utf8_valid.simps [simp del] utf8_lossy.simps [simp del]

lemma utf8_valid_Nil [simp]: "utf8_valid []"
  by (subst utf8_valid.simps) simp

lemma utf8_lossy_Nil [simp]: "utf8_lossy [] = []"
  by (subst utf8_lossy.simps) simp

lemma utf8_lossy_valid: "utf8_valid t \<Longrightarrow> utf8_lossy t = t"
proof (induction t rule: utf8_valid.induct)
  case (1 t)
  then show ?case by (subst utf8_lossy.simps) (use utf8_valid.simps [of t] in auto)
qed

lemma utf8_step_ascii: "(of_char c :: nat) < 128 \<Longrightarrow> utf8_step (c # t) = (True, 1)"
  by (simp add: utf8_step_def seq_len_def Let_def)

lemma utf8_valid_ascii_Cons: "(of_char c :: nat) < 128 \<Longrightarrow> utf8_valid (c # t) = utf8_valid t"
  by (subst utf8_valid.simps) (simp add: utf8_step_ascii)

lemma utf8_valid_ascii: "\<forall>c \<in> set t. (of_char c :: nat) < 128 \<Longrightarrow> utf8_valid t"
  by (induction t) (auto simp: utf8_valid_ascii_Cons)

end
