(* ===== verification/TextLines.thy ===== *)
theory TextLines
  imports ByteText
begin

text \<open>
  Line views of one file version and the edits between two versions
  (crates/review-hunks/src/text.rs).

  The diff itself is computed by the crate gix-imara-diff, so it is a parameter here: a
  \<open>differ\<close> gives the changes from one text to another, as the function \<open>changes\<close> of the source
  does. What the program relies on is \<open>line_diff\<close>: the changes are an edit script between the
  lines of the two texts (in order, within both texts, each changing something, the lines between
  them equal), and equal texts have none. \<open>trim_diff\<close> is a differ with these laws, which the
  examples use.

  The lemmas: an edit script read backwards is one too; a line outside every change has a number
  on the other side, holds the same text there, and is found back from it; a range that no change
  touches lands on an equal range of the same length.
\<close>

section \<open>Lines and changes\<close>

definition CONTEXT :: nat where
  "CONTEXT = 3"

record change =
  before :: range
  after :: range

type_synonym differ = "bytes \<Rightarrow> bytes \<Rightarrow> change list"

definition lines_new :: "bytes \<Rightarrow> bytes list" where
  "lines_new t = split_inclusive t"

definition lines_len :: "bytes list \<Rightarrow> nat" where
  "lines_len ls = u32_saturate (length ls)"

definition lines_line :: "bytes list \<Rightarrow> nat \<Rightarrow> bytes option" where
  "lines_line ls i = list_get ls i"

definition lines_get :: "bytes list \<Rightarrow> range \<Rightarrow> bytes list option" where
  "lines_get ls r = slice_get ls r"

definition lines_rest :: "bytes list \<Rightarrow> nat \<Rightarrow> bytes list option" where
  "lines_rest ls i = lines_get ls (i, lines_len ls)"

definition overlaps :: "range \<Rightarrow> range \<Rightarrow> bool" where
  "overlaps r s =
     (if range_empty r \<or> range_empty s then fst r \<le> snd s \<and> fst s \<le> snd r
      else fst r < snd s \<and> fst s < snd r)"

text \<open>The edits as (from, to) pairs, read forwards and backwards.\<close>

definition forward :: "change list \<Rightarrow> (range \<times> range) list" where
  "forward cs = map (\<lambda>c. (before c, after c)) cs"

definition backward :: "change list \<Rightarrow> (range \<times> range) list" where
  "backward cs = map (\<lambda>c. (after c, before c)) cs"

definition shift_by :: "int \<Rightarrow> range \<Rightarrow> range \<Rightarrow> int" where
  "shift_by shift src dst =
     shift + (int (snd dst) - int (fst dst)) - (int (snd src) - int (fst src))"

fun translate_from :: "int \<Rightarrow> (range \<times> range) list \<Rightarrow> range \<Rightarrow> range option" where
  "translate_from shift [] r =
     (case (u32_of_int (int (fst r) + shift), u32_of_int (int (snd r) + shift)) of
        (Some s, Some e) \<Rightarrow> Some (s, e)
      | _ \<Rightarrow> None)"
| "translate_from shift ((src, dst) # es) r =
     (if overlaps src r then None
      else translate_from (if snd src \<le> fst r then shift_by shift src dst else shift) es r)"

definition translate :: "(range \<times> range) list \<Rightarrow> range \<Rightarrow> range option" where
  "translate es r = translate_from 0 es r"

fun map_line_from :: "int \<Rightarrow> (range \<times> range) list \<Rightarrow> nat \<Rightarrow> nat option" where
  "map_line_from shift [] l = u32_of_int (int l + shift)"
| "map_line_from shift ((src, dst) # es) l =
     (if in_range src l then None
      else map_line_from (if snd src \<le> l then shift_by shift src dst else shift) es l)"

definition map_line :: "(range \<times> range) list \<Rightarrow> nat \<Rightarrow> nat option" where
  "map_line es l = map_line_from 0 es l"

definition before_line :: "change list \<Rightarrow> nat \<Rightarrow> nat option" where
  "before_line cs l = map_line (backward cs) l"

definition after_line :: "change list \<Rightarrow> nat \<Rightarrow> nat option" where
  "after_line cs l = map_line (forward cs) l"

text \<open>\<open>slice::chunk_by\<close>.\<close>

fun chunk_by :: "('a \<Rightarrow> 'a \<Rightarrow> bool) \<Rightarrow> 'a list \<Rightarrow> 'a list list" where
  "chunk_by p [] = []"
| "chunk_by p [x] = [[x]]"
| "chunk_by p (x # y # zs) =
     (if p x y then (case chunk_by p (y # zs) of [] \<Rightarrow> [[x]] | g # gs \<Rightarrow> (x # g) # gs)
      else [x] # chunk_by p (y # zs))"

definition hunk_groups :: "change list \<Rightarrow> change list list" where
  "hunk_groups cs =
     chunk_by (\<lambda>previous next. fst (before next) - snd (before previous) \<le> 2 * CONTEXT) cs"

lemma concat_chunk_by [simp]: "concat (chunk_by p xs) = xs"
  by (induction p xs rule: chunk_by.induct) (auto split: list.splits)

lemma chunk_by_no_Nil: "g \<in> set (chunk_by p xs) \<Longrightarrow> g \<noteq> []"
  by (induction p xs arbitrary: g rule: chunk_by.induct) (auto split: list.splits if_splits)

text \<open>Between two groups, the last change of the first and the first of the second do not belong
  together.\<close>

fun separated :: "('a \<Rightarrow> 'a \<Rightarrow> bool) \<Rightarrow> 'a list list \<Rightarrow> bool" where
  "separated p (g # h # gs) \<longleftrightarrow> \<not> p (last g) (hd h) \<and> separated p (h # gs)"
| "separated p gs \<longleftrightarrow> True"

lemma separated_chunk_by: "separated p (chunk_by p xs)"
proof (induction p xs rule: chunk_by.induct)
  case (3 p x y zs)
  obtain g gs where g: "chunk_by p (y # zs) = g # gs"
    by (metis chunk_by.simps(1) concat.simps(1) concat_chunk_by list.exhaust list.distinct(1))
  have "g \<noteq> []" by (rule chunk_by_no_Nil [of g p "y # zs"]) (simp add: g)
  moreover have "hd g = y"
    using concat_chunk_by [of p "y # zs"] \<open>g \<noteq> []\<close> g by (metis concat.simps(2) hd_append2 list.sel(1))
  ultimately show ?case using 3 g by (cases gs) (auto split: list.splits)
qed simp_all

lemma separated_append:
  "separated p (xs @ g # ys) \<Longrightarrow>
     (xs \<noteq> [] \<longrightarrow> \<not> p (last (last xs)) (hd g)) \<and> (ys \<noteq> [] \<longrightarrow> \<not> p (last g) (hd (hd ys)))"
proof (induction xs)
  case Nil
  then show ?case by (cases ys) auto
next
  case (Cons x xs)
  then show ?case by (cases xs) auto
qed

lemma concat_hunk_groups [simp]: "concat (hunk_groups cs) = cs"
  by (simp add: hunk_groups_def)

lemma hunk_groups_no_Nil: "g \<in> set (hunk_groups cs) \<Longrightarrow> g \<noteq> []"
  by (auto simp: hunk_groups_def dest: chunk_by_no_Nil)

section \<open>What the differ promises\<close>

text \<open>\<open>script_from i j b a cs\<close>: from line \<open>i\<close> of \<open>b\<close> and line \<open>j\<close> of \<open>a\<close> on, \<open>cs\<close> are the edits.\<close>

fun script_from :: "nat \<Rightarrow> nat \<Rightarrow> 'a list \<Rightarrow> 'a list \<Rightarrow> change list \<Rightarrow> bool" where
  "script_from i j b a [] \<longleftrightarrow> i \<le> length b \<and> j \<le> length a \<and> drop i b = drop j a"
| "script_from i j b a (c # cs) \<longleftrightarrow>
     i \<le> fst (before c) \<and> fst (before c) \<le> snd (before c) \<and> snd (before c) \<le> length b \<and>
     j \<le> fst (after c) \<and> fst (after c) \<le> snd (after c) \<and> snd (after c) \<le> length a \<and>
     (fst (before c) < snd (before c) \<or> fst (after c) < snd (after c)) \<and>
     fst (before c) + j = fst (after c) + i \<and>
     slice b i (fst (before c)) = slice a j (fst (after c)) \<and>
     script_from (snd (before c)) (snd (after c)) b a cs"

definition edit_script :: "'a list \<Rightarrow> 'a list \<Rightarrow> change list \<Rightarrow> bool" where
  "edit_script b a cs \<longleftrightarrow> script_from 0 0 b a cs"

definition line_diff :: "differ \<Rightarrow> bool" where
  "line_diff D \<longleftrightarrow> (\<forall>b a. edit_script (lines_new b) (lines_new a) (D b a)) \<and> (\<forall>t. D t t = [])"

definition flip :: "change \<Rightarrow> change" where
  "flip c = \<lparr>before = after c, after = before c\<rparr>"

lemma flip_simps [simp]: "before (flip c) = after c" "after (flip c) = before c"
  by (simp_all add: flip_def)

lemma flip_flip [simp]: "flip (flip c) = c"
  by (simp add: flip_def)

lemma forward_flip: "forward (map flip cs) = backward cs"
  by (simp add: forward_def backward_def)

lemma script_from_flip: "script_from i j b a cs \<Longrightarrow> script_from j i a b (map flip cs)"
  by (induction i j b a cs rule: script_from.induct) (auto simp del: length_drop length_take)

lemma edit_script_flip: "edit_script b a cs \<Longrightarrow> edit_script a b (map flip cs)"
  by (simp add: edit_script_def script_from_flip)

lemma before_line_flip: "before_line cs = after_line (map flip cs)"
  by (simp add: before_line_def after_line_def forward_flip fun_eq_iff)

lemma script_from_bounds: "script_from i j b a cs \<Longrightarrow> i \<le> length b \<and> j \<le> length a"
  by (induction i j b a cs rule: script_from.induct) auto

lemma script_from_fst_le:
  "script_from i j b a cs \<Longrightarrow> c \<in> set cs \<Longrightarrow>
     i \<le> fst (before c) \<and> fst (before c) \<le> snd (before c) \<and> snd (before c) \<le> length b \<and>
     j \<le> fst (after c) \<and> fst (after c) \<le> snd (after c) \<and> snd (after c) \<le> length a"
  by (induction i j b a cs rule: script_from.induct) force+

lemma script_from_nonempty:
  "script_from i j b a cs \<Longrightarrow> c \<in> set cs \<Longrightarrow> fst (before c) < snd (before c) \<or> fst (after c) < snd (after c)"
  by (induction i j b a cs rule: script_from.induct) auto

lemma edit_script_nonempty:
  "edit_script b a cs \<Longrightarrow> c \<in> set cs \<Longrightarrow> fst (before c) < snd (before c) \<or> fst (after c) < snd (after c)"
  unfolding edit_script_def by (rule script_from_nonempty)

lemma line_diff_script: "line_diff D \<Longrightarrow> edit_script (lines_new b) (lines_new a) (D b a)"
  by (simp add: line_diff_def)

lemma line_diff_same [simp]: "line_diff D \<Longrightarrow> D t t = []"
  by (simp add: line_diff_def)

lemma lines_new_eq_iff: "lines_new b = lines_new a \<longleftrightarrow> b = a"
  by (metis concat_split_inclusive lines_new_def)

lemma concat_lines_new [simp]: "concat (lines_new t) = t"
  by (simp add: lines_new_def)

lemma lines_ok_new [simp]: "lines_ok (lines_new t)"
  by (simp add: lines_new_def lines_ok_split_inclusive)

section \<open>Numbering lines across an edit script\<close>

lemma map_line_from_skip:
  "\<forall>(src, dst) \<in> set es. l < fst src \<and> fst src \<le> snd src \<Longrightarrow>
     map_line_from sh es l = u32_of_int (int l + sh)"
  by (induction es arbitrary: sh) (auto simp: in_range_def)

lemma script_from_forward_skip:
  assumes "script_from i j b a cs" "l < i"
  shows "map_line_from sh (forward cs) l = u32_of_int (int l + sh)"
proof (rule map_line_from_skip, clarify)
  fix x y u v
  assume "((x, y), u, v) \<in> set (forward cs)"
  then obtain c where "c \<in> set cs" "before c = (x, y)" by (auto simp: forward_def)
  with script_from_fst_le [OF assms(1), of c] assms(2)
  show "l < fst (x, y) \<and> fst (x, y) \<le> snd (x, y)" by simp
qed

lemma script_from_backward_skip:
  assumes "script_from i j b a cs" "l < j"
  shows "map_line_from sh (backward cs) l = u32_of_int (int l + sh)"
  using script_from_forward_skip [OF script_from_flip [OF assms(1)] assms(2)]
  by (simp add: forward_flip)

lemma slice_eq_nth:
  assumes "slice b i k = slice a j m" "k + j = m + i" "i + n < k" "k \<le> length b" "m \<le> length a"
  shows "b ! (i + n) = a ! (j + n)"
proof -
  have "slice b i k ! n = b ! (i + n)" and "slice a j m ! n = a ! (j + n)"
    using assms(2-) by (simp_all add: less_diff_conv)
  with assms(1) show ?thesis by simp
qed

text \<open>Where line \<open>i + n\<close> of \<open>b\<close> lands, once the edits before \<open>(i, j)\<close> are counted.\<close>

lemma map_line_from_script:
  "\<lbrakk>script_from i j b a cs; length a \<le> u32_max; length b \<le> u32_max; i + n < length b\<rbrakk> \<Longrightarrow>
    (case map_line_from (int j - int i) (forward cs) (i + n) of
       None \<Rightarrow> \<exists>c \<in> set cs. in_range (before c) (i + n)
     | Some l' \<Rightarrow> (\<forall>c \<in> set cs. \<not> in_range (before c) (i + n)) \<and> j \<le> l' \<and> l' < length a \<and>
         a ! l' = b ! (i + n) \<and> map_line_from (int i - int j) (backward cs) l' = Some (i + n))"
proof (induction i j b a cs arbitrary: n rule: script_from.induct)
  case (1 i j b a n)
  then have eq: "drop i b = drop j a" and le: "i \<le> length b" "j \<le> length a" by simp_all
  then have len: "length b - i = length a - j" by (metis length_drop)
  have "a ! (j + n) = drop j a ! n" using le by simp
  also have "\<dots> = b ! (i + n)" using le eq [symmetric] by simp
  finally have "a ! (j + n) = b ! (i + n)" .
  moreover have "j + n < length a" using 1 len by simp
  ultimately show ?case using 1
    by (simp add: forward_def backward_def u32_of_int_def nat_int_add add.commute)
next
  case (2 i j b a c cs n)
  let ?sh = "int (snd (after c)) - int (snd (before c))"
  have sc: "script_from (snd (before c)) (snd (after c)) b a cs" using 2 by simp
  consider (low) "i + n < fst (before c)" | (inside) "in_range (before c) (i + n)"
    | (high) m where "i + n = snd (before c) + m"
    using 2(2) le_Suc_ex [of "snd (before c)" "i + n"] by (fastforce simp: in_range_def not_le)
  then show ?case
  proof cases
    case low
    have "\<not> in_range (before d) (i + n)" if "d \<in> set (c # cs)" for d
      using script_from_fst_le [OF sc, of d] that low 2(2) by (auto simp: in_range_def)
    moreover have lt: "j + n < fst (after c)" using 2(2) low by auto
    moreover have "a ! (j + n) = b ! (i + n)"
      using slice_eq_nth [where b = b and i = i and k = "fst (before c)" and a = a and j = j
            and m = "fst (after c)" and n = n] 2(2) low by auto
    moreover have "u32_of_int (int (i + n) + (int j - int i)) = Some (j + n)"
      and "u32_of_int (int (j + n) + (int i - int j)) = Some (i + n)"
      using lt 2 by (auto simp: u32_of_int_def)
    ultimately show ?thesis
      using 2 low script_from_forward_skip [OF sc, of "i + n"] script_from_backward_skip [OF sc, of "j + n"]
      by (auto simp: forward_def backward_def in_range_def)
  next
    case inside
    then show ?thesis by (simp add: forward_def)
  next
    case high
    have sh: "shift_by (int j - int i) (before c) (after c) = ?sh"
      and sh': "shift_by (int i - int j) (after c) (before c) = - ?sh"
      using 2(2) by (auto simp: shift_by_def)
    have "\<not> in_range (before c) (i + n)" using high by (simp add: in_range_def)
    then show ?thesis
      using 2(1) [OF sc 2(3,4), of m] 2(2,5) high sh sh'
      by (auto simp: forward_def backward_def in_range_def split: option.splits)
  qed
qed

lemma after_line_SomeD:
  assumes "edit_script b a cs" "length a \<le> u32_max" "length b \<le> u32_max" "l < length b"
    and "after_line cs l = Some l'"
  shows "l' < length a \<and> a ! l' = b ! l \<and> before_line cs l' = Some l \<and>
    (\<forall>c \<in> set cs. \<not> in_range (before c) l)"
  using map_line_from_script [of 0 0 b a cs l] assms
  by (auto simp: edit_script_def after_line_def before_line_def map_line_def)

lemma after_line_None_iff:
  assumes "edit_script b a cs" "length a \<le> u32_max" "length b \<le> u32_max" "l < length b"
  shows "after_line cs l = None \<longleftrightarrow> (\<exists>c \<in> set cs. in_range (before c) l)"
  using map_line_from_script [of 0 0 b a cs l] assms
  by (auto simp: edit_script_def after_line_def map_line_def split: option.splits)

lemma before_line_SomeD:
  assumes "edit_script b a cs" "length a \<le> u32_max" "length b \<le> u32_max" "l < length a"
    and "before_line cs l = Some l'"
  shows "l' < length b \<and> b ! l' = a ! l \<and> after_line cs l' = Some l \<and>
    (\<forall>c \<in> set cs. \<not> in_range (after c) l)"
  using after_line_SomeD [OF edit_script_flip [OF assms(1)] assms(3,2,4), of l'] assms(5)
  by (auto simp: before_line_flip o_def)

lemma before_line_None_iff:
  assumes "edit_script b a cs" "length a \<le> u32_max" "length b \<le> u32_max" "l < length a"
  shows "before_line cs l = None \<longleftrightarrow> (\<exists>c \<in> set cs. in_range (after c) l)"
  using after_line_None_iff [OF edit_script_flip [OF assms(1)] assms(3,2,4)]
  by (auto simp: before_line_flip)

text \<open>Where a whole range lands.\<close>

lemma translate_from_skip:
  "\<forall>(src, dst) \<in> set es. snd r \<le> fst src \<and> fst src \<le> snd src \<Longrightarrow> fst r \<le> snd r \<Longrightarrow>
     translate_from sh es r =
       (if \<exists>(src, dst) \<in> set es. overlaps src r then None
        else case (u32_of_int (int (fst r) + sh), u32_of_int (int (snd r) + sh)) of
          (Some s, Some e) \<Rightarrow> Some (s, e) | _ \<Rightarrow> None)"
proof (induction es arbitrary: sh)
  case (Cons e es)
  obtain src dst where e: "e = (src, dst)" by (cases e) (rule that)
  show ?case
  proof (cases "overlaps src r")
    case False
    with Cons.prems have "\<not> snd src \<le> fst r"
      by (auto simp: e overlaps_def range_empty_def split: if_splits)
    with Cons False show ?thesis by (auto simp: e)
  qed (simp add: e)
qed simp

lemma script_from_translate_skip:
  assumes "script_from i j b a cs" "snd r \<le> i" "fst r \<le> snd r"
  shows "translate_from sh (forward cs) r =
    (if \<exists>c \<in> set cs. overlaps (before c) r then None
     else case (u32_of_int (int (fst r) + sh), u32_of_int (int (snd r) + sh)) of
       (Some s, Some e) \<Rightarrow> Some (s, e) | _ \<Rightarrow> None)"
proof -
  have "\<forall>(src, dst) \<in> set (forward cs). snd r \<le> fst src \<and> fst src \<le> snd src"
  proof clarify
    fix x y u v
    assume "((x, y), u, v) \<in> set (forward cs)"
    then obtain c where "c \<in> set cs" "before c = (x, y)" by (auto simp: forward_def)
    with script_from_fst_le [OF assms(1), of c] assms(2)
    show "snd r \<le> fst (x, y) \<and> fst (x, y) \<le> snd (x, y)" by simp
  qed
  from translate_from_skip [OF this assms(3)] show ?thesis by (auto simp: forward_def)
qed

lemma slice_eq_sub:
  assumes "slice b i k = slice a j m" "k + j = m + i" "i + n + w \<le> k" "k \<le> length b" "m \<le> length a"
  shows "slice b (i + n) (i + n + w) = slice a (j + n) (j + n + w)"
proof -
  have *: "take w (drop n (take q (drop p xs))) = take w (drop (p + n) xs)" if "n + w \<le> q"
    for p q and xs :: "'a list"
    using that by (simp only: drop_take take_take drop_drop min_def add.commute [of n p]) simp
  have "take w (drop n (slice b i k)) = take w (drop n (slice a j m))" using assms(1) by simp
  then show ?thesis using * [of "k - i" i b] * [of "m - j" j a] assms(2,3) by simp
qed

lemma translate_from_script:
  "\<lbrakk>script_from i j b a cs; length a \<le> u32_max; length b \<le> u32_max; i + n + w \<le> length b\<rbrakk> \<Longrightarrow>
    (case translate_from (int j - int i) (forward cs) (i + n, i + n + w) of
       None \<Rightarrow> \<exists>c \<in> set cs. overlaps (before c) (i + n, i + n + w)
     | Some r \<Rightarrow> (\<forall>c \<in> set cs. \<not> overlaps (before c) (i + n, i + n + w)) \<and>
         j \<le> fst r \<and> snd r = fst r + w \<and> snd r \<le> length a \<and>
         slice a (fst r) (snd r) = slice b (i + n) (i + n + w))"
proof (induction i j b a cs arbitrary: n rule: script_from.induct)
  case (1 i j b a n)
  then have eq: "drop i b = drop j a" and le: "i \<le> length b" "j \<le> length a" by simp_all
  then have len: "length b - i = length a - j" by (metis length_drop)
  have "slice a (j + n) (j + n + w) = take w (drop n (drop j a))" by (simp add: add.commute)
  also have "\<dots> = slice b (i + n) (i + n + w)" using eq [symmetric] by (simp add: add.commute)
  finally have "slice a (j + n) (j + n + w) = slice b (i + n) (i + n + w)" .
  moreover have "j + n + w \<le> length a" using 1 len le by simp
  moreover from this have "u32_of_int (int (i + n) + (int j - int i)) = Some (j + n)"
    "u32_of_int (int (i + n + w) + (int j - int i)) = Some (j + n + w)"
    using 1 by (auto simp: u32_of_int_def)
  ultimately show ?case by (simp add: forward_def)
next
  case (2 i j b a c cs n)
  let ?r = "(i + n, i + n + w)"
  have sc: "script_from (snd (before c)) (snd (after c)) b a cs" using 2 by simp
  have hd: "i \<le> fst (before c)" "fst (before c) \<le> snd (before c)" "snd (before c) \<le> length b"
    "j \<le> fst (after c)" "fst (after c) \<le> snd (after c)" "snd (after c) \<le> length a"
    "fst (before c) + j = fst (after c) + i"
    "slice b i (fst (before c)) = slice a j (fst (after c))"
    using 2(2) by auto
  consider (touch) "overlaps (before c) ?r"
    | (high) m where "\<not> overlaps (before c) ?r" "i + n = snd (before c) + m"
    | (low) "\<not> overlaps (before c) ?r" "i + n + w \<le> fst (before c)" "\<not> snd (before c) \<le> i + n"
    using hd(2) le_Suc_ex [of "snd (before c)" "i + n"]
    by (fastforce simp: overlaps_def range_empty_def split: if_splits)
  then show ?case
  proof cases
    case touch
    then show ?thesis by (simp add: forward_def)
  next
    case high
    have "shift_by (int j - int i) (before c) (after c) = int (snd (after c)) - int (snd (before c))"
      using hd by (auto simp: shift_by_def)
    then show ?thesis using 2(1) [OF sc 2(3,4), of m] 2(5) high hd
      by (auto simp: forward_def add.assoc split: option.splits)
  next
    case low
    have j: "j + n + w \<le> fst (after c)" using hd low(2) by linarith
    have "u32_of_int (int (i + n) + (int j - int i)) = Some (j + n)"
      "u32_of_int (int (i + n + w) + (int j - int i)) = Some (j + n + w)"
      using j hd 2(3) by (auto simp: u32_of_int_def)
    then show ?thesis
      using low script_from_translate_skip [OF sc, of ?r] hd j
        slice_eq_sub [OF hd(8,7) low(2)] by (auto simp: forward_def)
  qed
qed

lemma translate_SomeD:
  assumes "edit_script b a cs" "length a \<le> u32_max" "length b \<le> u32_max" "fst r \<le> snd r" "snd r \<le> length b"
    and "translate (forward cs) r = Some q"
  shows "(\<forall>c \<in> set cs. \<not> overlaps (before c) r) \<and> snd q = fst q + (snd r - fst r) \<and> snd q \<le> length a \<and>
    slice a (fst q) (snd q) = slice b (fst r) (snd r)"
proof -
  obtain n w where r: "r = (n, n + w)" using assms(4) by (metis le_Suc_ex prod.collapse)
  obtain x y where q: "q = (x, y)" by (cases q)
  have *: "(\<forall>c \<in> set cs. \<not> overlaps (before c) (n, n + w)) \<and> y = x + w \<and> y \<le> length a \<and>
      slice a x y = slice b n (n + w)"
    using translate_from_script [of 0 0 b a cs n w] assms r q
    by (auto simp: edit_script_def translate_def)
  then show ?thesis by (auto simp: r q)
qed

lemma translate_None_iff:
  assumes "edit_script b a cs" "length a \<le> u32_max" "length b \<le> u32_max" "fst r \<le> snd r" "snd r \<le> length b"
  shows "translate (forward cs) r = None \<longleftrightarrow> (\<exists>c \<in> set cs. overlaps (before c) r)"
proof -
  obtain n w where r: "r = (n, n + w)" using assms(4) by (metis le_Suc_ex prod.collapse)
  show ?thesis using translate_from_script [of 0 0 b a cs n w] assms r
    by (auto simp: edit_script_def translate_def split: option.splits)
qed

text \<open>Two ranges in order land in order.\<close>

lemma not_overlaps_cases:
  assumes "\<not> overlaps s r" "fst s \<le> snd s" "fst r \<le> snd r"
  shows "snd r \<le> fst s \<and> fst r < snd s \<or> snd s \<le> fst r"
  using assms by (auto simp: overlaps_def range_empty_def split: if_splits)

lemma translate_from_low:
  assumes "script_from i j b a cs" "u \<le> fst r" "fst r \<le> snd r" "snd r \<le> i" "u \<le> i" "v \<le> j"
    and "translate_from (int v - int u) (forward cs) r = Some q"
  shows "fst q + u = fst r + v \<and> snd q + u = snd r + v"
  using assms(7) unfolding script_from_translate_skip [OF assms(1,4,3)]
  using assms(2,3) by (auto split: if_splits option.splits dest!: u32_of_int_SomeD)

lemma translate_from_mono:
  "\<lbrakk>script_from i j b a cs; length a \<le> u32_max; length b \<le> u32_max;
    i \<le> fst r; fst r \<le> snd r; snd r \<le> fst r'; fst r' \<le> snd r'; snd r' \<le> length b;
    translate_from (int j - int i) (forward cs) r = Some q;
    translate_from (int j - int i) (forward cs) r' = Some q'\<rbrakk> \<Longrightarrow> snd q \<le> fst q'"
proof (induction i j b a cs rule: script_from.induct)
  case (1 i j b a)
  then show ?case by (auto simp: forward_def split: option.splits dest!: u32_of_int_SomeD)
next
  case (2 i j b a c cs)
  have sc: "script_from (snd (before c)) (snd (after c)) b a cs" using "2.prems"(1) by simp
  have hd: "i \<le> fst (before c)" "fst (before c) \<le> snd (before c)" "snd (before c) \<le> length b"
    "j \<le> fst (after c)" "fst (after c) \<le> snd (after c)" "snd (after c) \<le> length a"
    "fst (before c) + j = fst (after c) + i"
    using "2.prems"(1) by auto
  have no: "\<not> overlaps (before c) r" "\<not> overlaps (before c) r'"
    using "2.prems"(9,10) by (auto simp: forward_def split: if_splits)
  have sh: "shift_by (int j - int i) (before c) (after c) = int (snd (after c)) - int (snd (before c))"
    using hd by (auto simp: shift_by_def)
  have step: "translate_from (if snd (before c) \<le> fst s then int (snd (after c)) - int (snd (before c))
      else int j - int i) (forward cs) s = Some p"
    if "translate_from (int j - int i) (forward (c # cs)) s = Some p" for s p
    using that by (auto simp: forward_def sh split: if_splits)
  note low = translate_from_low [OF sc, where u = i and v = j]
  consider (high) "snd (before c) \<le> fst r" | (both) "snd r' \<le> fst (before c)" "\<not> snd (before c) \<le> fst r'"
      "\<not> snd (before c) \<le> fst r"
    | (around) "snd r \<le> fst (before c)" "snd (before c) \<le> fst r'" "\<not> snd (before c) \<le> fst r"
    using not_overlaps_cases [OF no(1) hd(2) "2.prems"(5)] not_overlaps_cases [OF no(2) hd(2) "2.prems"(7)]
      "2.prems"(6) by linarith
  then show ?case
  proof cases
    case high
    then show ?thesis
      using "2.IH" [OF sc "2.prems"(2,3)] step [OF "2.prems"(9)] step [OF "2.prems"(10)] "2.prems"(5-8) by simp
  next
    case both
    then have "fst q + i = fst r + j \<and> snd q + i = snd r + j" "fst q' + i = fst r' + j \<and> snd q' + i = snd r' + j"
      using low [of r q] low [of r' q'] step [OF "2.prems"(9)] step [OF "2.prems"(10)] hd "2.prems"(4-7)
      by auto
    then show ?thesis using "2.prems"(6) by linarith
  next
    case around
    then have "snd q + i = snd r + j"
      using low [of r q] step [OF "2.prems"(9)] hd "2.prems"(4,5) by auto
    then have "snd q \<le> fst (after c)" using around(1) hd by linarith
    moreover obtain n w where r': "r' = (snd (before c) + n, snd (before c) + n + w)"
      using around(2) "2.prems"(7) by (metis le_Suc_ex prod.collapse)
    moreover have "snd (after c) \<le> fst q'"
      using translate_from_script [OF sc "2.prems"(2,3), of n w] step [OF "2.prems"(10)] "2.prems"(8) r'
      by simp
    ultimately show ?thesis using hd(5) by linarith
  qed
qed

lemma translate_mono:
  assumes "edit_script b a cs" "length a \<le> u32_max" "length b \<le> u32_max"
    "fst r \<le> snd r" "snd r \<le> fst r'" "fst r' \<le> snd r'" "snd r' \<le> length b"
    and "translate (forward cs) r = Some q" "translate (forward cs) r' = Some q'"
  shows "snd q \<le> fst q'"
  using translate_from_mono [of 0 0 b a cs r r' q q'] assms by (simp add: edit_script_def translate_def)

text \<open>Two untouched ranges that meet land on ranges that meet.\<close>

fun shift_at :: "int \<Rightarrow> (range \<times> range) list \<Rightarrow> nat \<Rightarrow> int" where
  "shift_at shift [] p = shift"
| "shift_at shift ((src, dst) # es) p = shift_at (if snd src \<le> p then shift_by shift src dst else shift) es p"

lemma translate_from_SomeD:
  "translate_from sh es r = Some q \<Longrightarrow>
     (\<forall>(src, dst) \<in> set es. \<not> overlaps src r) \<and>
     int (fst q) = int (fst r) + shift_at sh es (fst r) \<and> int (snd q) = int (snd r) + shift_at sh es (fst r)"
  by (induction sh es r rule: translate_from.induct)
    (auto split: option.splits if_splits dest!: u32_of_int_SomeD)

lemma shift_at_cong:
  "\<forall>(src, dst) \<in> set es. snd src \<le> p \<longleftrightarrow> snd src \<le> p' \<Longrightarrow> shift_at sh es p = shift_at sh es p'"
  by (induction es arbitrary: sh) auto

lemma translate_contiguous:
  assumes "edit_script b a cs" "translate (forward cs) r = Some q" "translate (forward cs) g = Some h"
    and "fst r \<le> snd r" "fst g = snd r"
  shows "fst h = snd q"
proof -
  note q = translate_from_SomeD [OF assms(2) [unfolded translate_def]]
  note h = translate_from_SomeD [OF assms(3) [unfolded translate_def]]
  have "\<forall>(src, dst) \<in> set (forward cs). snd src \<le> fst r \<longleftrightarrow> snd src \<le> snd r"
  proof clarify
    fix x y u v
    assume e: "((x, y), u, v) \<in> set (forward cs)"
    then obtain c where "c \<in> set cs" "before c = (x, y)" by (auto simp: forward_def)
    then have xy: "x \<le> y"
      using script_from_fst_le [OF assms(1) [unfolded edit_script_def], of c] by simp
    have no: "\<not> overlaps (x, y) r" using q e by fastforce
    have "\<not> y \<le> snd r" if "fst r < y"
    proof
      assume "y \<le> snd r"
      with that no xy show False by (auto simp: overlaps_def range_empty_def split: if_splits)
    qed
    then show "snd (x, y) \<le> fst r \<longleftrightarrow> snd (x, y) \<le> snd r" using assms(4) by (auto simp: not_le [symmetric])
  qed
  from shift_at_cong [OF this] q h assms(5) show ?thesis by simp
qed

text \<open>Lines before the next change can be skipped on both sides.\<close>

lemma script_from_advance:
  assumes "script_from i j b a cs" "i + k \<le> (case cs of [] \<Rightarrow> length b | c # _ \<Rightarrow> fst (before c))"
  shows "script_from (i + k) (j + k) b a cs \<and> slice b i (i + k) = slice a j (j + k)"
proof (cases cs)
  case Nil
  with assms have eq: "drop i b = drop j a" and le: "i + k \<le> length b" "j \<le> length a" by simp_all
  have "length b - i = length a - j" using eq by (metis length_drop)
  then have "j + k \<le> length a" using assms(1) le Nil by simp
  moreover have "drop (i + k) b = drop (j + k) a" using eq by (metis add.commute drop_drop)
  ultimately show ?thesis using le eq Nil by simp
next
  case (Cons c cs')
  with assms have hd: "i \<le> fst (before c)" "j \<le> fst (after c)" "fst (before c) + j = fst (after c) + i"
    "slice b i (fst (before c)) = slice a j (fst (after c))" "i + k \<le> fst (before c)"
    "fst (before c) \<le> length b" "fst (after c) \<le> length a" by auto
  then have k: "j + k \<le> fst (after c)" by linarith
  have "take k (slice b i (fst (before c))) = take k (slice a j (fst (after c)))" using hd(4) by simp
  moreover have "k \<le> fst (before c) - i" "k \<le> fst (after c) - j" using hd(5) k by linarith+
  ultimately have first: "slice b i (i + k) = slice a j (j + k)" by (simp add: min_def)
  have "slice b i (i + k) @ slice b (i + k) (fst (before c)) = slice a j (j + k) @ slice a (j + k) (fst (after c))"
    using slice_append [of i "i + k" "fst (before c)" b] slice_append [of j "j + k" "fst (after c)" a] hd(4,5) k
    by simp
  with first have "slice b (i + k) (fst (before c)) = slice a (j + k) (fst (after c))" by simp
  with first assms(1) Cons hd(3,5) k show ?thesis by simp
qed

section \<open>A group's own changes\<close>

lemma script_from_append:
  "script_from i j b a (xs @ ys) \<Longrightarrow> xs \<noteq> [] \<Longrightarrow>
     (\<forall>c \<in> set xs. snd (before c) \<le> snd (before (last xs)) \<and> snd (after c) \<le> snd (after (last xs))) \<and>
     script_from (snd (before (last xs))) (snd (after (last xs))) b a ys"
proof (induction xs arbitrary: i j)
  case (Cons c xs)
  from Cons.prems(1) have *: "script_from (snd (before c)) (snd (after c)) b a (xs @ ys)" by simp
  show ?case
  proof (cases "xs = []")
    case False
    then have "snd (before c) \<le> snd (before (last xs))" "snd (after c) \<le> snd (after (last xs))"
      using script_from_fst_le [OF *, of "last xs"] by auto
    with Cons.IH [OF * False] False show ?thesis by auto
  qed (use Cons.prems in simp)
qed simp

lemma script_from_hd_le:
  assumes "script_from k m b a (g @ rest)" "c \<in> set g"
  shows "fst (before (hd g)) \<le> fst (before c) \<and> fst (before c) \<le> snd (before c) \<and>
    snd (before c) \<le> snd (before (last g))"
proof -
  obtain us vs where us: "g = us @ c # vs" using assms(2) by (meson split_list)
  have "fst (before (hd g)) \<le> fst (before c)"
  proof (cases us)
    case (Cons d us')
    with us assms(1) have "script_from (snd (before d)) (snd (after d)) b a (us' @ c # vs @ rest)"
      and "fst (before d) \<le> snd (before d)" by auto
    with script_from_fst_le [OF this(1), of c] show ?thesis by (simp add: us Cons)
  qed (simp add: us)
  then show ?thesis
    using script_from_append [OF assms(1)] script_from_fst_le [OF assms(1), of c] assms(2)
    by (cases "g = []") auto
qed

lemma hunk_groups_far:
  assumes "hunk_groups cs = xs @ g # ys"
  shows "xs \<noteq> [] \<longrightarrow> 2 * CONTEXT < fst (before (hd g)) - snd (before (last (last xs)))"
    and "ys \<noteq> [] \<longrightarrow> 2 * CONTEXT < fst (before (hd (hd ys))) - snd (before (last g))"
proof -
  let ?p = "\<lambda>previous next. fst (before next) - snd (before previous) \<le> 2 * CONTEXT"
  have "separated ?p (xs @ g # ys)"
    using separated_chunk_by [of ?p cs] assms by (simp add: hunk_groups_def)
  from separated_append [OF this]
  show "xs \<noteq> [] \<longrightarrow> 2 * CONTEXT < fst (before (hd g)) - snd (before (last (last xs)))"
    and "ys \<noteq> [] \<longrightarrow> 2 * CONTEXT < fst (before (hd (hd ys))) - snd (before (last g))"
    by (simp_all add: not_le)
qed

lemma last_concat: "xs \<noteq> [] \<Longrightarrow> last xs \<noteq> [] \<Longrightarrow> last (concat xs) = last (last xs)"
  by (induction xs rule: rev_induct) auto

lemma filter_group:
  assumes sc: "script_from i j b a cs" and hg: "hunk_groups cs = xs @ g # ys"
  shows "filter (\<lambda>c. overlaps (before c) (fst (before (hd g)), snd (before (last g)))) cs = g"
proof -
  let ?r = "(fst (before (hd g)), snd (before (last g)))"
  have cs: "cs = concat xs @ g @ concat ys" using concat_hunk_groups [of cs] hg by simp
  have ne: "h \<noteq> []" if "h \<in> set xs \<union> {g} \<union> set ys" for h
    using hunk_groups_no_Nil [of h cs] hg that by auto
  have g: "g \<noteq> []" using ne by simp
  obtain k m where rest: "script_from k m b a (g @ concat ys)"
    using script_from_append [of i j b a "concat xs" "g @ concat ys"] sc unfolding cs
    by (cases "concat xs = []") (metis append_Nil, metis)
  have in_g: "overlaps (before c) ?r" if "c \<in> set g" for c
    using script_from_hd_le [OF rest that] by (auto simp: overlaps_def range_empty_def)
  have ordered: "fst (before (hd g)) \<le> snd (before (last g))"
    using script_from_hd_le [OF rest hd_in_set [OF g]] by simp
  have before_g: "\<not> overlaps (before c) ?r" if "c \<in> set (concat xs)" for c
  proof -
    have xs: "xs \<noteq> []" using that by auto
    then have "last (concat xs) = last (last xs)" using ne [of "last xs"] by (simp add: last_concat)
    moreover have "snd (before c) \<le> snd (before (last (concat xs)))"
      using script_from_append [of i j b a "concat xs" "g @ concat ys"] sc that unfolding cs
      by (metis empty_iff empty_set)
    ultimately have "snd (before c) < fst (before (hd g))"
      using hunk_groups_far(1) [OF hg] xs by (simp add: CONTEXT_def)
    then show ?thesis using ordered by (auto simp: overlaps_def range_empty_def split: if_splits)
  qed
  have after_g: "\<not> overlaps (before c) ?r" if "c \<in> set (concat ys)" for c
  proof -
    have "ys \<noteq> []" using that by auto
    then obtain h ys' where ys: "ys = h # ys'" by (meson neq_Nil_conv)
    have "h \<noteq> []" using ne ys by simp
    then have "hd (concat ys) = hd h" by (simp add: ys)
    moreover from script_from_append [OF rest] g
    have "script_from (snd (before (last g))) (snd (after (last g))) b a (concat ys @ [])" by simp
    from script_from_hd_le [OF this that] have "fst (before (hd (concat ys))) \<le> fst (before c)" by simp
    ultimately have "snd (before (last g)) < fst (before c)"
      using hunk_groups_far(2) [OF hg] by (simp add: ys CONTEXT_def)
    then show ?thesis by (auto simp: overlaps_def range_empty_def split: if_splits)
  qed
  show ?thesis unfolding cs
    using in_g before_g after_g by (simp add: filter_empty_conv filter_id_conv)
qed

lemma line_diff_Nil_iff: "line_diff D \<Longrightarrow> D b a = [] \<longleftrightarrow> b = a"
  using line_diff_script [of D b a] by (auto simp: edit_script_def lines_new_eq_iff)

section \<open>A differ for the examples\<close>

text \<open>One change, from the common start of the two texts to their common end.\<close>

fun common_prefix :: "'a list \<Rightarrow> 'a list \<Rightarrow> nat" where
  "common_prefix (x # xs) (y # ys) = (if x = y then Suc (common_prefix xs ys) else 0)"
| "common_prefix _ _ = 0"

definition trim_lines :: "bytes list \<Rightarrow> bytes list \<Rightarrow> change list" where
  "trim_lines b a =
     (if b = a then []
      else let p = common_prefix b a;
               s = common_prefix (rev (drop p b)) (rev (drop p a))
           in [\<lparr>before = (p, length b - s), after = (p, length a - s)\<rparr>])"

definition trim_diff :: differ where
  "trim_diff b a = trim_lines (lines_new b) (lines_new a)"

lemma common_prefix_le: "common_prefix xs ys \<le> length xs \<and> common_prefix xs ys \<le> length ys"
  by (induction xs ys rule: common_prefix.induct) auto

lemma common_prefix_take: "take (common_prefix xs ys) xs = take (common_prefix xs ys) ys"
  by (induction xs ys rule: common_prefix.induct) auto

lemma edit_script_trim: "edit_script b a (trim_lines b a)"
proof (cases "b = a")
  case False
  define p where "p = common_prefix b a"
  define s where "s = common_prefix (rev (drop p b)) (rev (drop p a))"
  have p: "p \<le> length b" "p \<le> length a" "take p b = take p a"
    using common_prefix_le [of b a] common_prefix_take [of b a] by (auto simp: p_def)
  have s: "s \<le> length b - p" "s \<le> length a - p"
    and eq: "take s (rev (drop p b)) = take s (rev (drop p a))"
    using common_prefix_le [of "rev (drop p b)" "rev (drop p a)"]
      common_prefix_take [of "rev (drop p b)" "rev (drop p a)"] by (auto simp: s_def)
  from eq have "drop (length b - p - s) (drop p b) = drop (length a - p - s) (drop p a)"
    by (simp add: take_rev)
  then have dr: "drop (length b - s) b = drop (length a - s) a" using s p by simp
  have "p < length b - s \<or> p < length a - s"
  proof (rule ccontr)
    assume "\<not> ?thesis"
    then have "length b - s = p" "length a - s = p" using s p by auto
    with dr p(3) have "take p b @ drop p b = take p a @ drop p a" by metis
    with False show False by simp
  qed
  with p s dr False show ?thesis
    by (auto simp: edit_script_def trim_lines_def Let_def p_def [symmetric] s_def [symmetric])
qed (simp add: trim_lines_def edit_script_def)

lemma line_diff_trim_diff: "line_diff trim_diff"
  by (simp add: line_diff_def trim_diff_def edit_script_trim) (simp add: trim_lines_def)

end
