(* ===== verification/Attribution.thy ===== *)
theory Attribution
  imports TextLines
begin

text \<open>
  Who accepted the changes a reviewed version holds (crates/review-hunks/src/attribution.rs, with
  \<open>MarkAuthor\<close> of crates/review-types/src/lib.rs).

  An \<open>attribution\<close> names the author of each changed line by runs; \<open>rebuild\<close> is the writer that every
  edit of a reviewed version goes through: it collects the written text, the author of each written
  line and the authors of removed base lines, and \<open>rb_finish\<close> turns them into an attribution of the
  lines that differ from the base. The lemmas show that the runs answer every lookup with the author
  the writer was given, and the locale \<open>line_writer\<close> is the part of the writer's contract that its
  clients use: what a sequence of pushes and removals does to the text and the authors.
\<close>

section \<open>Authors\<close>

datatype mark_author = Reviewer | Jev | Explore bytes | ExploreRead bytes

text \<open>The derived order: the variants in their order, then the field.\<close>

definition author_key :: "mark_author \<Rightarrow> nat \<times> bytes" where
  "author_key a =
     (case a of Reviewer \<Rightarrow> (0, []) | Jev \<Rightarrow> (1, []) | Explore answer \<Rightarrow> (2, answer)
      | ExploreRead request \<Rightarrow> (3, request))"

lemma author_key_inj: "author_key a = author_key b \<longleftrightarrow> a = b"
  by (auto simp: author_key_def split: mark_author.splits)

instantiation mark_author :: linorder
begin

definition less_eq_mark_author :: "mark_author \<Rightarrow> mark_author \<Rightarrow> bool" where
  "less_eq_mark_author a b \<longleftrightarrow> author_key a \<le> author_key b"

definition less_mark_author :: "mark_author \<Rightarrow> mark_author \<Rightarrow> bool" where
  "less_mark_author a b \<longleftrightarrow> author_key a < author_key b"

instance
proof
  fix a b c :: mark_author
  show "a < b \<longleftrightarrow> a \<le> b \<and> \<not> b \<le> a"
    by (simp add: less_eq_mark_author_def less_mark_author_def less_le_not_le)
  show "a \<le> a" by (simp add: less_eq_mark_author_def)
  show "a \<le> b \<Longrightarrow> b \<le> c \<Longrightarrow> a \<le> c"
    unfolding less_eq_mark_author_def by (rule order_trans)
  show "a \<le> b \<Longrightarrow> b \<le> a \<Longrightarrow> a = b"
    by (metis author_key_inj less_eq_mark_author_def order_antisym)
  show "a \<le> b \<or> b \<le> a" by (simp add: less_eq_mark_author_def linear)
qed

end

record authored_lines =
  al_lines :: range
  al_author :: mark_author

record attribution =
  at_default :: mark_author
  at_removed :: "authored_lines list"
  at_added :: "authored_lines list"

record reviewed =
  rv_text :: bytes
  rv_attribution :: attribution

definition uniform :: "mark_author \<Rightarrow> attribution" where
  "uniform a = \<lparr>at_default = a, at_removed = [], at_added = []\<rparr>"

definition REVIEWER_ONLY :: attribution where
  "REVIEWER_ONLY = \<lparr>at_default = Reviewer, at_removed = [], at_added = []\<rparr>"

definition uniform_author :: "attribution \<Rightarrow> mark_author option" where
  "uniform_author at = (if at_removed at = [] \<and> at_added at = [] then Some (at_default at) else None)"

fun author_in :: "authored_lines list \<Rightarrow> nat \<Rightarrow> mark_author option" where
  "author_in [] l = None"
| "author_in (e # es) l = (if in_range (al_lines e) l then Some (al_author e) else author_in es l)"

definition removed_by :: "attribution \<Rightarrow> nat \<Rightarrow> mark_author" where
  "removed_by at l = (case author_in (at_removed at) l of Some a \<Rightarrow> a | None \<Rightarrow> at_default at)"

definition added_by :: "attribution \<Rightarrow> nat \<Rightarrow> mark_author" where
  "added_by at l = (case author_in (at_added at) l of Some a \<Rightarrow> a | None \<Rightarrow> at_default at)"

definition run_step :: "mark_author \<Rightarrow> authored_lines list \<Rightarrow> nat \<times> mark_author \<Rightarrow> authored_lines list" where
  "run_step d rs la =
     (case la of (l, a) \<Rightarrow>
        if a = d then rs
        else if rs \<noteq> [] \<and> snd (al_lines (last rs)) = l \<and> al_author (last rs) = a
        then butlast rs @ [\<lparr>al_lines = (fst (al_lines (last rs)), snd (al_lines (last rs)) + 1), al_author = a\<rparr>]
        else rs @ [\<lparr>al_lines = (l, l + 1), al_author = a\<rparr>])"

definition runs :: "mark_author \<Rightarrow> (nat \<times> mark_author) list \<Rightarrow> authored_lines list" where
  "runs d authors = foldl (run_step d) [] authors"

section \<open>The writer\<close>

record rebuild =
  rb_default :: mark_author
  rb_text :: bytes
  rb_authors :: "mark_author list"
  rb_removed :: "nat \<rightharpoonup> mark_author"

definition rb_with_default :: "mark_author \<Rightarrow> rebuild" where
  "rb_with_default d = \<lparr>rb_default = d, rb_text = [], rb_authors = [], rb_removed = Map.empty\<rparr>"

definition rb_push :: "rebuild \<Rightarrow> bytes \<Rightarrow> mark_author \<Rightarrow> rebuild" where
  "rb_push rb line a = rb\<lparr>rb_text := rb_text rb @ line, rb_authors := rb_authors rb @ [a]\<rparr>"

definition rb_remove :: "rebuild \<Rightarrow> nat \<Rightarrow> mark_author \<Rightarrow> rebuild" where
  "rb_remove rb line a = rb\<lparr>rb_removed := (rb_removed rb)(line \<mapsto> a)\<rparr>"

definition push_lines :: "rebuild \<Rightarrow> (bytes \<times> mark_author) list \<Rightarrow> rebuild" where
  "push_lines rb xs = foldl (\<lambda>rb (line, a). rb_push rb line a) rb xs"

definition remove_lines :: "rebuild \<Rightarrow> (nat \<times> mark_author) list \<Rightarrow> rebuild" where
  "remove_lines rb xs = foldl (\<lambda>rb (line, a). rb_remove rb line a) rb xs"

definition entry_lines :: "authored_lines list \<Rightarrow> (nat \<times> mark_author) list" where
  "entry_lines es = concat (map (\<lambda>e. map (\<lambda>l. (l, al_author e)) (range_list (al_lines e))) es)"

definition rb_on :: "attribution \<Rightarrow> rebuild" where
  "rb_on previous = remove_lines (rb_with_default (at_default previous)) (entry_lines (at_removed previous))"

definition rb_keep :: "rebuild \<Rightarrow> bytes list \<Rightarrow> range \<Rightarrow> attribution \<Rightarrow> rebuild option" where
  "rb_keep rb ls r at =
     (case lines_get ls r of
        None \<Rightarrow> None
      | Some texts \<Rightarrow> Some (push_lines rb (map (\<lambda>(l, t). (t, added_by at l)) (zip (range_list r) texts))))"

definition rb_author :: "rebuild \<Rightarrow> nat \<Rightarrow> mark_author" where
  "rb_author rb l = (case list_get (rb_authors rb) l of Some a \<Rightarrow> a | None \<Rightarrow> rb_default rb)"

definition rb_remover :: "rebuild \<Rightarrow> nat \<Rightarrow> mark_author" where
  "rb_remover rb l = (case rb_removed rb l of Some a \<Rightarrow> a | None \<Rightarrow> rb_default rb)"

definition changed_after :: "change list \<Rightarrow> nat list" where
  "changed_after cs = concat (map (\<lambda>c. range_list (after c)) cs)"

definition changed_before :: "change list \<Rightarrow> nat list" where
  "changed_before cs = concat (map (\<lambda>c. range_list (before c)) cs)"

definition rb_finish :: "differ \<Rightarrow> rebuild \<Rightarrow> bytes \<Rightarrow> reviewed" where
  "rb_finish D rb base =
     (let cs = D base (rb_text rb);
          added = map (\<lambda>l. (l, rb_author rb l)) (changed_after cs);
          removed = map (\<lambda>l. (l, rb_remover rb l)) (changed_before cs);
          d = (case map snd (added @ removed) of
                 [] \<Rightarrow> rb_default rb
               | first # rest \<Rightarrow> if list_all (\<lambda>a. a = first) rest then first else rb_default rb)
      in \<lparr>rv_text = rb_text rb,
          rv_attribution = \<lparr>at_default = d, at_removed = runs d removed, at_added = runs d added\<rparr>\<rparr>)"

section \<open>The runs answer every lookup\<close>

lemma author_in_append:
  "author_in (es @ fs) l = (case author_in es l of Some a \<Rightarrow> Some a | None \<Rightarrow> author_in fs l)"
  by (induction es) auto

lemma author_in_None: "\<forall>e \<in> set es. snd (al_lines e) \<le> l \<Longrightarrow> author_in es l = None"
  by (induction es) (auto simp: in_range_def)

lemma runs_snoc: "runs d (xs @ [x]) = run_step d (runs d xs) x"
  by (simp add: runs_def)

lemma runs_Nil [simp]: "runs d [] = []"
  by (simp add: runs_def)

lemma runs_ends:
  "\<forall>x \<in> set xs. fst x < l \<Longrightarrow> e \<in> set (runs d xs) \<Longrightarrow>
     fst (al_lines e) < snd (al_lines e) \<and> snd (al_lines e) \<le> l"
proof (induction xs arbitrary: l e rule: rev_induct)
  case (snoc x xs)
  obtain n a where x: "x = (n, a)" by (cases x)
  from snoc.prems(1) have xs: "\<forall>x \<in> set xs. fst x < l" and n: "Suc n \<le> l" by (auto simp: x)
  show ?case
  proof (cases "e \<in> set (runs d xs)")
    case True
    then show ?thesis using snoc.IH xs by blast
  next
    case False
    with snoc.prems(2) n snoc.IH [OF xs last_in_set] show ?thesis
      by (auto simp: runs_snoc x run_step_def split: if_splits dest: in_set_butlastD)
  qed
qed simp

text \<open>The author of one line among the lines given, unless it is the default author.\<close>

definition authored :: "mark_author \<Rightarrow> (nat \<times> mark_author) list \<Rightarrow> nat \<Rightarrow> mark_author option" where
  "authored d xs l = (case map_of xs l of Some a \<Rightarrow> if a = d then None else Some a | None \<Rightarrow> None)"

lemma authored_snoc:
  "\<forall>x \<in> set xs. fst x < n \<Longrightarrow>
     authored d (xs @ [(n, a)]) l = (if l = n then (if a = d then None else Some a) else authored d xs l)"
proof -
  assume *: "\<forall>x \<in> set xs. fst x < n"
  then have "map_of xs n = None" by (force simp: map_of_eq_None_iff)
  then show ?thesis by (auto simp: authored_def map_add_def split: option.splits)
qed

lemma author_in_run_step:
  assumes "\<forall>e \<in> set rs. fst (al_lines e) < snd (al_lines e) \<and> snd (al_lines e) \<le> n"
  shows "author_in (run_step d rs (n, a)) l =
    (if l = n then (if a = d then None else Some a) else author_in rs l)"
proof -
  consider (default) "a = d"
    | (extend) "a \<noteq> d" "rs \<noteq> []" "snd (al_lines (last rs)) = n" "al_author (last rs) = a"
    | (new) "a \<noteq> d" "\<not> (rs \<noteq> [] \<and> snd (al_lines (last rs)) = n \<and> al_author (last rs) = a)"
    by blast
  then show ?thesis
  proof cases
    case default
    then show ?thesis using author_in_None [of rs n] assms by (auto simp: run_step_def)
  next
    case extend
    obtain es e where rs: "rs = es @ [e]" using extend(2) by (metis append_butlast_last_id)
    have "author_in es n = None" using author_in_None [of es n] assms by (simp add: rs)
    then show ?thesis using extend assms
      by (auto simp: run_step_def rs author_in_append in_range_def split: option.splits)
  next
    case new
    have "author_in rs n = None" using author_in_None [of rs n] assms by simp
    then show ?thesis using new
      by (auto simp: run_step_def author_in_append in_range_def split: option.splits)
  qed
qed

lemma author_in_runs:
  "sorted_wrt (<) (map fst xs) \<Longrightarrow> author_in (runs d xs) l = authored d xs l"
proof (induction xs rule: rev_induct)
  case (snoc x xs)
  obtain n a where x: "x = (n, a)" by (cases x)
  from snoc.prems have lt: "\<forall>y \<in> set xs. fst y < n" and sorted: "sorted_wrt (<) (map fst xs)"
    by (auto simp: sorted_wrt_append x)
  have "\<forall>e \<in> set (runs d xs). fst (al_lines e) < snd (al_lines e) \<and> snd (al_lines e) \<le> n"
    using runs_ends [OF lt] by blast
  then show ?case
    using snoc.IH [OF sorted] by (simp add: runs_snoc x author_in_run_step authored_snoc [OF lt])
qed (simp add: authored_def)

section \<open>What the writer records\<close>

lemma changed_Cons [simp]:
  "changed_after (c # cs) = range_list (after c) @ changed_after cs"
  "changed_before (c # cs) = range_list (before c) @ changed_before cs"
  by (simp_all add: changed_after_def changed_before_def)

lemma changed_Nil [simp]: "changed_after [] = []" "changed_before [] = []"
  by (simp_all add: changed_after_def changed_before_def)

lemma sorted_ranges_Cons:
  assumes "sorted_wrt (<) ls" "\<forall>l \<in> set ls. snd r \<le> l \<and> l < n" "fst r \<le> snd r" "k \<le> fst r" "snd r \<le> n"
  shows "sorted_wrt (<) (range_list r @ ls) \<and> (\<forall>l \<in> set (range_list r @ ls). k \<le> l \<and> l < n)"
proof -
  have "sorted_wrt (<) (range_list r)" by (simp add: range_list_def)
  moreover have "\<forall>l \<in> set (range_list r @ ls). k \<le> l \<and> l < n"
    using assms by (auto simp: in_range_def)
  moreover have "\<forall>x \<in> set (range_list r). \<forall>y \<in> set ls. x < y"
    using assms(2) by (auto simp: in_range_def)
  ultimately show ?thesis using assms(1) by (simp add: sorted_wrt_append)
qed

lemma sorted_concat_ranges:
  "script_from i j b a cs \<Longrightarrow>
     (sorted_wrt (<) (changed_after cs) \<and> (\<forall>l \<in> set (changed_after cs). j \<le> l \<and> l < length a)) \<and>
     (sorted_wrt (<) (changed_before cs) \<and> (\<forall>l \<in> set (changed_before cs). i \<le> l \<and> l < length b))"
proof (induction i j b a cs rule: script_from.induct)
  case (2 i j b a c cs)
  from "2.prems" have sc: "script_from (snd (before c)) (snd (after c)) b a cs" by simp
  from "2.IH" [OF sc] "2.prems" show ?case
    using sorted_ranges_Cons [of "changed_after cs" "after c" "length a" j]
      sorted_ranges_Cons [of "changed_before cs" "before c" "length b" i]
    by (simp only: changed_Cons) simp
qed simp

lemma edit_script_sorted:
  assumes "edit_script b a cs"
  shows "sorted_wrt (<) (changed_after cs)" "sorted_wrt (<) (changed_before cs)"
  using sorted_concat_ranges assms unfolding edit_script_def by blast+

lemma set_changed_after: "set (changed_after cs) = {l. \<exists>c \<in> set cs. in_range (after c) l}"
  by (auto simp: changed_after_def)

lemma set_changed_before: "set (changed_before cs) = {l. \<exists>c \<in> set cs. in_range (before c) l}"
  by (auto simp: changed_before_def)

lemma map_of_tabulate: "map_of (map (\<lambda>l. (l, f l)) ls) l = (if l \<in> set ls then Some (f l) else None)"
  by (induction ls) auto

lemma author_in_runs_tabulate:
  assumes "sorted_wrt (<) ls"
  shows "author_in (runs d (map (\<lambda>l. (l, f l)) ls)) l =
    (if l \<in> set ls \<and> f l \<noteq> d then Some (f l) else None)"
  using assms by (simp add: author_in_runs o_def authored_def map_of_tabulate)

lemma rb_finish_text [simp]: "rv_text (rb_finish D rb base) = rb_text rb"
  by (simp add: rb_finish_def Let_def)

lemma rb_finish_added_by:
  assumes "line_diff D" "c \<in> set (D base (rb_text rb))" "in_range (after c) l"
  shows "added_by (rv_attribution (rb_finish D rb base)) l = rb_author rb l"
  using assms edit_script_sorted(1) [OF line_diff_script [OF assms(1)]]
  by (auto simp: rb_finish_def Let_def added_by_def author_in_runs_tabulate set_changed_after)

lemma rb_finish_removed_by:
  assumes "line_diff D" "c \<in> set (D base (rb_text rb))" "in_range (before c) l"
  shows "removed_by (rv_attribution (rb_finish D rb base)) l = rb_remover rb l"
  using assms edit_script_sorted(2) [OF line_diff_script [OF assms(1)]]
  by (auto simp: rb_finish_def Let_def removed_by_def author_in_runs_tabulate set_changed_before)

text \<open>A line that differs from the base nowhere has no entry of its own.\<close>

lemma rb_finish_unchanged:
  assumes "line_diff D" "\<forall>c \<in> set (D base (rb_text rb)). \<not> in_range (after c) l"
  shows "author_in (at_added (rv_attribution (rb_finish D rb base))) l = None"
  using assms edit_script_sorted(1) [OF line_diff_script [OF assms(1)]]
  by (auto simp: rb_finish_def Let_def author_in_runs_tabulate set_changed_after)

lemma runs_default: "\<forall>x \<in> set xs. snd x = d \<Longrightarrow> runs d xs = []"
  by (induction xs rule: rev_induct) (auto simp: runs_snoc run_step_def)

lemma edit_script_changed:
  "edit_script b a cs \<Longrightarrow> cs \<noteq> [] \<Longrightarrow> changed_after cs \<noteq> [] \<or> changed_before cs \<noteq> []"
  by (cases cs) (auto simp: edit_script_def range_empty_def)

lemma rb_finish_uniform:
  assumes "\<forall>l \<in> set (changed_after (D base (rb_text rb))). rb_author rb l = a"
    and "\<forall>l \<in> set (changed_before (D base (rb_text rb))). rb_remover rb l = a"
    and "line_diff D" "base \<noteq> rb_text rb"
  shows "rv_attribution (rb_finish D rb base) = uniform a"
proof -
  let ?cs = "D base (rb_text rb)"
  let ?ad = "map (\<lambda>l. (l, rb_author rb l)) (changed_after ?cs)"
  let ?rm = "map (\<lambda>l. (l, rb_remover rb l)) (changed_before ?cs)"
  have all: "\<forall>x \<in> set (?ad @ ?rm). snd x = a" using assms(1,2) by auto
  have subset: "snd ` set (?ad @ ?rm) \<subseteq> {a}" using assms(1,2) by auto
  have "changed_after ?cs \<noteq> [] \<or> changed_before ?cs \<noteq> []"
    using edit_script_changed [OF line_diff_script [OF assms(3)]] line_diff_Nil_iff [OF assms(3)]
      assms(4) by metis
  then obtain first rest where fr: "map snd (?ad @ ?rm) = first # rest"
    by (cases "map snd (?ad @ ?rm)") auto
  have "set (first # rest) = snd ` set (?ad @ ?rm)" by (metis fr set_map)
  with subset have "set (first # rest) \<subseteq> {a}" by simp
  then have "first = a" "list_all (\<lambda>x. x = first) rest" by (auto simp: list_all_iff)
  with fr all show ?thesis
    by (simp add: rb_finish_def Let_def uniform_def runs_default del: map_append)
qed

section \<open>The writer's contract\<close>

text \<open>What the edits of a reviewed version rely on: a push appends its line to the text and its author
  to the authors, a removal changes neither.\<close>

locale line_writer =
  fixes wtext :: "'w \<Rightarrow> bytes"
    and auths :: "'w \<Rightarrow> mark_author list"
    and push :: "'w \<Rightarrow> bytes \<Rightarrow> mark_author \<Rightarrow> 'w"
    and remove :: "'w \<Rightarrow> nat \<Rightarrow> mark_author \<Rightarrow> 'w"
  assumes wtext_push: "wtext (push w l a) = wtext w @ l"
    and auths_push: "auths (push w l a) = auths w @ [a]"
    and wtext_remove: "wtext (remove w n a) = wtext w"
    and auths_remove: "auths (remove w n a) = auths w"
begin

lemma wtext_pushes: "wtext (foldl (\<lambda>w (l, a). push w l a) w xs) = wtext w @ concat (map fst xs)"
  by (induction xs arbitrary: w) (auto simp: wtext_push)

lemma auths_pushes: "auths (foldl (\<lambda>w (l, a). push w l a) w xs) = auths w @ map snd xs"
  by (induction xs arbitrary: w) (auto simp: auths_push)

lemma wtext_removes: "wtext (foldl (\<lambda>w (n, a). remove w n a) w xs) = wtext w"
  by (induction xs arbitrary: w) (auto simp: wtext_remove)

lemma auths_removes: "auths (foldl (\<lambda>w (n, a). remove w n a) w xs) = auths w"
  by (induction xs arbitrary: w) (auto simp: auths_remove)

lemma pushes_lines:
  "wtext w = concat ls \<Longrightarrow> lines_ok (ls @ map fst xs) \<Longrightarrow>
     lines_new (wtext (foldl (\<lambda>w (l, a). push w l a) w xs)) = ls @ map fst xs"
  by (simp add: wtext_pushes lines_new_def split_inclusive_concat flip: concat_append)

end

interpretation rb: line_writer rb_text rb_authors rb_push rb_remove
  by unfold_locales (simp_all add: rb_push_def rb_remove_def)

lemma rb_with_default_simps [simp]:
  "rb_text (rb_with_default d) = []" "rb_authors (rb_with_default d) = []"
  "rb_default (rb_with_default d) = d" "rb_removed (rb_with_default d) = Map.empty"
  by (simp_all add: rb_with_default_def)

lemma push_lines_simps [simp]:
  "rb_text (push_lines rb xs) = rb_text rb @ concat (map fst xs)"
  "rb_authors (push_lines rb xs) = rb_authors rb @ map snd xs"
  by (simp_all add: push_lines_def rb.wtext_pushes rb.auths_pushes)

lemma push_lines_default [simp]: "rb_default (push_lines rb xs) = rb_default rb"
  by (induction xs arbitrary: rb) (auto simp: push_lines_def rb_push_def)

lemma push_lines_removed [simp]: "rb_removed (push_lines rb xs) = rb_removed rb"
  by (induction xs arbitrary: rb) (auto simp: push_lines_def rb_push_def)

lemma remove_lines_simps [simp]:
  "rb_text (remove_lines rb xs) = rb_text rb" "rb_authors (remove_lines rb xs) = rb_authors rb"
  by (simp_all add: remove_lines_def rb.wtext_removes rb.auths_removes)

lemma remove_lines_default [simp]: "rb_default (remove_lines rb xs) = rb_default rb"
  by (induction xs arbitrary: rb) (auto simp: remove_lines_def rb_remove_def)

lemma remove_lines_removed: "rb_removed (remove_lines rb xs) = rb_removed rb ++ map_of (rev xs)"
  by (induction xs arbitrary: rb)
    (auto simp: remove_lines_def rb_remove_def map_add_def fun_eq_iff split: option.splits)

lemma rb_on_simps [simp]:
  "rb_text (rb_on at) = []" "rb_authors (rb_on at) = []" "rb_default (rb_on at) = at_default at"
  by (simp_all add: rb_on_def)

lemma rb_keep_SomeD:
  assumes "rb_keep rb ls r at = Some rb'"
  shows "rb_text rb' = rb_text rb @ concat (slice ls (fst r) (snd r)) \<and>
    rb_authors rb' = rb_authors rb @ map (added_by at) (range_list r) \<and>
    rb_default rb' = rb_default rb \<and> rb_removed rb' = rb_removed rb \<and>
    fst r \<le> snd r \<and> snd r \<le> length ls"
proof -
  from assms obtain ts where ts: "slice_get ls r = Some ts"
    and rb': "rb' = push_lines rb (map (\<lambda>(l, t). (t, added_by at l)) (zip (range_list r) ts))"
    by (auto simp: rb_keep_def lines_get_def split: option.splits)
  from slice_get_SomeD [OF ts]
  have r: "fst r \<le> snd r" "snd r \<le> length ls" "ts = slice ls (fst r) (snd r)" by auto
  then have "length (range_list r) = length ts" by simp
  then have "map fst (map (\<lambda>(l, t). (t, added_by at l)) (zip (range_list r) ts)) = ts"
    "map snd (map (\<lambda>(l, t). (t, added_by at l)) (zip (range_list r) ts)) = map (added_by at) (range_list r)"
    using map_zip_fst [of "range_list r" ts "added_by at"] map_zip_snd [of "range_list r" ts id]
    by (simp_all add: o_def case_prod_beta)
  with r show ?thesis unfolding rb' by (simp only: push_lines_simps push_lines_default push_lines_removed)
qed

lemma rb_keep_Some_iff:
  "(\<exists>rb'. rb_keep rb ls r at = Some rb') \<longleftrightarrow> fst r \<le> snd r \<and> snd r \<le> length ls"
  by (auto simp: rb_keep_def lines_get_def slice_get_def)

end
