(* ===== verification/DiffRows.thy ===== *)
theory DiffRows
  imports ByteText
begin

text \<open>
  The parsed rows of a Git-style unified diff (crates/review-repository/src/diff.rs) and the part of
  the repository's data that the review works on (crates/review-repository/src/repository.rs): paths
  and their display, file kinds, changed files and diff statistics.

  The parser is total: whatever it cannot place becomes a notice. \<open>hunk_rows_ok\<close> says what rows
  without a notice look like, and the lemmas show that the parser produces no others: every hunk
  header is followed by exactly the rows it counts, numbered consecutively from where it starts.
\<close>

section \<open>Paths\<close>

type_synonym repo_path = bytes

definition hex_digit :: "nat \<Rightarrow> byte" where
  "hex_digit d = (if d < 10 then char_of (48 + d) else char_of (87 + d))"

definition hex_byte :: "byte \<Rightarrow> bytes" where
  "hex_byte c = [hex_digit (of_char c div 16), hex_digit (of_char c mod 16)]"

definition backslash :: byte where "backslash = CHR 0x5C"

text \<open>\<open>std::ascii::escape_default\<close>.\<close>

definition ascii_escape :: "byte \<Rightarrow> bytes" where
  "ascii_escape c =
     (if c = CHR 0x09 then [backslash, CHR ''t'']
      else if c = cr then [backslash, CHR ''r'']
      else if c = nl then [backslash, CHR ''n'']
      else if c = CHR 0x27 \<or> c = CHR 0x22 \<or> c = backslash then [backslash, c]
      else if 32 \<le> (of_char c :: nat) \<and> of_char c \<le> (126 :: nat) then [c]
      else [backslash, CHR ''x''] @ hex_byte c)"

text \<open>One character of a valid text, as its UTF-8 octets. The characters after ASCII that
  \<open>char::is_control\<close> accepts are U+0080 to U+009F.\<close>

definition char_display :: "bytes \<Rightarrow> bytes" where
  "char_display s =
     (case s of
        [c] \<Rightarrow> ascii_escape c
      | [b, c] \<Rightarrow>
          if b = CHR 0xC2 \<and> (of_char c :: nat) < 160
          then [backslash, CHR ''u'', CHR 0x7B] @ hex_byte c @ [CHR 0x7D] else s
      | _ \<Rightarrow> s)"

function display_chars :: "bytes \<Rightarrow> bytes" where
  "display_chars t =
     (if t = [] then []
      else char_display (take (snd (utf8_step t)) t) @ display_chars (drop (snd (utf8_step t)) t))"
  by pat_completeness auto
termination
proof (relation "measure length")
  fix t :: bytes
  assume "t \<noteq> []"
  then show "(drop (snd (utf8_step t)) t, t) \<in> measure length"
    using utf8_step_pos [of t] by simp
qed simp

declare display_chars.simps [simp del]

definition path_display :: "repo_path \<Rightarrow> bytes" where
  "path_display p = (if utf8_valid p then display_chars p else concat (map ascii_escape p))"

section \<open>Changed files\<close>

datatype file_kind = Absent | File | Symlink | ConflictKind | Gitlink

datatype change_kind = Added | Modified | Deleted | Renamed | TypeChanged | ConflictChange

record diff_statistics =
  lines_added :: nat
  lines_removed :: nat

record changed_file =
  old_path :: "repo_path option"
  new_path :: "repo_path option"
  old_kind :: file_kind
  new_kind :: file_kind
  change_of :: change_kind
  display_path :: bytes
  statistics :: diff_statistics

definition stat_lines :: "diff_statistics \<Rightarrow> nat" where
  "stat_lines s = lines_added s + lines_removed s"

definition stat_step :: "diff_statistics \<times> bool \<Rightarrow> bytes \<Rightarrow> diff_statistics \<times> bool" where
  "stat_step st line =
     (case st of (s, in_hunk) \<Rightarrow>
        if starts_with ''diff --git '' line then (s, False)
        else if starts_with ''@@ '' line then (s, True)
        else if in_hunk \<and> starts_with ''+'' line then (s\<lparr>lines_added := lines_added s + 1\<rparr>, in_hunk)
        else if in_hunk \<and> starts_with ''-'' line then (s\<lparr>lines_removed := lines_removed s + 1\<rparr>, in_hunk)
        else (s, in_hunk))"

definition from_unified_diff :: "bytes \<Rightarrow> diff_statistics" where
  "from_unified_diff diff =
     fst (foldl stat_step (\<lparr>lines_added = 0, lines_removed = 0\<rparr>, False) (split_nl diff))"

definition modified_file :: "bytes \<Rightarrow> changed_file" where
  "modified_file path =
     \<lparr>old_path = Some path, new_path = Some path, old_kind = File, new_kind = File,
      change_of = Modified, display_path = path_display path,
      statistics = \<lparr>lines_added = 0, lines_removed = 0\<rparr>\<rparr>"

text \<open>\<open>None\<close> is the panic of a file without any path.\<close>

definition review_path :: "changed_file \<Rightarrow> repo_path option" where
  "review_path f = (case new_path f of Some p \<Rightarrow> Some p | None \<Rightarrow> old_path f)"

definition changes_text_lines :: "changed_file \<Rightarrow> bool" where
  "changes_text_lines f \<longleftrightarrow> 0 < stat_lines (statistics f)"

definition file_display_path :: "repo_path option \<Rightarrow> repo_path option \<Rightarrow> bytes option" where
  "file_display_path old new =
     (case (old, new) of
        (Some o', Some n) \<Rightarrow>
          if o' \<noteq> n then Some (path_display o' @ '' => '' @ path_display n) else Some (path_display o')
      | (Some o', None) \<Rightarrow> Some (path_display o')
      | (None, Some n) \<Rightarrow> Some (path_display n)
      | (None, None) \<Rightarrow> None)"

section \<open>Rows\<close>

datatype notice_kind = Binary | Conflict | Unsupported

datatype diff_row =
    FileHeader "repo_path option" "repo_path option" bytes
  | Meta bytes
  | Hunk nat nat nat nat
  | Context nat nat bytes
  | Delete nat bytes
  | Add nat bytes
  | Notice notice_kind bytes

datatype conflict_marker_mode = HistoricalDiffRows | CurrentConflictNotices

record active_hunk =
  ah_old_start :: nat
  ah_old_count :: nat
  ah_new_start :: nat
  ah_new_count :: nat
  ah_old_seen :: nat
  ah_new_seen :: nat

record diff_parser =
  dp_rows :: "diff_row list"
  dp_hunk :: "active_hunk option"

definition MAX_LINE_BYTES :: nat where
  "MAX_LINE_BYTES = 16 * 1024 * 1024"

definition parse_range :: "bytes \<Rightarrow> (nat \<times> nat) option" where
  "parse_range v =
     (case split_once '','' v of
        Some (start, count) \<Rightarrow>
          (case (parse_u32 start, parse_u32 count) of
             (Some s, Some c) \<Rightarrow> Some (s, c) | _ \<Rightarrow> None)
      | None \<Rightarrow> map_option (\<lambda>s. (s, 1)) (parse_u32 v))"

definition hunk_parse :: "bytes \<Rightarrow> active_hunk option" where
  "hunk_parse line =
     (case strip_prefix ''@@ -'' line of None \<Rightarrow> None
      | Some rest \<Rightarrow>
     (case split_once '' +'' rest of None \<Rightarrow> None
      | Some (old, rest) \<Rightarrow>
     (case split_once '' @@'' rest of None \<Rightarrow> None
      | Some (new, _) \<Rightarrow>
     (case (parse_range old, parse_range new) of
        (Some (os, oc), Some (ns, nc)) \<Rightarrow>
          Some \<lparr>ah_old_start = os, ah_old_count = oc, ah_new_start = ns, ah_new_count = nc,
                ah_old_seen = 0, ah_new_seen = 0\<rparr>
      | _ \<Rightarrow> None))))"

definition hunk_header :: "active_hunk \<Rightarrow> diff_row" where
  "hunk_header h = Hunk (ah_old_start h) (ah_old_count h) (ah_new_start h) (ah_new_count h)"

definition is_conflict_marker :: "bytes \<Rightarrow> bool" where
  "is_conflict_marker line \<longleftrightarrow>
     contains ''<<<<<<< conflict'' line \<or> contains ''%%%%%%% diff from:'' line \<or>
     contains (replicate 7 backslash @ ''        to:'') line \<or> contains ''>>>>>>> conflict'' line"

definition see :: "bool \<Rightarrow> bool \<Rightarrow> active_hunk \<Rightarrow> active_hunk" where
  "see old new h =
     h\<lparr>ah_old_seen := if old then u32_add (ah_old_seen h) 1 else ah_old_seen h,
       ah_new_seen := if new then u32_add (ah_new_seen h) 1 else ah_new_seen h\<rparr>"

definition advance :: "byte option \<Rightarrow> active_hunk \<Rightarrow> active_hunk" where
  "advance marker h =
     (if marker = Some (CHR '' '') then see True True h
      else if marker = Some (CHR ''-'') then see True False h
      else if marker = Some (CHR ''+'') then see False True h
      else h)"

definition first_byte :: "bytes \<Rightarrow> byte option" where
  "first_byte line = (case line of [] \<Rightarrow> None | c # _ \<Rightarrow> Some c)"

definition no_newline_marker :: bytes where
  "no_newline_marker = backslash # '' No newline at end of file''"

definition hunk_push ::
  "bytes \<Rightarrow> conflict_marker_mode \<Rightarrow> active_hunk \<Rightarrow> diff_row list \<Rightarrow> active_hunk \<times> diff_row list" where
  "hunk_push line mode h rows =
     (let old_line = u32_add (ah_old_start h) (ah_old_seen h);
          new_line = u32_add (ah_new_start h) (ah_new_seen h);
          marker = first_byte line
      in if starts_with no_newline_marker line then (h, rows @ [Meta line])
         else if mode = CurrentConflictNotices \<and> is_conflict_marker line
         then (advance marker h, rows @ [Notice Conflict line])
         else if marker = Some (CHR '' '') then (see True True h, rows @ [Context old_line new_line line])
         else if marker = Some (CHR ''-'') then (see True False h, rows @ [Delete old_line line])
         else if marker = Some (CHR ''+'') then (see False True h, rows @ [Add new_line line])
         else (h, rows @ [Notice Unsupported line]))"

definition is_complete :: "active_hunk \<Rightarrow> bool" where
  "is_complete h \<longleftrightarrow> ah_old_seen h = ah_old_count h \<and> ah_new_seen h = ah_new_count h"

definition PREFIXES :: "bytes list" where
  "PREFIXES = [''index '', ''--- '', ''+++ '', ''old mode '', ''new mode '', ''new file mode '',
     ''deleted file mode '', ''similarity index '', ''rename from '', ''rename to '']"

definition is_metadata :: "bytes \<Rightarrow> bool" where
  "is_metadata line \<longleftrightarrow> line = [] \<or> list_ex (\<lambda>p. starts_with p line) PREFIXES"

definition binary_notice :: diff_row where
  "binary_notice = Notice Binary ''Binary file; text diff is unavailable''"

definition metadata :: "bytes \<Rightarrow> diff_row" where
  "metadata line =
     (if starts_with ''Binary files '' line \<or> line = ''GIT binary patch'' then binary_notice
      else if is_metadata line then Meta line
      else Notice Unsupported line)"

definition finish_hunk :: "diff_parser \<Rightarrow> diff_parser" where
  "finish_hunk p =
     (case dp_hunk p of
        None \<Rightarrow> p
      | Some h \<Rightarrow>
          \<lparr>dp_rows = (if is_complete h then dp_rows p
             else dp_rows p @ [Notice Unsupported ''Unified diff hunk row count does not match its header'']),
           dp_hunk = None\<rparr>)"

definition parser_push :: "conflict_marker_mode \<Rightarrow> diff_parser \<Rightarrow> bytes \<Rightarrow> diff_parser" where
  "parser_push mode p line =
     (if starts_with ''diff --git '' line
      then (let p = finish_hunk p in p\<lparr>dp_rows := dp_rows p @ [FileHeader None None line]\<rparr>)
      else case hunk_parse line of
        Some h \<Rightarrow>
          (let p = finish_hunk p in p\<lparr>dp_rows := dp_rows p @ [hunk_header h], dp_hunk := Some h\<rparr>)
      | None \<Rightarrow>
          (case dp_hunk p of
             Some h \<Rightarrow>
               (case hunk_push line mode h (dp_rows p) of (h', rows) \<Rightarrow> \<lparr>dp_rows = rows, dp_hunk = Some h'\<rparr>)
           | None \<Rightarrow> p\<lparr>dp_rows := dp_rows p @ [metadata line]\<rparr>))"

definition parse_diff :: "bytes \<Rightarrow> conflict_marker_mode \<Rightarrow> diff_row list" where
  "parse_diff output mode =
     (if list_ex (\<lambda>l. MAX_LINE_BYTES < length l) (split_nl output)
      then [Notice Unsupported ''Diff line exceeded 16 MiB; text diff is unavailable'']
      else if \<not> utf8_valid output then [binary_notice]
      else dp_rows (finish_hunk
        (foldl (parser_push mode) \<lparr>dp_rows = [], dp_hunk = None\<rparr> (str_lines output))))"

definition is_conflict_notice :: "diff_row \<Rightarrow> bool" where
  "is_conflict_notice r = (case r of Notice Conflict _ \<Rightarrow> True | _ \<Rightarrow> False)"

definition set_paths :: "changed_file \<Rightarrow> diff_row \<Rightarrow> diff_row" where
  "set_paths f r = (case r of FileHeader _ _ t \<Rightarrow> FileHeader (old_path f) (new_path f) t | _ \<Rightarrow> r)"

definition parse_file_diff :: "bytes \<Rightarrow> changed_file \<Rightarrow> diff_row list" where
  "parse_file_diff output f =
     (if old_kind f = Symlink \<or> new_kind f = Symlink
      then [Notice Unsupported ''Symbolic link target changed; text diff is unavailable'']
      else if old_kind f = Gitlink \<or> new_kind f = Gitlink
      then [Notice Unsupported ''Git submodule changed; text diff is unavailable'']
      else let mode = (if new_kind f = ConflictKind then CurrentConflictNotices else HistoricalDiffRows);
               rows = map (set_paths f) (parse_diff output mode)
           in if mode = CurrentConflictNotices \<and> \<not> list_ex is_conflict_notice rows
              then Notice Conflict ''File contains an unresolved conflict'' # rows
              else rows)"

section \<open>The shape of parsed rows\<close>

definition not_notice :: "diff_row \<Rightarrow> bool" where
  "not_notice r = (case r of Notice _ _ \<Rightarrow> False | _ \<Rightarrow> True)"

definition is_header :: "diff_row \<Rightarrow> bool" where
  "is_header r = (case r of FileHeader _ _ _ \<Rightarrow> True | Hunk _ _ _ _ \<Rightarrow> True | _ \<Rightarrow> False)"

text \<open>The numbers of the old and the new lines that rows show, and the rows up to the next header.\<close>

fun old_lines :: "diff_row list \<Rightarrow> nat list" where
  "old_lines [] = []"
| "old_lines (Context o' n t # rs) = o' # old_lines rs"
| "old_lines (Delete o' t # rs) = o' # old_lines rs"
| "old_lines (r # rs) = old_lines rs"

fun new_lines :: "diff_row list \<Rightarrow> nat list" where
  "new_lines [] = []"
| "new_lines (Context o' n t # rs) = n # new_lines rs"
| "new_lines (Add n t # rs) = n # new_lines rs"
| "new_lines (r # rs) = new_lines rs"

definition body :: "diff_row list \<Rightarrow> diff_row list" where
  "body rs = takeWhile (\<lambda>r. \<not> is_header r) rs"

definition counts :: "nat \<Rightarrow> nat \<Rightarrow> nat \<Rightarrow> nat list" where
  "counts start i j = map (u32_add start) [i..<j]"

fun headers_ok :: "diff_row list \<Rightarrow> bool" where
  "headers_ok [] \<longleftrightarrow> True"
| "headers_ok (Hunk os oc ns nc # rs) \<longleftrightarrow>
     old_lines (body rs) = counts os 0 oc \<and> new_lines (body rs) = counts ns 0 nc \<and> headers_ok rs"
| "headers_ok (FileHeader o' n t # rs) \<longleftrightarrow>
     old_lines (body rs) = [] \<and> new_lines (body rs) = [] \<and> headers_ok rs"
| "headers_ok (r # rs) \<longleftrightarrow> headers_ok rs"

definition hunk_rows_ok :: "diff_row list \<Rightarrow> bool" where
  "hunk_rows_ok rs \<longleftrightarrow> old_lines (body rs) = [] \<and> new_lines (body rs) = [] \<and> headers_ok rs"

lemma body_simps [simp]:
  "body [] = []" "body (FileHeader o' n t # rs) = []" "body (Hunk a b c d # rs) = []"
  "body (Meta t # rs) = Meta t # body rs" "body (Context i j t # rs) = Context i j t # body rs"
  "body (Delete i t # rs) = Delete i t # body rs" "body (Add j t # rs) = Add j t # body rs"
  "body (Notice k t # rs) = Notice k t # body rs"
  by (simp_all add: body_def is_header_def)

lemma counts_empty [simp]: "counts s i i = []"
  by (simp add: counts_def)

lemma counts_Cons: "i < j \<Longrightarrow> counts s i j = u32_add s i # counts s (Suc i) j"
  by (simp add: counts_def upt_conv_Cons)

lemma not_notice_simps [simp]:
  "not_notice (FileHeader o' n t)" "not_notice (Hunk a b c d)" "not_notice (Meta t)"
  "not_notice (Context i j t)" "not_notice (Delete i t)" "not_notice (Add j t)"
  "\<not> not_notice (Notice k t)"
  by (simp_all add: not_notice_def)

text \<open>The parser only appends rows, so its rows can be read from any point on.\<close>

fun rows_from :: "conflict_marker_mode \<Rightarrow> active_hunk option \<Rightarrow> bytes list \<Rightarrow> diff_row list" where
  "rows_from mode h [] = dp_rows (finish_hunk \<lparr>dp_rows = [], dp_hunk = h\<rparr>)"
| "rows_from mode h (l # ls) =
     (let p = parser_push mode \<lparr>dp_rows = [], dp_hunk = h\<rparr> l
      in dp_rows p @ rows_from mode (dp_hunk p) ls)"

lemma finish_hunk_rows:
  "finish_hunk \<lparr>dp_rows = rs, dp_hunk = h\<rparr> =
     \<lparr>dp_rows = rs @ dp_rows (finish_hunk \<lparr>dp_rows = [], dp_hunk = h\<rparr>), dp_hunk = None\<rparr>"
  by (auto simp: finish_hunk_def split: option.splits)

lemma hunk_push_rows:
  "hunk_push l mode h rs = (fst (hunk_push l mode h []), rs @ snd (hunk_push l mode h []))"
  by (simp add: hunk_push_def Let_def)

lemma parser_push_rows:
  "parser_push mode \<lparr>dp_rows = rs, dp_hunk = h\<rparr> l =
     (let p = parser_push mode \<lparr>dp_rows = [], dp_hunk = h\<rparr> l
      in \<lparr>dp_rows = rs @ dp_rows p, dp_hunk = dp_hunk p\<rparr>)"
proof (cases h)
  case None
  then show ?thesis
    by (auto simp: parser_push_def Let_def finish_hunk_def split: option.splits)
next
  case (Some a)
  then show ?thesis using hunk_push_rows [of l mode a rs]
    by (auto simp: parser_push_def Let_def finish_hunk_def split: option.splits prod.splits)
qed

lemma foldl_parser_push:
  "dp_rows (finish_hunk (foldl (parser_push mode) \<lparr>dp_rows = rs, dp_hunk = h\<rparr> ls)) =
     rs @ rows_from mode h ls"
proof (induction ls arbitrary: rs h)
  case Nil
  then show ?case by (simp add: finish_hunk_rows [of rs])
next
  case (Cons l ls)
  then show ?case by (simp add: parser_push_rows [of mode rs] Let_def)
qed

lemma parse_diff_rows_from:
  "parse_diff output mode =
     (if list_ex (\<lambda>l. MAX_LINE_BYTES < length l) (split_nl output)
      then [Notice Unsupported ''Diff line exceeded 16 MiB; text diff is unavailable'']
      else if \<not> utf8_valid output then [binary_notice]
      else rows_from mode None (str_lines output))"
  by (simp add: parse_diff_def foldl_parser_push)

text \<open>From a hunk that has seen some of its rows, the rows that follow complete it.\<close>

definition tail_ok :: "active_hunk option \<Rightarrow> diff_row list \<Rightarrow> bool" where
  "tail_ok h rs \<longleftrightarrow>
     (case h of
        None \<Rightarrow> old_lines (body rs) = [] \<and> new_lines (body rs) = []
      | Some h \<Rightarrow> ah_old_seen h \<le> ah_old_count h \<and> ah_new_seen h \<le> ah_new_count h \<and>
          old_lines (body rs) = counts (ah_old_start h) (ah_old_seen h) (ah_old_count h) \<and>
          new_lines (body rs) = counts (ah_new_start h) (ah_new_seen h) (ah_new_count h)) \<and>
     headers_ok rs"

lemma metadata_rows: "not_notice (metadata l) \<Longrightarrow> metadata l = Meta l"
  by (auto simp: metadata_def binary_notice_def split: if_splits)

lemma hunk_parse_fresh:
  "hunk_parse l = Some h \<Longrightarrow> ah_old_seen h = 0 \<and> ah_new_seen h = 0"
  by (auto simp: hunk_parse_def split: option.splits prod.splits)

lemma see_simps [simp]:
  "ah_old_start (see o' n h) = ah_old_start h" "ah_old_count (see o' n h) = ah_old_count h"
  "ah_new_start (see o' n h) = ah_new_start h" "ah_new_count (see o' n h) = ah_new_count h"
  "ah_old_seen (see o' n h) = (if o' then u32_add (ah_old_seen h) 1 else ah_old_seen h)"
  "ah_new_seen (see o' n h) = (if n then u32_add (ah_new_seen h) 1 else ah_new_seen h)"
  by (simp_all add: see_def)

lemma hunk_push_tail:
  assumes "hunk_push l mode h [] = (h', rs)" "list_all not_notice rs" "tail_ok (Some h') ts"
    and "ah_old_seen h < u32_max" "ah_new_seen h < u32_max"
  shows "tail_ok (Some h) (rs @ ts)"
  using assms
  by (auto simp: hunk_push_def tail_ok_def Let_def counts_Cons split: if_splits)

definition seen_le :: "active_hunk option \<Rightarrow> nat \<Rightarrow> bool" where
  "seen_le h n \<longleftrightarrow> (case h of None \<Rightarrow> True | Some h \<Rightarrow> ah_old_seen h \<le> n \<and> ah_new_seen h \<le> n)"

lemma hunk_push_seen:
  "hunk_push l mode h rs = (h', rs') \<Longrightarrow> seen_le (Some h) n \<Longrightarrow> n < u32_max \<Longrightarrow> seen_le (Some h') (Suc n)"
  by (auto simp: hunk_push_def seen_le_def Let_def advance_def see_def split: if_splits)

lemma finish_rows:
  "list_all not_notice (dp_rows (finish_hunk \<lparr>dp_rows = [], dp_hunk = h\<rparr>)) \<Longrightarrow>
     dp_rows (finish_hunk \<lparr>dp_rows = [], dp_hunk = h\<rparr>) = [] \<and> (\<forall>a. h = Some a \<longrightarrow> is_complete a)"
  by (auto simp: finish_hunk_def split: option.splits if_splits)

lemma rows_from_ok:
  "list_all not_notice (rows_from mode h ls) \<Longrightarrow> seen_le h n \<Longrightarrow> n + length ls \<le> u32_max \<Longrightarrow>
     tail_ok h (rows_from mode h ls)"
proof (induction ls arbitrary: h n)
  case Nil
  then have "dp_rows (finish_hunk \<lparr>dp_rows = [], dp_hunk = h\<rparr>) = []"
    and "\<forall>a. h = Some a \<longrightarrow> is_complete a"
    using finish_rows [of h] by simp_all
  then show ?case by (simp add: tail_ok_def is_complete_def split: option.splits)
next
  case (Cons l ls)
  let ?fin = "dp_rows (finish_hunk \<lparr>dp_rows = [], dp_hunk = h\<rparr>)"
  consider (file_row) "starts_with ''diff --git '' l"
    | (hunk_row) a where "\<not> starts_with ''diff --git '' l" "hunk_parse l = Some a"
    | (in_row) a where "\<not> starts_with ''diff --git '' l" "hunk_parse l = None" "h = Some a"
    | (outside) "\<not> starts_with ''diff --git '' l" "hunk_parse l = None" "h = None"
    by (cases "hunk_parse l"; cases h) auto
  then show ?case
  proof cases
    case file_row
    then have eq: "rows_from mode h (l # ls) = ?fin @ FileHeader None None l # rows_from mode None ls"
      by (simp add: parser_push_def Let_def finish_hunk_def split: option.splits)
    have "tail_ok None (rows_from mode None ls)"
      by (rule Cons.IH [of None "Suc n"]) (use Cons.prems eq in \<open>simp_all add: seen_le_def\<close>)
    then show ?thesis using finish_rows [of h] Cons.prems eq
      by (auto simp: tail_ok_def is_complete_def split: option.splits)
  next
    case (hunk_row a)
    then have eq: "rows_from mode h (l # ls) = ?fin @ hunk_header a # rows_from mode (Some a) ls"
      by (simp add: parser_push_def Let_def finish_hunk_def split: option.splits)
    note fresh = hunk_parse_fresh [OF hunk_row(2)]
    have "tail_ok (Some a) (rows_from mode (Some a) ls)"
      by (rule Cons.IH [of "Some a" "Suc n"]) (use Cons.prems eq fresh in \<open>simp_all add: seen_le_def\<close>)
    then show ?thesis using finish_rows [of h] Cons.prems eq fresh
      by (auto simp: tail_ok_def is_complete_def hunk_header_def split: option.splits)
  next
    case (in_row a)
    obtain a' rs where push: "hunk_push l mode a [] = (a', rs)" by force
    with in_row have eq: "rows_from mode h (l # ls) = rs @ rows_from mode (Some a') ls"
      by (simp add: parser_push_def Let_def)
    have le: "n < u32_max" using Cons.prems(3) by simp
    have "seen_le (Some a') (Suc n)"
      using hunk_push_seen [OF push _ le] Cons.prems(2) in_row(3) by simp
    then have "tail_ok (Some a') (rows_from mode (Some a') ls)"
      by (rule Cons.IH [of "Some a'" "Suc n", rotated]) (use Cons.prems eq in simp_all)
    then have "tail_ok (Some a) (rs @ rows_from mode (Some a') ls)"
      by (rule hunk_push_tail [OF push, rotated])
        (use Cons.prems eq in_row(3) le in \<open>simp_all add: seen_le_def\<close>)
    then show ?thesis using eq in_row(3) by simp
  next
    case outside
    then have eq: "rows_from mode h (l # ls) = metadata l # rows_from mode None ls"
      by (simp add: parser_push_def Let_def)
    have "tail_ok None (rows_from mode None ls)"
      by (rule Cons.IH [of None "Suc n"]) (use Cons.prems eq in \<open>simp_all add: seen_le_def\<close>)
    then show ?thesis using Cons.prems eq outside(3) metadata_rows [of l]
      by (simp add: tail_ok_def)
  qed
qed

lemma length_split_inclusive: "length (split_inclusive t) \<le> length t"
  by (induction t) (auto split: list.splits)

lemma parse_diff_shape:
  assumes "list_all not_notice (parse_diff output mode)" "length output \<le> u32_max"
  shows "hunk_rows_ok (parse_diff output mode)"
proof -
  have eq: "parse_diff output mode = rows_from mode None (str_lines output)"
    using assms(1) by (auto simp: parse_diff_rows_from binary_notice_def split: if_splits)
  have "length (str_lines output) \<le> u32_max"
    using length_split_inclusive [of "output"] assms(2) by (simp add: str_lines_def)
  then have "tail_ok None (rows_from mode None (str_lines output))"
    using rows_from_ok [of mode None _ 0] assms(1) eq by (simp add: seen_le_def)
  then show ?thesis by (simp add: eq tail_ok_def hunk_rows_ok_def)
qed

section \<open>A displayed path is one line\<close>

definition printable :: "byte \<Rightarrow> bool" where
  "printable c \<longleftrightarrow> 32 \<le> (of_char c :: nat) \<and> (of_char c :: nat) \<noteq> 127"

lemma printable_hex_digit: "d < 16 \<Longrightarrow> printable (hex_digit d)"
  by (simp add: printable_def hex_digit_def)

lemma printable_hex_byte: "list_all printable (hex_byte c)"
proof -
  have "(of_char c :: nat) < 256" by simp
  then have "(of_char c :: nat) div 16 < 16" by (simp only: less_mult_imp_div_less)
  moreover have "(of_char c :: nat) mod 16 < 16" by simp
  ultimately have "(of_char c :: nat) div 16 < 16" "(of_char c :: nat) mod 16 < 16" by blast+
  then show ?thesis by (simp add: hex_byte_def printable_hex_digit)
qed

lemma printable_consts [simp]:
  "printable backslash" "printable (CHR ''t'')" "printable (CHR ''r'')" "printable (CHR ''n'')"
  "printable (CHR ''x'')" "printable (CHR ''u'')" "printable (CHR 0x27)" "printable (CHR 0x22)"
  "printable (CHR 0x7B)" "printable (CHR 0x7D)"
  by (simp_all add: printable_def backslash_def)

lemma printable_ascii_escape: "list_all printable (ascii_escape c)"
proof -
  have "32 \<le> (of_char c :: nat) \<and> of_char c \<le> (126 :: nat) \<Longrightarrow> printable c"
    by (auto simp: printable_def)
  then show ?thesis using printable_hex_byte [of c] by (auto simp: ascii_escape_def)
qed

lemma utf8_step_long:
  assumes "utf8_step t = (ok, n)" "ok" "n \<noteq> 1" "c \<in> set (take n t)"
  shows "128 \<le> (of_char c :: nat)"
proof (cases t)
  case (Cons b rest)
  have b: "128 \<le> (of_char b :: nat)"
    using assms(1-3) Cons by (auto simp: utf8_step_def seq_len_def Let_def split: if_splits)
  have "n \<in> {2, 3, 4}" and second: "second_ok b (hd rest)" "rest \<noteq> []"
    and third: "n \<noteq> 2 \<longrightarrow> 2 \<le> length rest \<and> is_cont (rest ! 1)"
    and fourth: "n = 4 \<longrightarrow> 3 \<le> length rest \<and> is_cont (rest ! 2)"
    using assms(1-3) Cons by (auto simp: utf8_step_def Let_def split: if_splits)
  moreover have "128 \<le> (of_char (hd rest) :: nat)"
    using second by (auto simp: second_ok_def is_cont_def Let_def split: if_splits)
  ultimately show ?thesis using assms(4) b Cons
    by (auto simp: is_cont_def neq_Nil_conv numeral_eq_Suc Suc_le_length_iff)
qed (use assms in simp)

lemma printable_char_display:
  assumes "utf8_step t = (True, n)" shows "list_all printable (char_display (take n t))"
proof (cases "n = 1")
  case True
  then show ?thesis using printable_ascii_escape by (cases t) (auto simp: char_display_def)
next
  case False
  then have "list_all printable (take n t)"
    using utf8_step_long [OF assms] by (fastforce simp: list_all_iff printable_def)
  moreover have "length (take n t) \<noteq> 1"
  proof
    assume "length (take n t) = 1"
    with False have "length t = 1" by auto
    with assms False show False
      by (auto simp: utf8_step_def Let_def length_Suc_conv split: if_splits)
  qed
  ultimately show ?thesis using printable_hex_byte printable_ascii_escape
    by (auto simp: char_display_def split: list.splits)
qed

lemma printable_display_chars: "utf8_valid t \<Longrightarrow> list_all printable (display_chars t)"
proof (induction t rule: utf8_valid.induct)
  case (1 t)
  show ?case
  proof (cases "t = []")
    case False
    with "1.prems" have "fst (utf8_step t)" "utf8_valid (drop (snd (utf8_step t)) t)"
      by (subst (asm) utf8_valid.simps, simp split: if_splits)+
    with 1 False printable_char_display [of t "snd (utf8_step t)"] show ?thesis
      by (subst display_chars.simps) (simp add: prod_eq_iff)
  qed (simp add: display_chars.simps)
qed

lemma printable_path_display: "list_all printable (path_display p)"
  using printable_display_chars [of p] printable_ascii_escape
  by (auto simp: path_display_def list_all_iff)

lemma path_display_one_line: "nl \<notin> set (path_display p)"
  using printable_path_display [of p] by (auto simp: list_all_iff printable_def nl_def)

end
