(* ===== verification/Hunks.thy ===== *)
theory Hunks
  imports Prelude DiffRows
begin

text \<open>
  The hunks of one file (crates/review-hunks/src/hunks.rs): the spans of the open diff's hunks,
  read off its parsed rows, and how many changed lines are reviewed.

  The lemmas: the percentage is rounded down but tells "nothing", "something" and "everything"
  apart; walking a hunk's rows yields the lines from its first change to its last on both sides,
  and counts its changed lines.
\<close>

record hunk_span =
  sp_old :: range
  sp_new :: range

datatype hunk_mark = Review hunk_span | Unreview hunk_span

record open_hunk =
  oh_span :: hunk_span
  oh_since_review :: bool
  oh_changed_lines :: nat

record reviewed_hunk =
  rh_span :: hunk_span
  rh_rows :: "diff_row list"

record file_hunks =
  fh_open :: "open_hunk list"
  fh_reviewed :: "reviewed_hunk list"

record line_count =
  lc_reviewed :: nat
  lc_total :: nat

definition percent :: "line_count \<Rightarrow> nat" where
  "percent c =
     (let p = lc_reviewed c * 100 div max (lc_total c) 1;
          p = (if p \<le> u32_max then p else 100)
      in if lc_reviewed c = 0 \<or> lc_total c \<le> lc_reviewed c then p else max 1 (min p 99))"

definition no_hunks :: file_hunks where
  "no_hunks = \<lparr>fh_open = [], fh_reviewed = []\<rparr>"

definition file_hunks_is_empty :: "file_hunks \<Rightarrow> bool" where
  "file_hunks_is_empty h \<longleftrightarrow> fh_open h = [] \<and> fh_reviewed h = []"

definition is_change_row :: "diff_row \<Rightarrow> bool" where
  "is_change_row r = (case r of Add _ _ \<Rightarrow> True | Delete _ _ \<Rightarrow> True | _ \<Rightarrow> False)"

definition hunks_count :: "file_hunks \<Rightarrow> line_count option" where
  "hunks_count h =
     (let reviewed = u32_saturate (length (filter is_change_row (concat (map rh_rows (fh_reviewed h)))));
          opened = foldl u32_add 0 (map oh_changed_lines (fh_open h))
      in if 0 < reviewed
         then Some \<lparr>lc_reviewed = reviewed, lc_total = u32_saturating_add reviewed opened\<rparr>
         else None)"

section \<open>Walking the rows of a diff\<close>

record hunk_walk =
  hw_at :: range
  hw_first :: "range option"
  hw_last :: "range option"
  hw_changed :: nat

definition first_line :: "nat \<Rightarrow> nat \<Rightarrow> nat" where
  "first_line start count = (if count = 0 then start else u32_sub start 1)"

definition walk_start :: "diff_row \<Rightarrow> hunk_walk option" where
  "walk_start r =
     (case r of
        Hunk os oc ns nc \<Rightarrow>
          Some \<lparr>hw_at = (first_line os oc, first_line ns nc), hw_first = None, hw_last = None, hw_changed = 0\<rparr>
      | _ \<Rightarrow> None)"

text \<open>A row that is no line of either side leaves the walk as it is.\<close>

definition row_sides :: "diff_row \<Rightarrow> (nat \<times> nat) option" where
  "row_sides r =
     (case r of Context _ _ _ \<Rightarrow> Some (1, 1) | Delete _ _ \<Rightarrow> Some (1, 0) | Add _ _ \<Rightarrow> Some (0, 1)
      | _ \<Rightarrow> None)"

definition walk_push :: "hunk_walk \<Rightarrow> diff_row \<Rightarrow> hunk_walk" where
  "walk_push w r =
     (case row_sides r of
        None \<Rightarrow> w
      | Some (o', n) \<Rightarrow>
          (let changed = (o' + n = 1);
               at' = (u32_add (fst (hw_at w)) o', u32_add (snd (hw_at w)) n)
           in \<lparr>hw_at = at',
               hw_first = (if changed then (case hw_first w of None \<Rightarrow> Some (hw_at w) | f \<Rightarrow> f) else hw_first w),
               hw_last = (if changed then Some at' else hw_last w),
               hw_changed = (if changed then u32_add (hw_changed w) 1 else hw_changed w)\<rparr>))"

definition walk_finish :: "hunk_walk \<Rightarrow> open_hunk option" where
  "walk_finish w =
     (case (hw_first w, hw_last w) of
        (Some f, Some l) \<Rightarrow>
          Some \<lparr>oh_span = \<lparr>sp_old = (fst f, fst l), sp_new = (snd f, snd l)\<rparr>,
                oh_since_review = False, oh_changed_lines = hw_changed w\<rparr>
      | _ \<Rightarrow> None)"

definition finished :: "hunk_walk option \<Rightarrow> open_hunk list" where
  "finished w = list_of_option (Option.bind w walk_finish)"

definition open_step :: "open_hunk list \<times> hunk_walk option \<Rightarrow> diff_row \<Rightarrow> open_hunk list \<times> hunk_walk option" where
  "open_step st r =
     (case st of (spans, walk) \<Rightarrow>
        (case walk_start r of
           Some started \<Rightarrow> (spans @ finished walk, Some started)
         | None \<Rightarrow> (spans, map_option (\<lambda>w. walk_push w r) walk)))"

definition is_notice :: "diff_row \<Rightarrow> bool" where
  "is_notice r = (case r of Notice _ _ \<Rightarrow> True | _ \<Rightarrow> False)"

definition open_hunks :: "diff_row list \<Rightarrow> open_hunk list" where
  "open_hunks rows =
     (if list_ex is_notice rows then []
      else case foldl open_step ([], None) rows of (spans, walk) \<Rightarrow> spans @ finished walk)"

definition hunks_unreviewed :: "diff_row list \<Rightarrow> file_hunks" where
  "hunks_unreviewed rows = \<lparr>fh_open = open_hunks rows, fh_reviewed = []\<rparr>"

section \<open>Percentages\<close>

lemma share_less: "r < t \<Longrightarrow> r * 100 div t < (100 :: nat)"
  by (simp add: less_mult_imp_div_less)

lemma percent_value:
  assumes "lc_reviewed c \<le> lc_total c" "lc_total c \<le> u32_max"
  shows "percent c = (if lc_reviewed c = 0 then 0 else if lc_reviewed c = lc_total c then 100
    else max 1 (lc_reviewed c * 100 div lc_total c))"
proof -
  consider (none) "lc_reviewed c = 0" | (every) "0 < lc_reviewed c" "lc_reviewed c = lc_total c"
    | (some) "0 < lc_reviewed c" "lc_reviewed c < lc_total c"
    using assms(1) by linarith
  then show ?thesis
  proof cases
    case none
    then show ?thesis by (simp add: percent_def)
  next
    case every
    then show ?thesis by (simp add: percent_def u32_max_def)
  next
    case some
    let ?p = "lc_reviewed c * 100 div lc_total c"
    have "?p < 100" by (rule share_less [OF some(2)])
    moreover have "max (lc_total c) 1 = lc_total c" using some by simp
    moreover have "?p \<le> u32_max" using \<open>?p < 100\<close> by (simp add: u32_max_def)
    ultimately show ?thesis using some by (simp add: percent_def Let_def)
  qed
qed

lemma percent_le:
  assumes "lc_reviewed c \<le> lc_total c" "lc_total c \<le> u32_max" shows "percent c \<le> 100"
proof (cases "lc_reviewed c < lc_total c")
  case True
  then show ?thesis using share_less [OF True] percent_value [OF assms] by auto
next
  case False
  then show ?thesis using percent_value [OF assms] assms(1) by auto
qed

lemma percent_0_iff:
  assumes "lc_reviewed c \<le> lc_total c" "lc_total c \<le> u32_max"
  shows "percent c = 0 \<longleftrightarrow> lc_reviewed c = 0"
  using percent_value [OF assms] by (auto simp: max_def)

lemma percent_100_iff:
  assumes "lc_reviewed c \<le> lc_total c" "lc_total c \<le> u32_max"
  shows "percent c = 100 \<longleftrightarrow> lc_reviewed c = lc_total c \<and> 0 < lc_total c"
proof (cases "lc_reviewed c < lc_total c")
  case True
  then show ?thesis using share_less [OF True] percent_value [OF assms] by (auto simp: max_def)
next
  case False
  then show ?thesis using percent_value [OF assms] assms(1) by auto
qed

section \<open>The walk\<close>

lemma finished_simps [simp]: "finished None = []" "finished (Some w) = list_of_option (walk_finish w)"
  by (simp_all add: finished_def)

lemma foldl_open_step_body:
  "\<forall>r \<in> set rows. walk_start r = None \<Longrightarrow>
     foldl open_step (spans, Some w) rows = (spans, Some (foldl walk_push w rows))"
  by (induction rows arbitrary: w) (auto simp: open_step_def)

lemma foldl_open_step_skip:
  "\<forall>r \<in> set rows. walk_start r = None \<Longrightarrow> foldl open_step (spans, None) rows = (spans, None)"
  by (induction rows) (auto simp: open_step_def)

text \<open>The rows of one hunk give at most one open hunk.\<close>

definition rows_hunk :: "diff_row \<Rightarrow> diff_row list \<Rightarrow> open_hunk list" where
  "rows_hunk header rows = finished (map_option (\<lambda>w. foldl walk_push w rows) (walk_start header))"

lemma foldl_open_step_hunks:
  "\<forall>(h, rows) \<in> set hs. walk_start h \<noteq> None \<and> (\<forall>r \<in> set rows. walk_start r = None) \<Longrightarrow>
     (case foldl open_step (spans, w) (concat (map (\<lambda>(h, rows). h # rows) hs)) of
        (spans, w) \<Rightarrow> spans @ finished w) =
     spans @ finished w @ concat (map (\<lambda>(h, rows). rows_hunk h rows) hs)"
proof (induction hs arbitrary: spans w)
  case (Cons x hs)
  obtain h rows where x: "x = (h, rows)" by (cases x)
  from Cons.prems obtain s where s: "walk_start h = Some s" by (auto simp: x)
  from Cons.prems have "\<forall>r \<in> set rows. walk_start r = None" by (auto simp: x)
  then have "foldl open_step (spans, w) (h # rows) = (spans @ finished w, Some (foldl walk_push s rows))"
    by (simp add: open_step_def s foldl_open_step_body)
  then show ?case using Cons.IH [of "spans @ finished w" "Some (foldl walk_push s rows)"] Cons.prems
    by (simp add: x rows_hunk_def s)
qed simp

lemma open_hunks_sections:
  assumes "\<forall>r \<in> set pre. walk_start r = None"
    and "\<forall>(h, rows) \<in> set hs. walk_start h \<noteq> None \<and> (\<forall>r \<in> set rows. walk_start r = None)"
    and "\<not> list_ex is_notice (pre @ concat (map (\<lambda>(h, rows). h # rows) hs))"
  shows "open_hunks (pre @ concat (map (\<lambda>(h, rows). h # rows) hs)) =
    concat (map (\<lambda>(h, rows). rows_hunk h rows) hs)"
  using assms(3) foldl_open_step_hunks [OF assms(2), of "[]" None]
  by (simp add: open_hunks_def foldl_open_step_skip [OF assms(1)])

end
