(* ===== verification/HunkReview.thy ===== *)
theory HunkReview
  imports Attribution Hunks
begin

text \<open>
  Edits of the reviewed version (crates/review-hunks/src/review.rs): accepting and reopening whole
  hunks, and moving the reviewed version onto a new base. Each edit writes a new reviewed version
  line by line with the writer of \<open>Attribution\<close>.

  The abstract view of an edit is \<open>spliced\<close>: the lines of one version with ranges of them replaced
  by ranges of another. The lemmas show that each edit writes exactly such a splice, when it
  succeeds, and who its authors are.
\<close>

record hunk_review =
  hr_base :: bytes
  hr_reviewed :: bytes
  hr_current :: bytes
  hr_attribution :: attribution

record changed_lines =
  cl_removed :: "nat list"
  cl_added :: "nat list"
  cl_rewrites_reviewed :: bool

datatype reviewed_version = Current attribution | Base | Partial reviewed

definition hunk_review_new :: "bytes \<Rightarrow> bytes \<Rightarrow> bytes \<Rightarrow> hunk_review" where
  "hunk_review_new base reviewed current =
     \<lparr>hr_base = base, hr_reviewed = reviewed, hr_current = current, hr_attribution = REVIEWER_ONLY\<rparr>"

definition attributed :: "hunk_review \<Rightarrow> attribution \<Rightarrow> hunk_review" where
  "attributed hr at = hr\<lparr>hr_attribution := at\<rparr>"

definition base_line :: "differ \<Rightarrow> hunk_review \<Rightarrow> nat \<Rightarrow> nat option" where
  "base_line D hr l = before_line (D (hr_base hr) (hr_reviewed hr)) l"

definition version :: "hunk_review \<Rightarrow> reviewed \<Rightarrow> reviewed_version" where
  "version hr r =
     (if rv_text r = hr_current hr then Current (rv_attribution r)
      else if rv_text r = hr_base hr then Base
      else Partial r)"

section \<open>Accepting hunks\<close>

definition accept_span ::
  "differ \<Rightarrow> hunk_review \<Rightarrow> mark_author \<Rightarrow> rebuild \<times> nat \<Rightarrow> hunk_span \<Rightarrow> (rebuild \<times> nat) option" where
  "accept_span D hr who st span =
     (case st of (rb, position) \<Rightarrow>
        let at = hr_attribution hr;
            reviewed = lines_new (hr_reviewed hr);
            current = lines_new (hr_current hr);
            start = fst (sp_old span)
        in (case rb_keep rb reviewed (position, start) at of None \<Rightarrow> None | Some rb \<Rightarrow>
           (case lines_get reviewed (sp_old span) of None \<Rightarrow> None | Some replaced \<Rightarrow>
           (case lines_get current (sp_new span) of None \<Rightarrow> None | Some added \<Rightarrow>
              let inside = D (concat replaced) (concat added);
                  rb = remove_lines rb
                    (filter_map (\<lambda>l. map_option (\<lambda>b. (b, who)) (base_line D hr (start + l)))
                      (changed_before inside));
                  rb = push_lines rb
                    (map (\<lambda>(offset, line).
                        (line, case before_line inside offset of
                                 Some kept \<Rightarrow> added_by at (start + kept)
                               | None \<Rightarrow> who))
                      (numbered 0 added))
              in Some (rb, snd (sp_old span))))))"

definition review_all :: "differ \<Rightarrow> hunk_review \<Rightarrow> hunk_span list \<Rightarrow> mark_author \<Rightarrow> reviewed_version option" where
  "review_all D hr opened who =
     (let reviewed = lines_new (hr_reviewed hr)
      in case fold_opt (accept_span D hr who) (rb_on (hr_attribution hr), 0)
               (sort_key (\<lambda>span. fst (sp_old span)) opened) of
           None \<Rightarrow> None
         | Some (rb, position) \<Rightarrow>
             (case rb_keep rb reviewed (position, lines_len reviewed) (hr_attribution hr) of
                None \<Rightarrow> None
              | Some rb \<Rightarrow> Some (version hr (rb_finish D rb (hr_base hr)))))"

definition review :: "differ \<Rightarrow> hunk_review \<Rightarrow> hunk_span \<Rightarrow> mark_author \<Rightarrow> reviewed_version option" where
  "review D hr opened who = review_all D hr [opened] who"

definition span_changed_lines :: "differ \<Rightarrow> hunk_review \<Rightarrow> hunk_span \<Rightarrow> changed_lines" where
  "span_changed_lines D hr span =
     (let open_changes = filter (\<lambda>c. overlaps (before c) (sp_old span)) (D (hr_reviewed hr) (hr_current hr));
          olds = changed_before open_changes
      in \<lparr>cl_removed = filter_map (base_line D hr) olds,
          cl_added = changed_after open_changes,
          cl_rewrites_reviewed = list_ex (\<lambda>l. base_line D hr l = None) olds\<rparr>)"

definition all_changed_lines :: "differ \<Rightarrow> hunk_review \<Rightarrow> hunk_span list \<Rightarrow> changed_lines list" where
  "all_changed_lines D hr opened = map (span_changed_lines D hr) opened"

section \<open>Reopening a hunk\<close>

definition unreview :: "differ \<Rightarrow> hunk_review \<Rightarrow> hunk_span \<Rightarrow> reviewed_version option" where
  "unreview D hr span =
     (let at = hr_attribution hr;
          reviewed = lines_new (hr_reviewed hr);
          base = lines_new (hr_base hr)
      in case translate (backward (D (hr_reviewed hr) (hr_current hr))) (sp_new span) of
           None \<Rightarrow> None
         | Some (s, e) \<Rightarrow>
        (case rb_keep (rb_on at) reviewed (0, s) at of None \<Rightarrow> None | Some rb \<Rightarrow>
        (case lines_get base (sp_old span) of None \<Rightarrow> None | Some ls \<Rightarrow>
        (case rb_keep (push_lines rb (map (\<lambda>l. (l, at_default at)) ls)) reviewed (e, lines_len reviewed) at of
           None \<Rightarrow> None
         | Some rb \<Rightarrow> Some (version hr (rb_finish D rb (hr_base hr)))))))"

section \<open>Moving the reviewed version onto a new base\<close>

definition get_or_nil :: "bytes list option \<Rightarrow> bytes list" where
  "get_or_nil x = (case x of Some ls \<Rightarrow> ls | None \<Rightarrow> [])"

definition replay_step ::
  "change list \<Rightarrow> reviewed \<Rightarrow> bytes \<Rightarrow> rebuild \<times> nat \<Rightarrow> change \<Rightarrow> rebuild \<times> nat" where
  "replay_step upstream r new_base st c =
     (case st of (rb, position) \<Rightarrow>
        let at = rv_attribution r; base_lines = lines_new new_base
        in case translate (forward upstream) (before c) of
             None \<Rightarrow> (rb, position)
           | Some target \<Rightarrow>
               if fst target < position then (rb, position)
               else
                 (let rb = push_lines rb
                    (map (\<lambda>l. (l, at_default at)) (get_or_nil (lines_get base_lines (position, fst target))));
                      rb = remove_lines rb
                    (map (\<lambda>(old, new). (new, removed_by at old)) (zip (range_list (before c)) (range_list target)));
                      rb = push_lines rb
                    (map (\<lambda>(l, line). (line, added_by at l))
                      (zip (range_list (after c)) (get_or_nil (lines_get (lines_new (rv_text r)) (after c)))))
                  in (rb, snd target)))"

definition replay :: "differ \<Rightarrow> bytes \<Rightarrow> reviewed \<Rightarrow> bytes \<Rightarrow> reviewed" where
  "replay D old_base r new_base =
     (if old_base = new_base then r
      else
        (let at = rv_attribution r;
             upstream = D old_base new_base
         in case foldl (replay_step upstream r new_base) (rb_with_default (at_default at), 0)
                   (D old_base (rv_text r)) of
              (rb, position) \<Rightarrow>
                rb_finish D
                  (push_lines rb (map (\<lambda>l. (l, at_default at)) (get_or_nil (lines_rest (lines_new new_base) position))))
                  new_base))"

section \<open>Splices\<close>

text \<open>The lines \<open>old\<close> from \<open>pos\<close> on, with each first range replaced by the lines of the second.\<close>

fun spliced :: "'a list \<Rightarrow> 'a list \<Rightarrow> nat \<Rightarrow> (range \<times> range) list \<Rightarrow> 'a list" where
  "spliced old new pos [] = drop pos old"
| "spliced old new pos ((src, dst) # es) =
     slice old pos (fst src) @ slice new (fst dst) (snd dst) @ spliced old new (snd src) es"

fun splice_ok :: "'a list \<Rightarrow> 'a list \<Rightarrow> nat \<Rightarrow> (range \<times> range) list \<Rightarrow> bool" where
  "splice_ok old new pos [] \<longleftrightarrow> pos \<le> length old"
| "splice_ok old new pos ((src, dst) # es) \<longleftrightarrow>
     pos \<le> fst src \<and> fst src \<le> snd src \<and> snd src \<le> length old \<and> fst dst \<le> snd dst \<and> snd dst \<le> length new \<and>
     splice_ok old new (snd src) es"

definition span_edits :: "hunk_span list \<Rightarrow> (range \<times> range) list" where
  "span_edits spans = map (\<lambda>s. (sp_old s, sp_new s)) spans"

definition version_text :: "hunk_review \<Rightarrow> reviewed_version \<Rightarrow> bytes" where
  "version_text hr v = (case v of Current _ \<Rightarrow> hr_current hr | Base \<Rightarrow> hr_base hr | Partial r \<Rightarrow> rv_text r)"

lemma version_text_version [simp]: "version_text hr (version hr r) = rv_text r"
  by (auto simp: version_text_def version_def)

lemma version_is_current:
  "version_text hr (version hr r) = hr_current hr \<Longrightarrow> version hr r = Current (rv_attribution r)"
  by (auto simp: version_def version_text_def split: if_splits)

lemma version_is_base:
  "version_text hr (version hr r) = hr_base hr \<Longrightarrow> hr_base hr \<noteq> hr_current hr \<Longrightarrow> version hr r = Base"
  by (auto simp: version_def version_text_def split: if_splits)

lemma lines_len_new [simp]: "length ls \<le> u32_max \<Longrightarrow> lines_len ls = length ls"
  by (simp add: lines_len_def)

lemma lines_get_Some_iff: "lines_get ls r = Some xs \<longleftrightarrow>
    fst r \<le> snd r \<and> snd r \<le> length ls \<and> xs = slice ls (fst r) (snd r)"
  by (auto simp: lines_get_def slice_get_def)

lemma lines_get_None_iff: "lines_get ls r = None \<longleftrightarrow> \<not> (fst r \<le> snd r \<and> snd r \<le> length ls)"
  by (simp add: lines_get_def slice_get_def)

section \<open>Accepting writes a splice\<close>

text \<open>Every author the writer can record: the one accepting, or one the attribution already names.\<close>

definition known_authors :: "mark_author \<Rightarrow> attribution \<Rightarrow> mark_author set" where
  "known_authors who at = {who, at_default at} \<union> al_author ` set (at_added at) \<union> al_author ` set (at_removed at)"

definition authors_in :: "rebuild \<Rightarrow> mark_author set \<Rightarrow> bool" where
  "authors_in rb A \<longleftrightarrow> rb_default rb \<in> A \<and> set (rb_authors rb) \<subseteq> A \<and> ran (rb_removed rb) \<subseteq> A"

lemma author_in_SomeD: "author_in es l = Some a \<Longrightarrow> a \<in> al_author ` set es"
  by (induction es) (auto split: if_splits)

lemma added_by_known [simp]: "added_by at l \<in> known_authors who at"
  by (auto simp: added_by_def known_authors_def split: option.splits dest!: author_in_SomeD)

lemma removed_by_known [simp]: "removed_by at l \<in> known_authors who at"
  by (auto simp: removed_by_def known_authors_def split: option.splits dest!: author_in_SomeD)

lemma known_simps [simp]: "who \<in> known_authors who at" "at_default at \<in> known_authors who at"
  by (simp_all add: known_authors_def)

lemma authors_in_push:
  "authors_in rb A \<Longrightarrow> \<forall>x \<in> set xs. snd x \<in> A \<Longrightarrow> authors_in (push_lines rb xs) A"
  by (auto simp: authors_in_def)

lemma ran_map_of: "ran (map_of xs) \<subseteq> snd ` set xs"
  by (auto simp: ran_def dest!: map_of_SomeD) (metis image_eqI snd_conv)

lemma ran_map_add_subset: "ran (m ++ n) \<subseteq> ran m \<union> ran n"
  by (auto simp: ran_def map_add_def split: option.splits)

lemma authors_in_remove:
  assumes "authors_in rb A" "\<forall>x \<in> set xs. snd x \<in> A" shows "authors_in (remove_lines rb xs) A"
proof -
  have "ran (rb_removed (remove_lines rb xs)) \<subseteq> ran (rb_removed rb) \<union> snd ` set xs"
    using ran_map_add_subset ran_map_of [of "rev xs"] unfolding remove_lines_removed set_rev
    by (meson Un_mono order_refl order_trans)
  with assms show ?thesis by (auto simp: authors_in_def)
qed

lemma authors_in_keep:
  "rb_keep rb ls r at = Some rb' \<Longrightarrow> authors_in rb (known_authors who at) \<Longrightarrow>
     authors_in rb' (known_authors who at)"
  by (drule rb_keep_SomeD) (auto simp: authors_in_def)

lemma authors_in_on: "authors_in (rb_on at) (known_authors who at)"
  unfolding rb_on_def
  by (rule authors_in_remove) (auto simp: authors_in_def entry_lines_def known_authors_def rb_with_default_def)

lemma accept_span_SomeD:
  assumes "accept_span D hr who (rb, pos) span = Some (rb', pos')"
  shows "pos' = snd (sp_old span) \<and>
    rb_text rb' = rb_text rb @ concat (slice (lines_new (hr_reviewed hr)) pos (fst (sp_old span))) @
      concat (slice (lines_new (hr_current hr)) (fst (sp_new span)) (snd (sp_new span))) \<and>
    pos \<le> fst (sp_old span) \<and> fst (sp_old span) \<le> snd (sp_old span) \<and>
    snd (sp_old span) \<le> length (lines_new (hr_reviewed hr)) \<and> fst (sp_new span) \<le> snd (sp_new span) \<and>
    snd (sp_new span) \<le> length (lines_new (hr_current hr))"
  using assms
  by (auto simp: accept_span_def Let_def lines_get_Some_iff o_def case_prod_beta split: option.splits
      dest!: rb_keep_SomeD)

lemma accept_span_authors:
  assumes "accept_span D hr who (rb, pos) span = Some (rb', pos')"
    and "authors_in rb (known_authors who (hr_attribution hr))"
  shows "authors_in rb' (known_authors who (hr_attribution hr))"
  using assms
  by (auto simp: accept_span_def Let_def set_filter_map split: option.splits
      intro!: authors_in_push authors_in_remove dest: authors_in_keep)

lemma accept_span_defined:
  assumes "pos \<le> fst (sp_old span)" "fst (sp_old span) \<le> snd (sp_old span)"
    "snd (sp_old span) \<le> length (lines_new (hr_reviewed hr))" "fst (sp_new span) \<le> snd (sp_new span)"
    "snd (sp_new span) \<le> length (lines_new (hr_current hr))"
  shows "accept_span D hr who (rb, pos) span \<noteq> None"
proof -
  obtain rb' where "rb_keep rb (lines_new (hr_reviewed hr)) (pos, fst (sp_old span)) (hr_attribution hr) = Some rb'"
    using rb_keep_Some_iff [of rb "lines_new (hr_reviewed hr)" "(pos, fst (sp_old span))" "hr_attribution hr"]
      assms by auto
  moreover have "lines_get (lines_new (hr_reviewed hr)) (sp_old span) \<noteq> None"
    "lines_get (lines_new (hr_current hr)) (sp_new span) \<noteq> None"
    using assms by (simp_all add: lines_get_None_iff del: not_None_eq)
  ultimately show ?thesis by (auto simp: accept_span_def Let_def)
qed

definition write_accepted :: "differ \<Rightarrow> hunk_review \<Rightarrow> mark_author \<Rightarrow> rebuild \<times> nat \<Rightarrow> hunk_span list \<Rightarrow> rebuild option" where
  "write_accepted D hr who st spans =
     (case fold_opt (accept_span D hr who) st spans of
        None \<Rightarrow> None
      | Some (rb, position) \<Rightarrow>
          rb_keep rb (lines_new (hr_reviewed hr)) (position, lines_len (lines_new (hr_reviewed hr))) (hr_attribution hr))"

lemma review_all_write:
  "review_all D hr opened who =
     map_option (\<lambda>rb. version hr (rb_finish D rb (hr_base hr)))
       (write_accepted D hr who (rb_on (hr_attribution hr), 0) (sort_key (\<lambda>span. fst (sp_old span)) opened))"
  by (auto simp: review_all_def write_accepted_def Let_def split: option.splits)

lemma write_accepted_SomeD:
  assumes "write_accepted D hr who (rb, pos) spans = Some rb'"
    and "length (lines_new (hr_reviewed hr)) \<le> u32_max"
  shows "splice_ok (lines_new (hr_reviewed hr)) (lines_new (hr_current hr)) pos (span_edits spans) \<and>
    rb_text rb' = rb_text rb @
      concat (spliced (lines_new (hr_reviewed hr)) (lines_new (hr_current hr)) pos (span_edits spans)) \<and>
    (authors_in rb (known_authors who (hr_attribution hr)) \<longrightarrow>
      authors_in rb' (known_authors who (hr_attribution hr)))"
  using assms(1)
proof (induction spans arbitrary: rb pos)
  case Nil
  then show ?case using rb_keep_SomeD [of rb] assms(2)
    by (fastforce simp: write_accepted_def span_edits_def dest: authors_in_keep)
next
  case (Cons span spans)
  from Cons.prems obtain rb1 pos1 where step: "accept_span D hr who (rb, pos) span = Some (rb1, pos1)"
    by (auto simp: write_accepted_def split: option.splits)
  with Cons.prems have "write_accepted D hr who (rb1, pos1) spans = Some rb'"
    by (simp add: write_accepted_def)
  from Cons.IH [OF this] accept_span_SomeD [OF step] accept_span_authors [OF step]
  show ?case by (simp add: span_edits_def)
qed

lemma write_accepted_defined:
  assumes "splice_ok (lines_new (hr_reviewed hr)) (lines_new (hr_current hr)) pos (span_edits spans)"
    and "length (lines_new (hr_reviewed hr)) \<le> u32_max"
  shows "write_accepted D hr who (rb, pos) spans \<noteq> None"
  using assms(1)
proof (induction spans arbitrary: rb pos)
  case Nil
  then show ?case
    using rb_keep_Some_iff [of rb "lines_new (hr_reviewed hr)"
        "(pos, length (lines_new (hr_reviewed hr)))" "hr_attribution hr"] assms(2)
    by (simp add: write_accepted_def span_edits_def)
next
  case (Cons span spans)
  then obtain rb1 pos1 where step: "accept_span D hr who (rb, pos) span = Some (rb1, pos1)"
    using accept_span_defined [of pos span hr D who rb] by (auto simp: span_edits_def)
  with Cons accept_span_SomeD [OF step] have "write_accepted D hr who (rb1, pos1) spans \<noteq> None"
    by (simp add: span_edits_def)
  with step show ?case by (simp add: write_accepted_def)
qed

definition accept_edits :: "hunk_span list \<Rightarrow> (range \<times> range) list" where
  "accept_edits opened = span_edits (sort_key (\<lambda>span. fst (sp_old span)) opened)"

lemma review_all_text:
  assumes "length (lines_new (hr_reviewed hr)) \<le> u32_max" "review_all D hr opened who = Some v"
  shows "version_text hr v =
    concat (spliced (lines_new (hr_reviewed hr)) (lines_new (hr_current hr)) 0 (accept_edits opened))"
proof -
  obtain rb where "write_accepted D hr who (rb_on (hr_attribution hr), 0)
      (sort_key (\<lambda>span. fst (sp_old span)) opened) = Some rb" and "v = version hr (rb_finish D rb (hr_base hr))"
    using assms(2) by (auto simp: review_all_write)
  with write_accepted_SomeD [OF this(1) assms(1)] show ?thesis by (simp add: accept_edits_def)
qed

lemma review_all_None_iff:
  assumes "length (lines_new (hr_reviewed hr)) \<le> u32_max"
  shows "review_all D hr opened who = None \<longleftrightarrow>
    \<not> splice_ok (lines_new (hr_reviewed hr)) (lines_new (hr_current hr)) 0 (accept_edits opened)"
proof (cases "write_accepted D hr who (rb_on (hr_attribution hr), 0)
    (sort_key (\<lambda>span. fst (sp_old span)) opened)")
  case None
  then have "\<not> splice_ok (lines_new (hr_reviewed hr)) (lines_new (hr_current hr)) 0 (accept_edits opened)"
    using write_accepted_defined [OF _ assms] unfolding accept_edits_def by metis
  with None show ?thesis by (simp add: review_all_write)
next
  case (Some rb)
  then show ?thesis using write_accepted_SomeD [OF Some assms]
    by (simp add: review_all_write accept_edits_def)
qed

lemma rb_finish_one_author:
  assumes "authors_in rb {a}" shows "rv_attribution (rb_finish D rb base) = uniform a"
proof -
  have author: "rb_author rb l = a" for l
    using assms subsetD [OF _ nth_mem [of l "rb_authors rb"], of "{a}"]
    by (auto simp: rb_author_def list_get_def authors_in_def)
  have remover: "rb_remover rb l = a" for l
    using assms by (auto simp: rb_remover_def authors_in_def ran_def split: option.splits)
  have default: "(case map snd xs of [] \<Rightarrow> rb_default rb
      | first # rest \<Rightarrow> if list_all (\<lambda>x. x = first) rest then first else rb_default rb) = a"
    if "\<forall>x \<in> set xs. snd x = a" for xs :: "(nat \<times> mark_author) list"
    using that assms by (cases xs) (auto simp: authors_in_def)
  let ?xs = "map (\<lambda>l. (l, a)) (changed_after (D base (rb_text rb))) @
    map (\<lambda>l. (l, a)) (changed_before (D base (rb_text rb)))"
  have "\<forall>x \<in> set ?xs. snd x = a" by auto
  from default [OF this] show ?thesis
    by (simp add: rb_finish_def Let_def author remover uniform_def runs_default del: map_append)
qed

lemma known_authors_uniform: "known_authors a (uniform a) = {a}"
  by (simp add: known_authors_def uniform_def)

definition version_attribution :: "reviewed_version \<Rightarrow> attribution option" where
  "version_attribution v = (case v of Current at \<Rightarrow> Some at | Base \<Rightarrow> None | Partial r \<Rightarrow> Some (rv_attribution r))"

lemma review_all_one_author:
  assumes "length (lines_new (hr_reviewed hr)) \<le> u32_max" "hr_attribution hr = uniform who"
    and "review_all D hr opened who = Some v" "v \<noteq> Base"
  shows "version_attribution v = Some (uniform who)"
proof -
  obtain rb where rb: "write_accepted D hr who (rb_on (hr_attribution hr), 0)
      (sort_key (\<lambda>span. fst (sp_old span)) opened) = Some rb"
    and v: "v = version hr (rb_finish D rb (hr_base hr))"
    using assms(3) by (auto simp: review_all_write)
  from write_accepted_SomeD [OF rb assms(1)] authors_in_on [of "hr_attribution hr" who]
  have "authors_in rb {who}" by (simp add: assms(2) known_authors_uniform)
  from rb_finish_one_author [OF this, of D "hr_base hr"] v assms(4) show ?thesis
    by (auto simp: version_def version_attribution_def split: if_splits)
qed

section \<open>Accepting every hunk\<close>

definition group_span :: "change list \<Rightarrow> hunk_span" where
  "group_span g =
     \<lparr>sp_old = (fst (before (hd g)), snd (before (last g))), sp_new = (fst (after (hd g)), snd (after (last g)))\<rparr>"

lemma script_from_group:
  "script_from i j b a (g @ rest) \<Longrightarrow> g \<noteq> [] \<Longrightarrow>
     i \<le> fst (before (hd g)) \<and> fst (before (hd g)) \<le> snd (before (last g)) \<and> snd (before (last g)) \<le> length b \<and>
     j \<le> fst (after (hd g)) \<and> fst (after (hd g)) \<le> snd (after (last g)) \<and> snd (after (last g)) \<le> length a \<and>
     fst (before (hd g)) + j = fst (after (hd g)) + i \<and>
     slice b i (fst (before (hd g))) = slice a j (fst (after (hd g))) \<and>
     script_from (snd (before (last g))) (snd (after (last g))) b a rest"
proof (induction g arbitrary: i j)
  case (Cons c g)
  show ?case
  proof (cases "g = []")
    case True
    with Cons.prems show ?thesis by simp
  next
    case False
    from Cons.prems(1) have "script_from (snd (before c)) (snd (after c)) b a (g @ rest)" by simp
    from Cons.IH [OF this False] Cons.prems(1) False show ?thesis by simp
  qed
qed simp

lemma spliced_groups:
  "script_from i j b a (concat gs) \<Longrightarrow> \<forall>g \<in> set gs. g \<noteq> [] \<Longrightarrow>
     splice_ok b a i (span_edits (map group_span gs)) \<and>
     spliced b a i (span_edits (map group_span gs)) = drop j a"
proof (induction gs arbitrary: i j)
  case (Cons g gs)
  from Cons.prems have *: "script_from i j b a (g @ concat gs)" "g \<noteq> []" by auto
  note G = script_from_group [OF *]
  from G Cons.IH Cons.prems(2)
  have "splice_ok b a (snd (before (last g))) (span_edits (map group_span gs))"
    and rest: "spliced b a (snd (before (last g))) (span_edits (map group_span gs)) = drop (snd (after (last g))) a"
    by auto
  moreover have "slice a j (fst (after (hd g))) @ slice a (fst (after (hd g))) (snd (after (last g))) @
      drop (snd (after (last g))) a = drop j a"
  proof -
    have "slice a j (fst (after (hd g))) @ slice a (fst (after (hd g))) (snd (after (last g))) =
      slice a j (snd (after (last g)))"
      using G by (intro slice_append) auto
    moreover have "slice a j (snd (after (last g))) @ drop (snd (after (last g))) a = drop j a"
      using G slice_append [of j "snd (after (last g))" "length a" a] by simp
    ultimately show ?thesis by (metis append_assoc)
  qed
  ultimately show ?case using G by (simp add: span_edits_def group_span_def [of g])
qed (simp add: span_edits_def)

lemma splice_ok_sorted: "splice_ok old new pos es \<Longrightarrow>
    sorted (map (\<lambda>e. fst (fst e)) es) \<and> (\<forall>e \<in> set es. pos \<le> fst (fst e))"
  by (induction old new pos es rule: splice_ok.induct) fastforce+

lemma accept_edits_groups:
  assumes "script_from i j b a (concat gs)" "\<forall>g \<in> set gs. g \<noteq> []"
  shows "accept_edits (map group_span gs) = span_edits (map group_span gs)"
proof -
  have "sorted (map (\<lambda>e. fst (fst e)) (span_edits (map group_span gs)))"
    using spliced_groups [OF assms] splice_ok_sorted by blast
  then have "sorted (map (\<lambda>span. fst (sp_old span)) (map group_span gs))"
    by (simp add: span_edits_def o_def)
  then show ?thesis by (simp add: accept_edits_def sort_key_id_if_sorted)
qed

lemma review_all_hunks:
  assumes "line_diff D" "length (lines_new (hr_reviewed hr)) \<le> u32_max"
  shows "\<exists>at. review_all D hr (map group_span (hunk_groups (D (hr_reviewed hr) (hr_current hr)))) who =
    Some (Current at)"
proof -
  let ?gs = "hunk_groups (D (hr_reviewed hr) (hr_current hr))"
  have sc: "script_from 0 0 (lines_new (hr_reviewed hr)) (lines_new (hr_current hr)) (concat ?gs)"
    using line_diff_script [OF assms(1)] by (simp add: edit_script_def)
  have ne: "\<forall>g \<in> set ?gs. g \<noteq> []" using hunk_groups_no_Nil by blast
  note edits = accept_edits_groups [OF sc ne]
  note groups = spliced_groups [OF sc ne]
  have "review_all D hr (map group_span ?gs) who \<noteq> None"
    using review_all_None_iff [OF assms(2)] groups edits by simp
  then obtain v where v: "review_all D hr (map group_span ?gs) who = Some v" by blast
  have vt: "version_text hr v = hr_current hr"
    using review_all_text [OF assms(2) v] groups edits by simp
  obtain r where r: "v = version hr r" using v by (auto simp: review_all_write)
  with vt v show ?thesis using version_is_current [of hr r] by auto
qed

section \<open>Reopening writes the base lines back\<close>

lemma unreview_text:
  assumes "length (lines_new (hr_reviewed hr)) \<le> u32_max" "unreview D hr span = Some v"
  obtains s e where
    "translate (backward (D (hr_reviewed hr) (hr_current hr))) (sp_new span) = Some (s, e)"
    "s \<le> length (lines_new (hr_reviewed hr))"
    "version_text hr v =
      concat (take s (lines_new (hr_reviewed hr)) @
        slice (lines_new (hr_base hr)) (fst (sp_old span)) (snd (sp_old span)) @
        drop e (lines_new (hr_reviewed hr)))"
proof -
  from assms(2) obtain s e rb ls rb' where
    t: "translate (backward (D (hr_reviewed hr) (hr_current hr))) (sp_new span) = Some (s, e)"
    and k: "rb_keep (rb_on (hr_attribution hr)) (lines_new (hr_reviewed hr)) (0, s) (hr_attribution hr) = Some rb"
    and g: "lines_get (lines_new (hr_base hr)) (sp_old span) = Some ls"
    and k': "rb_keep (push_lines rb (map (\<lambda>l. (l, at_default (hr_attribution hr))) ls))
      (lines_new (hr_reviewed hr)) (e, lines_len (lines_new (hr_reviewed hr))) (hr_attribution hr) = Some rb'"
    and v: "v = version hr (rb_finish D rb' (hr_base hr))"
    by (auto simp: unreview_def Let_def split: option.splits)
  show thesis
    by (rule that [OF t])
      (use rb_keep_SomeD [OF k] rb_keep_SomeD [OF k'] g v assms(1) in
        \<open>simp_all add: lines_get_Some_iff o_def\<close>)
qed

lemma translate_backward_SomeD:
  assumes "edit_script b a cs" "length a \<le> u32_max" "length b \<le> u32_max" "fst r \<le> snd r" "snd r \<le> length a"
    and "translate (backward cs) r = Some q"
  shows "(\<forall>c \<in> set cs. \<not> overlaps (after c) r) \<and> snd q = fst q + (snd r - fst r) \<and> snd q \<le> length b \<and>
    slice b (fst q) (snd q) = slice a (fst r) (snd r)"
  using translate_SomeD [OF edit_script_flip [OF assms(1)] assms(3,2,4,5), of q] assms(6)
  by (auto simp: forward_flip)

text \<open>A span of lines that exist is reopened exactly when its current lines move back.\<close>

lemma unreview_None_iff:
  assumes "line_diff D" "length (lines_new (hr_reviewed hr)) \<le> u32_max" "length (lines_new (hr_current hr)) \<le> u32_max"
    and "fst (sp_new span) \<le> snd (sp_new span)" "snd (sp_new span) \<le> length (lines_new (hr_current hr))"
    and "fst (sp_old span) \<le> snd (sp_old span)" "snd (sp_old span) \<le> length (lines_new (hr_base hr))"
  shows "unreview D hr span = None \<longleftrightarrow> (\<exists>c \<in> set (D (hr_reviewed hr) (hr_current hr)). overlaps (after c) (sp_new span))"
proof -
  let ?cs = "D (hr_reviewed hr) (hr_current hr)" and ?at = "hr_attribution hr"
  have None: "translate (backward ?cs) (sp_new span) = None \<longleftrightarrow> (\<exists>c \<in> set ?cs. overlaps (after c) (sp_new span))"
    using translate_None_iff [OF edit_script_flip [OF line_diff_script [OF assms(1)]] assms(2,3,4,5)]
    by (simp add: forward_flip)
  have "unreview D hr span \<noteq> None" if t: "translate (backward ?cs) (sp_new span) = Some (s, e)" for s e
  proof -
    have e: "s \<le> e" "e \<le> length (lines_new (hr_reviewed hr))"
      using translate_backward_SomeD [OF line_diff_script [OF assms(1)] assms(3,2,4,5) t] by simp_all
    then obtain rb where rb: "rb_keep (rb_on ?at) (lines_new (hr_reviewed hr)) (0, s) ?at = Some rb"
      using rb_keep_Some_iff [of "rb_on ?at" "lines_new (hr_reviewed hr)" "(0, s)" ?at] by auto
    obtain ls where ls: "lines_get (lines_new (hr_base hr)) (sp_old span) = Some ls"
      using assms(6,7) by (simp add: lines_get_Some_iff)
    obtain rb' where "rb_keep (push_lines rb (map (\<lambda>l. (l, at_default ?at)) ls)) (lines_new (hr_reviewed hr))
        (e, lines_len (lines_new (hr_reviewed hr))) ?at = Some rb'"
      using rb_keep_Some_iff [of "push_lines rb (map (\<lambda>l. (l, at_default ?at)) ls)" "lines_new (hr_reviewed hr)"
          "(e, lines_len (lines_new (hr_reviewed hr)))" ?at] e assms(2) by auto
    with t rb ls show ?thesis by (simp add: unreview_def Let_def)
  qed
  moreover have "unreview D hr span = None" if "translate (backward ?cs) (sp_new span) = None"
    using that by (simp add: unreview_def Let_def)
  ultimately show ?thesis using None by (cases "translate (backward ?cs) (sp_new span)") auto
qed

section \<open>Replaying writes a splice of the new base\<close>

text \<open>The reviewed changes that land on the new base, with the lines they put there.\<close>

definition landed :: "change list \<Rightarrow> change list \<Rightarrow> (range \<times> range) list" where
  "landed upstream cs =
     filter_map (\<lambda>c. map_option (\<lambda>t. (t, after c)) (translate (forward upstream) (before c))) cs"

lemma replay_fold:
  assumes up: "edit_script ob nb upstream" "length ob \<le> u32_max" "length nb \<le> u32_max" "nb = lines_new new_base"
    and "script_from i j ob (lines_new (rv_text r)) cs"
    and "\<forall>q. \<forall>s. translate (forward upstream) s = Some q \<and> i \<le> fst s \<and> fst s \<le> snd s \<and> snd s \<le> length ob
      \<longrightarrow> pos \<le> fst q"
    and "pos \<le> length nb"
  shows "case foldl (replay_step upstream r new_base) (rb, pos) cs of (rb', p') \<Rightarrow>
    splice_ok nb (lines_new (rv_text r)) pos (landed upstream cs) \<and> p' \<le> length nb \<and>
    rb_text rb' @ concat (drop p' nb) =
      rb_text rb @ concat (spliced nb (lines_new (rv_text r)) pos (landed upstream cs)) \<and>
    (\<forall>who. authors_in rb (known_authors who (rv_attribution r)) \<longrightarrow>
      authors_in rb' (known_authors who (rv_attribution r)))"
  using assms(5-)
proof (induction cs arbitrary: i j rb pos)
  case Nil
  then show ?case by (simp add: landed_def)
next
  case (Cons c cs)
  let ?new = "lines_new (rv_text r)"
  from Cons.prems(1) have hd: "i \<le> fst (before c)" "fst (before c) \<le> snd (before c)" "snd (before c) \<le> length ob"
    "fst (after c) \<le> snd (after c)" "snd (after c) \<le> length ?new"
    and sc: "script_from (snd (before c)) (snd (after c)) ob ?new cs" by auto
  show ?case
  proof (cases "translate (forward upstream) (before c)")
    case None
    have "\<forall>q s. translate (forward upstream) s = Some q \<and> snd (before c) \<le> fst s \<and> fst s \<le> snd s \<and>
        snd s \<le> length ob \<longrightarrow> pos \<le> fst q"
      using Cons.prems(2) hd(1,2) by (meson order_trans)
    from Cons.IH [OF sc this Cons.prems(3)] None show ?thesis
      by (simp add: replay_step_def landed_def)
  next
    case (Some t)
    have t: "pos \<le> fst t" using Cons.prems(2) Some hd by blast
    from translate_SomeD [OF up(1,3,2) hd(2,3) Some] have t': "fst t \<le> snd t" "snd t \<le> length nb" by auto
    have order: "\<forall>q s. translate (forward upstream) s = Some q \<and> snd (before c) \<le> fst s \<and> fst s \<le> snd s \<and>
        snd s \<le> length ob \<longrightarrow> snd t \<le> fst q"
      using translate_mono [OF up(1,3,2) hd(2) _ _ _ Some] by blast
    define rb1 where "rb1 = fst (replay_step upstream r new_base (rb, pos) c)"
    have step: "replay_step upstream r new_base (rb, pos) c = (rb1, snd t)"
      using t by (simp add: rb1_def replay_step_def Some Let_def)
    have "lines_get nb (pos, fst t) = Some (slice nb pos (fst t))"
      "lines_get ?new (after c) = Some (slice ?new (fst (after c)) (snd (after c)))"
      using t t' hd by (simp_all add: lines_get_Some_iff)
    then have r1: "rb_text rb1 = rb_text rb @ concat (slice nb pos (fst t)) @
        concat (slice ?new (fst (after c)) (snd (after c)))"
      and a1: "authors_in rb (known_authors who (rv_attribution r)) \<Longrightarrow>
        authors_in rb1 (known_authors who (rv_attribution r))" for who
      using t hd up(4) map_zip_snd [of "range_list (after c)" "slice ?new (fst (after c)) (snd (after c))" id]
      by (auto simp: rb1_def replay_step_def Some Let_def get_or_nil_def o_def case_prod_beta
          intro!: authors_in_push authors_in_remove)
    from Cons.IH [OF sc order t'(2), of rb1] show ?thesis
      using t t' hd a1 by (auto simp: step r1 landed_def Some)
  qed
qed

lemma replay_text:
  assumes "line_diff D" "length (lines_new ob) \<le> u32_max" "length (lines_new nb) \<le> u32_max" "ob \<noteq> nb"
  shows "splice_ok (lines_new nb) (lines_new (rv_text r)) 0 (landed (D ob nb) (D ob (rv_text r))) \<and>
    rv_text (replay D ob r nb) =
      concat (spliced (lines_new nb) (lines_new (rv_text r)) 0 (landed (D ob nb) (D ob (rv_text r)))) \<and>
    (rv_attribution r = uniform who \<longrightarrow> rv_attribution (replay D ob r nb) = uniform who)"
proof -
  let ?rb = "rb_with_default (at_default (rv_attribution r))"
  obtain rb' p' where f: "foldl (replay_step (D ob nb) r nb) (?rb, 0) (D ob (rv_text r)) = (rb', p')"
    by force
  have "authors_in ?rb (known_authors who (rv_attribution r))" for who
    by (simp add: authors_in_def)
  then have *: "splice_ok (lines_new nb) (lines_new (rv_text r)) 0 (landed (D ob nb) (D ob (rv_text r)))"
    "p' \<le> length (lines_new nb)"
    "rb_text rb' @ concat (drop p' (lines_new nb)) =
      concat (spliced (lines_new nb) (lines_new (rv_text r)) 0 (landed (D ob nb) (D ob (rv_text r))))"
    "authors_in rb' (known_authors who (rv_attribution r))"
    using replay_fold [OF line_diff_script [OF assms(1)] assms(2,3) refl, of 0 0 r "D ob (rv_text r)" 0 ?rb]
      line_diff_script [OF assms(1), of ob "rv_text r"] f
    by (auto simp: edit_script_def)
  let ?rb' = "push_lines rb' (map (\<lambda>l. (l, at_default (rv_attribution r)))
    (get_or_nil (lines_rest (lines_new nb) p')))"
  have "lines_rest (lines_new nb) p' = Some (drop p' (lines_new nb))"
    using *(2) assms(3) by (simp add: lines_rest_def lines_get_Some_iff)
  then have written: "rb_text ?rb' = rb_text rb' @ concat (drop p' (lines_new nb))"
    by (simp add: get_or_nil_def o_def)
  have rep: "replay D ob r nb = rb_finish D ?rb' nb" using assms(4) f by (simp add: replay_def Let_def)
  have "authors_in ?rb' {who}" if "rv_attribution r = uniform who"
    using *(4) that by (intro authors_in_push) (auto simp: known_authors_uniform, simp add: uniform_def)
  with *(1,3) written rep rb_finish_one_author show ?thesis by auto
qed

end
