(* ===== verification/LineMarks.thy ===== *)
theory LineMarks
  imports HunkReview
begin

text \<open>
  Accepting and reopening individual changed lines (crates/review-hunks/src/lines.rs).

  A selection of lines becomes one \<open>pick\<close> per change; \<open>settle\<close> widens the picks of a hunk to the
  whole hunk where the new diff would not come out as picked; \<open>accept_build\<close> and \<open>reopen_build\<close>
  write the new reviewed version. The lemmas show what settling can return, that an edit of one
  file's own diffs never fails, what text it writes, and that accepting every line makes the
  reviewed version the current file and reopening every line makes it the base.
\<close>

record line_selection =
  ls_removed :: "nat set"
  ls_added :: "nat set"

record reviewed_lines =
  rl_removed :: "nat \<rightharpoonup> mark_author"
  rl_added :: "nat \<rightharpoonup> mark_author"

record pick =
  pk_removed :: "bool list"
  pk_added :: "bool list"

definition selection_is_empty :: "line_selection \<Rightarrow> bool" where
  "selection_is_empty s \<longleftrightarrow> ls_removed s = {} \<and> ls_added s = {}"

definition selection_difference :: "line_selection \<Rightarrow> line_selection \<Rightarrow> line_selection" where
  "selection_difference s t = \<lparr>ls_removed = ls_removed s - ls_removed t, ls_added = ls_added s - ls_added t\<rparr>"

definition selection_of :: "reviewed_lines \<Rightarrow> line_selection" where
  "selection_of r = \<lparr>ls_removed = dom (rl_removed r), ls_added = dom (rl_added r)\<rparr>"

definition pick_any :: "pick \<Rightarrow> bool" where
  "pick_any p \<longleftrightarrow> list_ex (\<lambda>b. b) (pk_removed p @ pk_added p)"

definition pick_every :: "change \<Rightarrow> pick" where
  "pick_every c =
     \<lparr>pk_removed = replicate (snd (before c) - fst (before c)) True,
      pk_added = replicate (snd (after c) - fst (after c)) True\<rparr>"

definition pick_none :: "change \<Rightarrow> pick" where
  "pick_none c =
     \<lparr>pk_removed = replicate (snd (before c) - fst (before c)) False,
      pk_added = replicate (snd (after c) - fst (after c)) False\<rparr>"

definition insert_all :: "('k \<rightharpoonup> 'v) \<Rightarrow> ('k \<times> 'v) list \<Rightarrow> ('k \<rightharpoonup> 'v)" where
  "insert_all m xs = foldl (\<lambda>m (k, v). m(k \<mapsto> v)) m xs"

definition reviewed_lines_of :: "differ \<Rightarrow> hunk_review \<Rightarrow> reviewed_lines" where
  "reviewed_lines_of D hr =
     (let opened = D (hr_reviewed hr) (hr_current hr);
          cs = D (hr_base hr) (hr_reviewed hr);
          at = hr_attribution hr
      in \<lparr>rl_removed = insert_all Map.empty (map (\<lambda>l. (l, removed_by at l)) (changed_before cs)),
          rl_added = insert_all Map.empty
            (filter_map (\<lambda>l. map_option (\<lambda>m. (m, added_by at l)) (after_line opened l)) (changed_after cs))\<rparr>)"

section \<open>Settling the picks\<close>

fun group_positions :: "nat \<Rightarrow> 'a list list \<Rightarrow> range list" where
  "group_positions start [] = []"
| "group_positions start (g # gs) = (start, start + length g) # group_positions (start + length g) gs"

definition hunk_positions :: "change list \<Rightarrow> range list" where
  "hunk_positions cs = group_positions 0 (hunk_groups cs)"

definition alone :: "change list \<Rightarrow> pick list \<Rightarrow> range \<Rightarrow> pick list" where
  "alone cs picks hunk =
     map (\<lambda>(i, c, p). if in_range hunk i then p else pick_none c) (numbered 0 (zip cs picks))"

definition widen :: "change list \<Rightarrow> pick list \<Rightarrow> range \<Rightarrow> pick list" where
  "widen cs picks hunk = foldl (\<lambda>ps i. ps[i := pick_every (cs ! i)]) picks (range_list hunk)"

definition settle :: "change list \<Rightarrow> pick list \<Rightarrow> (pick list \<Rightarrow> bool) \<Rightarrow> pick list option" where
  "settle cs picks matches =
     (if \<not> list_ex pick_any picks then None
      else let touched = filter (\<lambda>h. list_ex pick_any (slice picks (fst h) (snd h))) (hunk_positions cs);
               picks = foldl (\<lambda>ps h. if matches (alone cs ps h) then ps else widen cs ps h) picks touched
           in Some (if matches picks then picks else foldl (widen cs) picks touched))"

section \<open>Accepting lines\<close>

definition accept_pick :: "change list \<Rightarrow> line_selection \<Rightarrow> change \<Rightarrow> pick" where
  "accept_pick reviewed_changes sel c =
     (let bases = map (before_line reviewed_changes) (range_list (before c));
          removed = map (\<lambda>b. case b of Some b \<Rightarrow> b \<in> ls_removed sel | None \<Rightarrow> False) bases;
          added = map (\<lambda>l. l \<in> ls_added sel) (range_list (after c));
          addressed = map snd (filter (\<lambda>(b, _). b \<noteq> None) (zip bases removed)) @ added
      in if addressed \<noteq> [] \<and> list_all (\<lambda>b. b) addressed then pick_every c
         else \<lparr>pk_removed = removed, pk_added = added\<rparr>)"

definition accept_removed ::
  "hunk_review \<Rightarrow> mark_author \<Rightarrow> change list \<Rightarrow> rebuild \<Rightarrow> nat \<times> bool \<Rightarrow> rebuild option" where
  "accept_removed hr who reviewed_changes rb lp =
     (case lp of (l, picked) \<Rightarrow>
        if \<not> picked then rb_keep rb (lines_new (hr_reviewed hr)) (l, l + 1) (hr_attribution hr)
        else Some (case before_line reviewed_changes l of Some b \<Rightarrow> rb_remove rb b who | None \<Rightarrow> rb))"

definition accept_added :: "hunk_review \<Rightarrow> mark_author \<Rightarrow> rebuild \<Rightarrow> nat \<times> bool \<Rightarrow> rebuild option" where
  "accept_added hr who rb lp =
     (case lp of (l, picked) \<Rightarrow>
        if picked then map_option (\<lambda>t. rb_push rb t who) (lines_line (lines_new (hr_current hr)) l) else Some rb)"

definition accept_change ::
  "hunk_review \<Rightarrow> mark_author \<Rightarrow> change list \<Rightarrow> rebuild \<Rightarrow> change \<Rightarrow> pick \<Rightarrow> rebuild option" where
  "accept_change hr who reviewed_changes rb c p =
     (case fold_opt (accept_removed hr who reviewed_changes) rb (zip (range_list (before c)) (pk_removed p)) of
        None \<Rightarrow> None
      | Some rb \<Rightarrow> fold_opt (accept_added hr who) rb (zip (range_list (after c)) (pk_added p)))"

definition accept_step ::
  "hunk_review \<Rightarrow> mark_author \<Rightarrow> change list \<Rightarrow> rebuild \<times> nat \<Rightarrow> change \<times> pick \<Rightarrow> (rebuild \<times> nat) option" where
  "accept_step hr who reviewed_changes st cp =
     (case (st, cp) of ((rb, position), (c, p)) \<Rightarrow>
        (case rb_keep rb (lines_new (hr_reviewed hr)) (position, fst (before c)) (hr_attribution hr) of
           None \<Rightarrow> None
         | Some rb \<Rightarrow>
             map_option (\<lambda>rb. (rb, snd (before c))) (accept_change hr who reviewed_changes rb c p)))"

definition keep_rest :: "hunk_review \<Rightarrow> (rebuild \<times> nat) option \<Rightarrow> rebuild option" where
  "keep_rest hr st =
     (case st of
        None \<Rightarrow> None
      | Some (rb, position) \<Rightarrow>
          rb_keep rb (lines_new (hr_reviewed hr)) (position, lines_len (lines_new (hr_reviewed hr)))
            (hr_attribution hr))"

definition accept_build ::
  "differ \<Rightarrow> hunk_review \<Rightarrow> mark_author \<Rightarrow> change list \<Rightarrow> change list \<Rightarrow> pick list \<Rightarrow> reviewed option" where
  "accept_build D hr who reviewed_changes opened picks =
     map_option (\<lambda>rb. rb_finish D rb (hr_base hr))
       (keep_rest hr (fold_opt (accept_step hr who reviewed_changes)
          (rb_on (hr_attribution hr), 0) (zip opened picks)))"

definition open_lines :: "differ \<Rightarrow> bytes \<Rightarrow> bytes \<Rightarrow> bytes \<Rightarrow> line_selection" where
  "open_lines D base reviewed current =
     (let reviewed_changes = D base reviewed; cs = D reviewed current
      in \<lparr>ls_removed = set (filter_map (before_line reviewed_changes) (changed_before cs)),
          ls_added = set (changed_after cs)\<rparr>)"

text \<open>The lines of a change whose flag is off, and those whose flag is on.\<close>

definition unpicked_of :: "'a list \<Rightarrow> bool list \<Rightarrow> 'a list" where
  "unpicked_of ls flags = map fst (filter (\<lambda>(l, picked). \<not> picked) (zip ls flags))"

definition picked_of :: "'a list \<Rightarrow> bool list \<Rightarrow> 'a list" where
  "picked_of ls flags = map fst (filter (\<lambda>(l, picked). picked) (zip ls flags))"

definition unpicked_before :: "change list \<Rightarrow> pick list \<Rightarrow> nat list" where
  "unpicked_before cs picks =
     concat (map (\<lambda>(c, p). unpicked_of (range_list (before c)) (pk_removed p)) (zip cs picks))"

definition unpicked_after :: "change list \<Rightarrow> pick list \<Rightarrow> nat list" where
  "unpicked_after cs picks =
     concat (map (\<lambda>(c, p). unpicked_of (range_list (after c)) (pk_added p)) (zip cs picks))"

definition accept_matches ::
  "differ \<Rightarrow> hunk_review \<Rightarrow> mark_author \<Rightarrow> change list \<Rightarrow> change list \<Rightarrow> pick list \<Rightarrow> bool" where
  "accept_matches D hr who reviewed_changes opened picks =
     (let expected = \<lparr>ls_removed = set (filter_map (before_line reviewed_changes) (unpicked_before opened picks)),
                      ls_added = set (unpicked_after opened picks)\<rparr>
      in case accept_build D hr who reviewed_changes opened picks of
           None \<Rightarrow> False
         | Some rebuilt \<Rightarrow> open_lines D (hr_base hr) (rv_text rebuilt) (hr_current hr) = expected)"

definition accept_lines ::
  "differ \<Rightarrow> hunk_review \<Rightarrow> line_selection \<Rightarrow> mark_author \<Rightarrow> reviewed_version option" where
  "accept_lines D hr sel who =
     (let reviewed_changes = D (hr_base hr) (hr_reviewed hr);
          opened = D (hr_reviewed hr) (hr_current hr);
          picks = map (accept_pick reviewed_changes sel) opened
      in case settle opened picks (accept_matches D hr who reviewed_changes opened) of
           None \<Rightarrow> None
         | Some picks \<Rightarrow> map_option (version hr) (accept_build D hr who reviewed_changes opened picks))"

section \<open>Reopening lines\<close>

definition reopen_pick :: "change list \<Rightarrow> line_selection \<Rightarrow> change \<Rightarrow> pick" where
  "reopen_pick opened sel c =
     \<lparr>pk_removed = map (\<lambda>l. l \<in> ls_removed sel) (range_list (before c)),
      pk_added = map (\<lambda>l. case after_line opened l of Some m \<Rightarrow> m \<in> ls_added sel | None \<Rightarrow> False)
        (range_list (after c))\<rparr>"

definition reopen_removed :: "hunk_review \<Rightarrow> rebuild \<Rightarrow> nat \<times> bool \<Rightarrow> rebuild option" where
  "reopen_removed hr rb lp =
     (case lp of (l, picked) \<Rightarrow>
        if picked
        then map_option (\<lambda>t. rb_push rb t (at_default (hr_attribution hr))) (lines_line (lines_new (hr_base hr)) l)
        else Some rb)"

definition reopen_added :: "hunk_review \<Rightarrow> rebuild \<Rightarrow> nat \<times> bool \<Rightarrow> rebuild option" where
  "reopen_added hr rb lp =
     (case lp of (l, picked) \<Rightarrow>
        if \<not> picked then rb_keep rb (lines_new (hr_reviewed hr)) (l, l + 1) (hr_attribution hr) else Some rb)"

definition reopen_step :: "hunk_review \<Rightarrow> rebuild \<times> nat \<Rightarrow> change \<times> pick \<Rightarrow> (rebuild \<times> nat) option" where
  "reopen_step hr st cp =
     (case (st, cp) of ((rb, position), (c, p)) \<Rightarrow>
        (case rb_keep rb (lines_new (hr_reviewed hr)) (position, fst (after c)) (hr_attribution hr) of
           None \<Rightarrow> None
         | Some rb \<Rightarrow>
        (case fold_opt (reopen_removed hr) rb (zip (range_list (before c)) (pk_removed p)) of
           None \<Rightarrow> None
         | Some rb \<Rightarrow>
             map_option (\<lambda>rb. (rb, snd (after c)))
               (fold_opt (reopen_added hr) rb (zip (range_list (after c)) (pk_added p))))))"

definition reopen_build :: "differ \<Rightarrow> hunk_review \<Rightarrow> change list \<Rightarrow> pick list \<Rightarrow> reviewed option" where
  "reopen_build D hr reviewed_changes picks =
     map_option (\<lambda>rb. rb_finish D rb (hr_base hr))
       (keep_rest hr (fold_opt (reopen_step hr) (rb_on (hr_attribution hr), 0) (zip reviewed_changes picks)))"

definition shown_lines :: "differ \<Rightarrow> bytes \<Rightarrow> bytes \<Rightarrow> bytes \<Rightarrow> line_selection" where
  "shown_lines D base reviewed current =
     (let opened = D reviewed current; cs = D base reviewed
      in \<lparr>ls_removed = set (changed_before cs),
          ls_added = set (filter_map (after_line opened) (changed_after cs))\<rparr>)"

definition reopen_matches :: "differ \<Rightarrow> hunk_review \<Rightarrow> change list \<Rightarrow> change list \<Rightarrow> pick list \<Rightarrow> bool" where
  "reopen_matches D hr reviewed_changes opened picks =
     (let expected = \<lparr>ls_removed = set (unpicked_before reviewed_changes picks),
                      ls_added = set (filter_map (after_line opened) (unpicked_after reviewed_changes picks))\<rparr>
      in case reopen_build D hr reviewed_changes picks of
           None \<Rightarrow> False
         | Some rebuilt \<Rightarrow> shown_lines D (hr_base hr) (rv_text rebuilt) (hr_current hr) = expected)"

definition reopen_lines :: "differ \<Rightarrow> hunk_review \<Rightarrow> line_selection \<Rightarrow> reviewed_version option" where
  "reopen_lines D hr sel =
     (let reviewed_changes = D (hr_base hr) (hr_reviewed hr);
          opened = D (hr_reviewed hr) (hr_current hr);
          picks = map (reopen_pick opened sel) reviewed_changes
      in case settle reviewed_changes picks (reopen_matches D hr reviewed_changes opened) of
           None \<Rightarrow> None
         | Some picks \<Rightarrow> map_option (version hr) (reopen_build D hr reviewed_changes picks))"

section \<open>What settling returns\<close>

text \<open>The picks with the changes of some hunks picked whole.\<close>

definition widened :: "change list \<Rightarrow> pick list \<Rightarrow> range set \<Rightarrow> pick list" where
  "widened cs picks W =
     map (\<lambda>i. if \<exists>h \<in> W. in_range h i then pick_every (cs ! i) else picks ! i) [0 ..< length picks]"

definition touched :: "change list \<Rightarrow> pick list \<Rightarrow> range list" where
  "touched cs picks =
     filter (\<lambda>h. list_ex pick_any (slice picks (fst h) (snd h))) (hunk_positions cs)"

lemma widened_none [simp]: "widened cs picks {} = picks"
  by (simp add: widened_def map_nth)

lemma length_widened [simp]: "length (widened cs picks W) = length picks"
  by (simp add: widened_def)

lemma foldl_update_nth:
  "i < length ps \<Longrightarrow>
     foldl (\<lambda>ps i. ps[i := f i]) ps is ! i = (if i \<in> set is then f i else ps ! i)"
  by (induction "is" arbitrary: ps) (auto simp: nth_list_update)

lemma length_foldl_update [simp]: "length (foldl (\<lambda>ps i. ps[i := f i]) ps is) = length ps"
  by (induction "is" arbitrary: ps) auto

lemma widen_widened: "widen cs (widened cs picks W) h = widened cs picks (insert h W)"
  by (rule nth_equalityI) (auto simp: widen_def foldl_update_nth, auto simp: widened_def)

lemma settle_fold:
  "\<exists>W' \<subseteq> W \<union> set hs. foldl (\<lambda>ps h. if m (alone cs ps h) then ps else widen cs ps h) (widened cs picks W) hs =
     widened cs picks W'"
proof (induction hs arbitrary: W)
  case (Cons h hs)
  let ?W = "if m (alone cs (widened cs picks W) h) then W else insert h W"
  from Cons.IH [of ?W] obtain W' where "W' \<subseteq> ?W \<union> set hs"
    "foldl (\<lambda>ps h. if m (alone cs ps h) then ps else widen cs ps h) (widened cs picks ?W) hs = widened cs picks W'"
    by blast
  moreover have "widened cs picks ?W =
    (if m (alone cs (widened cs picks W) h) then widened cs picks W else widen cs (widened cs picks W) h)"
    by (simp add: widen_widened)
  ultimately show ?case by (intro exI [of _ W']) (auto split: if_splits)
qed auto

lemma widen_fold: "foldl (widen cs) (widened cs picks W) hs = widened cs picks (W \<union> set hs)"
  by (induction hs arbitrary: W) (simp_all add: widen_widened)

lemma settle_None_iff: "settle cs picks m = None \<longleftrightarrow> (\<forall>p \<in> set picks. \<not> pick_any p)"
  by (auto simp: settle_def Let_def list_ex_iff)

lemma settle_SomeD:
  assumes "settle cs picks m = Some ps"
  obtains W where "W \<subseteq> set (touched cs picks)" "ps = widened cs picks W"
    "m ps \<or> W = set (touched cs picks)"
proof -
  obtain W where W: "W \<subseteq> set (touched cs picks)"
    "foldl (\<lambda>ps h. if m (alone cs ps h) then ps else widen cs ps h) picks (touched cs picks) = widened cs picks W"
    using settle_fold [of "{}" "touched cs picks" m cs picks] by auto
  show thesis
  proof (cases "m (widened cs picks W)")
    case True
    with assms W have "ps = widened cs picks W"
      by (simp add: settle_def touched_def [symmetric] Let_def split: if_splits)
    with W(1) True show thesis by (intro that [of W]) auto
  next
    case False
    with assms W have "ps = widened cs picks (W \<union> set (touched cs picks))"
      by (simp add: settle_def touched_def [symmetric] Let_def widen_fold split: if_splits)
    with W(1) show thesis by (intro that [of "set (touched cs picks)"]) (auto simp: Un_absorb1)
  qed
qed

lemma settle_length: "settle cs picks m = Some ps \<Longrightarrow> length ps = length picks"
  by (auto elim: settle_SomeD)

lemma widened_every: "length picks = length cs \<Longrightarrow> picks = map pick_every cs \<Longrightarrow> widened cs picks W = picks"
  by (rule nth_equalityI) (auto simp: widened_def)

section \<open>The text an edit writes\<close>

lemma picked_simps [simp]:
  "unpicked_of ls (replicate (length ls) True) = []" "unpicked_of ls (replicate (length ls) False) = ls"
  "picked_of ls (replicate (length ls) True) = ls" "picked_of ls (replicate (length ls) False) = []"
  by (induction ls) (auto simp: unpicked_of_def picked_of_def)

lemma nths_range:
  "fst r \<le> snd r \<Longrightarrow> snd r \<le> length xs \<Longrightarrow> map (nth xs) (range_list r) = slice xs (fst r) (snd r)"
  by (rule nth_equalityI) (auto simp: range_list_def)

definition accepted_change :: "'a list \<Rightarrow> 'a list \<Rightarrow> change \<Rightarrow> pick \<Rightarrow> 'a list" where
  "accepted_change rl cl c p =
     map (nth rl) (unpicked_of (range_list (before c)) (pk_removed p)) @
     map (nth cl) (picked_of (range_list (after c)) (pk_added p))"

fun accepted_text :: "'a list \<Rightarrow> 'a list \<Rightarrow> nat \<Rightarrow> (change \<times> pick) list \<Rightarrow> 'a list" where
  "accepted_text rl cl pos [] = drop pos rl"
| "accepted_text rl cl pos ((c, p) # cps) =
     slice rl pos (fst (before c)) @ accepted_change rl cl c p @ accepted_text rl cl (snd (before c)) cps"

lemma keep_one:
  "l < length ls \<Longrightarrow> \<exists>rb'. rb_keep rb ls (l, l + 1) at = Some rb' \<and> rb_text rb' = rb_text rb @ ls ! l"
proof -
  assume l: "l < length ls"
  then obtain rb' where rb': "rb_keep rb ls (l, l + 1) at = Some rb'"
    using rb_keep_Some_iff [of rb ls "(l, l + 1)" at] by auto
  from rb_keep_SomeD [OF this] l have "rb_text rb' = rb_text rb @ ls ! l"
    using slice_one [OF l] by simp
  with rb' show ?thesis by blast
qed

lemma keep_range:
  "fst r \<le> snd r \<Longrightarrow> snd r \<le> length ls \<Longrightarrow>
     \<exists>rb'. rb_keep rb ls r at = Some rb' \<and> rb_text rb' = rb_text rb @ concat (slice ls (fst r) (snd r))"
  using rb_keep_Some_iff [of rb ls r at] rb_keep_SomeD [of rb ls r at] by blast

lemma accept_removed_text:
  "\<forall>lp \<in> set lps. fst lp < length (lines_new (hr_reviewed hr)) \<Longrightarrow>
     \<exists>rb'. fold_opt (accept_removed hr who rc) rb lps = Some rb' \<and>
       rb_text rb' = rb_text rb @ concat (map (\<lambda>lp. lines_new (hr_reviewed hr) ! fst lp) (filter (\<lambda>(l, p). \<not> p) lps))"
proof (induction lps arbitrary: rb)
  case (Cons lp lps)
  obtain l p where lp: "lp = (l, p)" by (cases lp)
  obtain rb' where "accept_removed hr who rc rb (l, p) = Some rb' \<and>
      rb_text rb' = rb_text rb @ (if p then [] else lines_new (hr_reviewed hr) ! l)"
    using keep_one [of l "lines_new (hr_reviewed hr)" rb "hr_attribution hr"] Cons.prems
    by (cases p) (auto simp: lp accept_removed_def rb.wtext_remove split: option.splits)
  with Cons.IH [of rb'] Cons.prems show ?case by (auto simp: lp)
qed simp

lemma accept_added_text:
  "\<forall>lp \<in> set lps. fst lp < length (lines_new (hr_current hr)) \<Longrightarrow>
     \<exists>rb'. fold_opt (accept_added hr who) rb lps = Some rb' \<and>
       rb_text rb' = rb_text rb @ concat (map (\<lambda>lp. lines_new (hr_current hr) ! fst lp) (filter (\<lambda>(l, p). p) lps))"
proof (induction lps arbitrary: rb)
  case (Cons lp lps)
  obtain l p where lp: "lp = (l, p)" by (cases lp)
  obtain rb' where "accept_added hr who rb (l, p) = Some rb' \<and>
      rb_text rb' = rb_text rb @ (if p then lines_new (hr_current hr) ! l else [])"
    using Cons.prems
    by (cases p) (auto simp: lp accept_added_def rb.wtext_push lines_line_def list_get_def)
  with Cons.IH [of rb'] Cons.prems show ?case by (auto simp: lp)
qed simp

lemma accept_change_text:
  assumes "snd (before c) \<le> length (lines_new (hr_reviewed hr))" "snd (after c) \<le> length (lines_new (hr_current hr))"
  shows "\<exists>rb'. accept_change hr who rc rb c p = Some rb' \<and>
    rb_text rb' = rb_text rb @ concat (accepted_change (lines_new (hr_reviewed hr)) (lines_new (hr_current hr)) c p)"
proof -
  have "\<forall>lp \<in> set (zip (range_list (before c)) (pk_removed p)). fst lp < length (lines_new (hr_reviewed hr))"
    using assms(1) by (auto simp: range_list_def dest!: set_zip_leftD)
  from accept_removed_text [OF this, of who rc rb] obtain rb1 where
    1: "fold_opt (accept_removed hr who rc) rb (zip (range_list (before c)) (pk_removed p)) = Some rb1"
      "rb_text rb1 = rb_text rb @ concat (map (nth (lines_new (hr_reviewed hr)))
         (unpicked_of (range_list (before c)) (pk_removed p)))"
    by (auto simp: unpicked_of_def o_def)
  have "\<forall>lp \<in> set (zip (range_list (after c)) (pk_added p)). fst lp < length (lines_new (hr_current hr))"
    using assms(2) by (auto simp: range_list_def dest!: set_zip_leftD)
  from accept_added_text [OF this, of who rb1] 1 show ?thesis
    by (auto simp: accept_change_def accepted_change_def picked_of_def o_def)
qed

lemma accept_fold_text:
  assumes "script_from i j (lines_new (hr_reviewed hr)) (lines_new (hr_current hr)) (map fst cps)"
    and "length (lines_new (hr_reviewed hr)) \<le> u32_max"
  shows "\<exists>rb'. keep_rest hr (fold_opt (accept_step hr who rc) (rb, i) cps) = Some rb' \<and>
    rb_text rb' = rb_text rb @ concat (accepted_text (lines_new (hr_reviewed hr)) (lines_new (hr_current hr)) i cps)"
  using assms(1)
proof (induction cps arbitrary: i j rb)
  case Nil
  then have "i \<le> length (lines_new (hr_reviewed hr))" by simp
  then show ?case
    using keep_range [of "(i, length (lines_new (hr_reviewed hr)))" "lines_new (hr_reviewed hr)" rb "hr_attribution hr"]
      assms(2) by (simp add: keep_rest_def)
next
  case (Cons cp cps)
  obtain c p where cp: "cp = (c, p)" by (cases cp)
  from Cons.prems have hd: "i \<le> fst (before c)" "fst (before c) \<le> length (lines_new (hr_reviewed hr))"
    "snd (before c) \<le> length (lines_new (hr_reviewed hr))" "snd (after c) \<le> length (lines_new (hr_current hr))"
    and sc: "script_from (snd (before c)) (snd (after c)) (lines_new (hr_reviewed hr))
      (lines_new (hr_current hr)) (map fst cps)"
    by (auto simp: cp)
  obtain rb1 where 1: "rb_keep rb (lines_new (hr_reviewed hr)) (i, fst (before c)) (hr_attribution hr) = Some rb1"
    "rb_text rb1 = rb_text rb @ concat (slice (lines_new (hr_reviewed hr)) i (fst (before c)))"
    using keep_range [of "(i, fst (before c))" "lines_new (hr_reviewed hr)" rb "hr_attribution hr"] hd by auto
  obtain rb2 where 2: "accept_change hr who rc rb1 c p = Some rb2"
    "rb_text rb2 = rb_text rb1 @
      concat (accepted_change (lines_new (hr_reviewed hr)) (lines_new (hr_current hr)) c p)"
    using accept_change_text [OF hd(3,4)] by blast
  from Cons.IH [OF sc, of rb2] 1 2 show ?case by (auto simp: cp accept_step_def)
qed

lemma accept_build_text:
  assumes "edit_script (lines_new (hr_reviewed hr)) (lines_new (hr_current hr)) opened"
    and "length (lines_new (hr_reviewed hr)) \<le> u32_max" "length picks = length opened"
  shows "\<exists>r. accept_build D hr who rc opened picks = Some r \<and>
    rv_text r = concat (accepted_text (lines_new (hr_reviewed hr)) (lines_new (hr_current hr)) 0 (zip opened picks))"
  using accept_fold_text [of 0 0 hr "zip opened picks" who rc "rb_on (hr_attribution hr)"] assms
  by (auto simp: accept_build_def edit_script_def)

lemma accepted_change_every:
  assumes "fst (after c) \<le> snd (after c)" "snd (after c) \<le> length cl"
  shows "accepted_change rl cl c (pick_every c) = slice cl (fst (after c)) (snd (after c))"
  using picked_simps(1) [of "range_list (before c)"] picked_simps(3) [of "range_list (after c)"] nths_range [OF assms]
  by (simp add: accepted_change_def pick_every_def)

lemma accepted_text_every:
  "script_from i j rl cl cs \<Longrightarrow> accepted_text rl cl i (zip cs (map pick_every cs)) = drop j cl"
proof (induction i j rl cl cs rule: script_from.induct)
  case (2 i j rl cl c cs)
  from "2.prems" have sc: "script_from (snd (before c)) (snd (after c)) rl cl cs"
    and hd: "j \<le> fst (after c)" "fst (after c) \<le> snd (after c)" "snd (after c) \<le> length cl"
      "slice rl i (fst (before c)) = slice cl j (fst (after c))"
    by simp_all
  have "slice cl j (fst (after c)) @ slice cl (fst (after c)) (snd (after c)) @ drop (snd (after c)) cl = drop j cl"
    using slice_append [OF hd(1,2), of cl] slice_append [of j "snd (after c)" "length cl" cl] hd(1-3)
    by (metis append_assoc le_trans slice_to_end)
  with "2.IH" [OF sc] accepted_change_every [OF hd(2,3), of rl] hd(4) show ?case by simp
qed simp

lemma accept_lines_None_iff:
  assumes "line_diff D" "length (lines_new (hr_reviewed hr)) \<le> u32_max"
  shows "accept_lines D hr sel who = None \<longleftrightarrow>
    (\<forall>c \<in> set (D (hr_reviewed hr) (hr_current hr)).
       \<not> pick_any (accept_pick (D (hr_base hr) (hr_reviewed hr)) sel c))"
proof -
  let ?rc = "D (hr_base hr) (hr_reviewed hr)" and ?open = "D (hr_reviewed hr) (hr_current hr)"
  let ?picks = "map (accept_pick ?rc sel) ?open"
  show ?thesis
  proof (cases "settle ?open ?picks (accept_matches D hr who ?rc ?open)")
    case None
    then have "\<forall>p \<in> set ?picks. \<not> pick_any p" by (simp only: settle_None_iff)
    with None show ?thesis by (simp add: accept_lines_def Let_def del: set_map) simp
  next
    case (Some ps)
    then have "length ps = length ?open" using settle_length by fastforce
    from accept_build_text [OF line_diff_script [OF assms(1)] assms(2) this]
    obtain r where "accept_build D hr who ?rc ?open ps = Some r" by blast
    with Some have "accept_lines D hr sel who \<noteq> None" by (simp add: accept_lines_def Let_def)
    moreover have "\<exists>p \<in> set ?picks. pick_any p" using Some settle_None_iff by (metis option.distinct(1))
    ultimately show ?thesis by auto
  qed
qed

text \<open>The edit an accepted selection makes: picks that settling may widen hunk by hunk, and the text
  those picks write.\<close>

lemma accept_lines_text:
  assumes "line_diff D" "length (lines_new (hr_reviewed hr)) \<le> u32_max" "accept_lines D hr sel who = Some v"
  defines "rc \<equiv> D (hr_base hr) (hr_reviewed hr)" and "opened \<equiv> D (hr_reviewed hr) (hr_current hr)"
  obtains W where "W \<subseteq> set (touched opened (map (accept_pick rc sel) opened))"
    "version_text hr v = concat (accepted_text (lines_new (hr_reviewed hr)) (lines_new (hr_current hr)) 0
       (zip opened (widened opened (map (accept_pick rc sel) opened) W)))"
    "accept_matches D hr who rc opened (widened opened (map (accept_pick rc sel) opened) W) \<or>
      W = set (touched opened (map (accept_pick rc sel) opened))"
proof -
  let ?picks = "map (accept_pick rc sel) opened"
  obtain ps r where ps: "settle opened ?picks (accept_matches D hr who rc opened) = Some ps"
    and r: "accept_build D hr who rc opened ps = Some r" "v = version hr r"
    using assms(3) by (auto simp: accept_lines_def Let_def rc_def opened_def split: option.splits)
  from ps obtain W where W: "W \<subseteq> set (touched opened ?picks)" "ps = widened opened ?picks W"
    "accept_matches D hr who rc opened ps \<or> W = set (touched opened ?picks)"
    by (rule settle_SomeD)
  have len: "length ps = length opened" using settle_length [OF ps] by simp
  have "rv_text r = concat (accepted_text (lines_new (hr_reviewed hr)) (lines_new (hr_current hr)) 0 (zip opened ps))"
    using accept_build_text [of hr opened ps D who rc] line_diff_script [OF assms(1)] assms(2)
      len r(1) by (auto simp: opened_def)
  with r(2) W show thesis by (intro that [of W]) auto
qed

section \<open>Accepting everything\<close>

text \<open>A change that a line selection can name: it adds a line, or removes one that the base has.\<close>

definition addressable :: "change list \<Rightarrow> change \<Rightarrow> bool" where
  "addressable rc c \<longleftrightarrow> \<not> range_empty (after c) \<or> (\<exists>l. in_range (before c) l \<and> before_line rc l \<noteq> None)"

lemma addressed_lines:
  "map snd (filter (\<lambda>(b, _). b \<noteq> None) (zip (map f ls) (map g (map f ls)))) =
     map (\<lambda>l. g (f l)) (filter (\<lambda>l. f l \<noteq> None) ls)"
  by (induction ls) auto

lemma accept_pick_every:
  assumes "addressable rc c"
    and "\<And>l. in_range (after c) l \<Longrightarrow> l \<in> ls_added sel"
    and "\<And>l b. in_range (before c) l \<Longrightarrow> before_line rc l = Some b \<Longrightarrow> b \<in> ls_removed sel"
  shows "accept_pick rc sel c = pick_every c"
proof -
  let ?bases = "map (before_line rc) (range_list (before c))"
  let ?removed = "map (\<lambda>b. case b of Some b \<Rightarrow> b \<in> ls_removed sel | None \<Rightarrow> False) ?bases"
  let ?named = "map snd (filter (\<lambda>(b, _). b \<noteq> None) (zip ?bases ?removed))"
  let ?added = "map (\<lambda>l. l \<in> ls_added sel) (range_list (after c))"
  have named: "?named = map (\<lambda>l. case before_line rc l of Some b \<Rightarrow> b \<in> ls_removed sel | None \<Rightarrow> False)
      (filter (\<lambda>l. before_line rc l \<noteq> None) (range_list (before c)))"
    by (rule addressed_lines)
  have "list_all (\<lambda>b. b) (?named @ ?added)"
    unfolding named using assms(2,3) by (auto simp: list_all_iff split: option.splits)
  moreover have "?named @ ?added \<noteq> []"
    unfolding named using assms(1) by (auto simp: addressable_def filter_empty_conv)
  ultimately show ?thesis by (simp add: accept_pick_def Let_def)
qed

lemma accept_lines_every:
  assumes "line_diff D" "length (lines_new (hr_reviewed hr)) \<le> u32_max"
    and "hr_reviewed hr \<noteq> hr_current hr"
    and "\<forall>c \<in> set (D (hr_reviewed hr) (hr_current hr)). addressable (D (hr_base hr) (hr_reviewed hr)) c"
  shows "\<exists>at. accept_lines D hr (open_lines D (hr_base hr) (hr_reviewed hr) (hr_current hr)) who = Some (Current at)"
proof -
  let ?rc = "D (hr_base hr) (hr_reviewed hr)" and ?open = "D (hr_reviewed hr) (hr_current hr)"
  let ?sel = "open_lines D (hr_base hr) (hr_reviewed hr) (hr_current hr)"
  have ne: "?open \<noteq> []" using line_diff_Nil_iff [OF assms(1)] assms(3) by simp
  have every: "accept_pick ?rc ?sel c = pick_every c" if "c \<in> set ?open" for c
    using assms(4) that
    by (intro accept_pick_every) (auto simp: open_lines_def Let_def set_changed_after set_changed_before set_filter_map)
  then have picks: "map (accept_pick ?rc ?sel) ?open = map pick_every ?open" by simp
  obtain c where c: "c \<in> set ?open" using ne last_in_set by blast
  have "pick_any (pick_every c)"
    using line_diff_script [OF assms(1)] c edit_script_nonempty
    by (fastforce simp: pick_any_def pick_every_def list_ex_iff)
  then obtain v where v: "accept_lines D hr ?sel who = Some v"
    using accept_lines_None_iff [OF assms(1,2), of ?sel who] every [OF c] c by force
  obtain W where "version_text hr v = concat (accepted_text (lines_new (hr_reviewed hr))
      (lines_new (hr_current hr)) 0 (zip ?open (widened ?open (map pick_every ?open) W)))"
    using accept_lines_text [OF assms(1,2) v] unfolding picks by metis
  then have "version_text hr v = hr_current hr"
    using accepted_text_every [of 0 0 "lines_new (hr_reviewed hr)" "lines_new (hr_current hr)" ?open]
      line_diff_script [OF assms(1)] by (simp add: widened_every edit_script_def)
  moreover obtain r where "v = version hr r"
    using v by (auto simp: accept_lines_def Let_def split: option.splits)
  ultimately show ?thesis using v version_is_current [of hr r] by auto
qed

section \<open>Reopening everything\<close>

definition reopened_change :: "'a list \<Rightarrow> 'a list \<Rightarrow> change \<Rightarrow> pick \<Rightarrow> 'a list" where
  "reopened_change bl rl c p =
     map (nth bl) (picked_of (range_list (before c)) (pk_removed p)) @
     map (nth rl) (unpicked_of (range_list (after c)) (pk_added p))"

fun reopened_text :: "'a list \<Rightarrow> 'a list \<Rightarrow> nat \<Rightarrow> (change \<times> pick) list \<Rightarrow> 'a list" where
  "reopened_text bl rl pos [] = drop pos rl"
| "reopened_text bl rl pos ((c, p) # cps) =
     slice rl pos (fst (after c)) @ reopened_change bl rl c p @ reopened_text bl rl (snd (after c)) cps"

lemma reopen_removed_text:
  "\<forall>lp \<in> set lps. fst lp < length (lines_new (hr_base hr)) \<Longrightarrow>
     \<exists>rb'. fold_opt (reopen_removed hr) rb lps = Some rb' \<and>
       rb_text rb' = rb_text rb @ concat (map (\<lambda>lp. lines_new (hr_base hr) ! fst lp) (filter (\<lambda>(l, p). p) lps))"
proof (induction lps arbitrary: rb)
  case (Cons lp lps)
  obtain l p where lp: "lp = (l, p)" by (cases lp)
  obtain rb' where "reopen_removed hr rb (l, p) = Some rb' \<and>
      rb_text rb' = rb_text rb @ (if p then lines_new (hr_base hr) ! l else [])"
    using Cons.prems
    by (cases p) (auto simp: lp reopen_removed_def rb.wtext_push lines_line_def list_get_def)
  with Cons.IH [of rb'] Cons.prems show ?case by (auto simp: lp)
qed simp

lemma reopen_added_text:
  "\<forall>lp \<in> set lps. fst lp < length (lines_new (hr_reviewed hr)) \<Longrightarrow>
     \<exists>rb'. fold_opt (reopen_added hr) rb lps = Some rb' \<and>
       rb_text rb' = rb_text rb @ concat (map (\<lambda>lp. lines_new (hr_reviewed hr) ! fst lp) (filter (\<lambda>(l, p). \<not> p) lps))"
proof (induction lps arbitrary: rb)
  case (Cons lp lps)
  obtain l p where lp: "lp = (l, p)" by (cases lp)
  obtain rb' where "reopen_added hr rb (l, p) = Some rb' \<and>
      rb_text rb' = rb_text rb @ (if p then [] else lines_new (hr_reviewed hr) ! l)"
    using keep_one [of l "lines_new (hr_reviewed hr)" rb "hr_attribution hr"] Cons.prems
    by (cases p) (auto simp: lp reopen_added_def)
  with Cons.IH [of rb'] Cons.prems show ?case by (auto simp: lp)
qed simp

lemma reopen_step_text:
  assumes "pos \<le> fst (after c)" "fst (after c) \<le> snd (after c)" "snd (after c) \<le> length (lines_new (hr_reviewed hr))"
    "snd (before c) \<le> length (lines_new (hr_base hr))"
  shows "\<exists>rb'. reopen_step hr (rb, pos) (c, p) = Some (rb', snd (after c)) \<and>
    rb_text rb' = rb_text rb @ concat (slice (lines_new (hr_reviewed hr)) pos (fst (after c)) @
      reopened_change (lines_new (hr_base hr)) (lines_new (hr_reviewed hr)) c p)"
proof -
  obtain rb1 where 1: "rb_keep rb (lines_new (hr_reviewed hr)) (pos, fst (after c)) (hr_attribution hr) = Some rb1"
    "rb_text rb1 = rb_text rb @ concat (slice (lines_new (hr_reviewed hr)) pos (fst (after c)))"
    using keep_range [of "(pos, fst (after c))" "lines_new (hr_reviewed hr)" rb "hr_attribution hr"] assms by auto
  have "\<forall>lp \<in> set (zip (range_list (before c)) (pk_removed p)). fst lp < length (lines_new (hr_base hr))"
    using assms by (auto simp: range_list_def dest!: set_zip_leftD)
  from reopen_removed_text [OF this, of rb1] obtain rb2 where
    2: "fold_opt (reopen_removed hr) rb1 (zip (range_list (before c)) (pk_removed p)) = Some rb2"
      "rb_text rb2 = rb_text rb1 @ concat (map (nth (lines_new (hr_base hr)))
         (picked_of (range_list (before c)) (pk_removed p)))"
    by (auto simp: picked_of_def o_def)
  have "\<forall>lp \<in> set (zip (range_list (after c)) (pk_added p)). fst lp < length (lines_new (hr_reviewed hr))"
    using assms by (auto simp: range_list_def dest!: set_zip_leftD)
  from reopen_added_text [OF this, of rb2] 1 2 show ?thesis
    by (auto simp: reopen_step_def reopened_change_def unpicked_of_def o_def)
qed

lemma reopen_fold_text:
  assumes "script_from i j (lines_new (hr_base hr)) (lines_new (hr_reviewed hr)) (map fst cps)"
    and "length (lines_new (hr_reviewed hr)) \<le> u32_max"
  shows "\<exists>rb'. keep_rest hr (fold_opt (reopen_step hr) (rb, j) cps) = Some rb' \<and>
    rb_text rb' = rb_text rb @ concat (reopened_text (lines_new (hr_base hr)) (lines_new (hr_reviewed hr)) j cps)"
  using assms(1)
proof (induction cps arbitrary: i j rb)
  case Nil
  then have "j \<le> length (lines_new (hr_reviewed hr))" by simp
  then show ?case
    using keep_range [of "(j, length (lines_new (hr_reviewed hr)))" "lines_new (hr_reviewed hr)" rb "hr_attribution hr"]
      assms(2) by (simp add: keep_rest_def)
next
  case (Cons cp cps)
  obtain c p where cp: "cp = (c, p)" by (cases cp)
  from Cons.prems have hd: "j \<le> fst (after c)" "fst (after c) \<le> snd (after c)"
    "snd (after c) \<le> length (lines_new (hr_reviewed hr))" "snd (before c) \<le> length (lines_new (hr_base hr))"
    and sc: "script_from (snd (before c)) (snd (after c)) (lines_new (hr_base hr))
      (lines_new (hr_reviewed hr)) (map fst cps)"
    by (auto simp: cp)
  obtain rb1 where "reopen_step hr (rb, j) (c, p) = Some (rb1, snd (after c))"
    "rb_text rb1 = rb_text rb @ concat (slice (lines_new (hr_reviewed hr)) j (fst (after c)) @
      reopened_change (lines_new (hr_base hr)) (lines_new (hr_reviewed hr)) c p)"
    using reopen_step_text [OF hd] by blast
  with Cons.IH [OF sc, of rb1] show ?case by (auto simp: cp)
qed

lemma reopen_build_text:
  assumes "edit_script (lines_new (hr_base hr)) (lines_new (hr_reviewed hr)) rc"
    and "length (lines_new (hr_reviewed hr)) \<le> u32_max" "length picks = length rc"
  shows "\<exists>r. reopen_build D hr rc picks = Some r \<and>
    rv_text r = concat (reopened_text (lines_new (hr_base hr)) (lines_new (hr_reviewed hr)) 0 (zip rc picks))"
  using reopen_fold_text [of 0 0 hr "zip rc picks" "rb_on (hr_attribution hr)"] assms
  by (auto simp: reopen_build_def edit_script_def)

lemma reopened_change_every:
  assumes "fst (before c) \<le> snd (before c)" "snd (before c) \<le> length bl"
  shows "reopened_change bl rl c (pick_every c) = slice bl (fst (before c)) (snd (before c))"
  using picked_simps(3) [of "range_list (before c)"] picked_simps(1) [of "range_list (after c)"] nths_range [OF assms]
  by (simp add: reopened_change_def pick_every_def)

lemma reopened_text_every:
  "script_from i j bl rl cs \<Longrightarrow> reopened_text bl rl j (zip cs (map pick_every cs)) = drop i bl"
proof (induction i j bl rl cs rule: script_from.induct)
  case (2 i j bl rl c cs)
  from "2.prems" have sc: "script_from (snd (before c)) (snd (after c)) bl rl cs"
    and hd: "i \<le> fst (before c)" "fst (before c) \<le> snd (before c)" "snd (before c) \<le> length bl"
      "slice rl j (fst (after c)) = slice bl i (fst (before c))"
    by simp_all
  have "slice bl i (fst (before c)) @ slice bl (fst (before c)) (snd (before c)) @ drop (snd (before c)) bl = drop i bl"
    using slice_append [OF hd(1,2), of bl] slice_append [of i "snd (before c)" "length bl" bl] hd(1-3)
    by (metis append_assoc le_trans slice_to_end)
  with "2.IH" [OF sc] reopened_change_every [OF hd(2,3), of rl] hd(4) show ?case by simp
qed simp

lemma reopen_lines_None_iff:
  assumes "line_diff D" "length (lines_new (hr_reviewed hr)) \<le> u32_max"
  shows "reopen_lines D hr sel = None \<longleftrightarrow>
    (\<forall>c \<in> set (D (hr_base hr) (hr_reviewed hr)).
       \<not> pick_any (reopen_pick (D (hr_reviewed hr) (hr_current hr)) sel c))"
proof -
  let ?rc = "D (hr_base hr) (hr_reviewed hr)" and ?open = "D (hr_reviewed hr) (hr_current hr)"
  let ?picks = "map (reopen_pick ?open sel) ?rc"
  show ?thesis
  proof (cases "settle ?rc ?picks (reopen_matches D hr ?rc ?open)")
    case None
    then have "\<forall>p \<in> set ?picks. \<not> pick_any p" by (simp only: settle_None_iff)
    with None show ?thesis by (simp add: reopen_lines_def Let_def del: set_map) simp
  next
    case (Some ps)
    then have "length ps = length ?rc" using settle_length by fastforce
    from reopen_build_text [OF line_diff_script [OF assms(1)] assms(2) this]
    obtain r where "reopen_build D hr ?rc ps = Some r" by blast
    with Some have "reopen_lines D hr sel \<noteq> None" by (simp add: reopen_lines_def Let_def)
    moreover have "\<exists>p \<in> set ?picks. pick_any p" using Some settle_None_iff by (metis option.distinct(1))
    ultimately show ?thesis by auto
  qed
qed

lemma dom_insert_all [simp]: "dom (insert_all m xs) = dom m \<union> fst ` set xs"
  by (induction xs arbitrary: m) (auto simp: insert_all_def)

lemma selection_of_reviewed_lines:
  "selection_of (reviewed_lines_of D hr) = shown_lines D (hr_base hr) (hr_reviewed hr) (hr_current hr)"
  by (auto simp: selection_of_def reviewed_lines_of_def shown_lines_def Let_def image_image
      set_filter_map image_iff) blast

lemma map_replicate_True:
  "\<forall>l \<in> set (range_list r). f l \<Longrightarrow> map f (range_list r) = replicate (snd r - fst r) True"
proof -
  assume *: "\<forall>l \<in> set (range_list r). f l"
  have "map f (range_list r) = map (\<lambda>_. True) (range_list r)" by (rule map_cong) (use * in simp_all)
  then show ?thesis using map_replicate_const [of True "range_list r"] by simp
qed

lemma reopen_lines_every:
  assumes "line_diff D" "length (lines_new (hr_reviewed hr)) \<le> u32_max"
    and "hr_base hr \<noteq> hr_reviewed hr" "hr_base hr \<noteq> hr_current hr"
    and shown: "\<forall>l \<in> set (changed_after (D (hr_base hr) (hr_reviewed hr))).
      after_line (D (hr_reviewed hr) (hr_current hr)) l \<noteq> None"
  shows "reopen_lines D hr (selection_of (reviewed_lines_of D hr)) = Some Base"
proof -
  let ?rc = "D (hr_base hr) (hr_reviewed hr)" and ?open = "D (hr_reviewed hr) (hr_current hr)"
  let ?sel = "selection_of (reviewed_lines_of D hr)"
  have every: "reopen_pick ?open ?sel c = pick_every c" if "c \<in> set ?rc" for c
  proof -
    have "\<forall>l \<in> set (range_list (before c)). l \<in> ls_removed ?sel"
      using that by (auto simp: selection_of_reviewed_lines shown_lines_def Let_def set_changed_before)
    moreover have "\<forall>l \<in> set (range_list (after c)). \<exists>m \<in> ls_added ?sel. after_line ?open l = Some m"
      using that shown
      by (auto simp: selection_of_reviewed_lines shown_lines_def Let_def set_changed_after set_filter_map) blast
    ultimately show ?thesis
      by (auto simp: reopen_pick_def pick_every_def intro!: map_replicate_True)
  qed
  then have picks: "map (reopen_pick ?open ?sel) ?rc = map pick_every ?rc" by simp
  obtain c where c: "c \<in> set ?rc"
    using line_diff_Nil_iff [OF assms(1)] assms(3) last_in_set by blast
  have "pick_any (pick_every c)"
    using line_diff_script [OF assms(1)] c edit_script_nonempty
    by (fastforce simp: pick_any_def pick_every_def list_ex_iff)
  then obtain v where v: "reopen_lines D hr ?sel = Some v"
    using reopen_lines_None_iff [OF assms(1,2), of ?sel] every [OF c] c by force
  then obtain ps r where ps: "settle ?rc (map pick_every ?rc) (reopen_matches D hr ?rc ?open) = Some ps"
    and r: "reopen_build D hr ?rc ps = Some r" "v = version hr r"
    unfolding reopen_lines_def Let_def picks by (auto split: option.splits)
  from ps have "ps = map pick_every ?rc" by (rule settle_SomeD) (simp add: widened_every)
  then have "rv_text r = hr_base hr"
    using reopen_build_text [of hr ?rc ps D] assms(2) r(1)
      reopened_text_every [of 0 0 "lines_new (hr_base hr)" "lines_new (hr_reviewed hr)" ?rc]
      line_diff_script [OF assms(1)]
    by (auto simp: edit_script_def)
  with v r(2) version_is_base [of hr r] assms(4) show ?thesis by simp
qed

section \<open>Every changed line is open or reviewed, and none is both\<close>

lemma not_open_and_shown:
  assumes "line_diff D" "length (lines_new reviewed) \<le> u32_max" "length (lines_new current) \<le> u32_max"
    "length (lines_new base) \<le> u32_max"
  shows "ls_added (open_lines D base reviewed current) \<inter> ls_added (shown_lines D base reviewed current) = {}"
    and "ls_removed (open_lines D base reviewed current) \<inter> ls_removed (shown_lines D base reviewed current) = {}"
proof -
  let ?rc = "D base reviewed" and ?open = "D reviewed current"
  note rc = line_diff_script [OF assms(1), of base reviewed]
  note op = line_diff_script [OF assms(1), of reviewed current]
  have "m \<notin> set (changed_after ?open)" if "l \<in> set (changed_after ?rc)" "after_line ?open l = Some m" for l m
  proof -
    have "l < length (lines_new reviewed)"
      using that(1) sorted_concat_ranges [of 0 0 _ _ ?rc] rc by (auto simp: edit_script_def)
    from after_line_SomeD [OF op assms(3,2) this that(2)]
    have m: "m < length (lines_new current)" and "before_line ?open m = Some l" by auto
    then show ?thesis
      using before_line_None_iff [OF op assms(3,2) m] by (auto simp: set_changed_after)
  qed
  then show "ls_added (open_lines D base reviewed current) \<inter> ls_added (shown_lines D base reviewed current) = {}"
    by (auto simp: open_lines_def shown_lines_def Let_def set_filter_map)
  have "b \<notin> set (changed_before ?rc)" if "l \<in> set (changed_before ?open)" "before_line ?rc l = Some b" for l b
  proof -
    have "l < length (lines_new reviewed)"
      using that(1) sorted_concat_ranges [of 0 0 _ _ ?open] op by (auto simp: edit_script_def)
    from before_line_SomeD [OF rc assms(2,4) this that(2)]
    have b: "b < length (lines_new base)" and "after_line ?rc b = Some l" by auto
    then show ?thesis
      using after_line_None_iff [OF rc assms(2,4) b] by (auto simp: set_changed_before)
  qed
  then show "ls_removed (open_lines D base reviewed current) \<inter> ls_removed (shown_lines D base reviewed current) = {}"
    by (auto simp: open_lines_def shown_lines_def Let_def set_filter_map)
qed

lemma neither_open_nor_shown:
  assumes "line_diff D" "length (lines_new reviewed) \<le> u32_max" "length (lines_new current) \<le> u32_max"
    "length (lines_new base) \<le> u32_max" "l < length (lines_new current)"
    and "l \<notin> ls_added (open_lines D base reviewed current)" "l \<notin> ls_added (shown_lines D base reviewed current)"
  shows "\<exists>b. b < length (lines_new base) \<and> lines_new base ! b = lines_new current ! l"
proof -
  let ?rc = "D base reviewed" and ?open = "D reviewed current"
  note rc = line_diff_script [OF assms(1), of base reviewed]
  note op = line_diff_script [OF assms(1), of reviewed current]
  have "\<not> (\<exists>c \<in> set ?open. in_range (after c) l)"
    using assms(6) by (auto simp: open_lines_def Let_def set_changed_after)
  then obtain m where m: "before_line ?open l = Some m"
    using before_line_None_iff [OF op assms(3,2,5)] by blast
  from before_line_SomeD [OF op assms(3,2,5) m] have mr: "m < length (lines_new reviewed)"
    "lines_new reviewed ! m = lines_new current ! l" "after_line ?open m = Some l" by auto
  then have "m \<notin> set (changed_after ?rc)"
    using assms(7) by (auto simp: shown_lines_def Let_def set_filter_map)
  then obtain b where b: "before_line ?rc m = Some b"
    using before_line_None_iff [OF rc assms(2,4) mr(1)] by (auto simp: set_changed_after)
  from before_line_SomeD [OF rc assms(2,4) mr(1) b] mr(2) show ?thesis by auto
qed

end
