(* ===== verification/Classify.thy ===== *)
theory Classify
  imports HunkReview
begin

text \<open>
  Telling a file's open hunks from its reviewed ones (crates/review-hunks/src/classify.rs).

  The lemmas: the reviewed hunks show exactly the reviewed changes that no open change touches, each
  row with the text of the line it numbers, and a context row numbers a line that the base and the
  current file share; a file without reviewed lines has only the open hunks of its diff.
\<close>

datatype mark_age = CurrentMark | Outdated

record placed =
  pl_base :: range
  pl_reviewed :: range
  pl_current :: range

definition row_text :: "byte \<Rightarrow> bytes option \<Rightarrow> bytes" where
  "row_text marker line =
     marker # utf8_lossy (trim_last cr (trim_last nl (case line of Some l \<Rightarrow> l | None \<Rightarrow> [])))"

definition gap_rows :: "bytes list \<Rightarrow> placed \<Rightarrow> placed \<Rightarrow> diff_row list" where
  "gap_rows current prev pl =
     map (\<lambda>offset.
        let new_line = snd (pl_current prev) + offset
        in Context (snd (pl_base prev) + offset + 1) (new_line + 1)
             (row_text (CHR '' '') (lines_line current new_line)))
       [0 ..< fst (pl_current pl) - snd (pl_current prev)]"

definition change_rows :: "bytes list \<Rightarrow> bytes list \<Rightarrow> placed \<Rightarrow> diff_row list" where
  "change_rows base current pl =
     map (\<lambda>l. Delete (l + 1) (row_text (CHR ''-'') (lines_line base l))) (range_list (pl_base pl)) @
     map (\<lambda>l. Add (l + 1) (row_text (CHR ''+'') (lines_line current l))) (range_list (pl_current pl))"

fun group_rows :: "bytes list \<Rightarrow> bytes list \<Rightarrow> placed option \<Rightarrow> placed list \<Rightarrow> diff_row list" where
  "group_rows base current prev [] = []"
| "group_rows base current prev (pl # pls) =
     (case prev of Some p \<Rightarrow> gap_rows current p pl | None \<Rightarrow> []) @
     change_rows base current pl @ group_rows base current (Some pl) pls"

definition hunk_of_group :: "bytes list \<Rightarrow> bytes list \<Rightarrow> placed list \<Rightarrow> reviewed_hunk option" where
  "hunk_of_group base current grp =
     (if grp = [] then None
      else Some \<lparr>rh_span =
             \<lparr>sp_old = (fst (pl_base (hd grp)), snd (pl_base (last grp))),
              sp_new = (fst (pl_current (hd grp)), snd (pl_current (last grp)))\<rparr>,
           rh_rows = group_rows base current None grp\<rparr>)"

definition place :: "change list \<Rightarrow> change \<Rightarrow> placed option" where
  "place opened c =
     map_option (\<lambda>current. \<lparr>pl_base = before c, pl_reviewed = after c, pl_current = current\<rparr>)
       (translate (forward opened) (after c))"

definition joins :: "change list \<Rightarrow> placed option \<Rightarrow> placed list \<Rightarrow> bool" where
  "joins opened pl grp =
     (case pl of
        None \<Rightarrow> False
      | Some pl \<Rightarrow>
          grp \<noteq> [] \<and>
          (let last = last grp
           in fst (pl_base pl) - snd (pl_base last) \<le> 2 * CONTEXT \<and>
              \<not> list_ex (\<lambda>c. overlaps (before c) (snd (pl_reviewed last), fst (pl_reviewed pl))) opened))"

definition reviewed_step ::
  "bytes list \<Rightarrow> bytes list \<Rightarrow> change list \<Rightarrow> reviewed_hunk list \<times> placed list \<Rightarrow> change
     \<Rightarrow> reviewed_hunk list \<times> placed list" where
  "reviewed_step base current opened st c =
     (case st of (hunks, grp) \<Rightarrow>
        let pl = place opened c
        in if joins opened pl grp then (hunks, grp @ list_of_option pl)
           else (hunks @ list_of_option (hunk_of_group base current grp), list_of_option pl))"

definition reviewed_hunks :: "hunk_review \<Rightarrow> change list \<Rightarrow> change list \<Rightarrow> reviewed_hunk list" where
  "reviewed_hunks hr reviewed opened =
     (let base = lines_new (hr_base hr); current = lines_new (hr_current hr)
      in case foldl (reviewed_step base current opened) ([], []) reviewed of
           (hunks, grp) \<Rightarrow> hunks @ list_of_option (hunk_of_group base current grp))"

definition rewrites_reviewed_lines :: "hunk_span \<Rightarrow> change list \<Rightarrow> change list \<Rightarrow> mark_age \<Rightarrow> bool" where
  "rewrites_reviewed_lines span opened reviewed age =
     list_ex (\<lambda>c. list_ex (\<lambda>r.
         (\<not> range_empty (before c) \<and> \<not> range_empty (after r) \<and> overlaps (after r) (before c)) \<or>
         (age = Outdated \<and> overlaps (after r) (before c))) reviewed)
       (filter (\<lambda>c. overlaps (before c) (sp_old span)) opened)"

definition hunks :: "differ \<Rightarrow> hunk_review \<Rightarrow> diff_row list \<Rightarrow> mark_age \<Rightarrow> file_hunks" where
  "hunks D hr open_rows age =
     (if list_ex is_notice open_rows then no_hunks
      else let reviewed = D (hr_base hr) (hr_reviewed hr);
               opened = D (hr_reviewed hr) (hr_current hr)
           in \<lparr>fh_open = map (\<lambda>h. h\<lparr>oh_since_review := rewrites_reviewed_lines (oh_span h) opened reviewed age\<rparr>)
                 (open_hunks open_rows),
               fh_reviewed = reviewed_hunks hr reviewed opened\<rparr>)"

section \<open>A file without reviewed lines\<close>

lemma open_hunks_fresh: "h \<in> set (open_hunks rows) \<Longrightarrow> \<not> oh_since_review h"
proof -
  have finished: "\<not> oh_since_review h" if "h \<in> set (finished w)" for h w
    using that by (cases w) (auto simp: list_of_option_def walk_finish_def split: option.splits)
  have "\<forall>h \<in> set spans. \<not> oh_since_review h \<Longrightarrow>
    h \<in> set (fst (foldl open_step (spans, w) rows)) \<Longrightarrow> \<not> oh_since_review h" for h spans w
  proof (induction rows arbitrary: spans w)
    case (Cons r rows)
    obtain spans' w' where st: "open_step (spans, w) r = (spans', w')" by force
    then have "\<forall>h \<in> set spans'. \<not> oh_since_review h"
      using Cons.prems(1) finished by (auto simp: open_step_def split: option.splits)
    from Cons.IH [OF this] Cons.prems(2) st show ?case by simp
  qed simp
  from this [of "[]"] show "h \<in> set (open_hunks rows) \<Longrightarrow> \<not> oh_since_review h"
    using finished by (auto simp: open_hunks_def split: if_splits prod.splits) (metis fst_conv)
qed

lemma hunks_without_review:
  assumes "line_diff D" "hr_base hr = hr_reviewed hr"
  shows "hunks D hr rows age = hunks_unreviewed rows"
proof -
  have "map (\<lambda>h. h\<lparr>oh_since_review := False\<rparr>) (open_hunks rows) = open_hunks rows"
    by (rule map_idI) (use open_hunks_fresh in \<open>auto intro: open_hunk.equality\<close>)
  moreover have "rewrites_reviewed_lines span opened [] age = False" for span opened
    by (simp add: rewrites_reviewed_lines_def list_ex_iff)
  moreover have "open_hunks rows = []" if "list_ex is_notice rows"
    using that by (simp add: open_hunks_def)
  ultimately show ?thesis using assms
    by (auto simp: hunks_def hunks_unreviewed_def no_hunks_def reviewed_hunks_def hunk_of_group_def)
qed

section \<open>The reviewed hunks\<close>

fun placed_groups :: "change list \<Rightarrow> placed list \<Rightarrow> change list \<Rightarrow> placed list list" where
  "placed_groups opened g [] = (if g = [] then [] else [g])"
| "placed_groups opened g (c # cs) =
     (if joins opened (place opened c) g then placed_groups opened (g @ list_of_option (place opened c)) cs
      else (if g = [] then [] else [g]) @ placed_groups opened (list_of_option (place opened c)) cs)"

lemma reviewed_step_groups:
  "(case foldl (reviewed_step base current opened) (hs, g) cs of
      (hs, g) \<Rightarrow> hs @ list_of_option (hunk_of_group base current g)) =
   hs @ filter_map (hunk_of_group base current) (placed_groups opened g cs)"
  by (induction cs arbitrary: hs g) (auto simp: reviewed_step_def Let_def hunk_of_group_def)

lemma reviewed_hunks_groups:
  "reviewed_hunks hr reviewed opened =
     filter_map (hunk_of_group (lines_new (hr_base hr)) (lines_new (hr_current hr)))
       (placed_groups opened [] reviewed)"
  using reviewed_step_groups [of "lines_new (hr_base hr)" "lines_new (hr_current hr)" opened "[]" "[]" reviewed]
  by (simp add: reviewed_hunks_def Let_def)

lemma concat_placed_groups: "concat (placed_groups opened g cs) = g @ filter_map (place opened) cs"
  by (induction cs arbitrary: g) (auto simp: joins_def split: option.splits)

lemma filter_gap_rows [simp]: "filter is_change_row (gap_rows current p pl) = []"
  by (auto simp: gap_rows_def filter_empty_conv is_change_row_def Let_def)

lemma filter_change_rows [simp]: "filter is_change_row (change_rows base current pl) = change_rows base current pl"
  by (auto simp: change_rows_def filter_id_conv is_change_row_def)

lemma filter_group_rows:
  "filter is_change_row (group_rows base current prev g) = concat (map (change_rows base current) g)"
  by (induction g arbitrary: prev) (auto split: option.splits)

lemma reviewed_hunks_changes:
  "filter is_change_row (concat (map rh_rows (reviewed_hunks hr reviewed opened))) =
     concat (map (change_rows (lines_new (hr_base hr)) (lines_new (hr_current hr)))
       (filter_map (place opened) reviewed))"
proof -
  have "filter is_change_row (concat (map rh_rows (filter_map (hunk_of_group base current) gs))) =
      concat (map (change_rows base current) (concat gs))" for base current gs
    by (induction gs) (auto simp: hunk_of_group_def filter_group_rows)
  then show ?thesis by (simp add: reviewed_hunks_groups concat_placed_groups)
qed

section \<open>The rows of a reviewed hunk\<close>

text \<open>A row that shows the line it numbers; for a context row, a line both versions have.\<close>

definition row_ok :: "bytes list \<Rightarrow> bytes list \<Rightarrow> diff_row \<Rightarrow> bool" where
  "row_ok base current r =
     (case r of
        Context o' n t \<Rightarrow>
          0 < o' \<and> o' \<le> length base \<and> 0 < n \<and> n \<le> length current \<and> base ! (o' - 1) = current ! (n - 1) \<and>
          t = row_text (CHR '' '') (Some (current ! (n - 1)))
      | Delete o' t \<Rightarrow> 0 < o' \<and> o' \<le> length base \<and> t = row_text (CHR ''-'') (Some (base ! (o' - 1)))
      | Add n t \<Rightarrow> 0 < n \<and> n \<le> length current \<and> t = row_text (CHR ''+'') (Some (current ! (n - 1)))
      | _ \<Rightarrow> False)"

definition within :: "bytes list \<Rightarrow> bytes list \<Rightarrow> placed \<Rightarrow> bool" where
  "within base current p \<longleftrightarrow>
     fst (pl_base p) \<le> snd (pl_base p) \<and> snd (pl_base p) \<le> length base \<and>
     fst (pl_current p) \<le> snd (pl_current p) \<and> snd (pl_current p) \<le> length current"

definition linked :: "bytes list \<Rightarrow> bytes list \<Rightarrow> placed \<Rightarrow> placed \<Rightarrow> bool" where
  "linked base current p q \<longleftrightarrow>
     (\<exists>n. fst (pl_base q) = snd (pl_base p) + n \<and> fst (pl_current q) = snd (pl_current p) + n \<and>
        (\<forall>k < n. base ! (snd (pl_base p) + k) = current ! (snd (pl_current p) + k)))"

definition chained :: "bytes list \<Rightarrow> bytes list \<Rightarrow> placed list \<Rightarrow> bool" where
  "chained base current g \<longleftrightarrow> successively (linked base current) g \<and> (\<forall>p \<in> set g. within base current p)"

lemma lines_line_Some: "l < length ls \<Longrightarrow> lines_line ls l = Some (ls ! l)"
  by (simp add: lines_line_def list_get_def)

lemma change_rows_ok:
  "within base current p \<Longrightarrow> r \<in> set (change_rows base current p) \<Longrightarrow> row_ok base current r"
  by (auto simp: change_rows_def within_def row_ok_def in_range_def lines_line_Some)

lemma gap_rows_ok:
  assumes "linked base current p q" "within base current q" "r \<in> set (gap_rows current p q)"
  shows "row_ok base current r"
proof -
  obtain n where n: "fst (pl_base q) = snd (pl_base p) + n" "fst (pl_current q) = snd (pl_current p) + n"
    "\<forall>k < n. base ! (snd (pl_base p) + k) = current ! (snd (pl_current p) + k)"
    using assms(1) by (auto simp: linked_def)
  with assms(3) obtain k where k: "k < n"
    "r = Context (snd (pl_base p) + k + 1) (snd (pl_current p) + k + 1)
      (row_text (CHR '' '') (lines_line current (snd (pl_current p) + k)))"
    by (auto simp: gap_rows_def Let_def)
  with n assms(2) have "snd (pl_base p) + k < length base" "snd (pl_current p) + k < length current"
    by (auto simp: within_def)
  with k n(3) show ?thesis by (auto simp: row_ok_def lines_line_Some)
qed

lemma group_rows_ok:
  assumes "chained base current g" "prev \<noteq> None \<Longrightarrow> g \<noteq> [] \<Longrightarrow> linked base current (the prev) (hd g)"
    and "r \<in> set (group_rows base current prev g)"
  shows "row_ok base current r"
  using assms
proof (induction g arbitrary: prev)
  case (Cons p g)
  from Cons.prems(1) have p: "within base current p" and g: "chained base current g"
    and next_p: "g \<noteq> [] \<Longrightarrow> linked base current p (hd g)"
    by (auto simp: chained_def successively_Cons)
  consider (gap) q where "prev = Some q" "r \<in> set (gap_rows current q p)" | (change) "r \<in> set (change_rows base current p)"
    | (rest) "r \<in> set (group_rows base current (Some p) g)"
    using Cons.prems(3) by (auto split: option.splits)
  then show ?case
  proof cases
    case gap
    then show ?thesis using gap_rows_ok [OF _ p] Cons.prems(2) by auto
  next
    case change
    then show ?thesis by (rule change_rows_ok [OF p])
  next
    case rest
    show ?thesis by (rule Cons.IH [OF g _ rest]) (use next_p in simp)
  qed
qed simp

lemma old_lines_append [simp]: "old_lines (xs @ ys) = old_lines xs @ old_lines ys"
  by (induction xs rule: old_lines.induct) auto

lemma new_lines_append [simp]: "new_lines (xs @ ys) = new_lines xs @ new_lines ys"
  by (induction xs rule: new_lines.induct) auto

lemma change_rows_lines:
  "old_lines (change_rows base current p) = map Suc (range_list (pl_base p))"
  "new_lines (change_rows base current p) = map Suc (range_list (pl_current p))"
proof -
  have "old_lines (map (\<lambda>l. Delete (l + 1) (f l)) ls @ map (\<lambda>l. Add (l + 1) (g l)) ms) = map Suc ls"
    "new_lines (map (\<lambda>l. Delete (l + 1) (f l)) ls @ map (\<lambda>l. Add (l + 1) (g l)) ms) = map Suc ms"
    for f g ls ms by (induction ls, (induction ms; auto)+)
  then show "old_lines (change_rows base current p) = map Suc (range_list (pl_base p))"
    "new_lines (change_rows base current p) = map Suc (range_list (pl_current p))"
    by (simp_all add: change_rows_def)
qed

lemma gap_rows_lines:
  "old_lines (gap_rows current p q) =
     map (\<lambda>k. Suc (snd (pl_base p) + k)) [0 ..< fst (pl_current q) - snd (pl_current p)]"
  "new_lines (gap_rows current p q) =
     map (\<lambda>k. Suc (snd (pl_current p) + k)) [0 ..< fst (pl_current q) - snd (pl_current p)]"
proof -
  have "old_lines (map (\<lambda>k. Context (f k) (g k) (h k)) ks) = map f ks"
    "new_lines (map (\<lambda>k. Context (f k) (g k) (h k)) ks) = map g ks" for f g h and ks :: "nat list"
    by (induction ks) auto
  then show "old_lines (gap_rows current p q) =
      map (\<lambda>k. Suc (snd (pl_base p) + k)) [0 ..< fst (pl_current q) - snd (pl_current p)]"
    "new_lines (gap_rows current p q) =
      map (\<lambda>k. Suc (snd (pl_current p) + k)) [0 ..< fst (pl_current q) - snd (pl_current p)]"
    by (simp_all add: gap_rows_def Let_def)
qed

lemma Suc_range: "map (\<lambda>k. Suc (i + k)) [0 ..< n] = map Suc [i ..< i + n]"
  by (rule nth_equalityI) auto

lemma Suc_range_append: "i \<le> j \<Longrightarrow> j \<le> k \<Longrightarrow> map Suc [i ..< j] @ map Suc [j ..< k] = map Suc [i ..< k]"
  by (metis le_Suc_ex map_append upt_add_eq_append)

lemma Suc_range_append3:
  "i \<le> j \<Longrightarrow> j \<le> k \<Longrightarrow> k \<le> l \<Longrightarrow>
     map Suc [i ..< j] @ map Suc [j ..< k] @ map Suc [k ..< l] = map Suc [i ..< l]"
  by (metis Suc_range_append order_trans)

lemma chained_last_le:
  "chained base current (p # g) \<Longrightarrow>
     snd (pl_base p) \<le> snd (pl_base (last (p # g))) \<and> snd (pl_current p) \<le> snd (pl_current (last (p # g)))"
proof (induction g arbitrary: p)
  case (Cons q g)
  from Cons.prems have "chained base current (q # g)" "linked base current p q" "within base current q"
    by (auto simp: chained_def)
  with Cons.IH [of q] show ?case by (fastforce simp: linked_def within_def)
qed simp

lemma group_rows_lines:
  assumes "chained base current g" "g \<noteq> []"
    and "prev \<noteq> None \<Longrightarrow> linked base current (the prev) (hd g)"
  shows "old_lines (group_rows base current prev g) =
      map Suc [(case prev of Some p \<Rightarrow> snd (pl_base p) | None \<Rightarrow> fst (pl_base (hd g))) ..< snd (pl_base (last g))] \<and>
    new_lines (group_rows base current prev g) =
      map Suc [(case prev of Some p \<Rightarrow> snd (pl_current p) | None \<Rightarrow> fst (pl_current (hd g))) ..< snd (pl_current (last g))]"
  using assms
proof (induction g arbitrary: prev)
  case (Cons p g)
  let ?i = "case prev of Some p \<Rightarrow> snd (pl_base p) | None \<Rightarrow> fst (pl_base p)"
  let ?j = "case prev of Some p \<Rightarrow> snd (pl_current p) | None \<Rightarrow> fst (pl_current p)"
  from Cons.prems(1) have p: "within base current p" and g: "chained base current g"
    and next_p: "g \<noteq> [] \<Longrightarrow> linked base current p (hd g)"
    by (auto simp: chained_def successively_Cons)
  have le: "?i \<le> fst (pl_base p)" "?j \<le> fst (pl_current p)"
    and gap: "old_lines (case prev of Some q \<Rightarrow> gap_rows current q p | None \<Rightarrow> []) = map Suc [?i ..< fst (pl_base p)]"
      "new_lines (case prev of Some q \<Rightarrow> gap_rows current q p | None \<Rightarrow> []) = map Suc [?j ..< fst (pl_current p)]"
    using Cons.prems(3) by (auto simp: linked_def gap_rows_lines Suc_range split: option.splits)
  have tail: "old_lines (group_rows base current (Some p) g) = map Suc [snd (pl_base p) ..< snd (pl_base (last (p # g)))]"
    "new_lines (group_rows base current (Some p) g) = map Suc [snd (pl_current p) ..< snd (pl_current (last (p # g)))]"
    using Cons.IH [OF g, of "Some p"] next_p by (cases "g = []"; simp)+
  note last_le = chained_last_le [OF Cons.prems(1)]
  have w: "fst (pl_base p) \<le> snd (pl_base p)" "fst (pl_current p) \<le> snd (pl_current p)"
    using p by (auto simp: within_def)
  have "map Suc [?i ..< fst (pl_base p)] @ map Suc [fst (pl_base p) ..< snd (pl_base p)] @
      map Suc [snd (pl_base p) ..< snd (pl_base (last (p # g)))] = map Suc [?i ..< snd (pl_base (last (p # g)))]"
    "map Suc [?j ..< fst (pl_current p)] @ map Suc [fst (pl_current p) ..< snd (pl_current p)] @
      map Suc [snd (pl_current p) ..< snd (pl_current (last (p # g)))] = map Suc [?j ..< snd (pl_current (last (p # g)))]"
    using le w last_le by (auto intro!: Suc_range_append3 simp del: last.simps map_append)
  then show ?case using gap
    by (cases prev) (simp_all add: tail change_rows_lines range_list_def del: last.simps)
qed simp

text \<open>The groups the loop collects are chained: between two reviewed changes of one group, the base,
  the reviewed version and the current file agree.\<close>

definition placed_at :: "change list \<Rightarrow> nat \<Rightarrow> nat \<Rightarrow> placed list \<Rightarrow> bool" where
  "placed_at opened i j g \<longleftrightarrow>
     (g \<noteq> [] \<longrightarrow> snd (pl_base (last g)) = i \<and> snd (pl_reviewed (last g)) = j \<and>
        fst (pl_reviewed (last g)) \<le> j \<and>
        translate (forward opened) (pl_reviewed (last g)) = Some (pl_current (last g)))"

lemma place_SomeD:
  "place opened c = Some p \<Longrightarrow> pl_base p = before c \<and> pl_reviewed p = after c \<and>
     translate (forward opened) (after c) = Some (pl_current p)"
  by (auto simp: place_def)

lemma join_linked:
  assumes op: "edit_script rl cl opened" "length cl \<le> u32_max" "length rl \<le> u32_max"
    and sc: "script_from i j bl rl (c # cs)"
    and g: "placed_at opened i j g" "g \<noteq> []"
    and p: "place opened c = Some p" "joins opened (Some p) g"
  shows "linked bl cl (last g) p"
proof -
  note P = place_SomeD [OF p(1)]
  from sc have hd: "i \<le> fst (before c)" "j \<le> fst (after c)" "fst (after c) \<le> snd (after c)"
    "snd (after c) \<le> length rl" "snd (before c) \<le> length bl" "fst (before c) \<le> snd (before c)"
    "fst (before c) + j = fst (after c) + i" "slice bl i (fst (before c)) = slice rl j (fst (after c))"
    by simp_all
  let ?gap = "(j, fst (after c))"
  have no: "\<not> (\<exists>d \<in> set opened. overlaps (before d) ?gap)"
    using p(2) g P by (auto simp: joins_def placed_at_def Let_def list_ex_iff)
  then obtain h where h: "translate (forward opened) ?gap = Some h"
    using translate_None_iff [OF op, of ?gap] hd by auto
  have le: "snd ?gap \<le> length rl" using hd by simp
  note moved = translate_SomeD [OF op _ le h, unfolded fst_conv snd_conv, OF hd(2)]
  then have h': "snd h = fst h + (fst (after c) - j)"
    "snd h \<le> length cl" "slice cl (fst h) (snd h) = slice rl j (fst (after c))" by blast+
  have "fst h = snd (pl_current (last g))"
    by (rule translate_contiguous [OF op(1) _ h, where r = "pl_reviewed (last g)"])
      (use g in \<open>simp_all add: placed_at_def\<close>)
  moreover have "fst (pl_current p) = snd h"
    by (rule translate_contiguous [OF op(1) h]) (use P hd(2) in simp_all)
  moreover have "bl ! (i + k) = cl ! (fst h + k)" if "k < fst (after c) - j" for k
  proof -
    have "fst (before c) \<le> length bl" "fst (after c) \<le> length rl" "i + k < fst (before c)"
      "fst h + k < snd h" "snd h + j = fst (after c) + fst h"
      using hd(2-7) h'(1) that by linarith+
    then have "bl ! (i + k) = rl ! (j + k)" "cl ! (fst h + k) = rl ! (j + k)"
      using slice_eq_nth [OF hd(8,7)] slice_eq_nth [OF h'(3)] h'(2) by blast+
    then show ?thesis by simp
  qed
  moreover have "fst (before c) = i + (fst (after c) - j)" using hd(2,7) by linarith
  ultimately show ?thesis
    using g P h'(1) by (auto simp: linked_def placed_at_def)
qed

lemma placed_groups_chained:
  "\<lbrakk>script_from i j bl rl cs; edit_script rl cl opened; length cl \<le> u32_max; length rl \<le> u32_max;
    placed_at opened i j g; chained bl cl g; g' \<in> set (placed_groups opened g cs)\<rbrakk> \<Longrightarrow>
     chained bl cl g' \<and> g' \<noteq> []"
proof (induction cs arbitrary: i j g)
  case (Cons c cs)
  note sc = Cons.prems(1)
  from sc have sc': "script_from (snd (before c)) (snd (after c)) bl rl cs"
    and hd: "fst (before c) \<le> snd (before c)" "snd (before c) \<le> length bl"
      "fst (after c) \<le> snd (after c)" "snd (after c) \<le> length rl" by simp_all
  have one: "placed_at opened (snd (before c)) (snd (after c)) [p]" and w: "within bl cl p"
    if "place opened c = Some p" for p
    using place_SomeD [OF that] translate_SomeD [OF Cons.prems(2-4) hd(3,4), of "pl_current p"] hd
    by (auto simp: placed_at_def within_def)
  show ?case
  proof (cases "joins opened (place opened c) g")
    case True
    then obtain p where p: "place opened c = Some p" and g: "g \<noteq> []" by (auto simp: joins_def split: option.splits)
    have "linked bl cl (last g) p"
      using join_linked [OF Cons.prems(2-4) sc Cons.prems(5) g p] True p by simp
    then have "chained bl cl (g @ [p])"
      using Cons.prems(6) w [OF p] by (auto simp: chained_def successively_append_iff)
    moreover have "placed_at opened (snd (before c)) (snd (after c)) (g @ [p])"
      using one [OF p] by (simp add: placed_at_def)
    ultimately show ?thesis
      using Cons.IH [OF sc' Cons.prems(2-4), of "g @ [p]"] Cons.prems(7) True p by simp
  next
    case False
    let ?g = "list_of_option (place opened c)"
    have "chained bl cl ?g" "placed_at opened (snd (before c)) (snd (after c)) ?g"
      using one w by (cases "place opened c"; simp add: chained_def placed_at_def)+
    then show ?thesis
      using Cons.IH [OF sc' Cons.prems(2-4), of ?g] Cons.prems(6,7) False by (auto split: if_splits)
  qed
qed (auto split: if_splits)

lemma reviewed_hunk_rows:
  assumes "line_diff D" "length (lines_new (hr_current hr)) \<le> u32_max" "length (lines_new (hr_reviewed hr)) \<le> u32_max"
    and "h \<in> set (reviewed_hunks hr (D (hr_base hr) (hr_reviewed hr)) (D (hr_reviewed hr) (hr_current hr)))"
  shows "(\<forall>r \<in> set (rh_rows h). row_ok (lines_new (hr_base hr)) (lines_new (hr_current hr)) r) \<and>
    old_lines (rh_rows h) = map Suc (range_list (sp_old (rh_span h))) \<and>
    new_lines (rh_rows h) = map Suc (range_list (sp_new (rh_span h)))"
proof -
  let ?base = "lines_new (hr_base hr)" and ?current = "lines_new (hr_current hr)"
  obtain g where g: "g \<in> set (placed_groups (D (hr_reviewed hr) (hr_current hr)) [] (D (hr_base hr) (hr_reviewed hr)))"
    and h: "hunk_of_group ?base ?current g = Some h"
    using assms(4) by (auto simp: reviewed_hunks_groups set_filter_map)
  have "chained ?base ?current g" "g \<noteq> []"
    using placed_groups_chained [OF _ line_diff_script [OF assms(1)] assms(2,3) _ _ g, of 0 0]
      line_diff_script [OF assms(1), of "hr_base hr" "hr_reviewed hr"]
    by (auto simp: edit_script_def placed_at_def chained_def)
  with h group_rows_lines [of ?base ?current g None] group_rows_ok [of ?base ?current g None]
  show ?thesis by (auto simp: hunk_of_group_def range_list_def)
qed

section \<open>Where a reviewed hunk sits\<close>

text \<open>A range that no edit touches lands beside every edit; two that meet land as one.\<close>

lemma script_from_after_ge: "script_from i j b a cs \<Longrightarrow> c \<in> set cs \<Longrightarrow> j \<le> fst (after c) \<and> fst (after c) \<le> snd (after c)"
  by (induction i j b a cs rule: script_from.induct) auto

lemma translate_from_beside:
  "\<lbrakk>script_from i j b a cs; i \<le> fst r; fst r \<le> snd r; translate_from (int j - int i) (forward cs) r = Some q; c \<in> set cs\<rbrakk> \<Longrightarrow>
     j \<le> fst q \<and> (snd (after c) \<le> fst q \<or> snd q \<le> fst (after c))"
proof (induction i j b a cs arbitrary: c rule: script_from.induct)
  case (2 i j b a e cs)
  note sc = "2.prems"(1)
  from sc have hd: "i \<le> fst (before e)" "fst (before e) \<le> snd (before e)" "j \<le> fst (after e)" "fst (after e) \<le> snd (after e)"
    "fst (before e) + j = fst (after e) + i" and sc': "script_from (snd (before e)) (snd (after e)) b a cs"
    by auto
  have no: "\<not> overlaps (before e) r" using "2.prems"(4) by (auto simp: forward_def split: if_splits)
  show ?case
  proof (cases "snd (before e) \<le> fst r")
    case True
    have "shift_by (int j - int i) (before e) (after e) = int (snd (after e)) - int (snd (before e))"
      using hd by (auto simp: shift_by_def)
    then have t: "translate_from (int (snd (after e)) - int (snd (before e))) (forward cs) r = Some q"
      using "2.prems"(4) no True by (simp add: forward_def)
    have ge: "snd (after e) \<le> fst q"
    proof (cases cs)
      case Nil
      with t True show ?thesis by (auto simp: forward_def split: option.splits dest!: u32_of_int_SomeD)
    next
      case (Cons d ds)
      with "2.IH" [OF sc' True "2.prems"(3) t, of d] show ?thesis by simp
    qed
    show ?thesis
    proof (cases "c = e")
      case False
      then have "c \<in> set cs" using "2.prems"(5) by simp
      from "2.IH" [OF sc' True "2.prems"(3) t this] ge hd show ?thesis by linarith
    qed (use ge hd in simp)
  next
    case False
    with not_overlaps_cases [OF no hd(2) "2.prems"(3)] have r: "snd r \<le> fst (before e)" by auto
    have low: "fst q + i = fst r + j \<and> snd q + i = snd r + j"
      by (rule translate_from_low [OF sc']) (use "2.prems"(2-4) no False r hd in \<open>auto simp: forward_def\<close>)
    have "fst (after e) \<le> fst (after c)"
      using "2.prems"(5) script_from_after_ge [OF sc'] hd(4) by fastforce
    moreover have "snd q \<le> fst (after e)" using low r hd(5) by linarith
    ultimately show ?thesis using low "2.prems"(2) by linarith
  qed
qed simp

lemma translate_beside:
  "edit_script b a cs \<Longrightarrow> fst r \<le> snd r \<Longrightarrow> translate (forward cs) r = Some q \<Longrightarrow> c \<in> set cs \<Longrightarrow>
     snd (after c) \<le> fst q \<or> snd q \<le> fst (after c)"
  using translate_from_beside [of 0 0 b a cs r q c] by (simp add: edit_script_def translate_def)

lemma overlaps_parts:
  "overlaps s (x, z) \<Longrightarrow> x \<le> y \<Longrightarrow> y \<le> z \<Longrightarrow> fst s \<le> snd s \<Longrightarrow> overlaps s (x, y) \<or> overlaps s (y, z)"
  by (auto simp: overlaps_def range_empty_def split: if_splits)

lemma translate_join:
  assumes "edit_script b a cs" "length a \<le> u32_max" "length b \<le> u32_max" "x \<le> y" "y \<le> z" "z \<le> length b"
    and q: "translate (forward cs) (x, y) = Some q" and h: "translate (forward cs) (y, z) = Some h"
  shows "translate (forward cs) (x, z) = Some (fst q, snd h)"
proof -
  have "\<not> overlaps (before c) (x, y)" "\<not> overlaps (before c) (y, z)" "fst (before c) \<le> snd (before c)" if "c \<in> set cs" for c
    using that translate_SomeD [OF assms(1-3) _ _ q] translate_SomeD [OF assms(1-3) _ _ h] assms(4-6)
      script_from_fst_le [OF assms(1) [unfolded edit_script_def], of c]
    by auto
  then have "\<not> (\<exists>c \<in> set cs. overlaps (before c) (x, z))" using overlaps_parts assms(4,5) by blast
  then obtain t where t: "translate (forward cs) (x, z) = Some t"
    using translate_None_iff [OF assms(1-3), of "(x, z)"] assms(4-6) by auto
  have "fst t = fst q"
    using translate_from_SomeD [OF t [unfolded translate_def]] translate_from_SomeD [OF q [unfolded translate_def]] by simp
  moreover have "fst h = snd q" by (rule translate_contiguous [OF assms(1) q h]) (use assms(4) in simp_all)
  moreover have "snd t = fst t + (z - x)" "snd q = fst q + (y - x)" "snd h = fst h + (z - y)"
    using translate_SomeD [OF assms(1-3) _ _ t] translate_SomeD [OF assms(1-3) _ _ q] translate_SomeD [OF assms(1-3) _ _ h] assms(4-6)
    by simp_all
  ultimately have "t = (fst q, snd h)" using assms(4,5) by (cases t) simp
  with t show ?thesis by simp
qed

text \<open>A group as a whole: its place in the reviewed version lands on its place in the current file.\<close>

definition moved_group :: "change list \<Rightarrow> nat \<Rightarrow> placed list \<Rightarrow> bool" where
  "moved_group opened len g \<longleftrightarrow>
     (g \<noteq> [] \<longrightarrow>
        fst (pl_reviewed (hd g)) \<le> snd (pl_reviewed (last g)) \<and> snd (pl_reviewed (last g)) \<le> len \<and>
        translate (forward opened) (fst (pl_reviewed (hd g)), snd (pl_reviewed (last g))) =
          Some (fst (pl_current (hd g)), snd (pl_current (last g))))"

lemma moved_append:
  assumes op: "edit_script rl cl opened" "length cl \<le> u32_max" "length rl \<le> u32_max"
    and g: "moved_group opened (length rl) g" and p: "place opened c = Some p"
    and c: "fst (after c) \<le> snd (after c)" "snd (after c) \<le> length rl"
    and next_p: "g \<noteq> [] \<longrightarrow> joins opened (Some p) g \<and> snd (pl_reviewed (last g)) \<le> fst (after c)"
  shows "moved_group opened (length rl) (g @ [p])"
proof (cases "g = []")
  case True
  with place_SomeD [OF p] c show ?thesis by (simp add: moved_group_def)
next
  case False
  note P = place_SomeD [OF p]
  let ?x = "fst (pl_reviewed (hd g))" and ?y = "snd (pl_reviewed (last g))"
  from False g have xy: "?x \<le> ?y" "?y \<le> length rl"
    "translate (forward opened) (?x, ?y) = Some (fst (pl_current (hd g)), snd (pl_current (last g)))"
    by (simp_all add: moved_group_def)
  have y: "?y \<le> fst (after c)" using False next_p by simp
  have "\<not> (\<exists>d \<in> set opened. overlaps (before d) (?y, fst (after c)))"
    using False next_p P by (auto simp: joins_def Let_def list_ex_iff)
  then obtain h where h: "translate (forward opened) (?y, fst (after c)) = Some h"
    using translate_None_iff [OF op, of "(?y, fst (after c))"] y c by auto
  have "translate (forward opened) (?x, fst (after c)) = Some (fst (pl_current (hd g)), snd h)"
    using translate_join [OF op xy(1) y _ xy(3) h] c by simp
  from translate_join [OF op _ c(1,2) this, of "pl_current p"] P xy(1) y
  have "translate (forward opened) (?x, snd (after c)) = Some (fst (pl_current (hd g)), snd (pl_current p))" by simp
  then show ?thesis using False P xy(1) y c by (simp add: moved_group_def)
qed

lemma placed_groups_moved:
  "\<lbrakk>script_from i j bl rl cs; edit_script rl cl opened; length cl \<le> u32_max; length rl \<le> u32_max;
    moved_group opened (length rl) g; g \<noteq> [] \<longrightarrow> snd (pl_reviewed (last g)) \<le> j; g' \<in> set (placed_groups opened g cs)\<rbrakk> \<Longrightarrow>
     moved_group opened (length rl) g'"
proof (induction cs arbitrary: i j g)
  case (Cons c cs)
  from Cons.prems(1) have sc': "script_from (snd (before c)) (snd (after c)) bl rl cs"
    and hd: "j \<le> fst (after c)" "fst (after c) \<le> snd (after c)" "snd (after c) \<le> length rl" by simp_all
  show ?case
  proof (cases "joins opened (place opened c) g")
    case True
    then obtain p where p: "place opened c = Some p" by (auto simp: joins_def split: option.splits)
    have "moved_group opened (length rl) (g @ [p])"
      by (rule moved_append [OF Cons.prems(2-5) p hd(2,3)]) (use True p Cons.prems(6) hd(1) in auto)
    then show ?thesis
      using Cons.IH [OF sc' Cons.prems(2-4), of "g @ [p]"] Cons.prems(7) True p place_SomeD [OF p] by simp
  next
    case False
    let ?g = "list_of_option (place opened c)"
    have "moved_group opened (length rl) ?g" "?g \<noteq> [] \<longrightarrow> snd (pl_reviewed (last ?g)) \<le> snd (after c)"
      using moved_append [OF Cons.prems(2-4), of "[]" c] hd place_SomeD
      by (cases "place opened c"; fastforce simp: moved_group_def)+
    then show ?thesis
      using Cons.IH [OF sc' Cons.prems(2-4), of ?g] Cons.prems(5,7) False by (auto split: if_splits)
  qed
qed (auto split: if_splits)

text \<open>A reviewed hunk's lines in the current file are lines of the reviewed version that no edit touches, and it
  has lines of the base.\<close>

lemma reviewed_hunk_moved:
  assumes "line_diff D" "length (lines_new (hr_current hr)) \<le> u32_max" "length (lines_new (hr_reviewed hr)) \<le> u32_max"
    and "h \<in> set (reviewed_hunks hr (D (hr_base hr) (hr_reviewed hr)) (D (hr_reviewed hr) (hr_current hr)))"
  obtains r where "fst r \<le> snd r" "snd r \<le> length (lines_new (hr_reviewed hr))"
    "translate (forward (D (hr_reviewed hr) (hr_current hr))) r = Some (sp_new (rh_span h))"
    "fst (sp_old (rh_span h)) \<le> snd (sp_old (rh_span h))" "snd (sp_old (rh_span h)) \<le> length (lines_new (hr_base hr))"
proof -
  let ?base = "lines_new (hr_base hr)" and ?current = "lines_new (hr_current hr)" and ?rl = "lines_new (hr_reviewed hr)"
  let ?opened = "D (hr_reviewed hr) (hr_current hr)"
  obtain g where g: "g \<in> set (placed_groups ?opened [] (D (hr_base hr) (hr_reviewed hr)))"
    and h: "hunk_of_group ?base ?current g = Some h"
    using assms(4) by (auto simp: reviewed_hunks_groups set_filter_map)
  have sc: "script_from 0 0 ?base ?rl (D (hr_base hr) (hr_reviewed hr))"
    using line_diff_script [OF assms(1)] by (simp add: edit_script_def)
  have chain: "chained ?base ?current g" "g \<noteq> []"
    using placed_groups_chained [OF sc line_diff_script [OF assms(1)] assms(2,3) _ _ g] by (auto simp: placed_at_def chained_def)
  have "moved_group ?opened (length ?rl) g"
    by (rule placed_groups_moved [OF sc line_diff_script [OF assms(1)] assms(2,3) _ _ g]) (simp_all add: moved_group_def)
  moreover obtain p g' where "g = p # g'" using chain(2) by (cases g) auto
  ultimately show thesis
    using that h chain chained_last_le [of ?base ?current p g'] by (auto simp: moved_group_def hunk_of_group_def chained_def within_def)
qed

end
