(* ===== verification/Patch.thy ===== *)
theory Patch
  imports TextLines DiffRows
begin

text \<open>
  Git-style unified diffs (crates/review-hunks/src/patch.rs): writing one between two versions, and
  recovering the old version from a diff and the new one.

  The lemmas follow the two loops hunk by hunk and show the round trip: what \<open>unified_diff\<close> writes,
  \<open>reverse_apply\<close> turns back into the old version, missing final newlines included.
\<close>

section \<open>Writing a diff\<close>

definition header_range :: "nat \<Rightarrow> nat \<Rightarrow> bytes" where
  "header_range start count =
     (if count = 0 then show_nat start @ '',0''
      else if count = 1 then show_nat (start + 1)
      else show_nat (start + 1) @ '','' @ show_nat count)"

definition ends_with_nl :: "bytes \<Rightarrow> bool" where
  "ends_with_nl l \<longleftrightarrow> strip_last nl l \<noteq> None"

definition diff_line :: "byte \<Rightarrow> bytes \<Rightarrow> bytes" where
  "diff_line prefix line =
     prefix # line @ (if ends_with_nl line then [] else nl # no_newline_marker @ [nl])"

definition side_lines :: "bytes list \<Rightarrow> range \<Rightarrow> bytes list" where
  "side_lines side r = (case lines_get side r of Some ls \<Rightarrow> ls | None \<Rightarrow> [])"

definition diff_lines :: "byte \<Rightarrow> bytes list \<Rightarrow> range \<Rightarrow> bytes" where
  "diff_lines prefix side r = concat (map (diff_line prefix) (side_lines side r))"

fun changes_text :: "bytes list \<Rightarrow> bytes list \<Rightarrow> nat \<Rightarrow> change list \<Rightarrow> nat \<Rightarrow> bytes" where
  "changes_text bl al pos [] stop = diff_lines (CHR '' '') bl (pos, stop)"
| "changes_text bl al pos (c # cs) stop =
     diff_lines (CHR '' '') bl (pos, fst (before c)) @ diff_lines (CHR ''-'') bl (before c) @
     diff_lines (CHR ''+'') al (after c) @ changes_text bl al (snd (before c)) cs stop"

definition hunk_header_line :: "nat \<Rightarrow> nat \<Rightarrow> nat \<Rightarrow> nat \<Rightarrow> bytes" where
  "hunk_header_line start stop after_start after_stop =
     ''@@ -'' @ header_range start (stop - start) @ '' +'' @
     header_range after_start (after_stop - after_start) @ '' @@''"

definition hunk_start :: "change list \<Rightarrow> nat" where
  "hunk_start g = fst (before (hd g)) - CONTEXT"

definition hunk_stop :: "bytes list \<Rightarrow> change list \<Rightarrow> nat" where
  "hunk_stop bl g = min (snd (before (last g)) + CONTEXT) (lines_len bl)"

definition hunk_after_start :: "change list \<Rightarrow> nat" where
  "hunk_after_start g = fst (after (hd g)) - (fst (before (hd g)) - hunk_start g)"

definition hunk_after_stop :: "bytes list \<Rightarrow> change list \<Rightarrow> nat" where
  "hunk_after_stop bl g = snd (after (last g)) + (hunk_stop bl g - snd (before (last g)))"

definition hunk_text :: "bytes list \<Rightarrow> bytes list \<Rightarrow> change list \<Rightarrow> bytes" where
  "hunk_text bl al g =
     (if g = [] then []
      else hunk_header_line (hunk_start g) (hunk_stop bl g) (hunk_after_start g) (hunk_after_stop bl g) @ [nl] @
        changes_text bl al (hunk_start g) g (hunk_stop bl g))"

definition unified_diff :: "differ \<Rightarrow> bytes \<Rightarrow> bytes \<Rightarrow> bytes \<Rightarrow> bytes" where
  "unified_diff D path old new =
     (let cs = D old new
      in if cs = [] then []
         else ''diff --git a/'' @ path @ '' b/'' @ path @ [nl] @ ''--- a/'' @ path @ [nl] @
           ''+++ b/'' @ path @ [nl] @
           concat (map (hunk_text (lines_new old) (lines_new new)) (hunk_groups cs)))"

section \<open>Applying a diff backwards\<close>

definition new_start_of :: "bytes \<Rightarrow> nat option" where
  "new_start_of rng =
     (case (case split_once '','' rng of
              Some (start, count) \<Rightarrow>
                (case (parse_u32 start, parse_u32 count) of (Some s, Some c) \<Rightarrow> Some (s, c) | _ \<Rightarrow> None)
            | None \<Rightarrow> map_option (\<lambda>s. (s, 1)) (parse_u32 rng)) of
        None \<Rightarrow> None
      | Some (start, count) \<Rightarrow>
          if count = 0 then Some start else if start = 0 then None else Some (start - 1))"

definition hunk_new_start :: "bytes \<Rightarrow> nat option" where
  "hunk_new_start line =
     (case strip_prefix ''@@ -'' line of None \<Rightarrow> None
      | Some line \<Rightarrow>
          if \<not> utf8_valid line then None
          else (case split_once '' +'' line of None \<Rightarrow> None
           | Some (_, rest) \<Rightarrow>
          (case split_once '' @@'' rest of None \<Rightarrow> None
           | Some (rng, _) \<Rightarrow> new_start_of rng)))"

record reverse_patch =
  rp_before :: bytes
  rp_position :: nat
  rp_removed_last :: bool

definition copy_until :: "bytes list \<Rightarrow> nat \<Rightarrow> reverse_patch \<Rightarrow> reverse_patch option" where
  "copy_until al line p =
     map_option (\<lambda>kept. p\<lparr>rp_before := rp_before p @ concat kept, rp_position := line\<rparr>)
       (lines_get al (rp_position p, line))"

definition patch_push :: "bytes list \<Rightarrow> bytes \<Rightarrow> reverse_patch \<Rightarrow> reverse_patch option" where
  "patch_push al line p =
     (case line of [] \<Rightarrow> Some p
      | marker # text \<Rightarrow>
          if marker = CHR '' '' \<or> marker = CHR ''+'' then
            (case lines_line al (rp_position p) of None \<Rightarrow> None
             | Some current \<Rightarrow>
                 if trim_last nl current \<noteq> text then None
                 else Some \<lparr>rp_before = (if marker = CHR '' '' then rp_before p @ current else rp_before p),
                            rp_position = rp_position p + 1, rp_removed_last = False\<rparr>)
          else if marker = CHR ''-'' then
            Some (p\<lparr>rp_before := rp_before p @ text @ [nl], rp_removed_last := True\<rparr>)
          else if marker = backslash then
            Some (if rp_removed_last p then p\<lparr>rp_before := butlast (rp_before p)\<rparr> else p)
          else None)"

definition reverse_step :: "bytes list \<Rightarrow> reverse_patch \<times> bool \<Rightarrow> bytes \<Rightarrow> (reverse_patch \<times> bool) option" where
  "reverse_step al st line =
     (case st of (p, in_hunk) \<Rightarrow>
        (case hunk_new_start line of
           Some new_start \<Rightarrow> map_option (\<lambda>p. (p, True)) (copy_until al new_start p)
         | None \<Rightarrow> if in_hunk then map_option (\<lambda>p. (p, in_hunk)) (patch_push al line p) else Some st))"

definition reverse_apply :: "bytes \<Rightarrow> bytes \<Rightarrow> bytes option" where
  "reverse_apply diff new =
     (let al = lines_new new
      in case fold_opt (reverse_step al)
                (\<lparr>rp_before = [], rp_position = 0, rp_removed_last = False\<rparr>, False) (split_nl diff) of
           None \<Rightarrow> None
         | Some (p, _) \<Rightarrow> map_option rp_before (copy_until al (lines_len al) p))"

section \<open>The lines of a written diff\<close>

text \<open>A diff as the list of its lines; its text puts a line feed after each.\<close>

definition unlines :: "bytes list \<Rightarrow> bytes" where
  "unlines ls = concat (map (\<lambda>l. l @ [nl]) ls)"

lemma unlines_simps [simp]:
  "unlines [] = []" "unlines (l # ls) = l @ nl # unlines ls" "unlines (ks @ ls) = unlines ks @ unlines ls"
  by (simp_all add: unlines_def)

lemma split_nl_unlines: "\<forall>l \<in> set ls. nl \<notin> set l \<Longrightarrow> split_nl (unlines ls) = ls @ [[]]"
  by (simp add: unlines_def split_nl_pieces)

definition out_lines :: "byte \<Rightarrow> bytes \<Rightarrow> bytes list" where
  "out_lines prefix line =
     (prefix # trim_last nl line) # (if ends_with_nl line then [] else [no_newline_marker])"

lemma ends_with_nl_iff: "ends_with_nl l \<longleftrightarrow> l \<noteq> [] \<and> last l = nl"
  by (simp add: ends_with_nl_def strip_last_def)

lemma trim_nl_cases:
  "trim_last nl l @ (if ends_with_nl l then [nl] else []) = l"
  by (auto simp: ends_with_nl_iff trim_last_def strip_last_def) (metis append_butlast_last_id)

lemma nl_trim: "line_ok l \<Longrightarrow> nl \<notin> set (trim_last nl l)"
  by (erule line_ok_cases) (simp_all add: trim_last_id)

lemma unlines_out_lines: "unlines (out_lines prefix line) = diff_line prefix line"
  using trim_nl_cases [of line] by (auto simp: out_lines_def diff_line_def)

lemma unlines_out_side:
  "unlines (concat (map (out_lines prefix) (side_lines side r))) = diff_lines prefix side r"
proof -
  have "unlines (concat (map (out_lines prefix) ls)) = concat (map (diff_line prefix) ls)" for ls
    by (induction ls) (simp_all add: unlines_out_lines)
  then show ?thesis by (simp add: diff_lines_def)
qed

fun out_changes :: "bytes list \<Rightarrow> bytes list \<Rightarrow> nat \<Rightarrow> change list \<Rightarrow> nat \<Rightarrow> bytes list" where
  "out_changes bl al pos [] stop = concat (map (out_lines (CHR '' '')) (side_lines bl (pos, stop)))"
| "out_changes bl al pos (c # cs) stop =
     concat (map (out_lines (CHR '' '')) (side_lines bl (pos, fst (before c)))) @
     concat (map (out_lines (CHR ''-'')) (side_lines bl (before c))) @
     concat (map (out_lines (CHR ''+'')) (side_lines al (after c))) @ out_changes bl al (snd (before c)) cs stop"

definition out_hunk :: "bytes list \<Rightarrow> bytes list \<Rightarrow> change list \<Rightarrow> bytes list" where
  "out_hunk bl al g =
     hunk_header_line (hunk_start g) (hunk_stop bl g) (hunk_after_start g) (hunk_after_stop bl g) #
     out_changes bl al (hunk_start g) g (hunk_stop bl g)"

lemma unlines_out_changes: "unlines (out_changes bl al pos cs stop) = changes_text bl al pos cs stop"
  by (induction cs arbitrary: pos) (simp_all add: unlines_out_side)

lemma unlines_out_hunk: "g \<noteq> [] \<Longrightarrow> unlines (out_hunk bl al g) = hunk_text bl al g"
  by (simp add: out_hunk_def hunk_text_def unlines_out_changes)

definition out_header :: "bytes \<Rightarrow> bytes list" where
  "out_header path = [''diff --git a/'' @ path @ '' b/'' @ path, ''--- a/'' @ path, ''+++ b/'' @ path]"

lemma unified_diff_lines:
  assumes "D b a \<noteq> []"
  shows "unified_diff D path b a =
    unlines (out_header path @ concat (map (out_hunk (lines_new b) (lines_new a)) (hunk_groups (D b a))))"
proof -
  have "unlines (concat (map (out_hunk bl al) gs)) = concat (map (hunk_text bl al) gs)"
    if "\<forall>g \<in> set gs. g \<noteq> []" for bl al gs
    using that by (induction gs) (simp_all add: unlines_out_hunk)
  moreover have "\<forall>g \<in> set (hunk_groups (D b a)). g \<noteq> []" using hunk_groups_no_Nil by blast
  ultimately show ?thesis using assms by (simp add: unified_diff_def Let_def out_header_def)
qed

lemma set_side_lines: "l \<in> set (side_lines ls r) \<Longrightarrow> l \<in> set ls"
  by (auto simp: side_lines_def lines_get_def slice_get_def split: option.splits if_splits
      dest: in_set_takeD in_set_dropD)

lemma no_newline_marker_nl [simp]: "nl \<notin> set no_newline_marker"
  by (simp add: no_newline_marker_def nl_def backslash_def)

lemma out_lines_no_nl: "line_ok l \<Longrightarrow> prefix \<noteq> nl \<Longrightarrow> k \<in> set (out_lines prefix l) \<Longrightarrow> nl \<notin> set k"
  using nl_trim [of l] by (auto simp: out_lines_def split: if_splits)

lemma out_side_no_nl:
  "lines_ok side \<Longrightarrow> prefix \<noteq> nl \<Longrightarrow> k \<in> set (concat (map (out_lines prefix) (side_lines side r))) \<Longrightarrow>
     nl \<notin> set k"
  by (auto dest!: set_side_lines lines_ok_memberD [of side] dest: out_lines_no_nl)

lemma prefixes_not_nl [simp]: "CHR '' '' \<noteq> nl" "CHR ''-'' \<noteq> nl" "CHR ''+'' \<noteq> nl"
  by (simp_all add: nl_def)

lemma out_changes_no_nl:
  "lines_ok bl \<Longrightarrow> lines_ok al \<Longrightarrow> k \<in> set (out_changes bl al pos cs stop) \<Longrightarrow> nl \<notin> set k"
proof (induction cs arbitrary: pos)
  case Nil
  then show ?case using out_side_no_nl [of bl "CHR '' ''"] by simp
next
  case (Cons c cs)
  then show ?case
    using out_side_no_nl [of bl "CHR '' ''" k] out_side_no_nl [of bl "CHR ''-''" k]
      out_side_no_nl [of al "CHR ''+''" k]
    unfolding out_changes.simps set_append by (meson UnE prefixes_not_nl)
qed

lemma show_nat_no: "c \<notin> set (show_nat n)" if "\<not> is_digit c"
  using that set_show_nat by blast

lemma header_range_chars: "c \<in> set (header_range s n) \<Longrightarrow> is_digit c \<or> c = CHR '',''"
proof -
  have "is_digit (CHR ''0'')" by (simp add: is_digit_def)
  then show "c \<in> set (header_range s n) \<Longrightarrow> is_digit c \<or> c = CHR '',''"
    by (auto simp: header_range_def dest: set_show_nat split: if_splits)
qed

lemma header_range_no: "c \<notin> set (header_range s n)" if "\<not> is_digit c" "c \<noteq> CHR '',''"
  using that header_range_chars by blast

lemma special_not_digit [simp]: "\<not> is_digit nl" "\<not> is_digit (CHR '' '')" "\<not> is_digit (CHR '','')" "nl \<noteq> CHR '',''"
  by (simp_all add: is_digit_def nl_def)

lemma hunk_header_line_no_nl: "nl \<notin> set (hunk_header_line s e s' e')"
  using header_range_no [of nl] by (simp add: hunk_header_line_def) (simp add: nl_def)

section \<open>Reading a hunk header back\<close>

lemma split_once_None: "c \<notin> set l \<Longrightarrow> split_once (c # p) l = None"
  by (induction l) auto

lemma new_start_of_header:
  assumes "s + n \<le> u32_max"
  shows "new_start_of (header_range s n) = Some s"
proof -
  have comma: "CHR '','' \<notin> set (show_nat m)" for m by (rule show_nat_no) simp
  consider "n = 0" | "n = 1" | "1 < n" by linarith
  then show ?thesis
  proof cases
    case 1
    have "parse_u32 ''0'' = Some 0" by (simp add: parse_u32_def is_digit_def digits_value_def u32_max_def)
    then show ?thesis using 1 assms split_once_append [OF comma, of "[]" s "''0''"]
      by (simp add: header_range_def new_start_of_def parse_u32_show_nat)
  next
    case 2
    then show ?thesis using assms split_once_None [OF comma, of "[]" "s + 1"]
      by (simp add: header_range_def new_start_of_def parse_u32_show_nat)
  next
    case 3
    then show ?thesis using assms split_once_append [OF comma, of "[]" "s + 1" "show_nat n"]
      by (simp add: header_range_def new_start_of_def parse_u32_show_nat)
  qed
qed

lemma header_ascii: "c \<in> set (header_range s n) \<Longrightarrow> (of_char c :: nat) < 128"
  using header_range_chars digit_not_special by fastforce

lemma hunk_new_start_header:
  assumes "s' + (e' - s') \<le> u32_max"
  shows "hunk_new_start (hunk_header_line s e s' e') = Some s'"
proof -
  let ?old = "header_range s (e - s)" and ?new = "header_range s' (e' - s')"
  let ?line = "?old @ '' +'' @ ?new @ '' @@''"
  have space: "CHR '' '' \<notin> set ?old" "CHR '' '' \<notin> set ?new" using header_range_no by simp_all
  have "utf8_valid ?line" by (rule utf8_valid_ascii) (use header_ascii in auto)
  moreover have "strip_prefix ''@@ -'' (hunk_header_line s e s' e') = Some ?line"
    unfolding hunk_header_line_def by (rule strip_prefix_append)
  moreover have "split_once '' +'' ?line = Some (?old, ?new @ '' @@'')"
    using split_once_append [OF space(1), of "''+''"] by simp
  moreover have "split_once '' @@'' (?new @ '' @@'') = Some (?new, [])"
    using split_once_append [OF space(2), of "''@@''" "[]"] by simp
  ultimately show ?thesis using new_start_of_header [OF assms] by (simp add: hunk_new_start_def)
qed

lemma hunk_new_start_None: "l = [] \<or> hd l \<noteq> CHR ''@'' \<Longrightarrow> hunk_new_start l = None"
  by (cases l) (auto simp: hunk_new_start_def)

section \<open>The reverse patch follows the writer\<close>

definition rp :: "bytes \<Rightarrow> nat \<Rightarrow> bool \<Rightarrow> reverse_patch" where
  "rp b p r = \<lparr>rp_before = b, rp_position = p, rp_removed_last = r\<rparr>"

text \<open>Reading these lines inside a hunk, from one state to another; whether the last line read was a
  removal no longer matters afterwards.\<close>

definition reads :: "bytes list \<Rightarrow> bytes list \<Rightarrow> bytes \<Rightarrow> nat \<Rightarrow> bytes \<Rightarrow> nat \<Rightarrow> bool" where
  "reads al ls b p b' p' \<longleftrightarrow>
     (\<forall>r. \<exists>r'. fold_opt (reverse_step al) (rp b p r, True) ls = Some (rp b' p' r', True))"

lemma reads_Nil [simp]: "reads al [] b p b p"
  by (auto simp: reads_def)

lemma reads_append: "reads al ls b p b' p' \<Longrightarrow> reads al ks b' p' c q \<Longrightarrow> reads al (ls @ ks) b p c q"
  unfolding reads_def fold_opt_append by (metis option.simps(5))

lemma reverse_step_push:
  "hd l \<noteq> CHR ''@'' \<Longrightarrow> reverse_step al (p, True) l = map_option (\<lambda>p. (p, True)) (patch_push al l p)"
  by (simp add: reverse_step_def hunk_new_start_None)

lemma no_newline_marker_hd [simp]: "hd no_newline_marker = backslash" "no_newline_marker \<noteq> []"
  by (simp_all add: no_newline_marker_def)

lemma push_no_newline:
  "patch_push al no_newline_marker (rp b p r) = Some (rp (if r then butlast b else b) p r)"
  by (simp add: patch_push_def no_newline_marker_def rp_def backslash_def)

lemma backslash_not_at [simp]: "backslash \<noteq> CHR ''@''"
  by (simp add: backslash_def)

lemma step_marker:
  "reverse_step al (rp b p r, True) no_newline_marker = Some (rp (if r then butlast b else b) p r, True)"
  by (simp add: reverse_step_push push_no_newline)

lemma step_kept:
  "p < length al \<Longrightarrow>
     reverse_step al (rp b p r, True) (CHR '' '' # trim_last nl (al ! p)) = Some (rp (b @ al ! p) (p + 1) False, True)"
  by (simp add: reverse_step_push patch_push_def lines_line_def list_get_def rp_def)

lemma step_added:
  "p < length al \<Longrightarrow>
     reverse_step al (rp b p r, True) (CHR ''+'' # trim_last nl (al ! p)) = Some (rp b (p + 1) False, True)"
  by (simp add: reverse_step_push patch_push_def lines_line_def list_get_def rp_def)

lemma step_removed:
  "reverse_step al (rp b p r, True) (CHR ''-'' # t) = Some (rp (b @ t @ [nl]) p True, True)"
  by (simp add: reverse_step_push patch_push_def rp_def)

lemma reads_kept: "p < length al \<Longrightarrow> reads al (out_lines (CHR '' '') (al ! p)) b p (b @ al ! p) (Suc p)"
  by (auto simp: reads_def out_lines_def step_kept step_marker)

lemma reads_added: "p < length al \<Longrightarrow> reads al (out_lines (CHR ''+'') (al ! p)) b p b (Suc p)"
  by (auto simp: reads_def out_lines_def step_added step_marker)

lemma reads_removed: "reads al (out_lines (CHR ''-'') l) b p (b @ l) p"
proof (cases "ends_with_nl l")
  case True
  then have "trim_last nl l @ [nl] = l" using trim_nl_cases [of l] by simp
  then show ?thesis using True by (auto simp: reads_def out_lines_def step_removed)
next
  case False
  then have "trim_last nl l = l" using trim_nl_cases [of l] by simp
  then show ?thesis using False
    by (auto simp: reads_def out_lines_def step_removed step_marker butlast_append)
qed

lemma reads_removed_all: "reads al (concat (map (out_lines (CHR ''-'')) ls)) b p (b @ concat ls) p"
proof (induction ls arbitrary: b)
  case (Cons l ls)
  show ?case using reads_append [OF reads_removed [of al l b p] Cons.IH] by simp
qed simp

lemma reads_kept_all:
  "p + n \<le> length al \<Longrightarrow>
     reads al (concat (map (out_lines (CHR '' '')) (slice al p (p + n)))) b p (b @ concat (slice al p (p + n))) (p + n)"
proof (induction n arbitrary: b p)
  case (Suc n)
  then have "slice al p (p + Suc n) = al ! p # slice al (Suc p) (Suc p + n)"
    by (simp add: Cons_nth_drop_Suc [symmetric])
  moreover have "p < length al" "Suc p + n \<le> length al" using Suc.prems by simp_all
  ultimately show ?case using reads_append [OF reads_kept Suc.IH, of p b] by simp
qed simp

lemma reads_added_all:
  "p + n \<le> length al \<Longrightarrow> reads al (concat (map (out_lines (CHR ''+'')) (slice al p (p + n)))) b p b (p + n)"
proof (induction n arbitrary: p)
  case (Suc n)
  then have "slice al p (p + Suc n) = al ! p # slice al (Suc p) (Suc p + n)"
    by (simp add: Cons_nth_drop_Suc [symmetric])
  moreover have "p < length al" "Suc p + n \<le> length al" using Suc.prems by simp_all
  ultimately show ?case using reads_append [OF reads_added [of p al b] Suc.IH [of "Suc p"]] by simp
qed simp

lemma side_lines_slice: "i \<le> j \<Longrightarrow> j \<le> length ls \<Longrightarrow> side_lines ls (i, j) = slice ls i j"
  by (simp add: side_lines_def lines_get_def)

text \<open>Unchanged lines of the old version, read at the matching place of the new one.\<close>

lemma reads_context:
  assumes "script_from i j bl al cs" "i + k \<le> (case cs of [] \<Rightarrow> length bl | c # _ \<Rightarrow> fst (before c))"
  shows "reads al (concat (map (out_lines (CHR '' '')) (side_lines bl (i, i + k))))
      (concat (take i bl)) j (concat (take (i + k) bl)) (j + k)" (is ?reads)
    and "script_from (i + k) (j + k) bl al cs"
proof -
  from script_from_advance [OF assms] have sc: "script_from (i + k) (j + k) bl al cs"
    and eq: "slice bl i (i + k) = slice al j (j + k)" by auto
  then show "script_from (i + k) (j + k) bl al cs" by simp
  from script_from_bounds [OF sc] have le: "i + k \<le> length bl" "j + k \<le> length al" by auto
  have "concat (take (i + k) bl) = concat (take i bl) @ concat (slice bl i (i + k))"
    using slice_append [of 0 i "i + k" bl] by (simp flip: concat_append)
  with reads_kept_all [OF le(2), of "concat (take i bl)"] eq side_lines_slice [of i "i + k" bl] le(1)
  show ?reads by simp
qed

definition limit :: "'a list \<Rightarrow> change list \<Rightarrow> nat" where
  "limit bl cs = (case cs of [] \<Rightarrow> length bl | c # _ \<Rightarrow> fst (before c))"

lemma reads_changes:
  "\<lbrakk>script_from i j bl al (cs @ rest); (if cs = [] then i else snd (before (last cs))) \<le> stop; stop \<le> limit bl rest\<rbrakk> \<Longrightarrow>
     \<exists>p'. reads al (out_changes bl al i cs stop) (concat (take i bl)) j (concat (take stop bl)) p' \<and>
       script_from stop p' bl al rest"
proof (induction cs arbitrary: i j)
  case Nil
  then obtain k where k: "stop = i + k" by (auto simp: le_iff_add)
  with Nil reads_context [of i j bl al rest k] show ?case by (auto simp: limit_def)
next
  case (Cons c cs)
  from Cons.prems(1) have sc: "script_from i j bl al (c # cs @ rest)" by simp
  then have hd: "i \<le> fst (before c)" "fst (before c) \<le> snd (before c)" "snd (before c) \<le> length bl"
    "fst (after c) \<le> snd (after c)" "snd (after c) \<le> length al" "fst (before c) + j = fst (after c) + i"
    "j \<le> fst (after c)"
    and tail: "script_from (snd (before c)) (snd (after c)) bl al (cs @ rest)" by simp_all
  obtain k where k: "fst (before c) = i + k" "fst (after c) = j + k" using hd by (auto simp: le_iff_add)
  have unchanged: "reads al (concat (map (out_lines (CHR '' '')) (side_lines bl (i, fst (before c)))))
      (concat (take i bl)) j (concat (take (fst (before c)) bl)) (fst (after c))"
    using reads_context(1) [OF sc, of k] k by simp
  have "concat (take (fst (before c)) bl) @ concat (slice bl (fst (before c)) (snd (before c))) =
      concat (take (snd (before c)) bl)"
    using slice_append [of 0 "fst (before c)" "snd (before c)" bl] hd(2) by (simp flip: concat_append)
  then have removed: "reads al (concat (map (out_lines (CHR ''-'')) (side_lines bl (before c))))
      (concat (take (fst (before c)) bl)) (fst (after c)) (concat (take (snd (before c)) bl)) (fst (after c))"
    using reads_removed_all [of al "slice bl (fst (before c)) (snd (before c))"] hd(2,3)
      side_lines_slice [of "fst (before c)" "snd (before c)" bl] by (metis prod.collapse)
  have "fst (after c) + (snd (after c) - fst (after c)) = snd (after c)" using hd(4) by simp
  then have added: "reads al (concat (map (out_lines (CHR ''+'')) (side_lines al (after c))))
      (concat (take (snd (before c)) bl)) (fst (after c)) (concat (take (snd (before c)) bl)) (snd (after c))"
    using reads_added_all [of "fst (after c)" "snd (after c) - fst (after c)" al] hd(4,5)
      side_lines_slice [of "fst (after c)" "snd (after c)" al] by (metis prod.collapse)
  obtain p' where "reads al (out_changes bl al (snd (before c)) cs stop) (concat (take (snd (before c)) bl))
      (snd (after c)) (concat (take stop bl)) p'" "script_from stop p' bl al rest"
    using Cons.IH [OF tail] Cons.prems(2,3) by (auto split: if_splits)
  with reads_append [OF unchanged reads_append [OF removed reads_append [OF added]]]
  show ?case by auto
qed

lemma step_header:
  assumes "p \<le> ns" "ns \<le> length al" "ns + (e' - ns) \<le> u32_max"
  shows "reverse_step al (rp b p r, h) (hunk_header_line s e ns e') = Some (rp (b @ concat (slice al p ns)) ns r, True)"
  using assms by (simp add: reverse_step_def hunk_new_start_header copy_until_def rp_def lines_get_def)

text \<open>From just before a hunk to its end.\<close>

lemma runs_hunk:
  assumes "script_from i j bl al (g @ rest)" "g \<noteq> []" "i \<le> hunk_start g"
    and "hunk_stop bl g \<le> limit bl rest" "length bl \<le> u32_max" "length al \<le> u32_max"
  shows "\<exists>p' r'. fold_opt (reverse_step al) (rp (concat (take i bl)) j r, h) (out_hunk bl al g) =
      Some (rp (concat (take (hunk_stop bl g) bl)) p' r', True) \<and> script_from (hunk_stop bl g) p' bl al rest"
proof -
  obtain c cs where g: "g = c # cs" using assms(2) by (meson neq_Nil_conv)
  with assms(1) have hd: "i \<le> fst (before c)" "fst (before c) + j = fst (after c) + i" "j \<le> fst (after c)" by simp_all
  have start: "hunk_start g \<le> fst (before c)" by (simp add: hunk_start_def g)
  obtain k where k: "hunk_start g = i + k" using assms(3) by (auto simp: le_iff_add)
  have as: "hunk_after_start g = j + k" using hd k start by (simp add: hunk_after_start_def g)
  have lim: "i + k \<le> (case g @ rest of [] \<Rightarrow> length bl | c # _ \<Rightarrow> fst (before c))" using start k g by simp
  from script_from_advance [OF assms(1) lim]
  have sc: "script_from (hunk_start g) (hunk_after_start g) bl al (g @ rest)"
    and eq: "slice bl i (hunk_start g) = slice al j (hunk_after_start g)" by (simp_all add: k as)
  have take: "concat (take i bl) @ concat (slice al j (hunk_after_start g)) = concat (take (hunk_start g) bl)"
    using slice_append [of 0 i "hunk_start g" bl] k eq by (simp flip: concat_append)
  from script_from_append [OF assms(1,2)]
  have tail: "script_from (snd (before (last g))) (snd (after (last g))) bl al rest" by simp
  have last_le: "snd (before (last g)) \<le> hunk_stop bl g"
    using script_from_bounds [OF tail] assms(5) by (simp add: hunk_stop_def lines_len_def)
  then obtain m where m: "hunk_stop bl g = snd (before (last g)) + m" by (auto simp: le_iff_add)
  with assms(4) have "script_from (hunk_stop bl g) (hunk_after_stop bl g) bl al rest"
    using script_from_advance [OF tail, of m] by (simp add: limit_def hunk_after_stop_def)
  from script_from_bounds [OF this] have stop: "hunk_after_stop bl g \<le> length al" by simp
  from script_from_bounds [OF sc] have "hunk_after_start g \<le> length al" by simp
  with stop have header: "reverse_step al (rp (concat (take i bl)) j r, h)
      (hunk_header_line (hunk_start g) (hunk_stop bl g) (hunk_after_start g) (hunk_after_stop bl g)) =
      Some (rp (concat (take (hunk_start g) bl)) (hunk_after_start g) r, True)"
    using step_header [of j "hunk_after_start g" al "hunk_after_stop bl g"] take assms(6) as by simp
  obtain p' where changes: "reads al (out_changes bl al (hunk_start g) g (hunk_stop bl g))
      (concat (take (hunk_start g) bl)) (hunk_after_start g) (concat (take (hunk_stop bl g) bl)) p'"
    and rest: "script_from (hunk_stop bl g) p' bl al rest"
    using reads_changes [OF sc _ assms(4)] last_le assms(2) by auto
  obtain r' where "fold_opt (reverse_step al) (rp (concat (take (hunk_start g) bl)) (hunk_after_start g) r, True)
      (out_changes bl al (hunk_start g) g (hunk_stop bl g)) = Some (rp (concat (take (hunk_stop bl g) bl)) p' r', True)"
    using changes unfolding reads_def by blast
  with rest show ?thesis by (intro exI [of _ p'] exI [of _ r']) (simp add: out_hunk_def header)
qed

section \<open>The round trip\<close>

text \<open>One hunk stops before the next starts.\<close>

lemma hunk_stop_limit:
  assumes "script_from i j bl al (g @ concat gs)" "\<forall>h \<in> set (g # gs). h \<noteq> []"
    and "separated (\<lambda>p n. fst (before n) - snd (before p) \<le> 2 * CONTEXT) (g # gs)" "length bl \<le> u32_max"
  shows "hunk_stop bl g \<le> limit bl (concat gs) \<and> (gs \<noteq> [] \<longrightarrow> hunk_stop bl g \<le> hunk_start (hd gs))"
proof (cases gs)
  case Nil
  then show ?thesis using assms(4) by (simp add: limit_def hunk_stop_def lines_len_def)
next
  case (Cons h hs)
  then have "2 * CONTEXT < fst (before (hd h)) - snd (before (last g))" "h \<noteq> []" using assms(2,3) by auto
  then have "hunk_stop bl g \<le> hunk_start h" "hunk_start h \<le> fst (before (hd h))"
    by (auto simp: hunk_stop_def hunk_start_def CONTEXT_def)
  moreover have "limit bl (concat gs) = fst (before (hd h))"
    using \<open>h \<noteq> []\<close> Cons by (cases h) (auto simp: limit_def)
  ultimately show ?thesis using Cons by simp
qed

lemma runs_groups:
  "\<lbrakk>script_from i j bl al (concat gs); \<forall>h \<in> set gs. h \<noteq> [];
    separated (\<lambda>p n. fst (before n) - snd (before p) \<le> 2 * CONTEXT) gs; gs \<noteq> [] \<longrightarrow> i \<le> hunk_start (hd gs);
    length bl \<le> u32_max; length al \<le> u32_max\<rbrakk> \<Longrightarrow>
     \<exists>i' p' r' h'. fold_opt (reverse_step al) (rp (concat (take i bl)) j r, h) (concat (map (out_hunk bl al) gs)) =
       Some (rp (concat (take i' bl)) p' r', h') \<and> script_from i' p' bl al []"
proof (induction gs arbitrary: i j r h)
  case Nil
  then show ?case by (auto simp del: script_from.simps)
next
  case (Cons g gs)
  have sc: "script_from i j bl al (g @ concat gs)" using Cons.prems(1) by simp
  note stop = hunk_stop_limit [OF sc Cons.prems(2,3,5)]
  obtain p' r' where run: "fold_opt (reverse_step al) (rp (concat (take i bl)) j r, h) (out_hunk bl al g) =
      Some (rp (concat (take (hunk_stop bl g) bl)) p' r', True)"
    and rest: "script_from (hunk_stop bl g) p' bl al (concat gs)"
    using runs_hunk [OF sc _ _ stop [THEN conjunct1] Cons.prems(5,6), of r h] Cons.prems(2,4)
    by auto
  have sep: "separated (\<lambda>p n. fst (before n) - snd (before p) \<le> 2 * CONTEXT) gs"
    using Cons.prems(3) by (cases gs) auto
  have ne: "\<forall>h \<in> set gs. h \<noteq> []" using Cons.prems(2) by simp
  from Cons.IH [OF rest ne sep stop [THEN conjunct2] Cons.prems(5,6), of r' True]
  show ?case by (simp add: fold_opt_append run)
qed

lemma out_groups_no_nl:
  "lines_ok bl \<Longrightarrow> lines_ok al \<Longrightarrow> l \<in> set (concat (map (out_hunk bl al) gs)) \<Longrightarrow> nl \<notin> set l"
  using out_changes_no_nl hunk_header_line_no_nl by (fastforce simp: out_hunk_def)

lemma reverse_apply_unified_diff:
  assumes "line_diff D" "length (lines_new old) \<le> u32_max" "length (lines_new new) \<le> u32_max" "nl \<notin> set path"
  shows "reverse_apply (unified_diff D path old new) new = Some old"
proof -
  let ?bl = "lines_new old" and ?al = "lines_new new" and ?cs = "D old new"
  let ?gs = "hunk_groups ?cs"
  have init: "\<lparr>rp_before = [], rp_position = 0, rp_removed_last = False\<rparr> = rp (concat (take 0 ?bl)) 0 False"
    by (simp add: rp_def)
  have finish: "map_option rp_before (copy_until ?al (lines_len ?al) (rp (concat (take i ?bl)) p r)) = Some old"
    if "script_from i p ?bl ?al []" for i p r
  proof -
    have "concat (take i ?bl) @ concat (drop p ?al) = concat (take i ?bl @ drop i ?bl)" using that by simp
    then have "concat (take i ?bl) @ concat (drop p ?al) = old" unfolding append_take_drop_id by simp
    with that assms(3) show ?thesis
      by (simp add: copy_until_def rp_def lines_get_def lines_len_def)
  qed
  show ?thesis
  proof (cases "?cs = []")
    case True
    then have "old = new" using line_diff_Nil_iff [OF assms(1)] by simp
    then show ?thesis using finish [of 0 0 False] assms(3) True
      by (simp add: unified_diff_def reverse_apply_def Let_def reverse_step_def hunk_new_start_None init)
  next
    case False
    let ?ls = "out_header path @ concat (map (out_hunk ?bl ?al) ?gs)"
    have "nl \<notin> set l" if "l \<in> set ?ls" for l
      using that assms(4) out_groups_no_nl [of ?bl ?al l ?gs] by (auto simp: out_header_def nl_def)
    then have "split_nl (unlines ?ls) = ?ls @ [[]]" by (intro split_nl_unlines ballI)
    then have split: "split_nl (unified_diff D path old new) = ?ls @ [[]]"
      by (simp only: unified_diff_lines [of D old new, OF False])
    have header: "fold_opt (reverse_step ?al) (rp b p r, False) (out_header path) = Some (rp b p r, False)" for b p r
      by (simp add: out_header_def reverse_step_def hunk_new_start_None)
    have "separated (\<lambda>p n. fst (before n) - snd (before p) \<le> 2 * CONTEXT) ?gs"
      unfolding hunk_groups_def by (rule separated_chunk_by)
    moreover have "script_from 0 0 ?bl ?al (concat ?gs)"
      using line_diff_script [OF assms(1)] by (simp add: edit_script_def)
    moreover have "\<forall>g \<in> set ?gs. g \<noteq> []" using hunk_groups_no_Nil by blast
    ultimately obtain i p r h where run: "fold_opt (reverse_step ?al) (rp (concat (take 0 ?bl)) 0 False, False)
        (concat (map (out_hunk ?bl ?al) ?gs)) = Some (rp (concat (take i ?bl)) p r, h)"
      and rest: "script_from i p ?bl ?al []"
      using runs_groups [of 0 0 ?bl ?al ?gs False False] assms(2,3) by auto
    have "reverse_step ?al (rp b p r, h) [] = Some (rp b p r, h)" for b p r h
      by (simp add: reverse_step_def hunk_new_start_None patch_push_def)
    then show ?thesis using finish [OF rest, of r] run header
      by (simp add: reverse_apply_def Let_def split init fold_opt_append del: take_0)
  qed
qed

end
