(* ===== verification/OpenDiff.thy ===== *)
theory OpenDiff
  imports Patch Classify
begin

text \<open>
  The open diff end to end: the tracker writes the diff of a partly reviewed file with
  \<open>unified_diff\<close> (patch.rs), the view parses it with \<open>parse_file_diff\<close> (diff.rs) and reads its hunks
  with \<open>open_hunks\<close> (hunks.rs). The lemmas show that this yields exactly the groups of changes that
  the diff was written from.
\<close>

section \<open>The parser on written lines\<close>

text \<open>How many lines of each side a line of a hunk stands for.\<close>

definition line_sides :: "bytes \<Rightarrow> (nat \<times> nat) option" where
  "line_sides l =
     (if starts_with no_newline_marker l then None
      else if first_byte l = Some (CHR '' '') then Some (1, 1)
      else if first_byte l = Some (CHR ''-'') then Some (1, 0)
      else if first_byte l = Some (CHR ''+'') then Some (0, 1)
      else None)"

definition hunk_line :: "bytes \<Rightarrow> bool" where
  "hunk_line l \<longleftrightarrow> starts_with no_newline_marker l \<or>
     (l \<noteq> [] \<and> hd l \<in> {CHR '' '', CHR ''-'', CHR ''+''})"

definition sum_old :: "(nat \<times> nat) option list \<Rightarrow> nat" where
  "sum_old ss = sum_list (map (\<lambda>s. case s of Some (o', n) \<Rightarrow> o' | None \<Rightarrow> 0) ss)"

definition sum_new :: "(nat \<times> nat) option list \<Rightarrow> nat" where
  "sum_new ss = sum_list (map (\<lambda>s. case s of Some (o', n) \<Rightarrow> n | None \<Rightarrow> 0) ss)"

lemma sum_simps [simp]:
  "sum_old [] = 0" "sum_new [] = 0" "sum_old (None # ss) = sum_old ss" "sum_new (None # ss) = sum_new ss"
  "sum_old (Some x # ss) = fst x + sum_old ss" "sum_new (Some x # ss) = snd x + sum_new ss"
  "sum_old (ss @ ts) = sum_old ss + sum_old ts" "sum_new (ss @ ts) = sum_new ss + sum_new ts"
  by (simp_all add: sum_old_def sum_new_def case_prod_beta)

lemma hunk_line_not_header: "hunk_line l \<Longrightarrow> \<not> starts_with ''diff --git '' l \<and> hunk_parse l = None"
  by (cases l) (auto simp: hunk_line_def starts_with_def hunk_parse_def no_newline_marker_def backslash_def
      split: if_splits)

definition seen_more :: "nat \<Rightarrow> nat \<Rightarrow> active_hunk \<Rightarrow> active_hunk" where
  "seen_more o' n h = h\<lparr>ah_old_seen := ah_old_seen h + o', ah_new_seen := ah_new_seen h + n\<rparr>"

lemma seen_more_simps [simp]:
  "seen_more 0 0 h = h" "seen_more a b (seen_more c d h) = seen_more (c + a) (d + b) h"
  "ah_old_seen (seen_more a b h) = ah_old_seen h + a" "ah_new_seen (seen_more a b h) = ah_new_seen h + b"
  "ah_old_count (seen_more a b h) = ah_old_count h" "ah_new_count (seen_more a b h) = ah_new_count h"
  by (simp_all add: seen_more_def)

lemma hunk_push_line:
  assumes "hunk_line l" "ah_old_seen h < u32_max" "ah_new_seen h < u32_max"
  obtains r where "hunk_push l HistoricalDiffRows h [] =
      (seen_more (sum_old [line_sides l]) (sum_new [line_sides l]) h, [r])"
    "row_sides r = line_sides l" "walk_start r = None" "\<not> is_notice r"
proof -
  have see: "see True True h = seen_more 1 1 h" "see True False h = seen_more 1 0 h" "see False True h = seen_more 0 1 h"
    using assms(2,3) by (simp_all add: see_def seen_more_def)
  have "\<exists>r. hunk_push l HistoricalDiffRows h [] =
      (seen_more (sum_old [line_sides l]) (sum_new [line_sides l]) h, [r]) \<and>
      row_sides r = line_sides l \<and> walk_start r = None \<and> \<not> is_notice r"
  proof (cases "starts_with no_newline_marker l")
    case True
    then show ?thesis
      by (simp add: hunk_push_def line_sides_def row_sides_def walk_start_def is_notice_def)
  next
    case False
    then obtain c t where "l = c # t" "c \<in> {CHR '' '', CHR ''-'', CHR ''+''}"
      using assms(1) by (auto simp: hunk_line_def neq_Nil_conv)
    with False see show ?thesis
      by (auto simp: hunk_push_def line_sides_def first_byte_def row_sides_def walk_start_def is_notice_def Let_def)
  qed
  with that show thesis by blast
qed

lemma rows_from_hunk_lines:
  "\<lbrakk>\<forall>l \<in> set ls. hunk_line l; ah_old_seen h + length ls \<le> u32_max; ah_new_seen h + length ls \<le> u32_max\<rbrakk> \<Longrightarrow>
     \<exists>rows. rows_from HistoricalDiffRows (Some h) (ls @ rest) =
         rows @ rows_from HistoricalDiffRows
           (Some (seen_more (sum_old (map line_sides ls)) (sum_new (map line_sides ls)) h)) rest \<and>
       map row_sides rows = map line_sides ls \<and> (\<forall>r \<in> set rows. walk_start r = None \<and> \<not> is_notice r)"
proof (induction ls arbitrary: h)
  case (Cons l ls)
  obtain r where r: "hunk_push l HistoricalDiffRows h [] =
      (seen_more (sum_old [line_sides l]) (sum_new [line_sides l]) h, [r])"
    "row_sides r = line_sides l" "walk_start r = None" "\<not> is_notice r"
    using hunk_push_line [of l h] Cons.prems by auto
  let ?h = "seen_more (sum_old [line_sides l]) (sum_new [line_sides l]) h"
  have "sum_old [line_sides l] \<le> 1" "sum_new [line_sides l] \<le> 1" by (auto simp: line_sides_def)
  then have le: "ah_old_seen ?h + length ls \<le> u32_max" "ah_new_seen ?h + length ls \<le> u32_max"
    using Cons.prems(2,3) by simp_all
  have step: "rows_from HistoricalDiffRows (Some h) ((l # ls) @ rest) =
      r # rows_from HistoricalDiffRows (Some ?h) (ls @ rest)"
    using hunk_line_not_header [of l] Cons.prems(1) r(1) by (simp add: parser_push_def)
  obtain rows where rows: "rows_from HistoricalDiffRows (Some ?h) (ls @ rest) =
      rows @ rows_from HistoricalDiffRows
        (Some (seen_more (sum_old (map line_sides ls)) (sum_new (map line_sides ls)) ?h)) rest"
    "map row_sides rows = map line_sides ls" "\<forall>r \<in> set rows. walk_start r = None \<and> \<not> is_notice r"
    using Cons.IH [OF _ le] Cons.prems(1) by auto
  have "sum_old (map line_sides (l # ls)) = sum_old [line_sides l] + sum_old (map line_sides ls)"
    "sum_new (map line_sides (l # ls)) = sum_new [line_sides l] + sum_new (map line_sides ls)"
    using sum_simps(7,8) [of "[line_sides l]" "map line_sides ls"] by simp_all
  then show ?case using rows r(2-4) step by (intro exI [of _ "r # rows"]) simp
qed auto

section \<open>The walk over written lines\<close>

definition walk_side :: "hunk_walk \<Rightarrow> (nat \<times> nat) option \<Rightarrow> hunk_walk" where
  "walk_side w s =
     (case s of None \<Rightarrow> w
      | Some (o', n) \<Rightarrow>
          (let changed = (o' + n = 1); at' = (u32_add (fst (hw_at w)) o', u32_add (snd (hw_at w)) n)
           in \<lparr>hw_at = at',
               hw_first = (if changed then (case hw_first w of None \<Rightarrow> Some (hw_at w) | f \<Rightarrow> f) else hw_first w),
               hw_last = (if changed then Some at' else hw_last w),
               hw_changed = (if changed then u32_add (hw_changed w) 1 else hw_changed w)\<rparr>))"

lemma walk_push_side: "walk_push w r = walk_side w (row_sides r)"
  by (simp add: walk_push_def walk_side_def)

lemma foldl_walk_push: "foldl walk_push w rows = foldl walk_side w (map row_sides rows)"
  by (induction rows arbitrary: w) (simp_all add: walk_push_side)

text \<open>The sides of the lines written for some lines of a text.\<close>

definition sides :: "byte \<Rightarrow> bytes list \<Rightarrow> (nat \<times> nat) option list" where
  "sides prefix ls = map (\<lambda>l. line_sides (trim_last cr l)) (concat (map (out_lines prefix) ls))"

definition prefix_sides :: "byte \<Rightarrow> nat \<times> nat" where
  "prefix_sides p = (if p = CHR '' '' then (1, 1) else if p = CHR ''-'' then (1, 0) else (0, 1))"

lemma trim_cr_prefix:
  "c \<noteq> cr \<Longrightarrow> \<exists>t'. trim_last cr (c # t) = c # t'"
  by (auto simp: trim_last_def strip_last_def)

lemma trim_cr_marker [simp]: "trim_last cr no_newline_marker = no_newline_marker"
  by (simp add: trim_last_def strip_last_def no_newline_marker_def cr_def)

lemma line_sides_prefix:
  assumes "p \<in> {CHR '' '', CHR ''-'', CHR ''+''}"
  shows "line_sides (trim_last cr (p # t)) = Some (prefix_sides p)"
proof -
  have "p \<noteq> cr" using assms by (auto simp: cr_def)
  then obtain t' where "trim_last cr (p # t) = p # t'" using trim_cr_prefix by blast
  with assms show ?thesis
    by (auto simp: line_sides_def starts_with_def no_newline_marker_def first_byte_def prefix_sides_def backslash_def)
qed

lemma line_sides_marker [simp]: "line_sides no_newline_marker = None"
  using strip_prefix_append [of no_newline_marker "[]"] by (simp add: line_sides_def starts_with_def)

lemma sides_simps:
  assumes "p \<in> {CHR '' '', CHR ''-'', CHR ''+''}"
  shows "sides p [] = []"
    "sides p (l # ls) = Some (prefix_sides p) # (if ends_with_nl l then [] else [None]) @ sides p ls"
  by (simp_all add: sides_def out_lines_def line_sides_prefix [OF assms])

lemma sum_sides:
  assumes "p \<in> {CHR '' '', CHR ''-'', CHR ''+''}"
  shows "sum_old (sides p ls) = length ls * fst (prefix_sides p) \<and> sum_new (sides p ls) = length ls * snd (prefix_sides p)"
  by (induction ls) (simp_all add: sides_simps [OF assms])

lemma hunk_line_out:
  assumes "p \<in> {CHR '' '', CHR ''-'', CHR ''+''}" "l \<in> set (concat (map (out_lines p) ls))"
  shows "hunk_line (trim_last cr l)"
proof -
  have "p \<noteq> cr" using assms(1) by (auto simp: cr_def)
  from assms(2) have "l = no_newline_marker \<or> (\<exists>t. l = p # t)"
    by (auto simp: out_lines_def split: if_splits)
  then show ?thesis
  proof
    assume "l = no_newline_marker"
    then show ?thesis
      using strip_prefix_append [of no_newline_marker "[]"] by (simp add: hunk_line_def starts_with_def)
  next
    assume "\<exists>t. l = p # t"
    then obtain t t' where "l = p # t" "trim_last cr (p # t) = p # t'"
      using trim_cr_prefix [OF \<open>p \<noteq> cr\<close>] by blast
    then show ?thesis using assms(1) by (simp add: hunk_line_def)
  qed
qed

definition walked :: "hunk_walk \<Rightarrow> nat \<Rightarrow> nat \<Rightarrow> hunk_walk" where
  "walked w o' n = w\<lparr>hw_at := (fst (hw_at w) + o', snd (hw_at w) + n)\<rparr>"

text \<open>After \<open>n\<close> changed lines, which the walk has now seen as its last.\<close>

definition changed_by :: "hunk_walk \<Rightarrow> nat \<Rightarrow> nat \<Rightarrow> hunk_walk" where
  "changed_by w o' n =
     (if o' + n = 0 then w
      else \<lparr>hw_at = (fst (hw_at w) + o', snd (hw_at w) + n),
            hw_first = Some (case hw_first w of None \<Rightarrow> hw_at w | Some f \<Rightarrow> f),
            hw_last = Some (fst (hw_at w) + o', snd (hw_at w) + n),
            hw_changed = hw_changed w + (o' + n)\<rparr>)"

lemma walk_context:
  "fst (hw_at w) + length ls \<le> u32_max \<Longrightarrow> snd (hw_at w) + length ls \<le> u32_max \<Longrightarrow>
     foldl walk_side w (sides (CHR '' '') ls) = walked w (length ls) (length ls)"
proof (induction ls arbitrary: w)
  case (Cons l ls)
  let ?w = "walked w 1 1"
  have "walk_side w (Some (1, 1)) = ?w"
    using Cons.prems by (simp add: walk_side_def walked_def)
  moreover have "walked ?w (length ls) (length ls) = walked w (length (l # ls)) (length (l # ls))"
    by (simp add: walked_def)
  moreover have "foldl walk_side ?w (sides (CHR '' '') ls) = walked ?w (length ls) (length ls)"
    by (rule Cons.IH) (use Cons.prems in \<open>simp_all add: walked_def\<close>)
  ultimately show ?case by (simp add: sides_simps prefix_sides_def walk_side_def [of _ None])
qed (simp add: sides_simps walked_def)

lemma walk_removed:
  "fst (hw_at w) + length ls \<le> u32_max \<Longrightarrow> snd (hw_at w) \<le> u32_max \<Longrightarrow> hw_changed w + length ls \<le> u32_max \<Longrightarrow>
     foldl walk_side w (sides (CHR ''-'') ls) = changed_by w (length ls) 0"
proof (induction ls arbitrary: w)
  case (Cons l ls)
  let ?w = "changed_by w 1 0"
  have "walk_side w (Some (1, 0)) = ?w"
    using Cons.prems by (simp add: walk_side_def changed_by_def Let_def split: option.splits)
  moreover have "changed_by ?w (length ls) 0 = changed_by w (length (l # ls)) 0"
    by (simp add: changed_by_def split: option.splits)
  moreover have "foldl walk_side ?w (sides (CHR ''-'') ls) = changed_by ?w (length ls) 0"
    by (rule Cons.IH) (use Cons.prems in \<open>simp_all add: changed_by_def\<close>)
  ultimately show ?case by (simp add: sides_simps prefix_sides_def walk_side_def [of _ None])
qed (simp add: sides_simps changed_by_def)

lemma walk_added:
  "snd (hw_at w) + length ls \<le> u32_max \<Longrightarrow> fst (hw_at w) \<le> u32_max \<Longrightarrow> hw_changed w + length ls \<le> u32_max \<Longrightarrow>
     foldl walk_side w (sides (CHR ''+'') ls) = changed_by w 0 (length ls)"
proof (induction ls arbitrary: w)
  case (Cons l ls)
  let ?w = "changed_by w 0 1"
  have "walk_side w (Some (0, 1)) = ?w"
    using Cons.prems by (simp add: walk_side_def changed_by_def Let_def split: option.splits)
  moreover have "changed_by ?w 0 (length ls) = changed_by w 0 (length (l # ls))"
    by (simp add: changed_by_def split: option.splits)
  moreover have "foldl walk_side ?w (sides (CHR ''+'') ls) = changed_by ?w 0 (length ls)"
    by (rule Cons.IH) (use Cons.prems in \<open>simp_all add: changed_by_def\<close>)
  ultimately show ?case by (simp add: sides_simps prefix_sides_def walk_side_def [of _ None])
qed (simp add: sides_simps changed_by_def)

section \<open>One hunk\<close>

definition changed_count :: "change list \<Rightarrow> nat" where
  "changed_count cs = sum_list (map (\<lambda>c. (snd (before c) - fst (before c)) + (snd (after c) - fst (after c))) cs)"

lemma changed_count_simps [simp]:
  "changed_count [] = 0"
  "changed_count (c # cs) = (snd (before c) - fst (before c)) + (snd (after c) - fst (after c)) + changed_count cs"
  by (simp_all add: changed_count_def)

definition out_sides :: "bytes list \<Rightarrow> bytes list \<Rightarrow> nat \<Rightarrow> change list \<Rightarrow> nat \<Rightarrow> (nat \<times> nat) option list" where
  "out_sides bl al pos cs stop = map (\<lambda>l. line_sides (trim_last cr l)) (out_changes bl al pos cs stop)"

lemma out_sides_simps:
  "out_sides bl al pos [] stop = sides (CHR '' '') (side_lines bl (pos, stop))"
  "out_sides bl al pos (c # cs) stop =
     sides (CHR '' '') (side_lines bl (pos, fst (before c))) @ sides (CHR ''-'') (side_lines bl (before c)) @
     sides (CHR ''+'') (side_lines al (after c)) @ out_sides bl al (snd (before c)) cs stop"
  by (simp_all add: out_sides_def sides_def)

lemma length_side_lines [simp]: "i \<le> j \<Longrightarrow> j \<le> length ls \<Longrightarrow> length (side_lines ls (i, j)) = j - i"
  by (simp add: side_lines_slice)

lemma length_side_lines_pair:
  "fst r \<le> snd r \<Longrightarrow> snd r \<le> length ls \<Longrightarrow> length (side_lines ls r) = snd r - fst r"
  using length_side_lines [of "fst r" "snd r" ls] by simp

definition after_end :: "nat \<Rightarrow> nat \<Rightarrow> change list \<Rightarrow> nat \<Rightarrow> nat" where
  "after_end i j cs stop =
     (if cs = [] then j + (stop - i) else snd (after (last cs)) + (stop - snd (before (last cs))))"

lemma script_last_le:
  "script_from i j bl al (c # cs @ rest) \<Longrightarrow> cs \<noteq> [] \<Longrightarrow> snd (before c) \<le> snd (before (last cs))"
  using script_from_append [of i j bl al "c # cs" rest] by simp

lemma out_sides_sums:
  "\<lbrakk>script_from i j bl al (cs @ rest); (if cs = [] then i else snd (before (last cs))) \<le> stop; stop \<le> length bl\<rbrakk> \<Longrightarrow>
     i + sum_old (out_sides bl al i cs stop) = stop \<and>
     j + sum_new (out_sides bl al i cs stop) = after_end i j cs stop"
proof (induction cs arbitrary: i j)
  case Nil
  then show ?case by (simp add: out_sides_simps sum_sides prefix_sides_def after_end_def)
next
  case (Cons c cs)
  from Cons.prems(1) have sc: "script_from i j bl al (c # cs @ rest)" by simp
  then have hd: "i \<le> fst (before c)" "fst (before c) \<le> snd (before c)" "snd (before c) \<le> length bl"
    "fst (after c) \<le> snd (after c)" "snd (after c) \<le> length al" "fst (before c) + j = fst (after c) + i"
    and tail: "script_from (snd (before c)) (snd (after c)) bl al (cs @ rest)" by simp_all
  have "(if cs = [] then snd (before c) else snd (before (last cs))) \<le> stop"
    using Cons.prems(2) by (auto split: if_splits)
  from Cons.IH [OF tail this Cons.prems(3)]
  have IH: "snd (before c) + sum_old (out_sides bl al (snd (before c)) cs stop) = stop"
    "snd (after c) + sum_new (out_sides bl al (snd (before c)) cs stop) = after_end (snd (before c)) (snd (after c)) cs stop"
    by auto
  have "after_end i j (c # cs) stop = after_end (snd (before c)) (snd (after c)) cs stop"
    by (simp add: after_end_def)
  with IH hd show ?case
    by (simp add: out_sides_simps sum_sides prefix_sides_def length_side_lines_pair)
qed

lemma walk_change:
  assumes "hw_at w = (fst (before c), fst (after c))" "fst (before c) \<le> snd (before c)" "fst (after c) \<le> snd (after c)"
    and "snd (before c) \<le> length bl" "snd (after c) \<le> length al" "length bl \<le> u32_max" "length al \<le> u32_max"
    and "fst (before c) < snd (before c) \<or> fst (after c) < snd (after c)"
    and "hw_changed w + ((snd (before c) - fst (before c)) + (snd (after c) - fst (after c))) \<le> u32_max"
  shows "foldl walk_side w (sides (CHR ''-'') (side_lines bl (before c)) @ sides (CHR ''+'') (side_lines al (after c))) =
    \<lparr>hw_at = (snd (before c), snd (after c)),
     hw_first = Some (case hw_first w of None \<Rightarrow> (fst (before c), fst (after c)) | Some f \<Rightarrow> f),
     hw_last = Some (snd (before c), snd (after c)),
     hw_changed = hw_changed w + ((snd (before c) - fst (before c)) + (snd (after c) - fst (after c)))\<rparr>"
proof -
  let ?nb = "snd (before c) - fst (before c)" and ?na = "snd (after c) - fst (after c)"
  let ?w = "changed_by w ?nb 0"
  have "foldl walk_side w (sides (CHR ''-'') (side_lines bl (before c))) = ?w"
    using walk_removed [of w "side_lines bl (before c)"] assms by (simp add: length_side_lines_pair)
  moreover have "hw_at ?w = (snd (before c), fst (after c))" "hw_changed ?w = hw_changed w + ?nb"
    using assms(1,2) by (simp_all add: changed_by_def prod_eq_iff)
  then have "foldl walk_side ?w (sides (CHR ''+'') (side_lines al (after c))) = changed_by ?w 0 ?na"
    using walk_added [of ?w "side_lines al (after c)"] assms(2-7,9)
    by (simp add: length_side_lines_pair)
  moreover have "changed_by ?w 0 ?na =
    \<lparr>hw_at = (snd (before c), snd (after c)),
     hw_first = Some (case hw_first w of None \<Rightarrow> (fst (before c), fst (after c)) | Some f \<Rightarrow> f),
     hw_last = Some (snd (before c), snd (after c)), hw_changed = hw_changed w + (?nb + ?na)\<rparr>"
    using assms(1-3,8) by (auto simp: changed_by_def split: option.splits)
  ultimately show ?thesis by simp
qed

lemma walk_changes:
  "\<lbrakk>script_from i j bl al (cs @ rest); (if cs = [] then i else snd (before (last cs))) \<le> stop; stop \<le> limit bl rest;
    length bl \<le> u32_max; length al \<le> u32_max; hw_at w = (i, j); hw_changed w + changed_count cs \<le> u32_max\<rbrakk> \<Longrightarrow>
     hw_first (foldl walk_side w (out_sides bl al i cs stop)) =
       (if cs = [] then hw_first w
        else Some (case hw_first w of None \<Rightarrow> (fst (before (hd cs)), fst (after (hd cs))) | Some f \<Rightarrow> f)) \<and>
     hw_last (foldl walk_side w (out_sides bl al i cs stop)) =
       (if cs = [] then hw_last w else Some (snd (before (last cs)), snd (after (last cs)))) \<and>
     hw_changed (foldl walk_side w (out_sides bl al i cs stop)) = hw_changed w + changed_count cs"
proof (induction cs arbitrary: i j w)
  case Nil
  then obtain k where k: "stop = i + k" by (auto simp: le_iff_add)
  with Nil have "script_from stop (j + k) bl al rest"
    using script_from_advance [of i j bl al rest k] by (simp add: limit_def)
  from script_from_bounds [OF this] have "stop \<le> length bl" "j + k \<le> length al" by auto
  with Nil k have "foldl walk_side w (sides (CHR '' '') (side_lines bl (i, stop))) = walked w k k"
    using walk_context [of w "side_lines bl (i, stop)"] by simp
  then show ?case by (simp add: out_sides_simps walked_def)
next
  case (Cons c cs)
  from Cons.prems(1) have sc: "script_from i j bl al (c # cs @ rest)" by simp
  then have hd: "i \<le> fst (before c)" "fst (before c) \<le> snd (before c)" "snd (before c) \<le> length bl"
    "fst (after c) \<le> snd (after c)" "snd (after c) \<le> length al" "fst (before c) + j = fst (after c) + i" "j \<le> fst (after c)"
    "fst (before c) < snd (before c) \<or> fst (after c) < snd (after c)"
    and tail: "script_from (snd (before c)) (snd (after c)) bl al (cs @ rest)" by simp_all
  obtain k where k: "fst (before c) = i + k" "fst (after c) = j + k" using hd by (auto simp: le_iff_add)
  let ?w1 = "walked w k k"
  define W where "W = \<lparr>hw_at = (snd (before c), snd (after c)),
     hw_first = Some (case hw_first w of None \<Rightarrow> (fst (before c), fst (after c)) | Some f \<Rightarrow> f),
     hw_last = Some (snd (before c), snd (after c)),
     hw_changed = hw_changed w + ((snd (before c) - fst (before c)) + (snd (after c) - fst (after c)))\<rparr>"
  have w1: "foldl walk_side w (sides (CHR '' '') (side_lines bl (i, fst (before c)))) = ?w1"
    using walk_context [of w "side_lines bl (i, fst (before c))"] hd(2-5) k Cons.prems(4-6) by simp
  have at: "hw_at ?w1 = (fst (before c), fst (after c))" using k Cons.prems(6) by (simp add: walked_def)
  have "foldl walk_side ?w1 (sides (CHR ''-'') (side_lines bl (before c)) @ sides (CHR ''+'') (side_lines al (after c))) = W"
    using walk_change [OF at hd(2,4,3,5) Cons.prems(4,5) hd(8)] Cons.prems(7) by (simp add: walked_def W_def)
  with w1 have fold: "foldl walk_side w (out_sides bl al i (c # cs) stop) =
      foldl walk_side W (out_sides bl al (snd (before c)) cs stop)"
    by (simp add: out_sides_simps)
  have "(if cs = [] then snd (before c) else snd (before (last cs))) \<le> stop"
    using Cons.prems(2) by (auto split: if_splits)
  note IH = Cons.IH [OF tail this Cons.prems(3-5), of W]
  have W: "hw_at W = (snd (before c), snd (after c))"
    "hw_first W = Some (case hw_first w of None \<Rightarrow> (fst (before c), fst (after c)) | Some f \<Rightarrow> f)"
    "hw_last W = Some (snd (before c), snd (after c))"
    "hw_changed W = hw_changed w + ((snd (before c) - fst (before c)) + (snd (after c) - fst (after c)))"
    by (simp_all add: W_def)
  have "hw_changed W + changed_count cs \<le> u32_max" using Cons.prems(7) W(4) by simp
  note IH = IH [OF W(1) this]
  show ?case unfolding fold using IH W(2-4) by (cases "cs = []"; cases "hw_first w") simp_all
qed

section \<open>Every hunk of a written diff\<close>

lemma parse_range_header:
  assumes "s + n \<le> u32_max"
  shows "parse_range (header_range s n) = Some (if n = 0 then s else s + 1, n)"
proof -
  have comma: "CHR '','' \<notin> set (show_nat m)" for m by (rule show_nat_no) simp
  consider "n = 0" | "n = 1" | "1 < n" by linarith
  then show ?thesis
  proof cases
    case 1
    have "parse_u32 ''0'' = Some 0" by (simp add: parse_u32_def is_digit_def digits_value_def u32_max_def)
    then show ?thesis using 1 assms split_once_append [OF comma, of "[]" s "''0''"]
      by (simp add: header_range_def parse_range_def parse_u32_show_nat)
  next
    case 2
    then show ?thesis using assms split_once_None [OF comma, of "[]" "s + 1"]
      by (simp add: header_range_def parse_range_def parse_u32_show_nat)
  next
    case 3
    then show ?thesis using assms split_once_append [OF comma, of "[]" "s + 1" "show_nat n"]
      by (simp add: header_range_def parse_range_def parse_u32_show_nat)
  qed
qed

definition written_hunk :: "nat \<Rightarrow> nat \<Rightarrow> nat \<Rightarrow> nat \<Rightarrow> active_hunk" where
  "written_hunk s n s' n' =
     \<lparr>ah_old_start = (if n = 0 then s else s + 1), ah_old_count = n,
      ah_new_start = (if n' = 0 then s' else s' + 1), ah_new_count = n', ah_old_seen = 0, ah_new_seen = 0\<rparr>"

lemma hunk_parse_header:
  assumes "s + (e - s) \<le> u32_max" "s' + (e' - s') \<le> u32_max"
  shows "hunk_parse (hunk_header_line s e s' e') = Some (written_hunk s (e - s) s' (e' - s'))"
proof -
  let ?old = "header_range s (e - s)" and ?new = "header_range s' (e' - s')"
  let ?line = "?old @ '' +'' @ ?new @ '' @@''"
  have space: "CHR '' '' \<notin> set ?old" "CHR '' '' \<notin> set ?new" using header_range_no by simp_all
  have "strip_prefix ''@@ -'' (hunk_header_line s e s' e') = Some ?line"
    unfolding hunk_header_line_def by (rule strip_prefix_append)
  moreover have "split_once '' +'' ?line = Some (?old, ?new @ '' @@'')"
    using split_once_append [OF space(1), of "''+''"] by simp
  moreover have "split_once '' @@'' (?new @ '' @@'') = Some (?new, [])"
    using split_once_append [OF space(2), of "''@@''" "[]"] by simp
  ultimately show ?thesis
    using parse_range_header [OF assms(1)] parse_range_header [OF assms(2)]
    by (simp add: hunk_parse_def written_hunk_def)
qed

lemma trim_header [simp]: "trim_last cr (hunk_header_line s e s' e') = hunk_header_line s e s' e'"
proof -
  have "last (hunk_header_line s e s' e') = CHR ''@''" by (simp add: hunk_header_line_def)
  then show ?thesis by (simp add: trim_last_def strip_last_def cr_def)
qed

lemma header_not_file: "\<not> starts_with ''diff --git '' (hunk_header_line s e s' e')"
  by (simp add: starts_with_def hunk_header_line_def)

definition group_hunk :: "change list \<Rightarrow> open_hunk" where
  "group_hunk g = \<lparr>oh_span = group_span g, oh_since_review = False, oh_changed_lines = changed_count g\<rparr>"

lemma first_line_written:
  assumes "s + n \<le> u32_max" shows "first_line (if n = 0 then s else s + 1) n = s"
  using assms u32_sub_exact [of 1 "s + 1"] by (simp add: first_line_def)

text \<open>The rows of one written hunk give one open hunk: from its first change to its last.\<close>

lemma rows_hunk_written:
  assumes sc: "script_from (hunk_start g) (hunk_after_start g) bl al (g @ rest)" and "g \<noteq> []"
    and "snd (before (last g)) \<le> hunk_stop bl g" "hunk_stop bl g \<le> limit bl rest"
    and "length bl \<le> u32_max" "length al \<le> u32_max" "changed_count g \<le> u32_max"
    and "hunk_start g \<le> hunk_stop bl g" "hunk_stop bl g \<le> length bl"
    and "hunk_after_start g \<le> hunk_after_stop bl g" "hunk_after_stop bl g \<le> length al"
    and "map row_sides rows = out_sides bl al (hunk_start g) g (hunk_stop bl g)"
  shows "rows_hunk (hunk_header (written_hunk (hunk_start g) (hunk_stop bl g - hunk_start g)
      (hunk_after_start g) (hunk_after_stop bl g - hunk_after_start g))) rows = [group_hunk g]"
proof -
  let ?n = "hunk_stop bl g - hunk_start g" and ?n' = "hunk_after_stop bl g - hunk_after_start g"
  let ?w = "\<lparr>hw_at = (hunk_start g, hunk_after_start g), hw_first = None, hw_last = None, hw_changed = 0\<rparr>"
  have "hunk_start g + ?n \<le> u32_max" "hunk_after_start g + ?n' \<le> u32_max" using assms(5,6,8-11) by linarith+
  note lines = first_line_written [OF this(1)] first_line_written [OF this(2)]
  have w: "walk_start (hunk_header (written_hunk (hunk_start g) ?n (hunk_after_start g) ?n')) = Some ?w"
    unfolding walk_start_def hunk_header_def written_hunk_def
    by (simp only: active_hunk.select_convs diff_row.case lines)
  let ?w' = "foldl walk_side ?w (out_sides bl al (hunk_start g) g (hunk_stop bl g))"
  have "hw_first ?w' = Some (fst (before (hd g)), fst (after (hd g)))"
    "hw_last ?w' = Some (snd (before (last g)), snd (after (last g)))" "hw_changed ?w' = changed_count g"
    using walk_changes [OF sc _ assms(4-6), of ?w] assms(2,3,7) by simp_all
  then show ?thesis
    by (simp add: rows_hunk_def w foldl_walk_push assms(12) walk_finish_def group_hunk_def group_span_def)
qed

definition hunk_complete :: "active_hunk option \<Rightarrow> bool" where
  "hunk_complete h \<longleftrightarrow> (case h of None \<Rightarrow> True | Some h \<Rightarrow> is_complete h)"

lemma finish_complete:
  "hunk_complete h \<Longrightarrow> finish_hunk \<lparr>dp_rows = [], dp_hunk = h\<rparr> = \<lparr>dp_rows = [], dp_hunk = None\<rparr>"
  by (auto simp: hunk_complete_def finish_hunk_def split: option.splits)

lemma rows_from_header:
  assumes "hunk_complete h" "s + (e - s) \<le> u32_max" "s' + (e' - s') \<le> u32_max"
  shows "rows_from mode h (hunk_header_line s e s' e' # ls) =
    hunk_header (written_hunk s (e - s) s' (e' - s')) # rows_from mode (Some (written_hunk s (e - s) s' (e' - s'))) ls"
  using finish_complete [OF assms(1)] hunk_parse_header [OF assms(2,3)] header_not_file
  by (simp add: parser_push_def)

lemma hunk_line_changes: "l \<in> set (out_changes bl al pos cs stop) \<Longrightarrow> hunk_line (trim_last cr l)"
proof (induction cs arbitrary: pos)
  case Nil
  then show ?case using hunk_line_out [of "CHR '' ''"] by simp
next
  case (Cons c cs)
  then consider "l \<in> set (concat (map (out_lines (CHR '' '')) (side_lines bl (pos, fst (before c)))))"
    | "l \<in> set (concat (map (out_lines (CHR ''-'')) (side_lines bl (before c))))"
    | "l \<in> set (concat (map (out_lines (CHR ''+'')) (side_lines al (after c))))"
    | "l \<in> set (out_changes bl al (snd (before c)) cs stop)"
    unfolding out_changes.simps set_append by blast
  then show ?case using hunk_line_out Cons.IH by cases blast+
qed

text \<open>What a written hunk parses to.\<close>

lemma rows_from_hunk:
  assumes sc: "script_from i j bl al (g @ rest)" and "g \<noteq> []" "i \<le> hunk_start g"
    and "hunk_stop bl g \<le> limit bl rest" "length bl \<le> u32_max" "length al \<le> u32_max"
    and "changed_count g \<le> u32_max" "length (out_hunk bl al g) \<le> u32_max" "hunk_complete h"
  shows "\<exists>hd rows h' j'. rows_from HistoricalDiffRows h (map (trim_last cr) (out_hunk bl al g) @ ls) =
      hd # rows @ rows_from HistoricalDiffRows h' ls \<and> hunk_complete h' \<and>
      script_from (hunk_stop bl g) j' bl al rest \<and> walk_start hd \<noteq> None \<and> \<not> is_notice hd \<and>
      (\<forall>r \<in> set rows. walk_start r = None \<and> \<not> is_notice r) \<and> rows_hunk hd rows = [group_hunk g]"
proof -
  let ?s = "hunk_start g" and ?e = "hunk_stop bl g" and ?s' = "hunk_after_start g" and ?e' = "hunk_after_stop bl g"
  obtain c cs where g: "g = c # cs" using assms(2) by (meson neq_Nil_conv)
  with sc have hd: "i \<le> fst (before c)" "fst (before c) + j = fst (after c) + i" "j \<le> fst (after c)" by simp_all
  have start: "?s \<le> fst (before c)" by (simp add: hunk_start_def g)
  obtain k where k: "?s = i + k" using assms(3) by (auto simp: le_iff_add)
  have as: "?s' = j + k" using hd k start by (simp add: hunk_after_start_def g)
  have lim: "i + k \<le> (case g @ rest of [] \<Rightarrow> length bl | c # _ \<Rightarrow> fst (before c))" using start k g by simp
  from script_from_advance [OF sc lim] have sc': "script_from ?s ?s' bl al (g @ rest)" by (simp add: k as)
  from script_from_append [OF sc' assms(2)]
  have tail: "script_from (snd (before (last g))) (snd (after (last g))) bl al rest"
    and starts: "?s \<le> snd (before (last g))" "?s' \<le> snd (after (last g))"
    using script_from_fst_le [OF sc', of "last g"] assms(2) by (auto intro: order_trans)
  have last_le: "snd (before (last g)) \<le> ?e"
    using script_from_bounds [OF tail] assms(5) by (simp add: hunk_stop_def lines_len_def)
  then obtain m where m: "?e = snd (before (last g)) + m" by (auto simp: le_iff_add)
  with assms(4) have rest: "script_from ?e ?e' bl al rest"
    using script_from_advance [OF tail, of m] by (simp add: limit_def hunk_after_stop_def)
  note bounds = script_from_bounds [OF rest] script_from_bounds [OF sc']
  have le: "?s \<le> ?e" "?s' \<le> ?e'" using starts last_le by (auto simp: hunk_after_stop_def)
  have u32: "?s + (?e - ?s) \<le> u32_max" "?s' + (?e' - ?s') \<le> u32_max" using le bounds assms(5,6) by linarith+
  let ?h = "written_hunk ?s (?e - ?s) ?s' (?e' - ?s')"
  let ?ls = "map (trim_last cr) (out_changes bl al ?s g ?e)"
  obtain rows where rows: "rows_from HistoricalDiffRows (Some ?h) (?ls @ ls) =
      rows @ rows_from HistoricalDiffRows
        (Some (seen_more (sum_old (map line_sides ?ls)) (sum_new (map line_sides ?ls)) ?h)) ls"
    "map row_sides rows = map line_sides ?ls" "\<forall>r \<in> set rows. walk_start r = None \<and> \<not> is_notice r"
    using rows_from_hunk_lines [of ?ls ?h ls] hunk_line_changes assms(8)
    by (auto simp: written_hunk_def out_hunk_def)
  have sides: "map line_sides ?ls = out_sides bl al ?s g ?e" by (simp add: out_sides_def)
  have "?s + sum_old (map line_sides ?ls) = ?e" "?s' + sum_new (map line_sides ?ls) = ?e'"
    using out_sides_sums [OF sc', of ?e] last_le bounds assms(2) unfolding sides
    by (simp_all add: after_end_def hunk_after_stop_def)
  then have "hunk_complete (Some (seen_more (sum_old (map line_sides ?ls)) (sum_new (map line_sides ?ls)) ?h))"
    by (simp add: hunk_complete_def is_complete_def written_hunk_def) linarith
  moreover have "rows_hunk (hunk_header ?h) rows = [group_hunk g]"
    using rows_hunk_written [OF sc' assms(2) last_le assms(4-7) le(1) _ le(2)] bounds rows(2) sides by simp
  moreover have "rows_from HistoricalDiffRows h (map (trim_last cr) (out_hunk bl al g) @ ls) =
      hunk_header ?h # rows_from HistoricalDiffRows (Some ?h) (?ls @ ls)"
    using rows_from_header [OF assms(9) u32] by (simp add: out_hunk_def)
  moreover have "walk_start (hunk_header ?h) \<noteq> None" "\<not> is_notice (hunk_header ?h)"
    by (simp_all add: hunk_header_def walk_start_def is_notice_def)
  ultimately show ?thesis using rows rest by metis
qed

lemma length_out_side: "length ls \<le> length (concat (map (out_lines p) ls))"
  by (induction ls) (auto simp: out_lines_def)

lemma changed_count_le:
  "script_from i j bl al (cs @ rest) \<Longrightarrow> changed_count cs \<le> length (out_changes bl al pos cs stop)"
proof (induction cs arbitrary: i j pos)
  case (Cons c cs)
  then have "fst (before c) \<le> snd (before c)" "snd (before c) \<le> length bl" "fst (after c) \<le> snd (after c)"
    "snd (after c) \<le> length al" and tail: "script_from (snd (before c)) (snd (after c)) bl al (cs @ rest)" by simp_all
  then have "length (side_lines bl (before c)) = snd (before c) - fst (before c)"
    "length (side_lines al (after c)) = snd (after c) - fst (after c)" by (simp_all add: length_side_lines_pair)
  with Cons.IH [OF tail, of "snd (before c)"] length_out_side [of "side_lines bl (before c)" "CHR ''-''"]
    length_out_side [of "side_lines al (after c)" "CHR ''+''"]
  show ?case by (simp del: length_concat)
qed simp

definition sections_ok :: "(diff_row \<times> diff_row list) list \<Rightarrow> bool" where
  "sections_ok hs \<longleftrightarrow> (\<forall>(h, rows) \<in> set hs. walk_start h \<noteq> None \<and> \<not> is_notice h \<and>
     (\<forall>r \<in> set rows. walk_start r = None \<and> \<not> is_notice r))"

lemma parse_groups:
  "\<lbrakk>script_from i j bl al (concat gs); \<forall>h \<in> set gs. h \<noteq> [];
    separated (\<lambda>p n. fst (before n) - snd (before p) \<le> 2 * CONTEXT) gs; gs \<noteq> [] \<longrightarrow> i \<le> hunk_start (hd gs);
    length bl \<le> u32_max; length al \<le> u32_max; length (concat (map (out_hunk bl al) gs)) \<le> u32_max; hunk_complete h\<rbrakk> \<Longrightarrow>
     \<exists>hs. rows_from HistoricalDiffRows h (map (trim_last cr) (concat (map (out_hunk bl al) gs))) =
         concat (map (\<lambda>(h, rows). h # rows) hs) \<and>
       sections_ok hs \<and> concat (map (\<lambda>(h, rows). rows_hunk h rows) hs) = map group_hunk gs"
proof (induction gs arbitrary: i j h)
  case Nil
  then show ?case by (intro exI [of _ "[]"]) (simp add: finish_complete sections_ok_def)
next
  case (Cons g gs)
  have sc: "script_from i j bl al (g @ concat gs)" using Cons.prems(1) by simp
  note stop = hunk_stop_limit [OF sc Cons.prems(2,3,5)]
  have len: "length (out_hunk bl al g) \<le> u32_max" "length (concat (map (out_hunk bl al) gs)) \<le> u32_max"
    using Cons.prems(7) by simp_all
  have cc: "changed_count g \<le> u32_max"
    using changed_count_le [OF sc, of "hunk_start g" "hunk_stop bl g"] len(1) by (simp add: out_hunk_def)
  obtain hd rows h' j' where run: "rows_from HistoricalDiffRows h
        (map (trim_last cr) (out_hunk bl al g) @ map (trim_last cr) (concat (map (out_hunk bl al) gs))) =
      hd # rows @ rows_from HistoricalDiffRows h' (map (trim_last cr) (concat (map (out_hunk bl al) gs)))"
    and h': "hunk_complete h'" and rest: "script_from (hunk_stop bl g) j' bl al (concat gs)"
    and ok: "walk_start hd \<noteq> None" "\<not> is_notice hd" "\<forall>r \<in> set rows. walk_start r = None \<and> \<not> is_notice r"
      "rows_hunk hd rows = [group_hunk g]"
    using rows_from_hunk [OF sc _ _ stop [THEN conjunct1] Cons.prems(5,6) cc len(1) Cons.prems(8)]
      Cons.prems(2,4) by (metis list.sel(1) list.set_intros(1) list.distinct(1))
  have sep: "separated (\<lambda>p n. fst (before n) - snd (before p) \<le> 2 * CONTEXT) gs"
    using Cons.prems(3) by (cases gs) auto
  have ne: "\<forall>h \<in> set gs. h \<noteq> []" using Cons.prems(2) by simp
  from Cons.IH [OF rest ne sep stop [THEN conjunct2] Cons.prems(5,6) len(2) h'] obtain hs where
    "rows_from HistoricalDiffRows h' (map (trim_last cr) (concat (map (out_hunk bl al) gs))) =
      concat (map (\<lambda>(h, rows). h # rows) hs)" "sections_ok hs"
    "concat (map (\<lambda>(h, rows). rows_hunk h rows) hs) = map group_hunk gs"
    by blast
  with run ok show ?case by (intro exI [of _ "(hd, rows) # hs"]) (auto simp: sections_ok_def)
qed

lemma str_lines_unlines: "\<forall>l \<in> set ls. nl \<notin> set l \<Longrightarrow> str_lines (unlines ls) = map (trim_last cr) ls"
proof -
  assume *: "\<forall>l \<in> set ls. nl \<notin> set l"
  then have "split_inclusive (unlines ls) = map (\<lambda>l. l @ [nl]) ls"
    by (induction ls) (simp_all add: split_inclusive_line)
  then show ?thesis by (simp add: str_lines_def)
qed

lemma length_unlines: "length ls \<le> length (unlines ls)"
  by (induction ls) auto

lemma trim_cr_tail: "\<exists>t. trim_last cr (xs @ CHR ''/'' # ys) = xs @ t"
proof (cases "ys = []")
  case True
  then show ?thesis by (auto simp: trim_last_def strip_last_def cr_def)
next
  case False
  then show ?thesis by (auto simp: trim_last_def strip_last_def butlast_append)
qed

lemma header_rows:
  "\<exists>pre. rows_from mode None (map (trim_last cr) (out_header path) @ ls) = pre @ rows_from mode None ls \<and>
     (\<forall>r \<in> set pre. walk_start r = None \<and> \<not> is_notice r)"
proof -
  obtain t where t: "trim_last cr (''diff --git a/'' @ path @ '' b/'' @ path) = ''diff --git a'' @ t"
    using trim_cr_tail [of "''diff --git a''"] by force
  obtain u where u: "trim_last cr (''--- a/'' @ path) = ''--- a'' @ u" using trim_cr_tail [of "''--- a''"] by force
  obtain v where v: "trim_last cr (''+++ b/'' @ path) = ''+++ b'' @ v" using trim_cr_tail [of "''+++ b''"] by force
  have "rows_from mode None (map (trim_last cr) (out_header path) @ ls) =
    [FileHeader None None (''diff --git a'' @ t), Meta (''--- a'' @ u), Meta (''+++ b'' @ v)] @ rows_from mode None ls"
    unfolding out_header_def list.map t u v
    by (simp add: parser_push_def finish_hunk_def starts_with_def hunk_parse_def metadata_def
        is_metadata_def PREFIXES_def)
  then show ?thesis by (intro exI conjI) (assumption, auto simp: walk_start_def is_notice_def)
qed

lemma open_hunks_set_paths: "open_hunks (map (set_paths f) rows) = open_hunks rows"
proof -
  have row: "is_notice (set_paths f r) = is_notice r" "walk_start (set_paths f r) = walk_start r"
    "row_sides (set_paths f r) = row_sides r" for r
    by (cases r; simp add: set_paths_def is_notice_def walk_start_def row_sides_def)+
  then have "walk_push w (set_paths f r) = walk_push w r" for w r by (simp add: walk_push_side)
  with row have "open_step st (set_paths f r) = open_step st r" for st r
    by (cases st; cases "walk_start r") (simp_all add: open_step_def)
  then have "foldl open_step st (map (set_paths f) rows) = foldl open_step st rows" for st
    by (induction rows arbitrary: st) simp_all
  then show ?thesis by (simp add: open_hunks_def list_ex_iff row)
qed

definition text_file :: "changed_file \<Rightarrow> bool" where
  "text_file f \<longleftrightarrow> old_kind f \<in> {Absent, File} \<and> new_kind f \<in> {Absent, File}"

lemma open_diff_hunks:
  assumes "line_diff D" "length (lines_new old) \<le> u32_max" "length (lines_new new) \<le> u32_max" "nl \<notin> set path"
    and valid: "utf8_valid (unified_diff D path old new)"
    and short: "\<forall>l \<in> set (split_nl (unified_diff D path old new)). length l \<le> MAX_LINE_BYTES"
    and size: "length (unified_diff D path old new) \<le> u32_max"
    and "text_file f"
  shows "open_hunks (parse_file_diff (unified_diff D path old new) f) = map group_hunk (hunk_groups (D old new))"
proof -
  let ?bl = "lines_new old" and ?al = "lines_new new" and ?cs = "D old new"
  let ?gs = "hunk_groups ?cs" and ?diff = "unified_diff D path old new"
  have "parse_diff ?diff HistoricalDiffRows = rows_from HistoricalDiffRows None (str_lines ?diff)"
    using valid short by (auto simp: parse_diff_rows_from list_ex_iff not_less [symmetric])
  then have parse: "open_hunks (parse_file_diff ?diff f) =
      open_hunks (rows_from HistoricalDiffRows None (str_lines ?diff))"
    using assms(8) by (auto simp: parse_file_diff_def text_file_def Let_def open_hunks_set_paths)
  show ?thesis
  proof (cases "?cs = []")
    case True
    then have "?diff = []" by (simp add: unified_diff_def)
    with True parse show ?thesis
      by (simp add: str_lines_def finish_hunk_def open_hunks_def hunk_groups_def)
  next
    case False
    let ?ls = "out_header path @ concat (map (out_hunk ?bl ?al) ?gs)"
    have "nl \<notin> set l" if "l \<in> set ?ls" for l
      using that assms(4) out_groups_no_nl [of ?bl ?al l ?gs] by (auto simp: out_header_def nl_def)
    then have "str_lines (unlines ?ls) = map (trim_last cr) ?ls" by (intro str_lines_unlines ballI)
    then have lines: "str_lines ?diff = map (trim_last cr) ?ls"
      by (simp only: unified_diff_lines [of D old new, OF False])
    have "length (unlines ?ls) \<le> u32_max" using size by (simp only: unified_diff_lines [of D old new, OF False])
    then have len: "length (concat (map (out_hunk ?bl ?al) ?gs)) \<le> u32_max"
      using length_unlines [of ?ls] by simp
    have "script_from 0 0 ?bl ?al (concat ?gs)" using line_diff_script [OF assms(1)] by (simp add: edit_script_def)
    then obtain hs where hs: "rows_from HistoricalDiffRows None (map (trim_last cr) (concat (map (out_hunk ?bl ?al) ?gs))) =
        concat (map (\<lambda>(h, rows). h # rows) hs)" "sections_ok hs"
      "concat (map (\<lambda>(h, rows). rows_hunk h rows) hs) = map group_hunk ?gs"
      using parse_groups [of 0 0 ?bl ?al ?gs None] hunk_groups_no_Nil [of _ ?cs] assms(2,3) len
        separated_chunk_by [of "\<lambda>p n. fst (before n) - snd (before p) \<le> 2 * CONTEXT" ?cs]
      by (auto simp: hunk_groups_def hunk_complete_def)
    obtain pre where pre: "rows_from HistoricalDiffRows None (str_lines ?diff) =
        pre @ concat (map (\<lambda>(h, rows). h # rows) hs)" "\<forall>r \<in> set pre. walk_start r = None \<and> \<not> is_notice r"
      using header_rows [of HistoricalDiffRows path "map (trim_last cr) (concat (map (out_hunk ?bl ?al) ?gs))"] hs(1)
      unfolding lines map_append by auto
    have no_notice: "\<not> list_ex is_notice (pre @ concat (map (\<lambda>(h, rows). h # rows) hs))"
      using pre(2) hs(2) by (fastforce simp: list_ex_iff sections_ok_def)
    have outside: "\<forall>r \<in> set pre. walk_start r = None" using pre(2) by blast
    have sections: "\<forall>(h, rows) \<in> set hs. walk_start h \<noteq> None \<and> (\<forall>r \<in> set rows. walk_start r = None)"
      using hs(2) by (auto simp: sections_ok_def)
    show ?thesis
      using open_hunks_sections [OF outside sections no_notice] pre(1) hs(3) parse by (simp only:)
  qed
qed

end
