(* ===== verification/Samples.thy ===== *)
theory Samples
  imports OpenDiff LineMarks Classify
begin

text \<open>
  Three small versions of one file, on which the properties are applied: the base, a reviewed version
  that replaces its first line, and a current file that replaces the second one too; and the
  versions of a file where a reviewed line follows a line the current file deleted.
\<close>

definition v_base :: bytes where "v_base = [CHR ''a'', CHR 0x0A, CHR ''x'', CHR 0x0A]"
definition v_reviewed :: bytes where "v_reviewed = [CHR ''b'', CHR 0x0A, CHR ''x'', CHR 0x0A]"
definition v_current :: bytes where "v_current = [CHR ''b'', CHR 0x0A, CHR ''y'', CHR 0x0A]"

definition v_appended :: bytes where
  "v_appended = [CHR ''a'', CHR 0x0A, CHR ''x'', CHR 0x0A, CHR ''n'', CHR 0x0A]"
definition v_shortened :: bytes where "v_shortened = [CHR ''a'', CHR 0x0A, CHR ''n'', CHR 0x0A]"

definition sample :: hunk_review where
  "sample = hunk_review_new v_base v_reviewed v_current"

definition stuck_sample :: hunk_review where
  "stuck_sample = hunk_review_new v_base v_appended v_shortened"

lemma nl_char: "nl = CHR 0x0A"
  by (simp add: nl_def)

lemma sample_lines [simp]:
  "lines_new v_base = [[CHR ''a'', nl], [CHR ''x'', nl]]"
  "lines_new v_reviewed = [[CHR ''b'', nl], [CHR ''x'', nl]]"
  "lines_new v_current = [[CHR ''b'', nl], [CHR ''y'', nl]]"
  "lines_new v_appended = [[CHR ''a'', nl], [CHR ''x'', nl], [CHR ''n'', nl]]"
  "lines_new v_shortened = [[CHR ''a'', nl], [CHR ''n'', nl]]"
  by (simp_all add: lines_new_def nl_char v_base_def v_reviewed_def v_current_def v_appended_def v_shortened_def)

lemma sample_diffs [simp]:
  "trim_diff v_base v_reviewed = [\<lparr>before = (0, 1), after = (0, 1)\<rparr>]"
  "trim_diff v_reviewed v_current = [\<lparr>before = (1, 2), after = (1, 2)\<rparr>]"
  "trim_diff v_base v_current = [\<lparr>before = (0, 2), after = (0, 2)\<rparr>]"
  "trim_diff v_base v_appended = [\<lparr>before = (2, 2), after = (2, 3)\<rparr>]"
  "trim_diff v_appended v_shortened = [\<lparr>before = (1, 2), after = (1, 1)\<rparr>]"
  by (simp_all add: trim_diff_def trim_lines_def nl_char Let_def)

lemma sample_simps [simp]:
  "hr_base sample = v_base" "hr_reviewed sample = v_reviewed" "hr_current sample = v_current"
  "hr_attribution sample = uniform Reviewer"
  "hr_base stuck_sample = v_base" "hr_reviewed stuck_sample = v_appended" "hr_current stuck_sample = v_shortened"
  by (simp_all add: sample_def stuck_sample_def hunk_review_new_def REVIEWER_ONLY_def uniform_def)

lemma sample_distinct [simp]:
  "v_base \<noteq> v_reviewed" "v_base \<noteq> v_current" "v_reviewed \<noteq> v_current" "v_reviewed \<noteq> v_base"
  "v_base \<noteq> v_appended"
  by (simp_all add: v_base_def v_reviewed_def v_current_def v_appended_def)

lemma two_le_max [simp]: "2 \<le> u32_max" "Suc (Suc 0) \<le> u32_max" "Suc (Suc (Suc 0)) \<le> u32_max" "Suc 0 \<le> u32_max"
  by (simp_all add: u32_max_def)

end
