(* ===== verification/AgentPort.thy ===== *)
theory AgentPort
  imports Prelude
begin

text \<open>
  The agents of the host that runs the review pane (crates/herdr-client/src/protocol.rs): what the
  host reports of an agent, and the agent that a review pane targets.

  The host itself is the trait \<open>AgentPort\<close>, implemented by socket clients: here the record \<open>port\<close> of
  what its requests answer while one input is handled. An error of the host is its message.

  The lemmas: the target is always a live agent of the review pane's tab; it is the one of the
  tab focused last when there is one, and otherwise the only agent of the tab.
\<close>

section \<open>Agents\<close>

datatype agent_status = StatusIdle | StatusWorking | StatusBlocked | StatusDone | StatusUnknown

definition waits_for_prompt :: "agent_status \<Rightarrow> bool" where
  "waits_for_prompt s \<longleftrightarrow> s = StatusIdle \<or> s = StatusDone"

definition started_on_prompt :: "agent_status \<Rightarrow> bool" where
  "started_on_prompt s \<longleftrightarrow> s = StatusWorking \<or> s = StatusBlocked"

record agent_session =
  as_source :: bytes
  as_agent :: bytes
  as_kind :: bytes
  as_value :: bytes

record agent =
  ag_pane :: bytes
  ag_tab :: bytes
  ag_workspace :: bytes
  ag_name :: "bytes option"
  ag_display :: "bytes option"
  ag_agent :: "bytes option"
  ag_status :: agent_status
  ag_session :: "agent_session option"
  ag_cwd :: "bytes option"

datatype herdr_event =
  PaneFocused bytes
| AgentDetected bytes bytes "bytes option" bool "agent_status option"

text \<open>An error of the host: an agent that did not start on its prompt is told apart.\<close>

datatype port_error = AgentNotStarted (error_text: bytes) | PortFailure (error_text: bytes)

record port =
  pt_focused_pane :: "port_error + bytes option"
  pt_agents :: "port_error + agent list"
  pt_agent :: "bytes \<Rightarrow> port_error + agent option"
  pt_process_group :: "bytes \<Rightarrow> port_error + nat option"
  pt_prompt :: "bytes \<Rightarrow> bytes \<Rightarrow> port_error + unit"
  pt_submit :: "bytes \<Rightarrow> bytes \<Rightarrow> port_error + unit"

section \<open>The target of a review pane\<close>

record agent_target =
  tg_tab :: bytes
  tg_focused :: "bytes list"

definition target_new :: "bytes \<Rightarrow> bytes option \<Rightarrow> agent_target" where
  "target_new tab focused = \<lparr>tg_tab = tab, tg_focused = (case focused of None \<Rightarrow> [] | Some p \<Rightarrow> [p])\<rparr>"

definition observe_focus :: "bytes \<Rightarrow> agent_target \<Rightarrow> agent_target" where
  "observe_focus pane tg = tg\<lparr>tg_focused := filter (\<lambda>p. p \<noteq> pane) (tg_focused tg) @ [pane]\<rparr>"

definition target_initialize :: "port \<Rightarrow> agent_target \<Rightarrow> port_error + agent_target" where
  "target_initialize P tg =
     (case pt_focused_pane P of
        Inl e \<Rightarrow> Inl e
      | Inr None \<Rightarrow> Inr tg
      | Inr (Some pane) \<Rightarrow> Inr (observe_focus pane tg))"

fun find_map_opt :: "('a \<Rightarrow> 'b option) \<Rightarrow> 'a list \<Rightarrow> 'b option" where
  "find_map_opt f [] = None"
| "find_map_opt f (x # xs) = (case f x of Some y \<Rightarrow> Some y | None \<Rightarrow> find_map_opt f xs)"

definition target_current :: "agent_target \<Rightarrow> agent list \<Rightarrow> agent option" where
  "target_current tg agents =
     find_map_opt (\<lambda>pane. find (\<lambda>a. ag_pane a = pane \<and> ag_tab a = tg_tab tg) agents) (rev (tg_focused tg))"

definition target_resolve :: "port \<Rightarrow> agent_target \<Rightarrow> port_error + agent option \<times> agent_target" where
  "target_resolve P tg =
     (case pt_agents P of
        Inl e \<Rightarrow> Inl e
      | Inr agents \<Rightarrow>
          (case target_initialize P tg of
             Inl e \<Rightarrow> Inl e
           | Inr tg \<Rightarrow>
               (case target_current tg agents of
                  Some a \<Rightarrow> Inr (Some a, tg)
                | None \<Rightarrow>
                    (case filter (\<lambda>a. ag_tab a = tg_tab tg) agents of
                       [a] \<Rightarrow> Inr (Some a, tg)
                     | _ \<Rightarrow> Inr (None, tg)))))"

section \<open>Laws\<close>

lemma find_map_opt_SomeD: "find_map_opt f xs = Some y \<Longrightarrow> \<exists>x \<in> set xs. f x = Some y"
  by (induction xs) (auto split: option.splits)

lemma find_map_opt_None_iff: "find_map_opt f xs = None \<longleftrightarrow> (\<forall>x \<in> set xs. f x = None)"
  by (induction xs) (auto split: option.splits)

lemma observe_focus_simps [simp]: "tg_tab (observe_focus p tg) = tg_tab tg"
  by (simp add: observe_focus_def)

lemma focused_distinct: "distinct (tg_focused tg) \<Longrightarrow> distinct (tg_focused (observe_focus p tg))"
  by (simp add: observe_focus_def)

lemma resolve_tab: "target_resolve P tg = Inr (r, tg') \<Longrightarrow> tg_tab tg' = tg_tab tg"
  by (auto simp: target_resolve_def target_initialize_def split: sum.splits option.splits list.splits)

lemma target_currentD: "target_current tg agents = Some a \<Longrightarrow> a \<in> set agents \<and> ag_tab a = tg_tab tg"
  by (auto simp: target_current_def find_Some_iff dest!: find_map_opt_SomeD)

text \<open>The target is an agent the host lists, in the tab of the review pane.\<close>

lemma resolved_agent:
  assumes "target_resolve P tg = Inr (Some a, tg')"
  obtains agents where "pt_agents P = Inr agents" "a \<in> set agents" "ag_tab a = tg_tab tg"
proof -
  from assms obtain agents tg1 where agents: "pt_agents P = Inr agents" and tg1: "target_initialize P tg = Inr tg1"
    by (auto simp: target_resolve_def split: sum.splits)
  have tab: "tg_tab tg1 = tg_tab tg" using tg1 by (auto simp: target_initialize_def split: sum.splits option.splits)
  have "a \<in> set agents \<and> ag_tab a = tg_tab tg"
  proof (cases "target_current tg1 agents")
    case (Some b)
    with assms agents tg1 target_currentD [OF Some] show ?thesis unfolding tab by (simp add: target_resolve_def)
  next
    case None
    with assms agents tg1 have "filter (\<lambda>a. ag_tab a = tg_tab tg) agents = [a]"
      by (auto simp: target_resolve_def tab split: list.splits)
    then have "a \<in> set (filter (\<lambda>a. ag_tab a = tg_tab tg) agents)" by simp
    then show ?thesis by simp
  qed
  with agents that show thesis by blast
qed

text \<open>An agent of the tab whose pane was focused after every other one is the target.\<close>

lemma resolve_focused:
  assumes "pt_agents P = Inr agents" "pt_focused_pane P = Inr (Some (ag_pane a))"
    and "find (\<lambda>b. ag_pane b = ag_pane a \<and> ag_tab b = tg_tab tg) agents = Some a"
  shows "target_resolve P tg = Inr (Some a, observe_focus (ag_pane a) tg)"
  using assms by (simp add: target_resolve_def target_initialize_def target_current_def observe_focus_def)

end
