(* ===== verification/AgentIdentity.thy ===== *)
theory AgentIdentity
  imports AgentPort ByteText
begin

text \<open>
  Whether a live agent is still the agent session that a grant or a prompt was bound to
  (crates/review-thread-service/src/agent_identity.rs, pinned_agent.rs and access.rs).

  Checking an identity can change it, so \<open>check\<close> returns the new identity. A mutex that a
  panic poisoned is not modelled: no operation that holds one panics.

  The lemmas: what each verdict means; a bound session stays bound to that session, so no other session
  ever matches it; a process group binding is released only where the rules say so.
\<close>

section \<open>Identities\<close>

datatype session_comparison = Exact | IgnoringSource

definition same_session :: "session_comparison \<Rightarrow> agent_session \<Rightarrow> agent_session \<Rightarrow> bool" where
  "same_session c bound current \<longleftrightarrow>
     (case c of
        Exact \<Rightarrow> bound = current
      | IgnoringSource \<Rightarrow>
          as_agent bound = as_agent current \<and> as_kind bound = as_kind current \<and> as_value bound = as_value current)"

datatype process_binding = KeptAfterSession | ReleasedBySession

record identity_rules =
  ir_session :: session_comparison
  ir_process :: process_binding

definition REVIEW_ACCESS :: identity_rules where
  "REVIEW_ACCESS = \<lparr>ir_session = Exact, ir_process = KeptAfterSession\<rparr>"

definition PINNED_AGENT :: identity_rules where
  "PINNED_AGENT = \<lparr>ir_session = IgnoringSource, ir_process = ReleasedBySession\<rparr>"

datatype session_binding = Following "agent_session option" | Unbound | Bound agent_session

datatype identity_change = ChangedAgent | ChangedTab | ChangedProcessGroup | ChangedSession

datatype verdict = SameAgent | SessionMissing | Changed identity_change

datatype identity_error = IdentityPort bytes | ProcessUnidentified

definition into_message :: "bytes \<Rightarrow> identity_error \<Rightarrow> bytes" where
  "into_message process_unidentified e =
     (case e of IdentityPort t \<Rightarrow> t | ProcessUnidentified \<Rightarrow> process_unidentified)"

record agent_identity =
  id_pane :: bytes
  id_tab :: bytes
  id_agent :: "bytes option"
  id_session :: session_binding
  id_process_group :: "nat option"
  id_rules :: identity_rules

definition identity_new :: "agent \<Rightarrow> identity_rules \<Rightarrow> agent_identity" where
  "identity_new a rules =
     \<lparr>id_pane = ag_pane a, id_tab = ag_tab a, id_agent = ag_agent a,
      id_session = (case ag_session a of None \<Rightarrow> Unbound | Some s \<Rightarrow> Bound s),
      id_process_group = None, id_rules = rules\<rparr>"

definition following :: "agent_identity \<Rightarrow> agent_identity" where
  "following i = i\<lparr>id_session := Following
     (case id_session i of Bound s \<Rightarrow> Some s | Following s \<Rightarrow> s | Unbound \<Rightarrow> None)\<rparr>"

definition process_group :: "port \<Rightarrow> bytes \<Rightarrow> identity_error + nat" where
  "process_group P pane =
     (case pt_process_group P pane of
        Inl e \<Rightarrow> Inl (IdentityPort (error_text e))
      | Inr (Some g) \<Rightarrow> if g \<noteq> 0 then Inr g else Inl ProcessUnidentified
      | Inr None \<Rightarrow> Inl ProcessUnidentified)"

definition bind_process_without_session :: "port \<Rightarrow> agent_identity \<Rightarrow> identity_error + agent_identity" where
  "bind_process_without_session P i =
     (if id_session i = Unbound \<or> id_session i = Following None
      then case process_group P (id_pane i) of
        Inl e \<Rightarrow> Inl e
      | Inr g \<Rightarrow> Inr (i\<lparr>id_process_group := Some g\<rparr>)
      else Inr i)"

definition seal :: "agent_identity \<Rightarrow> agent_identity" where
  "seal i =
     (case id_session i of
        Following s \<Rightarrow> i\<lparr>id_session := (case s of None \<Rightarrow> Unbound | Some s \<Rightarrow> Bound s)\<rparr>
      | _ \<Rightarrow> i)"

definition compare_session :: "agent_identity \<Rightarrow> agent_session option \<Rightarrow> verdict" where
  "compare_session i current =
     (case (id_session i, current) of
        (Bound bound, None) \<Rightarrow> SessionMissing
      | (Bound bound, Some current) \<Rightarrow>
          if same_session (ir_session (id_rules i)) bound current then SameAgent else Changed ChangedSession
      | _ \<Rightarrow> SameAgent)"

definition adopt :: "agent_session option \<Rightarrow> agent_identity \<Rightarrow> agent_identity" where
  "adopt current i =
     (let i = (case id_session i of Following _ \<Rightarrow> i\<lparr>id_session := Following current\<rparr> | _ \<Rightarrow> i)
      in case current of
           None \<Rightarrow> i
         | Some s \<Rightarrow>
             (let i = (if id_session i = Unbound then i\<lparr>id_session := Bound s\<rparr> else i)
              in if ir_process (id_rules i) = ReleasedBySession then i\<lparr>id_process_group := None\<rparr> else i))"

definition compare_and_adopt :: "agent \<Rightarrow> agent_identity \<Rightarrow> verdict \<times> agent_identity" where
  "compare_and_adopt a i =
     (let v = compare_session i (ag_session a)
      in (v, if v = SameAgent then adopt (ag_session a) i else i))"

definition check :: "port \<Rightarrow> agent \<Rightarrow> agent_identity \<Rightarrow> identity_error + verdict \<times> agent_identity" where
  "check P a i =
     (if ag_pane a \<noteq> id_pane i \<or> ag_agent a \<noteq> id_agent i then Inr (Changed ChangedAgent, i)
      else if ag_tab a \<noteq> id_tab i then Inr (Changed ChangedTab, i)
      else case id_process_group i of
        None \<Rightarrow> Inr (compare_and_adopt a i)
      | Some g \<Rightarrow>
          (case process_group P (ag_pane a) of
             Inl e \<Rightarrow> Inl e
           | Inr now \<Rightarrow> if now \<noteq> g then Inr (Changed ChangedProcessGroup, i) else Inr (compare_and_adopt a i)))"

section \<open>What a check says and changes\<close>

lemma same_session_refl [simp]: "same_session c s s"
  by (simp add: same_session_def split: session_comparison.splits)

lemma adopt_simps [simp]:
  "id_pane (adopt c i) = id_pane i" "id_tab (adopt c i) = id_tab i" "id_agent (adopt c i) = id_agent i"
  "id_rules (adopt c i) = id_rules i"
  by (simp_all add: adopt_def Let_def split: session_binding.splits option.splits)

lemma adopt_bound: "id_session i = Bound s \<Longrightarrow> id_session (adopt c i) = Bound s"
  by (simp add: adopt_def split: option.splits)

lemma check_InrD:
  assumes "check P a i = Inr (v, i')"
  shows "i' = (if v = SameAgent then adopt (ag_session a) i else i)"
  using assms by (auto simp: check_def compare_and_adopt_def Let_def split: if_splits option.splits sum.splits)

text \<open>A match means: the same pane and implementation, in the same tab, in the process group the identity is
  bound to, with a session that a bound one reads as the same.\<close>

lemma check_same:
  "check P a i = Inr (SameAgent, i') \<Longrightarrow>
     ag_pane a = id_pane i \<and> ag_agent a = id_agent i \<and> ag_tab a = id_tab i \<and>
     (\<forall>g. id_process_group i = Some g \<longrightarrow> process_group P (id_pane i) = Inr g) \<and>
     (\<forall>s. id_session i = Bound s \<longrightarrow>
        (\<exists>c. ag_session a = Some c \<and> same_session (ir_session (id_rules i)) s c))"
  by (auto simp: check_def compare_and_adopt_def compare_session_def Let_def
      split: if_splits option.splits sum.splits session_binding.splits)

lemma check_keeps:
  assumes "check P a i = Inr (v, i')"
  shows "id_pane i' = id_pane i \<and> id_tab i' = id_tab i \<and> id_agent i' = id_agent i \<and> id_rules i' = id_rules i"
  using check_InrD [OF assms] by simp

lemma check_bound:
  assumes "check P a i = Inr (v, i')" "id_session i = Bound s"
  shows "id_session i' = Bound s"
  using check_InrD [OF assms(1)] assms(2) by (simp add: adopt_bound)

text \<open>A missing session never matches a bound one, and a session that does not match is reported only
  of the right agent in the right tab and process.\<close>

lemma check_session_missing:
  "check P a i = Inr (SessionMissing, i') \<Longrightarrow> (\<exists>s. id_session i = Bound s) \<and> ag_session a = None \<and> i' = i"
  by (auto simp: check_def compare_and_adopt_def compare_session_def Let_def
      split: if_splits option.splits sum.splits session_binding.splits)

text \<open>The first session that an unbound identity sees becomes its session.\<close>

lemma check_adopts_first:
  assumes "check P a i = Inr (SameAgent, i')" "id_session i = Unbound"
  shows "id_session i' = (case ag_session a of None \<Rightarrow> Unbound | Some s \<Rightarrow> Bound s)"
  using check_InrD [OF assms(1)] assms(2) by (auto simp: adopt_def Let_def split: option.splits)

lemma check_follows:
  assumes "check P a i = Inr (SameAgent, i')" "id_session i = Following s"
  shows "id_session i' = Following (ag_session a)"
  using check_InrD [OF assms(1)] assms(2) by (auto simp: adopt_def Let_def split: option.splits)

text \<open>Under the rules of review access, the process group stays part of the identity.\<close>

lemma check_process_kept:
  assumes "check P a i = Inr (v, i')" "ir_process (id_rules i) = KeptAfterSession"
  shows "id_process_group i' = id_process_group i"
  using check_InrD [OF assms(1)] assms(2)
  by (auto simp: adopt_def Let_def split: option.splits session_binding.splits)

lemma check_process_released:
  assumes "check P a i = Inr (SameAgent, i')" "ir_process (id_rules i) = ReleasedBySession" "ag_session a = Some s"
  shows "id_process_group i' = None"
  using check_InrD [OF assms(1)] assms(2,3)
  by (auto simp: adopt_def Let_def split: option.splits session_binding.splits)

section \<open>The agent a prompt is pinned to\<close>

record pin =
  pn_agent :: agent
  pn_identity :: agent_identity

definition PROCESS_CHANGED :: bytes where
  "PROCESS_CHANGED = ''The selected agent process changed; retry the interrupted turn''"

definition pin_new :: "agent \<Rightarrow> pin" where
  "pin_new a = \<lparr>pn_agent = a, pn_identity = identity_new a PINNED_AGENT\<rparr>"

definition for_selected_prompt :: "agent \<Rightarrow> pin" where
  "for_selected_prompt a = \<lparr>pn_agent = a, pn_identity = following (identity_new a PINNED_AGENT)\<rparr>"

definition for_retry :: "port \<Rightarrow> agent \<Rightarrow> bytes + pin" where
  "for_retry P a =
     (case bind_process_without_session P (following (identity_new a PINNED_AGENT)) of
        Inl e \<Rightarrow> Inl (into_message ''Waiting for the selected agent process identity'' e)
      | Inr i \<Rightarrow> Inr \<lparr>pn_agent = a, pn_identity = i\<rparr>)"

definition seal_attempt :: "pin \<Rightarrow> pin" where
  "seal_attempt p = p\<lparr>pn_identity := seal (pn_identity p)\<rparr>"

definition pin_current :: "port \<Rightarrow> pin \<Rightarrow> (bytes + agent option) \<times> pin" where
  "pin_current P p =
     (case pt_agent P (ag_pane (pn_agent p)) of
        Inl e \<Rightarrow> (Inl (error_text e), p)
      | Inr None \<Rightarrow> (Inl ''The selected agent is no longer available'', p)
      | Inr (Some current) \<Rightarrow>
          (case check P current (pn_identity p) of
             Inl e \<Rightarrow> (Inl (into_message PROCESS_CHANGED e), p)
           | Inr (v, i) \<Rightarrow>
               (let p = p\<lparr>pn_identity := i\<rparr>
                in case v of
                     SameAgent \<Rightarrow> (Inr (Some current), p\<lparr>pn_agent := current\<rparr>)
                   | SessionMissing \<Rightarrow> (Inr None, p)
                   | Changed ChangedAgent \<Rightarrow>
                       (Inl ''The selected pane is now running a different agent; Reset to start a new round'', p)
                   | Changed ChangedTab \<Rightarrow>
                       (Inl ''The selected agent moved to another tab; Reset to start a new round'', p)
                   | Changed ChangedProcessGroup \<Rightarrow> (Inl PROCESS_CHANGED, p)
                   | Changed ChangedSession \<Rightarrow>
                       (Inl ''The selected pane is now running a different agent conversation; Reset to start a new round'', p))))"

section \<open>Access to a review\<close>

record access =
  ac_token :: bytes
  ac_review_unit :: bytes
  ac_agent :: agent
  ac_identity :: agent_identity

definition access_identity_error :: "identity_error \<Rightarrow> bytes" where
  "access_identity_error = into_message ''Herdr did not identify the selected agent process''"

definition access_new :: "bytes \<Rightarrow> bytes \<Rightarrow> agent \<Rightarrow> port \<Rightarrow> bytes + access" where
  "access_new uuid unit a P =
     (case bind_process_without_session P (identity_new a REVIEW_ACCESS) of
        Inl e \<Rightarrow> Inl (access_identity_error e)
      | Inr i \<Rightarrow> Inr \<lparr>ac_token = uuid, ac_review_unit = unit, ac_agent = a, ac_identity = i\<rparr>)"

definition matches_agent :: "port \<Rightarrow> agent \<Rightarrow> access \<Rightarrow> (bytes + bool) \<times> access" where
  "matches_agent P a ac =
     (case check P a (ac_identity ac) of
        Inl e \<Rightarrow> (Inl (access_identity_error e), ac)
      | Inr (v, i) \<Rightarrow> (Inr (v = SameAgent), ac\<lparr>ac_identity := i\<rparr>))"

definition access_current_agent :: "port \<Rightarrow> access \<Rightarrow> (bytes + agent) \<times> access" where
  "access_current_agent P ac =
     (case pt_agent P (ag_pane (ac_agent ac)) of
        Inl e \<Rightarrow> (Inl (error_text e), ac)
      | Inr None \<Rightarrow> (Inl ''The selected agent has exited'', ac)
      | Inr (Some current) \<Rightarrow>
          (case matches_agent P current ac of
             (Inl e, ac) \<Rightarrow> (Inl e, ac)
           | (Inr False, ac) \<Rightarrow>
               (Inl ''The selected pane has changed agent processes or sessions; retry from the reviewer to receive fresh access'', ac)
           | (Inr True, ac) \<Rightarrow> (Inr current, ac)))"

definition MCP_SERVER :: bytes where
  "MCP_SERVER = ''herdr_reviewer''"

definition access_prompt :: "access \<Rightarrow> bytes" where
  "access_prompt ac =
     ''Review comments for you in review '' @ ac_review_unit ac @ '': call get_new_messages, a tool of the '' @
     MCP_SERVER @ '' MCP server, with review access value `'' @ ac_token ac @
     ''`, and follow the instructions it returns. If the reviewer is closed or the tool is unavailable, say so and stop.'' @ [nl]"

section \<open>One access, one agent session\<close>

text \<open>The identity of an access along a history of live agents it is checked against. A failed check leaves it.\<close>

definition checked :: "port \<times> agent \<Rightarrow> agent_identity \<Rightarrow> agent_identity" where
  "checked pa i = (case check (fst pa) (snd pa) i of Inl _ \<Rightarrow> i | Inr (_, i') \<Rightarrow> i')"

fun matched :: "agent_identity \<Rightarrow> (port \<times> agent) list \<Rightarrow> (port \<times> agent) list" where
  "matched i [] = []"
| "matched i (pa # pas) =
     (case check (fst pa) (snd pa) i of
        Inr (SameAgent, i') \<Rightarrow> pa # matched i' pas
      | _ \<Rightarrow> matched (checked pa i) pas)"

lemma checked_not_same:
  assumes "\<nexists>i'. check (fst pa) (snd pa) i = Inr (SameAgent, i')"
  shows "checked pa i = i"
proof (cases "check (fst pa) (snd pa) i")
  case (Inr vi)
  obtain v i' where vi: "vi = (v, i')" by (cases vi)
  with Inr assms have "v \<noteq> SameAgent" by auto
  with check_InrD [of "fst pa" "snd pa" i v i'] Inr vi show ?thesis by (simp add: checked_def)
qed (simp add: checked_def)

lemma matched_cases:
  "matched i (pa # pas) =
     (if \<exists>i'. check (fst pa) (snd pa) i = Inr (SameAgent, i') then pa # matched (checked pa i) pas else matched i pas)"
  using checked_not_same [of pa i] by (auto simp: checked_def split: sum.splits verdict.splits)

lemma checked_cases:
  obtains "checked pa i = i" | v i' where "check (fst pa) (snd pa) i = Inr (v, i')" "checked pa i = i'"
proof (cases "check (fst pa) (snd pa) i")
  case (Inr vi)
  with that(2) show thesis by (cases vi) (simp add: checked_def)
qed (use that(1) in \<open>simp add: checked_def\<close>)

lemma checked_keeps:
  "id_pane (checked pa i) = id_pane i" "id_tab (checked pa i) = id_tab i" "id_agent (checked pa i) = id_agent i"
  "id_rules (checked pa i) = id_rules i"
  by (rule checked_cases [of pa i]; simp add: check_keeps)+

lemma checked_bound: "id_session i = Bound s \<Longrightarrow> id_session (checked pa i) = Bound s"
  by (rule checked_cases [of pa i]) (simp_all add: check_bound)

lemma checked_process:
  "ir_process (id_rules i) = KeptAfterSession \<Longrightarrow> id_process_group (checked pa i) = id_process_group i"
  by (rule checked_cases [of pa i]) (simp_all add: check_process_kept)

lemma matched_place:
  "pa \<in> set (matched i pas) \<Longrightarrow>
     ag_pane (snd pa) = id_pane i \<and> ag_tab (snd pa) = id_tab i \<and> ag_agent (snd pa) = id_agent i"
proof (induction pas arbitrary: i)
  case (Cons p pas)
  then consider "pa \<in> set (matched i pas)" | "pa = p" "\<exists>i'. check (fst p) (snd p) i = Inr (SameAgent, i')"
    | "pa \<in> set (matched (checked p i) pas)" by (auto simp: matched_cases simp del: matched.simps split: if_splits)
  then show ?case
  proof cases
    case 2
    then show ?thesis using check_same by blast
  qed (use Cons.IH in \<open>auto simp: checked_keeps\<close>)
qed simp

lemma matched_process:
  "pa \<in> set (matched i pas) \<Longrightarrow> ir_process (id_rules i) = KeptAfterSession \<Longrightarrow> id_process_group i = Some g \<Longrightarrow>
     process_group (fst pa) (id_pane i) = Inr g"
proof (induction pas arbitrary: i)
  case (Cons p pas)
  then consider "pa \<in> set (matched i pas)" | "pa = p" "\<exists>i'. check (fst p) (snd p) i = Inr (SameAgent, i')"
    | "pa \<in> set (matched (checked p i) pas)" by (auto simp: matched_cases simp del: matched.simps split: if_splits)
  then show ?case
  proof cases
    case 2
    then show ?thesis using check_same Cons.prems(3) by blast
  next
    case 3
    with Cons.IH [of "checked p i"] Cons.prems show ?thesis by (simp add: checked_keeps checked_process)
  qed (use Cons in auto)
qed simp

lemma matched_bound:
  "pa \<in> set (matched i pas) \<Longrightarrow> id_session i = Bound s \<Longrightarrow>
     \<exists>c. ag_session (snd pa) = Some c \<and> same_session (ir_session (id_rules i)) s c"
proof (induction pas arbitrary: i)
  case (Cons p pas)
  then consider "pa \<in> set (matched i pas)" | "pa = p" "\<exists>i'. check (fst p) (snd p) i = Inr (SameAgent, i')"
    | "pa \<in> set (matched (checked p i) pas)" by (auto simp: matched_cases simp del: matched.simps split: if_splits)
  then show ?case
  proof cases
    case 2
    then show ?thesis using check_same Cons.prems(2) by blast
  next
    case 3
    with Cons.IH [of "checked p i"] Cons.prems show ?thesis by (simp add: checked_keeps checked_bound)
  qed (use Cons in auto)
qed simp

text \<open>An unbound identity takes the first session it sees, and no other one.\<close>

lemma matched_one_session:
  "\<lbrakk>\<forall>o'. id_session i \<noteq> Following o'; ir_session (id_rules i) = Exact;
    pa \<in> set (matched i pas); pb \<in> set (matched i pas);
    ag_session (snd pa) = Some s; ag_session (snd pb) = Some s'\<rbrakk> \<Longrightarrow> s = s'"
proof (induction pas arbitrary: i)
  case (Cons p pas)
  show ?case
  proof (cases "id_session i")
    case (Bound t)
    from matched_bound [OF Cons.prems(3) this] matched_bound [OF Cons.prems(4) this] Cons.prems(2,5,6)
    show ?thesis by (simp add: same_session_def)
  next
    case Unbound
    show ?thesis
    proof (cases "\<exists>i'. check (fst p) (snd p) i = Inr (SameAgent, i')")
      case False
      with Cons show ?thesis by (simp add: matched_cases del: matched.simps)
    next
      case True
      then obtain i' where i': "check (fst p) (snd p) i = Inr (SameAgent, i')" by blast
      with check_adopts_first [OF i' Unbound]
      have next_i: "checked p i = i'" "id_session i' = (case ag_session (snd p) of None \<Rightarrow> Unbound | Some s \<Rightarrow> Bound s)"
        by (simp_all add: checked_def)
      have rules: "ir_session (id_rules i') = Exact" using check_keeps [OF i'] Cons.prems(2) by simp
      have ms: "matched i (p # pas) = p # matched i' pas"
        using True by (simp add: matched_cases next_i(1) del: matched.simps)
      show ?thesis
      proof (cases "ag_session (snd p)")
        case None
        with Cons.prems(3-6) ms have "pa \<in> set (matched i' pas)" "pb \<in> set (matched i' pas)" by auto
        with Cons.IH [of i'] rules next_i(2) None Cons.prems(5,6) show ?thesis by simp
      next
        case (Some t)
        with next_i(2) have bound: "id_session i' = Bound t" by simp
        have "ag_session (snd q) = Some t" if "q \<in> set (matched i (p # pas))" for q
        proof (cases "q = p")
          case False
          with that ms have "q \<in> set (matched i' pas)" by simp
          from matched_bound [OF this bound] rules show ?thesis by (simp add: same_session_def)
        qed (use Some in simp)
        with Cons.prems(3-6) show ?thesis by simp
      qed
    qed
  qed (use Cons.prems(1) in blast)
qed simp

end
