(* ===== verification/Delivery.thy ===== *)
theory Delivery
  imports AgentIdentity "HOL-Library.Multiset"
begin

text \<open>
  Sending prompts (crates/review-thread-service/src/delivery.rs): submitting one prompt to an agent,
  the requests that wait for their pinned agent, the queue of the courier and the gate that holds it.

  What the agents' hooks report (crates/agent-hooks) and an observer's answers are parameters, as are the
  atomic flags that withdraw a prompt. The mutable identity that several requests can share is
  an address in \<open>pins\<close>.
\<close>

section \<open>Submitting one prompt\<close>

datatype heard = HeardResumed | HeardBlocked bytes | HeardSubmitted | HeardJoined bytes | HeardStopped

text \<open>The hooks: whether an agent runs them, and what the wait for a submitted prompt heard.\<close>

record hooks =
  hk_hooked :: "agent \<Rightarrow> bool"
  hk_heard :: "agent \<Rightarrow> bytes \<Rightarrow> heard option"

datatype prompt_error =
  PromptCancelled | PromptDelivery bytes | PromptNotStarted | PromptBlocked bytes | PromptUnknown bytes

type_synonym prompt_result = "prompt_error + unit"

definition HOOK_LIMIT :: nat where
  "HOOK_LIMIT = 5"

definition prompt_error_text :: "prompt_error \<Rightarrow> bytes" where
  "prompt_error_text e =
     (case e of
        PromptCancelled \<Rightarrow> ''The reviewer prompt was cancelled''
      | PromptDelivery t \<Rightarrow> t
      | PromptNotStarted \<Rightarrow> ''The agent did not start on the prompt. Look at the agent''
          @ [CHR 0x27] @ ''s pane, then Retry.''
      | PromptBlocked l \<Rightarrow> ''Text left in the agent'' @ [CHR 0x27] @ ''s input box joined the prompt, so the reviewer stopped both. Empty the agent''
          @ [CHR 0x27] @ ''s input box, then Retry. The text left there: '' @ l
      | PromptUnknown t \<Rightarrow> ''Delivery outcome unknown: '' @ t)"

definition unknown :: "port_error \<Rightarrow> prompt_error" where
  "unknown e = (case e of AgentNotStarted _ \<Rightarrow> PromptNotStarted | PortFailure t \<Rightarrow> PromptUnknown t)"

text \<open>The host answers the last request after the wait, so its answer comes from another \<open>port\<close>.\<close>

definition prompt_agent :: "port \<Rightarrow> port \<Rightarrow> hooks option \<Rightarrow> agent \<Rightarrow> bytes \<Rightarrow> prompt_result" where
  "prompt_agent P later hooks a t =
     (case hooks of
        Some hk \<Rightarrow>
          if hk_hooked hk a
          then case pt_submit P (ag_pane a) t of
            Inl e \<Rightarrow> Inl (unknown e)
          | Inr _ \<Rightarrow>
              (case hk_heard hk a t of
                 Some HeardSubmitted \<Rightarrow> Inr ()
               | Some (HeardJoined l) \<Rightarrow> Inl (PromptBlocked l)
               | Some HeardStopped \<Rightarrow> Inl (PromptDelivery (''The reviewer stopped its prompt, which reached the agent while it switched sessions, or reached another session than Herdr reports. Look at the agent''
                   @ [CHR 0x27] @ ''s pane, then Retry.''))
               | _ \<Rightarrow>
                   (case pt_agent later (ag_pane a) of
                      Inl e \<Rightarrow> Inl (unknown e)
                    | Inr (Some now) \<Rightarrow>
                        if started_on_prompt (ag_status now) then Inr ()
                        else Inl (PromptUnknown (''the agent'' @ [CHR 0x27] @ ''s hooks did not report the prompt within '' @ show_nat HOOK_LIMIT @ '' s''))
                    | Inr None \<Rightarrow> Inl (PromptUnknown (''the agent'' @ [CHR 0x27] @ ''s hooks did not report the prompt within '' @ show_nat HOOK_LIMIT @ '' s''))))
          else map_sum unknown id (pt_prompt P (ag_pane a) t)
      | None \<Rightarrow> map_sum unknown id (pt_prompt P (ag_pane a) t))"

section \<open>Requests that wait for their agent\<close>

record observer =
  ob_before_attempt :: "agent \<Rightarrow> bytes + unit"
  ob_finished :: "prompt_result \<Rightarrow> bytes + unit"

record prompt_request =
  rq_pin :: nat
  rq_text :: bytes
  rq_cancelled :: nat
  rq_observer :: "observer option"

text \<open>What the receipt of a request receives.\<close>

definition request_finish :: "prompt_request \<Rightarrow> prompt_result \<Rightarrow> prompt_result" where
  "request_finish rq result =
     (case rq_observer rq of
        None \<Rightarrow> result
      | Some ob \<Rightarrow> (case ob_finished ob result of Inl e \<Rightarrow> Inl (PromptUnknown e) | Inr _ \<Rightarrow> result))"

text \<open>The flag that withdraws a request is read twice: \<open>flags\<close> gives both values for each flag.\<close>

definition request_begin ::
  "port \<Rightarrow> (nat \<Rightarrow> bool \<times> bool) \<Rightarrow> prompt_request \<Rightarrow> (nat \<Rightarrow> pin) \<Rightarrow> (prompt_error + agent option) \<times> (nat \<Rightarrow> pin)" where
  "request_begin P flags rq pins =
     (if fst (flags (rq_cancelled rq)) then (Inl PromptCancelled, pins)
      else case pin_current P (pins (rq_pin rq)) of
        (Inl e, p) \<Rightarrow> (Inl (PromptDelivery e), pins(rq_pin rq := p))
      | (Inr None, p) \<Rightarrow> (Inr None, pins(rq_pin rq := p))
      | (Inr (Some a), p) \<Rightarrow>
          (let pins = pins(rq_pin rq := p)
           in if snd (flags (rq_cancelled rq)) then (Inl PromptCancelled, pins)
              else case (case rq_observer rq of None \<Rightarrow> Inr () | Some ob \<Rightarrow> ob_before_attempt ob a) of
                Inl e \<Rightarrow> (Inl (PromptDelivery e), pins)
              | Inr _ \<Rightarrow> (Inr (Some a), pins(rq_pin rq := seal_attempt p))))"

text \<open>Where the outcome of a prompt goes: to its request, or back to the worker.\<close>

datatype outcome_route = ToRequest prompt_request | ToWorker bytes nat

record parcel =
  pa_agent :: agent
  pa_text :: bytes
  pa_cancelled :: "nat option"
  pa_outcome :: outcome_route

record outbox =
  ob_pins :: "nat \<Rightarrow> pin"
  ob_waiting :: "prompt_request list"
  ob_handed :: "parcel list"
  ob_outcomes :: "(outcome_route \<times> prompt_result) list"

definition COURIER_STOPPED :: bytes where
  "COURIER_STOPPED = ''The reviewer prompt courier stopped; nothing was sent''"

text \<open>Handing a prompt to the courier, whose thread may have ended.\<close>

definition courier_send :: "bool \<Rightarrow> parcel \<Rightarrow> outbox \<Rightarrow> outbox" where
  "courier_send courier_runs p ob =
     (if courier_runs then ob\<lparr>ob_handed := ob_handed ob @ [p]\<rparr>
      else ob\<lparr>ob_outcomes := ob_outcomes ob @ [(pa_outcome p, Inl (PromptDelivery COURIER_STOPPED))]\<rparr>)"

definition push_request :: "prompt_request \<Rightarrow> outbox \<Rightarrow> outbox" where
  "push_request rq ob = ob\<lparr>ob_waiting := ob_waiting ob @ [rq]\<rparr>"

definition poll_request ::
  "port \<Rightarrow> (nat \<Rightarrow> bool \<times> bool) \<Rightarrow> bool \<Rightarrow> outbox \<Rightarrow> prompt_request \<Rightarrow> outbox" where
  "poll_request P flags courier_runs ob rq =
     (case request_begin P flags rq (ob_pins ob) of
        (Inr (Some a), pins) \<Rightarrow>
          courier_send courier_runs \<lparr>pa_agent = a, pa_text = rq_text rq, pa_cancelled = Some (rq_cancelled rq),
            pa_outcome = ToRequest rq\<rparr> (ob\<lparr>ob_pins := pins\<rparr>)
      | (Inr None, pins) \<Rightarrow> push_request rq (ob\<lparr>ob_pins := pins\<rparr>)
      | (Inl e, pins) \<Rightarrow> ob\<lparr>ob_pins := pins, ob_outcomes := ob_outcomes ob @ [(ToRequest rq, Inl e)]\<rparr>)"

definition poll_queue :: "port \<Rightarrow> (nat \<Rightarrow> bool \<times> bool) \<Rightarrow> bool \<Rightarrow> outbox \<Rightarrow> outbox" where
  "poll_queue P flags courier_runs ob =
     foldl (poll_request P flags courier_runs) (ob\<lparr>ob_waiting := []\<rparr>) (ob_waiting ob)"

section \<open>Every request is somewhere\<close>

definition routed :: "outcome_route \<Rightarrow> prompt_request list" where
  "routed r = (case r of ToRequest rq \<Rightarrow> [rq] | ToWorker _ _ \<Rightarrow> [])"

text \<open>The requests that wait, that the courier was handed, and that have their outcome.\<close>

definition requests_in :: "outbox \<Rightarrow> prompt_request multiset" where
  "requests_in ob = mset (ob_waiting ob) + mset (concat (map (routed \<circ> pa_outcome) (ob_handed ob))) +
     mset (concat (map (routed \<circ> fst) (ob_outcomes ob)))"

lemma requests_in_push: "requests_in (push_request rq ob) = add_mset rq (requests_in ob)"
  by (simp add: requests_in_def push_request_def)

lemma requests_in_pins [simp]: "requests_in (ob\<lparr>ob_pins := pins\<rparr>) = requests_in ob"
  by (simp add: requests_in_def)

lemma requests_in_send:
  "requests_in (courier_send runs p ob) = mset (routed (pa_outcome p)) + requests_in ob"
  by (simp add: requests_in_def courier_send_def)

lemma requests_in_poll_request:
  "requests_in (poll_request P flags runs ob rq) = add_mset rq (requests_in ob)"
proof -
  obtain r pins where b: "request_begin P flags rq (ob_pins ob) = (r, pins)" by fastforce
  show ?thesis
  proof (cases r)
    case (Inl e)
    with b show ?thesis by (simp add: poll_request_def requests_in_def routed_def)
  next
    case (Inr x)
    with b show ?thesis
      by (cases x) (simp_all add: poll_request_def requests_in_push requests_in_send routed_def)
  qed
qed

lemma requests_in_poll_fold:
  "requests_in (foldl (poll_request P flags runs) ob rqs) = mset rqs + requests_in ob"
  by (induction rqs arbitrary: ob) (simp_all add: requests_in_poll_request)

lemma requests_in_poll: "requests_in (poll_queue P flags runs ob) = requests_in ob"
  by (simp add: poll_queue_def requests_in_poll_fold) (simp add: requests_in_def)

text \<open>What polling hands over and finishes.\<close>

definition begun_parcel :: "(nat \<Rightarrow> bool \<times> bool) \<Rightarrow> parcel \<Rightarrow> bool" where
  "begun_parcel flags p \<longleftrightarrow>
     (\<exists>rq. pa_outcome p = ToRequest rq \<and> pa_text p = rq_text rq \<and> pa_cancelled p = Some (rq_cancelled rq) \<and>
        \<not> fst (flags (rq_cancelled rq)) \<and> \<not> snd (flags (rq_cancelled rq)))"

lemma poll_request_handed:
  "\<exists>ps. ob_handed (poll_request P flags runs ob rq) = ob_handed ob @ ps \<and> (\<forall>p \<in> set ps. begun_parcel flags p)"
proof -
  obtain r pins where b: "request_begin P flags rq (ob_pins ob) = (r, pins)" by fastforce
  have live: "\<not> fst (flags (rq_cancelled rq)) \<and> \<not> snd (flags (rq_cancelled rq))" if "r = Inr (Some a)" for a
    using b that by (auto simp: request_begin_def Let_def split: if_splits prod.splits sum.splits option.splits)
  show ?thesis
  proof (cases r)
    case (Inl e)
    with b show ?thesis by (simp add: poll_request_def)
  next
    case (Inr x)
    with b live show ?thesis
      by (cases x) (auto simp: poll_request_def push_request_def courier_send_def begun_parcel_def)
  qed
qed

lemma poll_queue_handed:
  "\<exists>ps. ob_handed (poll_queue P flags runs ob) = ob_handed ob @ ps \<and> (\<forall>p \<in> set ps. begun_parcel flags p)"
proof -
  have "\<exists>ps. ob_handed (foldl (poll_request P flags runs) ob rqs) = ob_handed ob @ ps \<and> (\<forall>p \<in> set ps. begun_parcel flags p)" for ob rqs
  proof (induction rqs arbitrary: ob)
    case (Cons rq rqs)
    obtain ps where ps: "ob_handed (poll_request P flags runs ob rq) = ob_handed ob @ ps" "\<forall>p \<in> set ps. begun_parcel flags p"
      using poll_request_handed by blast
    obtain qs where "ob_handed (foldl (poll_request P flags runs) (poll_request P flags runs ob rq) rqs) =
        ob_handed (poll_request P flags runs ob rq) @ qs" "\<forall>p \<in> set qs. begun_parcel flags p"
      using Cons.IH by blast
    with ps show ?case by (intro exI [of _ "ps @ qs"]) auto
  qed simp
  from this [of "ob\<lparr>ob_waiting := []\<rparr>" "ob_waiting ob"] show ?thesis by (simp add: poll_queue_def)
qed

section \<open>The gate\<close>

record gate_state =
  gt_holds :: nat
  gt_sending :: bool
  gt_queued :: nat

definition gate_new :: gate_state where
  "gate_new = \<lparr>gt_holds = 0, gt_sending = False, gt_queued = 0\<rparr>"

definition gate_queue :: "gate_state \<Rightarrow> gate_state" where
  "gate_queue g = g\<lparr>gt_queued := Suc (gt_queued g)\<rparr>"

text \<open>The subtractions are the source's: its \<open>usize\<close> would overflow at 0, which the invariant below excludes.\<close>

definition gate_unqueue :: "gate_state \<Rightarrow> gate_state" where
  "gate_unqueue g = g\<lparr>gt_queued := gt_queued g - 1\<rparr>"

definition gate_hold :: "gate_state \<Rightarrow> gate_state" where
  "gate_hold g = g\<lparr>gt_holds := Suc (gt_holds g)\<rparr>"

definition gate_release :: "gate_state \<Rightarrow> gate_state" where
  "gate_release g = g\<lparr>gt_holds := gt_holds g - 1\<rparr>"

definition gate_send :: "gate_state \<Rightarrow> gate_state option" where
  "gate_send g = (if gt_holds g > 0 then None else Some (g\<lparr>gt_sending := True\<rparr>))"

definition gate_sent :: "gate_state \<Rightarrow> gate_state" where
  "gate_sent g = g\<lparr>gt_sending := False, gt_queued := gt_queued g - 1\<rparr>"

definition gate_drained :: "gate_state \<Rightarrow> bool" where
  "gate_drained g \<longleftrightarrow> \<not> gt_sending g"

definition withdrawn :: "nat set \<Rightarrow> parcel \<Rightarrow> bool" where
  "withdrawn flags p = (case pa_cancelled p of None \<Rightarrow> False | Some c \<Rightarrow> c \<in> flags)"

text \<open>\<open>QueuedPrompt::send\<close>, with the value the flag had when it was read.\<close>

definition queued_send :: "bool \<Rightarrow> port \<Rightarrow> port \<Rightarrow> hooks option \<Rightarrow> parcel \<Rightarrow> prompt_result" where
  "queued_send is_withdrawn P later hooks p =
     (if is_withdrawn then Inl PromptCancelled else prompt_agent P later hooks (pa_agent p) (pa_text p))"

end
