(* ===== verification/PromptGate.thy ===== *)
theory PromptGate
  imports Delivery "HOL-Library.Sublist"
begin

text \<open>
  The courier and its gate as a state machine (crates/review-thread-service/src/delivery.rs): the
  worker hands parcels over, the courier's thread sends them one at a time, and the owners of holds
  and of withdrawal flags act in between. An event is one action under the gate's lock, one send
  or receive on the channel, or one read of a flag.

  The lemmas: the invariant \<open>courier_ok\<close>, by one preservation lemma for each event; no prompt begins under
  a hold; a courier that runs can always bring every parcel to its outcome.
\<close>

section \<open>States and events\<close>

datatype courier_stage = AtRest | Begun parcel | Loaded parcel bool | Reported parcel

record courier =
  co_gate :: gate_state
  co_runs :: bool
  co_announced :: "parcel option"
  co_channel :: "parcel list"
  co_stage :: courier_stage
  co_outcomes :: "(parcel \<times> bool \<times> prompt_result) list"
  co_refused :: "parcel list"
  co_handed :: "parcel list"
  co_withdrawn :: "nat set"
  co_holds :: "nat set"
  co_drained :: "nat set"

datatype courier_event =
  Announce parcel | Hand | Refuse | BeginSend | ReadFlag | Finish port port "hooks option" | MarkSent | Panic
| Hold nat | Drain nat | Release nat | Withdraw nat

definition courier_start :: courier where
  "courier_start = \<lparr>co_gate = gate_new, co_runs = True, co_announced = None, co_channel = [], co_stage = AtRest,
     co_outcomes = [], co_refused = [], co_handed = [], co_withdrawn = {}, co_holds = {}, co_drained = {}\<rparr>"

inductive courier_step :: "courier \<Rightarrow> courier_event \<Rightarrow> courier \<Rightarrow> bool" where
  announce: "co_announced s = None \<Longrightarrow>
    courier_step s (Announce p) (s\<lparr>co_gate := gate_queue (co_gate s), co_announced := Some p\<rparr>)"
| hand: "co_announced s = Some p \<Longrightarrow> co_runs s \<Longrightarrow>
    courier_step s Hand (s\<lparr>co_announced := None, co_channel := co_channel s @ [p], co_handed := co_handed s @ [p]\<rparr>)"
| refuse: "co_announced s = Some p \<Longrightarrow> \<not> co_runs s \<Longrightarrow>
    courier_step s Refuse (s\<lparr>co_announced := None, co_refused := co_refused s @ [p], co_gate := gate_unqueue (co_gate s)\<rparr>)"
| begin_send: "co_runs s \<Longrightarrow> co_stage s = AtRest \<Longrightarrow> co_channel s = p # ps \<Longrightarrow> gate_send (co_gate s) = Some g \<Longrightarrow>
    courier_step s BeginSend (s\<lparr>co_channel := ps, co_stage := Begun p, co_gate := g\<rparr>)"
| read_flag: "co_stage s = Begun p \<Longrightarrow>
    courier_step s ReadFlag (s\<lparr>co_stage := Loaded p (withdrawn (co_withdrawn s) p)\<rparr>)"
| finish: "co_stage s = Loaded p w \<Longrightarrow>
    courier_step s (Finish P later hk)
      (s\<lparr>co_stage := Reported p, co_outcomes := co_outcomes s @ [(p, w, queued_send w P later hk p)]\<rparr>)"
| mark_sent: "co_stage s = Reported p \<Longrightarrow>
    courier_step s MarkSent (s\<lparr>co_stage := AtRest, co_gate := gate_sent (co_gate s)\<rparr>)"
| panic: "co_stage s = Loaded p w \<Longrightarrow>
    courier_step s Panic (s\<lparr>co_stage := AtRest, co_runs := False, co_gate := gate_sent (co_gate s)\<rparr>)"
| hold: "h \<notin> co_holds s \<Longrightarrow>
    courier_step s (Hold h) (s\<lparr>co_holds := insert h (co_holds s), co_gate := gate_hold (co_gate s)\<rparr>)"
| drain: "h \<in> co_holds s \<Longrightarrow> gate_drained (co_gate s) \<Longrightarrow>
    courier_step s (Drain h) (s\<lparr>co_drained := insert h (co_drained s)\<rparr>)"
| release: "h \<in> co_holds s \<Longrightarrow>
    courier_step s (Release h)
      (s\<lparr>co_holds := co_holds s - {h}, co_drained := co_drained s - {h}, co_gate := gate_release (co_gate s)\<rparr>)"
| withdraw: "courier_step s (Withdraw c) (s\<lparr>co_withdrawn := insert c (co_withdrawn s)\<rparr>)"

code_pred (modes: i \<Rightarrow> i \<Rightarrow> o \<Rightarrow> bool as courier_next) courier_step .

inductive_cases courier_stepE: "courier_step s e s'"
inductive_simps courier_step_begin: "courier_step s BeginSend s'"

inductive courier_run :: "courier \<Rightarrow> courier_event list \<Rightarrow> courier \<Rightarrow> bool" where
  run_none: "courier_run s [] s"
| run_step: "courier_step s e s1 \<Longrightarrow> courier_run s1 es s' \<Longrightarrow> courier_run s (e # es) s'"

definition courier_reachable :: "courier \<Rightarrow> bool" where
  "courier_reachable s \<longleftrightarrow> (\<exists>es. courier_run courier_start es s)"

lemma run_append: "courier_run s es s1 \<Longrightarrow> courier_run s1 fs s' \<Longrightarrow> courier_run s (es @ fs) s'"
  by (induction rule: courier_run.induct) (auto intro: courier_run.intros)

section \<open>The invariant\<close>

text \<open>The prompt the courier has begun and not yet reported.\<close>

definition unreported :: "courier_stage \<Rightarrow> parcel list" where
  "unreported st = (case st of Begun p \<Rightarrow> [p] | Loaded p _ \<Rightarrow> [p] | _ \<Rightarrow> [])"

definition courier_ok :: "courier \<Rightarrow> bool" where
  "courier_ok s \<longleftrightarrow>
     finite (co_holds s) \<and> gt_holds (co_gate s) = card (co_holds s) \<and>
     gt_sending (co_gate s) = (co_stage s \<noteq> AtRest) \<and>
     gt_queued (co_gate s) =
       length (co_channel s) + of_bool (co_announced s \<noteq> None) + of_bool (co_stage s \<noteq> AtRest) \<and>
     (co_stage s \<noteq> AtRest \<longrightarrow> co_runs s) \<and>
     co_drained s \<subseteq> co_holds s \<and> (co_drained s \<noteq> {} \<longrightarrow> co_stage s = AtRest) \<and>
     (co_runs s \<longrightarrow> co_handed s = map fst (co_outcomes s) @ unreported (co_stage s) @ co_channel s) \<and>
     prefix (map fst (co_outcomes s)) (co_handed s) \<and> (co_refused s \<noteq> [] \<longrightarrow> \<not> co_runs s)"

lemmas gate_defs = gate_new_def gate_queue_def gate_unqueue_def gate_hold_def gate_release_def gate_send_def
  gate_sent_def gate_drained_def

lemma courier_ok_start: "courier_ok courier_start"
  by (simp add: courier_ok_def courier_start_def gate_defs unreported_def)

lemma courier_ok_step: "courier_step s e s' \<Longrightarrow> courier_ok s \<Longrightarrow> courier_ok s'"
proof (induction rule: courier_step.induct)
  case (begin_send s p ps g)
  then have "co_holds s = {}" by (auto simp: courier_ok_def gate_defs card_eq_0_iff split: if_splits)
  with begin_send show ?case by (auto simp: courier_ok_def gate_defs unreported_def split: if_splits)
next
  case (finish s p w P later hk)
  then show ?case by (auto simp: courier_ok_def unreported_def)
next
  case (release h s)
  then show ?case by (auto simp: courier_ok_def gate_defs card_Diff_singleton)
qed (auto simp: courier_ok_def gate_defs unreported_def)

lemma courier_ok_run: "courier_run s es s' \<Longrightarrow> courier_ok s \<Longrightarrow> courier_ok s'"
  by (induction rule: courier_run.induct) (auto intro: courier_ok_step)

lemma courier_ok_reachable: "courier_reachable s \<Longrightarrow> courier_ok s"
  using courier_ok_run courier_ok_start by (auto simp: courier_reachable_def)

section \<open>Holding and withdrawing\<close>

text \<open>A hold that lives keeps every prompt that has not begun; one that has drained keeps all of them.\<close>

definition quiet :: "courier \<Rightarrow> bool" where
  "quiet s \<longleftrightarrow> co_stage s = AtRest"

lemma hold_step:
  assumes "courier_step s e s'" "courier_ok s" "h \<in> co_holds s" "e \<noteq> Release h"
  shows "h \<in> co_holds s' \<and> e \<noteq> BeginSend \<and> (h \<in> co_drained s \<longrightarrow> h \<in> co_drained s')"
proof -
  have "gt_holds (co_gate s) \<noteq> 0" using assms(2,3) by (auto simp: courier_ok_def card_eq_0_iff)
  then have "gate_send (co_gate s) = None" by (simp add: gate_defs)
  with assms(1,3,4) show ?thesis by (cases rule: courier_step.cases) auto
qed

lemma hold_run:
  "courier_run s es s' \<Longrightarrow> courier_ok s \<Longrightarrow> h \<in> co_holds s \<Longrightarrow> Release h \<notin> set es \<Longrightarrow>
     h \<in> co_holds s' \<and> BeginSend \<notin> set es \<and> (h \<in> co_drained s \<longrightarrow> h \<in> co_drained s')"
proof (induction rule: courier_run.induct)
  case (run_step s e s1 es s')
  have "h \<in> co_holds s1 \<and> e \<noteq> BeginSend \<and> (h \<in> co_drained s \<longrightarrow> h \<in> co_drained s1)"
    using hold_step [OF run_step.hyps(1) run_step.prems(1,2)] run_step.prems(3) by auto
  with run_step.IH courier_ok_step [OF run_step.hyps(1) run_step.prems(1)] run_step.prems(3) show ?case by auto
qed simp

text \<open>At rest, no event but \<open>BeginSend\<close> brings an outcome nearer.\<close>

lemma quiet_run:
  "courier_run s es s' \<Longrightarrow> quiet s \<Longrightarrow> BeginSend \<notin> set es \<Longrightarrow> quiet s' \<and> co_outcomes s' = co_outcomes s"
proof (induction rule: courier_run.induct)
  case (run_step s e s1 es s')
  from run_step.hyps(1) run_step.prems have "quiet s1 \<and> co_outcomes s1 = co_outcomes s"
    by (cases rule: courier_step.cases) (auto simp: quiet_def)
  with run_step show ?case by auto
qed simp

text \<open>A parcel whose flag is set before the courier reads it is not submitted.\<close>

definition loaded_unwithdrawn :: "courier \<Rightarrow> nat \<Rightarrow> bool" where
  "loaded_unwithdrawn s c \<longleftrightarrow> (\<exists>p. co_stage s = Loaded p False \<and> pa_cancelled p = Some c)"

definition submitted :: "courier \<Rightarrow> parcel list" where
  "submitted s = map fst (filter (\<lambda>(p, w, r). \<not> w) (co_outcomes s))"

lemma withdrawn_step:
  assumes "courier_step s e s'" "c \<in> co_withdrawn s" "\<not> loaded_unwithdrawn s c"
  shows "c \<in> co_withdrawn s' \<and> \<not> loaded_unwithdrawn s' c \<and>
    filter (\<lambda>p. pa_cancelled p = Some c) (submitted s') = filter (\<lambda>p. pa_cancelled p = Some c) (submitted s)"
  using assms
  by (cases rule: courier_step.cases) (auto simp: loaded_unwithdrawn_def submitted_def withdrawn_def)

lemma withdrawn_run:
  "courier_run s es s' \<Longrightarrow> c \<in> co_withdrawn s \<Longrightarrow> \<not> loaded_unwithdrawn s c \<Longrightarrow>
     filter (\<lambda>p. pa_cancelled p = Some c) (submitted s') = filter (\<lambda>p. pa_cancelled p = Some c) (submitted s)"
proof (induction rule: courier_run.induct)
  case (run_step s e s1 es s')
  from withdrawn_step [OF run_step.hyps(1) run_step.prems] run_step.IH show ?case by simp
qed simp

section \<open>Every parcel reaches its outcome\<close>

definition one_prompt :: "port \<Rightarrow> port \<Rightarrow> hooks option \<Rightarrow> courier_event list" where
  "one_prompt P later hk = [BeginSend, ReadFlag, Finish P later hk, MarkSent]"

text \<open>From rest, without a hold, the courier brings the first parcel of its channel to its outcome.\<close>

lemma one_prompt_run:
  assumes "co_runs s" "co_stage s = AtRest" "co_channel s = p # ps" "gt_holds (co_gate s) = 0"
  obtains s' where "courier_run s (one_prompt P later hk) s'" "co_runs s'" "co_stage s' = AtRest" "co_channel s' = ps"
    "gt_holds (co_gate s') = 0" "co_handed s' = co_handed s"
    "co_outcomes s' = co_outcomes s @ [(p, withdrawn (co_withdrawn s) p,
       queued_send (withdrawn (co_withdrawn s) p) P later hk p)]"
    "co_withdrawn s' = co_withdrawn s"
proof -
  define g where "g = (co_gate s)\<lparr>gt_sending := True\<rparr>"
  define w where "w = withdrawn (co_withdrawn s) p"
  define s1 where "s1 = s\<lparr>co_channel := ps, co_stage := Begun p, co_gate := g\<rparr>"
  define s2 where "s2 = s1\<lparr>co_stage := Loaded p w\<rparr>"
  define s3 where "s3 = s2\<lparr>co_stage := Reported p, co_outcomes := co_outcomes s2 @ [(p, w, queued_send w P later hk p)]\<rparr>"
  define s4 where "s4 = s3\<lparr>co_stage := AtRest, co_gate := gate_sent (co_gate s3)\<rparr>"
  have "courier_step s BeginSend s1" unfolding s1_def
    by (rule begin_send) (use assms in \<open>simp_all add: gate_send_def g_def\<close>)
  moreover have "courier_step s1 ReadFlag s2" unfolding s2_def w_def
    using read_flag [of s1 p] by (simp add: s1_def)
  moreover have "courier_step s2 (Finish P later hk) s3" unfolding s3_def
    by (rule finish) (simp add: s2_def)
  moreover have "courier_step s3 MarkSent s4" unfolding s4_def
    by (rule mark_sent) (simp add: s3_def)
  ultimately have "courier_run s (one_prompt P later hk) s4"
    unfolding one_prompt_def by (blast intro: courier_run.intros)
  with that [of s4] assms show thesis
    by (simp add: s4_def s3_def s2_def s1_def g_def w_def gate_sent_def)
qed

text \<open>Whatever the host and the hooks answer, the rest of the channel reaches its outcomes.\<close>

lemma drain_channel:
  assumes "co_runs s" "co_stage s = AtRest" "gt_holds (co_gate s) = 0"
  obtains es s' where "courier_run s es s'" "co_runs s'" "co_stage s' = AtRest" "co_channel s' = []"
    "co_handed s' = co_handed s" "set es \<subseteq> {BeginSend, ReadFlag, Finish P later hk, MarkSent}"
  using assms
proof (induction "co_channel s" arbitrary: s thesis)
  case Nil
  show ?case by (rule Nil(2) [of "[]" s]) (use Nil in \<open>auto intro: run_none\<close>)
next
  case (Cons p ps)
  obtain s1 where s1: "courier_run s (one_prompt P later hk) s1" "co_runs s1" "co_stage s1 = AtRest"
    "co_channel s1 = ps" "gt_holds (co_gate s1) = 0" "co_handed s1 = co_handed s"
    using one_prompt_run [OF Cons.prems(2,3) Cons(2) [symmetric] Cons.prems(4)] by metis
  show ?case
  proof (rule Cons.hyps(1) [of s1])
    fix es s'
    assume s': "courier_run s1 es s'" "co_runs s'" "co_stage s' = AtRest" "co_channel s' = []"
      "co_handed s' = co_handed s1" "set es \<subseteq> {BeginSend, ReadFlag, Finish P later hk, MarkSent}"
    show ?case
      by (rule Cons.prems(1) [OF run_append [OF s1(1) s'(1)]]) (use s' s1 in \<open>auto simp: one_prompt_def\<close>)
  qed (use s1 in simp_all)
qed

text \<open>A prompt that has begun can be finished, also under a hold.\<close>

definition settles :: "courier_event set \<Rightarrow> courier \<Rightarrow> courier \<Rightarrow> bool" where
  "settles E s s' \<longleftrightarrow> (\<exists>es. courier_run s es s' \<and> set es \<subseteq> E) \<and> co_runs s' = co_runs s \<and>
     co_channel s' = co_channel s \<and> gt_holds (co_gate s') = gt_holds (co_gate s) \<and> co_handed s' = co_handed s"

lemma settles_trans: "settles E s s1 \<Longrightarrow> settles E s1 s' \<Longrightarrow> settles E s s'"
  unfolding settles_def by (metis run_append set_append Un_least)

lemma settles_step:
  "courier_step s e s' \<Longrightarrow> e \<in> {ReadFlag, Finish P later hk, MarkSent} \<Longrightarrow>
     settles {ReadFlag, Finish P later hk, MarkSent} s s'"
  unfolding settles_def
  by (intro conjI exI [of _ "[e]"]) (auto intro: courier_run.intros elim: courier_stepE simp: gate_sent_def)

lemma finish_begun:
  obtains s' where "settles {ReadFlag, Finish P later hk, MarkSent} s s'" "co_stage s' = AtRest"
proof -
  let ?E = "{ReadFlag, Finish P later hk, MarkSent}"
  have reported: "\<exists>s'. settles ?E s s' \<and> co_stage s' = AtRest" if "co_stage s = Reported p" for s p
    using settles_step [OF mark_sent [OF that]] by (intro exI) auto
  have loaded: "\<exists>s'. settles ?E s s' \<and> co_stage s' = AtRest" if "co_stage s = Loaded p w" for s p w
  proof -
    have "settles ?E s (s\<lparr>co_stage := Reported p, co_outcomes := co_outcomes s @ [(p, w, queued_send w P later hk p)]\<rparr>)"
      using settles_step [OF finish [OF that]] by simp
    from settles_trans [OF this] reported [of "s\<lparr>co_stage := Reported p,
        co_outcomes := co_outcomes s @ [(p, w, queued_send w P later hk p)]\<rparr>" p] show ?thesis by auto
  qed
  have "\<exists>s'. settles ?E s s' \<and> co_stage s' = AtRest"
  proof (cases "co_stage s")
    case AtRest
    have "settles ?E s s" unfolding settles_def using run_none [of s] by (intro conjI exI [of _ "[]"]) auto
    with AtRest show ?thesis by blast
  next
    case (Begun p)
    have "settles ?E s (s\<lparr>co_stage := Loaded p (withdrawn (co_withdrawn s) p)\<rparr>)"
      using settles_step [OF read_flag [OF Begun]] by simp
    from settles_trans [OF this] loaded [of "s\<lparr>co_stage := Loaded p (withdrawn (co_withdrawn s) p)\<rparr>" p]
    show ?thesis by auto
  qed (use loaded reported in blast)+
  with that show thesis by blast
qed

text \<open>From every state that the courier reaches while it runs, without a hold it can bring all that it was
  handed to its outcome.\<close>

lemma all_handed_get_outcomes:
  assumes "courier_reachable s" "co_runs s" "co_holds s = {}"
  obtains es s' where "courier_run s es s'" "set es \<subseteq> {BeginSend, ReadFlag, Finish P later hk, MarkSent}"
    "map fst (co_outcomes s') = co_handed s" "co_handed s' = co_handed s"
proof -
  obtain s1 where s1: "settles {ReadFlag, Finish P later hk, MarkSent} s s1" "co_stage s1 = AtRest"
    using finish_begun .
  then obtain es1 where es1: "courier_run s es1 s1" "set es1 \<subseteq> {ReadFlag, Finish P later hk, MarkSent}"
    by (auto simp: settles_def)
  have "gt_holds (co_gate s) = 0" using courier_ok_reachable [OF assms(1)] assms(3) by (simp add: courier_ok_def)
  with s1 assms(2) have s1': "co_runs s1" "gt_holds (co_gate s1) = 0" "co_handed s1 = co_handed s"
    by (simp_all add: settles_def)
  obtain es2 s2 where s2: "courier_run s1 es2 s2" "co_runs s2" "co_stage s2 = AtRest" "co_channel s2 = []"
    "co_handed s2 = co_handed s1" "set es2 \<subseteq> {BeginSend, ReadFlag, Finish P later hk, MarkSent}"
    using drain_channel [OF s1'(1) s1(2) s1'(2)] .
  have run: "courier_run s (es1 @ es2) s2" by (rule run_append [OF es1(1) s2(1)])
  have "courier_ok s2" by (rule courier_ok_run [OF run courier_ok_reachable [OF assms(1)]])
  with s2 have "map fst (co_outcomes s2) = co_handed s2" by (simp add: courier_ok_def unreported_def)
  with that [OF run] s2 s1'(3) es1(2) show thesis by auto
qed

end
