(* ===== verification/StoreError.thy ===== *)
theory StoreError
  imports Prelude
begin

text \<open>
  The errors of the stores (crates/review-store/src/lib.rs). An error of the file system or of the JSON
  form carries its message.
\<close>

datatype store_error = ThreadUpdate bytes | StateFault bytes | InvalidStateKey bytes | StateCollision bytes

definition store_error_text :: "store_error \<Rightarrow> bytes" where
  "store_error_text e =
     (case e of ThreadUpdate t \<Rightarrow> t | StateFault t \<Rightarrow> t | InvalidStateKey f \<Rightarrow> ''invalid review-state '' @ f
      | StateCollision p \<Rightarrow> ''review-state path hash collision at '' @ p)"

end
