(* ===== verification/Anchors.thy ===== *)
theory Anchors
  imports TextLines
begin

text \<open>
  Source positions and anchors (crates/review-source/src/lib.rs): where a thread sits in the source
  it was written on, and where that source is in a later version of the file.

  The edits come from gix-imara-diff's histogram diff (\<open>histogram_edits\<close>), the parameter \<open>H\<close> here,
  with the same laws \<open>line_diff\<close> as the differ of the line review. The lemmas: an anchored range that no edit
  touches lands on lines that read the same, and a touched one lands nowhere.
\<close>

section \<open>Checkpoints and targets\<close>

record review_checkpoint =
  ck_review_unit :: bytes
  ck_checkpoint :: bytes

definition checkpoint_matches :: "review_checkpoint \<Rightarrow> bytes \<Rightarrow> bytes \<Rightarrow> bool" where
  "checkpoint_matches c unit checkpoint \<longleftrightarrow> ck_review_unit c = unit \<and> ck_checkpoint c = checkpoint"

record source_line_range =
  sl_first :: nat
  sl_last :: nat

datatype diff_target =
  TargetLines bytes "source_line_range option" "source_line_range option" | TargetFile bytes

definition target_path :: "diff_target \<Rightarrow> bytes" where
  "target_path t = (case t of TargetLines p _ _ \<Rightarrow> p | TargetFile p \<Rightarrow> p)"

definition from_zero_based :: "range \<Rightarrow> source_line_range" where
  "from_zero_based r = \<lparr>sl_first = u32_add (fst r) 1, sl_last = snd r\<rparr>"

definition source_range_count :: "source_line_range \<Rightarrow> nat" where
  "source_range_count s = u32_add (sl_last s) 1 - sl_first s"

definition source_range_display :: "source_line_range \<Rightarrow> bytes" where
  "source_range_display s =
     (if sl_first s = sl_last s then show_nat (sl_first s)
      else show_nat (sl_first s) @ ''-'' @ show_nat (sl_last s))"

section \<open>Anchors\<close>

record frozen_hunk =
  fz_old :: "range option"
  fz_new :: "range option"

datatype anchor_kind = AnchorHunks | AnchorLines

record diff_range_anchor =
  an_checkpoint :: bytes
  an_old_path :: "bytes option"
  an_new_path :: "bytes option"
  an_old_lines :: "range option"
  an_new_lines :: "range option"
  an_kind :: anchor_kind
  an_hunk_count :: nat
  an_old_content :: "bytes option"
  an_new_content :: "bytes option"
  an_diff_hash :: bytes

fun transform_from :: "int \<Rightarrow> (range \<times> range) list \<Rightarrow> range \<Rightarrow> range option" where
  "transform_from shift [] r =
     (case (u32_of_int (int (fst r) + shift), u32_of_int (int (snd r) + shift)) of
        (Some s, Some e) \<Rightarrow> Some (s, e)
      | _ \<Rightarrow> None)"
| "transform_from shift ((src, dst) # es) r =
     (if snd src \<le> fst r then transform_from (shift_by shift src dst) es r
      else if snd r \<le> fst src then transform_from shift [] r
      else None)"

definition transform_interval :: "range \<Rightarrow> (range \<times> range) list \<Rightarrow> range option" where
  "transform_interval r es = transform_from 0 es r"

definition map_side :: "differ \<Rightarrow> range option \<Rightarrow> bytes option \<Rightarrow> bytes option \<Rightarrow> unit + range option" where
  "map_side H interval src_content current_content =
     (case interval of
        None \<Rightarrow> Inr None
      | Some interval \<Rightarrow>
          (case (src_content, current_content) of
             (Some s, Some c) \<Rightarrow>
               (case transform_interval interval (forward (H s c)) of
                  Some q \<Rightarrow> Inr (Some q)
                | None \<Rightarrow> Inl ())
           | _ \<Rightarrow> Inl ()))"

definition map_new_lines :: "differ \<Rightarrow> diff_range_anchor \<Rightarrow> bytes \<Rightarrow> range option" where
  "map_new_lines H a content =
     (case map_side H (an_new_lines a) (an_new_content a) (Some content) of Inr r \<Rightarrow> r | Inl _ \<Rightarrow> None)"

definition map_lines :: "differ \<Rightarrow> diff_range_anchor \<Rightarrow> bytes option \<Rightarrow> bytes option \<Rightarrow> frozen_hunk option" where
  "map_lines H a old_content new_content =
     (case map_side H (an_old_lines a) (an_old_content a) old_content of
        Inl _ \<Rightarrow> None
      | Inr old \<Rightarrow>
          (case map_side H (an_new_lines a) (an_new_content a) new_content of
             Inl _ \<Rightarrow> None
           | Inr new \<Rightarrow> Some \<lparr>fz_old = old, fz_new = new\<rparr>))"

section \<open>Where an anchored range lands\<close>

text \<open>An edit leaves a range alone when it ends before the range or starts after it.\<close>

definition apart :: "range \<Rightarrow> range \<Rightarrow> bool" where
  "apart src r \<longleftrightarrow> snd src \<le> fst r \<or> snd r \<le> fst src"

lemma transform_from_script:
  "\<lbrakk>script_from i j b a cs; length a \<le> u32_max; length b \<le> u32_max;
    i \<le> fst r; fst r \<le> snd r; snd r \<le> length b\<rbrakk> \<Longrightarrow>
    (case transform_from (int j - int i) (forward cs) r of
       None \<Rightarrow> \<exists>c \<in> set cs. \<not> apart (before c) r
     | Some q \<Rightarrow> (\<forall>c \<in> set cs. apart (before c) r) \<and> snd q = fst q + (snd r - fst r) \<and> snd q \<le> length a \<and>
         slice a (fst q) (snd q) = slice b (fst r) (snd r))"
proof (induction i j b a cs rule: script_from.induct)
  case (1 i j b a)
  obtain s e where r: "r = (i + s, i + (s + e))"
    using 1 le_Suc_ex [of i "fst r"] le_Suc_ex [of "fst r" "snd r"] by (metis add.assoc prod.collapse)
  from 1 have eq: "drop i b = drop j a" and le: "i \<le> length b" "j \<le> length a" by simp_all
  then have len: "length b - i = length a - j" by (metis length_drop)
  have bound: "j + (s + e) \<le> length a" using 1(6) len le by (simp add: r)
  have "slice a (j + s) (j + (s + e)) = take e (drop s (drop j a))" by (simp add: add.commute)
  also have "\<dots> = slice b (i + s) (i + (s + e))" unfolding eq [symmetric] by (simp add: add.commute)
  finally have same: "slice a (j + s) (j + (s + e)) = slice b (i + s) (i + (s + e))" .
  have "u32_of_int (int (fst r) + (int j - int i)) = Some (j + s)"
    and "u32_of_int (int (snd r) + (int j - int i)) = Some (j + (s + e))"
    using bound 1(2) by (auto simp: r u32_of_int_def)
  then show ?case using bound same by (simp add: forward_def) (simp add: r)
next
  case (2 i j b a c cs)
  from "2.prems"(1) have sc: "script_from (snd (before c)) (snd (after c)) b a cs" by simp
  have later: "apart (before d) r" if "d \<in> set cs" "snd r \<le> fst (before c)" for d
    using script_from_fst_le [OF sc that(1)] "2.prems"(1) that(2) by (auto simp: apart_def)
  consider (past) "snd (before c) \<le> fst r" | (ahead) "\<not> snd (before c) \<le> fst r" "snd r \<le> fst (before c)"
    | (touch) "\<not> apart (before c) r" by (auto simp: apart_def)
  then show ?case
  proof cases
    case past
    have "shift_by (int j - int i) (before c) (after c) = int (snd (after c)) - int (snd (before c))"
      using "2.prems"(1) by (auto simp: shift_by_def)
    with past "2.IH" [OF sc "2.prems"(2,3) past "2.prems"(5,6)] show ?thesis
      by (auto simp: forward_def apart_def split: option.splits)
  next
    case ahead
    obtain s e g where r: "r = (i + s, i + (s + e))" and g: "fst (before c) = i + (s + e) + g"
      using "2.prems"(4,5) ahead(2) le_Suc_ex [of i "fst r"] le_Suc_ex [of "fst r" "snd r"]
        le_Suc_ex [of "snd r" "fst (before c)"] by (metis add.assoc prod.collapse)
    have g': "fst (after c) = j + (s + e) + g" and ga: "fst (after c) \<le> length a"
      and eq: "slice b i (fst (before c)) = slice a j (fst (after c))"
      using "2.prems"(1) g by auto
    have "take e (drop s (slice b i (fst (before c)))) = slice b (i + s) (i + (s + e))"
      by (simp add: g drop_take min_def add.commute)
    moreover have "take e (drop s (slice a j (fst (after c)))) = slice a (j + s) (j + (s + e))"
      by (simp add: g' drop_take min_def add.commute)
    ultimately have "slice a (j + s) (j + (s + e)) = slice b (i + s) (i + (s + e))" using eq by simp
    moreover have "u32_of_int (int (fst r) + (int j - int i)) = Some (j + s)"
      and "u32_of_int (int (snd r) + (int j - int i)) = Some (j + (s + e))"
      using g' ga "2.prems"(2) by (auto simp: r u32_of_int_def)
    ultimately show ?thesis using ahead later g' ga
      by (simp add: forward_def apart_def) (auto simp: r)
  next
    case touch
    then show ?thesis by (auto simp: forward_def apart_def)
  qed
qed

lemma transform_interval_script:
  assumes "edit_script b a cs" "length a \<le> u32_max" "length b \<le> u32_max" "fst r \<le> snd r" "snd r \<le> length b"
  shows "case transform_interval r (forward cs) of
      None \<Rightarrow> \<exists>c \<in> set cs. \<not> apart (before c) r
    | Some q \<Rightarrow> (\<forall>c \<in> set cs. apart (before c) r) \<and> snd q = fst q + (snd r - fst r) \<and> snd q \<le> length a \<and>
        slice a (fst q) (snd q) = slice b (fst r) (snd r)"
  using transform_from_script [of 0 0 b a cs r] assms by (simp add: edit_script_def transform_interval_def)

end
