(* ===== verification/ThreadLaws.thy ===== *)
theory ThreadLaws
  imports Threads
begin

text \<open>
  The laws of a book of review threads: lookups, the invariant \<open>book_ok\<close> and its preservation by
  posting, answering, resolving and reading, and what each operation does to the pending comments.
\<close>

section \<open>Lookups\<close>

lemma update_first_None: "\<forall>x \<in> set xs. \<not> p x \<Longrightarrow> update_first p f xs = xs"
  by (induction xs) auto

lemma find_split:
  assumes "find p xs = Some x"
  obtains ys zs where "xs = ys @ x # zs" "p x" "\<forall>y \<in> set ys. \<not> p y"
    "\<And>f. update_first p f xs = ys @ f x # zs"
proof -
  have "\<exists>ys zs. xs = ys @ x # zs \<and> p x \<and> (\<forall>y \<in> set ys. \<not> p y) \<and>
      (\<forall>f. update_first p f xs = ys @ f x # zs)" using assms
  proof (induction xs)
    case (Cons y xs)
    show ?case
    proof (cases "p y")
      case True
      with Cons.prems have "y # xs = [] @ x # xs" "p x" "\<forall>f. update_first p f (y # xs) = [] @ f x # xs" by auto
      then show ?thesis by (metis empty_iff empty_set)
    next
      case False
      with Cons.prems Cons.IH obtain ys zs where "xs = ys @ x # zs" "p x" "\<forall>y \<in> set ys. \<not> p y"
        "\<forall>f. update_first p f xs = ys @ f x # zs" by auto
      with False show ?thesis by (intro exI [of _ "y # ys"] exI [of _ zs]) auto
    qed
  qed simp
  with that show thesis by blast
qed

lemma find_SomeD: "find p xs = Some x \<Longrightarrow> x \<in> set xs \<and> p x"
  by (auto elim: find_split)

lemma map_update_first: "(\<And>x. p x \<Longrightarrow> g (f x) = g x) \<Longrightarrow> map g (update_first p f xs) = map g xs"
  by (induction xs) auto

lemma set_update_first: "set (update_first p f xs) \<subseteq> set xs \<union> f ` {x \<in> set xs. p x}"
  by (induction xs) auto

lemma find_update_first:
  "(\<And>x. p x \<Longrightarrow> p (f x)) \<Longrightarrow> find p (update_first p f xs) = map_option f (find p xs)"
  by (induction xs) auto

lemma find_update_other:
  "(\<And>x. p x \<Longrightarrow> q (f x) = q x \<and> \<not> q x) \<Longrightarrow> find q (update_first p f xs) = find q xs"
  by (induction xs) auto

lemma find_append: "find p (xs @ ys) = (case find p xs of Some x \<Rightarrow> Some x | None \<Rightarrow> find p ys)"
  by (induction xs) auto

lemma find_unique:
  assumes "x \<in> set xs" "p x" "\<And>y. y \<in> set xs \<Longrightarrow> p y \<Longrightarrow> y = x"
  shows "find p xs = Some x"
proof (cases "find p xs")
  case None
  with assms(1,2) show ?thesis by (metis find_None_iff)
next
  case (Some y)
  from find_SomeD [OF Some] assms(3) have "y = x" by blast
  with Some show ?thesis by simp
qed

lemma distinct_map_eq: "distinct (map f xs) \<Longrightarrow> x \<in> set xs \<Longrightarrow> y \<in> set xs \<Longrightarrow> f x = f y \<Longrightarrow> x = y"
  by (meson distinct_map inj_onD)

lemma book_thread_SomeD: "book_thread rt i = Some t \<Longrightarrow> t \<in> set (rt_threads rt) \<and> th_id t = i"
  unfolding book_thread_def by (drule find_SomeD) simp

lemma book_thread_None_iff: "book_thread rt i = None \<longleftrightarrow> i \<notin> th_id ` set (rt_threads rt)"
  by (auto simp: book_thread_def find_None_iff)

lemma thread_for_message_None_iff:
  "thread_for_message rt i = None \<longleftrightarrow> i \<notin> ms_id ` set (book_messages rt)"
  by (auto simp: thread_for_message_def find_None_iff book_messages_def list_ex_iff)

lemma thread_for_message_SomeD:
  "thread_for_message rt i = Some t \<Longrightarrow> t \<in> set (rt_threads rt) \<and> (\<exists>m \<in> set (th_messages t). ms_id m = i)"
  unfolding thread_for_message_def by (drule find_SomeD) (simp add: list_ex_iff)

lemma book_message_None_iff: "book_message rt i = None \<longleftrightarrow> i \<notin> ms_id ` set (book_messages rt)"
proof (cases "thread_for_message rt i")
  case None
  then show ?thesis using thread_for_message_None_iff [of rt i] by (simp add: book_message_def)
next
  case (Some t)
  from thread_for_message_SomeD [OF this] have "find (\<lambda>m. ms_id m = i) (th_messages t) \<noteq> None"
    by (auto simp: find_None_iff simp del: not_None_eq)
  with Some thread_for_message_None_iff [of rt i] show ?thesis by (simp add: book_message_def)
qed

lemma book_message_SomeD:
  assumes "book_message rt i = Some m"
  obtains t where "thread_for_message rt i = Some t" "t \<in> set (rt_threads rt)" "m \<in> set (th_messages t)" "ms_id m = i"
proof -
  from assms obtain t where t: "thread_for_message rt i = Some t" and m: "find (\<lambda>m. ms_id m = i) (th_messages t) = Some m"
    by (auto simp: book_message_def split: option.splits)
  from find_SomeD [OF m] thread_for_message_SomeD [OF t] t show thesis by (intro that) auto
qed

lemma in_book_messages: "m \<in> set (book_messages rt) \<longleftrightarrow> (\<exists>t \<in> set (rt_threads rt). m \<in> set (th_messages t))"
  by (auto simp: book_messages_def)

section \<open>The invariant\<close>

definition in_order :: "review_thread \<Rightarrow> bool" where
  "in_order t \<longleftrightarrow> sorted_wrt (<) (map ms_sequence (th_messages t))"

definition book_ok :: "review_threads \<Rightarrow> bool" where
  "book_ok rt \<longleftrightarrow>
     distinct (map th_id (rt_threads rt)) \<and>
     distinct (map ms_id (book_messages rt)) \<and> distinct (map ms_sequence (book_messages rt)) \<and>
     (\<forall>t \<in> set (rt_threads rt). in_order t \<and> th_seen_through t \<le> rt_sequence rt) \<and>
     (\<forall>m \<in> set (book_messages rt). 0 < ms_sequence m \<and> ms_sequence m \<le> rt_sequence rt) \<and>
     rt_sequence rt \<le> u64_max \<and> (\<forall>i. position_in (rt_answered rt) i \<le> rt_sequence rt)"

lemma book_ok_thread:
  "book_ok rt \<Longrightarrow> t \<in> set (rt_threads rt) \<Longrightarrow> book_thread rt (th_id t) = Some t"
  unfolding book_thread_def book_ok_def by (rule find_unique) (auto intro: distinct_map_eq [of th_id])

lemma book_ok_same_id:
  "book_ok rt \<Longrightarrow> m \<in> set (book_messages rt) \<Longrightarrow> n \<in> set (book_messages rt) \<Longrightarrow> ms_id m = ms_id n \<Longrightarrow> m = n"
  unfolding book_ok_def by (blast dest: distinct_map_eq)

lemma book_ok_message:
  assumes "book_ok rt" "m \<in> set (book_messages rt)"
  shows "book_message rt (ms_id m) = Some m"
proof -
  have "book_message rt (ms_id m) \<noteq> None" using assms(2) by (auto simp: book_message_None_iff simp del: not_None_eq)
  then obtain n where n: "book_message rt (ms_id m) = Some n" by blast
  then have "n \<in> set (book_messages rt)" "ms_id n = ms_id m" by (auto elim: book_message_SomeD simp: in_book_messages)
  with assms have "n = m" by (blast intro: book_ok_same_id)
  with n show ?thesis by simp
qed

lemma book_ok_thread_of_message:
  assumes "book_ok rt" "t \<in> set (rt_threads rt)" "m \<in> set (th_messages t)"
  shows "thread_for_message rt (ms_id m) = Some t"
proof -
  have m: "m \<in> set (book_messages rt)" using assms by (auto simp: in_book_messages)
  then have "thread_for_message rt (ms_id m) \<noteq> None" by (auto simp: thread_for_message_None_iff simp del: not_None_eq)
  then obtain t' where t': "thread_for_message rt (ms_id m) = Some t'" by blast
  from thread_for_message_SomeD [OF this] obtain n where n: "t' \<in> set (rt_threads rt)" "n \<in> set (th_messages t')"
    "ms_id n = ms_id m" by blast
  have "n \<in> set (book_messages rt)" using n by (auto simp: in_book_messages)
  then have "n = m" using assms(1) m n(3) by (blast intro: book_ok_same_id)
  obtain xs ys where split: "rt_threads rt = xs @ t # ys" using assms(2) by (auto dest: split_list)
  have "distinct (concat (map th_messages (rt_threads rt)))"
    using assms(1) by (auto simp: book_ok_def book_messages_def simp: distinct_map)
  then have "t' = t" using n \<open>n = m\<close> assms(3) split by auto
  with t' show ?thesis by simp
qed

lemma book_ok_new: "book_ok (book_new unit)"
  by (simp add: book_ok_def book_new_def book_messages_def position_in_def)

section \<open>Appending a message\<close>

definition posted_message :: "nat \<Rightarrow> review_threads \<Rightarrow> post \<Rightarrow> message" where
  "posted_message now rt p = stamp_posting now ((po_message p)\<lparr>ms_sequence := Suc (rt_sequence rt)\<rparr>)"

lemma posted_message_simps [simp]:
  "ms_id (posted_message now rt p) = ms_id (po_message p)"
  "ms_sequence (posted_message now rt p) = Suc (rt_sequence rt)"
  "ms_author (posted_message now rt p) = ms_author (po_message p)"
  "ms_text (posted_message now rt p) = ms_text (po_message p)"
  "ms_in_reply_to (posted_message now rt p) = ms_in_reply_to (po_message p)"
  "ms_from_tab (posted_message now rt p) = ms_from_tab (po_message p)"
  "ms_posted_at (posted_message now rt p) = Some now"
  "same_content (posted_message now rt p) (po_message p)"
  by (simp_all add: posted_message_def stamp_posting_def same_content_def)

lemma receive_simps [simp]:
  "th_id (receive m t) = th_id t" "th_subject (receive m t) = th_subject t"
  "th_messages (receive m t) = th_messages t @ [m]"
  "th_seen_through (receive m t) = th_seen_through t" "th_seen_replies (receive m t) = th_seen_replies t"
  by (simp_all add: receive_def Let_def)

lemma new_thread_simps [simp]:
  "th_id (new_thread i s m) = i" "th_messages (new_thread i s m) = [m]" "th_subject (new_thread i s m) = s"
  "th_seen_through (new_thread i s m) = 0" "th_resolution (new_thread i s m) = OpenThread"
  by (simp_all add: new_thread_def)

text \<open>How the threads change when one message is appended: it goes to the end of its thread, or starts it.\<close>

definition appended :: "nat \<Rightarrow> review_threads \<Rightarrow> post \<Rightarrow> review_thread list \<Rightarrow> bool" where
  "appended now rt p ts \<longleftrightarrow>
     (\<exists>xs t ys. rt_threads rt = xs @ t # ys \<and> th_id t = po_thread p \<and> (\<forall>x \<in> set xs. th_id x \<noteq> po_thread p) \<and>
        ts = xs @ receive (posted_message now rt p) t # ys) \<or>
     (\<exists>subject. po_subject p = Some subject \<and> po_thread p \<notin> th_id ` set (rt_threads rt) \<and>
        ts = rt_threads rt @ [new_thread (po_thread p) subject (posted_message now rt p)])"

lemma append_post_InrD:
  assumes "append_post now rt p = Inr (i, rt')"
  shows "i = ms_id (po_message p) \<and> Suc (rt_sequence rt) \<le> u64_max \<and>
    (\<exists>ts. appended now rt p ts \<and> rt' = rt\<lparr>rt_threads := ts, rt_sequence := Suc (rt_sequence rt)\<rparr>)"
proof -
  let ?received = "update_first (\<lambda>t. th_id t = po_thread p) (receive (posted_message now rt p)) (rt_threads rt)"
  have received: "appended now rt p ?received" if "book_thread rt (po_thread p) = Some t" for t
    using that unfolding book_thread_def by (rule find_split) (simp add: appended_def, blast)
  have fresh: "appended now rt p (rt_threads rt @ [new_thread (po_thread p) subject (posted_message now rt p)])"
    if "book_thread rt (po_thread p) = None" "po_subject p = Some subject" for subject
    using that by (simp add: appended_def book_thread_None_iff)
  have max: "Suc (rt_sequence rt) \<le> u64_max"
    using assms by (auto simp: append_post_def u64_checked_add_def split: option.splits if_splits)
  then have "append_post now rt p =
    (case (po_subject p, book_thread rt (po_thread p)) of
       (Some subject, Some t) \<Rightarrow>
         (case subject of
            Round _ \<Rightarrow> if th_subject t \<noteq> subject then Inl OtherSubject
              else Inr (ms_id (po_message p), rt\<lparr>rt_threads := ?received, rt_sequence := Suc (rt_sequence rt)\<rparr>)
          | Code _ \<Rightarrow> Inl ThreadExists)
     | (Some subject, None) \<Rightarrow> Inr (ms_id (po_message p),
         rt\<lparr>rt_threads := rt_threads rt @ [new_thread (po_thread p) subject (posted_message now rt p)],
            rt_sequence := Suc (rt_sequence rt)\<rparr>)
     | (None, Some t) \<Rightarrow> Inr (ms_id (po_message p), rt\<lparr>rt_threads := ?received, rt_sequence := Suc (rt_sequence rt)\<rparr>)
     | (None, None) \<Rightarrow> Inl ThreadGone)"
    by (simp add: append_post_def u64_checked_add_def Let_def posted_message_def
        split: option.splits thread_subject.splits)
  with assms max received fresh show ?thesis
    by (auto split: option.splits thread_subject.splits if_splits)
qed

lemma in_order_snoc: "in_order (t\<lparr>th_messages := ms @ [m]\<rparr>) \<longleftrightarrow>
    sorted_wrt (<) (map ms_sequence ms) \<and> (\<forall>n \<in> set ms. ms_sequence n < ms_sequence m)"
  by (auto simp: in_order_def sorted_wrt_append)

lemma in_order_receive:
  "in_order (receive m t) \<longleftrightarrow> in_order t \<and> (\<forall>n \<in> set (th_messages t). ms_sequence n < ms_sequence m)"
  by (auto simp: in_order_def sorted_wrt_append)

lemma appended_messages:
  assumes "appended now rt p ts"
  obtains xs ys where "book_messages rt = xs @ ys"
    "concat (map th_messages ts) = xs @ posted_message now rt p # ys"
  using assms unfolding appended_def book_messages_def
proof (elim disjE exE conjE, goal_cases)
  case (1 xs t ys)
  show ?case
    by (rule 1(1) [of "concat (map th_messages xs) @ th_messages t" "concat (map th_messages ys)"]) (simp_all add: 1)
next
  case (2 subject)
  show ?case by (rule 2(1) [of "concat (map th_messages (rt_threads rt))" "[]"]) (simp_all add: 2)
qed

lemma appended_ids: "appended now rt p ts \<Longrightarrow> distinct (map th_id (rt_threads rt)) \<Longrightarrow> distinct (map th_id ts)"
  by (auto simp: appended_def)

lemma book_ok_append:
  assumes "book_ok rt" "appended now rt p ts" "Suc (rt_sequence rt) \<le> u64_max"
    and "ms_id (po_message p) \<notin> ms_id ` set (book_messages rt)"
  shows "book_ok (rt\<lparr>rt_threads := ts, rt_sequence := Suc (rt_sequence rt)\<rparr>)"
proof -
  obtain xs ys where old: "book_messages rt = xs @ ys"
    and new: "concat (map th_messages ts) = xs @ posted_message now rt p # ys"
    using appended_messages [OF assms(2)] .
  have le: "0 < ms_sequence m \<and> ms_sequence m \<le> rt_sequence rt" if "m \<in> set (book_messages rt)" for m
    using assms(1) that by (auto simp: book_ok_def)
  have fresh: "Suc (rt_sequence rt) \<notin> ms_sequence ` set (book_messages rt)" using le by fastforce
  have "in_order t \<and> th_seen_through t \<le> Suc (rt_sequence rt)" if t: "t \<in> set ts" for t
  proof -
    have old_ok: "in_order t' \<and> th_seen_through t' \<le> Suc (rt_sequence rt)" if "t' \<in> set (rt_threads rt)" for t'
      using assms(1) that by (fastforce simp: book_ok_def)
    have received: "in_order (receive (posted_message now rt p) t')" if "t' \<in> set (rt_threads rt)" for t'
      using old_ok [OF that] le that by (fastforce simp: in_order_receive in_book_messages)
    from t assms(2) old_ok received show ?thesis
      by (auto simp: appended_def in_order_def [of "new_thread _ _ _"])
  qed
  moreover have "position_in (rt_answered rt) i \<le> Suc (rt_sequence rt)" for i
    using assms(1) by (auto simp: book_ok_def le_SucI)
  moreover have "distinct (map ms_id (xs @ posted_message now rt p # ys))"
    "distinct (map ms_sequence (xs @ posted_message now rt p # ys))"
    using assms(1,4) fresh by (auto simp: book_ok_def old)
  moreover have "0 < ms_sequence m \<and> ms_sequence m \<le> Suc (rt_sequence rt)" if "m \<in> set (xs @ posted_message now rt p # ys)" for m
    using that le by (force simp: old)
  ultimately show ?thesis
    using appended_ids [OF assms(2)] assms(1,3)
    by (simp add: book_ok_def book_messages_def new)
qed

section \<open>Posting\<close>

lemma post_message_cases:
  assumes "post_message now rt p = Inr (i, rt')"
  obtains (again) m where "book_message rt (ms_id (po_message p)) = Some m" "same_content m (po_message p)"
      "map_option th_id (thread_for_message rt (ms_id m)) = Some (po_thread p)" "i = ms_id m" "rt' = rt"
    | (new) ts where "ms_id (po_message p) \<notin> ms_id ` set (book_messages rt)" "\<not> is_blank (ms_text (po_message p))"
      "i = ms_id (po_message p)" "appended now rt p ts" "Suc (rt_sequence rt) \<le> u64_max"
      "rt' = rt\<lparr>rt_threads := ts, rt_sequence := Suc (rt_sequence rt)\<rparr>"
proof (cases "book_message rt (ms_id (po_message p))")
  case (Some m)
  with assms show thesis by (intro again [of m]) (simp_all add: post_message_def split: if_splits)
next
  case None
  with assms have "\<not> is_blank (ms_text (po_message p))" and a: "append_post now rt p = Inr (i, rt')"
    by (simp_all add: post_message_def split: if_splits)
  with append_post_InrD [OF a] None new show thesis by (simp only: book_message_None_iff) blast
qed

lemma post_message_id: "post_message now rt p = Inr (i, rt') \<Longrightarrow> i = ms_id (po_message p)"
  by (erule post_message_cases) (auto simp: same_content_def)

lemma book_ok_post: "book_ok rt \<Longrightarrow> post_message now rt p = Inr (i, rt') \<Longrightarrow> book_ok rt'"
  by (erule post_message_cases) (auto intro: book_ok_append)

lemma appended_set:
  "appended now rt p ts \<Longrightarrow>
     set (concat (map th_messages ts)) = insert (posted_message now rt p) (set (book_messages rt))"
  by (elim appended_messages) simp

lemma post_message_keeps:
  "post_message now rt p = Inr (i, rt') \<Longrightarrow> set (book_messages rt) \<subseteq> set (book_messages rt') \<and>
     set (book_messages rt') \<subseteq> insert (posted_message now rt p) (set (book_messages rt))"
  by (erule post_message_cases) (auto simp: book_messages_def dest!: appended_set)

text \<open>The message a successful post leaves in the book, in its thread.\<close>

lemma posted_in_thread:
  assumes "book_ok rt" "post_message now rt p = Inr (i, rt')"
  obtains t m where "t \<in> set (rt_threads rt')" "m \<in> set (th_messages t)" "th_id t = po_thread p"
    "same_content m (po_message p)"
  using assms(2)
proof (cases rule: post_message_cases)
  case (again m)
  from again(1) obtain t where t: "thread_for_message rt (ms_id (po_message p)) = Some t"
    "t \<in> set (rt_threads rt)" "m \<in> set (th_messages t)" "ms_id m = ms_id (po_message p)"
    by (rule book_message_SomeD)
  with again show thesis by (intro that [of t m]) auto
next
  case (new ts)
  from new(4) have "\<exists>t \<in> set ts. posted_message now rt p \<in> set (th_messages t) \<and> th_id t = po_thread p"
    by (auto simp: appended_def)
  with new that [of _ "posted_message now rt p"] show thesis by auto
qed

lemma post_again:
  assumes "book_ok rt" "post_message now rt p = Inr (i, rt')"
  shows "post_message later rt' p = Inr (i, rt')"
proof -
  have ok: "book_ok rt'" by (rule book_ok_post [OF assms])
  obtain t m where m: "t \<in> set (rt_threads rt')" "m \<in> set (th_messages t)" "th_id t = po_thread p"
    "same_content m (po_message p)" using posted_in_thread [OF assms] .
  have "m \<in> set (book_messages rt')" using m by (auto simp: in_book_messages)
  from book_ok_message [OF ok this] book_ok_thread_of_message [OF ok m(1,2)] m(3,4) post_message_id [OF assms(2)]
  show ?thesis by (simp add: post_message_def same_content_def)
qed

lemma book_thread_append:
  assumes "i \<noteq> po_thread p" "appended now rt p ts"
  shows "find (\<lambda>t. th_id t = i) ts = book_thread rt i"
  using assms(2) unfolding appended_def
proof (elim disjE exE conjE)
  fix xs u ys
  assume "rt_threads rt = xs @ u # ys" "th_id u = po_thread p" "ts = xs @ receive (posted_message now rt p) u # ys"
  then show ?thesis using assms(1) by (auto simp: book_thread_def find_append split: option.splits)
qed (use assms(1) in \<open>simp add: book_thread_def find_append split: option.splits\<close>)

section \<open>Pending comments\<close>

lemma last_comment_SomeD:
  assumes "last_comment t = Some l" "in_order t"
  shows "l \<in> set (th_messages t) \<and> ms_author l = FromReviewer \<and>
    (\<forall>m \<in> set (th_messages t). ms_author m = FromReviewer \<longrightarrow> ms_sequence m \<le> ms_sequence l)"
proof -
  from assms(1) obtain ys zs where split: "rev (th_messages t) = ys @ l # zs" and l: "ms_author l = FromReviewer"
    and later: "\<forall>y \<in> set ys. ms_author y \<noteq> FromReviewer"
    unfolding last_comment_def by (rule find_split)
  have "th_messages t = rev zs @ l # rev ys" using arg_cong [OF split, of rev] by simp
  then show ?thesis using assms(2) l later by (auto simp: in_order_def sorted_wrt_append)
qed

lemma last_comment_None_iff: "last_comment t = None \<longleftrightarrow> (\<forall>m \<in> set (th_messages t). ms_author m \<noteq> FromReviewer)"
  by (auto simp: last_comment_def find_None_iff)

lemma last_comment_receive [simp]:
  "last_comment (receive m t) = (if ms_author m = FromReviewer then Some m else last_comment t)"
  by (simp add: last_comment_def)

lemma has_comments_after_last:
  assumes "in_order t"
  shows "has_comments_after t n \<longleftrightarrow> (\<exists>l. last_comment t = Some l \<and> n < ms_sequence l)"
proof (cases "last_comment t")
  case None
  with last_comment_None_iff [of t] show ?thesis by (simp add: has_comments_after_def list_ex_iff)
next
  case (Some l)
  from last_comment_SomeD [OF this assms] Some show ?thesis
    by (auto simp: has_comments_after_def list_ex_iff)
qed

lemma pending_iff:
  assumes "in_order t"
  shows "pending rt t \<longleftrightarrow> th_resolution t = OpenThread \<and>
    (\<exists>l. last_comment t = Some l \<and> \<not> is_answered t l \<and> position_in (rt_answered rt) (th_id t) < ms_sequence l)"
  unfolding pending_def is_waiting_def has_comments_after_last [OF assms] by (auto split: option.splits)

text \<open>A comment that a reply of its thread acknowledges, by itself or through a later comment.\<close>

lemma is_answeredI:
  "r \<in> set (th_messages t) \<Longrightarrow> ms_author r = FromAgent \<Longrightarrow> ms_in_reply_to r = Some (ms_id c) \<Longrightarrow>
     c \<in> set (th_messages t) \<Longrightarrow> ms_sequence m \<le> ms_sequence c \<Longrightarrow> is_answered t m"
  by (force simp: is_answered_def list_ex_iff)

section \<open>Answers\<close>

lemma answer_InrD:
  assumes "answer now rt p = Inr (i, rt')"
  obtains t c rt1 where "ms_author (po_message p) = FromAgent" "book_thread rt (po_thread p) = Some t"
    "c \<in> set (th_messages t)" "ms_author c = FromReviewer" "ms_in_reply_to (po_message p) = Some (ms_id c)"
    "answered_through rt p = Some (ms_sequence c)" "post_message now rt p = Inr (i, rt1)"
    "rt' = rt1\<lparr>rt_answered := (rt_answered rt1)
      (po_thread p \<mapsto> max (position_in (rt_answered rt1) (po_thread p)) (ms_sequence c))\<rparr>"
proof -
  from assms obtain through rt1 where a: "ms_author (po_message p) = FromAgent"
    "answered_through rt p = Some through" "post_message now rt p = Inr (i, rt1)"
    "rt' = rt1\<lparr>rt_answered := (rt_answered rt1)
      (po_thread p \<mapsto> max (position_in (rt_answered rt1) (po_thread p)) through)\<rparr>"
    by (auto simp: answer_def split: if_splits option.splits sum.splits)
  from a(2) obtain t c where t: "book_thread rt (po_thread p) = Some t" "through = ms_sequence c"
    and c: "find (\<lambda>m. Some (ms_id m) = ms_in_reply_to (po_message p) \<and> ms_author m = FromReviewer) (th_messages t) = Some c"
    by (auto simp: answered_through_def split: option.splits)
  from find_SomeD [OF c] a t show thesis by (intro that [of t c rt1]) auto
qed

lemma position_in_update [simp]:
  "position_in (ps(i \<mapsto> n)) j = (if j = i then n else position_in ps j)"
  by (simp add: position_in_def)

lemma post_message_state:
  "post_message now rt p = Inr (i, rt') \<Longrightarrow>
     rt_answered rt' = rt_answered rt \<and> rt_unit rt' = rt_unit rt \<and> rt_sequence rt \<le> rt_sequence rt'"
  by (erule post_message_cases) auto

lemma book_ok_answer:
  assumes "book_ok rt" "answer now rt p = Inr (i, rt')"
  shows "book_ok rt'"
proof -
  from assms(2) obtain t c rt1 where a: "book_thread rt (po_thread p) = Some t" "c \<in> set (th_messages t)"
    "post_message now rt p = Inr (i, rt1)"
    "rt' = rt1\<lparr>rt_answered := (rt_answered rt1)
      (po_thread p \<mapsto> max (position_in (rt_answered rt1) (po_thread p)) (ms_sequence c))\<rparr>"
    by (rule answer_InrD)
  have ok: "book_ok rt1" by (rule book_ok_post [OF assms(1) a(3)])
  have "c \<in> set (book_messages rt)" using a(1,2) by (auto simp: in_book_messages dest: book_thread_SomeD)
  then have "c \<in> set (book_messages rt1)" using post_message_keeps [OF a(3)] by blast
  then have "ms_sequence c \<le> rt_sequence rt1" using ok by (simp add: book_ok_def)
  then show ?thesis using ok by (simp add: a(4) book_ok_def book_messages_def)
qed

lemma post_message_thread:
  assumes "book_ok rt" "post_message now rt p = Inr (i, rt')" "book_thread rt (po_thread p) = Some t"
  shows "(rt' = rt \<and> (\<exists>m \<in> set (th_messages t). same_content m (po_message p))) \<or>
    (ms_id (po_message p) \<notin> ms_id ` set (book_messages rt) \<and>
     book_thread rt' (po_thread p) = Some (receive (posted_message now rt p) t))"
  using assms(2)
proof (cases rule: post_message_cases)
  case (again m)
  obtain u n where u: "u \<in> set (rt_threads rt')" "n \<in> set (th_messages u)" "th_id u = po_thread p"
    "same_content n (po_message p)" using posted_in_thread [OF assms(1,2)] .
  have "u = t" using book_ok_thread [OF assms(1)] u(1,3) again(5) assms(3) by fastforce
  with u again show ?thesis by auto
next
  case (new ts)
  from find_split [OF assms(3) [unfolded book_thread_def]] obtain xs ys where
    split: "rt_threads rt = xs @ t # ys" "th_id t = po_thread p" "\<forall>x \<in> set xs. th_id x \<noteq> po_thread p" by metis
  have dist: "distinct (map th_id (rt_threads rt))" using assms(1) by (simp add: book_ok_def)
  from new(4) obtain xs' u ys' where u: "rt_threads rt = xs' @ u # ys'" "th_id u = po_thread p"
    "\<forall>x \<in> set xs'. th_id x \<noteq> po_thread p" "ts = xs' @ receive (posted_message now rt p) u # ys'"
    using split by (auto simp: appended_def)
  have "u = t" using book_ok_thread [OF assms(1), of u] u(1,2) assms(3) by auto
  then have "find (\<lambda>t. th_id t = po_thread p) ts = Some (receive (posted_message now rt p) t)"
    using u by (auto simp: find_append find_None_iff split: option.splits dest: find_SomeD)
  with new show ?thesis by (simp add: book_thread_def)
qed

text \<open>Every reply names a message of its own thread; only \<open>answer\<close> writes replies that name one.\<close>

definition replies_ok :: "review_threads \<Rightarrow> bool" where
  "replies_ok rt \<longleftrightarrow> (\<forall>t \<in> set (rt_threads rt). \<forall>m \<in> set (th_messages t). \<forall>i.
     ms_in_reply_to m = Some i \<longrightarrow> i \<in> ms_id ` set (th_messages t))"

definition takes_up :: "review_thread \<Rightarrow> message \<Rightarrow> message \<Rightarrow> bool" where
  "takes_up t comment m \<longleftrightarrow>
     ms_author m = FromAgent \<and>
       (case ms_in_reply_to m of
          Some i \<Rightarrow> list_ex (\<lambda>covered. ms_id covered = i \<and> ms_sequence comment \<le> ms_sequence covered) (th_messages t)
        | None \<Rightarrow> ms_sequence comment < ms_sequence m)"

lemma is_answered_takes_up: "is_answered t c \<longleftrightarrow> list_ex (takes_up t c) (th_messages t)"
  by (simp add: is_answered_def takes_up_def [abs_def])

lemma takes_up_receive:
  "ms_in_reply_to n \<noteq> Some (ms_id m) \<Longrightarrow> takes_up (receive m t) c n \<longleftrightarrow> takes_up t c n"
  by (auto simp: takes_up_def split: option.splits)

text \<open>An answer acknowledges its comment and the comments before it, and no later one.\<close>

lemma answer_thread:
  assumes "book_ok rt" "answer now rt p = Inr (i, rt')" "replies_ok rt"
  obtains t t' c where "book_thread rt (po_thread p) = Some t" "book_thread rt' (po_thread p) = Some t'"
    "c \<in> set (th_messages t)" "ms_author c = FromReviewer" "ms_in_reply_to (po_message p) = Some (ms_id c)"
    "position_in (rt_answered rt') (po_thread p) = max (position_in (rt_answered rt) (po_thread p)) (ms_sequence c)"
    "last_comment t' = last_comment t" "th_resolution t' = th_resolution t"
    "\<And>m. m \<in> set (th_messages t) \<Longrightarrow> is_answered t' m \<longleftrightarrow> is_answered t m \<or> ms_sequence m \<le> ms_sequence c"
proof -
  from assms(2) obtain t c rt1 where a: "ms_author (po_message p) = FromAgent" "book_thread rt (po_thread p) = Some t"
    "c \<in> set (th_messages t)" "ms_author c = FromReviewer" "ms_in_reply_to (po_message p) = Some (ms_id c)"
    "post_message now rt p = Inr (i, rt1)"
    "rt' = rt1\<lparr>rt_answered := (rt_answered rt1)
      (po_thread p \<mapsto> max (position_in (rt_answered rt1) (po_thread p)) (ms_sequence c))\<rparr>"
    by (rule answer_InrD)
  have thread: "book_thread rt' j = book_thread rt1 j" for j by (simp add: a(7) book_thread_def)
  have pos: "position_in (rt_answered rt') (po_thread p) =
      max (position_in (rt_answered rt) (po_thread p)) (ms_sequence c)"
    using post_message_state [OF a(6)] by (simp add: a(7))
  from post_message_thread [OF assms(1) a(6,2)] show thesis
  proof (elim disjE conjE bexE)
    fix m
    assume m: "rt1 = rt" "m \<in> set (th_messages t)" "same_content m (po_message p)"
    then have "is_answered t n" if "ms_sequence n \<le> ms_sequence c" for n
      using is_answeredI [of m t c n] a that by (simp add: same_content_def)
    with a m(1) thread pos show thesis by (intro that [of t t c]) auto
  next
    let ?m = "posted_message now rt p"
    assume new: "ms_id (po_message p) \<notin> ms_id ` set (book_messages rt)"
      "book_thread rt1 (po_thread p) = Some (receive ?m t)"
    have "c \<in> set (book_messages rt)" using a(2,3) by (auto simp: in_book_messages dest: book_thread_SomeD)
    with new(1) have other: "ms_id ?m \<noteq> ms_id c" by auto
    have same: "n = c" if "n \<in> set (th_messages t)" "ms_id n = ms_id c" for n
      using book_ok_same_id [OF assms(1), of n c] that a(2,3) by (auto simp: in_book_messages dest: book_thread_SomeD)
    have "t \<in> set (rt_threads rt)" using a(2) by (auto dest: book_thread_SomeD)
    have "ms_id ?m \<notin> ms_id ` set (th_messages t)"
      using new(1) \<open>t \<in> set (rt_threads rt)\<close> by (auto simp: in_book_messages image_iff)
    then have unknown: "ms_in_reply_to n \<noteq> Some (ms_id ?m)" if "n \<in> set (th_messages t)" for n
      using assms(3) that \<open>t \<in> set (rt_threads rt)\<close> by (auto simp: replies_ok_def)
    have "is_answered (receive ?m t) m \<longleftrightarrow> is_answered t m \<or> takes_up (receive ?m t) m ?m" for m
      using takes_up_receive unknown by (auto simp: is_answered_takes_up list_ex_iff)
    moreover have "takes_up (receive ?m t) m ?m \<longleftrightarrow> ms_sequence m \<le> ms_sequence c" for m
      using a(1,3,5) other same by (auto simp: takes_up_def list_ex_iff)
    ultimately have "is_answered (receive ?m t) m \<longleftrightarrow> is_answered t m \<or> ms_sequence m \<le> ms_sequence c" for m
      by simp
    moreover have "th_resolution (receive ?m t) = th_resolution t" using a(1) by (simp add: receive_def Let_def)
    ultimately show thesis using a thread new pos by (intro that [of t "receive ?m t" c]) simp_all
  qed
qed

lemma book_ok_in_order: "book_ok rt \<Longrightarrow> book_thread rt i = Some t \<Longrightarrow> in_order t"
  by (auto simp: book_ok_def dest: book_thread_SomeD)

lemma book_thread_id: "book_thread rt i = Some t \<Longrightarrow> th_id t = i"
  by (auto dest: book_thread_SomeD)

lemma pending_after_answer:
  assumes "book_ok rt" "answer now rt p = Inr (i, rt')" "replies_ok rt"
  obtains t t' c where "book_thread rt (po_thread p) = Some t" "book_thread rt' (po_thread p) = Some t'"
    "c \<in> set (th_messages t)" "ms_author c = FromReviewer" "ms_in_reply_to (po_message p) = Some (ms_id c)"
    "pending rt' t' \<longleftrightarrow> pending rt t \<and> (\<exists>l. last_comment t = Some l \<and> ms_sequence c < ms_sequence l)"
proof -
  obtain t t' c where a: "book_thread rt (po_thread p) = Some t" "book_thread rt' (po_thread p) = Some t'"
    "c \<in> set (th_messages t)" "ms_author c = FromReviewer" "ms_in_reply_to (po_message p) = Some (ms_id c)"
    "position_in (rt_answered rt') (po_thread p) = max (position_in (rt_answered rt) (po_thread p)) (ms_sequence c)"
    "last_comment t' = last_comment t" "th_resolution t' = th_resolution t"
    "\<And>m. m \<in> set (th_messages t) \<Longrightarrow> is_answered t' m \<longleftrightarrow> is_answered t m \<or> ms_sequence m \<le> ms_sequence c"
    using answer_thread [OF assms] by metis
  have order: "in_order t" "in_order t'"
    using book_ok_in_order [OF assms(1) a(1)] book_ok_in_order [OF book_ok_answer [OF assms(1,2)] a(2)] .
  have ids: "th_id t = po_thread p" "th_id t' = po_thread p" using a(1,2) by (auto dest: book_thread_id)
  have "pending rt' t' \<longleftrightarrow> pending rt t \<and> (\<exists>l. last_comment t = Some l \<and> ms_sequence c < ms_sequence l)"
    unfolding pending_iff [OF order(1)] pending_iff [OF order(2)] a(6-8) ids
    using last_comment_SomeD [OF _ order(1)] a(9) by auto
  with a show thesis by (intro that [of t t' c])
qed

lemma answer_again:
  assumes "book_ok rt" "answer now rt p = Inr (i, rt')"
  shows "answer later rt' p = Inr (i, rt')"
proof -
  from assms(2) obtain t c rt1 where a: "ms_author (po_message p) = FromAgent" "book_thread rt (po_thread p) = Some t"
    "c \<in> set (th_messages t)" "ms_author c = FromReviewer" "ms_in_reply_to (po_message p) = Some (ms_id c)"
    "post_message now rt p = Inr (i, rt1)"
    "rt' = rt1\<lparr>rt_answered := (rt_answered rt1)
      (po_thread p \<mapsto> max (position_in (rt_answered rt1) (po_thread p)) (ms_sequence c))\<rparr>"
    by (rule answer_InrD)
  have ok: "book_ok rt'" by (rule book_ok_answer [OF assms])
  have threads: "rt_threads rt' = rt_threads rt1" by (simp add: a(7))
  have book: "book_message rt' = book_message rt1" "thread_for_message rt' = thread_for_message rt1"
    "book_thread rt' = book_thread rt1"
    by (simp_all add: fun_eq_iff book_message_def thread_for_message_def book_thread_def threads)
  have same: "post_message later rt1 p = Inr (i, rt1)" by (rule post_again [OF assms(1) a(6)])
  then obtain m where "book_message rt1 (ms_id (po_message p)) = Some m"
  proof (cases rule: post_message_cases)
    case (new ts)
    then have "rt_sequence rt1 = Suc (rt_sequence rt1)" by (metis review_threads.select_convs(3) review_threads.surjective review_threads.update_convs(2,3))
    then show thesis by simp
  qed
  with same have again: "post_message later rt' p = Inr (i, rt')"
    unfolding post_message_def book by (auto split: if_splits)
  have "\<exists>t1. book_thread rt' (po_thread p) = Some t1 \<and> set (th_messages t) \<subseteq> set (th_messages t1)"
    using post_message_thread [OF assms(1) a(6,2)] a(2) book(3) by auto
  then obtain t1 where t1: "book_thread rt' (po_thread p) = Some t1" "c \<in> set (th_messages t1)" using a(3) by blast
  have "find (\<lambda>m. Some (ms_id m) = ms_in_reply_to (po_message p) \<and> ms_author m = FromReviewer) (th_messages t1) = Some c"
  proof (rule find_unique [OF t1(2)])
    show "Some (ms_id c) = ms_in_reply_to (po_message p) \<and> ms_author c = FromReviewer" using a by simp
  next
    fix m assume "m \<in> set (th_messages t1)" "Some (ms_id m) = ms_in_reply_to (po_message p) \<and> ms_author m = FromReviewer"
    then show "m = c" using book_ok_same_id [OF ok, of m c] a(5) t1
      by (auto simp: in_book_messages dest: book_thread_SomeD)
  qed
  then have "answered_through rt' p = Some (ms_sequence c)" using t1(1) by (simp add: answered_through_def)
  with a(1) again show ?thesis
    by (simp add: answer_def) (simp add: a(7) max_def)
qed

lemma replies_ok_append:
  assumes "replies_ok rt" "appended now rt p ts" "book_ok rt"
    and "\<forall>j. ms_in_reply_to (po_message p) = Some j \<longrightarrow>
      (\<exists>t. book_thread rt (po_thread p) = Some t \<and> j \<in> ms_id ` set (th_messages t))"
  shows "replies_ok (rt\<lparr>rt_threads := ts, rt_sequence := n\<rparr>)"
  using assms(2) unfolding appended_def
proof (elim disjE exE conjE)
  fix xs t ys
  assume a: "rt_threads rt = xs @ t # ys" "th_id t = po_thread p" "\<forall>x \<in> set xs. th_id x \<noteq> po_thread p"
    "ts = xs @ receive (posted_message now rt p) t # ys"
  have "book_thread rt (po_thread p) = Some t"
    using book_ok_thread [OF assms(3), of t] a(1,2) by simp
  then have "j \<in> ms_id ` set (th_messages t)" if "ms_in_reply_to (po_message p) = Some j" for j
    using assms(4) that by auto
  then show ?thesis using assms(1) a(1,4) by (auto simp: replies_ok_def)
next
  fix subject
  assume "po_thread p \<notin> th_id ` set (rt_threads rt)"
    "ts = rt_threads rt @ [new_thread (po_thread p) subject (posted_message now rt p)]"
  moreover from this(1) assms(4) have "ms_in_reply_to (po_message p) = None"
    using book_thread_None_iff [of rt "po_thread p"] by (cases "ms_in_reply_to (po_message p)") auto
  ultimately show ?thesis using assms(1) by (auto simp: replies_ok_def)
qed

lemma replies_ok_post:
  assumes "replies_ok rt" "book_ok rt" "post_message now rt p = Inr (i, rt')"
    and "\<forall>j. ms_in_reply_to (po_message p) = Some j \<longrightarrow>
      (\<exists>t. book_thread rt (po_thread p) = Some t \<and> j \<in> ms_id ` set (th_messages t))"
  shows "replies_ok rt'"
  using assms(3)
  by (cases rule: post_message_cases) (use assms in \<open>auto intro: replies_ok_append\<close>)

lemma replies_ok_answer:
  assumes "replies_ok rt" "book_ok rt" "answer now rt p = Inr (i, rt')"
  shows "replies_ok rt'"
proof -
  from assms(3) obtain t c rt1 where a: "book_thread rt (po_thread p) = Some t" "c \<in> set (th_messages t)"
    "ms_in_reply_to (po_message p) = Some (ms_id c)" "post_message now rt p = Inr (i, rt1)"
    "rt_threads rt' = rt_threads rt1"
    by (elim answer_InrD) simp
  from replies_ok_post [OF assms(1,2) a(4)] a(1-3) have "replies_ok rt1" by auto
  then show ?thesis by (simp add: replies_ok_def a(5))
qed

section \<open>Posted comments are pending\<close>

lemma not_answered_yet:
  assumes "\<forall>n \<in> set (th_messages t). ms_in_reply_to n \<noteq> Some (ms_id m)"
    and "\<forall>n \<in> set (th_messages t). ms_sequence n < ms_sequence m" "ms_author m = FromReviewer"
  shows "\<not> is_answered (receive m t) m"
proof -
  have "\<not> takes_up (receive m t) m n" if "n \<in> set (th_messages t)" for n
    using assms(1,2) that by (force simp: takes_up_receive takes_up_def list_ex_iff split: option.splits)
  moreover have "\<not> takes_up (receive m t) m m" using assms(3) by (simp add: takes_up_def)
  ultimately show ?thesis by (auto simp: is_answered_takes_up list_ex_iff)
qed

lemma receive_new_thread:
  "new_thread i s m = receive m \<lparr>th_id = i, th_subject = s, th_messages = [], th_resolution = OpenThread,
     th_seen_through = 0, th_seen_replies = {}\<rparr>"
  by (simp add: new_thread_def receive_def Let_def)

text \<open>A reviewer's new comment waits for an answer, and its own tab brings it, unless its thread was resolved
  and is not a round conversation.\<close>

lemma posted_comment_pending:
  assumes "book_ok rt" "replies_ok rt" "post_message now rt p = Inr (i, rt')" "rt' \<noteq> rt"
    and "ms_author (po_message p) = FromReviewer" "ms_in_reply_to (po_message p) = None"
    and "\<forall>t. book_thread rt (po_thread p) = Some t \<longrightarrow> th_resolution t = OpenThread \<or> thread_round t \<noteq> None"
  obtains t where "book_thread rt' (po_thread p) = Some t" "pending rt' t"
    "last_comment t = Some (posted_message now rt p)"
    "\<And>rc. ms_from_tab (po_message p) = Some (rc_tab rc) \<Longrightarrow> pending_for rt' rc t"
  using assms(3)
proof (cases rule: post_message_cases)
  case (new ts)
  let ?m = "posted_message now rt p"
  have "\<exists>u. receive ?m u \<in> set ts \<and> (\<forall>n \<in> set (th_messages u). n \<in> set (book_messages rt) \<and>
      (\<forall>j. ms_in_reply_to n = Some j \<longrightarrow> j \<in> ms_id ` set (book_messages rt))) \<and>
      th_id u = po_thread p \<and> (th_resolution u = OpenThread \<or> thread_round u \<noteq> None)"
    using new(4) unfolding appended_def
  proof (elim disjE exE conjE)
    fix xs u ys
    assume u: "rt_threads rt = xs @ u # ys" "th_id u = po_thread p" "ts = xs @ receive ?m u # ys"
    then have "book_thread rt (po_thread p) = Some u" using book_ok_thread [OF assms(1), of u] by simp
    with assms(7) have "th_resolution u = OpenThread \<or> thread_round u \<noteq> None" by blast
    moreover have "u \<in> set (rt_threads rt)" using u(1) by simp
    ultimately show ?thesis using u(2,3) assms(2)
      by (intro exI [of _ u]) (force simp: replies_ok_def in_book_messages)
  qed (simp add: receive_new_thread, force)
  then obtain u where u: "receive ?m u \<in> set ts" "\<forall>n \<in> set (th_messages u). n \<in> set (book_messages rt)"
    "\<forall>n \<in> set (th_messages u). \<forall>j. ms_in_reply_to n = Some j \<longrightarrow> j \<in> ms_id ` set (book_messages rt)"
    "th_id u = po_thread p" "th_resolution u = OpenThread \<or> thread_round u \<noteq> None" by blast
  have ok: "book_ok rt'" by (rule book_ok_post [OF assms(1,3)])
  have book: "book_thread rt' (po_thread p) = Some (receive ?m u)"
    using book_ok_thread [OF ok, of "receive ?m u"] u(1,4) new(6) by simp
  have seq: "\<forall>n \<in> set (th_messages u). ms_sequence n < ms_sequence ?m"
    using u(2) assms(1) by (auto simp: book_ok_def le_imp_less_Suc)
  have "\<forall>n \<in> set (th_messages u). ms_in_reply_to n \<noteq> Some (ms_id ?m)" using u(3) new(1) by auto
  from not_answered_yet [OF this seq] assms(5) have free: "\<not> is_answered (receive ?m u) ?m" by simp
  have last: "last_comment (receive ?m u) = Some ?m" using assms(5) by simp
  have pos: "position_in (rt_answered rt') (po_thread p) < ms_sequence ?m"
    using assms(1) new(6) by (simp add: book_ok_def le_imp_less_Suc)
  have res: "th_resolution (receive ?m u) = OpenThread"
    using u(5) assms(5) by (auto simp: receive_def Let_def)
  have pend: "pending rt' (receive ?m u)"
    unfolding pending_iff [OF book_ok_in_order [OF ok book]] using res last free pos u(4) by auto
  moreover have "pending_for rt' rc (receive ?m u)" if "ms_from_tab (po_message p) = Some (rc_tab rc)" for rc
    using pend free pos that assms(5) u(4) by (simp add: pending_for_def)
  ultimately show thesis using book last that by blast
qed (use assms(4) in simp)

lemma pending_for_pending: "pending_for rt rc t \<Longrightarrow> pending rt t"
  by (simp add: pending_for_def)

text \<open>A Retry that covers a thread's latest comment makes the thread its tab's own.\<close>

lemma pending_for_retried:
  assumes "book_ok rt" "book_thread rt i = Some t" "last_comment t = Some l"
    and "ms_sequence l \<le> position_in (rc_retried rc) i"
  shows "pending_for rt rc t \<longleftrightarrow> pending rt t"
proof
  assume "pending rt t"
  then have "\<not> is_answered t l \<and> position_in (rt_answered rt) (th_id t) < ms_sequence l"
    using pending_iff [OF book_ok_in_order [OF assms(1,2)]] assms(3) by simp
  with last_comment_SomeD [OF assms(3) book_ok_in_order [OF assms(1,2)]] book_thread_id [OF assms(2)]
  show "pending_for rt rc t" using \<open>pending rt t\<close> assms(4) by (auto simp: pending_for_def list_ex_iff)
qed (rule pending_for_pending)

section \<open>Reading and resolving\<close>

lemma book_ok_update:
  assumes "book_ok rt" "\<And>t. th_id (f t) = th_id t \<and> th_messages (f t) = th_messages t \<and>
    (th_seen_through t \<le> rt_sequence rt \<longrightarrow> th_seen_through (f t) \<le> rt_sequence rt)"
  shows "book_ok (rt\<lparr>rt_threads := map f (rt_threads rt)\<rparr>)"
    "book_ok (rt\<lparr>rt_threads := update_first q f (rt_threads rt)\<rparr>)"
proof -
  have one: "map th_messages (map f ts) = map th_messages ts" "map th_id (map f ts) = map th_id ts"
    "map th_messages (update_first q f ts) = map th_messages ts" "map th_id (update_first q f ts) = map th_id ts" for ts
    using assms(2) by (auto simp: map_update_first)
  have ord: "in_order (f t) \<longleftrightarrow> in_order t" for t using assms(2) by (simp add: in_order_def)
  show "book_ok (rt\<lparr>rt_threads := map f (rt_threads rt)\<rparr>)"
    using assms one(1,2) [of "rt_threads rt"] ord by (simp add: book_ok_def book_messages_def del: map_map)
  have "set (update_first q f (rt_threads rt)) \<subseteq> set (rt_threads rt) \<union> f ` set (rt_threads rt)"
    using set_update_first by fastforce
  then have "\<forall>t \<in> set (update_first q f (rt_threads rt)). in_order t \<and> th_seen_through t \<le> rt_sequence rt"
    using assms ord by (auto simp: book_ok_def)
  then show "book_ok (rt\<lparr>rt_threads := update_first q f (rt_threads rt)\<rparr>)"
    using assms(1) one(3,4) [of "rt_threads rt"] by (simp add: book_ok_def book_messages_def)
qed

lemma book_ok_set_resolution: "book_ok rt \<Longrightarrow> set_resolution i r rt = Inr rt' \<Longrightarrow> book_ok rt'"
  by (auto simp: set_resolution_def split: if_splits intro!: book_ok_update(2))

lemma book_ok_mark_read: "book_ok rt \<Longrightarrow> mark_read i n rt = Inr rt' \<Longrightarrow> book_ok rt'"
  by (auto simp: mark_read_def split: if_splits intro!: book_ok_update(2))

lemma read_replies_simps [simp]:
  "th_id (read_replies ids t) = th_id t" "th_messages (read_replies ids t) = th_messages t"
  "th_seen_through (read_replies ids t) = th_seen_through t" "th_resolution (read_replies ids t) = th_resolution t"
  by (induction ids arbitrary: t) (simp_all add: read_replies_def)

lemma book_ok_mark_replies_read: "book_ok rt \<Longrightarrow> book_ok (mark_replies_read ids rt)"
  unfolding mark_replies_read_def by (rule book_ok_update(1)) simp_all

lemma unread_read_replies:
  "unread_replies (read_replies ids t) = filter (\<lambda>m. ms_id m \<notin> set ids) (unread_replies t)"
proof (induction ids arbitrary: t)
  case (Cons i ids)
  let ?t = "if has_unread_reply t i then t\<lparr>th_seen_replies := insert i (th_seen_replies t)\<rparr> else t"
  have "unread_replies ?t = filter (\<lambda>m. ms_id m \<noteq> i) (unread_replies t)"
    by (auto simp: unread_replies_def has_unread_reply_def list_ex_iff intro!: filter_cong)
  moreover have "read_replies (i # ids) t = read_replies ids ?t" by (simp add: read_replies_def)
  ultimately show ?case using Cons.IH [of ?t] by (simp add: conj_commute)
qed (simp add: read_replies_def)

lemma unread_mark_read:
  assumes "book_ok rt" "book_thread rt i = Some t" "mark_read i n rt = Inr rt'"
  shows "\<exists>t'. book_thread rt' i = Some t' \<and>
    unread_replies t' = filter (\<lambda>m. n < ms_sequence m) (unread_replies t) \<and> th_messages t' = th_messages t"
proof -
  let ?f = "\<lambda>t. t\<lparr>th_seen_through := max (th_seen_through t) (min n (rt_sequence rt))\<rparr>"
  have rt': "rt' = rt\<lparr>rt_threads := update_first (\<lambda>t. th_id t = i) ?f (rt_threads rt)\<rparr>"
    using assms(2,3) by (simp add: mark_read_def)
  have "book_thread rt' i = Some (?f t)"
    using assms(2) by (simp add: rt' book_thread_def find_update_first)
  moreover have "ms_sequence m \<le> rt_sequence rt" if "m \<in> set (th_messages t)" for m
  proof -
    have "m \<in> set (book_messages rt)" using assms(2) that by (auto simp: in_book_messages dest: book_thread_SomeD)
    then show ?thesis using assms(1) by (simp add: book_ok_def)
  qed
  then have "unread_replies (?f t) = filter (\<lambda>m. n < ms_sequence m) (unread_replies t)"
    by (fastforce simp: unread_replies_def intro!: filter_cong)
  ultimately show ?thesis by simp
qed

lemma retry_iff: "retry rt i = Inr () \<longleftrightarrow> (\<exists>t. book_thread rt i = Some t \<and> pending rt t)"
  by (auto simp: retry_def split: option.splits)

end
