(* ===== verification/ThreadMerge.thy ===== *)
theory ThreadMerge
  imports ThreadLaws "HOL-Library.Multiset"
begin

text \<open>
  One review's threads kept in two documents, merged into one (crates/review-threads/src/merge.rs).

  The messages the first document lacks take sequence numbers after its own, in the posting order of
  the second. The lemmas: merging keeps \<open>book_ok\<close>, a thread that only the second document has stays
  pending or answered as it was, and merging the same document again changes nothing.
\<close>

definition known_sequences :: "review_threads \<Rightarrow> (bytes \<rightharpoonup> nat)" where
  "known_sequences rt = map_of (rev (map (\<lambda>m. (ms_id m, ms_sequence m)) (book_messages rt)))"

definition arriving_messages :: "review_threads \<Rightarrow> review_threads \<Rightarrow> (nat \<times> bytes) list" where
  "arriving_messages rt other =
     sort (map (\<lambda>m. (ms_sequence m, ms_id m))
       (filter (\<lambda>m. known_sequences rt (ms_id m) = None) (book_messages other)))"

definition number_step :: "nat \<times> (bytes \<rightharpoonup> nat) \<Rightarrow> nat \<times> bytes \<Rightarrow> (nat \<times> (bytes \<rightharpoonup> nat)) option" where
  "number_step st msg =
     map_option (\<lambda>n. (n, (snd st)(snd msg \<mapsto> n))) (u64_checked_add (fst st) 1)"

definition merged_sequence :: "(bytes \<rightharpoonup> nat) \<Rightarrow> (bytes \<rightharpoonup> nat) \<Rightarrow> message \<Rightarrow> nat" where
  "merged_sequence renumbered known m =
     (case renumbered (ms_id m) of
        Some n \<Rightarrow> n
      | None \<Rightarrow> (case known (ms_id m) of Some n \<Rightarrow> n | None \<Rightarrow> 0))"

definition translate_position :: "(message \<Rightarrow> nat) \<Rightarrow> review_thread \<Rightarrow> nat \<Rightarrow> nat" where
  "translate_position merged t position =
     (case max_of (map merged (filter (\<lambda>m. ms_sequence m \<le> position) (th_messages t))) of
        Some n \<Rightarrow> n
      | None \<Rightarrow> 0)"

definition arrived_messages :: "(bytes \<rightharpoonup> nat) \<Rightarrow> review_thread \<Rightarrow> message list" where
  "arrived_messages renumbered t =
     sort_key ms_sequence
       (filter_map (\<lambda>m. map_option (\<lambda>n. m\<lparr>ms_sequence := n\<rparr>) (renumbered (ms_id m))) (th_messages t))"

definition merge_kept :: "message list \<Rightarrow> nat \<Rightarrow> review_thread \<Rightarrow> review_thread \<Rightarrow> review_thread" where
  "merge_kept arrived seen t kept =
     (let kept = (if arrived \<noteq> [] \<and> th_resolution t = OpenThread then kept\<lparr>th_resolution := OpenThread\<rparr> else kept)
      in kept\<lparr>th_messages := th_messages kept @ arrived,
              th_seen_through := max (th_seen_through kept) seen,
              th_seen_replies := th_seen_replies kept \<union> th_seen_replies t\<rparr>)"

definition merge_thread ::
  "(bytes \<rightharpoonup> nat) \<Rightarrow> (bytes \<rightharpoonup> nat) \<Rightarrow> (bytes \<rightharpoonup> nat) \<Rightarrow> review_threads \<Rightarrow> review_thread \<Rightarrow> review_threads" where
  "merge_thread renumbered known other_answered rt t =
     (let move = translate_position (merged_sequence renumbered known) t;
          answered = map_option move (other_answered (th_id t));
          seen = move (th_seen_through t);
          arrived = arrived_messages renumbered t;
          ts = (if book_thread rt (th_id t) = None
                then rt_threads rt @ [t\<lparr>th_messages := arrived, th_seen_through := seen\<rparr>]
                else update_first (\<lambda>kept. th_id kept = th_id t) (merge_kept arrived seen t) (rt_threads rt))
      in rt\<lparr>rt_threads := ts,
            rt_answered := (case answered of
                None \<Rightarrow> rt_answered rt
              | Some n \<Rightarrow> (rt_answered rt)(th_id t \<mapsto> max (position_in (rt_answered rt) (th_id t)) n))\<rparr>)"

definition merge_books :: "review_threads \<Rightarrow> review_threads \<Rightarrow> thread_error + review_threads" where
  "merge_books rt other =
     (if rt_unit other \<noteq> rt_unit rt then Inl OtherReview
      else case fold_opt number_step (rt_sequence rt, Map.empty) (arriving_messages rt other) of
        None \<Rightarrow> Inl TooManyMessages
      | Some (n, renumbered) \<Rightarrow>
          Inr ((foldl (merge_thread renumbered (known_sequences rt) (rt_answered other)) rt (rt_threads other))
            \<lparr>rt_sequence := n\<rparr>))"

section \<open>The new numbers\<close>

lemma number_step_eq:
  "number_step (n, r) x = (if n + 1 \<le> u64_max then Some (n + 1, r(snd x \<mapsto> n + 1)) else None)"
  by (simp add: number_step_def u64_checked_add_def)

lemma number_fold:
  "fold_opt number_step (n, r) xs = Some (k, r') \<Longrightarrow> distinct (map snd xs) \<Longrightarrow>
     k = n + length xs \<and> (n \<le> u64_max \<longrightarrow> k \<le> u64_max) \<and> (\<forall>i. i \<notin> snd ` set xs \<longrightarrow> r' i = r i) \<and>
     (\<forall>j < length xs. r' (snd (xs ! j)) = Some (n + Suc j))"
proof (induction xs arbitrary: n r)
  case (Cons x xs)
  from Cons.prems(1) have max: "n + 1 \<le> u64_max"
    and fold: "fold_opt number_step (n + 1, r(snd x \<mapsto> n + 1)) xs = Some (k, r')"
    by (auto simp: number_step_eq split: if_splits)
  from Cons.IH [OF fold] Cons.prems(2) have IH: "k = n + 1 + length xs" "k \<le> u64_max"
    "\<forall>i. i \<notin> snd ` set xs \<longrightarrow> r' i = (r(snd x \<mapsto> n + 1)) i"
    "\<forall>j < length xs. r' (snd (xs ! j)) = Some (n + 1 + Suc j)" using max by auto
  have "r' (snd x) = Some (n + 1)" using IH(3) Cons.prems(2) by auto
  then have "r' (snd ((x # xs) ! j)) = Some (n + Suc j)" if "j < length (x # xs)" for j
    using IH(4) that by (cases j) auto
  then show ?case using IH by auto
qed simp

text \<open>What merging relies on: new numbers follow the old ones, each is used once, and they keep the order of
  the messages.\<close>

definition renumbering :: "review_threads \<Rightarrow> review_threads \<Rightarrow> (bytes \<rightharpoonup> nat) \<Rightarrow> nat \<Rightarrow> bool" where
  "renumbering rt other r n \<longleftrightarrow>
     rt_sequence rt \<le> n \<and> n \<le> u64_max \<and>
     dom r = ms_id ` set (book_messages other) - ms_id ` set (book_messages rt) \<and>
     (\<forall>i k. r i = Some k \<longrightarrow> rt_sequence rt < k \<and> k \<le> n) \<and>
     (\<forall>i j k. r i = Some k \<and> r j = Some k \<longrightarrow> i = j) \<and>
     (\<forall>l \<in> set (book_messages other). \<forall>m \<in> set (book_messages other). \<forall>j k.
        ms_sequence l < ms_sequence m \<and> r (ms_id l) = Some j \<and> r (ms_id m) = Some k \<longrightarrow> j < k)"

lemma known_sequences_None_iff: "known_sequences rt i = None \<longleftrightarrow> i \<notin> ms_id ` set (book_messages rt)"
  by (force simp: known_sequences_def map_of_eq_None_iff)

lemma known_sequences_Some:
  assumes "book_ok rt" "m \<in> set (book_messages rt)"
  shows "known_sequences rt (ms_id m) = Some (ms_sequence m)"
proof -
  have "distinct (map fst (rev (map (\<lambda>m. (ms_id m, ms_sequence m)) (book_messages rt))))"
    using assms(1) by (simp add: book_ok_def rev_map [symmetric] o_def)
  moreover have "(ms_id m, ms_sequence m) \<in> set (rev (map (\<lambda>m. (ms_id m, ms_sequence m)) (book_messages rt)))"
    using assms(2) by force
  ultimately show ?thesis unfolding known_sequences_def by (rule map_of_is_SomeI)
qed

lemma renumbering_arriving:
  assumes "book_ok rt" "book_ok other"
    and "fold_opt number_step (rt_sequence rt, Map.empty) (arriving_messages rt other) = Some (n, r)"
  shows "renumbering rt other r n"
proof -
  let ?xs = "arriving_messages rt other"
  let ?ms = "filter (\<lambda>m. known_sequences rt (ms_id m) = None) (book_messages other)"
  have set: "set ?xs = (\<lambda>m. (ms_sequence m, ms_id m)) ` set ?ms" by (simp add: arriving_messages_def)
  have "distinct (map ms_id (book_messages other))" using assms(2) by (simp add: book_ok_def)
  then have "distinct (map ms_id ?ms)" by (rule distinct_map_filter)
  moreover have "mset (map snd ?xs) = mset (map ms_id ?ms)"
    by (simp add: arriving_messages_def image_mset.compositionality o_def)
  ultimately have dist: "distinct (map snd ?xs)" using mset_eq_imp_distinct_iff by blast
  have max: "rt_sequence rt \<le> u64_max" using assms(1) by (simp add: book_ok_def)
  from number_fold [OF assms(3) dist] max have f: "n = rt_sequence rt + length ?xs" "n \<le> u64_max"
    "\<And>i. i \<notin> snd ` set ?xs \<Longrightarrow> r i = None"
    "\<And>j. j < length ?xs \<Longrightarrow> r (snd (?xs ! j)) = Some (rt_sequence rt + Suc j)" by auto
  have at: "\<exists>j < length ?xs. snd (?xs ! j) = i \<and> k = rt_sequence rt + Suc j" if "r i = Some k" for i k
  proof -
    have "i \<in> snd ` set ?xs"
    proof (rule ccontr)
      assume "i \<notin> snd ` set ?xs"
      from f(3) [OF this] that show False by simp
    qed
    then obtain j where "j < length ?xs" "snd (?xs ! j) = i" by (metis imageE in_set_conv_nth)
    with f(4) [of j] that show ?thesis by auto
  qed
  have "i \<in> dom r \<longleftrightarrow> i \<in> snd ` set ?xs" for i
  proof
    assume dom: "i \<in> dom r"
    show "i \<in> snd ` set ?xs"
    proof (rule ccontr)
      assume "i \<notin> snd ` set ?xs"
      from f(3) [OF this] dom show False by (simp add: domIff)
    qed
  next
    assume "i \<in> snd ` set ?xs"
    then obtain j where "j < length ?xs" "snd (?xs ! j) = i" by (metis imageE in_set_conv_nth)
    with f(4) [of j] show "i \<in> dom r" by (simp add: domIff)
  qed
  then have "dom r = snd ` set ?xs" by blast
  then have dom: "dom r = ms_id ` set (book_messages other) - ms_id ` set (book_messages rt)"
    unfolding set by (auto simp: known_sequences_None_iff image_iff)
  have order: "j < k" if l: "l \<in> set (book_messages other)" and m: "m \<in> set (book_messages other)"
    and lt: "ms_sequence l < ms_sequence m" and rl: "r (ms_id l) = Some j" and rm: "r (ms_id m) = Some k" for l m j k
  proof -
    obtain a where a: "a < length ?xs" "snd (?xs ! a) = ms_id l" "j = rt_sequence rt + Suc a"
      using at [OF rl] by blast
    obtain b where b: "b < length ?xs" "snd (?xs ! b) = ms_id m" "k = rt_sequence rt + Suc b"
      using at [OF rm] by blast
    have seq: "fst (?xs ! c) = ms_sequence u" if "c < length ?xs" "snd (?xs ! c) = ms_id u" "u \<in> set (book_messages other)"
      for c u
    proof -
      have "?xs ! c \<in> set ?xs" using that(1) by simp
      then obtain v where "v \<in> set (book_messages other)" "?xs ! c = (ms_sequence v, ms_id v)" by (auto simp: set)
      with book_ok_same_id [OF assms(2), of v u] that show ?thesis by simp
    qed
    have "sorted ?xs" by (simp add: arriving_messages_def)
    then have "\<not> b \<le> a" using seq [OF a(1,2) l] seq [OF b(1,2) m] lt sorted_nth_mono [of ?xs b a] a(1)
      by (force simp: less_eq_prod_def)
    with a b show ?thesis by simp
  qed
  have inj: "i = j" if "r i = Some k" "r j = Some k" for i j k
    using at [OF that(1)] at [OF that(2)] by auto
  show ?thesis unfolding renumbering_def
  proof (intro conjI allI impI ballI)
    show "rt_sequence rt \<le> n" "n \<le> u64_max" using f(1,2) by simp_all
    show "rt_sequence rt < k" "k \<le> n" if "r i = Some k" for i k using at [OF that] f(1) by auto
    show "dom r = ms_id ` set (book_messages other) - ms_id ` set (book_messages rt)" by (rule dom)
    show "i = j" if "r i = Some k \<and> r j = Some k" for i j k using inj that by blast
    show "j < k" if "l \<in> set (book_messages other)" "m \<in> set (book_messages other)"
      "ms_sequence l < ms_sequence m \<and> r (ms_id l) = Some j \<and> r (ms_id m) = Some k" for l m j k
      by (rule order [OF that(1,2)]) (use that(3) in simp_all)
  qed
qed

section \<open>The messages that arrive in a thread\<close>

lemma renumberingD:
  assumes "renumbering rt other r n"
  shows "rt_sequence rt \<le> n" "n \<le> u64_max" "r i = Some k \<Longrightarrow> rt_sequence rt < k \<and> k \<le> n"
    "r i = Some k \<Longrightarrow> r j = Some k \<Longrightarrow> i = j"
    "r i = None \<longleftrightarrow> i \<notin> ms_id ` set (book_messages other) \<or> i \<in> ms_id ` set (book_messages rt)"
    "l \<in> set (book_messages other) \<Longrightarrow> m \<in> set (book_messages other) \<Longrightarrow> ms_sequence l < ms_sequence m \<Longrightarrow>
       r (ms_id l) = Some a \<Longrightarrow> r (ms_id m) = Some b \<Longrightarrow> a < b"
  using assms unfolding renumbering_def by (blast | (fastforce simp: domIff [symmetric]))+

lemma set_arrived: "set (arrived_messages r t) = {m\<lparr>ms_sequence := k\<rparr> | m k. m \<in> set (th_messages t) \<and> r (ms_id m) = Some k}"
  by (auto simp: arrived_messages_def set_filter_map)

lemma map_ms_id_arrived:
  "map ms_id (filter_map (\<lambda>m. map_option (\<lambda>k. m\<lparr>ms_sequence := k\<rparr>) (r (ms_id m))) ms) =
     filter (\<lambda>i. r i \<noteq> None) (map ms_id ms)"
  by (induction ms) (auto simp: list_of_option_def split: option.splits)

lemma map_sequence_arrived:
  "map ms_sequence (filter_map (\<lambda>m. map_option (\<lambda>k. m\<lparr>ms_sequence := k\<rparr>) (r (ms_id m))) ms) =
     map (the \<circ> r) (filter (\<lambda>i. r i \<noteq> None) (map ms_id ms))"
  by (induction ms) (auto simp: list_of_option_def split: option.splits)

lemma distinct_sort_key: "distinct (map f (sort_key g xs)) \<longleftrightarrow> distinct (map f xs)"
proof -
  have "mset (map f (sort_key g xs)) = mset (map f xs)" by simp
  then show ?thesis using mset_eq_imp_distinct_iff by blast
qed

lemma arrived_distinct:
  assumes "distinct (map ms_id (th_messages t))" "\<And>i j k. r i = Some k \<Longrightarrow> r j = Some k \<Longrightarrow> i = j"
  shows "distinct (map ms_id (arrived_messages r t))" "distinct (map ms_sequence (arrived_messages r t))"
    "sorted_wrt (<) (map ms_sequence (arrived_messages r t))"
proof -
  let ?ms = "filter_map (\<lambda>m. map_option (\<lambda>k. m\<lparr>ms_sequence := k\<rparr>) (r (ms_id m))) (th_messages t)"
  have ids: "distinct (filter (\<lambda>i. r i \<noteq> None) (map ms_id (th_messages t)))" using assms(1) by simp
  then have "distinct (map ms_id ?ms)" by (simp only: map_ms_id_arrived)
  then show "distinct (map ms_id (arrived_messages r t))" by (simp add: arrived_messages_def distinct_sort_key)
  have "inj_on (the \<circ> r) (set (filter (\<lambda>i. r i \<noteq> None) (map ms_id (th_messages t))))"
    using assms(2) by (auto simp: inj_on_def)
  with ids have "distinct (map ms_sequence ?ms)" by (simp only: map_sequence_arrived distinct_map)
  then show seqs: "distinct (map ms_sequence (arrived_messages r t))" by (simp add: arrived_messages_def distinct_sort_key)
  have "sorted (map ms_sequence (arrived_messages r t))" by (simp add: arrived_messages_def)
  with seqs show "sorted_wrt (<) (map ms_sequence (arrived_messages r t))"
    by (simp add: strict_sorted_iff)
qed

lemma merged_le:
  assumes "book_ok rt" "renumbering rt other r n"
  shows "merged_sequence r (known_sequences rt) m \<le> n"
proof (cases "r (ms_id m)")
  case (Some k)
  then show ?thesis using renumberingD(3) [OF assms(2)] by (simp add: merged_sequence_def)
next
  case None
  show ?thesis
  proof (cases "known_sequences rt (ms_id m)")
    case (Some k)
    then have "ms_id m \<in> ms_id ` set (book_messages rt)" using known_sequences_None_iff [of rt "ms_id m"] by force
    then obtain l where l: "l \<in> set (book_messages rt)" "ms_id l = ms_id m" by auto
    with known_sequences_Some [OF assms(1) l(1)] Some have "k = ms_sequence l" by simp
    then have "k \<le> rt_sequence rt" using assms(1) l(1) by (simp add: book_ok_def)
    then show ?thesis using None Some renumberingD(1) [OF assms(2)] by (simp add: merged_sequence_def)
  qed (use None in \<open>simp add: merged_sequence_def\<close>)
qed

lemma max_of_le: "(\<And>x. x \<in> set xs \<Longrightarrow> x \<le> n) \<Longrightarrow> (case max_of xs of Some m \<Rightarrow> m | None \<Rightarrow> 0) \<le> (n :: nat)"
  by (auto simp: max_of_def)

lemma translate_position_le:
  "(\<And>m. merged m \<le> n) \<Longrightarrow> translate_position merged t position \<le> n"
  unfolding translate_position_def by (rule max_of_le) auto

lemma merge_kept_simps [simp]:
  "th_id (merge_kept arrived seen t u) = th_id u" "th_messages (merge_kept arrived seen t u) = th_messages u @ arrived"
  "th_seen_through (merge_kept arrived seen t u) = max (th_seen_through u) seen"
  "th_seen_replies (merge_kept arrived seen t u) = th_seen_replies u \<union> th_seen_replies t"
  "th_subject (merge_kept arrived seen t u) = th_subject u"
  by (simp_all add: merge_kept_def Let_def)

section \<open>Merging one thread\<close>

text \<open>How the threads change: what arrived goes to the end of the thread with the same identity, or starts it.\<close>

definition merged_into :: "message list \<Rightarrow> nat \<Rightarrow> review_thread \<Rightarrow> review_thread list \<Rightarrow> review_thread list \<Rightarrow> bool" where
  "merged_into arrived seen t old new \<longleftrightarrow>
     (\<exists>xs u ys. old = xs @ u # ys \<and> th_id u = th_id t \<and> new = xs @ merge_kept arrived seen t u # ys) \<or>
     (th_id t \<notin> th_id ` set old \<and> new = old @ [t\<lparr>th_messages := arrived, th_seen_through := seen\<rparr>])"

lemma merge_thread_into:
  fixes r known positions rt t
  defines "move \<equiv> translate_position (merged_sequence r known) t"
  shows "merged_into (arrived_messages r t) (move (th_seen_through t)) t
      (rt_threads rt) (rt_threads (merge_thread r known positions rt t)) \<and>
    rt_sequence (merge_thread r known positions rt t) = rt_sequence rt \<and>
    rt_unit (merge_thread r known positions rt t) = rt_unit rt \<and>
    (\<forall>i. position_in (rt_answered (merge_thread r known positions rt t)) i =
       (if i = th_id t then max (position_in (rt_answered rt) i) (case positions i of Some n \<Rightarrow> move n | None \<Rightarrow> 0)
        else position_in (rt_answered rt) i))"
proof -
  let ?new = "t\<lparr>th_messages := arrived_messages r t, th_seen_through := move (th_seen_through t)\<rparr>"
  let ?f = "merge_kept (arrived_messages r t) (move (th_seen_through t)) t"
  have "merged_into (arrived_messages r t) (move (th_seen_through t)) t (rt_threads rt)
      (if book_thread rt (th_id t) = None then rt_threads rt @ [?new]
       else update_first (\<lambda>u. th_id u = th_id t) ?f (rt_threads rt))"
  proof (cases "book_thread rt (th_id t)")
    case None
    then show ?thesis by (simp add: merged_into_def book_thread_None_iff [symmetric])
  next
    case (Some u)
    from find_split [OF Some [unfolded book_thread_def]] obtain xs ys where
      "rt_threads rt = xs @ u # ys" "th_id u = th_id t"
      "update_first (\<lambda>u. th_id u = th_id t) ?f (rt_threads rt) = xs @ ?f u # ys" by metis
    with Some show ?thesis unfolding merged_into_def by (intro disjI1) auto
  qed
  then show ?thesis
    by (auto simp: merge_thread_def Let_def move_def split: option.splits)
qed

lemma merged_into_messages:
  assumes "merged_into arrived seen t old new"
  obtains xs ys where "concat (map th_messages old) = xs @ ys" "concat (map th_messages new) = xs @ arrived @ ys"
  using assms unfolding merged_into_def
proof (elim disjE exE conjE, goal_cases)
  case (1 xs u ys)
  show ?case by (rule 1(1) [of "concat (map th_messages xs) @ th_messages u" "concat (map th_messages ys)"]) (simp_all add: 1)
next
  case 2
  show ?case by (rule 2(1) [of "concat (map th_messages old)" "[]"]) (simp_all add: 2)
qed

lemma merged_into_ids:
  "merged_into arrived seen t old new \<Longrightarrow> distinct (map th_id old) \<Longrightarrow>
     distinct (map th_id new) \<and> set (map th_id new) = insert (th_id t) (set (map th_id old))"
  by (auto simp: merged_into_def)

text \<open>What holds while the threads \<open>ts\<close> of the second document are still to be merged.\<close>

definition merging :: "(bytes \<rightharpoonup> nat) \<Rightarrow> nat \<Rightarrow> review_threads \<Rightarrow> review_thread list \<Rightarrow> bool" where
  "merging r n0 s ts \<longleftrightarrow>
     book_ok s \<and> distinct (map th_id ts) \<and> distinct (map ms_id (concat (map th_messages ts))) \<and>
     (\<forall>t \<in> set ts. \<forall>m \<in> set (th_messages t). \<forall>k. r (ms_id m) = Some k \<longrightarrow>
        ms_id m \<notin> ms_id ` set (book_messages s) \<and> k \<notin> ms_sequence ` set (book_messages s) \<and>
        n0 < k \<and> k \<le> rt_sequence s) \<and>
     (\<forall>t \<in> set ts. \<forall>u \<in> set (rt_threads s). th_id u = th_id t \<longrightarrow> (\<forall>m \<in> set (th_messages u). ms_sequence m \<le> n0))"

lemma merging_step:
  assumes "merging r n0 s (t # ts)" "\<And>m. merged_sequence r known m \<le> rt_sequence s"
    and inj: "\<And>i j k. r i = Some k \<Longrightarrow> r j = Some k \<Longrightarrow> i = j"
  shows "merging r n0 (merge_thread r known positions s t) ts"
proof -
  let ?s = "merge_thread r known positions s t" and ?A = "arrived_messages r t"
  let ?move = "translate_position (merged_sequence r known) t"
  note into = merge_thread_into [of r t known s positions]
  from assms(1) have ok: "book_ok s" and ids: "distinct (map th_id (t # ts))"
    and mids: "distinct (map ms_id (th_messages t))" "distinct (map ms_id (concat (map th_messages ts)))"
    and apart: "ms_id ` set (th_messages t) \<inter> ms_id ` set (concat (map th_messages ts)) = {}"
    by (auto simp: merging_def)
  have fresh: "ms_id m \<notin> ms_id ` set (book_messages s) \<and> k \<notin> ms_sequence ` set (book_messages s) \<and>
      n0 < k \<and> k \<le> rt_sequence s"
    if "u \<in> set (t # ts)" "m \<in> set (th_messages u)" "r (ms_id m) = Some k" for u m k
    using assms(1) that unfolding merging_def by blast
  have kept_old: "ms_sequence m \<le> n0" if "u \<in> set (rt_threads s)" "v \<in> set (t # ts)" "th_id u = th_id v"
    "m \<in> set (th_messages u)" for u v m using assms(1) that unfolding merging_def by blast
  have move: "?move position \<le> rt_sequence s" for position by (rule translate_position_le) (rule assms(2))
  obtain xs ys where old: "book_messages s = xs @ ys" and new: "book_messages ?s = xs @ ?A @ ys"
    using into by (auto simp: book_messages_def elim: merged_into_messages)
  have msgs: "set (book_messages ?s) = set (book_messages s) \<union> set ?A" using old new by auto
  have A: "ms_id m \<in> ms_id ` set (th_messages t) \<and> r (ms_id m) = Some (ms_sequence m) \<and>
      ms_id m \<notin> ms_id ` set (book_messages s) \<and> ms_sequence m \<notin> ms_sequence ` set (book_messages s) \<and>
      n0 < ms_sequence m \<and> ms_sequence m \<le> rt_sequence s" if "m \<in> set ?A" for m
  proof -
    from that obtain m0 k where m0: "m0 \<in> set (th_messages t)" "r (ms_id m0) = Some k" "m = m0\<lparr>ms_sequence := k\<rparr>"
      by (auto simp: set_arrived)
    have "t \<in> set (t # ts)" by simp
    from fresh [OF this m0(1,2)] m0 show ?thesis by auto
  qed
  have dist: "distinct (map ms_id ?A)" "distinct (map ms_sequence ?A)" "sorted_wrt (<) (map ms_sequence ?A)"
    by (rule arrived_distinct [OF mids(1), of r], erule (1) inj)+
  have "ms_id ` set ?A \<inter> ms_id ` (set xs \<union> set ys) = {}"
    "ms_sequence ` set ?A \<inter> ms_sequence ` (set xs \<union> set ys) = {}"
    using A by (auto simp: old)
  then have "distinct (map ms_id (book_messages ?s))" "distinct (map ms_sequence (book_messages ?s))"
    using ok dist(1,2) unfolding new by (simp_all add: book_ok_def old image_Un Int_Un_distrib Int_commute)
  moreover have "in_order u \<and> th_seen_through u \<le> rt_sequence s" if u: "u \<in> set (rt_threads ?s)" for u
  proof -
    have old_ok: "in_order v \<and> th_seen_through v \<le> rt_sequence s" if "v \<in> set (rt_threads s)" for v
      using ok that by (auto simp: book_ok_def)
    have kept: "in_order (merge_kept ?A (?move (th_seen_through t)) t v)" if "v \<in> set (rt_threads s)" "th_id v = th_id t" for v
      using old_ok [OF that(1)] kept_old [OF that(1) _ that(2)] dist(3) A
      by (fastforce simp: in_order_def sorted_wrt_append)
    have "in_order (t\<lparr>th_messages := ?A, th_seen_through := x\<rparr>)" for x using dist(3) by (simp add: in_order_def)
    with into u old_ok kept move show ?thesis by (auto simp: merged_into_def)
  qed
  moreover have "0 < ms_sequence m \<and> ms_sequence m \<le> rt_sequence s" if "m \<in> set (book_messages ?s)" for m
  proof (cases "m \<in> set ?A")
    case True
    from A [OF this] show ?thesis by simp
  next
    case False
    then show ?thesis using ok that msgs by (simp add: book_ok_def)
  qed
  moreover have "position_in (rt_answered ?s) i \<le> rt_sequence s" for i
    using into ok move by (auto simp: book_ok_def split: option.splits)
  moreover have "distinct (map th_id (rt_threads ?s))"
    using into merged_into_ids [of ?A "?move (th_seen_through t)" t "rt_threads s"] ok by (auto simp: book_ok_def)
  ultimately have ok': "book_ok ?s" using into ok by (simp add: book_ok_def)
  moreover have "ms_id m \<notin> ms_id ` set (book_messages ?s) \<and> k \<notin> ms_sequence ` set (book_messages ?s) \<and>
      n0 < k \<and> k \<le> rt_sequence ?s"
    if u: "u \<in> set ts" "m \<in> set (th_messages u)" "r (ms_id m) = Some k" for u m k
  proof -
    have "ms_id m \<notin> ms_id ` set (th_messages t)" using apart u(1,2) by auto
    with A inj u(3) have "ms_id m \<notin> ms_id ` set ?A" "k \<notin> ms_sequence ` set ?A" by (auto, metis)
    with fresh [of u m k] u into msgs show ?thesis by auto
  qed
  moreover have "ms_sequence m \<le> n0" if v: "v \<in> set ts" "u \<in> set (rt_threads ?s)" "th_id u = th_id v"
    "m \<in> set (th_messages u)" for v u m
  proof -
    have "th_id v \<in> th_id ` set ts" using v(1) by simp
    moreover have "th_id t \<notin> th_id ` set ts" using ids by simp
    ultimately have "th_id u \<noteq> th_id t" using v(3) by metis
    then have "u \<in> set (rt_threads s)" using into v(2) by (auto simp: merged_into_def)
    with kept_old v show ?thesis by auto
  qed
  ultimately show ?thesis using ids mids(2) unfolding merging_def by auto
qed

section \<open>Merging a book\<close>

lemma merging_start:
  assumes "book_ok rt" "book_ok other" "renumbering rt other r n"
  shows "merging r (rt_sequence rt) (rt\<lparr>rt_sequence := n\<rparr>) (rt_threads other)"
proof -
  note R = renumberingD [OF assms(3)]
  have max: "k \<le> rt_sequence rt \<Longrightarrow> k \<le> n" for k using R(1) by (rule le_trans [rotated])
  have ok: "book_ok (rt\<lparr>rt_sequence := n\<rparr>)"
    using assms(1) R(2) max by (auto simp: book_ok_def book_messages_def)
  have old: "ms_sequence m \<le> rt_sequence rt" if "m \<in> set (book_messages rt)" for m
    using assms(1) that by (simp add: book_ok_def)
  have "ms_id m \<notin> ms_id ` set (book_messages rt) \<and> k \<notin> ms_sequence ` set (book_messages rt) \<and>
      rt_sequence rt < k \<and> k \<le> n" if "r (ms_id m) = Some k" for m k
    using that R(3) [OF that] R(5) [of "ms_id m"] old by fastforce
  moreover have "ms_sequence m \<le> rt_sequence rt" if "u \<in> set (rt_threads rt)" "m \<in> set (th_messages u)" for u m
    using old that by (auto simp: in_book_messages)
  moreover have "book_messages (rt\<lparr>rt_sequence := n\<rparr>) = book_messages rt" by (simp add: book_messages_def)
  ultimately show ?thesis using ok assms(2) unfolding merging_def
    by (auto simp: book_ok_def book_messages_def [of other])
qed

lemma merging_fold:
  "merging r n0 s ts \<Longrightarrow> (\<And>m. merged_sequence r known m \<le> rt_sequence s) \<Longrightarrow>
     (\<And>i j k. r i = Some k \<Longrightarrow> r j = Some k \<Longrightarrow> i = j) \<Longrightarrow>
     merging r n0 (foldl (merge_thread r known positions) s ts) []"
proof (induction ts arbitrary: s)
  case (Cons t ts)
  have "merging r n0 (merge_thread r known positions s t) ts"
    by (rule merging_step [OF Cons.prems(1,2)]) (rule Cons.prems(3))
  moreover have "rt_sequence (merge_thread r known positions s t) = rt_sequence s"
    using merge_thread_into by blast
  ultimately show ?case using Cons.IH [of "merge_thread r known positions s t"] Cons.prems(2,3) by simp
qed simp

text \<open>The sequence number is not read while the threads are merged, so it can be set first.\<close>

lemma merge_thread_sequence:
  "merge_thread r known positions (rt\<lparr>rt_sequence := n\<rparr>) t = (merge_thread r known positions rt t)\<lparr>rt_sequence := n\<rparr>"
  by (cases rt) (simp add: merge_thread_def Let_def book_thread_def split: option.splits)

lemma merge_fold_sequence:
  "foldl (merge_thread r known positions) (rt\<lparr>rt_sequence := n\<rparr>) ts =
     (foldl (merge_thread r known positions) rt ts)\<lparr>rt_sequence := n\<rparr>"
  by (induction ts arbitrary: rt) (simp_all add: merge_thread_sequence)

lemma merge_books_InrD:
  assumes "merge_books rt other = Inr rt'" "book_ok rt" "book_ok other"
  obtains n r where "rt_unit other = rt_unit rt" "renumbering rt other r n"
    "fold_opt number_step (rt_sequence rt, Map.empty) (arriving_messages rt other) = Some (n, r)"
    "rt' = foldl (merge_thread r (known_sequences rt) (rt_answered other)) (rt\<lparr>rt_sequence := n\<rparr>) (rt_threads other)"
    "merging r (rt_sequence rt) (rt\<lparr>rt_sequence := n\<rparr>) (rt_threads other)"
proof -
  from assms(1) obtain n r where f: "rt_unit other = rt_unit rt"
    "fold_opt number_step (rt_sequence rt, Map.empty) (arriving_messages rt other) = Some (n, r)"
    "rt' = foldl (merge_thread r (known_sequences rt) (rt_answered other)) (rt\<lparr>rt_sequence := n\<rparr>) (rt_threads other)"
    by (auto simp: merge_books_def merge_fold_sequence split: if_splits option.splits)
  have "renumbering rt other r n" by (rule renumbering_arriving [OF assms(2,3) f(2)])
  with f merging_start [OF assms(2,3)] show thesis by (intro that) 
qed

lemma book_ok_merge:
  assumes "book_ok rt" "book_ok other" "merge_books rt other = Inr rt'"
  shows "book_ok rt'"
proof -
  obtain n r where f: "renumbering rt other r n"
    "rt' = foldl (merge_thread r (known_sequences rt) (rt_answered other)) (rt\<lparr>rt_sequence := n\<rparr>) (rt_threads other)"
    "merging r (rt_sequence rt) (rt\<lparr>rt_sequence := n\<rparr>) (rt_threads other)"
    using merge_books_InrD [OF assms(3,1,2)] by metis
  have "merging r (rt_sequence rt) rt' []" unfolding f(2)
    by (rule merging_fold [OF f(3)]) (use merged_le [OF assms(1) f(1)] renumberingD(4) [OF f(1)] in auto)
  then show ?thesis by (simp add: merging_def)
qed

section \<open>What each thread becomes\<close>

definition merged_thread :: "(bytes \<rightharpoonup> nat) \<Rightarrow> (bytes \<rightharpoonup> nat) \<Rightarrow> review_thread \<Rightarrow> review_thread option \<Rightarrow> review_thread" where
  "merged_thread r known t kept =
     (let arrived = arrived_messages r t;
          seen = translate_position (merged_sequence r known) t (th_seen_through t)
      in case kept of
           None \<Rightarrow> t\<lparr>th_messages := arrived, th_seen_through := seen\<rparr>
         | Some u \<Rightarrow> merge_kept arrived seen t u)"

definition merged_position ::
  "(bytes \<rightharpoonup> nat) \<Rightarrow> (bytes \<rightharpoonup> nat) \<Rightarrow> (bytes \<rightharpoonup> nat) \<Rightarrow> review_thread \<Rightarrow> nat option \<Rightarrow> nat option" where
  "merged_position r known positions t kept =
     (case positions (th_id t) of
        None \<Rightarrow> kept
      | Some p \<Rightarrow> Some (max (case kept of Some q \<Rightarrow> q | None \<Rightarrow> 0)
          (translate_position (merged_sequence r known) t p)))"

lemma merge_thread_at:
  "book_thread (merge_thread r known positions s t) i =
     (if i = th_id t then Some (merged_thread r known t (book_thread s i)) else book_thread s i)"
  "rt_answered (merge_thread r known positions s t) i =
     (if i = th_id t then merged_position r known positions t (rt_answered s i) else rt_answered s i)"
proof -
  have "find (\<lambda>u. th_id u = i) (update_first (\<lambda>u. th_id u = th_id t) (merge_kept a b t) ts) =
      (if i = th_id t then map_option (merge_kept a b t) (find (\<lambda>u. th_id u = i) ts) else find (\<lambda>u. th_id u = i) ts)"
    for a b ts
    by (induction ts) auto
  then show "book_thread (merge_thread r known positions s t) i =
     (if i = th_id t then Some (merged_thread r known t (book_thread s i)) else book_thread s i)"
    by (auto simp: merge_thread_def Let_def book_thread_def find_append merged_thread_def split: option.splits)
  show "rt_answered (merge_thread r known positions s t) i =
     (if i = th_id t then merged_position r known positions t (rt_answered s i) else rt_answered s i)"
    by (auto simp: merge_thread_def Let_def merged_position_def position_in_def split: option.splits)
qed

lemma merge_fold_at:
  "distinct (map th_id ts) \<Longrightarrow>
     book_thread (foldl (merge_thread r known positions) s ts) i =
       (case find (\<lambda>t. th_id t = i) ts of
          None \<Rightarrow> book_thread s i | Some t \<Rightarrow> Some (merged_thread r known t (book_thread s i))) \<and>
     rt_answered (foldl (merge_thread r known positions) s ts) i =
       (case find (\<lambda>t. th_id t = i) ts of
          None \<Rightarrow> rt_answered s i | Some t \<Rightarrow> merged_position r known positions t (rt_answered s i))"
proof (induction ts arbitrary: s)
  case (Cons t ts)
  show ?case
  proof (cases "th_id t = i")
    case True
    have "find (\<lambda>t. th_id t = i) ts = None" using Cons.prems True by (auto simp: find_None_iff image_iff)
    with Cons True show ?thesis by (simp add: merge_thread_at)
  next
    case False
    with Cons show ?thesis by (simp add: merge_thread_at split: option.splits)
  qed
qed simp

lemma merge_fold_ids:
  "set (map th_id (rt_threads (foldl (merge_thread r known positions) s ts))) =
     set (map th_id (rt_threads s)) \<union> th_id ` set ts"
proof (induction ts arbitrary: s)
  case (Cons t ts)
  have "set (map th_id (rt_threads (merge_thread r known positions s t))) = insert (th_id t) (set (map th_id (rt_threads s)))"
  proof (rule set_eqI)
    fix i
    have iff: "i \<in> set (map th_id (rt_threads u)) \<longleftrightarrow> book_thread u i \<noteq> None" for u
      by (simp only: book_thread_None_iff set_map not_not)
    show "i \<in> set (map th_id (rt_threads (merge_thread r known positions s t))) \<longleftrightarrow>
        i \<in> insert (th_id t) (set (map th_id (rt_threads s)))"
      unfolding iff insert_iff by (simp add: merge_thread_at)
  qed
  with Cons show ?case by auto
qed simp

section \<open>Merging again\<close>

lemma merged_message:
  assumes "book_ok rt" "book_ok other" "merge_books rt other = Inr rt'" "m \<in> set (book_messages rt)"
  shows "m \<in> set (book_messages rt')"
proof -
  have "set (book_messages s) \<subseteq> set (book_messages (foldl (merge_thread r known positions) s ts))" for r known positions s ts
  proof (induction ts arbitrary: s)
    case (Cons t ts)
    have "set (book_messages s) \<subseteq> set (book_messages (merge_thread r known positions s t))"
    proof -
      obtain xs ys where "book_messages s = xs @ ys"
        "book_messages (merge_thread r known positions s t) = xs @ arrived_messages r t @ ys"
        using merge_thread_into [of r t known s positions] merged_into_messages
        unfolding book_messages_def by metis
      then show ?thesis by auto
    qed
    with Cons [of "merge_thread r known positions s t"] show ?case by auto
  qed simp
  moreover obtain n r where "rt' = foldl (merge_thread r (known_sequences rt) (rt_answered other)) (rt\<lparr>rt_sequence := n\<rparr>) (rt_threads other)"
    using merge_books_InrD [OF assms(3,1,2)] by metis
  moreover have "book_messages (rt\<lparr>rt_sequence := n\<rparr>) = book_messages rt" for n by (simp add: book_messages_def)
  ultimately show ?thesis using assms(4) by (metis subsetD)
qed

lemma arrived_message:
  assumes "book_ok rt" "book_ok other" "merge_books rt other = Inr rt'"
    and "fold_opt number_step (rt_sequence rt, Map.empty) (arriving_messages rt other) = Some (n, r)"
    and "t \<in> set (rt_threads other)" "m \<in> set (th_messages t)" "r (ms_id m) = Some k"
  shows "m\<lparr>ms_sequence := k\<rparr> \<in> set (book_messages rt')"
proof -
  obtain n' r' where f: "fold_opt number_step (rt_sequence rt, Map.empty) (arriving_messages rt other) = Some (n', r')"
    "rt' = foldl (merge_thread r' (known_sequences rt) (rt_answered other)) (rt\<lparr>rt_sequence := n'\<rparr>) (rt_threads other)"
    using merge_books_InrD [OF assms(3,1,2)] by metis
  have r: "r' = r" "n' = n" using f(1) assms(4) by auto
  have dist: "distinct (map th_id (rt_threads other))" using assms(2) by (simp add: book_ok_def)
  have "find (\<lambda>u. th_id u = th_id t) (rt_threads other) = Some t"
    using book_ok_thread [OF assms(2,5)] by (simp add: book_thread_def)
  with merge_fold_at [OF dist, of r "known_sequences rt" "rt_answered other" "rt\<lparr>rt_sequence := n\<rparr>" "th_id t"] f(2) r
  have "book_thread rt' (th_id t) =
      Some (merged_thread r (known_sequences rt) t (book_thread (rt\<lparr>rt_sequence := n\<rparr>) (th_id t)))" by simp
  from book_thread_SomeD [OF this] obtain u where u: "u \<in> set (rt_threads rt')"
    "u = merged_thread r (known_sequences rt) t (book_thread (rt\<lparr>rt_sequence := n\<rparr>) (th_id t))" by blast
  have "m\<lparr>ms_sequence := k\<rparr> \<in> set (arrived_messages r t)" using assms(6,7) by (auto simp: set_arrived)
  then have "m\<lparr>ms_sequence := k\<rparr> \<in> set (th_messages u)"
    unfolding u(2) by (auto simp: merged_thread_def Let_def split: option.splits)
  with u(1) show ?thesis by (auto simp: in_book_messages)
qed

lemma arriving_Nil_iff:
  "arriving_messages rt other = [] \<longleftrightarrow> ms_id ` set (book_messages other) \<subseteq> ms_id ` set (book_messages rt)"
proof -
  have "arriving_messages rt other = [] \<longleftrightarrow> set (arriving_messages rt other) = {}" by (rule set_empty [symmetric])
  also have "\<dots> \<longleftrightarrow> (\<forall>m \<in> set (book_messages other). known_sequences rt (ms_id m) \<noteq> None)"
    unfolding arriving_messages_def set_sort set_map set_filter image_is_empty by (simp only: Collect_empty_eq) metis
  also have "\<dots> \<longleftrightarrow> ms_id ` set (book_messages other) \<subseteq> ms_id ` set (book_messages rt)"
    unfolding known_sequences_None_iff by blast
  finally show ?thesis .
qed

lemma arrived_none [simp]: "arrived_messages Map.empty t = []"
proof -
  have "filter_map (\<lambda>m. None) ms = ([] :: message list)" for ms :: "message list" by (induction ms) simp_all
  then show ?thesis by (simp add: arrived_messages_def)
qed

lemma translate_position_cong:
  assumes "\<And>m. m \<in> set (th_messages t) \<Longrightarrow> f m = g m"
  shows "translate_position f t p = translate_position g t p"
proof -
  have "map f (filter (\<lambda>m. ms_sequence m \<le> p) (th_messages t)) = map g (filter (\<lambda>m. ms_sequence m \<le> p) (th_messages t))"
    by (rule map_cong) (use assms in auto)
  then show ?thesis by (simp only: translate_position_def)
qed

lemma merged_ids:
  assumes ok: "book_ok rt" "book_ok other" and merge: "merge_books rt other = Inr rt'"
  shows "ms_id ` set (book_messages other) \<subseteq> ms_id ` set (book_messages rt')"
proof clarify
  obtain n r where R: "renumbering rt other r n"
    and fold: "fold_opt number_step (rt_sequence rt, Map.empty) (arriving_messages rt other) = Some (n, r)"
    using merge_books_InrD [OF merge ok] by metis
  fix m assume m: "m \<in> set (book_messages other)"
  then obtain t where t: "t \<in> set (rt_threads other)" "m \<in> set (th_messages t)" by (auto simp: in_book_messages)
  show "ms_id m \<in> ms_id ` set (book_messages rt')"
  proof (cases "r (ms_id m)")
    case (Some k)
    from imageI [OF arrived_message [OF ok merge fold t Some], of ms_id] show ?thesis by simp
  next
    case None
    with m renumberingD(5) [OF R, of "ms_id m"] have "ms_id m \<in> ms_id ` set (book_messages rt)" by blast
    then obtain l where l: "l \<in> set (book_messages rt)" "ms_id m = ms_id l" by (elim imageE)
    from imageI [OF merged_message [OF ok merge l(1)], of ms_id] l(2) show ?thesis by simp
  qed
qed

lemma merge_again:
  assumes ok: "book_ok rt" "book_ok other" and merge: "merge_books rt other = Inr rt'"
  shows "merge_books rt' other = Inr rt'"
proof -
  obtain n r where unit: "rt_unit other = rt_unit rt" and R: "renumbering rt other r n"
    and fold: "fold_opt number_step (rt_sequence rt, Map.empty) (arriving_messages rt other) = Some (n, r)"
    and rt': "rt' = foldl (merge_thread r (known_sequences rt) (rt_answered other)) (rt\<lparr>rt_sequence := n\<rparr>) (rt_threads other)"
    using merge_books_InrD [OF merge ok] by metis
  have ok': "book_ok rt'" by (rule book_ok_merge [OF ok merge])
  have dist: "distinct (map th_id (rt_threads other))" using ok(2) by (simp add: book_ok_def)
  have same: "merged_sequence Map.empty (known_sequences rt') m = merged_sequence r (known_sequences rt) m"
    if m: "t \<in> set (rt_threads other)" "m \<in> set (th_messages t)" for t m
  proof (cases "r (ms_id m)")
    case (Some k)
    have "m\<lparr>ms_sequence := k\<rparr> \<in> set (book_messages rt')"
      by (rule arrived_message [OF ok merge fold m Some])
    from known_sequences_Some [OF ok' this] Some show ?thesis by (simp add: merged_sequence_def)
  next
    case None
    have "m \<in> set (book_messages other)" using m by (auto simp: in_book_messages)
    with None renumberingD(5) [OF R, of "ms_id m"] have "ms_id m \<in> ms_id ` set (book_messages rt)" by blast
    then obtain l where l: "l \<in> set (book_messages rt)" "ms_id l = ms_id m" by auto
    from known_sequences_Some [OF ok(1) l(1)] known_sequences_Some [OF ok' merged_message [OF ok merge l(1)]] None l(2)
    show ?thesis by (simp add: merged_sequence_def)
  qed
  have none: "arriving_messages rt' other = []" using merged_ids [OF ok merge] by (simp only: arriving_Nil_iff)
  have step: "merge_thread Map.empty (known_sequences rt') (rt_answered other) rt' t = rt'"
    if t: "t \<in> set (rt_threads other)" for t
  proof -
    let ?move = "translate_position (merged_sequence r (known_sequences rt)) t"
    have move: "translate_position (merged_sequence Map.empty (known_sequences rt')) t p = ?move p" for p
    proof (rule translate_position_cong)
      fix m assume "m \<in> set (th_messages t)"
      with same [OF t] show "merged_sequence Map.empty (known_sequences rt') m = merged_sequence r (known_sequences rt) m" .
    qed
    have find: "find (\<lambda>u. th_id u = th_id t) (rt_threads other) = Some t"
      using book_ok_thread [OF ok(2) t] by (simp add: book_thread_def)
    have at: "book_thread rt' (th_id t) =
        Some (merged_thread r (known_sequences rt) t (book_thread (rt\<lparr>rt_sequence := n\<rparr>) (th_id t))) \<and>
      rt_answered rt' (th_id t) =
        merged_position r (known_sequences rt) (rt_answered other) t (rt_answered rt (th_id t))"
      using merge_fold_at [OF dist, of r "known_sequences rt" "rt_answered other" "rt\<lparr>rt_sequence := n\<rparr>" "th_id t"]
      by (simp add: find rt')
    define u where "u = merged_thread r (known_sequences rt) t (book_thread (rt\<lparr>rt_sequence := n\<rparr>) (th_id t))"
    have u: "book_thread rt' (th_id t) = Some u"
      "u = merged_thread r (known_sequences rt) t (book_thread (rt\<lparr>rt_sequence := n\<rparr>) (th_id t))"
      using conjunct1 [OF at] by (simp_all add: u_def)
    have "?move (th_seen_through t) \<le> th_seen_through u" "th_seen_replies t \<subseteq> th_seen_replies u"
      unfolding u(2) by (auto simp: merged_thread_def Let_def split: option.splits)
    then have kept: "merge_kept [] (?move (th_seen_through t)) t u = u"
      by (cases u) (auto simp: merge_kept_def max_def)
    have "update_first (\<lambda>k. th_id k = th_id t) (merge_kept [] (?move (th_seen_through t)) t) (rt_threads rt') = rt_threads rt'"
      using u(1) unfolding book_thread_def by (rule find_split) (simp add: kept)
    moreover have "rt_answered rt' (th_id t) = Some (max (position_in (rt_answered rt') (th_id t)) (?move p))"
      if "rt_answered other (th_id t) = Some p" for p
      using at that by (simp add: merged_position_def position_in_def)
    then have "(rt_answered rt')(th_id t \<mapsto> max (position_in (rt_answered rt') (th_id t)) (?move p)) = rt_answered rt'"
      if "rt_answered other (th_id t) = Some p" for p
      using that by (metis fun_upd_triv)
    ultimately show ?thesis using u(1)
      by (simp add: merge_thread_def Let_def move split: option.splits)
  qed
  have "foldl (merge_thread Map.empty (known_sequences rt') (rt_answered other)) rt' ts = rt'"
    if "set ts \<subseteq> set (rt_threads other)" for ts
    using that by (induction ts) (simp_all add: step)
  moreover have "rt_unit rt' = rt_unit rt"
  proof -
    have "rt_unit (foldl (merge_thread r known positions) s ts) = rt_unit s" for r known positions s ts
      using merge_thread_into by (induction ts arbitrary: s) (simp, metis foldl_Cons)
    then show ?thesis by (simp add: rt')
  qed
  ultimately show ?thesis using unit none by (simp add: merge_books_def)
qed

section \<open>A thread only the second book has\<close>

text \<open>The same thread with new numbers in the same order.\<close>

definition renumbered_thread :: "(message \<Rightarrow> nat) \<Rightarrow> review_thread \<Rightarrow> review_thread" where
  "renumbered_thread f t =
     t\<lparr>th_messages := map (\<lambda>m. m\<lparr>ms_sequence := f m\<rparr>) (th_messages t),
       th_seen_through := translate_position f t (th_seen_through t)\<rparr>"

lemma renumbered_simps [simp]:
  "th_messages (renumbered_thread f t) = map (\<lambda>m. m\<lparr>ms_sequence := f m\<rparr>) (th_messages t)"
  "th_id (renumbered_thread f t) = th_id t" "th_resolution (renumbered_thread f t) = th_resolution t"
  by (simp_all add: renumbered_thread_def)

lemma max_of_less:
  "\<forall>x \<in> set xs. x < n \<Longrightarrow> 0 < n \<Longrightarrow> (case max_of xs of Some m \<Rightarrow> m | None \<Rightarrow> 0) < (n :: nat)"
  by (cases "xs = []") (simp_all add: max_of_def)

lemma max_of_ge: "x \<in> set xs \<Longrightarrow> x \<le> (case max_of xs of Some m \<Rightarrow> m | None \<Rightarrow> (0 :: nat))"
  by (cases "xs = []") (simp_all add: max_of_def)

lemma translate_position_less:
  assumes "\<And>l m. l \<in> set (th_messages t) \<Longrightarrow> m \<in> set (th_messages t) \<Longrightarrow> ms_sequence l < ms_sequence m \<Longrightarrow> f l < f m"
    and "\<And>m. m \<in> set (th_messages t) \<Longrightarrow> 0 < f m" "m \<in> set (th_messages t)"
  shows "translate_position f t p < f m \<longleftrightarrow> p < ms_sequence m"
proof (cases "p < ms_sequence m")
  case True
  let ?xs = "map f (filter (\<lambda>l. ms_sequence l \<le> p) (th_messages t))"
  have "\<forall>x \<in> set ?xs. x < f m" using assms(1,3) True by auto
  from max_of_less [OF this assms(2) [OF assms(3)]]
  have "(case max_of ?xs of Some n \<Rightarrow> n | None \<Rightarrow> 0) < f m" .
  with True show ?thesis by (simp add: translate_position_def)
next
  case False
  then have "f m \<in> set (map f (filter (\<lambda>l. ms_sequence l \<le> p) (th_messages t)))" using assms(3) by auto
  then have "f m \<le> (case max_of (map f (filter (\<lambda>l. ms_sequence l \<le> p) (th_messages t))) of Some n \<Rightarrow> n | None \<Rightarrow> 0)"
    by (rule max_of_ge)
  with False show ?thesis by (simp add: translate_position_def)
qed

lemma find_map: "find p (map g xs) = map_option g (find (\<lambda>x. p (g x)) xs)"
  by (induction xs) auto

lemma renumbered_pending:
  assumes mono: "\<And>l m. l \<in> set (th_messages t) \<Longrightarrow> m \<in> set (th_messages t) \<Longrightarrow> ms_sequence l < ms_sequence m \<longleftrightarrow> f l < f m"
    and pos: "\<And>m. m \<in> set (th_messages t) \<Longrightarrow> 0 < f m" "\<And>m. m \<in> set (th_messages t) \<Longrightarrow> 0 < ms_sequence m"
    and position: "position_in (rt_answered rt') (th_id t) = (case rt_answered rt (th_id t) of
        None \<Rightarrow> 0 | Some p \<Rightarrow> translate_position f t p)"
  shows "pending rt' (renumbered_thread f t) \<longleftrightarrow> pending rt t"
proof -
  let ?g = "\<lambda>m. m\<lparr>ms_sequence := f m\<rparr>" and ?t = "renumbered_thread f t"
  have le: "f l \<le> f m \<longleftrightarrow> ms_sequence l \<le> ms_sequence m" if "l \<in> set (th_messages t)" "m \<in> set (th_messages t)" for l m
    using mono [OF that(2,1)] by auto
  have last: "last_comment ?t = map_option ?g (last_comment t)"
    unfolding last_comment_def renumbered_simps rev_map find_map by simp
  have covers: "list_ex (\<lambda>d. ms_id d = i \<and> f c \<le> ms_sequence d) (map ?g (th_messages t)) \<longleftrightarrow>
      list_ex (\<lambda>d. ms_id d = i \<and> ms_sequence c \<le> ms_sequence d) (th_messages t)" if "c \<in> set (th_messages t)" for c i
    using le that by (auto simp: list_ex_iff)
  have takes: "takes_up ?t (?g c) (?g m) \<longleftrightarrow> takes_up t c m" if "c \<in> set (th_messages t)" "m \<in> set (th_messages t)" for c m
    using covers [OF that(1)] mono [OF that] by (simp add: takes_up_def split: option.splits)
  have answered: "is_answered ?t (?g c) \<longleftrightarrow> is_answered t c" if "c \<in> set (th_messages t)" for c
    using takes [OF that] by (simp add: is_answered_takes_up list_ex_iff)
  have after: "position_in (rt_answered rt') (th_id t) < f m \<longleftrightarrow> position_in (rt_answered rt) (th_id t) < ms_sequence m"
    if "m \<in> set (th_messages t)" for m
    using that position pos translate_position_less [of t f m] mono
    by (simp add: position_in_def split: option.splits)
  have "has_comments_after ?t (position_in (rt_answered rt') (th_id t)) \<longleftrightarrow>
      has_comments_after t (position_in (rt_answered rt) (th_id t))"
    using after by (auto simp: has_comments_after_def list_ex_iff)
  moreover have "is_waiting ?t \<longleftrightarrow> is_waiting t"
  proof (cases "last_comment t")
    case (Some c)
    then have "c \<in> set (th_messages t)" unfolding last_comment_def by (auto dest: find_SomeD)
    with answered Some last show ?thesis by (simp add: is_waiting_def)
  qed (use last in \<open>simp add: is_waiting_def\<close>)
  ultimately show ?thesis by (simp add: pending_def)
qed

text \<open>What arrives in a thread none of whose messages is known is the whole thread.\<close>

lemma arrived_whole:
  assumes "in_order t" "\<And>m. m \<in> set (th_messages t) \<Longrightarrow> r (ms_id m) \<noteq> None"
    and "\<And>l m. l \<in> set (th_messages t) \<Longrightarrow> m \<in> set (th_messages t) \<Longrightarrow> ms_sequence l < ms_sequence m \<Longrightarrow>
      the (r (ms_id l)) < the (r (ms_id m))"
  shows "arrived_messages r t = map (\<lambda>m. m\<lparr>ms_sequence := the (r (ms_id m))\<rparr>) (th_messages t)"
proof -
  have "filter_map (\<lambda>m. map_option (\<lambda>k. m\<lparr>ms_sequence := k\<rparr>) (r (ms_id m))) ms =
      map (\<lambda>m. m\<lparr>ms_sequence := the (r (ms_id m))\<rparr>) ms" if "\<forall>m \<in> set ms. r (ms_id m) \<noteq> None" for ms
    using that by (induction ms) auto
  then have whole: "filter_map (\<lambda>m. map_option (\<lambda>k. m\<lparr>ms_sequence := k\<rparr>) (r (ms_id m))) (th_messages t) =
      map (\<lambda>m. m\<lparr>ms_sequence := the (r (ms_id m))\<rparr>) (th_messages t)" using assms(2) by blast
  have "sorted_wrt (\<le>) (map (\<lambda>m. the (r (ms_id m))) ms)"
    if "sorted_wrt (<) (map ms_sequence ms)" "set ms \<subseteq> set (th_messages t)" for ms
    using that
  proof (induction ms)
    case (Cons a ms)
    have "the (r (ms_id a)) \<le> the (r (ms_id x))" if "x \<in> set ms" for x
      using assms(3) [of a x] that Cons.prems by (auto intro: less_imp_le)
    with Cons show ?case by simp
  qed simp
  then have "sorted_wrt (\<le>) (map (\<lambda>m. the (r (ms_id m))) (th_messages t))"
    using assms(1) by (simp add: in_order_def)
  then have "sorted (map ms_sequence (map (\<lambda>m. m\<lparr>ms_sequence := the (r (ms_id m))\<rparr>) (th_messages t)))"
    by (simp add: o_def)
  from sort_key_id_if_sorted [OF this] show ?thesis unfolding arrived_messages_def whole .
qed

lemma merge_new_thread:
  assumes ok: "book_ok rt" "book_ok other" and merge: "merge_books rt other = Inr rt'"
    and t: "t \<in> set (rt_threads other)" "book_thread rt (th_id t) = None" "rt_answered rt (th_id t) = None"
    and unknown: "ms_id ` set (th_messages t) \<inter> ms_id ` set (book_messages rt) = {}"
  obtains f where "book_thread rt' (th_id t) = Some (renumbered_thread f t)"
    "pending rt' (renumbered_thread f t) \<longleftrightarrow> pending other t"
proof -
  obtain n r where R: "renumbering rt other r n"
    and rt': "rt' = foldl (merge_thread r (known_sequences rt) (rt_answered other)) (rt\<lparr>rt_sequence := n\<rparr>) (rt_threads other)"
    using merge_books_InrD [OF merge ok] by metis
  have dist: "distinct (map th_id (rt_threads other))" using ok(2) by (simp add: book_ok_def)
  let ?f = "\<lambda>m. the (r (ms_id m))"
  have some: "r (ms_id m) \<noteq> None" if "m \<in> set (th_messages t)" for m
  proof -
    have "m \<in> set (book_messages other)" using that t(1) by (auto simp: in_book_messages)
    then show ?thesis using renumberingD(5) [OF R, of "ms_id m"] unknown that by blast
  qed
  have inother: "m \<in> set (book_messages other)" if "m \<in> set (th_messages t)" for m
    using that t(1) by (auto simp: in_book_messages)
  have mono1: "?f l < ?f m" if "l \<in> set (th_messages t)" "m \<in> set (th_messages t)" "ms_sequence l < ms_sequence m" for l m
    using some [OF that(1)] some [OF that(2)] renumberingD(6) [OF R inother [OF that(1)] inother [OF that(2)] that(3)]
    by auto
  have mono: "ms_sequence l < ms_sequence m \<longleftrightarrow> ?f l < ?f m" if lm: "l \<in> set (th_messages t)" "m \<in> set (th_messages t)" for l m
  proof
    assume less: "?f l < ?f m"
    show "ms_sequence l < ms_sequence m"
    proof (rule ccontr)
      assume "\<not> ms_sequence l < ms_sequence m"
      then consider "ms_sequence m < ms_sequence l" | "ms_sequence m = ms_sequence l" by linarith
      then show False
      proof cases
        case 1 from mono1 [OF lm(2,1) this] less show False by simp
      next
        case 2
        have "distinct (map ms_sequence (book_messages other))" using ok(2) by (simp add: book_ok_def)
        from distinct_map_eq [OF this inother [OF lm(2)] inother [OF lm(1)] 2] less show False by simp
      qed
    qed
  qed (rule mono1 [OF lm])
  have order: "in_order t" using ok(2) t(1) by (simp add: book_ok_def)
  have pos: "0 < ?f m" "0 < ms_sequence m" if "m \<in> set (th_messages t)" for m
    using some [OF that] renumberingD(3) [OF R, of "ms_id m"] ok(2) inother [OF that] by (auto simp: book_ok_def)
  have merged: "merged_sequence r (known_sequences rt) m = ?f m" if "m \<in> set (th_messages t)" for m
    using some [OF that] by (auto simp: merged_sequence_def)
  have move: "translate_position (merged_sequence r (known_sequences rt)) t p = translate_position ?f t p" for p
    by (rule translate_position_cong) (rule merged)
  have find: "find (\<lambda>u. th_id u = th_id t) (rt_threads other) = Some t"
    using book_ok_thread [OF ok(2) t(1)] by (simp add: book_thread_def)
  have "book_thread (rt\<lparr>rt_sequence := n\<rparr>) (th_id t) = None" using t(2) by (simp add: book_thread_def)
  with merge_fold_at [OF dist, of r "known_sequences rt" "rt_answered other" "rt\<lparr>rt_sequence := n\<rparr>" "th_id t"] t(3)
  have at: "book_thread rt' (th_id t) = Some (merged_thread r (known_sequences rt) t None)"
    "rt_answered rt' (th_id t) = merged_position r (known_sequences rt) (rt_answered other) t None"
    by (simp_all add: find rt')
  have "arrived_messages r t = map (\<lambda>m. m\<lparr>ms_sequence := ?f m\<rparr>) (th_messages t)"
    by (rule arrived_whole [OF order]) (erule some, rule mono1)
  then have "merged_thread r (known_sequences rt) t None = renumbered_thread ?f t"
    by (simp add: merged_thread_def renumbered_thread_def Let_def move)
  moreover have "pending rt' (renumbered_thread ?f t) \<longleftrightarrow> pending other t"
    by (rule renumbered_pending [OF mono pos])
      (auto simp: at(2) merged_position_def position_in_def move split: option.splits)
  ultimately show thesis using at(1) by (intro that [of ?f]) simp_all
qed

end
