(* ===== verification/Drafts.thy ===== *)
theory Drafts
  imports ThreadLaws
begin

text \<open>
  Unposted comments (crates/review-threads/src/draft.rs) and the projection of threads onto the
  changed paths (crates/review-threads/src/paths.rs).

  A draft is saved apart from the book of threads and posted from it; what saving and forgetting
  drafts relies on is the contract \<open>publications\<close>, which posting and answering fulfil. The lemmas: a thread has at
  most one draft, a posted draft is forgotten and not saved again, the others stay; a path follows
  a rename only when it is the only one.
\<close>

section \<open>Drafts\<close>

datatype draft_target = DraftFile bytes | DraftThread bytes

record draft =
  dr_target :: draft_target
  dr_source :: thread_source
  dr_reply_to :: "bytes option"
  dr_text :: bytes
  dr_id :: bytes
  dr_thread :: bytes

definition is_new_thread :: "draft \<Rightarrow> bool" where
  "is_new_thread d = (case dr_target d of DraftFile _ \<Rightarrow> True | DraftThread _ \<Rightarrow> False)"

definition renew_publication :: "bytes \<Rightarrow> bytes \<Rightarrow> draft \<Rightarrow> draft" where
  "renew_publication message_uuid thread_uuid d =
     (let d = d\<lparr>dr_id := message_uuid\<rparr>
      in if is_new_thread d then d\<lparr>dr_thread := thread_uuid\<rparr> else d)"

definition start_draft :: "bytes \<Rightarrow> bytes \<Rightarrow> bytes \<Rightarrow> thread_source \<Rightarrow> draft" where
  "start_draft message_uuid thread_uuid path src =
     \<lparr>dr_target = DraftFile path, dr_source = src, dr_reply_to = None, dr_text = [],
      dr_id = message_uuid, dr_thread = thread_uuid\<rparr>"

definition reply_draft :: "bytes \<Rightarrow> review_thread \<Rightarrow> bytes \<Rightarrow> draft option" where
  "reply_draft message_uuid t reply_to =
     (case th_subject t of
        Round _ \<Rightarrow> None
      | Code src \<Rightarrow> Some \<lparr>dr_target = DraftThread (th_id t), dr_source = src, dr_reply_to = Some reply_to,
          dr_text = [], dr_id = message_uuid, dr_thread = th_id t\<rparr>)"

definition draft_path :: "draft \<Rightarrow> bytes" where
  "draft_path d =
     (case dr_target d of DraftFile p \<Rightarrow> p | DraftThread _ \<Rightarrow> anchor_path (ts_anchor (dr_source d)))"

definition draft_post :: "draft \<Rightarrow> post" where
  "draft_post d =
     \<lparr>po_thread = dr_thread d, po_message = (reviewer_message [] (dr_text d))\<lparr>ms_id := dr_id d\<rparr>,
      po_subject = (if is_new_thread d then Some (Code (dr_source d)) else None)\<rparr>"

section \<open>Saved drafts\<close>

type_synonym saved_drafts = "draft list"

definition discard_draft :: "bytes \<Rightarrow> saved_drafts \<Rightarrow> saved_drafts" where
  "discard_draft thread ds = filter (\<lambda>d. dr_thread d \<noteq> thread) ds"

definition keep_draft :: "draft \<Rightarrow> saved_drafts \<Rightarrow> saved_drafts" where
  "keep_draft d ds = discard_draft (dr_thread d) ds @ [d]"

definition save_draft :: "draft \<Rightarrow> review_threads \<Rightarrow> saved_drafts \<Rightarrow> thread_error + saved_drafts" where
  "save_draft d rt ds =
     (if (case dr_target d of DraftThread i \<Rightarrow> book_thread rt i = None | DraftFile _ \<Rightarrow> False) then Inl DraftThreadGone
      else if book_message rt (dr_id d) \<noteq> None then Inl AlreadyPosted
      else Inr (keep_draft d ds))"

definition merge_drafts :: "saved_drafts \<Rightarrow> saved_drafts \<Rightarrow> saved_drafts" where
  "merge_drafts ds others =
     foldl (\<lambda>ds d. if \<not> list_ex (\<lambda>kept. dr_thread kept = dr_thread d) ds then ds @ [d] else ds) ds others"

definition forget_posted :: "review_threads \<Rightarrow> saved_drafts \<Rightarrow> saved_drafts" where
  "forget_posted rt ds = filter (\<lambda>d. book_message rt (dr_id d) = None) ds"

section \<open>One draft for each thread\<close>

definition one_draft_each :: "saved_drafts \<Rightarrow> bool" where
  "one_draft_each ds \<longleftrightarrow> distinct (map dr_thread ds)"

definition draft_of :: "saved_drafts \<Rightarrow> bytes \<Rightarrow> draft option" where
  "draft_of ds thread = find (\<lambda>d. dr_thread d = thread) ds"

lemma one_draft_discard: "one_draft_each ds \<Longrightarrow> one_draft_each (discard_draft i ds)"
  by (simp add: one_draft_each_def discard_draft_def distinct_map_filter)

lemma one_draft_keep: "one_draft_each ds \<Longrightarrow> one_draft_each (keep_draft d ds)"
  using one_draft_discard [of ds "dr_thread d"]
  by (auto simp: one_draft_each_def keep_draft_def discard_draft_def)

lemma one_draft_save: "one_draft_each ds \<Longrightarrow> save_draft d rt ds = Inr ds' \<Longrightarrow> one_draft_each ds'"
  by (auto simp: save_draft_def intro: one_draft_keep split: if_splits)

lemma one_draft_forget: "one_draft_each ds \<Longrightarrow> one_draft_each (forget_posted rt ds)"
  by (simp add: one_draft_each_def forget_posted_def distinct_map_filter)

lemma one_draft_merge: "one_draft_each ds \<Longrightarrow> one_draft_each (merge_drafts ds others)"
  unfolding merge_drafts_def
proof (induction others arbitrary: ds)
  case (Cons d others)
  have "one_draft_each (if \<not> list_ex (\<lambda>kept. dr_thread kept = dr_thread d) ds then ds @ [d] else ds)"
    using Cons.prems by (auto simp: one_draft_each_def list_ex_iff)
  from Cons.IH [OF this] show ?case by simp
qed simp

lemma draft_of_discard: "draft_of (discard_draft i ds) j = (if j = i then None else draft_of ds j)"
  by (induction ds) (auto simp: draft_of_def discard_draft_def)

lemma draft_of_keep: "draft_of (keep_draft d ds) j = (if j = dr_thread d then Some d else draft_of ds j)"
proof -
  have "draft_of (xs @ [d]) j = (case draft_of xs j of Some e \<Rightarrow> Some e | None \<Rightarrow> if dr_thread d = j then Some d else None)" for xs
    by (auto simp: draft_of_def find_append split: option.splits)
  then show ?thesis by (auto simp: keep_draft_def draft_of_discard split: option.splits)
qed

lemma draft_of_merge: "draft_of (merge_drafts ds others) j =
    (case draft_of ds j of Some d \<Rightarrow> Some d | None \<Rightarrow> draft_of others j)"
  unfolding merge_drafts_def
proof (induction others arbitrary: ds)
  case Nil
  then show ?case by (simp add: draft_of_def split: option.splits)
next
  case (Cons d others)
  have "draft_of ds (dr_thread d) \<noteq> None \<longleftrightarrow> list_ex (\<lambda>kept. dr_thread kept = dr_thread d) ds"
    by (auto simp: draft_of_def find_None_iff list_ex_iff)
  with Cons show ?case by (auto simp: draft_of_def find_append split: option.splits)
qed

section \<open>The contract of the book\<close>

text \<open>What drafts rely on: a successful publication makes its message known, and known messages stay so.\<close>

locale publications =
  fixes known :: "'b \<Rightarrow> bytes \<Rightarrow> bool"
    and publish :: "nat \<Rightarrow> 'b \<Rightarrow> post \<Rightarrow> 'e + bytes \<times> 'b"
    and ok :: "'b \<Rightarrow> bool"
  assumes publish_known: "ok b \<Longrightarrow> publish now b p = Inr (i, b') \<Longrightarrow> known b' (ms_id (po_message p))"
    and publish_keeps: "ok b \<Longrightarrow> publish now b p = Inr (i, b') \<Longrightarrow> known b j \<Longrightarrow> known b' j"
    and publish_only: "ok b \<Longrightarrow> publish now b p = Inr (i, b') \<Longrightarrow> known b' j \<Longrightarrow> known b j \<or> j = ms_id (po_message p)"
    and publish_ok: "ok b \<Longrightarrow> publish now b p = Inr (i, b') \<Longrightarrow> ok b'"
begin

text \<open>Publishing a draft forgets that draft and no other one that was still unposted.\<close>

lemma forget_published:
  assumes "ok b" "publish now b p = Inr (i, b')"
  shows "filter (\<lambda>d. \<not> known b' (dr_id d)) ds =
    filter (\<lambda>d. dr_id d \<noteq> ms_id (po_message p)) (filter (\<lambda>d. \<not> known b (dr_id d)) ds)"
  using publish_known [OF assms] publish_keeps [OF assms] publish_only [OF assms]
  by (auto intro!: filter_cong)

text \<open>However many publications follow, a forgotten draft is not unposted again.\<close>

lemma forgotten_stays:
  assumes "ok b" "known b j"
  shows "fold_opt (\<lambda>b (now, p). case publish now b p of Inr (i, b') \<Rightarrow> Some b' | Inl _ \<Rightarrow> None) b ps = Some b' \<Longrightarrow>
    known b' j \<and> ok b'"
  using assms
proof (induction ps arbitrary: b)
  case (Cons np ps)
  obtain now p where np: "np = (now, p)" by (cases np)
  from Cons.prems(1) obtain i b1 where b1: "publish now b p = Inr (i, b1)"
    and rest: "fold_opt (\<lambda>b (now, p). case publish now b p of Inr (i, b') \<Rightarrow> Some b' | Inl _ \<Rightarrow> None) b1 ps = Some b'"
    by (auto simp: np split: sum.splits prod.splits)
  from Cons.IH [OF rest] publish_ok [OF Cons.prems(2) b1] publish_keeps [OF Cons.prems(2) b1 Cons.prems(3)]
  show ?case by simp
qed simp

end

lemma book_message_known: "book_message rt i \<noteq> None \<longleftrightarrow> i \<in> ms_id ` set (book_messages rt)"
  by (simp only: book_message_None_iff not_not)

interpretation posting: publications "\<lambda>rt i. book_message rt i \<noteq> None" post_message book_ok
proof unfold_locales
  fix rt now p i rt'
  assume rt: "book_ok rt" "post_message now rt p = Inr (i, rt')"
  obtain t m where "t \<in> set (rt_threads rt')" "m \<in> set (th_messages t)" "same_content m (po_message p)"
    using posted_in_thread [OF rt] by metis
  then show "book_message rt' (ms_id (po_message p)) \<noteq> None"
    unfolding book_message_known by (auto simp: in_book_messages same_content_def intro!: image_eqI [of _ _ m])
  show "book_message rt' j \<noteq> None" if "book_message rt j \<noteq> None" for j
    using that post_message_keeps [OF rt(2)] unfolding book_message_known by blast
  show "book_message rt j \<noteq> None \<or> j = ms_id (po_message p)" if "book_message rt' j \<noteq> None" for j
    using that post_message_keeps [OF rt(2)] unfolding book_message_known by auto
  show "book_ok rt'" by (rule book_ok_post [OF rt])
qed

interpretation answering: publications "\<lambda>rt i. book_message rt i \<noteq> None" answer book_ok
proof unfold_locales
  fix rt now p i rt'
  assume rt: "book_ok rt" "answer now rt p = Inr (i, rt')"
  then obtain rt1 where rt1: "post_message now rt p = Inr (i, rt1)" "rt_threads rt' = rt_threads rt1"
    by (elim answer_InrD) simp
  have same: "book_message rt' = book_message rt1"
    by (simp add: fun_eq_iff book_message_def thread_for_message_def rt1(2))
  show "book_message rt' (ms_id (po_message p)) \<noteq> None"
    unfolding same by (rule posting.publish_known [OF rt(1) rt1(1)])
  show "book_message rt' j \<noteq> None" if "book_message rt j \<noteq> None" for j
    unfolding same by (rule posting.publish_keeps [OF rt(1) rt1(1) that])
  show "book_message rt j \<noteq> None \<or> j = ms_id (po_message p)" if "book_message rt' j \<noteq> None" for j
    using that unfolding same by (rule posting.publish_only [OF rt(1) rt1(1)])
  show "book_ok rt'" by (rule book_ok_answer [OF rt])
qed

lemma draft_post_simps [simp]:
  "ms_id (po_message (draft_post d)) = dr_id d" "po_thread (draft_post d) = dr_thread d"
  "ms_author (po_message (draft_post d)) = FromReviewer" "ms_text (po_message (draft_post d)) = dr_text d"
  by (simp_all add: draft_post_def reviewer_message_def)

lemma forget_posted_draft:
  assumes "book_ok rt" "post_message now rt (draft_post d) = Inr (i, rt')"
  shows "forget_posted rt' ds = filter (\<lambda>e. dr_id e \<noteq> dr_id d) (forget_posted rt ds)"
  using posting.forget_published [OF assms, of ds] by (simp add: forget_posted_def)

section \<open>Paths of threads\<close>

record thread_paths =
  tp_current :: "bytes set"
  tp_renamed :: "bytes \<rightharpoonup> bytes option"

definition add_path :: "thread_paths \<Rightarrow> bytes \<times> bytes option \<Rightarrow> thread_paths" where
  "add_path tp f =
     (case f of (current, old) \<Rightarrow>
        let renamed = (case old of
              Some old \<Rightarrow>
                if old \<noteq> current then
                  (case tp_renamed tp old of
                     Some _ \<Rightarrow> (tp_renamed tp)(old \<mapsto> None)
                   | None \<Rightarrow> (tp_renamed tp)(old \<mapsto> Some current))
                else tp_renamed tp
            | None \<Rightarrow> tp_renamed tp)
        in \<lparr>tp_current = insert current (tp_current tp), tp_renamed = renamed\<rparr>)"

definition paths_new :: "(bytes \<times> bytes option) list \<Rightarrow> thread_paths" where
  "paths_new files = foldl add_path \<lparr>tp_current = {}, tp_renamed = Map.empty\<rparr> files"

definition resolve_path :: "thread_paths \<Rightarrow> bytes \<Rightarrow> bytes" where
  "resolve_path tp original =
     (if original \<in> tp_current tp then original
      else case tp_renamed tp original of Some (Some d) \<Rightarrow> d | _ \<Rightarrow> original)"

text \<open>The destinations that a path was renamed to.\<close>

definition destinations :: "(bytes \<times> bytes option) list \<Rightarrow> bytes \<Rightarrow> bytes list" where
  "destinations files original = map fst (filter (\<lambda>(current, old). old = Some original \<and> current \<noteq> original) files)"

lemma paths_fold:
  "tp_current (foldl add_path tp files) = tp_current tp \<union> set (map fst files) \<and>
   (tp_renamed tp = (\<lambda>o'. case ds o' of [] \<Rightarrow> None | [d] \<Rightarrow> Some (Some d) | _ \<Rightarrow> Some None) \<longrightarrow>
    tp_renamed (foldl add_path tp files) =
      (\<lambda>o'. case ds o' @ destinations files o' of [] \<Rightarrow> None | [d] \<Rightarrow> Some (Some d) | _ \<Rightarrow> Some None))"
proof (induction files arbitrary: tp ds)
  case (Cons f files)
  obtain current old where f: "f = (current, old)" by (cases f)
  let ?ds = "\<lambda>o'. if old = Some o' \<and> current \<noteq> o' then ds o' @ [current] else ds o'"
  have dest: "ds o' @ destinations (f # files) o' = ?ds o' @ destinations files o'" for o'
    by (simp add: destinations_def f)
  have current: "tp_current (add_path tp f) = insert current (tp_current tp)"
    by (simp add: add_path_def f Let_def)
  have "tp_renamed (add_path tp f) = (\<lambda>o'. case ?ds o' of [] \<Rightarrow> None | [d] \<Rightarrow> Some (Some d) | _ \<Rightarrow> Some None)"
    if "tp_renamed tp = (\<lambda>o'. case ds o' of [] \<Rightarrow> None | [d] \<Rightarrow> Some (Some d) | _ \<Rightarrow> Some None)"
    using that by (auto simp: add_path_def f Let_def fun_eq_iff split: option.splits list.splits)
  with Cons [of "add_path tp f" ?ds] current show ?case by (simp only: foldl_Cons dest) (simp add: f)
qed (simp add: destinations_def)

lemma resolve_path_new:
  "resolve_path (paths_new files) original =
     (if original \<in> fst ` set files then original
      else case destinations files original of [d] \<Rightarrow> d | _ \<Rightarrow> original)"
  using paths_fold [of "\<lparr>tp_current = {}, tp_renamed = Map.empty\<rparr>" files "\<lambda>_. []"]
  by (auto simp: resolve_path_def paths_new_def split: list.splits option.splits)

end
