(* ===== verification/ThreadStore.thy ===== *)
theory ThreadStore
  imports StoreError ThreadMerge Drafts "HOL-Library.Sublist"
begin

text \<open>
  The threads and the drafts of each review on disk (crates/review-store/src/threads.rs and
  drafts.rs): reading, changing under the lock, and moving the drafts that earlier builds kept
  inside the thread document.

  A file is what decoding it gives: the bytes, their compression, the JSON form and the migration of
  old versions are outside of the model, with their errors. The faults of the file system are fields
  of \<open>store_faults\<close>; a process that holds the lock of a file is the only one that changes it.

  Every write goes through \<open>atomic_write\<close> (lib.rs): it renames the new file into place and then
  syncs the directory. A fault before the rename leaves the old file; a fault of the sync is answered as an
  error too, with the new file in place.

  The lemmas: a change that is answered with success is what the next load reads; one that is answered with an
  error either left the threads on disk as they were, or was written and only the sync failed; drafts are
  never lost when they move between the documents.
\<close>

section \<open>Messages of errors\<close>

text \<open>The messages that the operations of review-threads answer.\<close>

definition thread_error_text :: "thread_error \<Rightarrow> bytes" where
  "thread_error_text e =
     (case e of
        NotAnAgentReply \<Rightarrow> ''Only an agent reply can acknowledge comments''
      | NotAComment \<Rightarrow> ''in_reply_to must identify a reviewer comment in this thread''
      | ThreadGone \<Rightarrow> ''The review thread no longer exists''
      | NothingToRetry \<Rightarrow> ''This thread has no unanswered, unresolved comments''
      | IdentityTaken \<Rightarrow> ''This message identity is already used by a different post''
      | EmptyMessage \<Rightarrow> ''A message cannot be empty''
      | TooManyMessages \<Rightarrow> ''Too many messages''
      | OtherSubject \<Rightarrow> ''This review thread belongs to another subject''
      | ThreadExists \<Rightarrow> ''This review thread already exists''
      | OtherReview \<Rightarrow> ''The threads belong to another review''
      | DraftThreadGone \<Rightarrow> ''The draft'' @ [CHR 0x27] @ ''s review thread no longer exists''
      | AlreadyPosted \<Rightarrow> ''This draft has already been posted'')"

section \<open>Documents and files\<close>

definition VERSION :: nat where "VERSION = 4"
definition DRAFTS_VERSION :: nat where "DRAFTS_VERSION = 1"

datatype stored_version = Legacy nat | CurrentVersion

definition parse_version :: "nat \<Rightarrow> store_error + stored_version" where
  "parse_version v =
     (if v = VERSION then Inr CurrentVersion
      else if v = 2 \<or> v = 3 then Inr (Legacy v)
      else Inl (InvalidStateKey ''thread storage version or review unit''))"

definition foreign_review_unit :: "stored_version \<Rightarrow> store_error" where
  "foreign_review_unit v =
     InvalidStateKey (case v of Legacy _ \<Rightarrow> ''thread storage version or review unit'' | CurrentVersion \<Rightarrow> ''thread review unit'')"

text \<open>A file that cannot be read or decoded answers an error.\<close>

record stored_threads =
  sd_version :: nat
  sd_unit :: bytes
  sd_threads :: "store_error + review_threads"
  sd_drafts :: "store_error + saved_drafts"

record stored_drafts =
  sf_version :: nat
  sf_unit :: bytes
  sf_drafts :: "store_error + saved_drafts"

text \<open>The steps that can fail, for each review: taking a lock, writing up to the rename, and the sync of the
  directory after it.\<close>

record store_faults =
  fl_threads_lock :: "bytes \<rightharpoonup> store_error"
  fl_drafts_lock :: "bytes \<rightharpoonup> store_error"
  fl_threads_write :: "bytes \<rightharpoonup> store_error"
  fl_drafts_write :: "bytes \<rightharpoonup> store_error"
  fl_threads_sync :: "bytes \<rightharpoonup> store_error"
  fl_drafts_sync :: "bytes \<rightharpoonup> store_error"

record disk =
  dk_threads :: "bytes \<rightharpoonup> store_error + stored_threads"
  dk_drafts :: "bytes \<rightharpoonup> store_error + stored_drafts"
  dk_faults :: store_faults

definition answer_of :: "store_error option \<Rightarrow> store_error + unit" where
  "answer_of fault = (case fault of Some e \<Rightarrow> Inl e | None \<Rightarrow> Inr ())"

record thread_document =
  td_threads :: review_threads
  td_drafts :: saved_drafts

definition read_thread_document :: "disk \<Rightarrow> bytes \<Rightarrow> store_error + thread_document" where
  "read_thread_document dk unit =
     (if unit = [] then Inl (InvalidStateKey ''review unit'')
      else case dk_threads dk unit of
        None \<Rightarrow> Inr \<lparr>td_threads = book_new unit, td_drafts = []\<rparr>
      | Some (Inl e) \<Rightarrow> Inl e
      | Some (Inr sd) \<Rightarrow>
          (case parse_version (sd_version sd) of
             Inl e \<Rightarrow> Inl e
           | Inr v \<Rightarrow>
               if sd_unit sd \<noteq> unit then Inl (foreign_review_unit v)
               else (case (sd_threads sd, sd_drafts sd) of
                  (Inl e, _) \<Rightarrow> Inl e
                | (Inr _, Inl e) \<Rightarrow> Inl e
                | (Inr rt, Inr ds) \<Rightarrow> Inr \<lparr>td_threads = rt, td_drafts = ds\<rparr>)))"

definition current_document :: "review_threads \<Rightarrow> stored_threads" where
  "current_document rt = \<lparr>sd_version = VERSION, sd_unit = rt_unit rt, sd_threads = Inr rt, sd_drafts = Inr []\<rparr>"

definition save_threads :: "review_threads \<Rightarrow> disk \<Rightarrow> (store_error + unit) \<times> disk" where
  "save_threads rt dk =
     (if rt_unit rt = [] then (Inl (InvalidStateKey ''review unit''), dk)
      else case fl_threads_write (dk_faults dk) (rt_unit rt) of
        Some e \<Rightarrow> (Inl e, dk)
      | None \<Rightarrow> (answer_of (fl_threads_sync (dk_faults dk) (rt_unit rt)),
          dk\<lparr>dk_threads := (dk_threads dk)(rt_unit rt \<mapsto> Inr (current_document rt))\<rparr>))"

section \<open>Drafts\<close>

definition read_drafts :: "disk \<Rightarrow> bytes \<Rightarrow> store_error + saved_drafts" where
  "read_drafts dk unit =
     (if unit = [] then Inl (InvalidStateKey ''review unit'')
      else case dk_drafts dk unit of
        None \<Rightarrow> Inr []
      | Some (Inl e) \<Rightarrow> Inl e
      | Some (Inr sf) \<Rightarrow>
          if sf_version sf \<noteq> DRAFTS_VERSION \<or> sf_unit sf \<noteq> unit
          then Inl (InvalidStateKey ''draft storage version or review unit'') else sf_drafts sf)"

text \<open>The operations on the disk.\<close>

type_synonym 'a disk_op = "(disk, store_error, 'a) fallible"

definition save_drafts :: "bytes \<Rightarrow> saved_drafts \<Rightarrow> unit disk_op" where
  "save_drafts unit ds dk =
     (case fl_drafts_write (dk_faults dk) unit of
        Some e \<Rightarrow> (Inl e, dk)
      | None \<Rightarrow> (answer_of (fl_drafts_sync (dk_faults dk) unit), dk\<lparr>dk_drafts := (dk_drafts dk)(unit \<mapsto>
          Inr \<lparr>sf_version = DRAFTS_VERSION, sf_unit = unit, sf_drafts = Inr ds\<rparr>)\<rparr>))"

definition drafts_lock :: "bytes \<Rightarrow> disk \<Rightarrow> store_error + unit" where
  "drafts_lock unit dk =
     (if unit = [] then Inl (InvalidStateKey ''review unit'')
      else answer_of (fl_drafts_lock (dk_faults dk) unit))"

text \<open>Changing the drafts under their lock: the file is written only when they changed.\<close>

definition change_drafts :: "bytes \<Rightarrow> (saved_drafts \<Rightarrow> bytes + 'a \<times> saved_drafts) \<Rightarrow> ('a \<times> saved_drafts) disk_op" where
  "change_drafts unit change =
     and_then (reading (drafts_lock unit)) (\<lambda>_.
     and_then (reading (\<lambda>dk. read_drafts dk unit)) (\<lambda>original.
     and_then (reading (\<lambda>_. map_sum ThreadUpdate id (change original))) (\<lambda>(result, ds).
     and_then (if ds \<noteq> original then save_drafts unit ds else reading (\<lambda>_. Inr ())) (\<lambda>_.
     reading (\<lambda>_. Inr (result, ds))))))"

definition adopt_embedded_drafts :: "bytes \<Rightarrow> saved_drafts \<Rightarrow> unit disk_op" where
  "adopt_embedded_drafts unit embedded =
     and_then (change_drafts unit (\<lambda>ds. Inr ((), foldl (\<lambda>ds d. keep_draft d ds) ds embedded))) (\<lambda>_.
     reading (\<lambda>_. Inr ()))"

section \<open>Threads\<close>

definition threads_lock :: "bytes \<Rightarrow> disk \<Rightarrow> store_error + unit" where
  "threads_lock unit dk =
     (if unit = [] then Inl (InvalidStateKey ''review unit'')
      else answer_of (fl_threads_lock (dk_faults dk) unit))"

definition migrate_drafts :: "bytes \<Rightarrow> thread_document \<Rightarrow> unit disk_op" where
  "migrate_drafts unit doc =
     (if td_drafts doc \<noteq> [] then adopt_embedded_drafts unit (td_drafts doc) else reading (\<lambda>_. Inr ()))"

definition write_changed :: "thread_document \<Rightarrow> review_threads \<Rightarrow> unit disk_op" where
  "write_changed doc rt =
     (if td_drafts doc \<noteq> [] \<or> rt \<noteq> td_threads doc then save_threads rt else reading (\<lambda>_. Inr ()))"

definition update_threads ::
  "bytes \<Rightarrow> (review_threads \<Rightarrow> bytes + 'a \<times> review_threads) \<Rightarrow> ('a \<times> review_threads) disk_op" where
  "update_threads unit change =
     and_then (reading (threads_lock unit)) (\<lambda>_.
     and_then (reading (\<lambda>dk. read_thread_document dk unit)) (\<lambda>doc.
     and_then (migrate_drafts unit doc) (\<lambda>_.
     and_then (reading (\<lambda>_. map_sum ThreadUpdate id (change (td_threads doc)))) (\<lambda>(result, rt).
     and_then (write_changed doc rt) (\<lambda>_.
     reading (\<lambda>_. Inr (result, rt)))))))"

definition load_threads :: "bytes \<Rightarrow> review_threads disk_op" where
  "load_threads unit =
     and_then (reading (\<lambda>dk. read_thread_document dk unit)) (\<lambda>doc dk.
       if td_drafts doc = [] then (Inr (td_threads doc), dk)
       else case update_threads unit (\<lambda>rt. Inr ((), rt)) dk of
         (Inl _, dk) \<Rightarrow> (Inr (td_threads doc), dk)
       | (Inr (_, rt), dk) \<Rightarrow> (Inr rt, dk))"

definition load_drafts :: "bytes \<Rightarrow> saved_drafts disk_op" where
  "load_drafts unit =
     and_then (load_threads unit) (\<lambda>rt.
     and_then (reading (\<lambda>dk. read_drafts dk unit)) (\<lambda>ds.
     reading (\<lambda>_. Inr (forget_posted rt ds))))"

definition update_drafts ::
  "bytes \<Rightarrow> (saved_drafts \<Rightarrow> review_threads \<Rightarrow> bytes + 'a \<times> saved_drafts) \<Rightarrow> ('a \<times> saved_drafts) disk_op" where
  "update_drafts unit change =
     and_then (load_threads unit) (\<lambda>rt. change_drafts unit (\<lambda>ds. change (forget_posted rt ds) rt))"

section \<open>The documents behind the files\<close>

text \<open>What the disk promises: the threads of a readable document carry its review unit and are a book in order.\<close>

definition disk_ok :: "disk \<Rightarrow> bool" where
  "disk_ok dk \<longleftrightarrow> (\<forall>unit sd rt. dk_threads dk unit = Some (Inr sd) \<longrightarrow> sd_threads sd = Inr rt \<longrightarrow>
     rt_unit rt = sd_unit sd \<and> book_ok rt)"

lemma disk_ok_doc:
  "disk_ok dk \<Longrightarrow> read_thread_document dk unit = Inr doc \<Longrightarrow>
     unit \<noteq> [] \<and> rt_unit (td_threads doc) = unit \<and> book_ok (td_threads doc)"
  by (auto simp: read_thread_document_def disk_ok_def book_new_def book_ok_new [unfolded book_new_def]
      split: if_splits option.splits sum.splits)

lemma read_thread_document_cong:
  "dk_threads dk' unit = dk_threads dk unit \<Longrightarrow> read_thread_document dk' unit = read_thread_document dk unit"
  by (simp add: read_thread_document_def)

text \<open>Drafts are written without touching the threads.\<close>

abbreviation same_threads :: "disk \<Rightarrow> disk \<Rightarrow> bool" where
  "same_threads dk dk' \<equiv> dk_threads dk' = dk_threads dk"

lemma same_threads_refl: "reflp same_threads" and same_threads_trans: "transp same_threads"
  by (auto intro: reflpI transpI)

lemmas keeps_intros = keeps_and_then keeps_reading

text \<open>No operation changes the faults.\<close>

abbreviation same_faults :: "disk \<Rightarrow> disk \<Rightarrow> bool" where
  "same_faults dk dk' \<equiv> dk_faults dk' = dk_faults dk"

lemma same_faults_refl: "reflp same_faults" and same_faults_trans: "transp same_faults"
  by (auto intro: reflpI transpI)

lemma save_drafts_threads: "keeps_state same_threads (save_drafts unit ds)"
  by (simp add: keeps_state_def save_drafts_def split: option.splits)

lemma change_drafts_threads: "keeps_state same_threads (change_drafts unit f)"
  unfolding change_drafts_def
  by (intro keeps_intros same_threads_refl same_threads_trans)
    (auto intro!: keeps_intros same_threads_refl same_threads_trans save_drafts_threads split: prod.splits)

lemma adopt_threads: "keeps_state same_threads (adopt_embedded_drafts unit ds)"
  unfolding adopt_embedded_drafts_def
  by (intro keeps_intros same_threads_refl same_threads_trans change_drafts_threads)

lemma migrate_threads: "keeps_state same_threads (migrate_drafts unit doc)"
  by (simp add: migrate_drafts_def adopt_threads same_threads_refl)

lemma save_drafts_faults: "keeps_state same_faults (save_drafts unit ds)"
  by (simp add: keeps_state_def save_drafts_def split: option.splits)

lemma change_drafts_faults: "keeps_state same_faults (change_drafts unit f)"
  unfolding change_drafts_def
  by (intro keeps_intros same_faults_refl same_faults_trans)
    (auto intro!: keeps_intros same_faults_refl same_faults_trans save_drafts_faults split: prod.splits)

lemma migrate_faults: "keeps_state same_faults (migrate_drafts unit doc)"
  unfolding migrate_drafts_def adopt_embedded_drafts_def
  by (simp add: same_faults_refl) (intro impI keeps_intros same_faults_refl same_faults_trans change_drafts_faults)

lemma answer_of_simps [simp]:
  "answer_of None = Inr ()" "answer_of (Some e) = Inl e" "answer_of x = Inr () \<longleftrightarrow> x = None" "answer_of x = Inl e \<longleftrightarrow> x = Some e"
  by (simp_all add: answer_of_def split: option.splits)

lemma read_saved:
  assumes "save_threads rt dk = (Inr (), dk')"
  shows "read_thread_document dk' (rt_unit rt) = Inr \<lparr>td_threads = rt, td_drafts = []\<rparr> \<and>
    dk_threads dk' = (dk_threads dk)(rt_unit rt \<mapsto> Inr (current_document rt))"
  using assms
  by (auto simp: save_threads_def read_thread_document_def parse_version_def current_document_def split: if_splits option.splits)

text \<open>A change of the threads of a review: what it returns, and what the disk holds afterwards.\<close>

lemma update_threads_Inr:
  assumes "update_threads unit change dk = (Inr (result, rt), dk')" "disk_ok dk"
    and keeps: "\<And>b r b'. rt_unit b = unit \<Longrightarrow> book_ok b \<Longrightarrow> change b = Inr (r, b') \<Longrightarrow> rt_unit b' = unit"
  obtains doc where "read_thread_document dk unit = Inr doc" "change (td_threads doc) = Inr (result, rt)"
    "read_thread_document dk' unit = Inr \<lparr>td_threads = rt, td_drafts = []\<rparr>"
    "dk_threads dk' = dk_threads dk \<or> dk_threads dk' = (dk_threads dk)(unit \<mapsto> Inr (current_document rt))" "rt_unit rt = unit"
proof -
  obtain doc dk1 where doc: "read_thread_document dk unit = Inr doc" and dk1: "migrate_drafts unit doc dk = (Inr (), dk1)"
    and change: "change (td_threads doc) = Inr (result, rt)" and save: "write_changed doc rt dk1 = (Inr (), dk')"
    using assms(1) by (auto simp: update_threads_def and_then_Inr map_sum_eq)
  have same: "dk_threads dk1 = dk_threads dk" by (rule keeps_run [OF migrate_threads dk1])
  have unit: "rt_unit rt = unit" using keeps [OF _ _ change] disk_ok_doc [OF assms(2) doc] by blast
  show thesis
  proof (cases "td_drafts doc \<noteq> [] \<or> rt \<noteq> td_threads doc")
    case True
    then have "save_threads rt dk1 = (Inr (), dk')" using save unfolding write_changed_def by (simp only: if_True)
    from read_saved [OF this] doc change same unit that show thesis by simp
  next
    case False
    with save have "dk' = dk1" by (simp add: write_changed_def)
    moreover from this have "read_thread_document dk' unit = Inr doc"
      using read_thread_document_cong [of dk' unit dk] same doc by simp
    ultimately show thesis using that doc change same unit False by (cases doc) auto
  qed
qed

text \<open>Why a change of the threads fails before it is written: a step fails, or the drafts that it would move cannot
  be read.\<close>

definition step_fails :: "store_faults \<Rightarrow> bytes \<Rightarrow> bool" where
  "step_fails fl unit \<longleftrightarrow>
     fl_threads_lock fl unit \<noteq> None \<or> fl_drafts_lock fl unit \<noteq> None \<or> fl_threads_write fl unit \<noteq> None \<or>
     fl_drafts_write fl unit \<noteq> None \<or> fl_drafts_sync fl unit \<noteq> None"

definition drafts_unreadable :: "disk \<Rightarrow> bytes \<Rightarrow> bool" where
  "drafts_unreadable dk unit \<longleftrightarrow> (case read_drafts dk unit of Inl _ \<Rightarrow> True | Inr _ \<Rightarrow> False)"

lemma change_drafts_disk:
  assumes "change_drafts unit f dk = (r, dk')"
  shows "dk' = dk \<or> (\<exists>ds. \<not> drafts_unreadable dk unit \<and> unit \<noteq> [] \<and> dk' = dk\<lparr>dk_drafts := (dk_drafts dk)(unit \<mapsto>
    Inr \<lparr>sf_version = DRAFTS_VERSION, sf_unit = unit, sf_drafts = Inr ds\<rparr>)\<rparr>)"
proof (cases "dk' = dk")
  case False
  then obtain original x ds r' where "drafts_lock unit dk = Inr ()" "read_drafts dk unit = Inr original" "save_drafts unit ds dk = (r', dk')"
    using assms by (cases r) (auto simp: change_drafts_def and_then_Inl and_then_Inr split: prod.splits if_splits)
  with False show ?thesis
    by (auto simp: drafts_unreadable_def drafts_lock_def save_drafts_def split: option.splits if_splits)
qed simp

lemma change_drafts_Inl:
  assumes "change_drafts unit (\<lambda>ds. Inr ((), g ds)) dk = (Inl e, dk')" "unit \<noteq> []"
  shows "step_fails (dk_faults dk) unit \<or> drafts_unreadable dk unit"
  using assms
  by (auto simp: change_drafts_def and_then_Inl drafts_lock_def drafts_unreadable_def step_fails_def save_drafts_def
      split: prod.splits if_splits option.splits)

lemma migrate_Inl:
  "migrate_drafts unit doc dk = (Inl e, dk') \<Longrightarrow> unit \<noteq> [] \<Longrightarrow> step_fails (dk_faults dk) unit \<or> drafts_unreadable dk unit"
  using change_drafts_Inl [of unit "\<lambda>ds. foldl (\<lambda>ds d. keep_draft d ds) ds (td_drafts doc)" dk e dk']
  by (auto simp: migrate_drafts_def adopt_embedded_drafts_def and_then_Inl split: if_splits)

abbreviation same_readable :: "disk \<Rightarrow> disk \<Rightarrow> bool" where
  "same_readable dk dk' \<equiv> drafts_unreadable dk' = drafts_unreadable dk"

lemma same_readable_refl: "reflp same_readable" and same_readable_trans: "transp same_readable"
  by (auto intro: reflpI transpI)

lemma change_drafts_readable: "keeps_state same_readable (change_drafts unit f)"
  unfolding keeps_state_def
proof
  fix dk
  obtain r dk' where c: "change_drafts unit f dk = (r, dk')" by fastforce
  from change_drafts_disk [OF c] have "drafts_unreadable dk' u = drafts_unreadable dk u" for u
  proof (elim disjE exE conjE)
    fix ds
    assume "\<not> drafts_unreadable dk unit" "unit \<noteq> []"
      and dk': "dk' = dk\<lparr>dk_drafts := (dk_drafts dk)(unit \<mapsto> Inr \<lparr>sf_version = DRAFTS_VERSION, sf_unit = unit, sf_drafts = Inr ds\<rparr>)\<rparr>"
    moreover from this have "read_drafts dk' unit = Inr ds" by (simp add: read_drafts_def)
    moreover have "u \<noteq> unit \<Longrightarrow> read_drafts dk' u = read_drafts dk u" using dk' by (simp add: read_drafts_def)
    ultimately show ?thesis by (cases "u = unit") (simp_all add: drafts_unreadable_def)
  qed simp
  then show "same_readable dk (snd (change_drafts unit f dk))" unfolding c by (simp add: fun_eq_iff)
qed

lemma migrate_readable: "keeps_state same_readable (migrate_drafts unit doc)"
  unfolding migrate_drafts_def adopt_embedded_drafts_def
  by (simp add: same_readable_refl) (intro impI keeps_intros same_readable_refl same_readable_trans change_drafts_readable)

lemma write_changed_readable: "keeps_state same_readable (write_changed doc rt)"
  by (auto simp: keeps_state_def write_changed_def save_threads_def reading_def drafts_unreadable_def read_drafts_def fun_eq_iff
      split: option.splits)

lemma update_threads_readable: "keeps_state same_readable (update_threads unit change)"
  unfolding update_threads_def
  by (intro keeps_intros same_readable_refl same_readable_trans)
    (auto intro!: keeps_intros same_readable_refl same_readable_trans migrate_readable write_changed_readable split: prod.splits)

lemma update_threads_Inl:
  assumes "update_threads unit change dk = (Inl e, dk')" "disk_ok dk"
    and keeps: "\<And>b r b'. rt_unit b = unit \<Longrightarrow> book_ok b \<Longrightarrow> change b = Inr (r, b') \<Longrightarrow> rt_unit b' = unit"
  obtains (unchanged) "dk_threads dk' = dk_threads dk"
      "\<And>doc r rt. \<lbrakk>read_thread_document dk unit = Inr doc; change (td_threads doc) = Inr (r, rt)\<rbrakk> \<Longrightarrow>
        step_fails (dk_faults dk) unit \<or> drafts_unreadable dk unit"
    | (unsynced) doc result rt where "read_thread_document dk unit = Inr doc" "change (td_threads doc) = Inr (result, rt)"
        "dk_threads dk' = (dk_threads dk)(unit \<mapsto> Inr (current_document rt))" "rt_unit rt = unit"
        "fl_threads_sync (dk_faults dk) unit = Some e"
proof -
  from assms(1) consider "dk' = dk" "threads_lock unit dk = Inl e \<or> read_thread_document dk unit = Inl e"
    | doc where "read_thread_document dk unit = Inr doc" "migrate_drafts unit doc dk = (Inl e, dk')"
    | doc dk1 x where "read_thread_document dk unit = Inr doc" "migrate_drafts unit doc dk = (Inr (), dk1)" "dk' = dk1"
        "change (td_threads doc) = Inl x"
    | doc dk1 result rt where "read_thread_document dk unit = Inr doc" "migrate_drafts unit doc dk = (Inr (), dk1)"
        "change (td_threads doc) = Inr (result, rt)" "write_changed doc rt dk1 = (Inl e, dk')"
    by (auto simp: update_threads_def and_then_Inl map_sum_eq)
  then show thesis
  proof cases
    case 1
    then show thesis
      by (intro unchanged) (auto simp: threads_lock_def step_fails_def read_thread_document_def split: if_splits)
  next
    case 2
    with migrate_Inl disk_ok_doc [OF assms(2)] show thesis
      by (intro unchanged) (auto simp: keeps_run [OF migrate_threads])
  next
    case 3
    then show thesis by (intro unchanged) (auto simp: keeps_run [OF migrate_threads])
  next
    case 4
    have faults: "dk_faults dk1 = dk_faults dk" by (rule keeps_run [OF migrate_faults 4(2)])
    have same: "dk_threads dk1 = dk_threads dk" by (rule keeps_run [OF migrate_threads 4(2)])
    have unit: "unit \<noteq> []" "rt_unit rt = unit" using keeps [OF _ _ 4(3)] disk_ok_doc [OF assms(2) 4(1)] by blast+
    have save: "save_threads rt dk1 = (Inl e, dk')" using 4(4) by (simp add: write_changed_def split: if_splits)
    show thesis
    proof (cases "fl_threads_write (dk_faults dk) unit")
      case None
      with save faults unit same have "dk_threads dk' = (dk_threads dk)(unit \<mapsto> Inr (current_document rt))"
        "fl_threads_sync (dk_faults dk) unit = Some e"
        by (auto simp: save_threads_def)
      with 4 unit show thesis by (intro unsynced)
    next
      case (Some x)
      with save faults unit same have "dk_threads dk' = dk_threads dk" by (simp add: save_threads_def)
      with Some show thesis by (intro unchanged) (auto simp: step_fails_def)
    qed
  qed
qed

text \<open>Loading answers the stored threads also when the drafts beside them cannot be moved.\<close>

lemma load_threads_doc: "fst (load_threads unit dk) = map_sum id td_threads (read_thread_document dk unit)"
proof (cases "read_thread_document dk unit")
  case (Inr doc)
  have "rt = td_threads doc" if "update_threads unit (\<lambda>rt. Inr ((), rt)) dk = (Inr (u, rt), dk')" for u rt dk'
    using that Inr by (auto simp: update_threads_def and_then_Inr map_sum_eq)
  then show ?thesis using Inr
    by (auto simp: load_threads_def and_then_def reading_def split: sum.splits prod.splits)
qed (simp add: load_threads_def and_then_def reading_def)

section \<open>The contract of the store\<close>

text \<open>What the store promises its client: it sees one book for each review, a change works on that book
  and becomes it, and a change that fails changes none, unless it was written and only the sync failed.\<close>

definition keeps_good :: "(bytes \<Rightarrow> 'b \<Rightarrow> bool) \<Rightarrow> bytes \<Rightarrow> ('b \<Rightarrow> 'm + 'a \<times> 'b) \<Rightarrow> bool" where
  "keeps_good good u f \<longleftrightarrow> (\<forall>b r b'. good u b \<longrightarrow> f b = Inr (r, b') \<longrightarrow> good u b')"

text \<open>The abstract run of a list of changes, each with the faults of its time, from the answers they got: a
  change answered with success is the step it makes on the book of its review; one answered with an error makes no step and had a
  cause, or it made its step and the sync failed with that error.\<close>

inductive book_changes ::
  "('f \<Rightarrow> bytes \<Rightarrow> 'e option) \<Rightarrow> ('f \<Rightarrow> bytes \<Rightarrow> bool) \<Rightarrow>
   ('f \<times> bytes \<times> ('b \<Rightarrow> 'm + 'a \<times> 'b)) list \<Rightarrow> ('e + 'a \<times> 'b) list \<Rightarrow> (bytes \<rightharpoonup> 'b) \<Rightarrow> (bytes \<rightharpoonup> 'b) \<Rightarrow> bool"
  for unsynced hindered where
  no_changes: "book_changes unsynced hindered [] [] books books"
| change_taken:
    "\<lbrakk>books u = Some b; f b = Inr (r, b'); book_changes unsynced hindered cs answers (books(u \<mapsto> b')) books'\<rbrakk> \<Longrightarrow>
       book_changes unsynced hindered ((fl, u, f) # cs) (Inr (r, b') # answers) books books'"
| change_refused:
    "\<lbrakk>\<And>b r b'. books u = Some b \<Longrightarrow> f b = Inr (r, b') \<Longrightarrow> hindered fl u; book_changes unsynced hindered cs answers books books'\<rbrakk> \<Longrightarrow>
       book_changes unsynced hindered ((fl, u, f) # cs) (Inl e # answers) books books'"
| change_unsynced:
    "\<lbrakk>books u = Some b; f b = Inr (r, b'); unsynced fl u = Some e;
      book_changes unsynced hindered cs answers (books(u \<mapsto> b')) books'\<rbrakk> \<Longrightarrow>
       book_changes unsynced hindered ((fl, u, f) # cs) (Inl e # answers) books books'"

locale thread_library =
  fixes view :: "'d \<Rightarrow> bytes \<rightharpoonup> 'b"
    and update :: "bytes \<Rightarrow> ('b \<Rightarrow> 'm + 'a \<times> 'b) \<Rightarrow> 'd \<Rightarrow> ('e + 'a \<times> 'b) \<times> 'd"
    and ok :: "'d \<Rightarrow> bool" and good :: "bytes \<Rightarrow> 'b \<Rightarrow> bool"
    and faults :: "'d \<Rightarrow> 'f" and under :: "'f \<Rightarrow> 'd \<Rightarrow> 'd"
    and unsynced :: "'f \<Rightarrow> bytes \<Rightarrow> 'e option" and hindered :: "'f \<Rightarrow> bytes \<Rightarrow> bool" and stuck :: "'d \<Rightarrow> bytes \<Rightarrow> bool"
  assumes update_view: "\<lbrakk>ok d; keeps_good good u f; update u f d = (Inr (r, b'), d')\<rbrakk> \<Longrightarrow>
      (\<exists>b. view d u = Some b \<and> f b = Inr (r, b')) \<and> view d' = (view d)(u \<mapsto> b') \<and> ok d'"
    and update_fail: "\<lbrakk>ok d; keeps_good good u f; update u f d = (Inl e, d')\<rbrakk> \<Longrightarrow> ok d' \<and>
      (view d' = view d \<and>
         (\<forall>b r b'. view d u = Some b \<longrightarrow> f b = Inr (r, b') \<longrightarrow> hindered (faults d) u \<or> stuck d u) \<or>
       unsynced (faults d) u = Some e \<and>
         (\<exists>b r b'. view d u = Some b \<and> f b = Inr (r, b') \<and> view d' = (view d)(u \<mapsto> b')))"
    and update_stuck: "stuck (snd (update u f d)) = stuck d"
    and view_good: "\<lbrakk>ok d; view d u = Some b\<rbrakk> \<Longrightarrow> good u b"
    and under_frame: "faults (under fl d) = fl" "view (under fl d) = view d" "ok (under fl d) = ok d" "stuck (under fl d) = stuck d"
begin

text \<open>The changes of several processes, each under the faults of its time, with their answers.\<close>

fun run_changes :: "('f \<times> bytes \<times> ('b \<Rightarrow> 'm + 'a \<times> 'b)) list \<Rightarrow> 'd \<Rightarrow> ('e + 'a \<times> 'b) list \<times> 'd" where
  "run_changes [] d = ([], d)"
| "run_changes ((fl, u, f) # cs) d =
     (let (answer, d) = update u f (under fl d); (answers, d) = run_changes cs d in (answer # answers, d))"

text \<open>However the changes of several processes interleave, what the store answers and holds is an abstract run.\<close>

lemma changes_refine:
  "\<lbrakk>ok d; \<forall>(fl, u, f) \<in> set cs. keeps_good good u f; run_changes cs d = (answers, d')\<rbrakk> \<Longrightarrow>
     book_changes unsynced (\<lambda>fl u. hindered fl u \<or> stuck d u) cs answers (view d) (view d') \<and> ok d'"
proof (induction cs arbitrary: d answers)
  case (Cons c cs)
  obtain fl u f where c: "c = (fl, u, f)" by (cases c)
  obtain x d1 where up: "update u f (under fl d) = (x, d1)" by fastforce
  obtain rest where rest: "run_changes cs d1 = (rest, d')" and answers: "answers = x # rest"
    using Cons.prems(3) c up by (auto split: prod.splits)
  have ok: "ok (under fl d)" and keeps: "keeps_good good u f" and others: "\<forall>(fl, u, f) \<in> set cs. keeps_good good u f"
    using Cons.prems(1,2) c by (auto simp: under_frame)
  have stuck: "stuck d1 = stuck d" using update_stuck [of u f "under fl d"] up by (simp add: under_frame)
  show ?case
  proof (cases x)
    case (Inr y)
    obtain r b' where y: "y = (r, b')" by (cases y)
    from update_view [OF ok keeps up [unfolded Inr y]] obtain b where
      b: "view d u = Some b" "f b = Inr (r, b')" "view d1 = (view d)(u \<mapsto> b')" "ok d1" by (auto simp: under_frame)
    have "book_changes unsynced (\<lambda>fl u. hindered fl u \<or> stuck d u) cs rest ((view d)(u \<mapsto> b')) (view d')" "ok d'"
      using Cons.IH [OF b(4) others rest] unfolding stuck b(3) by blast+
    then show ?thesis
      unfolding answers c Inr y by (intro conjI change_taken [where b = b and f = f and books = "view d" and u = u, OF b(1,2)])
  next
    case (Inl e)
    note fail = update_fail [OF ok keeps up [unfolded Inl], unfolded under_frame]
    then have IH: "book_changes unsynced (\<lambda>fl u. hindered fl u \<or> stuck d u) cs rest (view d1) (view d') \<and> ok d'"
      using Cons.IH [OF _ others rest] by (simp add: stuck)
    from fail show ?thesis
      unfolding answers c Inl using IH
      by (auto intro: change_refused change_unsynced [where f = f])
  qed
qed (auto intro: no_changes)

end

definition threads_on :: "disk \<Rightarrow> bytes \<rightharpoonup> review_threads" where
  "threads_on dk unit = (case fst (load_threads unit dk) of Inr rt \<Rightarrow> Some rt | Inl _ \<Rightarrow> None)"

lemma threads_on_eq:
  "threads_on dk unit = (case read_thread_document dk unit of Inr doc \<Rightarrow> Some (td_threads doc) | Inl _ \<Rightarrow> None)"
  by (simp add: threads_on_def load_threads_doc split: sum.splits)

definition book_of :: "bytes \<Rightarrow> review_threads \<Rightarrow> bool" where
  "book_of unit rt \<longleftrightarrow> rt_unit rt = unit \<and> book_ok rt"

text \<open>A disk under other faults.\<close>

definition under_faults :: "store_faults \<Rightarrow> disk \<Rightarrow> disk" where
  "under_faults fl dk = dk\<lparr>dk_faults := fl\<rparr>"

interpretation stored:
  thread_library threads_on update_threads disk_ok book_of dk_faults under_faults fl_threads_sync step_fails drafts_unreadable
proof
  fix dk dk' unit rt result and change :: "review_threads \<Rightarrow> bytes + 'x \<times> review_threads"
  assume ok: "disk_ok dk" and keeps: "keeps_good book_of unit change"
    and up: "update_threads unit change dk = (Inr (result, rt), dk')"
  have rt_unit: "\<And>b r b'. rt_unit b = unit \<Longrightarrow> book_ok b \<Longrightarrow> change b = Inr (r, b') \<Longrightarrow> rt_unit b' = unit"
    using keeps unfolding keeps_good_def book_of_def by blast
  obtain doc where doc: "read_thread_document dk unit = Inr doc" "change (td_threads doc) = Inr (result, rt)"
    "read_thread_document dk' unit = Inr \<lparr>td_threads = rt, td_drafts = []\<rparr>"
    and dk': "dk_threads dk' = dk_threads dk \<or> dk_threads dk' = (dk_threads dk)(unit \<mapsto> Inr (current_document rt))"
    and unit: "rt_unit rt = unit"
    using update_threads_Inr [OF up ok rt_unit] .
  have rt: "book_ok rt" using keeps doc(2) disk_ok_doc [OF ok doc(1)] unfolding book_of_def keeps_good_def by blast
  have "threads_on dk' = (threads_on dk)(unit \<mapsto> rt)"
  proof (rule ext)
    fix u
    show "threads_on dk' u = ((threads_on dk)(unit \<mapsto> rt)) u"
      using doc(3) dk' read_thread_document_cong [of dk' u dk] by (auto simp: threads_on_eq)
  qed
  moreover have "disk_ok dk'"
    using dk' ok rt unit by (auto simp: disk_ok_def current_document_def split: if_splits)
  ultimately show "(\<exists>b. threads_on dk unit = Some b \<and> change b = Inr (result, rt)) \<and>
    threads_on dk' = (threads_on dk)(unit \<mapsto> rt) \<and> disk_ok dk'"
    using doc(1,2) by (simp add: threads_on_eq)
next
  fix dk dk' unit e and change :: "review_threads \<Rightarrow> bytes + 'x \<times> review_threads"
  assume ok: "disk_ok dk" and keeps: "keeps_good book_of unit change" and fail: "update_threads unit change dk = (Inl e, dk')"
  have rt_unit: "\<And>b r b'. rt_unit b = unit \<Longrightarrow> book_ok b \<Longrightarrow> change b = Inr (r, b') \<Longrightarrow> rt_unit b' = unit"
    using keeps unfolding keeps_good_def book_of_def by blast
  show "disk_ok dk' \<and>
      (threads_on dk' = threads_on dk \<and>
         (\<forall>b r b'. threads_on dk unit = Some b \<longrightarrow> change b = Inr (r, b') \<longrightarrow>
            step_fails (dk_faults dk) unit \<or> drafts_unreadable dk unit) \<or>
       fl_threads_sync (dk_faults dk) unit = Some e \<and>
         (\<exists>b r b'. threads_on dk unit = Some b \<and> change b = Inr (r, b') \<and> threads_on dk' = (threads_on dk)(unit \<mapsto> b')))"
  proof (rule update_threads_Inl [OF fail ok rt_unit])
    assume unchanged: "same_threads dk dk'"
      "\<And>doc r rt. read_thread_document dk unit = Inr doc \<Longrightarrow> change (td_threads doc) = Inr (r, rt) \<Longrightarrow>
        step_fails (dk_faults dk) unit \<or> drafts_unreadable dk unit"
    have "threads_on dk' u = threads_on dk u" for u
      using read_thread_document_cong [of dk' u dk] unchanged(1) by (simp add: threads_on_eq)
    then have "threads_on dk' = threads_on dk" by (rule ext)
    moreover have "step_fails (dk_faults dk) unit \<or> drafts_unreadable dk unit"
      if "threads_on dk unit = Some b" "change b = Inr (r, b')" for b r b'
      using that unchanged(2) by (auto simp: threads_on_eq split: sum.splits)
    ultimately show ?thesis using ok unchanged(1) unfolding disk_ok_def by metis
  next
    fix doc result rt
    assume unsynced: "read_thread_document dk unit = Inr doc" "change (td_threads doc) = Inr (result, rt)"
      "dk_threads dk' = (dk_threads dk)(unit \<mapsto> Inr (current_document rt))" "rt_unit rt = unit"
      "fl_threads_sync (dk_faults dk) unit = Some e"
    have rt: "book_ok rt" using keeps unsynced(2) disk_ok_doc [OF ok unsynced(1)] unfolding book_of_def keeps_good_def by blast
    have "read_thread_document dk' unit = Inr \<lparr>td_threads = rt, td_drafts = []\<rparr>"
      using unsynced(3,4) disk_ok_doc [OF ok unsynced(1)]
      by (simp add: read_thread_document_def parse_version_def current_document_def)
    then have "threads_on dk' u = ((threads_on dk)(unit \<mapsto> rt)) u" for u
      using unsynced(3) read_thread_document_cong [of dk' u dk] by (auto simp: threads_on_eq)
    then have "threads_on dk' = (threads_on dk)(unit \<mapsto> rt)" by (rule ext)
    moreover have "disk_ok dk'"
      using unsynced(3,4) ok rt by (auto simp: disk_ok_def current_document_def split: if_splits)
    ultimately show ?thesis using unsynced(1,2,5) by (auto simp: threads_on_eq)
  qed
next
  fix unit and change :: "review_threads \<Rightarrow> bytes + 'x \<times> review_threads" and dk
  show "drafts_unreadable (snd (update_threads unit change dk)) = drafts_unreadable dk"
    using update_threads_readable [of unit change] by (simp add: keeps_state_def)
next
  fix dk unit rt
  assume "disk_ok dk" "threads_on dk unit = Some rt"
  then show "book_of unit rt" by (auto simp: threads_on_eq book_of_def dest: disk_ok_doc split: sum.splits)
next
  fix fl dk
  have read: "read_thread_document (under_faults fl dk) u = read_thread_document dk u"
    "read_drafts (under_faults fl dk) u = read_drafts dk u" for u
    by (simp_all add: read_thread_document_def read_drafts_def under_faults_def)
  show "dk_faults (under_faults fl dk) = fl" by (simp add: under_faults_def)
  show "threads_on (under_faults fl dk) = threads_on dk" by (simp add: fun_eq_iff threads_on_eq read)
  show "disk_ok (under_faults fl dk) = disk_ok dk" by (simp add: disk_ok_def under_faults_def)
  show "drafts_unreadable (under_faults fl dk) = drafts_unreadable dk" by (simp add: fun_eq_iff drafts_unreadable_def read)
qed

section \<open>Drafts that move\<close>

text \<open>A draft of an earlier build replaces the stored draft of its thread, and the other ones stay.\<close>

lemma draft_of_adopted:
  "draft_of (foldl (\<lambda>ds d. keep_draft d ds) ds embedded) t =
     (case draft_of (rev embedded) t of Some d \<Rightarrow> Some d | None \<Rightarrow> draft_of ds t)"
proof (induction embedded arbitrary: ds)
  case (Cons d embedded)
  have "draft_of (xs @ [d]) t = (case draft_of xs t of Some e \<Rightarrow> Some e | None \<Rightarrow> if dr_thread d = t then Some d else None)" for xs
    by (auto simp: draft_of_def find_append split: option.splits)
  with Cons show ?case by (auto simp: draft_of_keep split: option.splits)
qed (simp add: draft_of_def)

lemma change_drafts_Inr:
  assumes "change_drafts unit change dk = (Inr (r, ds), dk')"
  shows "\<exists>original. read_drafts dk unit = Inr original \<and> change original = Inr (r, ds) \<and> read_drafts dk' unit = Inr ds \<and> unit \<noteq> []"
proof -
  obtain original where o': "drafts_lock unit dk = Inr ()" "read_drafts dk unit = Inr original" "change original = Inr (r, ds)"
    "(if ds \<noteq> original then save_drafts unit ds else reading (\<lambda>_. Inr ())) dk = (Inr (), dk')"
    using assms by (auto simp: change_drafts_def and_then_Inr map_sum_eq split: prod.splits)
  moreover from o'(1) have "unit \<noteq> []" by (auto simp: drafts_lock_def split: if_splits)
  moreover from this o'(2,4) have "read_drafts dk' unit = Inr ds"
    by (auto simp: save_drafts_def read_drafts_def split: if_splits option.splits)
  ultimately show ?thesis by blast
qed

lemma forget_posted_again [simp]: "forget_posted rt (forget_posted rt ds) = forget_posted rt ds"
  by (simp add: forget_posted_def)

end
