(* ===== verification/ThreadService.thy ===== *)
theory ThreadService
  imports PromptGate ThreadStore "HOL-Library.AList"
begin

text \<open>
  The owner of the conversations (crates/review-thread-service/src/state.rs, lib.rs, wakeup.rs and
  notification.rs): one state, changed by one input at a time, that posts comments, serves the agents' calls
  and decides which wakeup goes to which agent.

  \<^item> A hash map is an association list; its order stands for the order in which the map iterates.
  \<^item> What a handler publishes, answers and hands to the courier is appended to lists of the state.
  \<^item> The world of one input gives the host's answers, the clock, the random identities and the flags
    that withdraw prompts; \<open>sv_drawn\<close> counts the identities drawn.
  \<^item> The turn log of vision sessions (test tooling) is left out.
\<close>

section \<open>Wakeups and notifications\<close>

record wakeup =
  wk_requested :: nat
  wk_notified :: nat

definition wakeup_none :: wakeup where
  "wakeup_none = \<lparr>wk_requested = 0, wk_notified = 0\<rparr>"

definition needs_poll :: "wakeup \<Rightarrow> bool" where
  "needs_poll w \<longleftrightarrow> wk_notified w < wk_requested w"

definition wakeup_interrupted :: "wakeup \<Rightarrow> wakeup" where
  "wakeup_interrupted w = w\<lparr>wk_notified := 0\<rparr>"

definition wakeup_request :: "nat \<Rightarrow> bool \<Rightarrow> wakeup \<Rightarrow> wakeup" where
  "wakeup_request sq is_retry w =
     (let w = w\<lparr>wk_requested := sq\<rparr> in if is_retry then wakeup_interrupted w else w)"

definition wakeup_sent :: "wakeup \<Rightarrow> nat \<times> wakeup" where
  "wakeup_sent w = (wk_requested w, w\<lparr>wk_notified := wk_requested w\<rparr>)"

definition unchanged_since :: "nat \<Rightarrow> wakeup \<Rightarrow> bool" where
  "unchanged_since sent w \<longleftrightarrow> wk_requested w = sent \<and> wk_notified w = sent"

definition wakeup_answered :: "wakeup \<Rightarrow> wakeup" where
  "wakeup_answered w = wakeup_none"

record notification =
  nt_retry :: bool

record wakeup_failure =
  wf_through :: nat
  wf_error :: bytes

section \<open>Inputs, events and responses\<close>

datatype thread_command =
  LoadReview bytes
| SaveDraft bytes draft
| DiscardDraft bytes bytes
| PostComment bytes post
| RetryThread bytes bytes
| SetResolution bytes bytes resolution
| MarkRepliesRead bytes "bytes list"
| MarkRead bytes bytes nat

datatype command = ThreadWork thread_command | ActiveAgentChanged | Observe herdr_event

datatype operation =
  ListThreads | GetThread bytes | GetNewMessages | Reply post | SubmitQuestion | SubmitConclusion | ReviseQuestion

definition belongs_to_explore :: "operation \<Rightarrow> bool" where
  "belongs_to_explore op \<longleftrightarrow> op = SubmitQuestion \<or> op = SubmitConclusion \<or> op = ReviseQuestion"

datatype response = ThreadsResponse "review_thread list" | NewMessages "review_thread list" | PostedReply bytes

datatype event =
  Loaded bytes "bytes + review_threads" saved_drafts
| Posted bytes bytes "bytes + unit"
| RoundMessage bytes bytes bytes
| WakeupEvent bytes "wakeup_failure option"
| ErrorEvent bytes

datatype input =
  Ui command | Mcp bytes operation "bytes option" | Prompt prompt_request | Notified bytes nat prompt_result | Stop

record world =
  wd_port :: port
  wd_now :: nat
  wd_uuid :: "nat \<Rightarrow> bytes"
  wd_flags :: "nat \<Rightarrow> bool \<times> bool"

record service =
  sv_disk :: disk
  sv_target :: agent_target
  sv_available :: bool
  sv_books :: "(bytes \<times> review_threads) list"
  sv_retried :: "bytes \<rightharpoonup> (bytes \<rightharpoonup> nat)"
  sv_access :: "(bytes \<times> access) list"
  sv_notifications :: "(bytes \<times> notification) list"
  sv_wakeups :: "(bytes \<times> wakeup) list"
  sv_outbox :: outbox
  sv_courier_runs :: bool
  sv_hooks :: bool
  sv_named :: "(bytes \<times> bytes) list"
  sv_events :: "event list"
  sv_answers :: "(bytes + response) list"
  sv_drawn :: nat

definition service_new :: "disk \<Rightarrow> agent_target \<Rightarrow> bool \<Rightarrow> bool \<Rightarrow> (nat \<Rightarrow> pin) \<Rightarrow> service" where
  "service_new dk target available hooks pins =
     \<lparr>sv_disk = dk, sv_target = target, sv_available = available, sv_books = [], sv_retried = Map.empty,
      sv_access = [], sv_notifications = [], sv_wakeups = [],
      sv_outbox = \<lparr>ob_pins = pins, ob_waiting = [], ob_handed = [], ob_outcomes = []\<rparr>,
      sv_courier_runs = True, sv_hooks = hooks, sv_named = [], sv_events = [], sv_answers = [], sv_drawn = 0\<rparr>"

definition publish :: "event \<Rightarrow> service \<Rightarrow> service" where
  "publish e sv = sv\<lparr>sv_events := sv_events sv @ [e]\<rparr>"

definition report :: "bytes + unit \<Rightarrow> service \<Rightarrow> service" where
  "report r sv = (case r of Inl e \<Rightarrow> publish (ErrorEvent e) sv | Inr _ \<Rightarrow> sv)"

section \<open>Who waits for the agent\<close>

definition recipient_of :: "service \<Rightarrow> bytes \<Rightarrow> recipient" where
  "recipient_of sv unit =
     \<lparr>rc_tab = tg_tab (sv_target sv), rc_retried = (case sv_retried sv unit of Some r \<Rightarrow> r | None \<Rightarrow> Map.empty)\<rparr>"

definition waits_for_agent :: "service \<Rightarrow> bytes \<Rightarrow> bool" where
  "waits_for_agent sv unit =
     (case map_of (sv_books sv) unit of
        None \<Rightarrow> False | Some rt \<Rightarrow> has_new_messages_for rt (recipient_of sv unit))"

definition pending_through :: "service \<Rightarrow> bytes \<Rightarrow> nat option" where
  "pending_through sv unit =
     (case map_of (sv_books sv) unit of
        None \<Rightarrow> None | Some rt \<Rightarrow> pending_comment_sequence_for rt (recipient_of sv unit))"

definition report_wakeup :: "bytes option \<Rightarrow> wakeup_failure option \<Rightarrow> service \<Rightarrow> service" where
  "report_wakeup unit failure sv =
     (case unit of
        Some u \<Rightarrow> publish (WakeupEvent u failure) sv
      | None \<Rightarrow> (case failure of Some f \<Rightarrow> publish (ErrorEvent (wf_error f)) sv | None \<Rightarrow> sv))"

definition undelivered :: "bytes option \<Rightarrow> bytes \<Rightarrow> service \<Rightarrow> service" where
  "undelivered unit error sv =
     (case (case unit of None \<Rightarrow> None | Some u \<Rightarrow> pending_through sv u) of
        Some through \<Rightarrow> report_wakeup unit (Some \<lparr>wf_through = through, wf_error = error\<rparr>) sv
      | None \<Rightarrow> publish (ErrorEvent error) sv)"

definition unit_of_token :: "service \<Rightarrow> bytes \<Rightarrow> bytes option" where
  "unit_of_token sv token = map_option ac_review_unit (map_of (sv_access sv) token)"

definition notified :: "bytes \<Rightarrow> nat \<Rightarrow> prompt_result \<Rightarrow> service \<Rightarrow> service" where
  "notified token through result sv =
     (case result of
        Inr _ \<Rightarrow> sv
      | Inl e \<Rightarrow>
          (let sv = (case map_of (sv_wakeups sv) token of
                Some w \<Rightarrow> if unchanged_since through w then sv\<lparr>sv_wakeups := AList.delete token (sv_wakeups sv)\<rparr> else sv
              | None \<Rightarrow> sv)
           in report_wakeup (unit_of_token sv token)
                (Some \<lparr>wf_through = through, wf_error = prompt_error_text e\<rparr>) sv))"

definition has_pending_notifications :: "service \<Rightarrow> bool" where
  "has_pending_notifications sv \<longleftrightarrow>
     ob_waiting (sv_outbox sv) \<noteq> [] \<or> sv_notifications sv \<noteq> [] \<or>
     list_ex (\<lambda>(token, w). needs_poll w \<and>
       (case map_of (sv_access sv) token of Some ac \<Rightarrow> waits_for_agent sv (ac_review_unit ac) | None \<Rightarrow> False))
       (sv_wakeups sv)"

definition schedule :: "bytes \<Rightarrow> bool \<Rightarrow> service \<Rightarrow> (bytes + unit) \<times> service" where
  "schedule unit is_retry sv =
     (if map_of (sv_books sv) unit = None then (Inl ''The review history is not loaded'', sv)
      else if \<not> waits_for_agent sv unit then (Inr (), sv)
      else if \<not> sv_available sv
      then (Inl ''The comment is saved, but the reviewer MCP server is unavailable'', sv)
      else (Inr (), sv\<lparr>sv_notifications := AList.update unit
        \<lparr>nt_retry = ((case map_of (sv_notifications sv) unit of Some n \<Rightarrow> nt_retry n | None \<Rightarrow> False) \<or> is_retry)\<rparr>
        (sv_notifications sv)\<rparr>))"

definition cancel_wakeups :: "bytes \<Rightarrow> service \<Rightarrow> service" where
  "cancel_wakeups unit sv =
     sv\<lparr>sv_notifications := AList.delete unit (sv_notifications sv),
        sv_wakeups := filter (\<lambda>(token, _).
          case map_of (sv_access sv) token of Some ac \<Rightarrow> ac_review_unit ac \<noteq> unit | None \<Rightarrow> False) (sv_wakeups sv)\<rparr>"

definition release :: "bytes \<Rightarrow> bytes \<Rightarrow> service \<Rightarrow> service" where
  "release unit thread sv =
     (case map_of (sv_books sv) unit of
        None \<Rightarrow> sv
      | Some rt \<Rightarrow>
          (case book_thread rt thread of
             None \<Rightarrow> sv
           | Some t \<Rightarrow>
               (case last_comment t of
                  None \<Rightarrow> sv
                | Some c \<Rightarrow> sv\<lparr>sv_retried := (sv_retried sv)(unit \<mapsto>
                    ((case sv_retried sv unit of Some r \<Rightarrow> r | None \<Rightarrow> Map.empty)(thread \<mapsto> ms_sequence c)))\<rparr>)))"

definition resume :: "bytes \<Rightarrow> service \<Rightarrow> service" where
  "resume unit sv =
     (if waits_for_agent sv unit then (let (r, sv) = schedule unit False sv in report r sv) else sv)"

definition refresh_target :: "service \<Rightarrow> service" where
  "refresh_target sv = foldl (\<lambda>sv unit. resume unit sv) sv (map fst (sv_books sv))"

definition request_wakeup :: "access \<Rightarrow> bool \<Rightarrow> service \<Rightarrow> service" where
  "request_wakeup ac is_retry sv =
     (case pending_through sv (ac_review_unit ac) of
        None \<Rightarrow> sv
      | Some sq \<Rightarrow> sv\<lparr>sv_wakeups := AList.update (ac_token ac)
          (wakeup_request sq is_retry (case map_of (sv_wakeups sv) (ac_token ac) of Some w \<Rightarrow> w | None \<Rightarrow> wakeup_none))
          (sv_wakeups sv)\<rparr>)"

section \<open>The threads and drafts on disk\<close>

definition load :: "bytes \<Rightarrow> service \<Rightarrow> (bytes + review_threads) \<times> service" where
  "load unit sv =
     (case load_threads unit (sv_disk sv) of
        (Inl e, dk) \<Rightarrow> (Inl (store_error_text e), sv\<lparr>sv_disk := dk\<rparr>)
      | (Inr rt, dk) \<Rightarrow> (Inr rt, sv\<lparr>sv_disk := dk, sv_books := AList.update unit rt (sv_books sv)\<rparr>))"

definition drafts_to_restore :: "bytes \<Rightarrow> service \<Rightarrow> saved_drafts \<times> service" where
  "drafts_to_restore unit sv =
     (case load_drafts unit (sv_disk sv) of
        (Inl e, dk) \<Rightarrow> ([], publish (ErrorEvent (''Could not load drafts: '' @ store_error_text e)) (sv\<lparr>sv_disk := dk\<rparr>))
      | (Inr ds, dk) \<Rightarrow> (ds, sv\<lparr>sv_disk := dk\<rparr>))"

text \<open>\<open>State::update\<close>: a change of the threads on disk, which the service keeps and shows when it changed
  the book it knew.\<close>

definition update_book ::
  "bytes \<Rightarrow> (review_threads \<Rightarrow> thread_error + 'a \<times> review_threads) \<Rightarrow> service \<Rightarrow> (bytes + 'a) \<times> service" where
  "update_book unit change sv =
     (case update_threads unit (\<lambda>rt. map_sum thread_error_text id (change rt)) (sv_disk sv) of
        (Inl e, dk) \<Rightarrow> (Inl (store_error_text e), sv\<lparr>sv_disk := dk\<rparr>)
      | (Inr (result, rt), dk) \<Rightarrow>
          (let previous = map_of (sv_books sv) (rt_unit rt);
               sv = sv\<lparr>sv_disk := dk, sv_books := AList.update (rt_unit rt) rt (sv_books sv)\<rparr>
           in (Inr result,
               if previous \<noteq> Some rt
               then let (drafts, sv) = drafts_to_restore (rt_unit rt) sv in publish (Loaded (rt_unit rt) (Inr rt) drafts) sv
               else sv)))"

definition update_saved_drafts ::
  "bytes \<Rightarrow> (saved_drafts \<Rightarrow> review_threads \<Rightarrow> thread_error + saved_drafts) \<Rightarrow> service \<Rightarrow> (bytes + unit) \<times> service" where
  "update_saved_drafts unit change sv =
     (case update_drafts unit (\<lambda>ds rt. map_sum thread_error_text (\<lambda>ds. ((), ds)) (change ds rt)) (sv_disk sv) of
        (Inl e, dk) \<Rightarrow> (Inl (store_error_text e), sv\<lparr>sv_disk := dk\<rparr>)
      | (Inr _, dk) \<Rightarrow> (Inr (), sv\<lparr>sv_disk := dk\<rparr>))"

section \<open>The reviewer's commands\<close>

text \<open>An operation that indexes the books panics for a review without one: the result is None.\<close>

definition load_review :: "bytes \<Rightarrow> service \<Rightarrow> service option" where
  "load_review unit sv =
     (case load unit sv of
        (Inl e, sv) \<Rightarrow> Some (publish (Loaded unit (Inl e) []) sv)
      | (Inr _, sv) \<Rightarrow>
          (let (drafts, sv) = drafts_to_restore unit sv;
               sv = resume unit sv
           in case map_of (sv_books sv) unit of
                None \<Rightarrow> None
              | Some rt \<Rightarrow> Some (publish (Loaded unit (Inr rt) drafts) sv)))"

definition set_thread_resolution :: "bytes \<Rightarrow> bytes \<Rightarrow> resolution \<Rightarrow> service \<Rightarrow> (bytes + unit) \<times> service" where
  "set_thread_resolution unit i r sv =
     (case update_book unit (\<lambda>rt. map_sum id (\<lambda>rt. ((), rt)) (set_resolution i r rt)) sv of
        (Inl e, sv) \<Rightarrow> (Inl e, sv)
      | (Inr _, sv) \<Rightarrow>
          if r = OpenThread then schedule unit True (release unit i sv)
          else if \<not> waits_for_agent sv unit then (Inr (), cancel_wakeups unit sv)
          else (Inr (), sv))"

definition round_of_new :: "bytes \<Rightarrow> bytes \<Rightarrow> bytes + bool \<Rightarrow> service \<Rightarrow> bytes option option" where
  "round_of_new unit thread result sv =
     (case result of
        Inr True \<Rightarrow>
          (case map_of (sv_books sv) unit of
             None \<Rightarrow> None
           | Some rt \<Rightarrow> Some (case book_thread rt thread of Some t \<Rightarrow> thread_round t | None \<Rightarrow> None))
      | _ \<Rightarrow> Some None)"

definition post_comment :: "nat \<Rightarrow> bytes \<Rightarrow> post \<Rightarrow> service \<Rightarrow> service option" where
  "post_comment now unit p0 sv =
     (let p = from_tab (tg_tab (sv_target sv)) p0;
          message = ms_id (po_message p);
          (result, sv) = update_book unit (\<lambda>rt.
            map_sum id (\<lambda>(_, rt'). (book_message rt message = None, rt')) (post_message now rt p)) sv
      in case round_of_new unit (po_thread p) result sv of
           None \<Rightarrow> None
         | Some round \<Rightarrow> Some
             (let sv = (case result of
                    Inr _ \<Rightarrow> (let (forgotten, sv) = update_saved_drafts unit (\<lambda>ds _. Inr ds) sv in report forgotten sv)
                  | Inl _ \<Rightarrow> sv);
                  sv = publish (Posted unit message (map_sum id (\<lambda>_. ()) result)) sv;
                  sv = (case round of Some r \<Rightarrow> publish (RoundMessage unit r message) sv | None \<Rightarrow> sv)
              in case result of
                   Inl _ \<Rightarrow> sv
                 | Inr _ \<Rightarrow>
                     (case schedule unit False sv of
                        (Inl e, sv) \<Rightarrow> undelivered (Some unit) e sv
                      | (Inr _, sv) \<Rightarrow> sv)))"

definition retry_thread :: "bytes \<Rightarrow> bytes \<Rightarrow> service \<Rightarrow> (bytes + unit) \<times> service" where
  "retry_thread unit i sv =
     (case load unit sv of
        (Inl e, sv) \<Rightarrow> (Inl e, sv)
      | (Inr rt, sv) \<Rightarrow>
          (case retry rt i of
             Inl e \<Rightarrow> (Inl (thread_error_text e), sv)
           | Inr _ \<Rightarrow> schedule unit True (release unit i sv)))"

definition thread_work :: "nat \<Rightarrow> thread_command \<Rightarrow> service \<Rightarrow> service option" where
  "thread_work now cmd sv =
     (case cmd of
        LoadReview unit \<Rightarrow> load_review unit sv
      | SaveDraft unit d \<Rightarrow>
          (let (r, sv) = update_saved_drafts unit (\<lambda>ds rt. save_draft d rt ds) sv in Some (report r sv))
      | DiscardDraft unit i \<Rightarrow>
          (let (r, sv) = update_saved_drafts unit (\<lambda>ds _. Inr (discard_draft i ds)) sv in Some (report r sv))
      | PostComment unit p \<Rightarrow> post_comment now unit p sv
      | SetResolution unit i resolution \<Rightarrow> (let (r, sv) = set_thread_resolution unit i resolution sv in Some (report r sv))
      | MarkRepliesRead unit ids \<Rightarrow>
          (let (r, sv) = update_book unit (\<lambda>rt. Inr ((), mark_replies_read ids rt)) sv in Some (report r sv))
      | MarkRead unit i through \<Rightarrow>
          (let (r, sv) = update_book unit (\<lambda>rt. map_sum id (\<lambda>rt. ((), rt)) (mark_read i through rt)) sv in Some (report r sv))
      | RetryThread unit i \<Rightarrow> (let (r, sv) = retry_thread unit i sv in Some (report r sv)))"

section \<open>The agents' calls\<close>

definition store_access :: "access \<Rightarrow> service \<Rightarrow> service" where
  "store_access ac sv = sv\<lparr>sv_access := AList.update (ac_token ac) ac (sv_access sv)\<rparr>"

definition serve :: "nat \<Rightarrow> access \<Rightarrow> operation \<Rightarrow> service \<Rightarrow> (bytes + response) \<times> service" where
  "serve now ac op sv =
     (case load (ac_review_unit ac) sv of
        (Inl e, sv) \<Rightarrow> (Inl e, sv)
      | (Inr rt, sv) \<Rightarrow>
          (case op of
             ListThreads \<Rightarrow> (Inr (ThreadsResponse (rt_threads rt)), sv)
           | GetThread i \<Rightarrow>
               (case book_thread rt i of
                  None \<Rightarrow> (Inl ''The review thread no longer exists'', sv)
                | Some t \<Rightarrow> (Inr (ThreadsResponse [t]), sv))
           | GetNewMessages \<Rightarrow>
               (Inr (NewMessages (new_messages_for rt (recipient_of sv (ac_review_unit ac)))), sv)
           | Reply p \<Rightarrow>
               (case update_book (ac_review_unit ac) (\<lambda>rt. answer now rt p) sv of
                  (Inl e, sv) \<Rightarrow> (Inl e, sv)
                | (Inr i, sv) \<Rightarrow>
                    (Inr (PostedReply i),
                     if \<not> waits_for_agent sv (ac_review_unit ac)
                     then (case map_of (sv_wakeups sv) (ac_token ac) of
                        Some w \<Rightarrow> sv\<lparr>sv_wakeups := AList.update (ac_token ac) (wakeup_answered w) (sv_wakeups sv)\<rparr>
                      | None \<Rightarrow> sv)
                     else sv))
           | _ \<Rightarrow> (Inl ''Explore requests belong to the interview owner'', sv)))"

definition request :: "world \<Rightarrow> bytes \<Rightarrow> operation \<Rightarrow> bytes option \<Rightarrow> service \<Rightarrow> (bytes + response) \<times> service" where
  "request W token op session sv =
     (case map_of (sv_access sv) token of
        None \<Rightarrow> (Inl ''Unknown review access value; use the value in the latest reviewer wakeup'', sv)
      | Some ac \<Rightarrow>
          (case access_current_agent (wd_port W) ac of
             (Inl e, ac) \<Rightarrow> (Inl e, store_access ac sv)
           | (Inr a, ac) \<Rightarrow>
               (let sv = store_access ac sv;
                    sv = (case session of
                        Some s \<Rightarrow> if sv_hooks sv then sv\<lparr>sv_named := sv_named sv @ [(ag_pane a, s)]\<rparr> else sv
                      | None \<Rightarrow> sv)
                in serve (wd_now W) ac op sv)))"

section \<open>What the host reports\<close>

definition interrupt_wakeups :: "bytes \<Rightarrow> service \<Rightarrow> service" where
  "interrupt_wakeups pane sv =
     sv\<lparr>sv_wakeups := map (\<lambda>(token, w). (token,
          case map_of (sv_access sv) token of
            Some ac \<Rightarrow> if ag_pane (ac_agent ac) = pane then wakeup_interrupted w else w
          | None \<Rightarrow> w)) (sv_wakeups sv)\<rparr>"

text \<open>The accesses of a pane whose agent is current, and all accesses as checking them leaves them.\<close>

fun resumable :: "port \<Rightarrow> (bytes \<Rightarrow> bool) \<Rightarrow> bytes \<Rightarrow> (bytes \<times> access) list \<Rightarrow> access list \<times> (bytes \<times> access) list" where
  "resumable P has_wakeup pane [] = ([], [])"
| "resumable P has_wakeup pane ((token, ac) # acs) =
     (let (valid, rest) = resumable P has_wakeup pane acs
      in if ag_pane (ac_agent ac) = pane \<and> \<not> has_wakeup (ac_token ac)
         then case access_current_agent P ac of
           (Inr _, ac) \<Rightarrow> (ac # valid, (token, ac) # rest)
         | (Inl _, ac) \<Rightarrow> (valid, (token, ac) # rest)
         else (valid, (token, ac) # rest))"

definition resume_access :: "port \<Rightarrow> bytes \<Rightarrow> service \<Rightarrow> service" where
  "resume_access P pane sv =
     (let (valid, acs) = resumable P (\<lambda>token. map_of (sv_wakeups sv) token \<noteq> None) pane (sv_access sv)
      in foldl (\<lambda>sv ac. request_wakeup ac False sv) (sv\<lparr>sv_access := acs\<rparr>) valid)"

definition observe :: "port \<Rightarrow> herdr_event \<Rightarrow> service \<Rightarrow> service" where
  "observe P ev sv =
     (case ev of
        AgentDetected pane _ _ released _ \<Rightarrow>
          if released then refresh_target (interrupt_wakeups pane sv)
          else refresh_target (resume_access P pane sv)
      | PaneFocused _ \<Rightarrow> sv)"

section \<open>Granting access and notifying\<close>

text \<open>The first access of the review that the agent matches; a failed check ends the search.\<close>

fun grant_existing ::
  "port \<Rightarrow> bytes \<Rightarrow> agent \<Rightarrow> (bytes \<times> access) list \<Rightarrow> (bytes + access option) \<times> (bytes \<times> access) list" where
  "grant_existing P unit a [] = (Inr None, [])"
| "grant_existing P unit a ((token, ac) # acs) =
     (if ac_review_unit ac = unit
      then case matches_agent P a ac of
        (Inl e, ac) \<Rightarrow> (Inl e, (token, ac) # acs)
      | (Inr True, ac) \<Rightarrow> (Inr (Some ac), (token, ac) # acs)
      | (Inr False, ac) \<Rightarrow> (let (r, rest) = grant_existing P unit a acs in (r, (token, ac) # rest))
      else (let (r, rest) = grant_existing P unit a acs in (r, (token, ac) # rest)))"

definition grant :: "world \<Rightarrow> bytes \<Rightarrow> agent \<Rightarrow> service \<Rightarrow> (bytes + access) \<times> service" where
  "grant W unit a sv =
     (case grant_existing (wd_port W) unit a (sv_access sv) of
        (Inl e, acs) \<Rightarrow> (Inl e, sv\<lparr>sv_access := acs\<rparr>)
      | (Inr (Some ac), acs) \<Rightarrow> (Inr ac, sv\<lparr>sv_access := acs\<rparr>)
      | (Inr None, acs) \<Rightarrow>
          (let sv = sv\<lparr>sv_access := acs\<rparr>
           in case access_new (wd_uuid W (sv_drawn sv)) unit a (wd_port W) of
                Inl e \<Rightarrow> (Inl e, sv)
              | Inr ac \<Rightarrow>
                  (let sv = cancel_wakeups unit (sv\<lparr>sv_drawn := Suc (sv_drawn sv)\<rparr>)
                   in (Inr ac, sv\<lparr>sv_access := AList.update (ac_token ac) ac
                        (filter (\<lambda>(_, previous). ac_review_unit previous \<noteq> unit) (sv_access sv))\<rparr>))))"

definition NO_AGENT :: bytes where
  "NO_AGENT = ''Focus an implementation agent to receive the saved comments''"

definition resolve_target :: "port \<Rightarrow> service \<Rightarrow> (bytes + agent) \<times> service" where
  "resolve_target P sv =
     (case target_resolve P (sv_target sv) of
        Inl e \<Rightarrow> (Inl (error_text e), sv)
      | Inr (Some a, tg) \<Rightarrow> (Inr a, sv\<lparr>sv_target := tg\<rparr>)
      | Inr (None, tg) \<Rightarrow> (Inl NO_AGENT, sv\<lparr>sv_target := tg\<rparr>))"

text \<open>A pending notification that is gone is a panic of the source: the result is None.\<close>

definition prepare_notification :: "world \<Rightarrow> bytes \<Rightarrow> service \<Rightarrow> ((bytes + unit) \<times> service) option" where
  "prepare_notification W unit sv =
     (case map_of (sv_notifications sv) unit of
        None \<Rightarrow> None
      | Some n \<Rightarrow> Some
          (if \<not> waits_for_agent sv unit then (Inr (), cancel_wakeups unit sv)
           else case resolve_target (wd_port W) sv of
             (Inl e, sv) \<Rightarrow> (Inl e, sv)
           | (Inr a, sv) \<Rightarrow>
               (case grant W unit a sv of
                  (Inl e, sv) \<Rightarrow> (Inl e, sv)
                | (Inr ac, sv) \<Rightarrow>
                    (Inr (), request_wakeup ac (nt_retry n)
                      (sv\<lparr>sv_notifications := AList.delete unit (sv_notifications sv)\<rparr>)))))"

definition send_wakeup :: "access \<Rightarrow> bytes \<Rightarrow> agent \<Rightarrow> service \<Rightarrow> service" where
  "send_wakeup ac token a sv =
     (case map_of (sv_wakeups sv) token of
        None \<Rightarrow> sv
      | Some w \<Rightarrow>
          if needs_poll w
          then let (through, w) = wakeup_sent w;
                   sv = sv\<lparr>sv_wakeups := AList.update token w (sv_wakeups sv)\<rparr>;
                   sv = report_wakeup (Some (ac_review_unit ac)) None sv
               in sv\<lparr>sv_outbox := courier_send (sv_courier_runs sv) \<lparr>pa_agent = a, pa_text = access_prompt ac,
                    pa_cancelled = None, pa_outcome = ToWorker token through\<rparr> (sv_outbox sv)\<rparr>
          else sv)"

definition notify :: "world \<Rightarrow> bytes \<Rightarrow> service \<Rightarrow> (bytes + unit) \<times> service" where
  "notify W token sv =
     (case map_of (sv_access sv) token of
        None \<Rightarrow> (Inr (), sv)
      | Some ac \<Rightarrow>
          if \<not> waits_for_agent sv (ac_review_unit ac) then (Inr (), sv)
          else case resolve_target (wd_port W) sv of
            (Inl e, sv) \<Rightarrow> (Inl e, sv)
          | (Inr a, sv) \<Rightarrow>
              (case matches_agent (wd_port W) a ac of
                 (Inl e, ac) \<Rightarrow> (Inl e, sv\<lparr>sv_access := AList.update token ac (sv_access sv)\<rparr>)
               | (Inr False, ac) \<Rightarrow>
                   (let sv = sv\<lparr>sv_access := AList.update token ac (sv_access sv)\<rparr>
                    in schedule (ac_review_unit ac) False
                         (sv\<lparr>sv_wakeups := AList.delete token (sv_wakeups sv)\<rparr>))
               | (Inr True, ac) \<Rightarrow>
                   (Inr (), send_wakeup ac token a (sv\<lparr>sv_access := AList.update token ac (sv_access sv)\<rparr>))))"

definition poll_notification :: "world \<Rightarrow> service \<Rightarrow> bytes \<Rightarrow> service option" where
  "poll_notification W sv unit =
     (case prepare_notification W unit sv of
        None \<Rightarrow> None
      | Some (Inl e, sv) \<Rightarrow>
          Some (undelivered (Some unit) e (sv\<lparr>sv_notifications := AList.delete unit (sv_notifications sv)\<rparr>))
      | Some (Inr _, sv) \<Rightarrow> Some sv)"

definition poll_wakeup :: "world \<Rightarrow> service \<Rightarrow> bytes \<Rightarrow> service" where
  "poll_wakeup W sv token =
     (case notify W token sv of
        (Inl e, sv) \<Rightarrow>
          undelivered (unit_of_token sv token) e (sv\<lparr>sv_wakeups := AList.delete token (sv_wakeups sv)\<rparr>)
      | (Inr _, sv) \<Rightarrow> sv)"

definition poll :: "world \<Rightarrow> service \<Rightarrow> service option" where
  "poll W sv =
     (let sv = sv\<lparr>sv_outbox := poll_queue (wd_port W) (wd_flags W) (sv_courier_runs sv) (sv_outbox sv)\<rparr>
      in case fold_opt (poll_notification W) sv (map fst (sv_notifications sv)) of
           None \<Rightarrow> None
         | Some sv \<Rightarrow>
             Some (foldl (poll_wakeup W) sv (map fst (filter (\<lambda>(_, w). needs_poll w) (sv_wakeups sv)))))"

section \<open>One turn of the loop\<close>

text \<open>What an input or a turn of the loop ends in: the next state, the end of the worker, or a panic.\<close>

datatype turn = Next service | Stopped | Panicked

definition or_panic :: "service option \<Rightarrow> turn" where
  "or_panic x = (case x of None \<Rightarrow> Panicked | Some sv \<Rightarrow> Next sv)"

definition handle :: "world \<Rightarrow> input \<Rightarrow> service \<Rightarrow> turn" where
  "handle W i sv =
     (case i of
        Ui (ThreadWork cmd) \<Rightarrow> or_panic (thread_work (wd_now W) cmd sv)
      | Ui ActiveAgentChanged \<Rightarrow> Next (refresh_target sv)
      | Ui (Observe ev) \<Rightarrow> Next (observe (wd_port W) ev sv)
      | Prompt rq \<Rightarrow> Next (sv\<lparr>sv_outbox := push_request rq (sv_outbox sv)\<rparr>)
      | Mcp token op session \<Rightarrow>
          (let (r, sv) = request W token op session sv in Next (sv\<lparr>sv_answers := sv_answers sv @ [r]\<rparr>))
      | Notified token through result \<Rightarrow> Next (notified token through result sv)
      | Stop \<Rightarrow> Stopped)"

definition service_turn :: "world \<Rightarrow> input option \<Rightarrow> service \<Rightarrow> turn" where
  "service_turn W i sv =
     (case (case i of None \<Rightarrow> Next sv | Some i \<Rightarrow> handle W i sv) of
        Next sv \<Rightarrow> or_panic (poll W sv)
      | Stopped \<Rightarrow> Stopped
      | Panicked \<Rightarrow> Panicked)"

end
