(* ===== verification/ServiceLaws.thy ===== *)
theory ServiceLaws
  imports ThreadService
begin

text \<open>
  The invariant of the thread service: the books it holds are those of its reviews and in order, every
  review has at most one access, each access stays bound to its agent, a notification is pending only for a
  loaded review and a wakeup only for an access. Every handler keeps it, and no turn panics.
\<close>

section \<open>Association lists\<close>

declare map_of_eq_Some_iff [simp del]

text \<open>Every key of one map is a key of the other.\<close>

definition covers :: "('a \<rightharpoonup> 'b) \<Rightarrow> ('a \<rightharpoonup> 'c) \<Rightarrow> bool" where
  "covers m m' \<longleftrightarrow> (\<forall>k. m k \<noteq> None \<longrightarrow> m' k \<noteq> None)"

lemma covers_intros:
  "covers m m' \<Longrightarrow> covers (m(k := None)) m'"
  "covers m m' \<Longrightarrow> m' k \<noteq> None \<Longrightarrow> covers (m(k \<mapsto> v)) m'"
  "covers m m' \<Longrightarrow> m' k = Some y \<Longrightarrow> covers (m(k \<mapsto> v)) m'"
  "covers m m' \<Longrightarrow> covers m (m'(k \<mapsto> v'))"
  "covers (Map.empty) m'"
  by (auto simp: covers_def)

lemma map_of_update [simp]: "map_of (AList.update k v al) = (map_of al)(k \<mapsto> v)"
  by (rule AList.update_conv')

lemma map_of_delete [simp]: "map_of (AList.delete k al) = (map_of al)(k := None)"
  by (rule AList.delete_conv')

lemma map_of_filter_value:
  "distinct (map fst al) \<Longrightarrow> map_of (filter (\<lambda>(_, v). q v) al) k =
     (case map_of al k of Some v \<Rightarrow> if q v then Some v else None | None \<Rightarrow> None)"
proof (induction al)
  case (Cons kv al)
  have "map_of al (fst kv) = None" using Cons.prems by (simp add: map_of_eq_None_iff)
  with Cons show ?case by (auto split: option.splits)
qed simp

lemma map_of_filter_key: "map_of (filter (\<lambda>(k, _). p k) al) k = (if p k then map_of al k else None)"
  by (induction al) auto

lemma map_of_map_value: "map_of (map (\<lambda>(k, v). (k, f k v)) al) k = map_option (f k) (map_of al k)"
  by (induction al) auto

lemma distinct_fst_update [simp]: "distinct (map fst al) \<Longrightarrow> distinct (map fst (AList.update k v al))"
  by (rule AList.distinct_update)

lemma distinct_fst_delete [simp]: "distinct (map fst al) \<Longrightarrow> distinct (map fst (AList.delete k al))"
  by (rule AList.distinct_delete)

lemma distinct_fst_filter: "distinct (map fst al) \<Longrightarrow> distinct (map fst (filter p al))"
  by (simp add: distinct_map_filter)

section \<open>The parts of the invariant\<close>

definition access_ok :: "access \<Rightarrow> bool" where
  "access_ok ac \<longleftrightarrow>
     (let i = ac_identity ac
      in id_pane i = ag_pane (ac_agent ac) \<and> id_tab i = ag_tab (ac_agent ac) \<and> id_agent i = ag_agent (ac_agent ac) \<and>
         id_rules i = REVIEW_ACCESS \<and> (\<forall>s. id_session i \<noteq> Following s) \<and>
         (id_session i = Unbound \<longrightarrow> id_process_group i \<noteq> None))"

definition access_like :: "access \<Rightarrow> access \<Rightarrow> bool" where
  "access_like ac ac' \<longleftrightarrow>
     ac_token ac' = ac_token ac \<and> ac_review_unit ac' = ac_review_unit ac \<and> ac_agent ac' = ac_agent ac \<and>
     (access_ok ac \<longrightarrow> access_ok ac')"

definition accesses_ok :: "(bytes \<times> access) list \<Rightarrow> bool" where
  "accesses_ok acs \<longleftrightarrow>
     distinct (map fst acs) \<and>
     (\<forall>t ac. map_of acs t = Some ac \<longrightarrow> ac_token ac = t \<and> access_ok ac) \<and>
     (\<forall>t ac t' ac'. map_of acs t = Some ac \<longrightarrow> map_of acs t' = Some ac' \<longrightarrow>
        ac_review_unit ac = ac_review_unit ac' \<longrightarrow> t = t')"

definition books_ok :: "(bytes \<times> review_threads) list \<Rightarrow> bool" where
  "books_ok bs \<longleftrightarrow> distinct (map fst bs) \<and> (\<forall>u rt. map_of bs u = Some rt \<longrightarrow> book_of u rt)"

definition marks_ok :: "service \<Rightarrow> bool" where
  "marks_ok sv \<longleftrightarrow>
     distinct (map fst (sv_notifications sv)) \<and> distinct (map fst (sv_wakeups sv)) \<and>
     covers (map_of (sv_notifications sv)) (map_of (sv_books sv)) \<and>
     covers (map_of (sv_wakeups sv)) (map_of (sv_access sv))"

definition service_ok :: "service \<Rightarrow> bool" where
  "service_ok sv \<longleftrightarrow> disk_ok (sv_disk sv) \<and> books_ok (sv_books sv) \<and> accesses_ok (sv_access sv) \<and> marks_ok sv"

lemma service_ok_new: "disk_ok dk \<Longrightarrow> service_ok (service_new dk target available hooks pins)"
  by (simp add: service_ok_def service_new_def books_ok_def accesses_ok_def marks_ok_def covers_def)

section \<open>Accesses along checks\<close>

lemma access_like_refl: "access_like ac ac"
  by (simp add: access_like_def)

lemma matches_agent_like:
  assumes "matches_agent P a ac = (r, ac')"
  shows "access_like ac ac'"
proof (cases "check P a (ac_identity ac)")
  case (Inl e)
  with assms show ?thesis by (simp add: matches_agent_def access_like_refl)
next
  case (Inr vi)
  obtain v i where vi: "vi = (v, i)" by (cases vi)
  with Inr assms have ac': "ac' = ac\<lparr>ac_identity := i\<rparr>" by (simp add: matches_agent_def)
  have i: "check P a (ac_identity ac) = Inr (v, i)" using Inr vi by simp
  note keeps = check_keeps [OF i]
  have step: "i = (if v = SameAgent then adopt (ag_session a) (ac_identity ac) else ac_identity ac)" by (rule check_InrD [OF i])
  have "access_ok ac'" if ok: "access_ok ac"
  proof -
    have rules: "id_rules (ac_identity ac) = REVIEW_ACCESS" using ok by (simp add: access_ok_def Let_def)
    then have group: "id_process_group i = id_process_group (ac_identity ac)"
      by (intro check_process_kept [OF i]) (simp add: REVIEW_ACCESS_def)
    show ?thesis
    proof (cases "id_session (ac_identity ac)")
      case (Bound s)
      with check_bound [OF i] ok keeps group show ?thesis by (simp add: access_ok_def ac' Let_def)
    next
      case Unbound
      have "id_session i = Unbound \<or> (\<exists>s. id_session i = Bound s)"
        using step Unbound check_adopts_first [of P a "ac_identity ac" i] i by (auto split: option.splits if_splits)
      with ok keeps group Unbound show ?thesis by (auto simp: access_ok_def ac' Let_def)
    next
      case (Following s)
      with ok show ?thesis by (simp add: access_ok_def Let_def)
    qed
  qed
  then show ?thesis by (simp add: access_like_def ac')
qed

lemma access_current_like: "access_current_agent P ac = (r, ac') \<Longrightarrow> access_like ac ac'"
  using matches_agent_like access_like_refl
  by (auto simp: access_current_agent_def split: sum.splits option.splits prod.splits bool.splits)

lemma access_ok_new: "access_new uuid unit a P = Inr ac \<Longrightarrow> access_ok ac \<and> ac_token ac = uuid \<and> ac_review_unit ac = unit"
  by (auto simp: access_new_def access_ok_def bind_process_without_session_def identity_new_def
      split: sum.splits if_splits option.splits)

text \<open>Lists of accesses that checks turn into one another.\<close>

definition accesses_like :: "(bytes \<times> access) list \<Rightarrow> (bytes \<times> access) list \<Rightarrow> bool" where
  "accesses_like acs acs' \<longleftrightarrow> list_all2 (\<lambda>(t, ac) (t', ac'). t' = t \<and> access_like ac ac') acs acs'"

lemma accesses_like_refl: "accesses_like acs acs"
  by (auto simp: accesses_like_def access_like_refl intro: list_all2_refl)

lemma accesses_like_Nil [simp]: "accesses_like [] acs \<longleftrightarrow> acs = []"
  by (auto simp: accesses_like_def)

lemma accesses_like_Cons: "accesses_like ((t, ac) # acs) ((t', ac') # acs') \<longleftrightarrow> t' = t \<and> access_like ac ac' \<and> accesses_like acs acs'"
  by (simp add: accesses_like_def)

lemma accesses_like_map_of:
  "accesses_like acs acs' \<Longrightarrow> map fst acs' = map fst acs \<and> rel_option access_like (map_of acs t) (map_of acs' t)"
proof (induction acs arbitrary: acs')
  case (Cons p acs)
  obtain u ac where p: "p = (u, ac)" by (cases p)
  with Cons.prems obtain ac' rest where "acs' = (u, ac') # rest" "access_like ac ac'" "accesses_like acs rest"
    by (cases acs') (auto simp: accesses_like_def)
  with Cons.IH p show ?case by auto
qed simp

lemma accesses_ok_like: "accesses_ok acs \<Longrightarrow> accesses_like acs acs' \<Longrightarrow> accesses_ok acs'"
proof -
  assume ok: "accesses_ok acs" and like: "accesses_like acs acs'"
  have keys: "map fst acs' = map fst acs" using accesses_like_map_of [OF like] by blast
  have get: "\<exists>ac. map_of acs t = Some ac \<and> access_like ac ac'" if "map_of acs' t = Some ac'" for t ac'
    using accesses_like_map_of [OF like, of t] that by (auto simp: option_rel_Some2)
  show ?thesis
    unfolding accesses_ok_def
  proof (intro conjI allI impI)
    show "distinct (map fst acs')" using ok keys by (simp add: accesses_ok_def)
    fix t ac' assume a: "map_of acs' t = Some ac'"
    from get [OF a] ok show "ac_token ac' = t" "access_ok ac'" by (auto simp: accesses_ok_def access_like_def)
    fix t' bc' assume "map_of acs' t' = Some bc'" "ac_review_unit ac' = ac_review_unit bc'"
    with get [OF a] get [of t' bc'] obtain ac bc where "map_of acs t = Some ac" "map_of acs t' = Some bc"
      "ac_review_unit ac = ac_review_unit bc" by (auto simp: access_like_def)
    with ok show "t = t'" unfolding accesses_ok_def by blast
  qed
qed

lemma accesses_like_dom: "accesses_like acs acs' \<Longrightarrow> dom (map_of acs') = dom (map_of acs)"
  using accesses_like_map_of [of acs acs'] by (simp add: dom_map_of_conv_image_fst flip: set_map)

section \<open>What the invariant does not read\<close>

lemma service_ok_frame [simp]:
  "service_ok (sv\<lparr>sv_events := es\<rparr>) = service_ok sv" "service_ok (sv\<lparr>sv_target := tg\<rparr>) = service_ok sv"
  "service_ok (sv\<lparr>sv_retried := r\<rparr>) = service_ok sv" "service_ok (sv\<lparr>sv_outbox := ob\<rparr>) = service_ok sv"
  "service_ok (sv\<lparr>sv_answers := as\<rparr>) = service_ok sv" "service_ok (sv\<lparr>sv_drawn := n\<rparr>) = service_ok sv"
  "service_ok (sv\<lparr>sv_named := ns\<rparr>) = service_ok sv"
  by (simp_all add: service_ok_def marks_ok_def)

lemma publish_fields [simp]:
  "sv_disk (publish e sv) = sv_disk sv" "sv_target (publish e sv) = sv_target sv" "sv_books (publish e sv) = sv_books sv"
  "sv_retried (publish e sv) = sv_retried sv" "sv_access (publish e sv) = sv_access sv"
  "sv_notifications (publish e sv) = sv_notifications sv" "sv_wakeups (publish e sv) = sv_wakeups sv"
  "sv_outbox (publish e sv) = sv_outbox sv" "sv_events (publish e sv) = sv_events sv @ [e]"
  by (simp_all add: publish_def)

lemma publish_ok [simp]: "service_ok (publish e sv) = service_ok sv"
  by (simp add: publish_def)

lemma report_ok [simp]: "service_ok (report r sv) = service_ok sv"
  by (simp add: report_def split: sum.splits)

lemma report_wakeup_ok [simp]: "service_ok (report_wakeup unit f sv) = service_ok sv"
  by (simp add: report_wakeup_def split: option.splits)

lemma undelivered_ok [simp]: "service_ok (undelivered unit e sv) = service_ok sv"
  by (simp add: undelivered_def split: option.splits)

lemma release_ok [simp]: "service_ok (release unit t sv) = service_ok sv"
  by (simp add: release_def split: option.splits)

lemma resolve_target_ok: "resolve_target P sv = (r, sv') \<Longrightarrow> service_ok sv' = service_ok sv"
  by (auto simp: resolve_target_def split: sum.splits option.splits prod.splits)

section \<open>Notifications and wakeups\<close>

lemma delete_notification_ok: "service_ok sv \<Longrightarrow> service_ok (sv\<lparr>sv_notifications := AList.delete u (sv_notifications sv)\<rparr>)"
  by (auto simp: service_ok_def marks_ok_def intro: covers_intros)

lemma delete_wakeup_ok: "service_ok sv \<Longrightarrow> service_ok (sv\<lparr>sv_wakeups := AList.delete t (sv_wakeups sv)\<rparr>)"
  by (auto simp: service_ok_def marks_ok_def intro: covers_intros)

lemma update_wakeup_ok:
  "service_ok sv \<Longrightarrow> map_of (sv_access sv) t \<noteq> None \<Longrightarrow> service_ok (sv\<lparr>sv_wakeups := AList.update t w (sv_wakeups sv)\<rparr>)"
  by (auto simp: service_ok_def marks_ok_def intro: covers_intros)

lemma map_fst_map_value: "map fst (map (\<lambda>(k, v). (k, f k v)) al) = map fst al"
  by (induction al) auto

lemma covers_map_value: "covers (map_of al) m \<Longrightarrow> covers (map_of (map (\<lambda>(k, v). (k, f k v)) al)) m"
  by (auto simp: covers_def map_of_map_value)

lemma covers_filter_key: "covers (map_of al) m \<Longrightarrow> covers (map_of (filter (\<lambda>(k, _). p k) al)) m"
  by (auto simp: covers_def map_of_filter_key split: if_splits)

lemma interrupt_ok: "service_ok sv \<Longrightarrow> service_ok (interrupt_wakeups pane sv)"
  unfolding interrupt_wakeups_def service_ok_def marks_ok_def
  by (auto simp: map_fst_map_value covers_map_value simp del: map_map)

lemma notified_ok: "service_ok sv \<Longrightarrow> service_ok (notified t n r sv)"
  by (auto simp: notified_def Let_def delete_wakeup_ok split: sum.splits option.splits)

lemma schedule_ok: "service_ok sv \<Longrightarrow> schedule unit again sv = (r, sv') \<Longrightarrow> service_ok sv'"
  by (auto simp: schedule_def service_ok_def marks_ok_def intro: covers_intros split: if_splits)

lemma cancel_ok: "service_ok sv \<Longrightarrow> service_ok (cancel_wakeups unit sv)"
  by (auto simp: cancel_wakeups_def service_ok_def marks_ok_def covers_filter_key distinct_fst_filter intro: covers_intros)

lemma resume_ok: "service_ok sv \<Longrightarrow> service_ok (resume unit sv)"
  using schedule_ok [of sv unit False] by (auto simp: resume_def split: prod.splits)

lemma fold_ok: "service_ok sv \<Longrightarrow> (\<And>x sv. service_ok sv \<Longrightarrow> service_ok (f sv x)) \<Longrightarrow> service_ok (foldl f sv xs)"
  by (induction xs arbitrary: sv) simp_all

lemma refresh_target_ok: "service_ok sv \<Longrightarrow> service_ok (refresh_target sv)"
  unfolding refresh_target_def by (rule fold_ok) (simp_all add: resume_ok)

lemma request_wakeup_ok:
  "service_ok sv \<Longrightarrow> map_of (sv_access sv) (ac_token ac) \<noteq> None \<Longrightarrow> service_ok (request_wakeup ac again sv)"
  by (simp add: request_wakeup_def update_wakeup_ok split: option.splits)

lemma request_wakeup_access [simp]: "sv_access (request_wakeup ac again sv) = sv_access sv"
  by (simp add: request_wakeup_def split: option.splits)

section \<open>The disk and the books\<close>

lemma same_threads_ok: "same_threads dk dk' \<Longrightarrow> disk_ok dk' = disk_ok dk"
  by (simp add: disk_ok_def)

lemma keeps_good_id: "keeps_good book_of unit (\<lambda>rt. Inr ((), rt))"
  by (simp add: keeps_good_def)

lemma load_threads_ok:
  assumes "disk_ok dk" "load_threads unit dk = (r, dk')"
  shows "disk_ok dk' \<and> (\<forall>rt. r = Inr rt \<longrightarrow> book_of unit rt \<and> threads_on dk unit = Some rt) \<and> threads_on dk' = threads_on dk"
proof -
  have r: "r = map_sum id td_threads (read_thread_document dk unit)"
    using load_threads_doc [of unit dk] assms(2) by simp
  have dk': "dk' = dk \<or> (\<exists>x. update_threads unit (\<lambda>rt. Inr ((), rt)) dk = (x, dk'))"
    using assms(2) by (auto simp: load_threads_def and_then_def reading_def split: sum.splits prod.splits if_splits)
  have "disk_ok dk' \<and> threads_on dk' = threads_on dk"
  proof (cases "dk' = dk")
    case False
    with dk' obtain x where up: "update_threads unit (\<lambda>rt. Inr ((), rt)) dk = (x, dk')" by blast
    show ?thesis
    proof (cases x)
      case (Inl e)
      with stored.update_fail [OF assms(1) keeps_good_id] up show ?thesis by (fastforce simp: fun_upd_idem)
    next
      case (Inr y)
      obtain u rt where y: "y = (u, rt)" by (cases y)
      from stored.update_view [OF assms(1) keeps_good_id up [unfolded Inr y]]
      show ?thesis by (auto simp: fun_upd_idem)
    qed
  qed (use assms(1) in simp)
  moreover have "book_of unit rt \<and> threads_on dk unit = Some rt" if "r = Inr rt" for rt
  proof -
    have "threads_on dk unit = Some rt" using r that by (auto simp: threads_on_eq map_sum_eq split: sum.splits)
    with stored.view_good [OF assms(1)] show ?thesis by blast
  qed
  ultimately show ?thesis by blast
qed

lemma load_ok:
  assumes "service_ok sv" "load unit sv = (r, sv')"
  shows "service_ok sv' \<and> (\<forall>rt. r = Inr rt \<longrightarrow> map_of (sv_books sv') unit = Some rt \<and> book_of unit rt) \<and>
    sv_access sv' = sv_access sv \<and> threads_on (sv_disk sv') = threads_on (sv_disk sv)"
proof -
  obtain x dk' where x: "load_threads unit (sv_disk sv) = (x, dk')" by (cases "load_threads unit (sv_disk sv)")
  have disk: "disk_ok (sv_disk sv)" using assms(1) by (simp add: service_ok_def)
  from load_threads_ok [OF disk x] assms x show ?thesis
    by (auto simp: load_def service_ok_def books_ok_def marks_ok_def intro: covers_intros split: sum.splits if_splits)
qed

lemma load_drafts_ok:
  assumes "disk_ok dk" "load_drafts unit dk = (r, dk')"
  shows "disk_ok dk' \<and> threads_on dk' = threads_on dk"
proof -
  obtain x dk1 where x: "load_threads unit dk = (x, dk1)" by (cases "load_threads unit dk")
  with assms(2) have "dk' = dk1" by (auto simp: load_drafts_def and_then_def reading_def split: sum.splits)
  with load_threads_ok [OF assms(1) x] show ?thesis by simp
qed

lemma same_threads_on: "same_threads dk dk' \<Longrightarrow> threads_on dk' = threads_on dk"
proof (rule ext)
  fix u assume "same_threads dk dk'"
  then show "threads_on dk' u = threads_on dk u"
    using read_thread_document_cong [of dk' u dk] by (simp add: threads_on_eq)
qed

lemma update_drafts_ok:
  assumes "disk_ok dk" "update_drafts unit change dk = (r, dk')"
  shows "disk_ok dk' \<and> threads_on dk' = threads_on dk"
proof -
  obtain x dk1 where x: "load_threads unit dk = (x, dk1)" by (cases "load_threads unit dk")
  have "dk' = dk1 \<or> (\<exists>f. change_drafts unit f dk1 = (r, dk'))"
    using assms(2) x by (auto simp: update_drafts_def and_then_def split: sum.splits)
  then have "same_threads dk1 dk'" using keeps_run [OF change_drafts_threads] by metis
  with load_threads_ok [OF assms(1) x] same_threads_ok same_threads_on show ?thesis by metis
qed

lemma drafts_to_restore_ok:
  assumes "service_ok sv" "drafts_to_restore unit sv = (ds, sv')"
  shows "service_ok sv' \<and> threads_on (sv_disk sv') = threads_on (sv_disk sv) \<and> sv_books sv' = sv_books sv \<and>
    sv_access sv' = sv_access sv \<and> sv_wakeups sv' = sv_wakeups sv \<and> sv_target sv' = sv_target sv \<and> sv_retried sv' = sv_retried sv"
proof -
  obtain x dk' where x: "load_drafts unit (sv_disk sv) = (x, dk')" by (cases "load_drafts unit (sv_disk sv)")
  have disk: "disk_ok (sv_disk sv)" using assms(1) by (simp add: service_ok_def)
  from load_drafts_ok [OF disk x] assms x show ?thesis
    by (auto simp: drafts_to_restore_def service_ok_def marks_ok_def split: sum.splits)
qed

lemma update_saved_drafts_ok:
  assumes "service_ok sv" "update_saved_drafts unit change sv = (r, sv')"
  shows "service_ok sv' \<and> threads_on (sv_disk sv') = threads_on (sv_disk sv) \<and> sv_books sv' = sv_books sv \<and>
    sv_access sv' = sv_access sv"
proof -
  obtain x dk' where x: "update_drafts unit (\<lambda>ds rt. map_sum thread_error_text (\<lambda>ds. ((), ds)) (change ds rt)) (sv_disk sv) = (x, dk')"
    by fastforce
  have disk: "disk_ok (sv_disk sv)" using assms(1) by (simp add: service_ok_def)
  from update_drafts_ok [OF disk x] assms x show ?thesis
    by (auto simp: update_saved_drafts_def service_ok_def marks_ok_def split: sum.splits)
qed

text \<open>A change of a book: on success the book on disk and the one the service keeps are the changed one;
  on failure neither changes, unless the book was written and only the sync failed.\<close>

lemma update_book_cases:
  assumes "service_ok sv" "update_book unit change sv = (r, sv')" "keeps_good book_of unit change"
  obtains (failed) e where "r = Inl e" "threads_on (sv_disk sv') = threads_on (sv_disk sv)" "sv_books sv' = sv_books sv"
      "service_ok sv'" "sv_access sv' = sv_access sv"
    | (unsynced) e result rt rt' where "r = Inl (store_error_text e)" "fl_threads_sync (dk_faults (sv_disk sv)) unit = Some e"
      "threads_on (sv_disk sv) unit = Some rt" "change rt = Inr (result, rt')"
      "threads_on (sv_disk sv') = (threads_on (sv_disk sv))(unit \<mapsto> rt')" "sv_books sv' = sv_books sv"
      "service_ok sv'" "sv_access sv' = sv_access sv"
    | (changed) result rt rt' where "r = Inr result" "threads_on (sv_disk sv) unit = Some rt" "change rt = Inr (result, rt')"
      "threads_on (sv_disk sv') = (threads_on (sv_disk sv))(unit \<mapsto> rt')"
      "map_of (sv_books sv') = (map_of (sv_books sv))(unit \<mapsto> rt')" "book_of unit rt'" "service_ok sv'"
      "sv_access sv' = sv_access sv"
proof -
  let ?change = "\<lambda>rt. map_sum thread_error_text id (change rt)"
  obtain x dk' where x: "update_threads unit ?change (sv_disk sv) = (x, dk')" by fastforce
  have disk: "disk_ok (sv_disk sv)" using assms(1) by (simp add: service_ok_def)
  have keeps: "keeps_good book_of unit ?change" using assms(3) by (simp add: keeps_good_def map_sum_eq)
  show thesis
  proof (cases x)
    case (Inl e)
    have sv': "sv' = sv\<lparr>sv_disk := dk'\<rparr>" "r = Inl (store_error_text e)" using assms(2) x Inl by (simp_all add: update_book_def)
    note fail = stored.update_fail [OF disk keeps x [unfolded Inl]]
    then have ok: "service_ok sv'" using assms(1) sv' by (simp add: service_ok_def marks_ok_def)
    from fail sv' ok show thesis
      by (elim conjE disjE exE) (auto intro: failed unsynced simp: map_sum_eq)
  next
    case (Inr y)
    obtain result rt' where y: "y = (result, rt')" by (cases y)
    from stored.update_view [OF disk keeps x [unfolded Inr y]] obtain rt where
      rt: "threads_on (sv_disk sv) unit = Some rt" "change rt = Inr (result, rt')"
      "threads_on dk' = (threads_on (sv_disk sv))(unit \<mapsto> rt')" "disk_ok dk'"
      by (auto simp: map_sum_eq)
    have good: "book_of unit rt'" using assms(3) rt(2) stored.view_good [OF disk rt(1)]
      unfolding keeps_good_def by blast
    then have unit: "rt_unit rt' = unit" by (simp add: book_of_def)
    define sv1 where "sv1 = sv\<lparr>sv_disk := dk', sv_books := AList.update unit rt' (sv_books sv)\<rparr>"
    have ok1: "service_ok sv1" using assms(1) rt(4) good
      by (auto simp: sv1_def service_ok_def books_ok_def marks_ok_def intro: covers_intros split: if_splits)
    have books1: "map_of (sv_books sv1) = (map_of (sv_books sv))(unit \<mapsto> rt')" "threads_on (sv_disk sv1) = threads_on dk'"
      "sv_access sv1 = sv_access sv"
      by (simp_all add: sv1_def)
    obtain ds sv2 where ds: "drafts_to_restore unit sv1 = (ds, sv2)" by fastforce
    have r: "r = Inr result" and "sv' = sv1 \<or> sv' = publish (Loaded unit (Inr rt') ds) sv2"
      using assms(2) x Inr y ds by (auto simp: update_book_def unit sv1_def Let_def split: if_splits)
    with drafts_to_restore_ok [OF ok1 ds] ok1 books1 rt good show thesis
      by (intro changed [OF r rt(1,2)]) auto
  qed
qed

section \<open>The changes of a book\<close>

lemma rt_unit_set_resolution: "set_resolution i r rt = Inr rt' \<Longrightarrow> rt_unit rt' = rt_unit rt"
  by (auto simp: set_resolution_def split: if_splits)

lemma rt_unit_mark_read: "mark_read i n rt = Inr rt' \<Longrightarrow> rt_unit rt' = rt_unit rt"
  by (auto simp: mark_read_def split: if_splits)

lemma rt_unit_answer: "answer now rt p = Inr (i, rt') \<Longrightarrow> rt_unit rt' = rt_unit rt"
  using post_message_state by (auto simp: answer_def split: if_splits option.splits sum.splits)

lemma keeps_set_resolution: "keeps_good book_of unit (\<lambda>rt. map_sum id (\<lambda>rt. ((), rt)) (set_resolution i r rt))"
  by (auto simp: keeps_good_def book_of_def map_sum_def rt_unit_set_resolution intro: book_ok_set_resolution split: sum.splits)

lemma keeps_mark_read: "keeps_good book_of unit (\<lambda>rt. map_sum id (\<lambda>rt. ((), rt)) (mark_read i n rt))"
  by (auto simp: keeps_good_def book_of_def map_sum_def rt_unit_mark_read intro: book_ok_mark_read split: sum.splits)

lemma keeps_mark_replies_read: "keeps_good book_of unit (\<lambda>rt. Inr ((), mark_replies_read ids rt))"
  by (auto simp: keeps_good_def book_of_def book_ok_mark_replies_read) (simp add: mark_replies_read_def)

lemma keeps_answer: "keeps_good book_of unit (\<lambda>rt. answer now rt p)"
  by (auto simp: keeps_good_def book_of_def rt_unit_answer intro: book_ok_answer)

lemma keeps_post: "keeps_good book_of unit (\<lambda>rt. map_sum id (\<lambda>(_, rt'). (f rt, rt')) (post_message now rt p))"
  using post_message_state by (auto simp: keeps_good_def book_of_def map_sum_def intro: book_ok_post split: sum.splits prod.splits)

section \<open>The reviewer's commands\<close>

lemma update_book_ok: "service_ok sv \<Longrightarrow> update_book unit change sv = (r, sv') \<Longrightarrow> keeps_good book_of unit change \<Longrightarrow> service_ok sv'"
  by (erule update_book_cases) simp_all

text \<open>A review's book is there when the service indexes it: no command panics.\<close>

lemma schedule_books: "schedule unit again sv = (r, sv') \<Longrightarrow> sv_books sv' = sv_books sv"
  by (auto simp: schedule_def split: if_splits)

lemma resume_books [simp]: "sv_books (resume unit sv) = sv_books sv"
  by (cases "schedule unit False sv") (auto simp: resume_def report_def dest: schedule_books split: sum.splits)

lemma load_review_ok:
  assumes "service_ok sv"
  obtains sv' where "load_review unit sv = Some sv'" "service_ok sv'"
proof -
  obtain r sv1 where l: "load unit sv = (r, sv1)" by fastforce
  obtain ds sv2 where ds: "drafts_to_restore unit sv1 = (ds, sv2)" by fastforce
  note ok1 = load_ok [OF assms l]
  note ok2 = drafts_to_restore_ok [OF conjunct1 [OF ok1] ds]
  from resume_ok [OF conjunct1 [OF ok2]] ok1 ok2 that show thesis
    by (cases r) (auto simp: load_review_def l ds Let_def)
qed

lemma set_thread_resolution_ok:
  assumes "service_ok sv" "set_thread_resolution unit i r sv = (x, sv')"
  shows "service_ok sv'"
proof -
  obtain y sv1 where up: "update_book unit (\<lambda>rt. map_sum id (\<lambda>rt. ((), rt)) (set_resolution i r rt)) sv = (y, sv1)"
    by fastforce
  have ok1: "service_ok sv1" by (rule update_book_ok [OF assms(1) up keeps_set_resolution])
  then have released: "service_ok (release unit i sv1)" by simp
  show ?thesis
  proof (cases y)
    case (Inl e)
    with assms(2) up ok1 show ?thesis by (simp add: set_thread_resolution_def)
  next
    case (Inr u)
    consider "r = OpenThread" "schedule unit True (release unit i sv1) = (x, sv')" | "sv' = cancel_wakeups unit sv1" | "sv' = sv1"
      using assms(2) up Inr by (simp add: set_thread_resolution_def split: if_splits)
    then show ?thesis
      by cases (use schedule_ok [OF released] cancel_ok [OF ok1] ok1 in simp_all)
  qed
qed

lemma retry_thread_ok:
  assumes "service_ok sv" "retry_thread unit i sv = (x, sv')"
  shows "service_ok sv'"
proof -
  obtain r sv1 where l: "load unit sv = (r, sv1)" by fastforce
  have ok1: "service_ok sv1" using load_ok [OF assms(1) l] by blast
  then have released: "service_ok (release unit i sv1)" by simp
  have "sv' = sv1 \<or> schedule unit True (release unit i sv1) = (x, sv')"
    using assms(2) l by (cases r) (simp_all add: retry_thread_def split: sum.splits)
  with ok1 schedule_ok [OF released] show ?thesis by blast
qed

lemma schedule_report_ok:
  "service_ok sv \<Longrightarrow> service_ok (case schedule unit again sv of (Inl e, sv) \<Rightarrow> undelivered u e sv | (Inr _, sv) \<Rightarrow> sv)"
  using schedule_ok [of sv unit again] by (cases "schedule unit again sv") (simp split: sum.splits)

lemma post_comment_ok:
  assumes "service_ok sv"
  obtains sv' where "post_comment now unit p0 sv = Some sv'" "service_ok sv'"
proof -
  define p where "p = from_tab (tg_tab (sv_target sv)) p0"
  define change where "change = (\<lambda>rt. map_sum id (\<lambda>(_, rt'). (book_message rt (ms_id (po_message p)) = None, rt')) (post_message now rt p))"
  obtain r sv1 where up: "update_book unit change sv = (r, sv1)" by fastforce
  have keeps: "keeps_good book_of unit change" unfolding change_def by (rule keeps_post)
  have ok1: "service_ok sv1" by (rule update_book_ok [OF assms up keeps])
  from assms up keeps have "round_of_new unit (po_thread p) r sv1 \<noteq> None"
    by (cases rule: update_book_cases) (simp_all add: round_of_new_def split: bool.splits)
  then obtain round where found: "round_of_new unit (po_thread p) r sv1 = Some round" by blast
  obtain f sv2 where f: "update_saved_drafts unit (\<lambda>ds _. Inr ds) sv1 = (f, sv2)" by fastforce
  have ok2: "service_ok sv2" using update_saved_drafts_ok [OF ok1 f] by blast
  have round: "service_ok (case x of Some r \<Rightarrow> publish (RoundMessage unit r m) s | None \<Rightarrow> s)" if "service_ok s" for x m s
    using that by (simp split: option.splits)
  show thesis
  proof (cases r)
    case (Inl e)
    with found have "round = None" by (simp add: round_of_new_def)
    with Inl ok1 found show thesis
      by (intro that [of "publish (Posted unit (ms_id (po_message p)) (Inl e)) sv1"])
        (auto simp: post_comment_def Let_def p_def [symmetric] change_def [symmetric] up)
  next
    case (Inr new)
    note unfolds = post_comment_def Let_def p_def [symmetric] change_def [symmetric] up prod.case found option.case Inr sum.case f
    show thesis
      by (rule that, simp only: unfolds found [unfolded Inr] option.case, rule schedule_report_ok, rule round) (simp add: ok2)
  qed
qed

lemma thread_work_ok:
  assumes "service_ok sv"
  obtains sv' where "thread_work now cmd sv = Some sv'" "service_ok sv'"
proof (cases cmd)
  case (LoadReview unit)
  obtain sv' where "load_review unit sv = Some sv'" "service_ok sv'" by (rule load_review_ok [OF assms])
  with that LoadReview show thesis by (simp add: thread_work_def)
next
  case (PostComment unit p)
  obtain sv' where "post_comment now unit p sv = Some sv'" "service_ok sv'" by (rule post_comment_ok [OF assms])
  with that PostComment show thesis by (simp add: thread_work_def)
next
  case (SetResolution unit i r)
  with that set_thread_resolution_ok [OF assms] show thesis
    by (cases "set_thread_resolution unit i r sv") (simp add: thread_work_def)
next
  case (RetryThread unit i)
  with that retry_thread_ok [OF assms] show thesis
    by (cases "retry_thread unit i sv") (simp add: thread_work_def)
next
  case (SaveDraft unit d)
  with that update_saved_drafts_ok [OF assms] show thesis
    by (cases "update_saved_drafts unit (\<lambda>ds rt. save_draft d rt ds) sv") (simp add: thread_work_def)
next
  case (DiscardDraft unit i)
  with that update_saved_drafts_ok [OF assms] show thesis
    by (cases "update_saved_drafts unit (\<lambda>ds _. Inr (discard_draft i ds)) sv") (simp add: thread_work_def)
next
  case (MarkRepliesRead unit ids)
  with that update_book_ok [OF assms _ keeps_mark_replies_read] show thesis
    by (cases "update_book unit (\<lambda>rt. Inr ((), mark_replies_read ids rt)) sv") (simp add: thread_work_def)
next
  case (MarkRead unit i n)
  with that update_book_ok [OF assms _ keeps_mark_read] show thesis
    by (cases "update_book unit (\<lambda>rt. map_sum id (\<lambda>rt. ((), rt)) (mark_read i n rt)) sv") (simp add: thread_work_def)
qed

section \<open>The agents' calls\<close>

lemma service_ok_access:
  "service_ok sv \<Longrightarrow> accesses_like (sv_access sv) acs \<Longrightarrow> service_ok (sv\<lparr>sv_access := acs\<rparr>)"
proof -
  assume ok: "service_ok sv" and like: "accesses_like (sv_access sv) acs"
  have "covers m (map_of acs)" if "covers m (map_of (sv_access sv))" for m :: "bytes \<rightharpoonup> wakeup"
    using that accesses_like_dom [OF like] by (auto simp: covers_def)
  with ok accesses_ok_like [OF _ like] show ?thesis by (simp add: service_ok_def marks_ok_def)
qed

lemma access_like_update:
  "distinct (map fst acs) \<Longrightarrow> map_of acs t = Some ac \<Longrightarrow> access_like ac ac' \<Longrightarrow> accesses_like acs (AList.update t ac' acs)"
proof (induction acs)
  case (Cons p acs)
  obtain u bc where p: "p = (u, bc)" by (cases p)
  with Cons show ?case
    by (cases "u = t") (simp_all add: accesses_like_Cons accesses_like_refl access_like_refl)
qed simp

lemma service_accesses: "service_ok sv \<Longrightarrow> distinct (map fst (sv_access sv))"
  and service_access: "service_ok sv \<Longrightarrow> map_of (sv_access sv) t = Some ac \<Longrightarrow> ac_token ac = t \<and> access_ok ac"
  by (simp_all add: service_ok_def accesses_ok_def)

lemma store_access_ok:
  assumes "service_ok sv" "map_of (sv_access sv) t = Some ac" "access_like ac ac'"
  shows "service_ok (store_access ac' sv)" "service_ok (sv\<lparr>sv_access := AList.update t ac' (sv_access sv)\<rparr>)"
proof -
  show update: "service_ok (sv\<lparr>sv_access := AList.update t ac' (sv_access sv)\<rparr>)"
    by (rule service_ok_access [OF assms(1) access_like_update [OF service_accesses [OF assms(1)] assms(2,3)]])
  have "ac_token ac' = t" using service_access [OF assms(1,2)] assms(3) by (simp add: access_like_def)
  with update show "service_ok (store_access ac' sv)" by (simp add: store_access_def)
qed

lemma answered_ok:
  "service_ok sv \<Longrightarrow> service_ok (case map_of (sv_wakeups sv) t of
     Some w \<Rightarrow> sv\<lparr>sv_wakeups := AList.update t (f w) (sv_wakeups sv)\<rparr> | None \<Rightarrow> sv)"
  by (auto simp: service_ok_def marks_ok_def covers_def split: option.splits)

lemma serve_ok:
  assumes "service_ok sv" "serve now ac op sv = (r, sv')"
  shows "service_ok sv'"
proof -
  obtain x sv1 where l: "load (ac_review_unit ac) sv = (x, sv1)" by fastforce
  have ok1: "service_ok sv1" using load_ok [OF assms(1) l] by blast
  show ?thesis
  proof (cases x)
    case (Inl e)
    with assms(2) l ok1 show ?thesis by (simp add: serve_def)
  next
    case (Inr rt)
    show ?thesis
    proof (cases op)
      case (Reply p)
      obtain y sv2 where up: "update_book (ac_review_unit ac) (\<lambda>rt. answer now rt p) sv1 = (y, sv2)" by fastforce
      have ok2: "service_ok sv2" by (rule update_book_ok [OF ok1 up keeps_answer])
      from assms(2) l Inr Reply up ok2 answered_ok [OF ok2, of "ac_token ac" wakeup_answered] show ?thesis
        by (cases y) (auto simp: serve_def split: if_splits)
    qed (use assms(2) l Inr ok1 in \<open>auto simp: serve_def split: option.splits\<close>)
  qed
qed

lemma request_ok:
  assumes "service_ok sv" "request W token op session sv = (r, sv')"
  shows "service_ok sv'"
proof (cases "map_of (sv_access sv) token")
  case None
  with assms show ?thesis by (simp add: request_def)
next
  case (Some ac)
  obtain x ac' where c: "access_current_agent (wd_port W) ac = (x, ac')" by fastforce
  note ok1 = store_access_ok(1) [OF assms(1) Some access_current_like [OF c]]
  show ?thesis
  proof (cases x)
    case (Inl e)
    with assms(2) Some c ok1 show ?thesis by (simp add: request_def)
  next
    case (Inr a)
    let ?sv = "case session of Some s \<Rightarrow> if sv_hooks (store_access ac' sv)
        then store_access ac' sv\<lparr>sv_named := sv_named (store_access ac' sv) @ [(ag_pane a, s)]\<rparr> else store_access ac' sv
      | None \<Rightarrow> store_access ac' sv"
    have "service_ok ?sv" using ok1 by (simp split: option.splits)
    from serve_ok [OF this] assms(2) Some c Inr show ?thesis by (simp add: request_def Let_def)
  qed
qed

section \<open>What the host reports\<close>

lemma resumable_like:
  "resumable P hw pane acs = (valid, acs') \<Longrightarrow>
     accesses_like acs acs' \<and> (\<forall>ac \<in> set valid. \<exists>q \<in> set acs. access_like (snd q) ac)"
proof (induction P hw pane acs arbitrary: valid acs' rule: resumable.induct)
  case (2 P hw pane token ac acs)
  obtain v rest where v: "resumable P hw pane acs = (v, rest)" by fastforce
  obtain r ac' where c: "access_current_agent P ac = (r, ac')" by fastforce
  note like = access_current_like [OF c]
  from "2.IH" [OF v] "2.prems" v c like show ?case
    by (cases r) (auto simp: accesses_like_Cons access_like_refl split: if_splits)
qed (simp add: accesses_like_refl)

lemma fold_request_ok:
  "service_ok sv \<Longrightarrow> \<forall>ac \<in> set valid. map_of (sv_access sv) (ac_token ac) \<noteq> None \<Longrightarrow>
     service_ok (foldl (\<lambda>sv ac. request_wakeup ac again sv) sv valid)"
  by (induction valid arbitrary: sv) (simp_all add: request_wakeup_ok)

lemma resume_access_ok:
  assumes "service_ok sv"
  shows "service_ok (resume_access P pane sv)"
proof -
  obtain valid acs where r: "resumable P (\<lambda>token. map_of (sv_wakeups sv) token \<noteq> None) pane (sv_access sv) = (valid, acs)"
    by fastforce
  have like: "accesses_like (sv_access sv) acs" using resumable_like [OF r] by blast
  have "map_of acs (ac_token ac) \<noteq> None" if v: "ac \<in> set valid" for ac
  proof -
    obtain t ac0 where t: "(t, ac0) \<in> set (sv_access sv)" "access_like ac0 ac" using resumable_like [OF r] v by force
    have t': "map_of (sv_access sv) t = Some ac0" by (rule map_of_is_SomeI [OF service_accesses [OF assms] t(1)])
    with service_access [OF assms] t(2) have "ac_token ac = t" by (auto simp: access_like_def)
    with t' accesses_like_dom [OF like] show ?thesis by auto
  qed
  with service_ok_access [OF assms like] show ?thesis
    unfolding resume_access_def r by (simp add: fold_request_ok)
qed

lemma observe_ok: "service_ok sv \<Longrightarrow> service_ok (observe P ev sv)"
  by (auto simp: observe_def refresh_target_ok interrupt_ok resume_access_ok split: herdr_event.splits)

section \<open>Granting and notifying\<close>

lemma grant_existing_like:
  "grant_existing P unit a acs = (r, acs') \<Longrightarrow>
     accesses_like acs acs' \<and>
     (\<forall>ac. r = Inr (Some ac) \<longrightarrow> ac_review_unit ac = unit \<and> (\<exists>q \<in> set acs. access_like (snd q) ac \<and> (fst q, ac) \<in> set acs'))"
proof (induction P unit a acs arbitrary: r acs' rule: grant_existing.induct)
  case (2 P unit a token ac acs)
  obtain x rest where x: "grant_existing P unit a acs = (x, rest)" by fastforce
  obtain m ac' where m: "matches_agent P a ac = (m, ac')" by fastforce
  note like = matches_agent_like [OF m]
  show ?case
  proof (cases "ac_review_unit ac = unit")
    case False
    with "2.IH"(2) [OF False x] "2.prems" x show ?thesis by (auto simp: accesses_like_Cons access_like_refl)
  next
    case True
    have unit: "ac_review_unit ac' = unit" using like True by (simp add: access_like_def)
    show ?thesis
    proof (cases m)
      case (Inl e)
      with "2.prems" True m like show ?thesis by (auto simp: accesses_like_Cons accesses_like_refl)
    next
      case (Inr b)
      show ?thesis
      proof (cases b)
        case True
        with "2.prems" \<open>ac_review_unit ac = unit\<close> m Inr like unit show ?thesis
          by (auto simp: accesses_like_Cons accesses_like_refl)
      next
        case False
        with "2.prems" \<open>ac_review_unit ac = unit\<close> m Inr x have eq: "r = x" "acs' = (token, ac') # rest" by auto
        have "accesses_like acs rest \<and>
          (\<forall>ac. x = Inr (Some ac) \<longrightarrow> ac_review_unit ac = unit \<and> (\<exists>q \<in> set acs. access_like (snd q) ac \<and> (fst q, ac) \<in> set rest))"
          using "2.IH"(1) [OF True m [symmetric] Inr, of x rest] False x by auto
        with eq like show ?thesis by (auto simp: accesses_like_Cons)
      qed
    qed
  qed
qed (simp add: accesses_like_refl)

text \<open>What a grant gives: an access of the review, which the service holds for its token; beside it, a
  grant only cancels what the review's earlier access waited for.\<close>

lemma grant_cases:
  assumes "grant W unit a sv = (r, sv')"
  obtains (failed) e acs where "r = Inl e" "accesses_like (sv_access sv) acs" "sv' = sv\<lparr>sv_access := acs\<rparr>"
    | (kept) ac acs where "r = Inr ac" "grant_existing (wd_port W) unit a (sv_access sv) = (Inr (Some ac), acs)"
        "accesses_like (sv_access sv) acs" "sv' = sv\<lparr>sv_access := acs\<rparr>"
    | (fresh) ac acs where "r = Inr ac" "grant_existing (wd_port W) unit a (sv_access sv) = (Inr None, acs)"
        "accesses_like (sv_access sv) acs" "access_new (wd_uuid W (sv_drawn sv)) unit a (wd_port W) = Inr ac"
        "sv' = (cancel_wakeups unit (sv\<lparr>sv_access := acs, sv_drawn := Suc (sv_drawn sv)\<rparr>))
          \<lparr>sv_access := AList.update (ac_token ac) ac (filter (\<lambda>(_, previous). ac_review_unit previous \<noteq> unit) acs)\<rparr>"
proof -
  obtain x acs where g: "grant_existing (wd_port W) unit a (sv_access sv) = (x, acs)" by fastforce
  have like: "accesses_like (sv_access sv) acs" using grant_existing_like [OF g] by blast
  show thesis
  proof (cases x)
    case (Inl e)
    with assms g like show thesis by (intro failed [of e acs]) (auto simp: grant_def)
  next
    case (Inr o')
    show thesis
    proof (cases o')
      case (Some ac)
      with assms g like Inr show thesis by (intro kept [of ac acs]) (auto simp: grant_def)
    next
      case None
      obtain y where y: "access_new (wd_uuid W (sv_drawn sv)) unit a (wd_port W) = y" by simp
      show thesis
      proof (cases y)
        case (Inl e)
        with assms g like Inr None y show thesis by (intro failed [of e acs]) (auto simp: grant_def Let_def)
      next
        case (Inr ac)
        with assms g like \<open>x = Inr o'\<close> None y show thesis
          by (intro fresh [of ac acs]) (auto simp: grant_def Let_def cancel_wakeups_def)
      qed
    qed
  qed
qed

lemma grant_ok:
  assumes "service_ok sv" "grant W unit a sv = (r, sv')"
  shows "service_ok sv' \<and> (\<forall>ac. r = Inr ac \<longrightarrow> map_of (sv_access sv') (ac_token ac) = Some ac \<and> ac_review_unit ac = unit) \<and>
    sv_books sv' = sv_books sv \<and> (\<forall>u. u \<noteq> unit \<longrightarrow> map_of (sv_notifications sv') u = map_of (sv_notifications sv) u)"
  using assms(2)
proof (cases rule: grant_cases)
  case (failed e acs)
  with service_ok_access [OF assms(1)] show ?thesis by simp
next
  case (kept ac acs)
  note ok = service_ok_access [OF assms(1) kept(3)]
  obtain q where q: "q \<in> set (sv_access sv)" "access_like (snd q) ac" "(fst q, ac) \<in> set acs" "ac_review_unit ac = unit"
    using grant_existing_like [OF kept(2)] by blast
  have "map_of acs (fst q) = Some ac"
    by (rule map_of_is_SomeI [OF _ q(3)]) (use service_accesses [OF ok] in simp)
  with service_access [OF ok, of "fst q" ac] q(4) kept ok show ?thesis by simp
next
  case (fresh ac acs)
  have new: "access_ok ac" "ac_review_unit ac = unit" using access_ok_new [OF fresh(4)] by simp_all
  define sv1 where "sv1 = sv\<lparr>sv_access := acs, sv_drawn := Suc (sv_drawn sv)\<rparr>"
  define rest where "rest = filter (\<lambda>(_, previous). ac_review_unit previous \<noteq> unit) acs"
  have "service_ok (sv\<lparr>sv_access := acs\<rparr>)" by (rule service_ok_access [OF assms(1) fresh(3)])
  then have "service_ok (sv\<lparr>sv_access := acs\<rparr>\<lparr>sv_drawn := Suc (sv_drawn sv)\<rparr>)" by (simp only: service_ok_frame)
  then have ok1: "service_ok sv1" by (simp add: sv1_def)
  then have acs_ok: "accesses_ok acs" by (simp add: service_ok_def sv1_def)
  then have dist: "distinct (map fst acs)" by (simp add: accesses_ok_def)
  have rest: "map_of rest t = (case map_of acs t of Some b \<Rightarrow> if ac_review_unit b \<noteq> unit then Some b else None | None \<Rightarrow> None)" for t
    unfolding rest_def by (rule map_of_filter_value [OF dist])
  have rest_Some: "map_of rest t = Some b \<Longrightarrow> map_of acs t = Some b \<and> ac_review_unit b \<noteq> unit" for t b
    by (simp add: rest split: option.splits if_splits)
  have "accesses_ok (AList.update (ac_token ac) ac rest)"
    unfolding accesses_ok_def
  proof (intro conjI allI impI)
    show "distinct (map fst (AList.update (ac_token ac) ac rest))" using dist by (simp add: rest_def distinct_fst_filter)
    have get: "t = ac_token ac \<and> b = ac \<or> map_of acs t = Some b \<and> ac_review_unit b \<noteq> unit"
      if "map_of (AList.update (ac_token ac) ac rest) t = Some b" for t b
      using that rest_Some by (auto split: if_splits)
    have uniq: "t = t'" if "map_of acs t = Some b" "map_of acs t' = Some b'" "ac_review_unit b = ac_review_unit b'" for t b t' b'
      using acs_ok that unfolding accesses_ok_def by blast
    fix t b assume "map_of (AList.update (ac_token ac) ac rest) t = Some b"
    note b = get [OF this]
    with acs_ok new show "ac_token b = t" "access_ok b" by (auto simp: accesses_ok_def)
    fix t' b' assume "map_of (AList.update (ac_token ac) ac rest) t' = Some b'" "ac_review_unit b = ac_review_unit b'"
    with b get [OF this(1)] new(2) uniq show "t = t'" by metis
  qed
  moreover have "covers (map_of (sv_wakeups (cancel_wakeups unit sv1))) (map_of (AList.update (ac_token ac) ac rest))"
    by (auto simp: covers_def cancel_wakeups_def sv1_def map_of_filter_key rest split: option.splits if_splits)
  ultimately have "service_ok sv'"
    using cancel_ok [OF ok1, of unit] unfolding fresh(5) sv1_def [symmetric] rest_def [symmetric]
    by (simp add: service_ok_def marks_ok_def)
  then show ?thesis using fresh new by (simp add: cancel_wakeups_def)
qed

lemma resolve_target_fields:
  "resolve_target P sv = (r, sv') \<Longrightarrow> \<exists>tg. sv' = sv\<lparr>sv_target := tg\<rparr> \<and> tg_tab tg = tg_tab (sv_target sv)"
  using resolve_tab by (auto simp: resolve_target_def split: sum.splits option.splits prod.splits intro: exI [of _ "sv_target sv"])

lemma prepare_ok:
  assumes "service_ok sv" "prepare_notification W unit sv = Some (r, sv')"
  shows "service_ok sv' \<and> sv_books sv' = sv_books sv \<and>
    (\<forall>u. u \<noteq> unit \<longrightarrow> map_of (sv_notifications sv') u = map_of (sv_notifications sv) u)"
proof -
  obtain n where n: "map_of (sv_notifications sv) unit = Some n" using assms(2) by (auto simp: prepare_notification_def split: option.splits)
  show ?thesis
  proof (cases "waits_for_agent sv unit")
    case False
    with assms n cancel_ok [OF assms(1), of unit] show ?thesis by (auto simp: prepare_notification_def cancel_wakeups_def)
  next
    case True
    obtain x sv1 where x: "resolve_target (wd_port W) sv = (x, sv1)" by fastforce
    obtain tg where sv1: "sv1 = sv\<lparr>sv_target := tg\<rparr>" using resolve_target_fields [OF x] by blast
    have ok1: "service_ok sv1" using assms(1) sv1 by simp
    show ?thesis
    proof (cases x)
      case (Inl e)
      with assms(2) n True x ok1 sv1 show ?thesis by (auto simp: prepare_notification_def)
    next
      case (Inr a)
      obtain y sv2 where y: "grant W unit a sv1 = (y, sv2)" by fastforce
      note g = grant_ok [OF ok1 y]
      show ?thesis
      proof (cases y)
        case (Inl e)
        with assms(2) n True x Inr y g sv1 show ?thesis by (auto simp: prepare_notification_def)
      next
        case (Inr ac)
        let ?sv = "sv2\<lparr>sv_notifications := AList.delete unit (sv_notifications sv2)\<rparr>"
        have "service_ok (request_wakeup ac (nt_retry n) ?sv)"
          by (rule request_wakeup_ok [OF delete_notification_ok]) (use g Inr in simp_all)
        moreover have "sv' = request_wakeup ac (nt_retry n) ?sv"
          using assms(2) n True x \<open>x = Inr a\<close> y Inr by (simp add: prepare_notification_def)
        ultimately show ?thesis using g sv1 by (simp add: request_wakeup_def split: option.splits)
      qed
    qed
  qed
qed

lemma send_wakeup_ok:
  assumes "service_ok sv"
  shows "service_ok (send_wakeup ac t a sv)"
proof (cases "map_of (sv_wakeups sv) t")
  case (Some w)
  then have "map_of (sv_access sv) t \<noteq> None" using assms by (auto simp: service_ok_def marks_ok_def covers_def)
  with Some update_wakeup_ok [OF assms] show ?thesis using assms by (simp add: send_wakeup_def wakeup_sent_def Let_def)
qed (use assms in \<open>simp add: send_wakeup_def\<close>)

text \<open>How notifying for a token goes.\<close>

lemma notify_cases:
  assumes "notify W t sv = (r, sv')"
  obtains (idle) "sv' = sv" "r = Inr ()"
      "\<And>ac. map_of (sv_access sv) t = Some ac \<Longrightarrow> \<not> waits_for_agent sv (ac_review_unit ac)"
    | (unresolved) e where "r = Inl e" "resolve_target (wd_port W) sv = (Inl e, sv')"
    | (uncertain) e ac ac' a sv1 where "r = Inl e" "map_of (sv_access sv) t = Some ac" "resolve_target (wd_port W) sv = (Inr a, sv1)"
        "matches_agent (wd_port W) a ac = (Inl e, ac')" "sv' = sv1\<lparr>sv_access := AList.update t ac' (sv_access sv1)\<rparr>"
    | (replaced) ac ac' a sv1 where "map_of (sv_access sv) t = Some ac" "resolve_target (wd_port W) sv = (Inr a, sv1)"
        "matches_agent (wd_port W) a ac = (Inr False, ac')"
        "schedule (ac_review_unit ac') False (sv1\<lparr>sv_access := AList.update t ac' (sv_access sv1),
          sv_wakeups := AList.delete t (sv_wakeups sv1)\<rparr>) = (r, sv')"
    | (sent) ac ac' a sv1 where "r = Inr ()" "map_of (sv_access sv) t = Some ac" "resolve_target (wd_port W) sv = (Inr a, sv1)"
        "waits_for_agent sv (ac_review_unit ac)" "matches_agent (wd_port W) a ac = (Inr True, ac')"
        "sv' = send_wakeup ac' t a (sv1\<lparr>sv_access := AList.update t ac' (sv_access sv1)\<rparr>)"
proof (cases "map_of (sv_access sv) t")
  case None
  with assms show thesis by (intro idle) (simp_all add: notify_def)
next
  case (Some ac)
  show thesis
  proof (cases "waits_for_agent sv (ac_review_unit ac)")
    case False
    with assms Some show thesis by (intro idle) (auto simp: notify_def)
  next
    case True
    obtain x sv1 where x: "resolve_target (wd_port W) sv = (x, sv1)" by fastforce
    show thesis
    proof (cases x)
      case (Inl e)
      with assms Some True x show thesis by (intro unresolved [of e]) (auto simp: notify_def)
    next
      case (Inr a)
      obtain m ac' where m: "matches_agent (wd_port W) a ac = (m, ac')" by fastforce
      show thesis
      proof (cases m)
        case (Inl e)
        with assms Some True x \<open>x = Inr a\<close> m show thesis by (intro uncertain [of e ac a sv1 ac']) (auto simp: notify_def)
      next
        case (Inr b)
        with assms Some True x \<open>x = Inr a\<close> m show thesis
          by (cases b) (auto simp: notify_def intro: sent replaced)
      qed
    qed
  qed
qed

lemma notify_ok:
  assumes "service_ok sv" "notify W t sv = (r, sv')"
  shows "service_ok sv'"
proof -
  have stored: "service_ok (sv1\<lparr>sv_access := AList.update t ac' (sv_access sv1)\<rparr>)"
    if get: "map_of (sv_access sv) t = Some ac" and x: "resolve_target P sv = (y, sv1)" and m: "matches_agent P a ac = (m, ac')"
    for ac ac' a sv1 P y m
  proof -
    obtain tg where sv1: "sv1 = sv\<lparr>sv_target := tg\<rparr>" using resolve_target_fields [OF x] by blast
    then have "service_ok sv1" using assms(1) by simp
    from store_access_ok(2) [OF this _ matches_agent_like [OF m]] get sv1 show ?thesis by simp
  qed
  from assms(2) show ?thesis
  proof (cases rule: notify_cases)
    case (uncertain e ac ac' a sv1)
    with stored [OF uncertain(2,3,4)] show ?thesis by simp
  next
    case (replaced ac ac' a sv1)
    from schedule_ok [OF delete_wakeup_ok [OF stored [OF replaced(1,2,3)], simplified] replaced(4)] show ?thesis by simp
  next
    case (sent ac ac' a sv1)
    from send_wakeup_ok [OF stored [OF sent(2,3,5)]] sent(6) show ?thesis by simp
  next
    case (unresolved e)
    with resolve_target_ok [OF unresolved(2)] assms(1) show ?thesis by simp
  qed (use assms(1) in simp_all)
qed

section \<open>A turn of the loop\<close>

lemma poll_wakeup_ok:
  assumes "service_ok sv"
  shows "service_ok (poll_wakeup W sv t)"
proof -
  obtain r sv1 where n: "notify W t sv = (r, sv1)" by fastforce
  note ok1 = notify_ok [OF assms n]
  from ok1 delete_wakeup_ok [OF ok1, of t] show ?thesis
    by (cases r) (simp_all add: poll_wakeup_def n)
qed

lemma poll_notification_ok:
  assumes "service_ok sv" "map_of (sv_notifications sv) unit \<noteq> None"
  shows "\<exists>sv'. poll_notification W sv unit = Some sv' \<and> service_ok sv' \<and> sv_books sv' = sv_books sv \<and>
    (\<forall>u. u \<noteq> unit \<longrightarrow> map_of (sv_notifications sv') u = map_of (sv_notifications sv) u)"
proof -
  obtain r sv1 where p: "prepare_notification W unit sv = Some (r, sv1)"
    using assms(2) by (cases "prepare_notification W unit sv") (auto simp: prepare_notification_def)
  note ok = prepare_ok [OF assms(1) p]
  show ?thesis
  proof (cases r)
    case (Inl e)
    have "service_ok (sv1\<lparr>sv_notifications := AList.delete unit (sv_notifications sv1)\<rparr>)"
      by (rule delete_notification_ok) (use ok in simp)
    with Inl p ok show ?thesis
      by (simp add: poll_notification_def undelivered_def report_wakeup_def split: option.splits)
  next
    case (Inr u)
    with p ok show ?thesis by (simp add: poll_notification_def)
  qed
qed

lemma poll_notifications_ok:
  "service_ok sv \<Longrightarrow> distinct units \<Longrightarrow> \<forall>u \<in> set units. map_of (sv_notifications sv) u \<noteq> None \<Longrightarrow>
     \<exists>sv'. fold_opt (poll_notification W) sv units = Some sv' \<and> service_ok sv'"
proof (induction units arbitrary: sv)
  case (Cons u units)
  obtain sv1 where sv1: "poll_notification W sv u = Some sv1" "service_ok sv1"
    "\<forall>v. v \<noteq> u \<longrightarrow> map_of (sv_notifications sv1) v = map_of (sv_notifications sv) v"
    using poll_notification_ok [OF Cons.prems(1), of u W] Cons.prems(3) by auto
  have "\<forall>v \<in> set units. map_of (sv_notifications sv1) v \<noteq> None" using sv1(3) Cons.prems(2,3) by auto
  from Cons.IH [OF sv1(2) _ this] Cons.prems(2) sv1(1) show ?case by simp
qed simp

lemma poll_ok:
  assumes "service_ok sv"
  shows "\<exists>sv'. poll W sv = Some sv' \<and> service_ok sv'"
proof -
  let ?sv = "sv\<lparr>sv_outbox := poll_queue (wd_port W) (wd_flags W) (sv_courier_runs sv) (sv_outbox sv)\<rparr>"
  have ok: "service_ok ?sv" using assms by simp
  have "distinct (map fst (sv_notifications sv))" using assms by (simp add: service_ok_def marks_ok_def)
  moreover have "\<forall>u \<in> set (map fst (sv_notifications sv)). map_of (sv_notifications ?sv) u \<noteq> None"
    by (auto simp: map_of_eq_None_iff intro: rev_image_eqI)
  ultimately obtain sv1 where sv1: "fold_opt (poll_notification W) ?sv (map fst (sv_notifications sv)) = Some sv1" "service_ok sv1"
    using poll_notifications_ok [OF ok, of "map fst (sv_notifications sv)" W] by blast
  have "service_ok (foldl (poll_wakeup W) sv1 (map fst (filter (\<lambda>(_, w). needs_poll w) (sv_wakeups sv1))))"
    by (rule fold_ok [OF sv1(2)]) (rule poll_wakeup_ok)
  with sv1(1) show ?thesis by (simp add: poll_def Let_def)
qed

lemma handle_ok:
  assumes "service_ok sv"
  shows "handle W i sv \<noteq> Panicked \<and> (\<forall>sv'. handle W i sv = Next sv' \<longrightarrow> service_ok sv')"
proof (cases i)
  case (Ui cmd)
  show ?thesis
  proof (cases cmd)
    case (ThreadWork tc)
    obtain sv' where "thread_work (wd_now W) tc sv = Some sv'" "service_ok sv'" by (rule thread_work_ok [OF assms])
    with Ui ThreadWork show ?thesis by (simp add: handle_def or_panic_def)
  qed (use Ui assms in \<open>auto simp: handle_def refresh_target_ok observe_ok\<close>)
next
  case (Mcp t op session)
  with request_ok [OF assms(1), of W t op session] show ?thesis
    by (auto simp: handle_def split: prod.splits)
qed (use assms in \<open>auto simp: handle_def notified_ok\<close>)

text \<open>The states of a worker that starts on a disk in order.\<close>

inductive service_reachable :: "service \<Rightarrow> bool" where
  reach_start: "disk_ok dk \<Longrightarrow> service_reachable (service_new dk target available hooks pins)"
| reach_turn: "service_reachable sv \<Longrightarrow> service_turn W i sv = Next sv' \<Longrightarrow> service_reachable sv'"
| reach_disk: "service_reachable sv \<Longrightarrow> disk_ok dk \<Longrightarrow> service_reachable (sv\<lparr>sv_disk := dk\<rparr>)"
| reach_courier: "service_reachable sv \<Longrightarrow> service_reachable (sv\<lparr>sv_courier_runs := b\<rparr>)"
| reach_target: "service_reachable sv \<Longrightarrow> tg_tab tg = tg_tab (sv_target sv) \<Longrightarrow> service_reachable (sv\<lparr>sv_target := tg\<rparr>)"

lemma turn_ok:
  assumes "service_ok sv" "service_turn W i sv = x"
  shows "x \<noteq> Panicked \<and> (\<forall>sv'. x = Next sv' \<longrightarrow> service_ok sv')"
proof (cases "case i of None \<Rightarrow> Next sv | Some i \<Rightarrow> handle W i sv")
  case (Next sv1)
  then have "service_ok sv1" using assms(1) handle_ok by (auto split: option.splits)
  from poll_ok [OF this, of W] Next assms(2) show ?thesis by (auto simp: service_turn_def or_panic_def)
next
  case Panicked
  then show ?thesis using handle_ok [OF assms(1)] by (auto split: option.splits)
qed (use assms(2) in \<open>auto simp: service_turn_def\<close>)

lemma reachable_ok: "service_reachable sv \<Longrightarrow> service_ok sv"
proof (induction rule: service_reachable.induct)
  case (reach_turn sv W i sv')
  with turn_ok [OF reach_turn.IH reach_turn.hyps(2)] show ?case by simp
qed (auto simp: service_ok_new, auto simp: service_ok_def marks_ok_def)

end
