(* ===== verification/WakeupLaws.thy ===== *)
theory WakeupLaws
  imports ServiceLaws
begin

text \<open>
  What a turn of the thread service hands to the courier for the comments of a review: for each token at
  most one wakeup, to a live agent of the tab that the access was granted to, and only for a
  wakeup that was requested since the last one.
\<close>

section \<open>What is handed over\<close>

definition handed :: "service \<Rightarrow> parcel list" where
  "handed sv = ob_handed (sv_outbox sv)"

definition is_wakeup :: "parcel \<Rightarrow> bool" where
  "is_wakeup p \<longleftrightarrow> (\<exists>t n. pa_outcome p = ToWorker t n)"

text \<open>The live agent that an access was granted to, as its identity knows it: the same implementation in the
  same pane and tab, in the process group and the native session that the access is bound to.\<close>

definition granted_to :: "world \<Rightarrow> access \<Rightarrow> agent \<Rightarrow> bool" where
  "granted_to W ac a \<longleftrightarrow>
     ag_pane a = ag_pane (ac_agent ac) \<and> ag_tab a = ag_tab (ac_agent ac) \<and> ag_agent a = ag_agent (ac_agent ac) \<and>
     (\<forall>g. id_process_group (ac_identity ac) = Some g \<longrightarrow> process_group (wd_port W) (ag_pane a) = Inr g) \<and>
     (\<forall>s. id_session (ac_identity ac) = Bound s \<longrightarrow> ag_session a = Some s)"

text \<open>A wakeup for an access, addressed as it should be in a world and a tab.\<close>

definition good_wakeup :: "world \<Rightarrow> bytes \<Rightarrow> access \<Rightarrow> nat \<Rightarrow> parcel \<Rightarrow> bool" where
  "good_wakeup W tab ac n p \<longleftrightarrow>
     pa_outcome p = ToWorker (ac_token ac) n \<and> pa_cancelled p = None \<and> pa_text p = access_prompt ac \<and>
     (\<exists>agents. pt_agents (wd_port W) = Inr agents \<and> pa_agent p \<in> set agents) \<and>
     ag_tab (pa_agent p) = tab \<and> granted_to W ac (pa_agent p)"

text \<open>An agent that matches an access is the one the access, as the check leaves it, was granted to.\<close>

lemma matched_granted:
  assumes "matches_agent (wd_port W) a ac = (Inr True, ac')" "access_ok ac"
  shows "granted_to W ac' a"
proof -
  obtain i where i: "check (wd_port W) a (ac_identity ac) = Inr (SameAgent, i)" "ac' = ac\<lparr>ac_identity := i\<rparr>"
    using assms(1) by (auto simp: matches_agent_def split: sum.splits prod.splits)
  have rules: "id_rules (ac_identity ac) = REVIEW_ACCESS" using assms(2) by (simp add: access_ok_def Let_def)
  have group: "id_process_group i = id_process_group (ac_identity ac)"
    by (rule check_process_kept [OF i(1)]) (simp add: rules REVIEW_ACCESS_def)
  have session: "ag_session a = Some s" if s: "id_session i = Bound s" for s
  proof (cases "id_session (ac_identity ac)")
    case Unbound
    with check_adopts_first [OF i(1)] s show ?thesis by (simp split: option.splits)
  next
    case (Bound s')
    with check_bound [OF i(1)] check_same [OF i(1)] s rules show ?thesis
      by (auto simp: same_session_def REVIEW_ACCESS_def)
  next
    case (Following x)
    with assms(2) show ?thesis by (simp add: access_ok_def Let_def)
  qed
  from check_same [OF i(1)] group session assms(2) show ?thesis
    by (auto simp: granted_to_def i(2) access_ok_def Let_def)
qed

lemma report_wakeup_fields [simp]:
  "sv_wakeups (report_wakeup u f sv) = sv_wakeups sv" "sv_outbox (report_wakeup u f sv) = sv_outbox sv"
  "sv_target (report_wakeup u f sv) = sv_target sv" "sv_access (report_wakeup u f sv) = sv_access sv"
  "sv_courier_runs (report_wakeup u f sv) = sv_courier_runs sv" "sv_notifications (report_wakeup u f sv) = sv_notifications sv"
  by (simp_all add: report_wakeup_def publish_def split: option.splits)

lemma undelivered_fields [simp]:
  "sv_wakeups (undelivered u e sv) = sv_wakeups sv" "sv_outbox (undelivered u e sv) = sv_outbox sv"
  "sv_target (undelivered u e sv) = sv_target sv" "sv_access (undelivered u e sv) = sv_access sv"
  "sv_courier_runs (undelivered u e sv) = sv_courier_runs sv" "sv_notifications (undelivered u e sv) = sv_notifications sv"
  by (simp_all add: undelivered_def publish_def split: option.splits)

lemma handed_undelivered [simp]: "handed (undelivered u e sv) = handed sv"
  by (simp add: handed_def)

lemma schedule_fields:
  "schedule u again sv = (r, sv') \<Longrightarrow> sv_wakeups sv' = sv_wakeups sv \<and> sv_outbox sv' = sv_outbox sv \<and>
     sv_target sv' = sv_target sv \<and> sv_access sv' = sv_access sv"
  by (auto simp: schedule_def split: if_splits)

text \<open>Sending for one token: its wakeup is settled through what was sent.\<close>

lemma send_wakeup_handed:
  "handed (send_wakeup ac t a sv) = handed sv \<and> sv_wakeups (send_wakeup ac t a sv) = sv_wakeups sv \<or>
   (\<exists>n p. handed (send_wakeup ac t a sv) \<in> {handed sv, handed sv @ [p]} \<and>
     p = \<lparr>pa_agent = a, pa_text = access_prompt ac, pa_cancelled = None, pa_outcome = ToWorker t n\<rparr> \<and>
     map_of (sv_wakeups (send_wakeup ac t a sv)) = (map_of (sv_wakeups sv))(t \<mapsto> \<lparr>wk_requested = n, wk_notified = n\<rparr>))"
proof (cases "map_of (sv_wakeups sv) t")
  case (Some w)
  obtain rq nt where w: "w = \<lparr>wk_requested = rq, wk_notified = nt\<rparr>" by (cases w)
  show ?thesis
  proof (cases "needs_poll w")
    case True
    with Some w show ?thesis
      by (intro disjI2 exI [of _ rq]) (simp add: send_wakeup_def wakeup_sent_def Let_def handed_def courier_send_def)
  qed (use Some in \<open>simp add: send_wakeup_def\<close>)
qed (simp add: send_wakeup_def)

lemma send_wakeup_fields [simp]:
  "sv_target (send_wakeup ac t a sv) = sv_target sv" "sv_access (send_wakeup ac t a sv) = sv_access sv"
  by (simp_all add: send_wakeup_def wakeup_sent_def Let_def split: option.splits)

text \<open>Polling one token: it leaves the other tokens' wakeups and accesses, and a wakeup that it hands over is
  settled, for the access that the service then holds for the token.\<close>

lemma poll_wakeup_handed:
  assumes ok: "service_ok sv"
  shows "(\<forall>u. u \<noteq> t \<longrightarrow> map_of (sv_wakeups (poll_wakeup W sv t)) u = map_of (sv_wakeups sv) u \<and>
      map_of (sv_access (poll_wakeup W sv t)) u = map_of (sv_access sv) u) \<and>
    tg_tab (sv_target (poll_wakeup W sv t)) = tg_tab (sv_target sv) \<and>
    (handed (poll_wakeup W sv t) = handed sv \<or>
     (\<exists>n p ac. handed (poll_wakeup W sv t) = handed sv @ [p] \<and> ac_token ac = t \<and>
        map_of (sv_access (poll_wakeup W sv t)) t = Some ac \<and> good_wakeup W (tg_tab (sv_target sv)) ac n p \<and>
        map_of (sv_wakeups (poll_wakeup W sv t)) t = Some \<lparr>wk_requested = n, wk_notified = n\<rparr>))"
proof -
  obtain r sv' where n: "notify W t sv = (r, sv')" by fastforce
  have target: "\<exists>tg. sv1 = sv\<lparr>sv_target := tg\<rparr> \<and> tg_tab tg = tg_tab (sv_target sv)"
    if "resolve_target (wd_port W) sv = (y, sv1)" for y sv1
    by (rule resolve_target_fields [OF that])
  from n show ?thesis
  proof (cases rule: notify_cases)
    case idle
    with n show ?thesis by (simp add: poll_wakeup_def)
  next
    case (unresolved e)
    with n target [OF unresolved(2)] show ?thesis by (auto simp: poll_wakeup_def handed_def)
  next
    case (uncertain e ac ac' a sv1)
    with n target [OF uncertain(3)] show ?thesis by (auto simp: poll_wakeup_def handed_def)
  next
    case (replaced ac ac' a sv1)
    with n target [OF replaced(2)] schedule_fields [OF replaced(4)] show ?thesis
      by (cases r) (auto simp: poll_wakeup_def handed_def)
  next
    case (sent ac ac' a sv1)
    obtain tg where sv1: "sv1 = sv\<lparr>sv_target := tg\<rparr>" "tg_tab tg = tg_tab (sv_target sv)" using target [OF sent(3)] by blast
    obtain tg' where "target_resolve (wd_port W) (sv_target sv) = Inr (Some a, tg')"
      using sent(3) by (auto simp: resolve_target_def split: sum.splits option.splits prod.splits)
    then obtain agents where agents: "pt_agents (wd_port W) = Inr agents" "a \<in> set agents" "ag_tab a = tg_tab (sv_target sv)"
      by (rule resolved_agent)
    have ac: "ac_token ac = t" "access_ok ac" using service_access [OF ok sent(2)] by simp_all
    then have token: "ac_token ac' = t" using matches_agent_like [OF sent(5)] by (simp add: access_like_def)
    have good: "good_wakeup W (tg_tab (sv_target sv)) ac' n
      \<lparr>pa_agent = a, pa_text = access_prompt ac', pa_cancelled = None, pa_outcome = ToWorker t n\<rparr>" for n
      using agents token matched_granted [OF sent(5) ac(2)] by (simp add: good_wakeup_def)
    let ?sv = "sv1\<lparr>sv_access := AList.update t ac' (sv_access sv1)\<rparr>"
    have poll: "poll_wakeup W sv t = send_wakeup ac' t a ?sv" using n sent(1,6) by (simp add: poll_wakeup_def)
    have fields: "handed ?sv = handed sv" "sv_wakeups ?sv = sv_wakeups sv" "tg_tab (sv_target ?sv) = tg_tab (sv_target sv)"
      "sv_access ?sv = AList.update t ac' (sv_access sv)"
      using sv1 by (simp_all add: handed_def)
    from send_wakeup_handed [of ac' t a ?sv] good token show ?thesis
      unfolding poll fields send_wakeup_fields by auto
  qed
qed

section \<open>Polling the wakeups\<close>

definition wake_token :: "parcel \<Rightarrow> bytes" where
  "wake_token p = (case pa_outcome p of ToWorker t _ \<Rightarrow> t | ToRequest _ \<Rightarrow> [])"

text \<open>A wakeup that was handed over and is settled in the state that follows, for the access it holds for the
  wakeup's token.\<close>

definition settled_wakeup :: "world \<Rightarrow> bytes \<Rightarrow> service \<Rightarrow> parcel \<Rightarrow> bool" where
  "settled_wakeup W tab sv p \<longleftrightarrow>
     (\<exists>n ac. map_of (sv_access sv) (wake_token p) = Some ac \<and> ac_token ac = wake_token p \<and> good_wakeup W tab ac n p \<and>
        map_of (sv_wakeups sv) (wake_token p) = Some \<lparr>wk_requested = n, wk_notified = n\<rparr>)"

lemma poll_wakeups_handed:
  "service_ok sv \<Longrightarrow> distinct ts \<Longrightarrow>
     (\<exists>ps. handed (foldl (poll_wakeup W) sv ts) = handed sv @ ps \<and> distinct (map wake_token ps) \<and>
        wake_token ` set ps \<subseteq> set ts \<and>
        (\<forall>p \<in> set ps. settled_wakeup W (tg_tab (sv_target sv)) (foldl (poll_wakeup W) sv ts) p)) \<and>
     (\<forall>u. u \<notin> set ts \<longrightarrow> map_of (sv_wakeups (foldl (poll_wakeup W) sv ts)) u = map_of (sv_wakeups sv) u \<and>
        map_of (sv_access (foldl (poll_wakeup W) sv ts)) u = map_of (sv_access sv) u)"
proof (induction ts arbitrary: sv)
  case (Cons t ts)
  define sv1 where "sv1 = poll_wakeup W sv t"
  let ?last = "foldl (poll_wakeup W) sv1 ts"
  note first = poll_wakeup_handed [OF Cons.prems(1), of t W, folded sv1_def]
  have "service_ok sv1" unfolding sv1_def by (rule poll_wakeup_ok [OF Cons.prems(1)])
  from Cons.IH [OF this] Cons.prems(2) obtain ps where
    ps: "handed ?last = handed sv1 @ ps" "distinct (map wake_token ps)" "wake_token ` set ps \<subseteq> set ts"
      "\<forall>p \<in> set ps. settled_wakeup W (tg_tab (sv_target sv)) ?last p"
    and others: "\<forall>u. u \<notin> set ts \<longrightarrow> map_of (sv_wakeups ?last) u = map_of (sv_wakeups sv1) u \<and>
      map_of (sv_access ?last) u = map_of (sv_access sv1) u"
    using first by auto
  have keep: "map_of (sv_wakeups ?last) u = map_of (sv_wakeups sv) u \<and> map_of (sv_access ?last) u = map_of (sv_access sv) u"
    if "u \<notin> set (t # ts)" for u
    using that others first by auto
  from first have handed: "handed sv1 = handed sv \<or> (\<exists>n p ac. handed sv1 = handed sv @ [p] \<and> ac_token ac = t \<and>
      map_of (sv_access sv1) t = Some ac \<and> good_wakeup W (tg_tab (sv_target sv)) ac n p \<and>
      map_of (sv_wakeups sv1) t = Some \<lparr>wk_requested = n, wk_notified = n\<rparr>)" by blast
  have "\<exists>qs. handed ?last = handed sv @ qs \<and> distinct (map wake_token qs) \<and> wake_token ` set qs \<subseteq> set (t # ts) \<and>
      (\<forall>p \<in> set qs. settled_wakeup W (tg_tab (sv_target sv)) ?last p)"
    using handed
  proof (elim disjE exE conjE)
    assume "handed sv1 = handed sv"
    with ps show ?thesis by (intro exI [of _ ps]) auto
  next
    fix n p ac assume p: "handed sv1 = handed sv @ [p]" "ac_token ac = t" "map_of (sv_access sv1) t = Some ac"
      "good_wakeup W (tg_tab (sv_target sv)) ac n p" "map_of (sv_wakeups sv1) t = Some \<lparr>wk_requested = n, wk_notified = n\<rparr>"
    then have token: "wake_token p = t" by (simp add: good_wakeup_def wake_token_def)
    have "t \<notin> set ts" using Cons.prems(2) by simp
    with others p token have "settled_wakeup W (tg_tab (sv_target sv)) ?last p" by (simp add: settled_wakeup_def)
    with ps p token \<open>t \<notin> set ts\<close> show ?thesis by (intro exI [of _ "p # ps"]) auto
  qed
  with keep show ?case by (simp add: sv1_def)
qed simp

section \<open>A turn\<close>

lemma handed_cong: "sv_outbox sv' = sv_outbox sv \<Longrightarrow> handed sv' = handed sv"
  by (simp add: handed_def)

lemma cancel_fields [simp]:
  "sv_outbox (cancel_wakeups u sv) = sv_outbox sv" "sv_target (cancel_wakeups u sv) = sv_target sv"
  by (simp_all add: cancel_wakeups_def)

lemma request_wakeup_fields [simp]:
  "sv_outbox (request_wakeup ac again sv) = sv_outbox sv" "sv_target (request_wakeup ac again sv) = sv_target sv"
  by (simp_all add: request_wakeup_def split: option.splits)

lemma prepare_fields:
  assumes "prepare_notification W unit sv = Some (r, sv')"
  shows "sv_outbox sv' = sv_outbox sv \<and> tg_tab (sv_target sv') = tg_tab (sv_target sv)"
proof -
  obtain x sv1 where x: "resolve_target (wd_port W) sv = (x, sv1)" by fastforce
  obtain tg where sv1: "sv1 = sv\<lparr>sv_target := tg\<rparr>" "tg_tab tg = tg_tab (sv_target sv)" using resolve_target_fields [OF x] by blast
  have grant: "sv_outbox sv2 = sv_outbox sv1 \<and> sv_target sv2 = sv_target sv1" if "grant W unit a sv1 = (y, sv2)" for a y sv2
    using that by (cases rule: grant_cases) simp_all
  consider "sv' = cancel_wakeups unit sv" | "sv' = sv1" | a y sv2 where "grant W unit a sv1 = (y, sv2)" "sv' = sv2"
    | a y sv2 ac n where "grant W unit a sv1 = (y, sv2)"
        "sv' = request_wakeup ac n (sv2\<lparr>sv_notifications := AList.delete unit (sv_notifications sv2)\<rparr>)"
    using assms x by (auto simp: prepare_notification_def split: option.splits if_splits sum.splits prod.splits)
  then show ?thesis
    by cases (use sv1 grant in auto)
qed

lemma poll_notification_fields:
  "poll_notification W sv unit = Some sv' \<Longrightarrow> handed sv' = handed sv \<and> tg_tab (sv_target sv') = tg_tab (sv_target sv)"
  using prepare_fields by (fastforce simp: poll_notification_def handed_def split: option.splits prod.splits sum.splits)

lemma poll_notifications_fields:
  "fold_opt (poll_notification W) sv units = Some sv' \<Longrightarrow> handed sv' = handed sv \<and> tg_tab (sv_target sv') = tg_tab (sv_target sv)"
  by (induction units arbitrary: sv) (auto simp: poll_notification_fields split: option.splits)

lemma poll_handed:
  assumes "service_ok sv" "poll W sv = Some sv'"
  shows "\<exists>qs ps. handed sv' = handed sv @ qs @ ps \<and> (\<forall>p \<in> set qs. begun_parcel (wd_flags W) p) \<and>
    distinct (map wake_token ps) \<and> (\<forall>p \<in> set ps. settled_wakeup W (tg_tab (sv_target sv)) sv' p)"
proof -
  let ?sv = "sv\<lparr>sv_outbox := poll_queue (wd_port W) (wd_flags W) (sv_courier_runs sv) (sv_outbox sv)\<rparr>"
  obtain qs where qs: "handed ?sv = handed sv @ qs" "\<forall>p \<in> set qs. begun_parcel (wd_flags W) p"
    using poll_queue_handed by (fastforce simp: handed_def)
  obtain sv1 where sv1: "fold_opt (poll_notification W) ?sv (map fst (sv_notifications sv)) = Some sv1"
    and sv': "sv' = foldl (poll_wakeup W) sv1 (map fst (filter (\<lambda>(_, w). needs_poll w) (sv_wakeups sv1)))"
    using assms(2) by (auto simp: poll_def Let_def split: option.splits)
  have "service_ok ?sv" using assms(1) by simp
  moreover have "distinct (map fst (sv_notifications sv))" "\<forall>u \<in> set (map fst (sv_notifications sv)). map_of (sv_notifications ?sv) u \<noteq> None"
    using assms(1) by (auto simp: service_ok_def marks_ok_def map_of_eq_None_iff intro: rev_image_eqI)
  ultimately have ok1: "service_ok sv1" using poll_notifications_ok [of ?sv _ W] sv1 by fastforce
  then have "distinct (map fst (filter (\<lambda>(_, w). needs_poll w) (sv_wakeups sv1)))"
    by (simp add: service_ok_def marks_ok_def distinct_map_filter)
  from poll_wakeups_handed [OF ok1 this, of W] poll_notifications_fields [OF sv1] qs show ?thesis
    unfolding sv' by auto
qed

section \<open>Handlers hand nothing over\<close>

definition same_out :: "service \<Rightarrow> service \<Rightarrow> bool" where
  "same_out sv sv' \<longleftrightarrow> sv_outbox sv' = sv_outbox sv \<and> sv_target sv' = sv_target sv"

lemma same_out_refl [simp]: "same_out sv sv"
  and same_out_trans: "same_out sv sv1 \<Longrightarrow> same_out sv1 sv' \<Longrightarrow> same_out sv sv'"
  by (simp_all add: same_out_def)

lemma same_out_simps [simp]:
  "same_out sv (publish e sv') = same_out sv sv'" "same_out sv (report r sv') = same_out sv sv'"
  "same_out sv (report_wakeup u f sv') = same_out sv sv'" "same_out sv (undelivered u t sv') = same_out sv sv'"
  "same_out sv (release i t sv') = same_out sv sv'" "same_out sv (cancel_wakeups i sv') = same_out sv sv'"
  "same_out sv (request_wakeup ac again sv') = same_out sv sv'" "same_out sv (interrupt_wakeups pane sv') = same_out sv sv'"
  "same_out sv (store_access ac sv') = same_out sv sv'"
  by (simp_all add: same_out_def report_def release_def interrupt_wakeups_def store_access_def split: sum.splits option.splits)

lemma schedule_out: "schedule u again sv = (r, sv') \<Longrightarrow> same_out sv sv'"
  by (auto simp: same_out_def schedule_def split: if_splits)

lemma load_out: "load u sv = (r, sv') \<Longrightarrow> same_out sv sv'"
  by (auto simp: same_out_def load_def split: prod.splits sum.splits)

lemma drafts_out: "drafts_to_restore u sv = (ds, sv') \<Longrightarrow> same_out sv sv'"
  by (auto simp: same_out_def drafts_to_restore_def split: prod.splits sum.splits)

lemma update_saved_out: "update_saved_drafts u f sv = (r, sv') \<Longrightarrow> same_out sv sv'"
  by (auto simp: same_out_def update_saved_drafts_def split: prod.splits sum.splits)

lemma update_book_out: "update_book u f sv = (r, sv') \<Longrightarrow> same_out sv sv'"
  by (auto simp: update_book_def Let_def same_out_def drafts_to_restore_def split: prod.splits sum.splits if_splits)

lemma resume_out [simp]: "same_out sv (resume u sv') = same_out sv sv'"
proof (cases "schedule u False sv'")
  case (Pair r s)
  have "same_out sv s = same_out sv sv'" using schedule_out [OF Pair] by (simp add: same_out_def)
  then show ?thesis by (simp add: resume_def Pair)
qed

lemma refresh_out [simp]: "same_out sv (refresh_target sv') = same_out sv sv'"
proof -
  have "same_out sv (foldl (\<lambda>sv u. resume u sv) s us) = same_out sv s" for us s
    by (induction us arbitrary: s) simp_all
  then show ?thesis by (simp add: refresh_target_def)
qed

lemma set_thread_resolution_out:
  assumes "set_thread_resolution u i r sv = (x, sv')"
  shows "same_out sv sv'"
proof -
  obtain y sv1 where up: "update_book u (\<lambda>rt. map_sum id (\<lambda>rt. ((), rt)) (set_resolution i r rt)) sv = (y, sv1)" by fastforce
  have "sv' = sv1 \<or> sv' = cancel_wakeups u sv1 \<or> schedule u True (release u i sv1) = (x, sv')"
    using assms up by (cases y) (auto simp: set_thread_resolution_def split: if_splits)
  moreover have "same_out sv (release u i sv1)" "same_out sv (cancel_wakeups u sv1)" using update_book_out [OF up] by simp_all
  ultimately show ?thesis using update_book_out [OF up] same_out_trans schedule_out by blast
qed

lemma retry_thread_out:
  assumes "retry_thread u i sv = (x, sv')"
  shows "same_out sv sv'"
proof -
  obtain y sv1 where l: "load u sv = (y, sv1)" by fastforce
  have "sv' = sv1 \<or> schedule u True (release u i sv1) = (x, sv')"
    using assms l by (cases y) (auto simp: retry_thread_def split: sum.splits)
  moreover have "same_out sv (release u i sv1)" using load_out [OF l] by simp
  ultimately show ?thesis using load_out [OF l] same_out_trans schedule_out by blast
qed

lemma load_review_out:
  assumes "load_review u sv = Some sv'"
  shows "same_out sv sv'"
proof -
  obtain r sv1 where l: "load u sv = (r, sv1)" by fastforce
  obtain ds sv2 where ds: "drafts_to_restore u sv1 = (ds, sv2)" by fastforce
  have "same_out sv sv1" "same_out sv sv2" using load_out [OF l] drafts_out [OF ds] same_out_trans by blast+
  with assms show ?thesis by (cases r) (auto simp: load_review_def l ds Let_def split: option.splits)
qed

lemma post_comment_out:
  assumes "post_comment now u p0 sv = Some sv'"
  shows "same_out sv sv'"
proof -
  define p where "p = from_tab (tg_tab (sv_target sv)) p0"
  define change where "change = (\<lambda>rt. map_sum id (\<lambda>(_, rt'). (book_message rt (ms_id (po_message p)) = None, rt')) (post_message now rt p))"
  obtain r sv1 where up: "update_book u change sv = (r, sv1)" by fastforce
  obtain f sv2 where f: "update_saved_drafts u (\<lambda>ds _. Inr ds) sv1 = (f, sv2)" by fastforce
  have out: "same_out sv sv1" "same_out sv sv2" using update_book_out [OF up] update_saved_out [OF f] same_out_trans by blast+
  have finish: "same_out sv (case schedule u False s of (Inl e, sv) \<Rightarrow> undelivered (Some u) e sv | (Inr _, sv) \<Rightarrow> sv)"
    if "same_out sv s" for s
    using same_out_trans [OF that schedule_out] by (cases "schedule u False s") (simp split: sum.splits)
  have round: "same_out sv (case x of Some r \<Rightarrow> publish (RoundMessage u r m) s | None \<Rightarrow> s)" if "same_out sv s" for x m s
    using that by (simp split: option.splits)
  note unfolds = post_comment_def Let_def p_def [symmetric] change_def [symmetric] up prod.case
  obtain round where found: "round_of_new u (po_thread p) r sv1 = Some round"
    using assms unfolding unfolds by (cases "round_of_new u (po_thread p) r sv1") simp_all
  show ?thesis
  proof (cases r)
    case (Inl e)
    with assms out found show ?thesis unfolding unfolds by (auto split: option.splits)
  next
    case (Inr new)
    from assms have "sv' = (case schedule u False
        (case round of Some r \<Rightarrow> publish (RoundMessage u r (ms_id (po_message p)))
            (publish (Posted u (ms_id (po_message p)) (map_sum id (\<lambda>_. ()) (Inr new))) (report f sv2))
          | None \<Rightarrow> publish (Posted u (ms_id (po_message p)) (map_sum id (\<lambda>_. ()) (Inr new))) (report f sv2)) of
        (Inl e, sv) \<Rightarrow> undelivered (Some u) e sv | (Inr _, sv) \<Rightarrow> sv)"
      unfolding unfolds found option.case unfolding Inr sum.case f prod.case by (simp only: option.inject)
    also have "same_out sv \<dots>" by (rule finish, rule round) (simp add: out)
    finally show ?thesis .
  qed
qed

lemma thread_work_out: "thread_work now cmd sv = Some sv' \<Longrightarrow> same_out sv sv'"
  by (cases cmd)
    (auto simp: thread_work_def Let_def
      dest: load_review_out post_comment_out update_saved_out update_book_out set_thread_resolution_out retry_thread_out
      split: prod.splits)

lemma serve_out:
  assumes "serve now ac op sv = (r, sv')"
  shows "same_out sv sv'"
proof -
  obtain x sv1 where l: "load (ac_review_unit ac) sv = (x, sv1)" by fastforce
  have answered: "same_out sv s \<Longrightarrow> same_out sv (case o' of Some w \<Rightarrow> s\<lparr>sv_wakeups := f w\<rparr> | None \<Rightarrow> s)" for s o' f
    by (simp add: same_out_def split: option.splits)
  show ?thesis
  proof (cases x)
    case (Inl e)
    with assms l load_out [OF l] show ?thesis by (simp add: serve_def)
  next
    case (Inr rt)
    show ?thesis
    proof (cases op)
      case (Reply p)
      obtain y sv2 where up: "update_book (ac_review_unit ac) (\<lambda>rt. answer now rt p) sv1 = (y, sv2)" by fastforce
      have "same_out sv sv2" using load_out [OF l] update_book_out [OF up] same_out_trans by blast
      with assms l Inr Reply up answered show ?thesis by (cases y) (auto simp: serve_def split: if_splits)
    qed (use assms l Inr load_out [OF l] in \<open>auto simp: serve_def split: option.splits\<close>)
  qed
qed

lemma request_out:
  assumes "request W token op session sv = (r, sv')"
  shows "same_out sv sv'"
proof (cases "map_of (sv_access sv) token")
  case (Some ac)
  obtain x ac' where c: "access_current_agent (wd_port W) ac = (x, ac')" by fastforce
  show ?thesis
  proof (cases x)
    case (Inl e)
    with assms Some c show ?thesis by (auto simp: request_def)
  next
    case (Inr a)
    let ?sv = "case session of Some s \<Rightarrow> if sv_hooks (store_access ac' sv)
        then store_access ac' sv\<lparr>sv_named := sv_named (store_access ac' sv) @ [(ag_pane a, s)]\<rparr> else store_access ac' sv
      | None \<Rightarrow> store_access ac' sv"
    have "same_out sv ?sv" by (simp add: same_out_def store_access_def split: option.splits)
    moreover have "serve (wd_now W) ac' op ?sv = (r, sv')" using assms Some c Inr by (simp add: request_def Let_def)
    ultimately show ?thesis using serve_out same_out_trans by blast
  qed
qed (use assms in \<open>simp add: request_def\<close>)

lemma resume_access_out [simp]: "same_out sv (resume_access P pane sv') = same_out sv sv'"
proof -
  obtain valid acs where r: "resumable P (\<lambda>token. map_of (sv_wakeups sv') token \<noteq> None) pane (sv_access sv') = (valid, acs)"
    by fastforce
  have "same_out sv (foldl (\<lambda>sv ac. request_wakeup ac False sv) s v) = same_out sv s" for v s
    by (induction v arbitrary: s) simp_all
  then show ?thesis unfolding resume_access_def r by (simp add: same_out_def)
qed

lemma notified_out: "same_out sv (notified t n r sv)"
  by (auto simp: notified_def Let_def same_out_def split: sum.splits option.splits)

lemma handle_out:
  assumes "handle W i sv = Next sv'"
  shows "handed sv' = handed sv \<and> sv_target sv' = sv_target sv"
proof -
  have out: ?thesis if "same_out sv sv'" using that by (simp add: same_out_def handed_def)
  show ?thesis
  proof (cases i)
    case (Ui cmd)
    with assms thread_work_out [of "wd_now W" _ sv] show ?thesis
      by (intro out, cases cmd) (auto simp: handle_def or_panic_def observe_def split: herdr_event.splits option.splits)
  next
    case (Mcp t op session)
    obtain r sv1 where rq: "request W t op session sv = (r, sv1)" by fastforce
    with assms Mcp request_out [OF rq] show ?thesis by (intro out) (auto simp: handle_def same_out_def)
  next
    case (Prompt rq)
    with assms show ?thesis by (auto simp: handle_def handed_def push_request_def)
  next
    case (Notified t n r)
    with assms notified_out show ?thesis by (intro out) (auto simp: handle_def)
  qed (use assms in \<open>simp add: handle_def\<close>)
qed

text \<open>What a whole turn hands over: requests whose agent is known and that are not withdrawn, then wakeups.\<close>

lemma turn_handed:
  assumes "service_ok sv" "service_turn W i sv = Next sv'"
  shows "\<exists>qs ps. handed sv' = handed sv @ qs @ ps \<and> (\<forall>p \<in> set qs. begun_parcel (wd_flags W) p) \<and>
    distinct (map wake_token ps) \<and> (\<forall>p \<in> set ps. settled_wakeup W (tg_tab (sv_target sv)) sv' p)"
proof -
  obtain sv1 where sv1: "(case i of None \<Rightarrow> Next sv | Some i \<Rightarrow> handle W i sv) = Next sv1" "poll W sv1 = Some sv'"
    using assms(2) by (auto simp: service_turn_def or_panic_def split: option.splits turn.splits)
  then have "service_ok sv1" "handed sv1 = handed sv \<and> sv_target sv1 = sv_target sv"
    using handle_ok [OF assms(1)] handle_out assms(1) by (auto split: option.splits)
  with poll_handed [OF this(1) sv1(2)] show ?thesis by simp
qed

end
