(* ===== verification/HunkProperties.thy ===== *)
theory HunkProperties
  imports Samples
begin

text \<open>
  The properties of the line-level review (crates/review-hunks): what marking the hunks and the lines
  that the interface shows does to the reviewed version, and what the interface shows of it.
  Each rests on the lemmas of the component theories; the examples use the versions of \<open>Samples\<close>.
\<close>

lemma v_current_text: "concat [[CHR ''b'', nl], [CHR ''y'', nl]] = v_current" "[CHR ''b'', nl, CHR ''y'', nl] = v_current"
  by (simp_all add: v_current_def nl_char)

definition sample_file :: changed_file where
  "sample_file = modified_file ''f''"

lemma sample_file_text: "text_file sample_file"
  by (simp add: sample_file_def text_file_def modified_file_def)

lemma sample_diff_text:
  "unified_diff trim_diff ''f'' v_reviewed v_current =
     concat (map (\<lambda>l. l @ [nl]) [''diff --git a/f b/f'', ''--- a/f'', ''+++ b/f'', ''@@ -1,2 +1,2 @@'', '' b'', ''-x'', ''+y''])"
  by (simp add: unified_diff_def hunk_groups_def hunk_text_def hunk_header_line_def header_range_def
      hunk_start_def hunk_stop_def hunk_after_start_def hunk_after_stop_def CONTEXT_def show_nat.simps digit_def
      diff_lines_def side_lines_def lines_get_def slice_get_def lines_len_def u32_saturate_def diff_line_def
      ends_with_nl_def strip_last_def nl_char)
    (simp add: char_of_def bit_Suc_0_iff)

text \<open>C2: accepting every hunk that the open diff shows makes the reviewed version the current file: the
  hunks come from the diff as it is written, parsed back and walked row by row.\<close>

theorem accepting_the_shown_hunks_reviews_the_file:
  assumes "line_diff D" "length (lines_new (hr_reviewed hr)) \<le> u32_max"
    "length (lines_new (hr_current hr)) \<le> u32_max" "nl \<notin> set path" "text_file f"
    and "utf8_valid (unified_diff D path (hr_reviewed hr) (hr_current hr))"
    and "length (unified_diff D path (hr_reviewed hr) (hr_current hr)) \<le> u32_max"
    and "\<forall>l \<in> set (split_nl (unified_diff D path (hr_reviewed hr) (hr_current hr))). length l \<le> MAX_LINE_BYTES"
  shows "\<exists>at. review_all D hr
    (map oh_span (open_hunks (parse_file_diff (unified_diff D path (hr_reviewed hr) (hr_current hr)) f))) who =
      Some (Current at)"
proof -
  let ?gs = "hunk_groups (D (hr_reviewed hr) (hr_current hr))"
  have "map oh_span (map group_hunk ?gs) = map group_span ?gs" by (simp add: group_hunk_def)
  with open_diff_hunks [OF assms(1-4,6,8,7,5)] review_all_hunks [OF assms(1,2), of who] show ?thesis
    by (simp only:)
qed

theorem accepting_the_shown_hunks_witness:
  "\<exists>at. review_all trim_diff sample
    (map oh_span (open_hunks (parse_file_diff (unified_diff trim_diff ''f'' v_reviewed v_current) sample_file))) Jev =
      Some (Current at)"
proof -
  have "utf8_valid (unified_diff trim_diff ''f'' v_reviewed v_current)"
    "length (unified_diff trim_diff ''f'' v_reviewed v_current) \<le> u32_max"
    "\<forall>l \<in> set (split_nl (unified_diff trim_diff ''f'' v_reviewed v_current)). length l \<le> MAX_LINE_BYTES"
    unfolding sample_diff_text
    by (simp_all add: utf8_valid.simps utf8_step_def second_ok_def seq_len_def is_cont_def u32_max_def MAX_LINE_BYTES_def nl_char)
  then show ?thesis
    using accepting_the_shown_hunks_reviews_the_file [OF line_diff_trim_diff, of sample "''f''" sample_file Jev]
    by (simp add: sample_file_text nl_char)
qed

text \<open>C15: a diff written from one version to another gives the old version back from the new one, with
  its missing final newlines.\<close>

theorem reverse_apply_recovers_the_old_version:
  assumes "line_diff D" "length (lines_new old) \<le> u32_max" "length (lines_new new) \<le> u32_max" "nl \<notin> set path"
  shows "reverse_apply (unified_diff D path old new) new = Some old"
  using assms by (rule reverse_apply_unified_diff)

theorem reverse_apply_recovers_witness:
  "reverse_apply (unified_diff trim_diff ''f'' v_reviewed v_current) v_current = Some v_reviewed"
  using reverse_apply_recovers_the_old_version [OF line_diff_trim_diff, of v_reviewed v_current "''f''"]
  by (simp add: nl_char)

text \<open>C3: accepting chosen lines either names no open line, and then nothing happens, or it writes a
  version in which each open change keeps the reviewed lines it did not pick and gains the current
  lines it picked, some hunks picked whole; and after it exactly the unpicked lines are open, unless
  every hunk the selection meets was accepted whole.\<close>

theorem accepted_lines_leave_the_others_open:
  fixes D hr sel
  defines "rc \<equiv> D (hr_base hr) (hr_reviewed hr)" and "opened \<equiv> D (hr_reviewed hr) (hr_current hr)"
  defines "picks \<equiv> map (accept_pick rc sel) opened"
  assumes "line_diff D" "length (lines_new (hr_reviewed hr)) \<le> u32_max" "\<exists>p \<in> set picks. pick_any p"
  shows "\<exists>v ps W. accept_lines D hr sel who = Some v \<and> W \<subseteq> set (touched opened picks) \<and> ps = widened opened picks W \<and>
    version_text hr v =
      concat (accepted_text (lines_new (hr_reviewed hr)) (lines_new (hr_current hr)) 0 (zip opened ps)) \<and>
    (open_lines D (hr_base hr) (version_text hr v) (hr_current hr) =
       \<lparr>ls_removed = set (filter_map (before_line rc) (unpicked_before opened ps)),
        ls_added = set (unpicked_after opened ps)\<rparr> \<or> W = set (touched opened picks))"
proof -
  have "accept_lines D hr sel who \<noteq> None"
    using assms(6) unfolding accept_lines_None_iff [OF assms(4,5)] by (auto simp: picks_def rc_def opened_def)
  then obtain v where v: "accept_lines D hr sel who = Some v" by blast
  from accept_lines_text [OF assms(4,5) v] obtain W where
    W: "W \<subseteq> set (touched opened picks)" and written: "version_text hr v =
      concat (accepted_text (lines_new (hr_reviewed hr)) (lines_new (hr_current hr)) 0 (zip opened (widened opened picks W)))"
    and m: "accept_matches D hr who rc opened (widened opened picks W) \<or> W = set (touched opened picks)"
    unfolding rc_def opened_def picks_def by metis
  have len: "length (widened opened picks W) = length opened" by (simp add: picks_def)
  from accept_build_text [OF line_diff_script [OF assms(4)] assms(5) len [unfolded opened_def], of D who rc] written
  obtain r where "accept_build D hr who rc opened (widened opened picks W) = Some r" "rv_text r = version_text hr v"
    unfolding opened_def by auto
  with m have "open_lines D (hr_base hr) (version_text hr v) (hr_current hr) =
      \<lparr>ls_removed = set (filter_map (before_line rc) (unpicked_before opened (widened opened picks W))),
       ls_added = set (unpicked_after opened (widened opened picks W))\<rparr> \<or> W = set (touched opened picks)"
    by (auto simp: accept_matches_def Let_def)
  with v W written show ?thesis by blast
qed

theorem accepted_lines_witness:
  "\<exists>v. accept_lines trim_diff sample \<lparr>ls_removed = {}, ls_added = {1}\<rparr> Jev = Some v"
proof -
  have "\<exists>p \<in> set (map (accept_pick (trim_diff v_base v_reviewed) \<lparr>ls_removed = {}, ls_added = {1}\<rparr>)
      (trim_diff v_reviewed v_current)). pick_any p"
    by (simp add: accept_pick_def Let_def range_list_def pick_any_def pick_every_def upt_rec)
  then show ?thesis
    using accepted_lines_leave_the_others_open [OF line_diff_trim_diff, of sample "\<lparr>ls_removed = {}, ls_added = {1}\<rparr>" Jev]
    by simp blast
qed

text \<open>Accepting every line that is open makes the reviewed version the current file, whichever lines
  were reviewed before, provided each open change has a line a selection can name.\<close>

theorem accepting_every_open_line_reviews_the_file:
  assumes "line_diff D" "length (lines_new (hr_reviewed hr)) \<le> u32_max" "hr_reviewed hr \<noteq> hr_current hr"
    and "\<forall>c \<in> set (D (hr_reviewed hr) (hr_current hr)). addressable (D (hr_base hr) (hr_reviewed hr)) c"
  shows "\<exists>at. accept_lines D hr (open_lines D (hr_base hr) (hr_reviewed hr) (hr_current hr)) who = Some (Current at)"
  using assms by (rule accept_lines_every)

theorem accepting_every_open_line_witness:
  "\<exists>at. accept_lines trim_diff sample (open_lines trim_diff v_base v_reviewed v_current) Jev = Some (Current at)"
  using accepting_every_open_line_reviews_the_file [OF line_diff_trim_diff, of sample Jev]
  by (simp add: addressable_def range_empty_def)

text \<open>Reopening every reviewed line that the current file shows makes the base the reviewed version,
  when the current file still shows every reviewed line.\<close>

theorem reopening_every_reviewed_line_restores_the_base:
  assumes "line_diff D" "length (lines_new (hr_reviewed hr)) \<le> u32_max"
    and "hr_base hr \<noteq> hr_reviewed hr" "hr_base hr \<noteq> hr_current hr"
    and "\<forall>l \<in> set (changed_after (D (hr_base hr) (hr_reviewed hr))).
      after_line (D (hr_reviewed hr) (hr_current hr)) l \<noteq> None"
  shows "reopen_lines D hr (selection_of (reviewed_lines_of D hr)) = Some Base"
  using assms by (rule reopen_lines_every)

theorem reopening_every_reviewed_line_witness:
  "reopen_lines trim_diff sample (selection_of (reviewed_lines_of trim_diff sample)) = Some Base"
  using reopening_every_reviewed_line_restores_the_base [OF line_diff_trim_diff, of sample]
  by (simp add: range_list_def after_line_def map_line_def forward_def in_range_def u32_of_int_def)

text \<open>C24: no line is both open and reviewed, on either side, and a current line that is neither is a line
  of the base.\<close>

theorem lines_are_open_or_reviewed:
  assumes "line_diff D" "length (lines_new reviewed) \<le> u32_max" "length (lines_new current) \<le> u32_max"
    "length (lines_new base) \<le> u32_max"
  shows "ls_added (open_lines D base reviewed current) \<inter> ls_added (shown_lines D base reviewed current) = {} \<and>
    ls_removed (open_lines D base reviewed current) \<inter> ls_removed (shown_lines D base reviewed current) = {} \<and>
    (\<forall>l < length (lines_new current).
       l \<in> ls_added (open_lines D base reviewed current) \<or> l \<in> ls_added (shown_lines D base reviewed current) \<or>
       (\<exists>b < length (lines_new base). lines_new base ! b = lines_new current ! l))"
  using not_open_and_shown [OF assms] neither_open_nor_shown [OF assms] by blast

theorem lines_are_open_or_reviewed_witness:
  "ls_added (open_lines trim_diff v_base v_reviewed v_current) \<inter>
     ls_added (shown_lines trim_diff v_base v_reviewed v_current) = {}"
  using lines_are_open_or_reviewed [OF line_diff_trim_diff, of v_reviewed v_current v_base] by simp

text \<open>accepting several hunks at once fails exactly when two of their old ranges overlap or a range
  leaves its file, and otherwise replaces each old range by its current lines, in the order of the
  file whatever the order given.\<close>

theorem accepting_hunks_splices_their_lines:
  assumes "length (lines_new (hr_reviewed hr)) \<le> u32_max"
  shows "case review_all D hr opened who of
      None \<Rightarrow> \<not> splice_ok (lines_new (hr_reviewed hr)) (lines_new (hr_current hr)) 0 (accept_edits opened)
    | Some v \<Rightarrow> splice_ok (lines_new (hr_reviewed hr)) (lines_new (hr_current hr)) 0 (accept_edits opened) \<and>
        version_text hr v =
          concat (spliced (lines_new (hr_reviewed hr)) (lines_new (hr_current hr)) 0 (accept_edits opened))"
  using review_all_None_iff [OF assms, of D opened who] review_all_text [OF assms, of D opened who]
  by (auto split: option.splits)

theorem accepting_hunks_witness:
  "\<exists>v. review_all trim_diff sample [\<lparr>sp_old = (1, 2), sp_new = (1, 2)\<rparr>] Reviewer = Some v \<and>
     version_text sample v = v_current"
  using accepting_hunks_splices_their_lines [where hr = sample and D = trim_diff and who = Reviewer
      and opened = "[\<lparr>sp_old = (1, 2), sp_new = (1, 2)\<rparr>]"]
  by (auto simp: accept_edits_def span_edits_def v_current_text split: option.splits)

text \<open>C25: reopening a reviewed hunk puts the base lines of the hunk back where the hunk's current lines sit
  in the reviewed version, on lines that read the same there, and changes no other line.\<close>

theorem reopening_a_hunk_restores_its_base_lines:
  assumes "line_diff D" "length (lines_new (hr_reviewed hr)) \<le> u32_max" "length (lines_new (hr_current hr)) \<le> u32_max"
    and "fst (sp_new span) \<le> snd (sp_new span)" "snd (sp_new span) \<le> length (lines_new (hr_current hr))"
    and "unreview D hr span = Some v"
  shows "\<exists>s e. s \<le> e \<and> e \<le> length (lines_new (hr_reviewed hr)) \<and>
    slice (lines_new (hr_reviewed hr)) s e =
      slice (lines_new (hr_current hr)) (fst (sp_new span)) (snd (sp_new span)) \<and>
    version_text hr v =
      concat (take s (lines_new (hr_reviewed hr)) @
        slice (lines_new (hr_base hr)) (fst (sp_old span)) (snd (sp_old span)) @
        drop e (lines_new (hr_reviewed hr)))"
proof -
  from unreview_text [OF assms(2,6)] obtain s e where
    t: "translate (backward (D (hr_reviewed hr) (hr_current hr))) (sp_new span) = Some (s, e)"
    and v: "version_text hr v = concat (take s (lines_new (hr_reviewed hr)) @
        slice (lines_new (hr_base hr)) (fst (sp_old span)) (snd (sp_old span)) @
        drop e (lines_new (hr_reviewed hr)))" by blast
  note q' = translate_backward_SomeD [OF line_diff_script [OF assms(1)] assms(3,2,4,5) t, unfolded fst_conv snd_conv]
  then have q: "e = s + (snd (sp_new span) - fst (sp_new span))" "e \<le> length (lines_new (hr_reviewed hr))"
    "slice (lines_new (hr_reviewed hr)) s e =
      slice (lines_new (hr_current hr)) (fst (sp_new span)) (snd (sp_new span))" by blast+
  from q(1) have "s \<le> e" by simp
  with q(2,3) v show ?thesis by blast
qed

definition first_hunk :: hunk_span where
  "first_hunk = \<lparr>sp_old = (0, 1), sp_new = (0, 1)\<rparr>"

theorem reopening_a_hunk_witness: "unreview trim_diff sample first_hunk = Some Base"
proof -
  have fin: "unreview trim_diff sample first_hunk \<noteq> None"
    by (simp add: unreview_def first_hunk_def translate_def backward_def overlaps_def range_empty_def u32_of_int_def
        rb_keep_def lines_get_def slice_get_def Let_def lines_len_def u32_saturate_def)
  then obtain v where v: "unreview trim_diff sample first_hunk = Some v" by blast
  from reopening_a_hunk_restores_its_base_lines [OF line_diff_trim_diff _ _ _ _ v]
  obtain s e where "s \<le> e" "e \<le> 2" and sl: "slice (lines_new v_reviewed) s e = [[CHR ''b'', nl]]"
    and t: "version_text sample v = concat (take s (lines_new v_reviewed) @ [[CHR ''a'', nl]] @ drop e (lines_new v_reviewed))"
    by (auto simp: first_hunk_def)
  have "e - s = 1" using arg_cong [OF sl, of length] \<open>s \<le> e\<close> \<open>e \<le> 2\<close> by simp
  then have "s = 0 \<and> e = 1 \<or> s = 1 \<and> e = 2" using \<open>e \<le> 2\<close> by arith
  with sl have "s = 0" "e = 1" by auto
  with t have "version_text sample v = hr_base sample" by (simp add: v_base_def nl_char)
  moreover obtain r where "v = version sample r"
    using v by (auto simp: unreview_def Let_def split: option.splits prod.splits)
  ultimately show ?thesis using v version_is_base [of sample r] by simp
qed

lemma snd_landed:
  "snd ` set (landed upstream cs) = {after c | c. c \<in> set cs \<and> translate (forward upstream) (before c) \<noteq> None}"
proof (induction cs)
  case (Cons c cs)
  then show ?case
    by (cases "translate (forward upstream) (before c)") (auto simp: landed_def list_of_option_def simp del: split_paired_Ex)
qed (simp add: landed_def)

text \<open>C26: moving a reviewed version onto a new base puts on the new base exactly the reviewed changes that
  no upstream change meets, each with its reviewed lines, and changes that one author accepted stay
  that author's.\<close>

theorem replay_lands_the_untouched_changes:
  assumes "line_diff D" "length (lines_new ob) \<le> u32_max" "length (lines_new nb) \<le> u32_max" "ob \<noteq> nb"
  shows "rv_text (replay D ob r nb) =
      concat (spliced (lines_new nb) (lines_new (rv_text r)) 0 (landed (D ob nb) (D ob (rv_text r)))) \<and>
    snd ` set (landed (D ob nb) (D ob (rv_text r))) =
      {after c | c. c \<in> set (D ob (rv_text r)) \<and> (\<forall>u \<in> set (D ob nb). \<not> overlaps (before u) (before c))} \<and>
    (rv_attribution r = uniform who \<longrightarrow> rv_attribution (replay D ob r nb) = uniform who)"
proof -
  have iff: "translate (forward (D ob nb)) (before c) = None \<longleftrightarrow> (\<exists>u \<in> set (D ob nb). overlaps (before u) (before c))"
    if "c \<in> set (D ob (rv_text r))" for c
    using translate_None_iff [OF line_diff_script [OF assms(1)] assms(3,2)] that
      script_from_fst_le [of 0 0 _ _ _ c] line_diff_script [OF assms(1), of ob "rv_text r"]
    unfolding edit_script_def by blast
  have "snd ` set (landed (D ob nb) (D ob (rv_text r))) =
      {after c | c. c \<in> set (D ob (rv_text r)) \<and> (\<forall>u \<in> set (D ob nb). \<not> overlaps (before u) (before c))}"
    unfolding snd_landed by (simp add: iff cong: conj_cong del: split_paired_Ex not_None_eq)
  with replay_text [OF assms, of r who] show ?thesis by blast
qed

theorem replay_witness:
  "rv_attribution (replay trim_diff v_base \<lparr>rv_text = v_reviewed, rv_attribution = uniform Jev\<rparr> v_appended) = uniform Jev"
  using replay_lands_the_untouched_changes [OF line_diff_trim_diff, where ob = v_base and nb = v_appended
      and r = "\<lparr>rv_text = v_reviewed, rv_attribution = uniform Jev\<rparr>" and who = Jev]
  by simp

text \<open>The attribution a rebuilt version ends with answers, for each line it adds and each base line it
  removes, the author recorded while it was written; a line that does not differ from the base has
  no entry.\<close>

theorem rebuilt_attribution_answers_the_recorded_authors:
  assumes "line_diff D"
  shows "(\<forall>c \<in> set (D base (rb_text rb)).
       (\<forall>l. in_range (after c) l \<longrightarrow> added_by (rv_attribution (rb_finish D rb base)) l = rb_author rb l) \<and>
       (\<forall>l. in_range (before c) l \<longrightarrow> removed_by (rv_attribution (rb_finish D rb base)) l = rb_remover rb l)) \<and>
    (\<forall>l. (\<forall>c \<in> set (D base (rb_text rb)). \<not> in_range (after c) l) \<longrightarrow>
       author_in (at_added (rv_attribution (rb_finish D rb base))) l = None)"
  using rb_finish_added_by [OF assms] rb_finish_removed_by [OF assms] rb_finish_unchanged [OF assms] by blast

theorem rebuilt_attribution_witness:
  "added_by (rv_attribution (rb_finish trim_diff
     (rb_push (rb_push (rb_with_default Reviewer) [CHR ''b'', nl] Jev) [CHR ''x'', nl] Reviewer) v_base)) 0 = Jev"
proof -
  let ?rb = "rb_push (rb_push (rb_with_default Reviewer) [CHR ''b'', nl] Jev) [CHR ''x'', nl] Reviewer"
  have "rb_text ?rb = v_reviewed" by (simp add: rb_push_def rb_with_default_def v_reviewed_def nl_char)
  then show ?thesis
    using rebuilt_attribution_answers_the_recorded_authors [OF line_diff_trim_diff, of v_base ?rb]
    by (auto simp: in_range_def rb_author_def rb_push_def rb_with_default_def list_get_def)
qed

text \<open>Each open hunk lists exactly its own changes: the current lines it adds, and the base lines it
  removes; it rewrites reviewed lines when it removes a line the base does not have.\<close>

theorem open_hunks_list_their_own_changes:
  assumes "line_diff D" "g \<in> set (hunk_groups (D (hr_reviewed hr) (hr_current hr)))"
  shows "span_changed_lines D hr (group_span g) =
    \<lparr>cl_removed = filter_map (base_line D hr) (changed_before g), cl_added = changed_after g,
     cl_rewrites_reviewed = list_ex (\<lambda>l. base_line D hr l = None) (changed_before g)\<rparr>"
proof -
  let ?cs = "D (hr_reviewed hr) (hr_current hr)"
  obtain xs ys where "hunk_groups ?cs = xs @ g # ys" using assms(2) by (auto dest: split_list)
  from filter_group [OF line_diff_script [OF assms(1), of "hr_reviewed hr" "hr_current hr", unfolded edit_script_def] this]
  show ?thesis by (simp add: span_changed_lines_def group_span_def Let_def)
qed

theorem open_hunks_list_witness:
  "cl_added (span_changed_lines trim_diff sample (group_span [\<lparr>before = (1, 2), after = (1, 2)\<rparr>])) = [1]"
  using open_hunks_list_their_own_changes [OF line_diff_trim_diff, of "[\<lparr>before = (1, 2), after = (1, 2)\<rparr>]" sample]
  by (simp add: hunk_groups_def range_list_def upt_rec)

text \<open>the reviewed hunks show exactly the reviewed changes that the open diff leaves untouched, each
  row with the text of the line it numbers; a hunk's rows number every base line and every current
  line of its span once, in order, and a context row numbers a line that both versions share.\<close>

theorem reviewed_hunks_show_their_lines:
  assumes "line_diff D" "length (lines_new (hr_current hr)) \<le> u32_max" "length (lines_new (hr_reviewed hr)) \<le> u32_max"
  defines "rc \<equiv> D (hr_base hr) (hr_reviewed hr)" and "opened \<equiv> D (hr_reviewed hr) (hr_current hr)"
  shows "(\<forall>h \<in> set (reviewed_hunks hr rc opened).
      (\<forall>r \<in> set (rh_rows h). row_ok (lines_new (hr_base hr)) (lines_new (hr_current hr)) r) \<and>
      old_lines (rh_rows h) = map Suc (range_list (sp_old (rh_span h))) \<and>
      new_lines (rh_rows h) = map Suc (range_list (sp_new (rh_span h)))) \<and>
    filter is_change_row (concat (map rh_rows (reviewed_hunks hr rc opened))) =
      concat (map (change_rows (lines_new (hr_base hr)) (lines_new (hr_current hr))) (filter_map (place opened) rc))"
  using reviewed_hunk_rows [OF assms(1-3)] reviewed_hunks_changes unfolding rc_def opened_def by blast

theorem reviewed_hunks_witness:
  "filter is_change_row (concat (map rh_rows (reviewed_hunks sample [\<lparr>before = (0, 1), after = (0, 1)\<rparr>]
      [\<lparr>before = (1, 2), after = (1, 2)\<rparr>]))) =
    concat (map (change_rows [[CHR ''a'', nl], [CHR ''x'', nl]] [[CHR ''b'', nl], [CHR ''y'', nl]])
      (filter_map (place [\<lparr>before = (1, 2), after = (1, 2)\<rparr>]) [\<lparr>before = (0, 1), after = (0, 1)\<rparr>]))"
  using reviewed_hunks_show_their_lines [OF line_diff_trim_diff, of sample] by simp

text \<open>However the diff is written, the rows parsed from it without a notice number their lines as its
  hunk headers say: each header is followed by as many old and new lines as it counts, numbered on
  from where it starts.\<close>

theorem parsed_rows_match_their_headers:
  assumes "list_all not_notice (parse_diff output_text mode)" "length output_text \<le> u32_max"
  shows "hunk_rows_ok (parse_diff output_text mode)"
  using assms by (rule parse_diff_shape)

theorem parsed_rows_witness: "hunk_rows_ok (parse_diff [] HistoricalDiffRows)"
  by (rule parsed_rows_match_their_headers)
    (simp_all add: parse_diff_def str_lines_def finish_hunk_def utf8_valid.simps)

text \<open>C27: the share shown for a partly reviewed file lies between 1% and 100%, and is 100% exactly when
  no changed line is open.\<close>

theorem percent_is_100_only_when_nothing_is_open:
  assumes "hunks_count h = Some c"
    and "length (filter is_change_row (concat (map rh_rows (fh_reviewed h)))) +
      sum_list (map oh_changed_lines (fh_open h)) \<le> u32_max"
  shows "0 < percent c \<and> percent c \<le> 100 \<and> (percent c = 100 \<longleftrightarrow> (\<forall>o' \<in> set (fh_open h). oh_changed_lines o' = 0))"
proof -
  have fold: "n + sum_list ns \<le> u32_max \<Longrightarrow> foldl u32_add n ns = n + sum_list ns" for n ns
    by (induction ns arbitrary: n) (auto simp: u32_add_def u32_max_def)
  let ?r = "length (filter is_change_row (concat (map rh_rows (fh_reviewed h))))"
  let ?o = "sum_list (map oh_changed_lines (fh_open h))"
  have "foldl u32_add 0 (map oh_changed_lines (fh_open h)) = ?o" using fold [of 0] assms(2) by simp
  moreover have "u32_saturate ?r = ?r" using assms(2) by (simp add: u32_saturate_def)
  ultimately have c: "0 < ?r" "lc_reviewed c = ?r" "lc_total c = ?r + ?o"
    using assms by (auto simp: hunks_count_def Let_def u32_saturating_add_def split: if_splits)
  have le: "lc_reviewed c \<le> lc_total c" "lc_total c \<le> u32_max" using c assms(2) by simp_all
  have "?o = 0 \<longleftrightarrow> (\<forall>o' \<in> set (fh_open h). oh_changed_lines o' = 0)" by simp
  then show ?thesis using percent_0_iff [OF le] percent_le [OF le] percent_100_iff [OF le] c by auto
qed

definition half_reviewed :: file_hunks where
  "half_reviewed = \<lparr>fh_open = [\<lparr>oh_span = first_hunk, oh_since_review = False, oh_changed_lines = 1\<rparr>],
     fh_reviewed = [\<lparr>rh_span = first_hunk, rh_rows = [Add 1 ''+b'']\<rparr>]\<rparr>"

theorem percent_witness: "\<exists>c. hunks_count half_reviewed = Some c \<and> percent c \<noteq> 100"
proof -
  obtain c where c: "hunks_count half_reviewed = Some c"
    by (simp add: hunks_count_def half_reviewed_def is_change_row_def u32_saturate_def)
  with percent_is_100_only_when_nothing_is_open [OF c] show ?thesis
    by (auto simp: half_reviewed_def is_change_row_def)
qed

text \<open>A path is displayed on one line of printable characters, whatever bytes it has.\<close>

theorem displayed_paths_are_printable:
  "list_all printable (path_display p) \<and> nl \<notin> set (path_display p)"
  using printable_path_display path_display_one_line by blast

text \<open>Numbering lines across the changes between two versions: a line has a number on the other side
  exactly when no change replaces it; it reads the same there, and is found back from there.\<close>

theorem line_numbers_go_over_and_back:
  assumes "line_diff D" "length (lines_new old) \<le> u32_max" "length (lines_new new) \<le> u32_max" "l < length (lines_new old)"
  shows "case after_line (D old new) l of
      None \<Rightarrow> \<exists>c \<in> set (D old new). in_range (before c) l
    | Some m \<Rightarrow> m < length (lines_new new) \<and> lines_new new ! m = lines_new old ! l \<and>
        before_line (D old new) m = Some l \<and> (\<forall>c \<in> set (D old new). \<not> in_range (before c) l)"
  using after_line_None_iff [OF line_diff_script [OF assms(1)] assms(3,2,4)]
    after_line_SomeD [OF line_diff_script [OF assms(1)] assms(3,2,4)]
  by (auto split: option.splits)

theorem line_numbers_witness: "after_line (trim_diff v_base v_reviewed) 1 = Some 1"
proof -
  have "\<not> (\<exists>c \<in> set (trim_diff v_base v_reviewed). in_range (before c) 1)" by (simp add: in_range_def)
  then show ?thesis
    using line_numbers_go_over_and_back [OF line_diff_trim_diff, of v_base v_reviewed 1]
    by (auto simp: less_Suc_eq numeral_2_eq_2 nl_char split: option.splits)
qed

text \<open>C28: a hunk that is listed as reviewed, with lines in the current file, can be reopened exactly when the
  current file deleted no lines directly before or after it: forwards a deletion only touches its own
  lines, backwards its empty place on the current side counts as meeting the hunk.\<close>

theorem reviewed_hunks_reopen_unless_beside_a_deletion:
  assumes "line_diff D" "length (lines_new (hr_current hr)) \<le> u32_max" "length (lines_new (hr_reviewed hr)) \<le> u32_max"
    and "h \<in> set (fh_reviewed (hunks D hr rows age))" "fst (sp_new (rh_span h)) < snd (sp_new (rh_span h))"
  shows "unreview D hr (rh_span h) = None \<longleftrightarrow>
    (\<exists>c \<in> set (D (hr_reviewed hr) (hr_current hr)).
       range_empty (after c) \<and> (fst (after c) = fst (sp_new (rh_span h)) \<or> fst (after c) = snd (sp_new (rh_span h))))"
proof -
  let ?cs = "D (hr_reviewed hr) (hr_current hr)" and ?new = "sp_new (rh_span h)"
  note script = line_diff_script [OF assms(1), of "hr_reviewed hr" "hr_current hr"]
  have "h \<in> set (reviewed_hunks hr (D (hr_base hr) (hr_reviewed hr)) ?cs)"
    using assms(4) by (simp add: hunks_def Let_def no_hunks_def split: if_splits)
  from reviewed_hunk_moved [OF assms(1-3) this] obtain r where
    r: "fst r \<le> snd r" "snd r \<le> length (lines_new (hr_reviewed hr))" "translate (forward ?cs) r = Some ?new"
    and old: "fst (sp_old (rh_span h)) \<le> snd (sp_old (rh_span h))" "snd (sp_old (rh_span h)) \<le> length (lines_new (hr_base hr))"
    by blast
  have new: "fst ?new \<le> snd ?new" "snd ?new \<le> length (lines_new (hr_current hr))"
    using translate_SomeD [OF script assms(2,3) r] by simp_all
  have "overlaps (after c) ?new \<longleftrightarrow> range_empty (after c) \<and> (fst (after c) = fst ?new \<or> fst (after c) = snd ?new)"
    if c: "c \<in> set ?cs" for c
  proof -
    have "fst (after c) \<le> snd (after c)"
      using script_from_after_ge [of 0 0 _ _ ?cs c] script c by (simp add: edit_script_def)
    with translate_beside [OF script r(1,3) c] assms(5) show ?thesis
      by (auto simp: overlaps_def range_empty_def)
  qed
  then show ?thesis
    unfolding unreview_None_iff [OF assms(1,3,2) new old] by blast
qed

theorem beside_a_deletion_witness:
  "\<exists>h \<in> set (fh_reviewed (hunks trim_diff stuck_sample [] CurrentMark)). unreview trim_diff stuck_sample (rh_span h) = None"
proof -
  have "map rh_span (fh_reviewed (hunks trim_diff stuck_sample [] CurrentMark)) = [\<lparr>sp_old = (2, 2), sp_new = (1, 2)\<rparr>]"
    by (simp add: hunks_def Let_def reviewed_hunks_def reviewed_step_def place_def joins_def translate_def forward_def
        overlaps_def range_empty_def shift_by_def u32_of_int_def u32_max_def hunk_of_group_def list_of_option_def)
  then obtain h where h: "h \<in> set (fh_reviewed (hunks trim_diff stuck_sample [] CurrentMark))"
    "rh_span h = \<lparr>sp_old = (2, 2), sp_new = (1, 2)\<rparr>"
    by (cases "fh_reviewed (hunks trim_diff stuck_sample [] CurrentMark)") auto
  from reviewed_hunks_reopen_unless_beside_a_deletion [OF line_diff_trim_diff _ _ h(1)] h show ?thesis
    by (intro bexI [OF _ h(1)]) (simp add: range_empty_def)
qed

end
