(* ===== verification/ThreadProperties.thy ===== *)
theory ThreadProperties
  imports ThreadMerge Drafts HunkProperties
begin

text \<open>
  The properties of review conversations (crates/review-threads, crates/review-source): what posting,
  answering, reading and merging make of a book of threads, and where an anchored thread lands in a
  later version of its file. The examples use a small book with one comment on a sample file.
\<close>

section \<open>A small book\<close>

definition anchor_here :: diff_range_anchor where
  "anchor_here = \<lparr>an_checkpoint = ''c'', an_old_path = None, an_new_path = Some ''f'', an_old_lines = None,
     an_new_lines = Some (0, 1), an_kind = AnchorLines, an_hunk_count = 0, an_old_content = None,
     an_new_content = Some v_reviewed, an_diff_hash = ''h''\<rparr>"

definition first_post :: post where
  "first_post = from_tab ''tab'' (start_post ''t'' ''m'' anchor_here ''b'' ''why?'')"

definition first_comment :: message where
  "first_comment = (reviewer_message ''m'' ''why?'')\<lparr>ms_from_tab := Some ''tab'', ms_posted_at := Some 7, ms_sequence := 1\<rparr>"

definition first_thread :: review_thread where
  "first_thread = new_thread ''t'' (Code \<lparr>ts_anchor = anchor_here, ts_excerpt = ''b''\<rparr>) first_comment"

definition first_book :: review_threads where
  "first_book = (book_new ''u'')\<lparr>rt_threads := [first_thread], rt_sequence := 1\<rparr>"

definition first_answer :: post where
  "first_answer = answer_post ''t'' ''r'' ''because'' ''m''"

lemmas message_defs = reviewer_message_def agent_message_def stamp_posting_def from_tab_def start_post_def
  agent_reply_def answer_post_def new_thread_def book_new_def

lemmas lookup_defs = book_message_def thread_for_message_def book_thread_def book_messages_def

lemmas first_defs = first_post_def first_comment_def first_thread_def first_book_def first_answer_def

lemma post_first: "post_message 7 (book_new ''u'') first_post = Inr (''m'', first_book)"
  by (simp add: post_message_def append_post_def first_defs message_defs lookup_defs u64_checked_add_def u64_max_def)

lemma first_book_ok: "book_ok first_book"
  using book_ok_post [OF book_ok_new post_first] .

lemma answer_first:
  "answer 9 first_book first_answer = Inr (''r'', first_book
     \<lparr>rt_threads := [first_thread\<lparr>th_messages := [first_comment,
        (agent_message ''r'' ''because'')\<lparr>ms_in_reply_to := Some ''m'', ms_posted_at := Some 9, ms_sequence := 2\<rparr>]\<rparr>],
      rt_sequence := 2, rt_answered := [''t'' \<mapsto> 1]\<rparr>)"
  by (simp add: answer_def answered_through_def post_message_def append_post_def first_defs message_defs lookup_defs
      u64_checked_add_def u64_max_def receive_def thread_round_def position_in_def)

lemma replies_ok_first: "replies_ok first_book"
  by (simp add: replies_ok_def first_defs message_defs)

section \<open>The books the operations build\<close>

inductive built :: "review_threads \<Rightarrow> bool" where
  built_new: "built (book_new unit)"
| built_post: "built rt \<Longrightarrow> post_message now rt p = Inr (i, rt') \<Longrightarrow> built rt'"
| built_answer: "built rt \<Longrightarrow> answer now rt p = Inr (i, rt') \<Longrightarrow> built rt'"
| built_resolve: "built rt \<Longrightarrow> set_resolution i r rt = Inr rt' \<Longrightarrow> built rt'"
| built_read: "built rt \<Longrightarrow> mark_read i n rt = Inr rt' \<Longrightarrow> built rt'"
| built_read_replies: "built rt \<Longrightarrow> built (mark_replies_read ids rt)"
| built_merge: "built rt \<Longrightarrow> built other \<Longrightarrow> merge_books rt other = Inr rt' \<Longrightarrow> built rt'"

text \<open>C29: in every book that posting, answering, resolving, reading and merging build, thread identities,
  message identities and sequence numbers are used once, each thread lists its messages in the order of
  their numbers, and no number or position passes the book's counter, which stays a \<open>u64\<close>.\<close>

theorem built_books_are_in_order:
  assumes "built rt"
  shows "book_ok rt"
  using assms
  by induction (blast intro: book_ok_new book_ok_post book_ok_answer book_ok_set_resolution book_ok_mark_read
      book_ok_mark_replies_read book_ok_merge)+

theorem built_books_witness: "book_ok first_book"
  using built_books_are_in_order [OF built_post [OF built_new post_first]] .

section \<open>Posting and answering\<close>

text \<open>C20: a message that was posted is in its thread, posting it again answers the same identity and
  changes nothing, whatever the clock says, and no message of the book is lost or rewritten.\<close>

theorem posting_is_idempotent:
  assumes "book_ok rt" "post_message now rt p = Inr (i, rt')"
  shows "post_message later rt' p = Inr (i, rt') \<and>
    (\<exists>t \<in> set (rt_threads rt'). th_id t = po_thread p \<and>
      (\<exists>m \<in> set (th_messages t). same_content m (po_message p) \<and> ms_id m = i)) \<and>
    set (book_messages rt) \<subseteq> set (book_messages rt') \<and>
    set (book_messages rt') \<subseteq> insert (posted_message now rt p) (set (book_messages rt))"
proof -
  obtain t m where "t \<in> set (rt_threads rt')" "m \<in> set (th_messages t)" "th_id t = po_thread p"
    "same_content m (po_message p)" using posted_in_thread [OF assms] .
  moreover from this(4) post_message_id [OF assms(2)] have "ms_id m = i" by (simp add: same_content_def)
  ultimately show ?thesis using post_again [OF assms] post_message_keeps [OF assms(2)] by blast
qed

theorem posting_is_idempotent_witness:
  "post_message 8 first_book first_post = Inr (''m'', first_book)"
  using posting_is_idempotent [OF book_ok_new post_first, of 8] by blast

text \<open>C21: an answer acknowledges the comment it replies to and the comments before it, and no later
  one: its thread still waits for the agent exactly when it waited and a comment followed the one the agent
  read. Answering again with the same reply changes nothing.\<close>

theorem answering_acknowledges_what_was_read:
  assumes "book_ok rt" "replies_ok rt" "answer now rt p = Inr (i, rt')"
  shows "answer later rt' p = Inr (i, rt') \<and>
    (\<exists>t t' c. book_thread rt (po_thread p) = Some t \<and> book_thread rt' (po_thread p) = Some t' \<and>
      c \<in> set (th_messages t) \<and> ms_author c = FromReviewer \<and> ms_in_reply_to (po_message p) = Some (ms_id c) \<and>
      (\<forall>m \<in> set (th_messages t). is_answered t' m \<longleftrightarrow> is_answered t m \<or> ms_sequence m \<le> ms_sequence c) \<and>
      (pending rt' t' \<longleftrightarrow> pending rt t \<and> (\<exists>l. last_comment t = Some l \<and> ms_sequence c < ms_sequence l)))"
proof -
  obtain t t' c where a: "book_thread rt (po_thread p) = Some t" "book_thread rt' (po_thread p) = Some t'"
    "c \<in> set (th_messages t)" "ms_author c = FromReviewer" "ms_in_reply_to (po_message p) = Some (ms_id c)"
    "pending rt' t' \<longleftrightarrow> pending rt t \<and> (\<exists>l. last_comment t = Some l \<and> ms_sequence c < ms_sequence l)"
    using pending_after_answer [OF assms(1,3,2)] .
  obtain u u' d where b: "book_thread rt (po_thread p) = Some u" "book_thread rt' (po_thread p) = Some u'"
    "d \<in> set (th_messages u)" "ms_in_reply_to (po_message p) = Some (ms_id d)"
    "\<And>m. m \<in> set (th_messages u) \<Longrightarrow> is_answered u' m \<longleftrightarrow> is_answered u m \<or> ms_sequence m \<le> ms_sequence d"
    using answer_thread [OF assms(1,3,2)] by metis
  have "ms_id d = ms_id c" "u = t" "u' = t'" using a b by simp_all
  moreover have "c \<in> set (book_messages rt)" "d \<in> set (book_messages rt)"
    using a(1,3) b(1,3) book_thread_SomeD by (auto simp: in_book_messages)
  ultimately have "d = c" using book_ok_same_id [OF assms(1)] by blast
  with a b \<open>u = t\<close> \<open>u' = t'\<close> answer_again [OF assms(1,3)] show ?thesis by blast
qed

theorem answering_witness:
  "\<exists>rt'. answer 11 rt' first_answer = Inr (''r'', rt') \<and> (\<exists>t'. book_thread rt' ''t'' = Some t' \<and> \<not> pending rt' t')"
proof -
  note ans = answering_acknowledges_what_was_read [OF first_book_ok replies_ok_first answer_first, of 11]
  have thread: "po_thread first_answer = ''t''" "ms_in_reply_to (po_message first_answer) = Some ''m''"
    by (simp_all add: first_defs message_defs)
  have "book_thread first_book ''t'' = Some first_thread" "last_comment first_thread = Some first_comment"
    "set (th_messages first_thread) = {first_comment}"
    by (simp_all add: book_thread_def last_comment_def first_defs message_defs)
  with ans thread show ?thesis by auto
qed

text \<open>a new comment in an open thread, or in any conversation of a round, waits for the agent: its
  thread is pending, and pending for the agent of the tab it was posted from.\<close>

theorem new_comments_wait_for_their_agent:
  assumes "book_ok rt" "replies_ok rt" "post_message now rt p = Inr (i, rt')" "rt' \<noteq> rt"
    and "ms_author (po_message p) = FromReviewer" "ms_in_reply_to (po_message p) = None"
    and "\<forall>t. book_thread rt (po_thread p) = Some t \<longrightarrow> th_resolution t = OpenThread \<or> thread_round t \<noteq> None"
  shows "\<exists>t \<in> set (new_messages rt'). th_id t = po_thread p \<and> last_comment t = Some (posted_message now rt p) \<and>
    (\<forall>rc. ms_from_tab (po_message p) = Some (rc_tab rc) \<longrightarrow> t \<in> set (new_messages_for rt' rc))"
proof -
  obtain t where t: "book_thread rt' (po_thread p) = Some t" "pending rt' t"
    "last_comment t = Some (posted_message now rt p)"
    "\<And>rc. ms_from_tab (po_message p) = Some (rc_tab rc) \<Longrightarrow> pending_for rt' rc t"
    by (rule posted_comment_pending [OF assms]) blast
  with book_thread_SomeD [OF t(1)] show ?thesis
    by (auto simp: new_messages_def new_messages_for_def intro!: bexI [of _ t])
qed

theorem new_comments_witness:
  "\<exists>t \<in> set (new_messages first_book). th_id t = ''t'' \<and>
     (\<forall>retried. t \<in> set (new_messages_for first_book \<lparr>rc_tab = ''tab'', rc_retried = retried\<rparr>))"
proof -
  have p: "po_thread first_post = ''t''" "ms_author (po_message first_post) = FromReviewer"
    "ms_in_reply_to (po_message first_post) = None" "ms_from_tab (po_message first_post) = Some ''tab''"
    by (simp_all add: first_defs message_defs)
  have new: "first_book \<noteq> book_new ''u''" "replies_ok (book_new ''u'')" "book_thread (book_new ''u'') ''t'' = None"
    by (simp_all add: first_defs message_defs replies_ok_def book_thread_def)
  from new_comments_wait_for_their_agent [OF book_ok_new new(2) post_first new(1)] p new(3)
  show ?thesis by fastforce
qed

section \<open>Reading\<close>

text \<open>Marking a thread read through a number, or some replies read by identity, leaves unread
  exactly the replies after that number, or the other ones, and no message changes.\<close>

theorem reading_leaves_the_other_replies_unread:
  assumes "book_ok rt" "book_thread rt i = Some t" "mark_read i n rt = Inr rt'"
  shows "\<exists>t' u. book_thread rt' i = Some t' \<and> th_messages t' = th_messages t \<and>
    unread_replies t' = filter (\<lambda>m. n < ms_sequence m) (unread_replies t) \<and>
    book_thread (mark_replies_read ids rt') i = Some u \<and>
    unread_replies u = filter (\<lambda>m. ms_id m \<notin> set ids) (unread_replies t')"
proof -
  obtain t' where t': "book_thread rt' i = Some t'" "th_messages t' = th_messages t"
    "unread_replies t' = filter (\<lambda>m. n < ms_sequence m) (unread_replies t)"
    using unread_mark_read [OF assms] by blast
  have "th_id (read_replies ids t) = th_id t" for t
    unfolding read_replies_def by (induction ids arbitrary: t) simp_all
  then have "book_thread (mark_replies_read ids rt') i = Some (read_replies ids t')"
    using t'(1) by (simp add: book_thread_def mark_replies_read_def find_map)
  with t' unread_read_replies show ?thesis by blast
qed

theorem reading_witness:
  "\<exists>t'. book_thread first_book ''t'' = Some t' \<and> th_messages t' = [first_comment] \<and>
     unread_replies t' = filter (\<lambda>m. 1 < ms_sequence m) (unread_replies first_thread)"
proof -
  let ?rt' = "first_book\<lparr>rt_threads := [first_thread\<lparr>th_seen_through := 1\<rparr>]\<rparr>"
  have "mark_read ''t'' 1 first_book = Inr ?rt'" "book_thread first_book ''t'' = Some first_thread"
    "book_thread ?rt' ''t'' = Some (first_thread\<lparr>th_seen_through := 1\<rparr>)"
    "unread_replies (first_thread\<lparr>th_seen_through := 1\<rparr>) = unread_replies first_thread"
    "th_messages first_thread = [first_comment]"
    by (simp_all add: mark_read_def book_thread_def first_defs message_defs unread_replies_def)
  with reading_leaves_the_other_replies_unread [OF first_book_ok this(2,1)] show ?thesis by auto
qed

section \<open>Merging\<close>

text \<open>C19: merging the book that another process wrote is settled at once: merging the same book again
  changes nothing, and no message of either book is lost.\<close>

theorem merging_is_idempotent:
  assumes "book_ok rt" "book_ok other" "merge_books rt other = Inr rt'"
  shows "merge_books rt' other = Inr rt' \<and> set (book_messages rt) \<subseteq> set (book_messages rt') \<and>
    ms_id ` set (book_messages other) \<subseteq> ms_id ` set (book_messages rt')"
  using merge_again [OF assms] merged_message [OF assms] merged_ids [OF assms] by blast

lemma merge_first: "merge_books (book_new ''u'') first_book = Inr first_book"
  by (simp add: merge_books_def arriving_messages_def number_step_def u64_checked_add_def u64_max_def
      known_sequences_def first_defs message_defs lookup_defs merge_thread_def arrived_messages_def translate_position_def
      max_of_def merged_sequence_def)

theorem merging_witness: "merge_books first_book first_book = Inr first_book"
  using merging_is_idempotent [OF book_ok_new first_book_ok merge_first] by blast

text \<open>A thread that only the other book has arrives whole, in its order, and waits for the agent
  exactly when it did in the other book, although its messages are numbered anew.\<close>

theorem a_new_thread_arrives_whole:
  assumes "book_ok rt" "book_ok other" "merge_books rt other = Inr rt'"
    and "t \<in> set (rt_threads other)" "book_thread rt (th_id t) = None" "rt_answered rt (th_id t) = None"
    and "ms_id ` set (th_messages t) \<inter> ms_id ` set (book_messages rt) = {}"
  shows "\<exists>t'. book_thread rt' (th_id t) = Some t' \<and> map ms_id (th_messages t') = map ms_id (th_messages t) \<and>
    th_subject t' = th_subject t \<and> th_resolution t' = th_resolution t \<and> (pending rt' t' \<longleftrightarrow> pending other t)"
proof -
  obtain f where f: "book_thread rt' (th_id t) = Some (renumbered_thread f t)"
    "pending rt' (renumbered_thread f t) \<longleftrightarrow> pending other t"
    using merge_new_thread [OF assms] .
  moreover have "map ms_id (th_messages (renumbered_thread f t)) = map ms_id (th_messages t)"
    "th_subject (renumbered_thread f t) = th_subject t"
    by (simp_all add: renumbered_thread_def comp_def)
  ultimately show ?thesis by auto
qed

theorem new_thread_witness:
  "\<exists>t'. book_thread first_book ''t'' = Some t' \<and> (pending first_book t' \<longleftrightarrow> pending first_book first_thread)"
proof -
  have "first_thread \<in> set (rt_threads first_book)" "book_thread (book_new ''u'') (th_id first_thread) = None"
    "rt_answered (book_new ''u'') (th_id first_thread) = None"
    "ms_id ` set (th_messages first_thread) \<inter> ms_id ` set (book_messages (book_new ''u'')) = {}" "th_id first_thread = ''t''"
    by (simp_all add: first_defs message_defs lookup_defs)
  with a_new_thread_arrives_whole [OF book_ok_new first_book_ok merge_first this(1-4)] show ?thesis by auto
qed

section \<open>Drafts\<close>

text \<open>C30: posting a saved draft takes that draft, and no other unposted one, out of the saved drafts, and
  it cannot be saved again, whatever is posted and answered afterwards.\<close>

theorem a_posted_draft_is_gone:
  assumes "book_ok rt" "post_message now rt (draft_post d) = Inr (i, rt')"
    and "fold_opt (\<lambda>b (now, p). case post_message now b p of Inr (i, b') \<Rightarrow> Some b' | Inl _ \<Rightarrow> None) rt' later = Some rt''"
    and "\<forall>t. dr_target d = DraftThread t \<longrightarrow> book_thread rt'' t \<noteq> None"
  shows "forget_posted rt' ds = filter (\<lambda>e. dr_id e \<noteq> dr_id d) (forget_posted rt ds) \<and>
    d \<notin> set (forget_posted rt'' ds) \<and> save_draft d rt'' ds = Inl AlreadyPosted"
proof -
  have "book_message rt' (dr_id d) \<noteq> None"
    using posting.publish_known [OF assms(1,2)] by simp
  then have "book_message rt'' (dr_id d) \<noteq> None"
    using posting.forgotten_stays [OF book_ok_post [OF assms(1,2)] _ assms(3)] by blast
  with assms(4) forget_posted_draft [OF assms(1,2)] show ?thesis
    by (auto simp: save_draft_def forget_posted_def split: draft_target.splits)
qed

definition first_draft :: draft where
  "first_draft = (start_draft ''m'' ''t'' ''f'' \<lparr>ts_anchor = anchor_here, ts_excerpt = ''b''\<rparr>)\<lparr>dr_text := ''why?''\<rparr>"

theorem posted_draft_witness:
  "\<exists>rt'. post_message 7 (book_new ''u'') (draft_post first_draft) = Inr (''m'', rt') \<and>
     forget_posted rt' [first_draft] = [] \<and> save_draft first_draft rt' [] = Inl AlreadyPosted"
proof -
  obtain rt' where post: "post_message 7 (book_new ''u'') (draft_post first_draft) = Inr (''m'', rt')"
    by (simp add: post_message_def append_post_def draft_post_def first_draft_def start_draft_def is_new_thread_def
        message_defs lookup_defs u64_checked_add_def u64_max_def)
  have "\<forall>t. dr_target first_draft = DraftThread t \<longrightarrow> book_thread rt' t \<noteq> None"
    by (simp add: first_draft_def start_draft_def)
  note gone = a_posted_draft_is_gone [OF book_ok_new post fold_opt.simps(1) this]
  have "forget_posted rt' [first_draft] = []"
    using gone [of "[first_draft]"] by (simp add: forget_posted_def)
  with gone [of "[]"] post show ?thesis by blast
qed

section \<open>Anchored threads in a later version\<close>

text \<open>C31: the lines a thread is anchored to are found again in a later version exactly when no edit
  meets them; they are then as many lines that read the same.\<close>

theorem anchored_lines_are_found_again:
  assumes "line_diff H" "an_new_lines a = Some (s, e)" "an_new_content a = Some old" "s \<le> e"
    and "e \<le> length (lines_new old)" "length (lines_new old) \<le> u32_max" "length (lines_new new) \<le> u32_max"
  shows "case map_new_lines H a new of
      None \<Rightarrow> \<exists>c \<in> set (H old new). \<not> apart (before c) (s, e)
    | Some (s', e') \<Rightarrow> (\<forall>c \<in> set (H old new). apart (before c) (s, e)) \<and> e' = s' + (e - s) \<and>
        e' \<le> length (lines_new new) \<and> slice (lines_new new) s' e' = slice (lines_new old) s e"
proof -
  have "edit_script (lines_new old) (lines_new new) (H old new)" using assms(1,6,7) by (simp add: line_diff_def)
  from transform_interval_script [OF this assms(7,6), of "(s, e)"] assms(2-5) show ?thesis
    by (auto simp: map_new_lines_def map_side_def split: option.splits)
qed

theorem anchored_lines_witness:
  "case map_new_lines trim_diff anchor_here v_current of
      None \<Rightarrow> False
    | Some (s', e') \<Rightarrow> slice (lines_new v_current) s' e' = [[CHR ''b'', nl]]"
  using anchored_lines_are_found_again [OF line_diff_trim_diff, of anchor_here 0 1 v_reviewed v_current]
  by (auto simp: anchor_here_def apart_def split: option.splits)

end
