(* ===== verification/ServiceProperties.thy ===== *)
theory ServiceProperties
  imports WakeupLaws ThreadProperties
begin

text \<open>
  The properties of the thread service (crates/review-thread-service) and of the store it works on
  (crates/review-store): what posting, serving an agent and waking it do, in every state that the
  worker reaches, and what the courier's queue and gate guarantee. The examples use an empty disk and one
  agent in the tab of the review pane.
\<close>

section \<open>A small world\<close>

definition faultless :: store_faults where
  "faultless = \<lparr>fl_threads_lock = Map.empty, fl_drafts_lock = Map.empty, fl_threads_write = Map.empty,
     fl_drafts_write = Map.empty, fl_threads_sync = Map.empty, fl_drafts_sync = Map.empty\<rparr>"

definition empty_disk :: disk where
  "empty_disk = \<lparr>dk_threads = Map.empty, dk_drafts = Map.empty, dk_faults = faultless\<rparr>"

definition some_agent :: agent where
  "some_agent = \<lparr>ag_pane = ''pane'', ag_tab = ''tab'', ag_workspace = ''w'', ag_name = None, ag_display = None,
     ag_agent = Some ''claude'', ag_status = StatusIdle, ag_session = None, ag_cwd = None\<rparr>"

definition some_port :: port where
  "some_port = \<lparr>pt_focused_pane = Inr (Some ''pane''), pt_agents = Inr [some_agent],
     pt_agent = (\<lambda>p. Inr (if p = ''pane'' then Some some_agent else None)), pt_process_group = (\<lambda>_. Inr (Some 7)),
     pt_prompt = (\<lambda>_ _. Inr ()), pt_submit = (\<lambda>_ _. Inr ())\<rparr>"

definition some_world :: world where
  "some_world = \<lparr>wd_port = some_port, wd_now = 7, wd_uuid = (\<lambda>n. replicate (Suc n) (CHR ''k'')), wd_flags = (\<lambda>_. (False, False))\<rparr>"

definition some_service :: service where
  "some_service = service_new empty_disk (target_new ''tab'' (Some ''pane'')) True False (\<lambda>_. pin_new some_agent)"

lemma empty_disk_ok: "disk_ok empty_disk"
  by (simp add: disk_ok_def empty_disk_def)

lemma some_service_reachable: "service_reachable some_service"
  unfolding some_service_def by (rule reach_start [OF empty_disk_ok])

lemma some_service_ok: "service_ok some_service"
  by (rule reachable_ok [OF some_service_reachable])

section \<open>The state of the service\<close>

text \<open>C22: in every state the worker reaches, each review has at most one access, an access stays
  bound to its agent, only loaded reviews have pending notifications and only accesses have wakeups, the
  books are in order; and no turn of the loop panics.\<close>

theorem the_service_stays_in_order:
  assumes "service_reachable sv"
  shows "service_ok sv \<and> service_turn W i sv \<noteq> Panicked"
  using reachable_ok [OF assms] turn_ok by blast

theorem service_in_order_witness: "service_turn some_world None some_service \<noteq> Panicked"
  using the_service_stays_in_order [OF some_service_reachable] by blast

text \<open>C17: a turn hands the courier first the waiting requests whose agent is known and that are not
  withdrawn, then wakeups: at most one for each access; each carries the prompt of the access that the
  service holds for its token and goes to the live agent of this tab that this access was granted to, in the same pane and with the
  same implementation, in the process group and the native session that the access is bound to; and each is settled, so
  that it is not sent again until the comments are requested anew.\<close>

theorem wakeups_go_once_to_the_granted_agent:
  assumes "service_reachable sv" "service_turn W i sv = Next sv'"
  shows "\<exists>qs ps. handed sv' = handed sv @ qs @ ps \<and> (\<forall>p \<in> set qs. begun_parcel (wd_flags W) p) \<and>
    distinct (map wake_token ps) \<and>
    (\<forall>p \<in> set ps. settled_wakeup W (tg_tab (sv_target sv)) sv' p \<and>
       (\<exists>w. map_of (sv_wakeups sv') (wake_token p) = Some w \<and> \<not> needs_poll w))"
proof -
  obtain qs ps where "handed sv' = handed sv @ qs @ ps" "\<forall>p \<in> set qs. begun_parcel (wd_flags W) p"
    "distinct (map wake_token ps)" "\<forall>p \<in> set ps. settled_wakeup W (tg_tab (sv_target sv)) sv' p"
    using turn_handed [OF reachable_ok [OF assms(1)] assms(2)] by blast
  then show ?thesis by (intro exI [of _ qs] exI [of _ ps]) (auto simp: settled_wakeup_def needs_poll_def)
qed

lemma poll_without_notifications:
  assumes "service_ok sv" "sv_notifications sv = []" "poll W sv = Some sv'"
  shows "\<exists>qs ps. handed sv' = handed sv @ qs @ ps \<and> (\<forall>p \<in> set qs. begun_parcel (wd_flags W) p) \<and>
    wake_token ` set ps \<subseteq> fst ` set (sv_wakeups sv) \<and>
    (\<forall>t. t \<notin> fst ` set (sv_wakeups sv) \<longrightarrow> map_of (sv_wakeups sv') t = None)"
proof -
  let ?sv = "sv\<lparr>sv_outbox := poll_queue (wd_port W) (wd_flags W) (sv_courier_runs sv) (sv_outbox sv)\<rparr>"
  obtain qs where qs: "handed ?sv = handed sv @ qs" "\<forall>p \<in> set qs. begun_parcel (wd_flags W) p"
    using poll_queue_handed by (fastforce simp: handed_def)
  let ?ts = "map fst (filter (\<lambda>(_, w). needs_poll w) (sv_wakeups sv))"
  have sv': "sv' = foldl (poll_wakeup W) ?sv ?ts" using assms(2,3) by (simp add: poll_def Let_def)
  have "service_ok ?sv" "distinct ?ts" using assms(1) by (simp_all add: service_ok_def marks_ok_def distinct_map_filter)
  from poll_wakeups_handed [OF this, of W] obtain ps where ps: "handed sv' = handed ?sv @ ps" "wake_token ` set ps \<subseteq> set ?ts"
    and others: "\<forall>t. t \<notin> set ?ts \<longrightarrow> map_of (sv_wakeups sv') t = map_of (sv_wakeups sv) t"
    unfolding sv' by auto
  have "map_of (sv_wakeups sv') t = None" if t: "t \<notin> fst ` set (sv_wakeups sv)" for t
  proof -
    from t have "t \<notin> set ?ts" "map_of (sv_wakeups sv) t = None" by (auto simp: map_of_eq_None_iff)
    with others show ?thesis by simp
  qed
  with ps qs show ?thesis by (intro exI [of _ qs] exI [of _ ps]) auto
qed

text \<open>C32: a wakeup that failed is not sent again by itself: unless a comment was scheduled meanwhile, the turn
  that learns of the failure drops the wakeup, reports the failure with the comments it covered, and hands the courier no wakeup for that
  access.\<close>

theorem failed_wakeups_are_not_resent:
  assumes "service_reachable sv" "map_of (sv_wakeups sv) t = Some w" "unchanged_since n w" "sv_notifications sv = []"
    and "service_turn W (Some (Notified t n (Inl e))) sv = Next sv'"
  shows "map_of (sv_wakeups sv') t = None \<and>
    (\<exists>ps. handed sv' = handed sv @ ps \<and> (\<forall>p \<in> set ps. \<not> (is_wakeup p \<and> wake_token p = t))) \<and>
    (\<exists>ac. map_of (sv_access sv) t = Some ac \<and>
       WakeupEvent (ac_review_unit ac) (Some \<lparr>wf_through = n, wf_error = prompt_error_text e\<rparr>) \<in>
         set (sv_events (notified t n (Inl e) sv)))"
proof -
  have ok: "service_ok sv" by (rule reachable_ok [OF assms(1)])
  let ?sv = "notified t n (Inl e) sv"
  have "map_of (sv_access sv) t \<noteq> None" using ok assms(2) by (auto simp: service_ok_def marks_ok_def covers_def)
  then obtain ac where ac: "map_of (sv_access sv) t = Some ac" by blast
  with assms(2,3) have fields: "sv_wakeups ?sv = AList.delete t (sv_wakeups sv)" "sv_notifications ?sv = []" "handed ?sv = handed sv"
    "WakeupEvent (ac_review_unit ac) (Some \<lparr>wf_through = n, wf_error = prompt_error_text e\<rparr>) \<in> set (sv_events ?sv)"
    by (simp_all add: notified_def Let_def handed_def assms(4) unit_of_token_def) (simp add: report_wakeup_def)
  have "poll W ?sv = Some sv'" using assms(5) by (simp add: service_turn_def handle_def or_panic_def split: option.splits)
  from poll_without_notifications [OF notified_ok [OF ok] fields(2) this] obtain qs ps where
    ps: "handed sv' = handed sv @ qs @ ps" "\<forall>p \<in> set qs. begun_parcel (wd_flags W) p"
      "wake_token ` set ps \<subseteq> fst ` set (AList.delete t (sv_wakeups sv))"
    and gone: "\<forall>u. u \<notin> fst ` set (AList.delete t (sv_wakeups sv)) \<longrightarrow> map_of (sv_wakeups sv') u = None"
    unfolding fields by blast
  have "t \<notin> fst ` set (AList.delete t (sv_wakeups sv))" by (simp flip: map_of_eq_None_iff)
  moreover have "\<not> is_wakeup p" if "begun_parcel (wd_flags W) p" for p using that by (auto simp: begun_parcel_def is_wakeup_def)
  ultimately have "\<exists>ps. handed sv' = handed sv @ ps \<and> (\<forall>p \<in> set ps. \<not> (is_wakeup p \<and> wake_token p = t))"
    using ps by (intro exI [of _ "qs @ ps"]) (auto simp: image_subset_iff)
  with gone \<open>t \<notin> fst ` set (AList.delete t (sv_wakeups sv))\<close> ac fields(4) show ?thesis by auto
qed

section \<open>Serving agents\<close>

text \<open>C12: an agent's call changes no thread, book or wakeup unless it carries a known access value and the
  live agent of that access's pane is still the one it was granted to: the same implementation in the same
  tab, in the process group the access is bound to, and in the native session it is bound to.\<close>

theorem only_the_granted_agent_is_served:
  assumes "service_reachable sv" "request W token op session sv = (r, sv')"
  shows "(\<exists>e. r = Inl e) \<and> sv_disk sv' = sv_disk sv \<and> sv_books sv' = sv_books sv \<and> sv_wakeups sv' = sv_wakeups sv \<or>
    (\<exists>ac a. map_of (sv_access sv) token = Some ac \<and> pt_agent (wd_port W) (ag_pane (ac_agent ac)) = Inr (Some a) \<and>
       ag_pane a = ag_pane (ac_agent ac) \<and> ag_tab a = ag_tab (ac_agent ac) \<and> ag_agent a = ag_agent (ac_agent ac) \<and>
       (\<forall>g. id_process_group (ac_identity ac) = Some g \<longrightarrow> process_group (wd_port W) (ag_pane a) = Inr g) \<and>
       (\<forall>s. id_session (ac_identity ac) = Bound s \<longrightarrow> ag_session a = Some s))"
proof (cases "map_of (sv_access sv) token")
  case None
  with assms(2) show ?thesis by (auto simp: request_def)
next
  case (Some ac)
  have ok: "access_ok ac" using service_access [OF reachable_ok [OF assms(1)] Some] by blast
  obtain x ac' where c: "access_current_agent (wd_port W) ac = (x, ac')" by fastforce
  show ?thesis
  proof (cases x)
    case (Inl e)
    with assms(2) Some c show ?thesis by (auto simp: request_def store_access_def)
  next
    case (Inr a)
    with c obtain i where a: "pt_agent (wd_port W) (ag_pane (ac_agent ac)) = Inr (Some a)"
      and same: "check (wd_port W) a (ac_identity ac) = Inr (SameAgent, i)"
      by (auto simp: access_current_agent_def matches_agent_def split: sum.splits option.splits prod.splits bool.splits)
    from check_same [OF same] ok a Some show ?thesis
      by (auto simp: access_ok_def Let_def same_session_def REVIEW_ACCESS_def)
  qed
qed

text \<open>C23: an access value serves one agent session for ever: along any history of live agents, those that
  match the access sit in its pane and tab, and all that report a native session report the same one; an
  access granted without a session stays in the process group it was granted to.\<close>

theorem an_access_serves_one_session:
  assumes "access_new uuid unit a P0 = Inr ac"
    and "pa \<in> set (matched (ac_identity ac) history)" "pb \<in> set (matched (ac_identity ac) history)"
  shows "ag_pane (snd pa) = ag_pane a \<and> ag_tab (snd pa) = ag_tab a \<and> ag_agent (snd pa) = ag_agent a \<and>
    (\<forall>s s'. ag_session (snd pa) = Some s \<longrightarrow> ag_session (snd pb) = Some s' \<longrightarrow> s = s') \<and>
    (ag_session a = None \<longrightarrow> process_group (fst pa) (ag_pane a) = process_group P0 (ag_pane a))"
proof -
  obtain i where i: "bind_process_without_session P0 (identity_new a REVIEW_ACCESS) = Inr i" "ac_identity ac = i"
    using assms(1) by (auto simp: access_new_def split: sum.splits)
  note bind = i(1)
  then have fields: "id_pane i = ag_pane a" "id_tab i = ag_tab a" "id_agent i = ag_agent a" "id_rules i = REVIEW_ACCESS"
    "\<forall>o'. id_session i \<noteq> Following o'"
    by (auto simp: bind_process_without_session_def identity_new_def split: if_splits sum.splits option.splits)
  from bind have group: "ag_session a = None \<Longrightarrow> \<exists>g. id_process_group i = Some g \<and> process_group P0 (ag_pane a) = Inr g"
    by (cases "process_group P0 (ag_pane a)") (auto simp: bind_process_without_session_def identity_new_def)
  have rules: "ir_session (id_rules i) = Exact" "ir_process (id_rules i) = KeptAfterSession"
    by (simp_all add: fields(4) REVIEW_ACCESS_def)
  have "process_group (fst pa) (ag_pane a) = process_group P0 (ag_pane a)" if "ag_session a = None"
    using group [OF that] matched_process [OF assms(2)[unfolded i(2)] rules(2)] fields(1) by auto
  with matched_place [OF assms(2)[unfolded i(2)]] matched_one_session [OF fields(5) rules(1) assms(2,3)[unfolded i(2)]] fields
  show ?thesis by metis
qed

section \<open>Posting\<close>

lemma undelivered_events: "ev \<in> set (sv_events sv) \<Longrightarrow> ev \<in> set (sv_events (undelivered u e sv))"
  by (auto simp: undelivered_def report_wakeup_def split: option.splits)

lemma undelivered_disk [simp]: "sv_disk (undelivered u e sv) = sv_disk sv"
  by (auto simp: undelivered_def report_wakeup_def split: option.splits)

lemma schedule_disk: "schedule u again sv = (r, sv') \<Longrightarrow> sv_disk sv' = sv_disk sv \<and> sv_events sv' = sv_events sv"
  by (auto simp: schedule_def split: if_splits)

lemma load_drafts_posted:
  assumes "fst (load_drafts unit dk) = Inr ds" "threads_on dk unit = Some rt" "d \<in> set ds"
  shows "book_message rt (dr_id d) = None"
proof -
  obtain x dk1 where x: "load_threads unit dk = (x, dk1)" by fastforce
  then have "x = Inr rt" using assms(2) by (simp add: threads_on_def split: sum.splits)
  with assms(1,3) x show ?thesis
    by (auto simp: load_drafts_def and_then_def reading_def forget_posted_def split: sum.splits)
qed

text \<open>What a command publishes comes after what was published before.\<close>

lemma report_events: "\<exists>es. sv_events (report r sv) = sv_events sv @ es"
  by (simp add: report_def split: sum.splits)

lemma drafts_events: "drafts_to_restore unit sv = (ds, sv') \<Longrightarrow> \<exists>es. sv_events sv' = sv_events sv @ es"
  by (auto simp: drafts_to_restore_def split: prod.splits sum.splits)

lemma update_book_events:
  assumes "update_book unit change sv = (r, sv')"
  shows "\<exists>es. sv_events sv' = sv_events sv @ es"
  using assms by (fastforce simp: update_book_def Let_def dest: drafts_events split: prod.splits sum.splits if_splits)

lemma update_saved_events: "update_saved_drafts unit f sv = (r, sv') \<Longrightarrow> sv_events sv' = sv_events sv"
  by (auto simp: update_saved_drafts_def split: prod.splits sum.splits)

lemma undelivered_published: "\<exists>es. sv_events (undelivered u e sv) = sv_events sv @ es"
  by (auto simp: undelivered_def report_wakeup_def split: option.splits)

text \<open>After the book took the comment: the drafts, the announcements and the schedule leave the threads.\<close>

lemma posted_rest:
  assumes "service_ok sv1" "update_saved_drafts unit (\<lambda>ds _. Inr ds) sv1 = (f, sv2)"
    and "sv4 = (case round of Some rd \<Rightarrow> publish (RoundMessage unit rd m) (publish (Posted unit m r) (report f sv2))
      | None \<Rightarrow> publish (Posted unit m r) (report f sv2))"
    and "sv' = (case schedule unit False sv4 of (Inl e, sv) \<Rightarrow> undelivered (Some unit) e sv | (Inr _, sv) \<Rightarrow> sv)"
  shows "threads_on (sv_disk sv') = threads_on (sv_disk sv1) \<and>
    (\<exists>es. sv_events sv' = sv_events sv1 @ es \<and> Posted unit m r \<in> set es)"
proof -
  obtain y sv5 where y: "schedule unit False sv4 = (y, sv5)" by fastforce
  obtain es where es: "sv_events (report f sv2) = sv_events sv1 @ es"
    using report_events [of f sv2] update_saved_events [OF assms(2)] by auto
  then have "\<exists>es. sv_events sv4 = sv_events sv1 @ es \<and> Posted unit m r \<in> set es"
    unfolding assms(3) by (auto split: option.splits)
  moreover have "\<exists>es. sv_events sv' = sv_events sv4 @ es"
  proof (cases y)
    case (Inl e)
    with undelivered_published [of "Some unit" e sv5] schedule_disk [OF y] assms(4) y show ?thesis by simp
  qed (use schedule_disk [OF y] assms(4) y in simp)
  ultimately have "\<exists>es. sv_events sv' = sv_events sv1 @ es \<and> Posted unit m r \<in> set es" by fastforce
  moreover have "sv_disk (report f sv2) = sv_disk sv2" by (simp add: report_def split: sum.splits)
  then have "sv_disk sv' = sv_disk sv2"
    using schedule_disk [OF y] assms(3,4) y by (cases y) (simp_all split: option.splits)
  ultimately show ?thesis using update_saved_drafts_ok [OF assms(1,2)] by simp
qed

text \<open>Posting a comment: the book of the review takes it and it is announced, or its failure is announced.\<close>

lemma post_comment_cases:
  fixes now :: nat and unit :: bytes and comment :: post and sv :: service
  defines "p \<equiv> from_tab (tg_tab (sv_target sv)) comment"
  assumes ok: "service_ok sv"
  obtains (refused) e sv' es where "post_comment now unit comment sv = Some sv'" "threads_on (sv_disk sv') = threads_on (sv_disk sv)"
      "sv_events sv' = sv_events sv @ es" "Posted unit (ms_id (po_message p)) (Inl e) \<in> set es"
    | (unsynced) fault rt i rt' sv' es where "post_comment now unit comment sv = Some sv'"
      "fl_threads_sync (dk_faults (sv_disk sv)) unit = Some fault"
      "threads_on (sv_disk sv) unit = Some rt" "post_message now rt p = Inr (i, rt')"
      "threads_on (sv_disk sv') = (threads_on (sv_disk sv))(unit \<mapsto> rt')"
      "sv_events sv' = sv_events sv @ es" "Posted unit (ms_id (po_message p)) (Inl (store_error_text fault)) \<in> set es"
    | (posted) rt i rt' sv' es where "post_comment now unit comment sv = Some sv'"
      "threads_on (sv_disk sv) unit = Some rt" "post_message now rt p = Inr (i, rt')"
      "threads_on (sv_disk sv') = (threads_on (sv_disk sv))(unit \<mapsto> rt')"
      "sv_events sv' = sv_events sv @ es" "Posted unit (ms_id (po_message p)) (Inr ()) \<in> set es"
proof -
  define change where "change = (\<lambda>rt. map_sum id (\<lambda>(_, rt'). (book_message rt (ms_id (po_message p)) = None, rt')) (post_message now rt p))"
  obtain x sv1 where up: "update_book unit change sv = (x, sv1)" by fastforce
  have keeps: "keeps_good book_of unit change" unfolding change_def by (rule keeps_post)
  have took: "\<exists>i. post_message now rt p = Inr (i, rt')" if "change rt = Inr (new, rt')" for rt new rt'
    using that by (auto simp: change_def map_sum_def split: sum.splits)
  obtain es where es: "sv_events sv1 = sv_events sv @ es" using update_book_events [OF up] by blast
  note unfolds = post_comment_def Let_def p_def [symmetric] change_def [symmetric] up prod.case
  have fails: "post_comment now unit comment sv = Some (publish (Posted unit (ms_id (po_message p)) (Inl e)) sv1)" if "x = Inl e" for e
    unfolding unfolds that by (simp add: round_of_new_def)
  show thesis
    using ok up keeps
  proof (cases rule: update_book_cases)
    case (failed e)
    with fails [OF failed(1)] es show thesis
      by (intro refused [where e = e and sv' = "publish (Posted unit (ms_id (po_message p)) (Inl e)) sv1"
          and es = "es @ [Posted unit (ms_id (po_message p)) (Inl e)]"]) simp_all
  next
    case (unsynced e result rt rt')
    from took [OF unsynced(4)] obtain i where "post_message now rt p = Inr (i, rt')" by blast
    with unsynced fails [OF unsynced(1)] es show thesis
      by (intro that(2) [where fault = e and sv' = "publish (Posted unit (ms_id (po_message p)) (Inl (store_error_text e))) sv1"
          and es = "es @ [Posted unit (ms_id (po_message p)) (Inl (store_error_text e))]"]) simp_all
  next
    case (changed new rt rt')
    from took [OF changed(3)] obtain i where i: "post_message now rt p = Inr (i, rt')" by blast
    obtain round where found: "round_of_new unit (po_thread p) (Inr new) sv1 = Some round"
      using changed(5) by (cases new) (auto simp: round_of_new_def)
    obtain f sv2 where f: "update_saved_drafts unit (\<lambda>ds _. Inr ds) sv1 = (f, sv2)" by fastforce
    obtain sv' where sv': "post_comment now unit comment sv = Some sv'" by (rule post_comment_ok [OF ok])
    have "threads_on (sv_disk sv') = threads_on (sv_disk sv1) \<and>
        (\<exists>es. sv_events sv' = sv_events sv1 @ es \<and> Posted unit (ms_id (po_message p)) (map_sum id (\<lambda>_. ()) (Inr new)) \<in> set es)"
      using sv' unfolding unfolds changed(1) found option.case sum.case f prod.case option.inject
      by (intro posted_rest [where round = round, OF changed(7) f refl]) (erule sym)
    with es changed i sv' that(3) show thesis by auto
  qed
qed

text \<open>C13: a comment that the service announces as posted is on disk, in every later load of the review and
  under its identity, and no draft of it is restored; a comment announced as failed left the threads
  on disk as they were, except that it was written when only the sync of the directory failed, which is then the
  announced error.\<close>

theorem announced_comments_are_on_disk:
  assumes "service_reachable sv"
  shows "\<exists>sv' es r. post_comment now unit p sv = Some sv' \<and> sv_events sv' = sv_events sv @ es \<and>
    Posted unit (ms_id (po_message p)) r \<in> set es \<and>
    (case r of
       Inl e \<Rightarrow> threads_on (sv_disk sv') = threads_on (sv_disk sv) \<or>
         (\<exists>fault rt i rt'. fl_threads_sync (dk_faults (sv_disk sv)) unit = Some fault \<and> e = store_error_text fault \<and>
            threads_on (sv_disk sv) unit = Some rt \<and>
            post_message now rt (from_tab (tg_tab (sv_target sv)) p) = Inr (i, rt') \<and>
            threads_on (sv_disk sv') = (threads_on (sv_disk sv))(unit \<mapsto> rt'))
     | Inr _ \<Rightarrow> \<exists>rt. threads_on (sv_disk sv') unit = Some rt \<and>
         (\<exists>t \<in> set (rt_threads rt). th_id t = po_thread p \<and> (\<exists>m \<in> set (th_messages t). same_content m (po_message p))) \<and>
         (\<forall>ds. fst (load_drafts unit (sv_disk sv')) = Inr ds \<longrightarrow> ms_id (po_message p) \<notin> dr_id ` set ds))"
proof -
  let ?q = "from_tab (tg_tab (sv_target sv)) p"
  have ids: "ms_id (po_message ?q) = ms_id (po_message p)" "po_thread ?q = po_thread p"
    and content: "\<And>m. same_content m (po_message ?q) = same_content m (po_message p)"
    by (simp_all add: from_tab_def same_content_def)
  have ok: "service_ok sv" by (rule reachable_ok [OF assms])
  from ok show ?thesis
  proof (cases rule: post_comment_cases [where unit = unit and comment = p and now = now])
    case (refused e sv' es)
    then show ?thesis by (intro exI [of _ sv'] exI [of _ es] exI [of _ "Inl e"]) (simp add: ids)
  next
    case (unsynced fault rt i rt' sv' es)
    then show ?thesis
      by (intro exI [of _ sv'] exI [of _ es] exI [of _ "Inl (store_error_text fault)"]) (simp add: ids)
  next
    case (posted rt i rt' sv' es)
    have rt: "book_of unit rt" using stored.view_good [OF _ posted(2)] ok by (simp add: service_ok_def)
    have disk: "threads_on (sv_disk sv') unit = Some rt'" using posted(4) by simp
    obtain t m where tm: "t \<in> set (rt_threads rt')" "m \<in> set (th_messages t)" "th_id t = po_thread ?q" "same_content m (po_message ?q)"
      using posted_in_thread [OF _ posted(3)] rt by (auto simp: book_of_def)
    have "book_message rt' (ms_id (po_message p)) \<noteq> None"
      using posting.publish_known [OF _ posted(3)] rt ids by (simp add: book_of_def)
    with load_drafts_posted [OF _ disk] have
      "ms_id (po_message p) \<notin> dr_id ` set ds" if "fst (load_drafts unit (sv_disk sv')) = Inr ds" for ds
      using that by fastforce
    with posted disk tm ids content show ?thesis
      by (intro exI [of _ sv'] exI [of _ es] exI [of _ "Inr ()"]) auto
  qed
qed

section \<open>The store\<close>

text \<open>The disk after changes by several processes, each under its lock and under the faults of its time, with
  what they were answered.\<close>

fun run_book_changes ::
  "(store_faults \<times> bytes \<times> (review_threads \<Rightarrow> bytes + 'a \<times> review_threads)) list \<Rightarrow> disk \<Rightarrow>
     (store_error + 'a \<times> review_threads) list \<times> disk" where
  "run_book_changes [] dk = ([], dk)"
| "run_book_changes ((fl, unit, change) # cs) dk =
     (let (answer, dk) = update_threads unit change (under_faults fl dk); (answers, dk) = run_book_changes cs dk
      in (answer # answers, dk))"

lemma run_book_changes_eq: "run_book_changes cs dk = stored.run_changes cs dk"
  by (induction cs dk rule: run_book_changes.induct) (auto split: prod.splits)

text \<open>C18: however the changes of several reviewer processes interleave and whichever steps fail, the threads
  that every process loads afterwards are the effect, in order, of the changes that were answered with
  success, each with the result it has on the book at its turn, and of those answered with the error of the sync after
  their write; every other change that was answered with an error had a cause: an unreadable book, its own refusal, a failing
  step, or drafts that cannot be read.\<close>

theorem stored_threads_refine_the_changes:
  assumes "disk_ok dk" "\<forall>(fl, unit, change) \<in> set cs. keeps_good book_of unit change"
    and "run_book_changes cs dk = (answers, dk')"
  shows "book_changes fl_threads_sync (\<lambda>fl unit. step_fails fl unit \<or> drafts_unreadable dk unit) cs answers
      (threads_on dk) (threads_on dk') \<and> disk_ok dk'"
  by (rule stored.changes_refine [OF assms(1,2) assms(3)[unfolded run_book_changes_eq]])

definition post_change :: "review_threads \<Rightarrow> bytes + bytes \<times> review_threads" where
  "post_change rt = map_sum thread_error_text id (post_message 7 rt first_post)"

definition unsynced_faults :: store_faults where
  "unsynced_faults = faultless\<lparr>fl_threads_sync := [''u'' \<mapsto> StateFault ''disk'']\<rparr>"

theorem stored_threads_witness:
  "\<exists>answers dk'. run_book_changes [(unsynced_faults, ''u'', post_change), (faultless, ''v'', post_change)] empty_disk = (answers, dk') \<and>
     book_changes fl_threads_sync (\<lambda>fl unit. step_fails fl unit \<or> drafts_unreadable empty_disk unit)
       [(unsynced_faults, ''u'', post_change), (faultless, ''v'', post_change)] answers (threads_on empty_disk) (threads_on dk')"
proof -
  have keeps: "keeps_good book_of unit post_change" for unit
    using post_message_state by (auto simp: keeps_good_def post_change_def book_of_def map_sum_eq intro: book_ok_post)
  obtain answers dk' where
    run: "run_book_changes [(unsynced_faults, ''u'', post_change), (faultless, ''v'', post_change)] empty_disk = (answers, dk')" by fastforce
  from stored_threads_refine_the_changes [OF empty_disk_ok _ run] keeps run show ?thesis by auto
qed

section \<open>The courier\<close>

text \<open>C14: the courier's prompts have their outcomes in the order they were handed over, one outcome each;
  while it runs, those without an outcome are the one being sent and the channel; the gate counts exactly the
  holds and the undecided prompts, so neither count is decremented at zero.\<close>

theorem prompts_have_one_outcome_in_order:
  assumes "courier_reachable s"
  shows "prefix (map fst (co_outcomes s)) (co_handed s) \<and>
    (co_runs s \<longrightarrow> co_handed s = map fst (co_outcomes s) @ unreported (co_stage s) @ co_channel s) \<and>
    gt_holds (co_gate s) = card (co_holds s) \<and> (co_holds s \<noteq> {} \<longrightarrow> 0 < gt_holds (co_gate s)) \<and>
    gt_queued (co_gate s) = length (co_channel s) + of_bool (co_announced s \<noteq> None) + of_bool (co_stage s \<noteq> AtRest)"
  using courier_ok_reachable [OF assms] by (auto simp: courier_ok_def card_gt_0_iff)

text \<open>C33: once a hold has drained, no prompt is on its way and none has its outcome until the hold is
  dropped, whatever the worker and the other threads do; and under a hold no prompt begins.\<close>

theorem a_drained_hold_keeps_the_agent_quiet:
  assumes "courier_reachable s" "h \<in> co_holds s" "courier_run s es s'" "Release h \<notin> set es"
  shows "BeginSend \<notin> set es \<and> (h \<in> co_drained s \<longrightarrow> co_stage s' = AtRest \<and> co_outcomes s' = co_outcomes s)"
proof -
  note ok = courier_ok_reachable [OF assms(1)]
  have "BeginSend \<notin> set es" using hold_run [OF assms(3) ok assms(2,4)] by blast
  moreover have "quiet s" if "h \<in> co_drained s" using ok that by (auto simp: courier_ok_def quiet_def)
  ultimately show ?thesis using quiet_run [OF assms(3)] by (auto simp: quiet_def)
qed

text \<open>a prompt withdrawn before the courier read its flag is never submitted to the agent.\<close>

theorem withdrawn_prompts_are_not_submitted:
  assumes "courier_run s es s'" "c \<in> co_withdrawn s" "\<not> loaded_unwithdrawn s c"
  shows "filter (\<lambda>p. pa_cancelled p = Some c) (submitted s') = filter (\<lambda>p. pa_cancelled p = Some c) (submitted s)"
  using withdrawn_run [OF assms] .

text \<open>C34: whatever the host and the hooks answer, a courier that runs and is not held can bring every prompt
  it was handed to its outcome, by its own steps alone.\<close>

theorem every_prompt_can_reach_its_outcome:
  assumes "courier_reachable s" "co_runs s" "co_holds s = {}"
  shows "\<exists>es s'. courier_run s es s' \<and> set es \<subseteq> {BeginSend, ReadFlag, Finish P later hk, MarkSent} \<and>
    map fst (co_outcomes s') = co_handed s \<and> co_handed s' = co_handed s"
  using all_handed_get_outcomes [OF assms] by metis

text \<open>Polling loses and duplicates no waiting request: each still waits, is with the courier, or has
  its outcome; and only requests that were not withdrawn go to the courier.\<close>

theorem polling_accounts_for_every_request:
  shows "requests_in (poll_queue P flags alive ob) = requests_in ob \<and>
    (\<exists>ps. ob_handed (poll_queue P flags alive ob) = ob_handed ob @ ps \<and> list_all (begun_parcel flags) ps)"
  unfolding list_all_iff using requests_in_poll poll_queue_handed by blast

section \<open>A small courier\<close>

definition some_parcel :: parcel where
  "some_parcel = \<lparr>pa_agent = some_agent, pa_text = ''hi'', pa_cancelled = Some 3, pa_outcome = ToWorker ''k'' 1\<rparr>"

definition held_courier :: courier where
  "held_courier = courier_start\<lparr>co_gate := \<lparr>gt_holds = 1, gt_sending = False, gt_queued = 1\<rparr>, co_channel := [some_parcel],
     co_handed := [some_parcel], co_withdrawn := {3}, co_holds := {5}, co_drained := {5}\<rparr>"

lemma held_courier_run: "courier_run courier_start [Announce some_parcel, Hand, Hold 5, Drain 5, Withdraw 3] held_courier"
proof -
  let ?s1 = "courier_start\<lparr>co_gate := \<lparr>gt_holds = 0, gt_sending = False, gt_queued = 1\<rparr>, co_announced := Some some_parcel\<rparr>"
  let ?s2 = "?s1\<lparr>co_announced := None, co_channel := [some_parcel], co_handed := [some_parcel]\<rparr>"
  let ?s3 = "?s2\<lparr>co_gate := \<lparr>gt_holds = 1, gt_sending = False, gt_queued = 1\<rparr>, co_holds := {5}\<rparr>"
  let ?s4 = "?s3\<lparr>co_drained := {5}\<rparr>"
  have "courier_step courier_start (Announce some_parcel) ?s1"
    using announce [of courier_start some_parcel] by (simp add: courier_start_def gate_defs)
  moreover have "courier_step ?s1 Hand ?s2" using hand [of ?s1 some_parcel] by (simp add: courier_start_def)
  moreover have "courier_step ?s2 (Hold 5) ?s3" using hold [of 5 ?s2] by (simp add: courier_start_def gate_defs)
  moreover have "courier_step ?s3 (Drain 5) ?s4" using drain [of 5 ?s3] by (simp add: courier_start_def gate_defs)
  moreover have "courier_step ?s4 (Withdraw 3) held_courier"
    using withdraw [of ?s4 3] by (simp add: courier_start_def held_courier_def)
  ultimately show ?thesis by (blast intro: courier_run.intros)
qed

lemma held_reachable: "courier_reachable held_courier"
  using held_courier_run by (auto simp: courier_reachable_def)

lemma held_simps [simp]:
  "co_holds held_courier = {5}" "co_drained held_courier = {5}" "co_channel held_courier = [some_parcel]"
  "co_outcomes held_courier = []" "co_withdrawn held_courier = {3}" "co_stage held_courier = AtRest"
  by (simp_all add: held_courier_def courier_start_def)

theorem one_outcome_witness: "co_handed held_courier = [some_parcel]"
  using prompts_have_one_outcome_in_order [OF held_reachable] by (simp add: held_courier_def courier_start_def unreported_def)

definition released_courier :: courier where
  "released_courier = held_courier\<lparr>co_gate := \<lparr>gt_holds = 0, gt_sending = False, gt_queued = 1\<rparr>, co_holds := {}, co_drained := {}\<rparr>"

lemma held_release: "courier_step held_courier (Release 5) released_courier"
  using release [of 5 held_courier] by (simp add: released_courier_def gate_defs held_courier_def courier_start_def)

theorem drained_hold_witness:
  "\<exists>s'. courier_run held_courier [Withdraw 4] s' \<and> co_stage s' = AtRest \<and> co_outcomes s' = []"
proof -
  obtain s' where s': "courier_run held_courier [Withdraw 4] s'" using withdraw by (blast intro: courier_run.intros)
  with a_drained_hold_keeps_the_agent_quiet [OF held_reachable _ s', of 5] show ?thesis by auto
qed

lemma released_reachable: "courier_reachable released_courier"
  using run_append [OF held_courier_run run_step [OF held_release run_none]] unfolding courier_reachable_def by blast

theorem withdrawn_prompt_witness:
  "\<exists>s'. courier_run released_courier (one_prompt some_port some_port None) s' \<and>
     filter (\<lambda>p. pa_cancelled p = Some 3) (submitted s') = []"
proof -
  obtain s' where "courier_run released_courier (one_prompt some_port some_port None) s'"
    using one_prompt_run [of released_courier some_parcel "[]" some_port some_port None]
    by (auto simp: released_courier_def held_courier_def courier_start_def)
  moreover from withdrawn_prompts_are_not_submitted [OF this, of 3]
  have "filter (\<lambda>p. pa_cancelled p = Some 3) (submitted s') = []"
    by (simp add: released_courier_def submitted_def loaded_unwithdrawn_def)
  ultimately show ?thesis by blast
qed

theorem every_prompt_witness:
  "\<exists>es s'. courier_run released_courier es s' \<and> map fst (co_outcomes s') = [some_parcel]"
proof -
  have "co_runs released_courier" "co_holds released_courier = {}" "co_handed released_courier = [some_parcel]"
    by (simp_all add: released_courier_def held_courier_def courier_start_def)
  with every_prompt_can_reach_its_outcome [OF released_reachable this(1,2), of some_port some_port None] show ?thesis by metis
qed

section \<open>A turn of the small world\<close>

definition granted :: access where
  "granted = \<lparr>ac_token = ''k'', ac_review_unit = ''u'', ac_agent = some_agent,
     ac_identity = (identity_new some_agent REVIEW_ACCESS)\<lparr>id_process_group := Some 7\<rparr>\<rparr>"

lemma granted_simps [simp]: "ac_token granted = ''k''" "ac_review_unit granted = ''u''" "ac_agent granted = some_agent"
  by (simp_all add: granted_def)

definition book_disk :: disk where
  "book_disk = empty_disk\<lparr>dk_threads := [''u'' \<mapsto> Inr (current_document first_book)]\<rparr>"

definition woken_service :: service where
  "woken_service = some_service\<lparr>sv_disk := book_disk, sv_books := [(''u'', first_book)],
     sv_target := \<lparr>tg_tab = ''tab'', tg_focused = [''pane'']\<rparr>,
     sv_access := [(''k'', granted)], sv_wakeups := [(''k'', \<lparr>wk_requested = 1, wk_notified = 1\<rparr>)],
     sv_outbox := \<lparr>ob_pins = (\<lambda>_. pin_new some_agent), ob_waiting = [],
       ob_handed = [\<lparr>pa_agent = some_agent, pa_text = access_prompt granted, pa_cancelled = None, pa_outcome = ToWorker ''k'' 1\<rparr>],
       ob_outcomes = []\<rparr>,
     sv_events := [Loaded ''u'' (Inr first_book) [], WakeupEvent ''u'' None], sv_drawn := 1\<rparr>"

lemma load_first: "load_threads ''u'' book_disk = (Inr first_book, book_disk)"
  by (simp add: load_threads_def and_then_def reading_def read_thread_document_def book_disk_def empty_disk_def
      current_document_def parse_version_def first_defs message_defs)

lemma drafts_first: "load_drafts ''u'' book_disk = (Inr [], book_disk)"
  unfolding load_drafts_def and_then_def load_first
  by (simp add: and_then_def reading_def read_drafts_def book_disk_def empty_disk_def forget_posted_def)

lemma waits_first: "has_new_messages_for first_book \<lparr>rc_tab = ''tab'', rc_retried = Map.empty\<rparr>"
  and through_first: "pending_comment_sequence_for first_book \<lparr>rc_tab = ''tab'', rc_retried = Map.empty\<rparr> = Some 1"
  by (simp_all add: has_new_messages_for_def pending_comment_sequence_for_def new_messages_for_def pending_for_def pending_def
      is_waiting_def last_comment_def is_answered_def has_comments_after_def position_in_def last_sequences_def max_of_def
      first_defs message_defs)

lemma resolve_first:
  "target_resolve some_port \<lparr>tg_tab = ''tab'', tg_focused = [''pane'']\<rparr> =
     Inr (Some some_agent, \<lparr>tg_tab = ''tab'', tg_focused = [''pane'']\<rparr>)"
  by (simp add: target_resolve_def target_initialize_def target_current_def observe_focus_def some_port_def some_agent_def)

lemma check_first: "check some_port some_agent (ac_identity granted) = Inr (SameAgent, ac_identity granted)"
  by (simp add: check_def granted_def some_agent_def identity_new_def process_group_def some_port_def
      compare_and_adopt_def compare_session_def adopt_def)

lemma grant_first: "access_new ''k'' ''u'' some_agent some_port = Inr granted"
  by (simp add: access_new_def bind_process_without_session_def identity_new_def process_group_def granted_def
      some_port_def some_agent_def)

lemma first_turn:
  "service_turn some_world (Some (Ui (ThreadWork (LoadReview ''u'')))) (some_service\<lparr>sv_disk := book_disk\<rparr>) = Next woken_service"
proof -
  let ?sv = "some_service\<lparr>sv_disk := book_disk\<rparr>"
  let ?noted = "?sv\<lparr>sv_books := [(''u'', first_book)], sv_notifications := [(''u'', \<lparr>nt_retry = False\<rparr>)],
    sv_events := [Loaded ''u'' (Inr first_book) []]\<rparr>"
  have handle: "handle some_world (Ui (ThreadWork (LoadReview ''u''))) ?sv = Next ?noted"
    by (simp add: handle_def or_panic_def thread_work_def load_review_def load_def load_first drafts_to_restore_def drafts_first
        resume_def schedule_def report_def publish_def waits_for_agent_def recipient_of_def some_service_def service_new_def
        target_new_def waits_first Let_def)
  have "poll some_world ?noted = Some woken_service"
    by (simp add: poll_def poll_queue_def poll_notification_def prepare_notification_def waits_for_agent_def recipient_of_def
        some_service_def service_new_def target_new_def waits_first resolve_target_def grant_def some_world_def resolve_first
        grant_first cancel_wakeups_def request_wakeup_def pending_through_def through_first
        wakeup_request_def wakeup_none_def needs_poll_def poll_wakeup_def notify_def matches_agent_def check_first
        send_wakeup_def wakeup_sent_def report_wakeup_def publish_def courier_send_def woken_service_def Let_def)
  with handle show ?thesis by (simp add: service_turn_def or_panic_def)
qed

lemma book_disk_ok: "disk_ok book_disk"
  using first_book_ok by (auto simp: disk_ok_def book_disk_def empty_disk_def current_document_def split: if_splits)

lemma loaded_reachable: "service_reachable (some_service\<lparr>sv_disk := book_disk\<rparr>)"
  by (rule reach_disk [OF some_service_reachable book_disk_ok])

lemma woken_reachable: "service_reachable woken_service"
  by (rule reach_turn [OF loaded_reachable first_turn])

lemma woken_simps [simp]:
  "sv_access woken_service = [(''k'', granted)]" "sv_wakeups woken_service = [(''k'', \<lparr>wk_requested = 1, wk_notified = 1\<rparr>)]"
  "sv_notifications woken_service = []"
  by (simp_all add: woken_service_def some_service_def service_new_def)

theorem wakeups_go_once_witness:
  "handed woken_service \<noteq> [] \<and>
   (\<exists>qs ps. handed woken_service = qs @ ps \<and> (\<forall>p \<in> set qs. begun_parcel (wd_flags some_world) p) \<and>
     (\<forall>p \<in> set ps. settled_wakeup some_world ''tab'' woken_service p))"
proof -
  have "handed (some_service\<lparr>sv_disk := book_disk\<rparr>) = []" "tg_tab (sv_target (some_service\<lparr>sv_disk := book_disk\<rparr>)) = ''tab''"
    "handed woken_service \<noteq> []"
    by (simp_all add: handed_def some_service_def service_new_def target_new_def woken_service_def)
  with wakeups_go_once_to_the_granted_agent [OF loaded_reachable first_turn] show ?thesis by auto
qed

theorem failed_wakeup_witness:
  "\<exists>sv'. service_turn some_world (Some (Notified ''k'' 1 (Inl PromptNotStarted))) woken_service = Next sv' \<and>
     map_of (sv_wakeups sv') ''k'' = None \<and> (\<forall>p \<in> set (drop (length (handed woken_service)) (handed sv')). \<not> (is_wakeup p \<and> wake_token p = ''k''))"
proof -
  have ok: "service_ok (notified ''k'' 1 (Inl PromptNotStarted) woken_service)"
    by (rule notified_ok [OF reachable_ok [OF woken_reachable]])
  then obtain sv' where "service_turn some_world (Some (Notified ''k'' 1 (Inl PromptNotStarted))) woken_service = Next sv'"
    using poll_ok [OF ok, of some_world] by (auto simp: service_turn_def handle_def or_panic_def)
  moreover from failed_wakeups_are_not_resent [OF woken_reachable _ _ _ this, of "\<lparr>wk_requested = 1, wk_notified = 1\<rparr>"]
  obtain ps where "handed sv' = handed woken_service @ ps" "\<forall>p \<in> set ps. \<not> (is_wakeup p \<and> wake_token p = ''k'')"
    and "map_of (sv_wakeups sv') ''k'' = None"
    by (auto simp: unchanged_since_def)
  ultimately show ?thesis by (intro exI [of _ sv']) simp
qed

theorem granted_agent_witness:
  "\<exists>r sv'. request some_world ''bad'' (Reply first_answer) None woken_service = (Inl r, sv') \<and> sv_disk sv' = sv_disk woken_service"
proof -
  obtain r sv' where rq: "request some_world ''bad'' (Reply first_answer) None woken_service = (r, sv')" by fastforce
  from only_the_granted_agent_is_served [OF woken_reachable rq] rq show ?thesis by auto
qed

theorem one_session_witness:
  "matched (ac_identity granted) [(some_port, some_agent)] = [(some_port, some_agent)] \<and>
   process_group some_port (ag_pane some_agent) = Inr 7"
proof -
  have m: "matched (ac_identity granted) [(some_port, some_agent)] = [(some_port, some_agent)]"
    by (simp add: check_first)
  then have "(some_port, some_agent) \<in> set (matched (ac_identity granted) [(some_port, some_agent)])" by simp
  from an_access_serves_one_session [OF grant_first this this] m show ?thesis
    by (simp add: process_group_def some_port_def)
qed

theorem announced_comment_witness:
  "\<exists>sv' r. post_comment 7 ''u'' first_post some_service = Some sv' \<and> Posted ''u'' ''m'' r \<in> set (sv_events sv')"
proof -
  have "ms_id (po_message first_post) = ''m''" by (simp add: first_defs message_defs)
  with announced_comments_are_on_disk [OF some_service_reachable, of 7 "''u''" first_post] show ?thesis by fastforce
qed

end
