(* ===== verification/Snapshots.thy ===== *)
theory Snapshots
  imports DiffRows
begin

text \<open>
  What the reviewer asks of a repository (crates/review-repository/src/repository.rs and
  repository/comparison_plan.rs): the identity of a snapshot, its changed files, and the comparisons with
  stored baselines. The repository itself is reached through git and jj commands: the record \<open>repo\<close>, whose fields are the
  answers of \<open>RepositoryBackend\<close>. A snapshot names captured, immutable content, so the answers are functions of
  the snapshot.
\<close>

datatype snapshot_identity =
    Jj (jj_change: bytes) (jj_snapshot: bytes) (jj_description: bytes) (jj_display: bytes)
  | Git (git_base: bytes) (git_display: bytes) (git_snapshot: bytes)

definition review_unit :: "snapshot_identity \<Rightarrow> bytes" where
  "review_unit i = (case i of Jj change _ _ _ \<Rightarrow> change | Git base _ _ \<Rightarrow> base)"

definition snapshot_id :: "snapshot_identity \<Rightarrow> bytes" where
  "snapshot_id i = (case i of Jj _ snap _ _ \<Rightarrow> snap | Git _ _ snap \<Rightarrow> snap)"

record snapshot =
  sn_identity :: snapshot_identity
  sn_files :: "changed_file list"

datatype interdiff = MissingBaseline | Diff bytes

text \<open>The paths to compare with each baseline, and the answers: the statistics of the paths that changed.\<close>

type_synonym comparison_plan = "bytes \<rightharpoonup> repo_path set"

definition plan_add :: "bytes \<Rightarrow> repo_path \<Rightarrow> comparison_plan \<Rightarrow> comparison_plan" where
  "plan_add baseline path plan =
     plan(baseline \<mapsto> insert path (case plan baseline of Some ps \<Rightarrow> ps | None \<Rightarrow> {}))"

datatype baseline_comparison = Missing | ComparedPaths "repo_path \<rightharpoonup> diff_statistics"

record repo =
  rp_identity :: "bytes + snapshot_identity"
  rp_diff :: "snapshot \<Rightarrow> changed_file \<Rightarrow> bytes + bytes"
  rp_file_at :: "bytes \<Rightarrow> repo_path \<Rightarrow> bytes + bytes"
  rp_base_file_at :: "snapshot \<Rightarrow> repo_path \<Rightarrow> bytes + bytes"
  rp_interdiff :: "bytes \<Rightarrow> snapshot \<Rightarrow> repo_path \<Rightarrow> bytes + interdiff"
  rp_compare :: "snapshot \<Rightarrow> comparison_plan \<Rightarrow> bytes + (bytes \<rightharpoonup> baseline_comparison)"

text \<open>A snapshot does not differ from itself.\<close>

definition same_snapshot_is_empty :: "repo \<Rightarrow> bool" where
  "same_snapshot_is_empty R \<longleftrightarrow>
     (\<forall>snap path. rp_interdiff R (snapshot_id (sn_identity snap)) snap path = Inr (Diff []))"

end
