(* ===== verification/DiffCache.thy ===== *)
theory DiffCache
  imports Snapshots MarkStore Hunks
begin

text \<open>
  The cache of open diffs (crates/review-state/src/diff_cache.rs): one snapshot's diffs by path, each with the saved mark
  that it was loaded for, and no more than \<open>MAX_BYTES\<close> of text.

  What a client relies on is the locale \<open>memory\<close>: a memory gives back only what was put in it for the same
  key. The lemmas: the count of bytes is that of the diffs held and never above the limit, so that no
  subtraction of the source underflows.
\<close>

record review_diff =
  rd_unified :: bytes
  rd_old :: "bytes option"
  rd_new :: "bytes option"
  rd_hunks :: file_hunks

definition content_len :: "bytes option \<Rightarrow> nat" where
  "content_len c = (case c of None \<Rightarrow> 0 | Some t \<Rightarrow> length t)"

definition byte_len :: "review_diff \<Rightarrow> nat" where
  "byte_len d = length (rd_unified d) + content_len (rd_old d) + content_len (rd_new d)"

definition MAX_BYTES :: nat where
  "MAX_BYTES = 32 * 1024 * 1024"

record cached_diff =
  cd_record :: load_result
  cd_diff :: review_diff

record diff_cache =
  dc_snapshot :: "snapshot_identity option"
  dc_files :: "repo_path \<rightharpoonup> cached_diff"
  dc_bytes :: nat

definition cache_new :: diff_cache where
  "cache_new = \<lparr>dc_snapshot = None, dc_files = Map.empty, dc_bytes = 0\<rparr>"

definition cache_get :: "snapshot_identity \<Rightarrow> repo_path \<Rightarrow> load_result \<Rightarrow> diff_cache \<Rightarrow> review_diff option \<times> diff_cache" where
  "cache_get snap path record_of dc =
     (let dc = (if dc_snapshot dc \<noteq> Some snap
                then \<lparr>dc_snapshot = Some snap, dc_files = Map.empty, dc_bytes = 0\<rparr> else dc)
      in (case dc_files dc path of
            Some cached \<Rightarrow> if cd_record cached = record_of then Some (cd_diff cached) else None
          | None \<Rightarrow> None, dc))"

definition cache_remove :: "repo_path \<Rightarrow> diff_cache \<Rightarrow> diff_cache" where
  "cache_remove path dc =
     (case dc_files dc path of
        None \<Rightarrow> dc
      | Some previous \<Rightarrow>
          dc\<lparr>dc_files := (dc_files dc)(path := None), dc_bytes := dc_bytes dc - byte_len (cd_diff previous)\<rparr>)"

definition cache_insert :: "snapshot_identity \<Rightarrow> repo_path \<Rightarrow> load_result \<Rightarrow> review_diff \<Rightarrow> diff_cache \<Rightarrow> diff_cache" where
  "cache_insert snap path record_of d dc =
     (if dc_snapshot dc \<noteq> Some snap then dc
      else let dc = cache_remove path dc
           in if byte_len d > MAX_BYTES then dc
              else let dc = (if dc_bytes dc + byte_len d > MAX_BYTES
                             then dc\<lparr>dc_files := Map.empty, dc_bytes := 0\<rparr> else dc)
                   in dc\<lparr>dc_bytes := dc_bytes dc + byte_len d,
                        dc_files := (dc_files dc)(path \<mapsto> \<lparr>cd_record = record_of, cd_diff = d\<rparr>)\<rparr>)"

section \<open>A memory of computed values\<close>

locale memory =
  fixes lookup :: "'k \<Rightarrow> 'm \<Rightarrow> 'v option \<times> 'm"
    and remember :: "'k \<Rightarrow> 'v \<Rightarrow> 'm \<Rightarrow> 'm"
    and holds :: "'m \<Rightarrow> 'k \<Rightarrow> 'v \<Rightarrow> bool"
  assumes lookup_holds: "lookup k m = (Some v, m') \<Longrightarrow> holds m k v"
    and lookup_keeps: "lookup k m = (x, m') \<Longrightarrow> holds m' k' v \<Longrightarrow> holds m k' v"
    and remember_holds: "holds (remember k v m) k' v' \<Longrightarrow> holds m k' v' \<or> k' = k \<and> v' = v"
begin

text \<open>A memory that holds only right values answers only right values, and stays so when right ones are
  put in it.\<close>

definition right :: "('k \<Rightarrow> 'v \<Rightarrow> bool) \<Rightarrow> 'm \<Rightarrow> bool" where
  "right P m \<longleftrightarrow> (\<forall>k v. holds m k v \<longrightarrow> P k v)"

lemma right_lookup: "right P m \<Longrightarrow> lookup k m = (x, m') \<Longrightarrow> right P m' \<and> (\<forall>v. x = Some v \<longrightarrow> P k v)"
  unfolding right_def using lookup_holds lookup_keeps by blast

lemma right_remember: "right P m \<Longrightarrow> P k v \<Longrightarrow> right P (remember k v m)"
  unfolding right_def using remember_holds by blast

end

text \<open>The key of a cached diff is the snapshot, the path and the mark.\<close>

definition diff_held :: "diff_cache \<Rightarrow> snapshot_identity \<times> repo_path \<times> load_result \<Rightarrow> review_diff \<Rightarrow> bool" where
  "diff_held dc k d \<longleftrightarrow>
     (case k of (snap, path, r) \<Rightarrow> dc_snapshot dc = Some snap \<and> dc_files dc path = Some \<lparr>cd_record = r, cd_diff = d\<rparr>)"

lemma cache_remove_files [simp]:
  "dc_files (cache_remove path dc) = (dc_files dc)(path := None)" "dc_snapshot (cache_remove path dc) = dc_snapshot dc"
  by (auto simp: cache_remove_def fun_eq_iff split: option.splits)

interpretation diffs: memory "\<lambda>(snap, path, r). cache_get snap path r" "\<lambda>(snap, path, r). cache_insert snap path r" diff_held
proof unfold_locales
  fix k :: "snapshot_identity \<times> repo_path \<times> load_result" and dc v dc'
  obtain snap path r where k: "k = (snap, path, r)" by (metis prod_cases3)
  assume "(case k of (snap, path, r) \<Rightarrow> cache_get snap path r) dc = (Some v, dc')"
  then show "diff_held dc k v"
    by (auto simp: k cache_get_def diff_held_def Let_def split: if_splits option.splits)
next
  fix k k' :: "snapshot_identity \<times> repo_path \<times> load_result" and dc x v dc'
  assume "(case k of (snap, path, r) \<Rightarrow> cache_get snap path r) dc = (x, dc')" "diff_held dc' k' v"
  then show "diff_held dc k' v"
    by (auto simp: cache_get_def diff_held_def Let_def split: if_splits option.splits prod.splits)
next
  fix k k' :: "snapshot_identity \<times> repo_path \<times> load_result" and dc v v'
  assume "diff_held ((case k of (snap, path, r) \<Rightarrow> cache_insert snap path r) v dc) k' v'"
  then show "diff_held dc k' v' \<or> k' = k \<and> v' = v"
    by (auto simp: cache_insert_def diff_held_def Let_def split: if_splits prod.splits)
qed

section \<open>The count of bytes\<close>

definition held_bytes :: "(repo_path \<rightharpoonup> cached_diff) \<Rightarrow> nat" where
  "held_bytes m = (\<Sum>p \<in> dom m. byte_len (cd_diff (the (m p))))"

lemma held_bytes_empty [simp]: "held_bytes Map.empty = 0"
  by (simp add: held_bytes_def)

lemma held_bytes_without:
  assumes "finite (dom m)" "m p = Some cd"
  shows "held_bytes m = byte_len (cd_diff cd) + held_bytes (m(p := None))"
proof -
  have "held_bytes m = byte_len (cd_diff (the (m p))) + (\<Sum>q \<in> dom m - {p}. byte_len (cd_diff (the (m q))))"
    unfolding held_bytes_def using assms by (intro sum.remove) auto
  moreover have "(\<Sum>q \<in> dom m - {p}. byte_len (cd_diff (the (m q)))) = held_bytes (m(p := None))"
    unfolding held_bytes_def by (rule sum.cong) auto
  ultimately show ?thesis using assms(2) by simp
qed

lemma held_bytes_put:
  assumes "finite (dom m)" "m p = None"
  shows "held_bytes (m(p \<mapsto> cd)) = byte_len (cd_diff cd) + held_bytes m"
proof -
  have "(m(p \<mapsto> cd))(p := None) = m" using assms(2) by (simp add: fun_upd_idem)
  with held_bytes_without [of "m(p \<mapsto> cd)" p cd] assms(1) show ?thesis by simp
qed

definition size_ok :: "diff_cache \<Rightarrow> bool" where
  "size_ok dc \<longleftrightarrow> finite (dom (dc_files dc)) \<and> dc_bytes dc = held_bytes (dc_files dc) \<and> dc_bytes dc \<le> MAX_BYTES"

lemma size_ok_new [simp]: "size_ok cache_new"
  by (simp add: size_ok_def cache_new_def)

lemma size_ok_get: "size_ok dc \<Longrightarrow> size_ok (snd (cache_get snap path r dc))"
  by (auto simp: cache_get_def size_ok_def Let_def)

lemma remove_bytes:
  assumes "size_ok dc" "dc_files dc path = Some cd"
  shows "byte_len (cd_diff cd) \<le> dc_bytes dc"
    and "dc_bytes dc - byte_len (cd_diff cd) = held_bytes ((dc_files dc)(path := None))"
  using assms held_bytes_without [of "dc_files dc" path cd] by (simp_all add: size_ok_def)

lemma size_ok_remove: "size_ok dc \<Longrightarrow> size_ok (cache_remove path dc)"
proof (cases "dc_files dc path")
  case (Some cd)
  assume "size_ok dc"
  with remove_bytes [OF this Some] Some show ?thesis by (auto simp: cache_remove_def size_ok_def)
qed (simp add: cache_remove_def)

lemma size_ok_insert:
  assumes "size_ok dc"
  shows "size_ok (cache_insert snap path r d dc)"
proof -
  define dc1 where "dc1 = cache_remove path dc"
  have dc1: "size_ok dc1" "dc_files dc1 path = None" unfolding dc1_def using size_ok_remove [OF assms] by simp_all
  have put: "size_ok (c\<lparr>dc_bytes := dc_bytes c + byte_len d, dc_files := (dc_files c)(path \<mapsto> \<lparr>cd_record = r, cd_diff = d\<rparr>)\<rparr>)"
    if "size_ok c" "dc_files c path = None" "dc_bytes c + byte_len d \<le> MAX_BYTES" for c
    using that held_bytes_put [of "dc_files c" path "\<lparr>cd_record = r, cd_diff = d\<rparr>"] by (simp add: size_ok_def)
  have "size_ok (dc1\<lparr>dc_files := Map.empty, dc_bytes := 0\<rparr>)" by (simp add: size_ok_def)
  from put [OF dc1] put [OF this] dc1 assms show ?thesis
    unfolding cache_insert_def dc1_def [symmetric] Let_def by auto
qed

end
