(* ===== verification/ReviewTracker.thy ===== *)
theory ReviewTracker
  imports DiffCache LineMarks Classify Patch
begin

text \<open>
  The review state of the changed paths (crates/review-state/src/review.rs): deriving it from the stored marks, and marking files, hunks and lines.

  An operation takes the repository \<open>R\<close>, the differ \<open>D\<close> and the codec \<open>C\<close> of the stored records, and the
  tracker's state: the marks on disk and the cache of diffs. Its errors are those of the store and of the
  repository, the messages of the tracker itself, the panic of a changed file without a path, and waiting
  for ever for a lock that the tracker already holds. The mutex of the cache is released on every path, so it is
  never poisoned.
\<close>

section \<open>Results\<close>

datatype review_status = UnreviewedStatus | ReviewedStatus | ChangedSinceReview | PartiallyReviewed

definition needs_review :: "review_status \<Rightarrow> bool" where
  "needs_review s \<longleftrightarrow> s \<noteq> ReviewedStatus"

datatype review_warning = UnknownSchemaWarning | BaselineExpired

record review_state =
  rs_status :: review_status
  rs_warning :: "review_warning option"
  rs_statistics :: diff_statistics
  rs_lines :: "line_count option"

definition no_statistics :: diff_statistics where
  "no_statistics = \<lparr>lines_added = 0, lines_removed = 0\<rparr>"

definition state_unreviewed :: "diff_statistics \<Rightarrow> review_warning option \<Rightarrow> review_state" where
  "state_unreviewed stats w = \<lparr>rs_status = UnreviewedStatus, rs_warning = w, rs_statistics = stats, rs_lines = None\<rparr>"

definition state_reviewed :: review_state where
  "state_reviewed = \<lparr>rs_status = ReviewedStatus, rs_warning = None, rs_statistics = no_statistics, rs_lines = None\<rparr>"

definition state_changed_since_review :: "diff_statistics \<Rightarrow> review_state" where
  "state_changed_since_review stats =
     \<lparr>rs_status = ChangedSinceReview, rs_warning = None, rs_statistics = stats, rs_lines = None\<rparr>"

definition state_partially_reviewed :: "diff_statistics \<Rightarrow> line_count option \<Rightarrow> review_state" where
  "state_partially_reviewed stats n =
     \<lparr>rs_status = PartiallyReviewed, rs_warning = None, rs_statistics = stats, rs_lines = n\<rparr>"

record open_lines_of_hunk =
  ol_lines :: changed_lines
  ol_since_review :: bool

record file_lines =
  fl_open :: "open_lines_of_hunk list"
  fl_reviewed :: reviewed_lines

definition no_file_lines :: file_lines where
  "no_file_lines = \<lparr>fl_open = [], fl_reviewed = \<lparr>rl_removed = Map.empty, rl_added = Map.empty\<rparr>\<rparr>"

definition open_selection :: "file_lines \<Rightarrow> line_selection" where
  "open_selection fl =
     \<lparr>ls_removed = (\<Union>h \<in> set (fl_open fl). set (cl_removed (ol_lines h))),
      ls_added = (\<Union>h \<in> set (fl_open fl). set (cl_added (ol_lines h)))\<rparr>"

datatype mark_result = Marked | ChangeChanged | NothingToMark

datatype review_comparison =
    NotCompared "review_warning option"
  | Compared bytes bytes
  | PartialComparison reviewed "bytes option" bytes file_hunks

definition comparison_state :: "review_comparison \<Rightarrow> changed_file \<Rightarrow> review_state" where
  "comparison_state c f =
     (case c of
        NotCompared w \<Rightarrow> state_unreviewed (statistics f) w
      | Compared _ d \<Rightarrow> if d = [] then state_reviewed else state_changed_since_review (from_unified_diff d)
      | PartialComparison _ _ d hs \<Rightarrow>
          if d = [] then state_reviewed else state_partially_reviewed (from_unified_diff d) (hunks_count hs))"

section \<open>Operations\<close>

datatype tracker_error = StoreFailed store_error | RepositoryFailed bytes | Refused bytes | PathMissing | LockedOut

record tracker =
  tk_marks :: marks_disk
  tk_cache :: diff_cache

type_synonym 'a tracker_op = "(tracker, tracker_error, 'a) fallible"

definition in_store :: "'a marks_op \<Rightarrow> 'a tracker_op" where
  "in_store m tk =
     (case m (tk_marks tk) of (r, dk) \<Rightarrow> (map_sum StoreFailed id r, tk\<lparr>tk_marks := dk\<rparr>))"

definition asked :: "bytes + 'a \<Rightarrow> 'a tracker_op" where
  "asked answer = reading (\<lambda>_. map_sum RepositoryFailed id answer)"

definition returning :: "'a \<Rightarrow> 'a tracker_op" where
  "returning x = reading (\<lambda>_. Inr x)"

definition refusing :: "bytes \<Rightarrow> 'a tracker_op" where
  "refusing why = reading (\<lambda>_. Inl (Refused why))"

definition path_of :: "changed_file \<Rightarrow> repo_path tracker_op" where
  "path_of f = reading (\<lambda>_. case review_path f of Some p \<Rightarrow> Inr p | None \<Rightarrow> Inl PathMissing)"

definition unit_of :: "snapshot \<Rightarrow> bytes" where
  "unit_of snap = review_unit (sn_identity snap)"

definition commit_of :: "snapshot \<Rightarrow> bytes" where
  "commit_of snap = snapshot_id (sn_identity snap)"

text \<open>The lock of a review's marks, held while \<open>m\<close> runs and dropped however it ends.\<close>

definition with_marks_lock :: "bytes \<Rightarrow> 'a tracker_op \<Rightarrow> 'a tracker_op" where
  "with_marks_lock unit m =
     and_then (in_store (lock_marks unit)) (\<lambda>acquired tk.
       if \<not> acquired then (Inl LockedOut, tk)
       else case m tk of (r, tk) \<Rightarrow> (r, tk\<lparr>tk_marks := unlock_marks unit (tk_marks tk)\<rparr>))"

section \<open>Comparing a path with its mark\<close>

definition file_content :: "repo \<Rightarrow> bytes \<Rightarrow> repo_path option \<Rightarrow> file_kind \<Rightarrow> bytes + bytes option" where
  "file_content R revision path kind =
     (if kind \<noteq> File then Inr None
      else case path of None \<Rightarrow> Inr None | Some p \<Rightarrow> map_sum id Some (rp_file_at R revision p))"

definition base_file_content :: "repo \<Rightarrow> snapshot \<Rightarrow> repo_path option \<Rightarrow> file_kind \<Rightarrow> bytes + bytes option" where
  "base_file_content R snap path kind =
     (if kind \<noteq> File then Inr None
      else case path of None \<Rightarrow> Inr None | Some p \<Rightarrow> map_sum id Some (rp_base_file_at R snap p))"

definition text_or_empty :: "bytes option \<Rightarrow> bytes" where
  "text_or_empty c = (case c of Some t \<Rightarrow> t | None \<Rightarrow> [])"

definition base_text :: "repo \<Rightarrow> snapshot \<Rightarrow> changed_file \<Rightarrow> bytes + bytes" where
  "base_text R snap f = map_sum id text_or_empty (base_file_content R snap (old_path f) (old_kind f))"

definition mark_age_of :: "repo \<Rightarrow> changed_file \<Rightarrow> bytes \<Rightarrow> snapshot \<Rightarrow> bytes option \<Rightarrow> mark_age" where
  "mark_age_of R f baseline snap current =
     (if baseline = commit_of snap then CurrentMark
      else if file_content R baseline (new_path f) (new_kind f) = Inr current then CurrentMark else Outdated)"

definition compare_partial ::
  "repo \<Rightarrow> differ \<Rightarrow> snapshot \<Rightarrow> changed_file \<Rightarrow> partial_review \<Rightarrow> bytes \<Rightarrow> review_comparison tracker_op" where
  "compare_partial R D snap f partial baseline =
     and_then (asked (base_text R snap f)) (\<lambda>base.
     let reviewed = replay D (pr_base partial) (pr_reviewed partial) base
     in if rv_text reviewed = base then returning (NotCompared None)
        else and_then (asked (file_content R (commit_of snap) (new_path f) (new_kind f))) (\<lambda>current.
          and_then (path_of f) (\<lambda>path.
          let text = text_or_empty current;
              d = unified_diff D (path_display path) (rv_text reviewed) text;
              age = mark_age_of R f baseline snap current;
              hs = hunks D (hunk_review_new base (rv_text reviewed) text) (parse_file_diff d f) age
          in returning (PartialComparison reviewed current d hs))))"

definition compare_record ::
  "repo \<Rightarrow> differ \<Rightarrow> codec \<Rightarrow> snapshot \<Rightarrow> changed_file \<Rightarrow> load_result \<Rightarrow> review_comparison tracker_op" where
  "compare_record R D C snap f r =
     and_then (path_of f) (\<lambda>path.
     case r of
       Unreviewed \<Rightarrow> returning (NotCompared None)
     | UnknownSchema \<Rightarrow> returning (NotCompared (Some UnknownSchemaWarning))
     | Reviewed rr \<Rightarrow>
         (case rr_partial rr of
            Some partial \<Rightarrow> compare_partial R D snap f partial (rr_commit rr)
          | None \<Rightarrow>
              and_then (asked (rp_interdiff R (rr_commit rr) snap path)) (\<lambda>i.
              case i of
                MissingBaseline \<Rightarrow>
                  and_then (in_store (unreview_expired C (unit_of snap) path (rr_at rr))) (\<lambda>_.
                  returning (NotCompared (Some BaselineExpired)))
              | Diff d \<Rightarrow> returning (Compared (rr_commit rr) d))))"

definition load_of :: "codec \<Rightarrow> snapshot \<Rightarrow> changed_file \<Rightarrow> load_result tracker_op" where
  "load_of C snap f = and_then (path_of f) (\<lambda>path. in_store (load_mark C (unit_of snap) path))"

definition compare :: "repo \<Rightarrow> differ \<Rightarrow> codec \<Rightarrow> snapshot \<Rightarrow> changed_file \<Rightarrow> review_comparison tracker_op" where
  "compare R D C snap f = and_then (load_of C snap f) (compare_record R D C snap f)"

definition tracker_status :: "repo \<Rightarrow> differ \<Rightarrow> codec \<Rightarrow> snapshot \<Rightarrow> changed_file \<Rightarrow> review_state tracker_op" where
  "tracker_status R D C snap f =
     and_then (compare R D C snap f) (\<lambda>c. returning (comparison_state c f))"

section \<open>The states of all paths\<close>

datatype planned_state = Resolved review_state | Compare bytes

definition plan_state ::
  "repo \<Rightarrow> differ \<Rightarrow> codec \<Rightarrow> snapshot \<Rightarrow> changed_file \<Rightarrow> comparison_plan \<Rightarrow> (planned_state \<times> comparison_plan) tracker_op" where
  "plan_state R D C snap f plan =
     and_then (path_of f) (\<lambda>path.
     and_then (load_of C snap f) (\<lambda>r.
     case r of
       Unreviewed \<Rightarrow> returning (Resolved (state_unreviewed (statistics f) None), plan)
     | UnknownSchema \<Rightarrow> returning (Resolved (state_unreviewed (statistics f) (Some UnknownSchemaWarning)), plan)
     | Reviewed rr \<Rightarrow>
         (case rr_partial rr of
            Some partial \<Rightarrow>
              and_then (compare_partial R D snap f partial (rr_commit rr)) (\<lambda>c.
              returning (Resolved (comparison_state c f), plan))
          | None \<Rightarrow> returning (Compare (rr_commit rr), plan_add (rr_commit rr) path plan))))"

fun plan_states ::
  "repo \<Rightarrow> differ \<Rightarrow> codec \<Rightarrow> snapshot \<Rightarrow> changed_file list \<Rightarrow> comparison_plan \<Rightarrow>
     (planned_state list \<times> comparison_plan) tracker_op" where
  "plan_states R D C snap [] plan = returning ([], plan)"
| "plan_states R D C snap (f # fs) plan =
     and_then (plan_state R D C snap f plan) (\<lambda>(p, plan).
     and_then (plan_states R D C snap fs plan) (\<lambda>(ps, plan).
     returning (p # ps, plan)))"

definition resolve_state ::
  "codec \<Rightarrow> snapshot \<Rightarrow> (bytes \<rightharpoonup> baseline_comparison) \<Rightarrow> changed_file \<times> planned_state \<Rightarrow> review_state tracker_op" where
  "resolve_state C snap results fp =
     (case fp of (f, planned) \<Rightarrow>
        case planned of
          Resolved st \<Rightarrow> returning st
        | Compare baseline \<Rightarrow>
            (case results baseline of
               Some Missing \<Rightarrow>
                 and_then (path_of f) (\<lambda>path.
                 and_then (in_store (unreview_mark C (unit_of snap) path)) (\<lambda>_.
                 returning (state_unreviewed (statistics f) (Some BaselineExpired))))
             | Some (ComparedPaths stats) \<Rightarrow>
                 and_then (path_of f) (\<lambda>path.
                 returning (case stats path of
                     Some s \<Rightarrow> state_changed_since_review s
                   | None \<Rightarrow> state_reviewed))
             | None \<Rightarrow> refusing ''comparison plan omitted a stored baseline''))"

fun resolve_states ::
  "codec \<Rightarrow> snapshot \<Rightarrow> (bytes \<rightharpoonup> baseline_comparison) \<Rightarrow> (changed_file \<times> planned_state) list \<Rightarrow>
     review_state list tracker_op" where
  "resolve_states C snap results [] = returning []"
| "resolve_states C snap results (fp # fps) =
     and_then (resolve_state C snap results fp) (\<lambda>st.
     and_then (resolve_states C snap results fps) (\<lambda>sts.
     returning (st # sts)))"

definition statuses :: "repo \<Rightarrow> differ \<Rightarrow> codec \<Rightarrow> snapshot \<Rightarrow> review_state list tracker_op" where
  "statuses R D C snap =
     and_then (plan_states R D C snap (sn_files snap) Map.empty) (\<lambda>(planned, plan).
     and_then (asked (rp_compare R snap plan)) (\<lambda>results.
     resolve_states C snap results (zip (sn_files snap) planned)))"

section \<open>Diffs\<close>

definition whole_file_reviewed_version :: "review_diff \<Rightarrow> bytes option" where
  "whole_file_reviewed_version d = reverse_apply (rd_unified d) (text_or_empty (rd_new d))"

definition load_unreviewed :: "repo \<Rightarrow> snapshot \<Rightarrow> changed_file \<Rightarrow> review_diff tracker_op" where
  "load_unreviewed R snap f =
     and_then (asked (rp_diff R snap f)) (\<lambda>unified.
     and_then (asked (base_file_content R snap (old_path f) (old_kind f))) (\<lambda>old.
     and_then (asked (file_content R (commit_of snap) (new_path f) (new_kind f))) (\<lambda>new.
     returning \<lparr>rd_unified = unified, rd_old = old, rd_new = new, rd_hunks = hunks_unreviewed (parse_file_diff unified f)\<rparr>)))"

definition load_compared :: "repo \<Rightarrow> differ \<Rightarrow> snapshot \<Rightarrow> changed_file \<Rightarrow> bytes \<Rightarrow> bytes \<Rightarrow> review_diff tracker_op" where
  "load_compared R D snap f baseline d =
     (let kind = (if old_kind f = File then old_kind f else new_kind f)
      in and_then (path_of f) (\<lambda>path.
         and_then (asked (file_content R baseline (Some path) kind)) (\<lambda>old.
         and_then (asked (file_content R (commit_of snap) (new_path f) (new_kind f))) (\<lambda>new.
         let loaded = \<lparr>rd_unified = d, rd_old = old, rd_new = new, rd_hunks = no_hunks\<rparr>
         in case whole_file_reviewed_version loaded of
              None \<Rightarrow> returning loaded
            | Some reviewed \<Rightarrow>
                and_then (asked (base_text R snap f)) (\<lambda>base.
                returning (loaded\<lparr>rd_hunks := hunks D (hunk_review_new base reviewed (text_or_empty new))
                  (parse_file_diff d f) Outdated\<rparr>))))))"

definition load_diff ::
  "repo \<Rightarrow> differ \<Rightarrow> codec \<Rightarrow> snapshot \<Rightarrow> changed_file \<Rightarrow> load_result \<Rightarrow> review_diff tracker_op" where
  "load_diff R D C snap f r =
     and_then (compare_record R D C snap f r) (\<lambda>c.
     case c of
       NotCompared _ \<Rightarrow> load_unreviewed R snap f
     | Compared baseline d \<Rightarrow> load_compared R D snap f baseline d
     | PartialComparison reviewed current d hs \<Rightarrow>
         returning \<lparr>rd_unified = d, rd_old = Some (rv_text reviewed), rd_new = current, rd_hunks = hs\<rparr>)"

definition from_cache :: "snapshot \<Rightarrow> repo_path \<Rightarrow> load_result \<Rightarrow> review_diff option tracker_op" where
  "from_cache snap path r tk =
     (case cache_get (sn_identity snap) path r (tk_cache tk) of (d, dc) \<Rightarrow> (Inr d, tk\<lparr>tk_cache := dc\<rparr>))"

definition into_cache :: "snapshot \<Rightarrow> repo_path \<Rightarrow> load_result \<Rightarrow> review_diff \<Rightarrow> unit tracker_op" where
  "into_cache snap path r d tk =
     (Inr (), tk\<lparr>tk_cache := cache_insert (sn_identity snap) path r d (tk_cache tk)\<rparr>)"

definition tracker_diff :: "repo \<Rightarrow> differ \<Rightarrow> codec \<Rightarrow> snapshot \<Rightarrow> changed_file \<Rightarrow> review_diff tracker_op" where
  "tracker_diff R D C snap f =
     and_then (path_of f) (\<lambda>path.
     and_then (load_of C snap f) (\<lambda>r.
     and_then (from_cache snap path r) (\<lambda>cached.
     case cached of
       Some d \<Rightarrow> returning d
     | None \<Rightarrow>
         and_then (load_diff R D C snap f r) (\<lambda>d.
         and_then (into_cache snap path r d) (\<lambda>_.
         returning d)))))"

section \<open>The three versions of a path\<close>

record versions =
  vs_base :: bytes
  vs_reviewed :: reviewed
  vs_current :: bytes

definition versions_review :: "versions \<Rightarrow> hunk_review" where
  "versions_review vs =
     attributed (hunk_review_new (vs_base vs) (rv_text (vs_reviewed vs)) (vs_current vs)) (rv_attribution (vs_reviewed vs))"

definition no_attribution :: attribution where
  "no_attribution = \<lparr>at_default = Reviewer, at_removed = [], at_added = []\<rparr>"

definition reviewed_version_of ::
  "differ \<Rightarrow> codec \<Rightarrow> snapshot \<Rightarrow> changed_file \<Rightarrow> review_diff \<Rightarrow> bytes \<Rightarrow> reviewed tracker_op" where
  "reviewed_version_of D C snap f d base =
     and_then (load_of C snap f) (\<lambda>r.
     case r of
       Unreviewed \<Rightarrow> returning \<lparr>rv_text = base, rv_attribution = no_attribution\<rparr>
     | UnknownSchema \<Rightarrow> refusing (''a newer reviewer wrote this file'' @ [CHR 0x27] @ ''s review mark'')
     | Reviewed rr \<Rightarrow>
         (case rr_partial rr of
            Some partial \<Rightarrow> returning (replay D (pr_base partial) (pr_reviewed partial) base)
          | None \<Rightarrow>
              (case whole_file_reviewed_version d of
                 None \<Rightarrow> refusing ''could not rebuild the reviewed version of the file''
               | Some text \<Rightarrow> returning \<lparr>rv_text = text, rv_attribution = uniform (rr_author rr)\<rparr>)))"

definition versions_of :: "repo \<Rightarrow> differ \<Rightarrow> codec \<Rightarrow> snapshot \<Rightarrow> changed_file \<Rightarrow> review_diff \<Rightarrow> versions tracker_op" where
  "versions_of R D C snap f d =
     and_then (asked (base_text R snap f)) (\<lambda>base.
     and_then (reviewed_version_of D C snap f d base) (\<lambda>reviewed.
     returning \<lparr>vs_base = base, vs_reviewed = reviewed, vs_current = text_or_empty (rd_new d)\<rparr>))"

section \<open>Marking\<close>

definition store_partial :: "codec \<Rightarrow> snapshot \<Rightarrow> repo_path \<Rightarrow> versions \<Rightarrow> reviewed \<Rightarrow> unit tracker_op" where
  "store_partial C snap path vs reviewed =
     and_then (in_store (mark_partial C (unit_of snap) path (commit_of snap)
       \<lparr>pr_base = vs_base vs, pr_reviewed = reviewed\<rparr>)) (\<lambda>_.
     returning ())"

definition store_version :: "codec \<Rightarrow> snapshot \<Rightarrow> changed_file \<Rightarrow> versions \<Rightarrow> reviewed_version \<Rightarrow> unit tracker_op" where
  "store_version C snap f vs v =
     and_then (path_of f) (\<lambda>path.
     case v of
       Current at \<Rightarrow>
         (case uniform_author at of
            Some author \<Rightarrow>
              and_then (in_store (mark_file C (unit_of snap) path (commit_of snap) author)) (\<lambda>_. returning ())
          | None \<Rightarrow> store_partial C snap path vs \<lparr>rv_text = vs_current vs, rv_attribution = at\<rparr>)
     | Base \<Rightarrow> in_store (unreview_mark C (unit_of snap) path)
     | Partial reviewed \<Rightarrow> store_partial C snap path vs reviewed)"

definition edit ::
  "repo \<Rightarrow> differ \<Rightarrow> codec \<Rightarrow> snapshot \<Rightarrow> changed_file \<Rightarrow>
     (review_diff \<Rightarrow> hunk_review \<Rightarrow> bytes + reviewed_version option) \<Rightarrow> mark_result tracker_op" where
  "edit R D C snap f change =
     and_then (asked (rp_identity R)) (\<lambda>identity.
     if review_unit identity \<noteq> unit_of snap then returning ChangeChanged
     else with_marks_lock (review_unit identity)
       (and_then (tracker_diff R D C snap f) (\<lambda>d.
        and_then (versions_of R D C snap f d) (\<lambda>vs.
        and_then (reading (\<lambda>_. map_sum Refused id (change d (versions_review vs)))) (\<lambda>v.
        case v of
          None \<Rightarrow> returning NothingToMark
        | Some v \<Rightarrow> and_then (store_version C snap f vs v) (\<lambda>_. returning Marked))))))"

definition tracker_mark ::
  "repo \<Rightarrow> codec \<Rightarrow> snapshot \<Rightarrow> changed_file \<Rightarrow> mark_author \<Rightarrow> mark_result tracker_op" where
  "tracker_mark R C snap f author =
     and_then (asked (rp_identity R)) (\<lambda>identity.
     if review_unit identity \<noteq> unit_of snap then returning ChangeChanged
     else with_marks_lock (review_unit identity)
       (and_then (path_of f) (\<lambda>path.
        and_then (in_store (mark_file C (review_unit identity) path (snapshot_id identity) author)) (\<lambda>_.
        returning Marked))))"

definition hunk_listed :: "review_diff \<Rightarrow> hunk_mark \<Rightarrow> bool" where
  "hunk_listed d m =
     (case m of
        Review span \<Rightarrow> list_ex (\<lambda>h. oh_span h = span) (fh_open (rd_hunks d))
      | Unreview span \<Rightarrow> list_ex (\<lambda>h. rh_span h = span) (fh_reviewed (rd_hunks d)))"

definition mark_hunk ::
  "repo \<Rightarrow> differ \<Rightarrow> codec \<Rightarrow> snapshot \<Rightarrow> changed_file \<Rightarrow> hunk_mark \<Rightarrow> mark_author \<Rightarrow> mark_result tracker_op" where
  "mark_hunk R D C snap f m author =
     edit R D C snap f (\<lambda>d hr.
       if \<not> hunk_listed d m then Inl ''the hunk changed; wait for the next refresh''
       else case (case m of Review span \<Rightarrow> review D hr span author | Unreview span \<Rightarrow> unreview D hr span) of
         None \<Rightarrow> Inl ''the hunk no longer matches the file; wait for the next refresh''
       | Some v \<Rightarrow> Inr (Some v))"

definition tracker_accept_lines ::
  "repo \<Rightarrow> differ \<Rightarrow> codec \<Rightarrow> snapshot \<Rightarrow> changed_file \<Rightarrow> line_selection \<Rightarrow> mark_author \<Rightarrow> mark_result tracker_op" where
  "tracker_accept_lines R D C snap f sel author =
     edit R D C snap f (\<lambda>d hr.
       Inr (if file_hunks_is_empty (rd_hunks d) then None else accept_lines D hr sel author))"

definition tracker_reopen_lines ::
  "repo \<Rightarrow> differ \<Rightarrow> codec \<Rightarrow> snapshot \<Rightarrow> changed_file \<Rightarrow> line_selection \<Rightarrow> mark_result tracker_op" where
  "tracker_reopen_lines R D C snap f sel =
     edit R D C snap f (\<lambda>d hr.
       Inr (if file_hunks_is_empty (rd_hunks d) then None else reopen_lines D hr sel))"

definition review_hunks_where ::
  "repo \<Rightarrow> differ \<Rightarrow> codec \<Rightarrow> snapshot \<Rightarrow> changed_file \<Rightarrow> bool \<Rightarrow> mark_author \<Rightarrow> (changed_lines \<Rightarrow> bool) \<Rightarrow> nat tracker_op" where
  "review_hunks_where R D C snap f may_review_file author accept =
     with_marks_lock (unit_of snap)
       (and_then (tracker_diff R D C snap f) (\<lambda>d.
        let spans = map oh_span (fh_open (rd_hunks d))
        in if spans = [] then returning 0
           else and_then (versions_of R D C snap f d) (\<lambda>vs.
             let hr = versions_review vs;
                 accepted = map fst (filter (\<lambda>(_, lines). accept lines) (zip spans (all_changed_lines D hr spans)))
             in if accepted = [] \<or> \<not> may_review_file \<and> length accepted = length spans then returning 0
                else case review_all D hr accepted author of
                  None \<Rightarrow> refusing ''the open hunks overlap''
                | Some v \<Rightarrow> and_then (store_version C snap f vs v) (\<lambda>_. returning (length accepted)))))"

definition tracker_unreview :: "codec \<Rightarrow> snapshot \<Rightarrow> changed_file \<Rightarrow> unit tracker_op" where
  "tracker_unreview C snap f =
     with_marks_lock (unit_of snap)
       (and_then (path_of f) (\<lambda>path. in_store (unreview_mark C (unit_of snap) path)))"

section \<open>What the interface asks\<close>

definition whole_file_author :: "codec \<Rightarrow> snapshot \<Rightarrow> changed_file \<Rightarrow> mark_author option tracker_op" where
  "whole_file_author C snap f =
     and_then (load_of C snap f) (\<lambda>r.
     returning (case r of
       Reviewed rr \<Rightarrow> if rr_partial rr = None then Some (rr_author rr) else None
     | _ \<Rightarrow> None))"

definition tracker_lines :: "repo \<Rightarrow> differ \<Rightarrow> codec \<Rightarrow> snapshot \<Rightarrow> changed_file \<Rightarrow> file_lines tracker_op" where
  "tracker_lines R D C snap f =
     (if \<not> changes_text_lines f then returning no_file_lines
      else and_then (tracker_diff R D C snap f) (\<lambda>d.
        if file_hunks_is_empty (rd_hunks d) then returning no_file_lines
        else and_then (versions_of R D C snap f d) (\<lambda>vs.
          let hr = versions_review vs;
              opened = fh_open (rd_hunks d)
          in returning \<lparr>fl_open = map (\<lambda>(lines, h). \<lparr>ol_lines = lines, ol_since_review = oh_since_review h\<rparr>)
                 (zip (all_changed_lines D hr (map oh_span opened)) opened),
               fl_reviewed = reviewed_lines_of D hr\<rparr>)))"

definition copy_into :: "snapshot_identity \<Rightarrow> tracker tracker_op" where
  "copy_into identity =
     and_then (in_store (copy_marks (review_unit identity))) (\<lambda>dk.
     returning \<lparr>tk_marks = dk, tk_cache = cache_new\<rparr>)"

end
