(* ===== verification/MarkLaws.thy ===== *)
theory MarkLaws
  imports MarkStore
begin

text \<open>
  The laws of the review marks on disk (\<open>MarkStore\<close>): attributions that are loaded in order and come back as
  they were stored, what the record of a path reads as after each operation, and what faults leave.
\<close>

section \<open>Attributions\<close>

text \<open>Entries that name some line each, in order and without overlap, from line \<open>n\<close> on.\<close>

fun entries_ok :: "nat \<Rightarrow> authored_lines list \<Rightarrow> bool" where
  "entries_ok n [] \<longleftrightarrow> True"
| "entries_ok n (e # es) \<longleftrightarrow> n \<le> fst (al_lines e) \<and> fst (al_lines e) < snd (al_lines e) \<and> entries_ok (snd (al_lines e)) es"

definition attribution_ok :: "attribution \<Rightarrow> bool" where
  "attribution_ok at \<longleftrightarrow> entries_ok 0 (at_removed at) \<and> entries_ok 0 (at_added at)"

lemma entries_ok_retain:
  "\<forall>e \<in> set es. fst (al_lines e) < snd (al_lines e) \<Longrightarrow> entries_ok n (retain_separate n es)"
  by (induction es arbitrary: n) auto

lemma retain_entries_ok: "entries_ok n es \<Longrightarrow> retain_separate n es = es"
  by (induction es arbitrary: n) auto

lemma entries_ok_lower: "entries_ok n es \<Longrightarrow> \<forall>e \<in> set es. n \<le> fst (al_lines e) \<and> fst (al_lines e) < snd (al_lines e)"
  by (induction es arbitrary: n) fastforce+

lemma sorted_entries_ok: "entries_ok n es \<Longrightarrow> sorted (map (\<lambda>e. fst (al_lines e)) es)"
proof (induction es arbitrary: n)
  case (Cons e es)
  then show ?case using entries_ok_lower [of "snd (al_lines e)" es] by fastforce
qed simp

lemma decoded_author_new [simp]: "decoded_author (stored_author_new a) = a" "author_decode (stored_author_new a) = Some a"
  by (simp_all add: decoded_author_def author_decode_def stored_author_new_def)

lemma attribution_entries_stored: "entries_ok 0 es \<Longrightarrow> attribution_entries (stored_entries es) = es"
proof -
  assume ok: "entries_ok 0 es"
  have "filter (\<lambda>e. sl_start e < sl_end e) (stored_entries es) = stored_entries es"
    using entries_ok_lower [OF ok] by (auto simp: stored_entries_def filter_id_conv)
  moreover have "(\<lambda>x :: authored_lines. \<lparr>al_lines = al_lines x, al_author = al_author x\<rparr>) = (\<lambda>x. x)"
    by (simp add: fun_eq_iff)
  ultimately show ?thesis
    using retain_entries_ok [OF ok] sort_key_id_if_sorted [OF sorted_entries_ok [OF ok]]
    by (simp add: attribution_entries_def stored_entries_def comp_def)
qed

lemma to_attribution_from: "attribution_ok at \<Longrightarrow> to_attribution (from_attribution at) = at"
  by (simp add: attribution_ok_def to_attribution_def from_attribution_def attribution_entries_stored)

lemma attribution_ok_loaded: "attribution_ok (to_attribution sa)"
  by (auto simp: attribution_ok_def to_attribution_def attribution_entries_def intro!: entries_ok_retain)

lemma attribution_ok_uniform [simp]: "attribution_ok (uniform a)"
  by (simp add: attribution_ok_def uniform_def)

text \<open>The writer of \<open>Attribution\<close> records entries in order.\<close>

lemma entries_ok_append:
  "entries_ok n (es @ fs) \<longleftrightarrow> entries_ok n es \<and> entries_ok (if es = [] then n else snd (al_lines (last es))) fs"
  by (induction es arbitrary: n) auto

lemma entries_ok_weaken: "entries_ok n es \<Longrightarrow> m \<le> n \<Longrightarrow> entries_ok m es"
  by (cases es) auto

lemma entries_ok_runs: "sorted_wrt (<) (map fst xs) \<Longrightarrow> entries_ok 0 (runs d xs)"
proof (induction xs rule: rev_induct)
  case (snoc x xs)
  obtain l a where x: "x = (l, a)" by (cases x)
  from snoc.prems have lt: "\<forall>y \<in> set xs. fst y < l" and ok: "entries_ok 0 (runs d xs)"
    using snoc.IH by (auto simp: x sorted_wrt_append)
  have ends: "snd (al_lines e) \<le> l" if "e \<in> set (runs d xs)" for e using runs_ends [OF lt that] by blast
  show ?case
  proof (cases "runs d xs" rule: rev_cases)
    case Nil
    then show ?thesis by (simp add: runs_snoc x run_step_def)
  next
    case (snoc es e)
    then show ?thesis using ok ends [of e] by (auto simp: runs_snoc x run_step_def entries_ok_append)
  qed
qed simp

lemma attribution_ok_finish: "line_diff D \<Longrightarrow> attribution_ok (rv_attribution (rb_finish D rb base))"
  using edit_script_sorted [OF line_diff_script]
  by (auto simp: attribution_ok_def rb_finish_def Let_def comp_def intro!: entries_ok_runs)

section \<open>What the record of a path reads as\<close>

definition stored_at :: "marks_disk \<Rightarrow> bytes \<Rightarrow> bytes \<Rightarrow> stored_record option" where
  "stored_at dk unit key = (case md_records dk unit key of Some (Some sr) \<Rightarrow> Some sr | _ \<Rightarrow> None)"

definition mark_on :: "codec \<Rightarrow> marks_disk \<Rightarrow> bytes \<Rightarrow> bytes \<Rightarrow> load_result" where
  "mark_on C dk unit path = loaded_record C unit path (stored_at dk unit (path_hash C path))"

lemma attempt_eq: "attempt step unit key dk = (r, dk') \<longleftrightarrow>
    dk' = dk \<and> r = (case md_faults dk step unit key of Some e \<Rightarrow> Inl e | None \<Rightarrow> Inr ())"
  by (auto simp: attempt_def)

lemma attempt_state [simp]: "snd (attempt step unit key dk) = dk"
  by (simp add: attempt_def reading_def)

lemma read_stored_Inr: "read_stored unit key dk = (Inr x, dk') \<Longrightarrow> dk' = dk \<and> x = stored_at dk unit key"
  by (auto simp: read_stored_def and_then_Inr attempt_eq stored_at_def)

lemma read_stored_state: "snd (read_stored unit key dk) = dk"
  by (simp add: read_stored_def and_then_def attempt_def reading_def split: option.splits)

lemma load_mark_Inr:
  "load_mark C unit path dk = (Inr r, dk') \<Longrightarrow>
     dk' = dk \<and> r = mark_on C dk unit path \<and> validate_unit unit = Inr () \<and> validate_path path = Inr ()"
  by (auto simp: load_mark_def and_then_Inr mark_on_def dest!: read_stored_Inr)

lemma load_mark_state [simp]: "snd (load_mark C unit path dk) = dk"
  using read_stored_state [of unit "path_hash C path" dk]
  by (auto simp: load_mark_def and_then_def reading_def split: sum.splits prod.splits)

text \<open>The record that was encoded reads as it was, its attribution in order.\<close>

lemma decode_path_encoded: "codec_ok C \<Longrightarrow> decode_path C (encode_record C unit rr) = Some (rr_path rr)"
  by (simp add: decode_path_def encode_record_def encode_path_def codec_ok_def)

lemma known_stored_entries: "list_all (\<lambda>sa. author_decode sa \<noteq> None) (map sl_author (stored_entries es))"
  by (simp add: stored_entries_def list_all_iff)

lemma known_schema_encoded: "has_known_schema (encode_record C unit rr)"
  using known_stored_entries
  by (auto simp: has_known_schema_def has_known_authors_def encode_record_def FILE_SCHEMA_VERSION_def PARTIAL_SCHEMA_VERSION_def
      from_attribution_def split: option.splits)

definition partial_ok :: "partial_review \<Rightarrow> bool" where
  "partial_ok pr \<longleftrightarrow> attribution_ok (rv_attribution (pr_reviewed pr))"

definition record_ok :: "review_record \<Rightarrow> bool" where
  "record_ok rr \<longleftrightarrow> (\<forall>pr. rr_partial rr = Some pr \<longrightarrow> partial_ok pr)"

lemma encode_record_simps [simp]:
  "sr_unit (encode_record C unit rr) = unit" "sr_commit (encode_record C unit rr) = rr_commit rr"
  "sr_at (encode_record C unit rr) = rr_at rr" "sr_author (encode_record C unit rr) = stored_author_new (rr_author rr)"
  by (simp_all add: encode_record_def)

text \<open>A record as it comes back: its attribution in order.\<close>

definition reread :: "review_record \<Rightarrow> review_record" where
  "reread rr = rr\<lparr>rr_partial := map_option (\<lambda>pr. pr\<lparr>pr_reviewed := (pr_reviewed pr)
     \<lparr>rv_attribution := to_attribution (from_attribution (rv_attribution (pr_reviewed pr)))\<rparr>\<rparr>) (rr_partial rr)\<rparr>"

lemma reread_ok: "record_ok rr \<Longrightarrow> reread rr = rr"
  by (cases "rr_partial rr") (simp_all add: reread_def record_ok_def partial_ok_def to_attribution_from)

lemma decode_partial_encoded:
  "codec_ok C \<Longrightarrow> decode_partial C (encode_record C unit rr) = Inr (rr_partial (reread rr))"
  by (cases "rr_partial rr")
    (simp_all add: decode_partial_def encode_record_def codec_ok_def reread_def FILE_SCHEMA_VERSION_def PARTIAL_SCHEMA_VERSION_def)

lemma loaded_encoded:
  assumes "codec_ok C" "commit_valid (rr_commit rr)"
  shows "loaded_record C unit path (Some (encode_record C unit rr)) =
    (if path = rr_path rr then Reviewed (reread rr) else Unreviewed)"
  using assms
  by (simp add: loaded_record_def known_schema_encoded decode_path_encoded decode_partial_encoded) (simp add: reread_def)

section \<open>Writing a mark\<close>

text \<open>What a write leaves, whether it fails or not: the records as they were, or the new one in its place.\<close>

definition with_record :: "bytes \<Rightarrow> bytes \<Rightarrow> stored_record option option \<Rightarrow> marks_disk \<Rightarrow> bytes \<Rightarrow> bytes \<rightharpoonup> stored_record option" where
  "with_record unit key content dk = (md_records dk)(unit := (md_records dk unit)(key := content))"

lemma put_record_eq: "put_record unit key content dk = (Inr (), dk\<lparr>md_records := with_record unit key content dk\<rparr>)"
  by (simp add: put_record_def with_record_def)

lemma make_directory_eq: "make_directory unit dk = (r, dk') \<Longrightarrow>
    md_records dk' = md_records dk \<and> md_faults dk' = md_faults dk \<and> md_held dk' = md_held dk \<and> md_now dk' = md_now dk"
  by (auto simp: make_directory_def and_then_def attempt_def reading_def split: option.splits)

lemma stamp_marks_eq: "stamp_marks unit dk = (r, dk') \<Longrightarrow>
    md_records dk' = md_records dk \<and> md_faults dk' = md_faults dk \<and> md_held dk' = md_held dk \<and> md_now dk' = md_now dk"
  by (auto simp: stamp_marks_def and_then_def attempt_def reading_def split: option.splits)

definition no_collision :: "codec \<Rightarrow> marks_disk \<Rightarrow> bytes \<Rightarrow> bytes \<Rightarrow> bool" where
  "no_collision C dk unit path \<longleftrightarrow>
     (\<forall>sr. stored_at dk unit (path_hash C path) = Some sr \<longrightarrow> has_known_schema sr \<longrightarrow> decode_path C sr = Some path)"

lemma write_record_cases:
  assumes "write_record C unit rr dk = (r, dk')"
  obtains (kept) e where "r = Inl e" "md_records dk' = md_records dk" "md_held dk' = md_held dk" "md_faults dk' = md_faults dk"
  | (written) "no_collision C dk unit (rr_path rr)"
      "md_records dk' = with_record unit (path_hash C (rr_path rr)) (Some (Some (encode_record C unit rr))) dk"
      "md_held dk' = md_held dk" "md_faults dk' = md_faults dk"
proof -
  obtain x dk1 where x: "make_directory unit dk = (x, dk1)" by fastforce
  note same = make_directory_eq [OF x]
  show thesis
  proof (cases x)
    case (Inl e)
    with x assms same kept show thesis by (auto simp: write_record_def Let_def and_then_def)
  next
    case (Inr u)
    obtain y dk2 where y: "read_stored unit (path_hash C (rr_path rr)) dk1 = (y, dk2)" by fastforce
    have dk2: "dk2 = dk1" using read_stored_state [of unit "path_hash C (rr_path rr)" dk1] y by simp
    show thesis
    proof (cases y)
      case (Inl e)
      with x Inr y dk2 assms same kept show thesis by (auto simp: write_record_def Let_def and_then_def)
    next
      case inr: (Inr existing)
      have existing: "existing = stored_at dk unit (path_hash C (rr_path rr))"
        using read_stored_Inr y inr same by (fastforce simp: stored_at_def)
      show thesis
      proof (cases "no_collision C dk unit (rr_path rr)")
        case True
        then have "(case existing of Some sr \<Rightarrow>
            if has_known_schema sr \<and> decode_path C sr \<noteq> Some (rr_path rr) then Inl (StateCollision (path_hash C (rr_path rr))) else Inr ()
          | None \<Rightarrow> Inr ()) = Inr ()"
          by (auto simp: existing no_collision_def split: option.splits)
        with assms x Inr y inr dk2 same kept written True show thesis
          by (auto simp: write_record_def Let_def and_then_def attempt_def reading_def put_record_eq with_record_def split: option.splits)
      next
        case False
        then have "(case existing of Some sr \<Rightarrow>
            if has_known_schema sr \<and> decode_path C sr \<noteq> Some (rr_path rr) then Inl (StateCollision (path_hash C (rr_path rr))) else Inr ()
          | None \<Rightarrow> Inr ()) = Inl (StateCollision (path_hash C (rr_path rr)))"
          by (auto simp: existing no_collision_def split: option.splits)
        with assms x Inr y inr dk2 same kept show thesis
          by (auto simp: write_record_def Let_def and_then_def reading_def)
      qed
    qed
  qed
qed

lemma write_record_Inr:
  "write_record C unit rr dk = (Inr u, dk') \<Longrightarrow> no_collision C dk unit (rr_path rr) \<and>
     md_records dk' = with_record unit (path_hash C (rr_path rr)) (Some (Some (encode_record C unit rr))) dk"
  by (erule write_record_cases) auto

lemma validate_reading: "reading (\<lambda>_. validate_unit unit) dk = (r, dk') \<longleftrightarrow> r = validate_unit unit \<and> dk' = dk"
  by auto

text \<open>A mark that fails leaves every record as it was, or has replaced the one of its path.\<close>

lemma store_mark_cases:
  assumes "store_mark C unit path commit author partial dk = (r, dk')"
  obtains (kept) e where "r = Inl e" "md_records dk' = md_records dk" "md_held dk' = md_held dk" "md_faults dk' = md_faults dk"
  | (written) now where "md_now dk = Inr now" "no_collision C dk unit path" "validate_unit unit = Inr ()" "commit_valid commit"
      "validate_path path = Inr ()" "md_held dk' = md_held dk" "md_faults dk' = md_faults dk"
      "md_records dk' = with_record unit (path_hash C path) (Some (Some (encode_record C unit
         \<lparr>rr_path = path, rr_commit = commit, rr_at = now, rr_author = author, rr_partial = partial\<rparr>))) dk"
      "\<And>x. r = Inr x \<Longrightarrow> x = \<lparr>rr_path = path, rr_commit = commit, rr_at = now, rr_author = author, rr_partial = partial\<rparr>"
proof (cases "validate_unit unit = Inr () \<and> validate_commit commit = Inr () \<and> validate_path path = Inr () \<and> (\<exists>now. md_now dk = Inr now)")
  case False
  then show thesis
    using assms kept
    by (cases "validate_unit unit"; cases "validate_commit commit"; cases "validate_path path"; cases "md_now dk")
      (auto simp: store_mark_def and_then_def reading_def Let_def)
next
  case True
  then obtain now where now: "md_now dk = Inr now" and valid: "validate_unit unit = Inr ()" "commit_valid commit" "validate_path path = Inr ()"
    by (auto simp: validate_commit_def split: if_splits)
  let ?rr = "\<lparr>rr_path = path, rr_commit = commit, rr_at = now, rr_author = author, rr_partial = partial\<rparr>"
  obtain x dk1 where x: "write_record C unit ?rr dk = (x, dk1)" by fastforce
  have run: "(r, dk') = (case x of Inl e \<Rightarrow> (Inl e, dk1)
      | Inr _ \<Rightarrow> and_then (stamp_marks unit) (\<lambda>_. reading (\<lambda>_. Inr ?rr)) dk1)"
    using assms True now x by (simp add: store_mark_def and_then_def reading_def Let_def split: sum.splits)
  from x show thesis
  proof (cases rule: write_record_cases)
    case (kept e)
    with run show thesis by (intro that(1)) auto
  next
    case written
    obtain y dk2 where y: "stamp_marks unit dk1 = (y, dk2)" by fastforce
    from run y have "(x = Inl e \<longrightarrow> (r, dk') = (Inl e, dk1)) \<and> dk' \<in> {dk1, dk2} \<and> (\<forall>z. r = Inr z \<longrightarrow> z = ?rr)" for e
      by (cases x; cases y) (auto simp: and_then_def reading_def)
    then have "dk' \<in> {dk1, dk2}" "r = Inr z \<Longrightarrow> z = ?rr" for z by blast+
    with written stamp_marks_eq [OF y] now valid show thesis by (intro that(2)) auto
  qed
qed

lemma mark_on_other:
  assumes "no_collision C dk unit path" "rr_path rr = path" "codec_ok C" "(unit', path') \<noteq> (unit, path)"
    and "md_records dk' = with_record unit (path_hash C path) (Some (Some (encode_record C unit rr))) dk"
  shows "mark_on C dk' unit' path' = mark_on C dk unit' path' \<or>
    mark_on C dk unit' path' = UnknownSchema \<and> mark_on C dk' unit' path' = Unreviewed"
proof (cases "unit' = unit \<and> path_hash C path' = path_hash C path")
  case True
  with assms(4) have other: "path' \<noteq> path" by blast
  have at: "stored_at dk' unit (path_hash C path) = Some (encode_record C unit rr)"
    by (simp add: stored_at_def assms(5) with_record_def)
  have "mark_on C dk' unit' path' = Unreviewed"
    using True at other assms(2,3) by (auto simp: mark_on_def loaded_record_def known_schema_encoded decode_path_encoded split: sum.splits)
  moreover have "mark_on C dk unit' path' \<in> {UnknownSchema, Unreviewed}"
    using assms(1) True other
    by (auto simp: no_collision_def mark_on_def loaded_record_def split: option.splits sum.splits)
  ultimately show ?thesis by auto
next
  case False
  then have "stored_at dk' unit' (path_hash C path') = stored_at dk unit' (path_hash C path')"
    by (auto simp: stored_at_def assms(5) with_record_def)
  then show ?thesis by (simp add: mark_on_def)
qed

lemma mark_on_written:
  assumes "codec_ok C" "commit_valid (rr_commit rr)"
    and "md_records dk' = with_record unit (path_hash C (rr_path rr)) (Some (Some (encode_record C unit rr))) dk"
  shows "mark_on C dk' unit (rr_path rr) = Reviewed (reread rr)"
  using loaded_encoded [OF assms(1,2), of unit "rr_path rr"] by (simp add: mark_on_def stored_at_def assms(3) with_record_def)

section \<open>Removing a mark\<close>

lemma unreview_mark_cases:
  assumes "unreview_mark C unit path dk = (r, dk')"
  obtains (kept) "md_records dk' = md_records dk" "md_held dk' = md_held dk" "md_faults dk' = md_faults dk"
      "r = Inr () \<Longrightarrow> md_records dk unit (path_hash C path) = None"
  | (removed) "md_records dk' = with_record unit (path_hash C path) None dk" "md_held dk' = md_held dk" "md_faults dk' = md_faults dk"
proof (cases "validate_unit unit = Inr () \<and> validate_path path = Inr ()")
  case False
  then consider e where "validate_unit unit = Inl e" | e where "validate_unit unit = Inr ()" "validate_path path = Inl e"
    by (cases "validate_unit unit"; cases "validate_path path") auto
  then have "\<exists>e. (r, dk') = (Inl e, dk)"
    by cases (simp_all flip: assms add: unreview_mark_def and_then_reading Let_def)
  with kept show thesis by auto
next
  case True
  let ?key = "path_hash C path"
  show thesis
  proof (cases "md_records dk unit ?key = None")
    case none: True
    with True assms kept show thesis by (auto simp: unreview_mark_def and_then_def reading_def Let_def)
  next
    case some: False
    show thesis
    proof (cases "md_faults dk RemoveRecord unit ?key")
      case (Some e)
      with True some assms kept show thesis by (auto simp: unreview_mark_def and_then_def attempt_def reading_def Let_def)
    next
      case None
      let ?dk = "dk\<lparr>md_records := with_record unit ?key None dk\<rparr>"
      obtain y dk2 where y: "stamp_marks unit ?dk = (y, dk2)" by fastforce
      from True some None assms y have "dk' \<in> {?dk, dk2}"
        by (cases "md_faults dk SyncRecord unit ?key")
          (auto simp: unreview_mark_def and_then_def attempt_def reading_def put_record_eq Let_def)
      with stamp_marks_eq [OF y] removed show thesis by auto
    qed
  qed
qed

lemma mark_on_removed:
  assumes "md_records dk' = with_record unit (path_hash C path) None dk"
  shows "mark_on C dk' unit path = Unreviewed"
  by (simp add: mark_on_def stored_at_def assms with_record_def loaded_record_def)

lemma unreview_mark_Inr:
  "unreview_mark C unit path dk = (Inr (), dk') \<Longrightarrow> mark_on C dk' unit path = Unreviewed"
  by (erule unreview_mark_cases) (auto simp: mark_on_def stored_at_def loaded_record_def with_record_def)

lemma unreview_expired_cases:
  assumes "unreview_expired C unit path at dk = (r, dk')"
  obtains (kept) "md_records dk' = md_records dk" "md_held dk' = md_held dk" "md_faults dk' = md_faults dk"
      "\<And>rr. r = Inr () \<Longrightarrow> mark_on C dk unit path = Reviewed rr \<Longrightarrow> rr_at rr \<noteq> at"
  | (removed) rr where "mark_on C dk unit path = Reviewed rr" "rr_at rr = at"
      "md_records dk' = with_record unit (path_hash C path) None dk" "md_held dk' = md_held dk" "md_faults dk' = md_faults dk"
proof -
  obtain x dk1 where x: "load_mark C unit path dk = (x, dk1)" by fastforce
  have dk1: "dk1 = dk" using load_mark_state [of C unit path dk] x by simp
  show thesis
  proof (cases x)
    case (Inl e)
    with x dk1 assms kept show thesis by (auto simp: unreview_expired_def and_then_def)
  next
    case (Inr l)
    have l: "l = mark_on C dk unit path" using load_mark_Inr x Inr by blast
    show thesis
    proof (cases "\<exists>rr. l = Reviewed rr \<and> rr_at rr = at")
      case False
      with x Inr dk1 assms kept l show thesis
        by (auto simp: unreview_expired_def and_then_def reading_def split: load_result.splits if_splits)
    next
      case True
      then obtain rr where rr: "l = Reviewed rr" "rr_at rr = at" by blast
      with x Inr dk1 assms have u: "unreview_mark C unit path dk = (r, dk')"
        by (auto simp: unreview_expired_def and_then_def)
      from u show thesis
      proof (cases rule: unreview_mark_cases)
        case kept
        show thesis
        proof (rule that(1))
          show "md_records dk' = md_records dk" "md_held dk' = md_held dk" "md_faults dk' = md_faults dk" by (fact kept)+
          fix rr'
          assume "r = Inr ()" "mark_on C dk unit path = Reviewed rr'"
          then show "rr_at rr' \<noteq> at" using kept(4) by (simp add: mark_on_def stored_at_def loaded_record_def)
        qed
      next
        case removed
        with rr l that(2) show thesis by simp
      qed
    qed
  qed
qed

end
