(* ===== verification/TrackerLaws.thy ===== *)
theory TrackerLaws
  imports ReviewTracker MarkLaws
begin

text \<open>
  The laws of the review tracker: what its operations leave of the marks, of the cache and of the locks.
  Facts about the state are proved for the parts of an operation and composed along \<open>and_then\<close>.
\<close>

named_theorems tracker_parts \<open>the parts of the tracker's operations keep a fact about its state\<close>

section \<open>Running an operation\<close>

lemma asked_eq: "asked a tk = (r, tk') \<longleftrightarrow> tk' = tk \<and> r = map_sum RepositoryFailed id a"
  by (auto simp: asked_def)

lemma returning_eq [simp]: "returning x tk = (r, tk') \<longleftrightarrow> tk' = tk \<and> r = Inr x"
  by (auto simp: returning_def)

lemma refusing_eq [simp]: "refusing why tk = (r, tk') \<longleftrightarrow> tk' = tk \<and> r = Inl (Refused why)"
  by (auto simp: refusing_def)

lemma path_of_eq: "path_of f tk = (r, tk') \<longleftrightarrow>
    tk' = tk \<and> r = (case review_path f of Some p \<Rightarrow> Inr p | None \<Rightarrow> Inl PathMissing)"
  by (auto simp: path_of_def)

lemma path_of_Inr [simp]: "path_of f tk = (Inr p, tk') \<longleftrightarrow> tk' = tk \<and> review_path f = Some p"
  by (auto simp: path_of_def split: option.splits)

lemma asked_Inr [simp]: "asked a tk = (Inr x, tk') \<longleftrightarrow> tk' = tk \<and> a = Inr x"
  by (cases a) (auto simp: asked_def)

lemma in_store_Inr: "in_store m tk = (Inr x, tk') \<longleftrightarrow> (\<exists>dk. m (tk_marks tk) = (Inr x, dk) \<and> tk' = tk\<lparr>tk_marks := dk\<rparr>)"
  by (cases "m (tk_marks tk)"; cases "fst (m (tk_marks tk))") (auto simp: in_store_def)

lemma in_store_cache [simp]: "tk_cache (snd (in_store m tk)) = tk_cache tk"
  by (simp add: in_store_def split: prod.splits)

lemma in_store_run: "in_store m tk = (r, tk') \<Longrightarrow> \<exists>x dk. m (tk_marks tk) = (x, dk) \<and> r = map_sum StoreFailed id x \<and> tk' = tk\<lparr>tk_marks := dk\<rparr>"
  by (auto simp: in_store_def split: prod.splits)

lemma load_of_Inr: "load_of C snap f tk = (Inr r, tk') \<Longrightarrow>
    tk' = tk \<and> (\<exists>path. review_path f = Some path \<and> r = mark_on C (tk_marks tk) (unit_of snap) path \<and>
      validate_unit (unit_of snap) = Inr () \<and> validate_path path = Inr ())"
  by (auto simp: load_of_def and_then_Inr in_store_Inr dest!: load_mark_Inr)

section \<open>What the parts keep\<close>

text \<open>Parts that change nothing but, perhaps, the records of marks.\<close>

definition keeps_lock :: "'a tracker_op \<Rightarrow> bool" where
  "keeps_lock m \<longleftrightarrow> (\<forall>tk. fst (m tk) \<noteq> Inl LockedOut \<and> md_held (tk_marks (snd (m tk))) = md_held (tk_marks tk))"

lemma keeps_lock_reading [tracker_parts]: "(\<And>tk. f tk \<noteq> Inl LockedOut) \<Longrightarrow> keeps_lock (reading f)"
  by (simp add: keeps_lock_def reading_def)

lemma keeps_lock_and_then [tracker_parts]:
  "keeps_lock m \<Longrightarrow> (\<And>x. keeps_lock (f x)) \<Longrightarrow> keeps_lock (and_then m f)"
  unfolding keeps_lock_def
proof
  fix tk
  assume m: "\<forall>tk. fst (m tk) \<noteq> Inl LockedOut \<and> md_held (tk_marks (snd (m tk))) = md_held (tk_marks tk)"
    and f: "\<And>x. \<forall>tk. fst (f x tk) \<noteq> Inl LockedOut \<and> md_held (tk_marks (snd (f x tk))) = md_held (tk_marks tk)"
  show "fst (and_then m f tk) \<noteq> Inl LockedOut \<and> md_held (tk_marks (snd (and_then m f tk))) = md_held (tk_marks tk)"
    using spec [OF m, of tk] f by (cases "m tk"; cases "fst (m tk)") (auto simp: and_then_def)
qed

lemma keeps_lock_simple [tracker_parts]:
  "keeps_lock (returning x)" "keeps_lock (refusing why)" "keeps_lock (asked a)" "keeps_lock (path_of f)"
  by (auto simp: returning_def refusing_def asked_def path_of_def intro!: keeps_lock_reading split: option.splits)
    (cases a; simp)

lemma keeps_lock_in_store:
  assumes "\<And>dk. md_held (snd (m dk)) = md_held dk"
  shows "keeps_lock (in_store m)"
  unfolding keeps_lock_def
proof
  fix tk :: tracker
  obtain x dk where "m (tk_marks tk) = (x, dk)" by fastforce
  with assms [of "tk_marks tk"] show "fst (in_store m tk) \<noteq> Inl LockedOut \<and>
      md_held (tk_marks (snd (in_store m tk))) = md_held (tk_marks tk)"
    by (cases x) (auto simp: in_store_def)
qed

lemma store_mark_held: "md_held (snd (store_mark C unit path commit author partial dk)) = md_held dk"
proof -
  obtain r dk' where "store_mark C unit path commit author partial dk = (r, dk')" by fastforce
  note run = this
  then show ?thesis by (cases rule: store_mark_cases) (simp_all add: run)
qed

lemma unreview_mark_held: "md_held (snd (unreview_mark C unit path dk)) = md_held dk"
proof -
  obtain r dk' where "unreview_mark C unit path dk = (r, dk')" by fastforce
  note run = this
  then show ?thesis by (cases rule: unreview_mark_cases) (simp_all add: run)
qed

lemma unreview_expired_held: "md_held (snd (unreview_expired C unit path at dk)) = md_held dk"
proof -
  obtain r dk' where "unreview_expired C unit path at dk = (r, dk')" by fastforce
  note run = this
  then show ?thesis by (cases rule: unreview_expired_cases) (simp_all add: run)
qed

lemma copy_marks_state: "snd (copy_marks unit dk) = dk"
  by (simp add: copy_marks_def and_then_def attempt_def reading_def split: option.splits)

lemma keeps_lock_store [tracker_parts]:
  "keeps_lock (in_store (load_mark C unit path))" "keeps_lock (in_store (store_mark C unit path commit author partial))"
  "keeps_lock (in_store (mark_file C unit path commit author))" "keeps_lock (in_store (mark_partial C unit path commit pr))"
  "keeps_lock (in_store (unreview_mark C unit path))" "keeps_lock (in_store (unreview_expired C unit path at))"
  "keeps_lock (in_store (copy_marks unit))"
  by (rule keeps_lock_in_store; simp add: store_mark_held unreview_mark_held unreview_expired_held mark_file_def mark_partial_def
      copy_marks_state)+

lemma keeps_lock_cache [tracker_parts]: "keeps_lock (from_cache snap path r)" "keeps_lock (into_cache snap path r d)"
  by (simp_all add: keeps_lock_def from_cache_def into_cache_def split: prod.splits)

lemma keeps_lock_load_of [tracker_parts]: "keeps_lock (load_of C snap f)"
  unfolding load_of_def by (intro tracker_parts)

lemma keeps_lock_compare_partial [tracker_parts]: "keeps_lock (compare_partial R D snap f partial baseline)"
  unfolding compare_partial_def Let_def by (auto intro!: tracker_parts)

lemma keeps_lock_compare_record [tracker_parts]: "keeps_lock (compare_record R D C snap f r)"
  unfolding compare_record_def by (auto intro!: tracker_parts split: load_result.split option.split interdiff.split)

lemma keeps_lock_load_diff [tracker_parts]: "keeps_lock (load_diff R D C snap f r)"
  unfolding load_diff_def load_unreviewed_def load_compared_def Let_def
  by (auto intro!: tracker_parts split: review_comparison.split option.split)

lemma keeps_lock_diff [tracker_parts]: "keeps_lock (tracker_diff R D C snap f)"
  unfolding tracker_diff_def by (auto intro!: tracker_parts split: option.split)

lemma keeps_lock_versions [tracker_parts]: "keeps_lock (versions_of R D C snap f d)"
  unfolding versions_of_def reviewed_version_of_def
  by (auto intro!: tracker_parts split: load_result.split option.split)

lemma keeps_lock_store_version [tracker_parts]: "keeps_lock (store_version C snap f vs v)"
  unfolding store_version_def store_partial_def
  by (auto intro!: tracker_parts split: reviewed_version.split option.split)

lemma with_marks_lock_free:
  assumes "keeps_lock m" "md_held (tk_marks tk) = {}"
  shows "fst (with_marks_lock unit m tk) \<noteq> Inl LockedOut \<and> md_held (tk_marks (snd (with_marks_lock unit m tk))) = {}"
proof -
  obtain x dk where x: "lock_marks unit (tk_marks tk) = (x, dk)" by fastforce
  then have dk: "x = Inr True \<and> md_held dk = {unit} \<or> (\<exists>e. x = Inl e) \<and> md_held dk = {}"
    using assms(2) by (auto simp: lock_marks_def and_then_reading and_then_def attempt_def reading_def
        split: sum.splits option.splits)
  obtain r tk' where r: "m (tk\<lparr>tk_marks := dk\<rparr>) = (r, tk')" by fastforce
  with assms(1) have "r \<noteq> Inl LockedOut" "md_held (tk_marks tk') = md_held dk"
    unfolding keeps_lock_def by (metis fst_conv, metis snd_conv tracker.select_convs(1) tracker.surjective tracker.update_convs(1))
  with dk x r show ?thesis
    by (auto simp: with_marks_lock_def and_then_def in_store_def unlock_marks_def)
qed

text \<open>An operation that starts with no lock held ends with none, and did not wait for one of its own.\<close>

definition lock_free :: "'a tracker_op \<Rightarrow> tracker \<Rightarrow> bool" where
  "lock_free m tk \<longleftrightarrow> fst (m tk) \<noteq> Inl LockedOut \<and> md_held (tk_marks (snd (m tk))) = {}"

lemma lock_free_asked:
  assumes "\<And>x. lock_free (f x) tk" "md_held (tk_marks tk) = {}"
  shows "lock_free (and_then (asked a) f) tk"
  using assms by (cases a) (simp_all add: lock_free_def and_then_def asked_def reading_def)

lemma lock_free_with: "keeps_lock m \<Longrightarrow> md_held (tk_marks tk) = {} \<Longrightarrow> lock_free (with_marks_lock unit m) tk"
  using with_marks_lock_free by (simp add: lock_free_def)

lemma lock_free_returning: "md_held (tk_marks tk) = {} \<Longrightarrow> lock_free (returning x) tk"
  by (simp add: lock_free_def returning_def reading_def)

lemma keeps_lock_change [tracker_parts]: "keeps_lock (reading (\<lambda>_. map_sum Refused id x))"
  by (cases x) (auto intro!: keeps_lock_reading)

lemma lock_free_edit:
  assumes "md_held (tk_marks tk) = {}"
  shows "lock_free (edit R D C snap f change) tk"
proof -
  have "keeps_lock (and_then (tracker_diff R D C snap f) (\<lambda>d.
        and_then (versions_of R D C snap f d) (\<lambda>vs.
        and_then (reading (\<lambda>_. map_sum Refused id (change d (versions_review vs)))) (\<lambda>v.
        case v of
          None \<Rightarrow> returning NothingToMark
        | Some v \<Rightarrow> and_then (store_version C snap f vs v) (\<lambda>_. returning Marked)))))"
    by (auto intro!: tracker_parts split: option.split)
  with assms show ?thesis unfolding edit_def by (auto intro!: lock_free_asked lock_free_with lock_free_returning)
qed

lemma lock_free_mark: "md_held (tk_marks tk) = {} \<Longrightarrow> lock_free (tracker_mark R C snap f author) tk"
  unfolding tracker_mark_def by (auto intro!: lock_free_asked lock_free_with lock_free_returning tracker_parts)

lemma lock_free_review_hunks: "md_held (tk_marks tk) = {} \<Longrightarrow> lock_free (review_hunks_where R D C snap f may author accept) tk"
  unfolding review_hunks_where_def Let_def by (auto intro!: lock_free_with tracker_parts split: option.split)

lemma lock_free_unreview: "md_held (tk_marks tk) = {} \<Longrightarrow> lock_free (tracker_unreview C snap f) tk"
  unfolding tracker_unreview_def by (auto intro!: lock_free_with tracker_parts)

section \<open>Operations that only read\<close>

definition stateless :: "'a tracker_op \<Rightarrow> bool" where
  "stateless m \<longleftrightarrow> (\<exists>x. \<forall>tk. m tk = (x, tk))"

named_theorems stateless_parts \<open>operations whose answer does not depend on the tracker's state\<close>

lemma stateless_simple [stateless_parts]:
  "stateless (returning x)" "stateless (refusing why)" "stateless (asked a)" "stateless (path_of f)"
  by (auto simp: stateless_def returning_def refusing_def asked_def path_of_def reading_def)

lemma stateless_and_then [stateless_parts]:
  assumes "stateless m" "\<And>x. stateless (f x)"
  shows "stateless (and_then m f)"
proof -
  obtain x where x: "m tk = (x, tk)" for tk using assms(1) unfolding stateless_def by blast
  show ?thesis
  proof (cases x)
    case (Inl e)
    with x show ?thesis by (simp add: stateless_def and_then_def)
  next
    case (Inr y)
    with x assms(2) [of y] show ?thesis by (simp add: stateless_def and_then_def)
  qed
qed

lemma stateless_run: "stateless m \<Longrightarrow> m tk = (x, tk') \<Longrightarrow> tk' = tk \<and> m tk0 = (x, tk0)"
  unfolding stateless_def by (metis Pair_inject)

lemma stateless_compare_partial [stateless_parts]: "stateless (compare_partial R D snap f partial baseline)"
  unfolding compare_partial_def Let_def by (auto intro!: stateless_parts)

lemma stateless_load_unreviewed [stateless_parts]: "stateless (load_unreviewed R snap f)"
  unfolding load_unreviewed_def by (intro stateless_parts)

lemma stateless_load_compared [stateless_parts]: "stateless (load_compared R D snap f baseline d)"
  unfolding load_compared_def Let_def by (auto intro!: stateless_parts split: option.split)

section \<open>The diff of a mark\<close>

definition no_faults :: "tracker \<Rightarrow> bool" where
  "no_faults tk \<longleftrightarrow> md_faults (tk_marks tk) = (\<lambda>_ _ _. None)"

lemma attempt_no_faults: "md_faults dk = (\<lambda>_ _ _. None) \<Longrightarrow> attempt step unit key dk = (Inr (), dk)"
  by (simp add: attempt_def reading_def)

lemma unreview_mark_no_faults:
  assumes "md_faults dk = (\<lambda>_ _ _. None)" "validate_unit unit = Inr ()" "validate_path path = Inr ()"
  shows "\<exists>dk'. unreview_mark C unit path dk = (Inr (), dk') \<and> md_faults dk' = (\<lambda>_ _ _. None)"
  using assms by (simp add: unreview_mark_def Let_def and_then_def reading_def attempt_no_faults put_record_eq stamp_marks_def)

lemma load_mark_no_faults:
  assumes "md_faults dk = (\<lambda>_ _ _. None)" "validate_unit unit = Inr ()" "validate_path path = Inr ()"
  shows "load_mark C unit path dk = (Inr (mark_on C dk unit path), dk)"
  using assms by (simp add: load_mark_def read_stored_def and_then_def reading_def attempt_no_faults mark_on_def stored_at_def)

lemma unreview_expired_no_faults:
  assumes "md_faults dk = (\<lambda>_ _ _. None)" "validate_unit unit = Inr ()" "validate_path path = Inr ()"
  shows "\<exists>dk'. unreview_expired C unit path at dk = (Inr (), dk') \<and> md_faults dk' = (\<lambda>_ _ _. None)"
  using load_mark_no_faults [OF assms] unreview_mark_no_faults [OF assms] assms(1)
  by (auto simp: unreview_expired_def and_then_def reading_def split: load_result.split)

lemma unreview_expired_valid:
  "unreview_expired C unit path at dk = (Inr (), dk') \<Longrightarrow> validate_unit unit = Inr () \<and> validate_path path = Inr ()"
  by (auto simp: unreview_expired_def and_then_Inr dest: load_mark_Inr)

lemma compare_record_again:
  assumes "compare_record R D C snap f r tk = (Inr c, tk1)" "no_faults tk0"
  shows "\<exists>tk1'. compare_record R D C snap f r tk0 = (Inr c, tk1')"
proof -
  obtain path where path: "review_path f = Some path"
    using assms(1) by (auto simp: compare_record_def and_then_Inr)
  then have p: "path_of f tk = (Inr path, tk)" for tk by simp
  show ?thesis
  proof (cases r)
    case (Reviewed rr)
    show ?thesis
    proof (cases "rr_partial rr")
      case (Some pr)
      with assms(1) Reviewed have "compare_partial R D snap f pr (rr_commit rr) tk = (Inr c, tk1)"
        by (simp add: compare_record_def and_then_def p)
      from stateless_run [OF stateless_compare_partial this, of tk0] Some Reviewed show ?thesis
        by (simp add: compare_record_def and_then_def p)
    next
      case None
      with assms(1) Reviewed p obtain i where i: "rp_interdiff R (rr_commit rr) snap path = Inr i"
        by (auto simp: compare_record_def and_then_Inr)
      show ?thesis
      proof (cases i)
        case MissingBaseline
        with assms(1) Reviewed None p i obtain dk where
          dk: "unreview_expired C (unit_of snap) path (rr_at rr) (tk_marks tk) = (Inr (), dk)" "c = NotCompared (Some BaselineExpired)"
          by (auto simp: compare_record_def and_then_Inr in_store_Inr)
        from unreview_expired_valid [OF dk(1)] unreview_expired_no_faults [of "tk_marks tk0" "unit_of snap" path C "rr_at rr"] assms(2)
        obtain dk' where "unreview_expired C (unit_of snap) path (rr_at rr) (tk_marks tk0) = (Inr (), dk')"
          by (auto simp: no_faults_def)
        with dk(2) MissingBaseline Reviewed None p i show ?thesis
          by (auto simp: compare_record_def and_then_Inr in_store_Inr)
      next
        case (Diff d)
        with assms(1) Reviewed None p i show ?thesis by (auto simp: compare_record_def and_then_Inr)
      qed
    qed
  qed (use assms(1) p in \<open>auto simp: compare_record_def and_then_Inr\<close>)
qed

text \<open>\<open>d\<close> is the diff that any tracker without a cache loads for the mark \<open>r\<close>.\<close>

definition computes :: "repo \<Rightarrow> differ \<Rightarrow> codec \<Rightarrow> snapshot \<Rightarrow> changed_file \<Rightarrow> load_result \<Rightarrow> review_diff \<Rightarrow> bool" where
  "computes R D C snap f r d \<longleftrightarrow> (\<forall>tk. no_faults tk \<longrightarrow> fst (load_diff R D C snap f r tk) = Inr d)"

lemma load_diff_computes:
  assumes "load_diff R D C snap f r tk = (Inr d, tk')"
  shows "computes R D C snap f r d"
  unfolding computes_def
proof (intro allI impI)
  fix tk0
  assume clean: "no_faults tk0"
  from assms obtain c tk1 where c: "compare_record R D C snap f r tk = (Inr c, tk1)"
    and rest: "(case c of NotCompared _ \<Rightarrow> load_unreviewed R snap f | Compared baseline d \<Rightarrow> load_compared R D snap f baseline d
      | PartialComparison reviewed current d hs \<Rightarrow>
          returning \<lparr>rd_unified = d, rd_old = Some (rv_text reviewed), rd_new = current, rd_hunks = hs\<rparr>) tk1 = (Inr d, tk')"
    (is "?load tk1 = _")
    by (auto simp: load_diff_def and_then_Inr)
  obtain tk1' where c': "compare_record R D C snap f r tk0 = (Inr c, tk1')" using compare_record_again [OF c clean] by blast
  have "stateless ?load" by (auto intro!: stateless_parts split: review_comparison.split)
  from stateless_run [OF this rest, of tk1'] c' show "fst (load_diff R D C snap f r tk0) = Inr d"
    by (simp add: load_diff_def and_then_def)
qed

section \<open>The cache\<close>

text \<open>\<open>W\<close> are the paths of the snapshots that the reviewer polled: a snapshot of the same identity has the
  same files.\<close>

definition polled :: "(snapshot \<times> changed_file) set \<Rightarrow> bool" where
  "polled W \<longleftrightarrow> (\<forall>(snap, f) \<in> W. \<forall>(snap', f') \<in> W.
     sn_identity snap = sn_identity snap' \<and> review_path f = review_path f' \<longrightarrow> snap = snap' \<and> f = f')"

definition right_diff ::
  "repo \<Rightarrow> differ \<Rightarrow> codec \<Rightarrow> (snapshot \<times> changed_file) set \<Rightarrow> snapshot_identity \<times> repo_path \<times> load_result \<Rightarrow> review_diff \<Rightarrow> bool" where
  "right_diff R D C W k d \<longleftrightarrow>
     (\<exists>snap f. (snap, f) \<in> W \<and> sn_identity snap = fst k \<and> review_path f = Some (fst (snd k)) \<and> computes R D C snap f (snd (snd k)) d)"

definition cache_fine :: "(snapshot_identity \<times> repo_path \<times> load_result \<Rightarrow> review_diff \<Rightarrow> bool) \<Rightarrow> tracker \<Rightarrow> bool" where
  "cache_fine P tk \<longleftrightarrow> diffs.right P (tk_cache tk) \<and> size_ok (tk_cache tk)"

definition cache_step :: "(snapshot_identity \<times> repo_path \<times> load_result \<Rightarrow> review_diff \<Rightarrow> bool) \<Rightarrow> tracker \<Rightarrow> tracker \<Rightarrow> bool" where
  "cache_step P tk tk' \<longleftrightarrow> (cache_fine P tk \<longrightarrow> cache_fine P tk')"

lemma cache_step_refl [simp]: "reflp (cache_step P)"
  by (simp add: reflp_def cache_step_def)

lemma cache_step_trans: "transp (cache_step P)"
  by (auto simp: transp_def cache_step_def)

named_theorems cache_parts \<open>operations that keep the cache right\<close>

lemma keeps_cache_and_then [cache_parts]:
  "keeps_state (cache_step P) m \<Longrightarrow> (\<And>x. keeps_state (cache_step P) (f x)) \<Longrightarrow> keeps_state (cache_step P) (and_then m f)"
  by (rule keeps_and_then [OF cache_step_trans])

lemma keeps_cache_reading [cache_parts]: "keeps_state (cache_step P) (reading f)"
  by (rule keeps_reading) simp

lemma keeps_cache_stateless: "stateless m \<Longrightarrow> keeps_state (cache_step P) m"
  by (auto simp: stateless_def keeps_state_def cache_step_def)

lemmas keeps_cache_simple [cache_parts] =
  stateless_simple [THEN keeps_cache_stateless] stateless_compare_partial [THEN keeps_cache_stateless]
  stateless_load_unreviewed [THEN keeps_cache_stateless] stateless_load_compared [THEN keeps_cache_stateless]

lemma keeps_cache_in_store [cache_parts]: "keeps_state (cache_step P) (in_store m)"
  by (simp add: keeps_state_def cache_step_def cache_fine_def)

lemma keeps_cache_load_of [cache_parts]: "keeps_state (cache_step P) (load_of C snap f)"
  unfolding load_of_def by (intro cache_parts)

lemma keeps_cache_compare_record [cache_parts]: "keeps_state (cache_step P) (compare_record R D C snap f r)"
  unfolding compare_record_def by (auto intro!: cache_parts split: load_result.split option.split interdiff.split)

lemma keeps_cache_load_diff [cache_parts]: "keeps_state (cache_step P) (load_diff R D C snap f r)"
  unfolding load_diff_def by (auto intro!: cache_parts split: review_comparison.split)

text \<open>Asking for a diff: what it answers is the diff of the mark it read, cached or loaded.\<close>

lemma tracker_diff_right:
  assumes "polled W" "(snap, f) \<in> W" "cache_fine (right_diff R D C W) tk"
  shows "cache_fine (right_diff R D C W) (snd (tracker_diff R D C snap f tk)) \<and>
    (\<forall>d tk'. tracker_diff R D C snap f tk = (Inr d, tk') \<longrightarrow>
       (\<exists>path. review_path f = Some path \<and> computes R D C snap f (mark_on C (tk_marks tk) (unit_of snap) path) d))"
proof (cases "review_path f")
  case None
  with assms(3) show ?thesis by (simp add: tracker_diff_def and_then_def path_of_def reading_def)
next
  case (Some path)
  obtain x tk1 where x: "load_of C snap f tk = (x, tk1)" by fastforce
  have tk1: "cache_fine (right_diff R D C W) tk1"
    using keeps_run [OF keeps_cache_load_of x, of "right_diff R D C W"] assms(3) by (simp add: cache_step_def)
  show ?thesis
  proof (cases x)
    case (Inl e)
    with x tk1 Some show ?thesis by (simp add: tracker_diff_def and_then_def path_of_def reading_def)
  next
    case (Inr r)
    have r: "r = mark_on C (tk_marks tk) (unit_of snap) path" "tk1 = tk" using load_of_Inr x Inr Some by fastforce+
    obtain y dc where y: "cache_get (sn_identity snap) path r (tk_cache tk) = (y, dc)" by fastforce
    let ?k = "(sn_identity snap, path, r)" and ?P = "right_diff R D C W"
    from diffs.right_lookup [of ?P "tk_cache tk" ?k y dc] y assms(3)
    have dc: "diffs.right ?P dc" "\<And>d. y = Some d \<Longrightarrow> ?P ?k d" by (auto simp: cache_fine_def)
    have size: "size_ok dc" using size_ok_get [of "tk_cache tk" "sn_identity snap" path r] y assms(3) by (simp add: cache_fine_def)
    have computed: "computes R D C snap f r d" if "?P ?k d" for d
    proof -
      from that obtain snap' f' where f': "(snap', f') \<in> W" "sn_identity snap' = sn_identity snap" "review_path f' = Some path"
        "computes R D C snap' f' r d" by (auto simp: right_diff_def)
      have "snap' = snap" "f' = f" using assms(1,2) f' Some unfolding polled_def by fastforce+
      with f'(4) show ?thesis by simp
    qed
    let ?tk = "tk\<lparr>tk_cache := dc\<rparr>"
    show ?thesis
    proof (cases y)
      case hit: (Some d)
      then have "tracker_diff R D C snap f tk = (Inr d, ?tk)"
        using x y Inr r Some by (simp add: tracker_diff_def and_then_def path_of_def reading_def from_cache_def returning_def)
      with dc size hit computed Some r show ?thesis by (simp add: cache_fine_def)
    next
      case miss: None
      obtain z tk2 where z: "load_diff R D C snap f r ?tk = (z, tk2)" by fastforce
      have tk2: "cache_fine ?P tk2"
        using keeps_run [OF keeps_cache_load_diff z, of ?P] dc(1) size by (simp add: cache_step_def cache_fine_def)
      show ?thesis
      proof (cases z)
        case (Inl e)
        then have "tracker_diff R D C snap f tk = (Inl e, tk2)"
          using x y z Inr r Some miss by (simp add: tracker_diff_def and_then_def path_of_def reading_def from_cache_def)
        with tk2 show ?thesis by simp
      next
        case loaded: (Inr d)
        have d: "computes R D C snap f r d" using load_diff_computes z loaded by blast
        let ?tk' = "tk2\<lparr>tk_cache := cache_insert (sn_identity snap) path r d (tk_cache tk2)\<rparr>"
        have "tracker_diff R D C snap f tk = (Inr d, ?tk')"
          using x y z Inr r Some miss loaded
          by (simp add: tracker_diff_def and_then_def path_of_def reading_def from_cache_def into_cache_def returning_def)
        moreover have "diffs.right ?P (tk_cache ?tk')"
          using diffs.right_remember [of ?P "tk_cache tk2" ?k d] tk2 d assms(2) Some
          by (auto simp: cache_fine_def right_diff_def)
        moreover have "size_ok (tk_cache ?tk')" using tk2 by (simp add: cache_fine_def size_ok_insert)
        ultimately show ?thesis using d r Some by (simp add: cache_fine_def)
      qed
    qed
  qed
qed

lemma keeps_cache_diff:
  "polled W \<Longrightarrow> (snap, f) \<in> W \<Longrightarrow> keeps_state (cache_step (right_diff R D C W)) (tracker_diff R D C snap f)"
  using tracker_diff_right by (simp add: keeps_state_def cache_step_def)

lemma keeps_cache_lock [cache_parts]:
  assumes "keeps_state (cache_step P) m"
  shows "keeps_state (cache_step P) (with_marks_lock unit m)"
  unfolding with_marks_lock_def
proof (rule keeps_cache_and_then [OF keeps_cache_in_store])
  fix acquired
  show "keeps_state (cache_step P) (\<lambda>tk. if \<not> acquired then (Inl LockedOut, tk)
      else case m tk of (r, tk) \<Rightarrow> (r, tk\<lparr>tk_marks := unlock_marks unit (tk_marks tk)\<rparr>))"
    using assms by (auto simp: keeps_state_def cache_step_def cache_fine_def split: prod.splits)
qed

lemma keeps_cache_versions [cache_parts]: "keeps_state (cache_step P) (versions_of R D C snap f d)"
  unfolding versions_of_def reviewed_version_of_def by (auto intro!: cache_parts split: load_result.split option.split)

lemma keeps_cache_store_version [cache_parts]: "keeps_state (cache_step P) (store_version C snap f vs v)"
  unfolding store_version_def store_partial_def by (auto intro!: cache_parts split: reviewed_version.split option.split)

lemma keeps_cache_edit:
  "polled W \<Longrightarrow> (snap, f) \<in> W \<Longrightarrow> keeps_state (cache_step (right_diff R D C W)) (edit R D C snap f change)"
  unfolding edit_def by (auto intro!: cache_parts keeps_cache_diff split: option.split)

lemma keeps_cache_review_hunks:
  "polled W \<Longrightarrow> (snap, f) \<in> W \<Longrightarrow>
     keeps_state (cache_step (right_diff R D C W)) (review_hunks_where R D C snap f may who accept)"
  unfolding review_hunks_where_def Let_def by (auto intro!: cache_parts keeps_cache_diff split: option.split)

lemma keeps_cache_lines:
  "polled W \<Longrightarrow> (snap, f) \<in> W \<Longrightarrow> keeps_state (cache_step (right_diff R D C W)) (tracker_lines R D C snap f)"
  unfolding tracker_lines_def Let_def by (auto intro!: cache_parts keeps_cache_diff)

text \<open>The states of a tracker over one repository: its own operations on polled paths, and whatever other
  processes make of the marks on disk in between.\<close>

inductive tracker_reachable :: "repo \<Rightarrow> differ \<Rightarrow> codec \<Rightarrow> (snapshot \<times> changed_file) set \<Rightarrow> tracker \<Rightarrow> bool"
  for R D C W where
  reach_open: "tracker_reachable R D C W \<lparr>tk_marks = dk, tk_cache = cache_new\<rparr>"
| reach_marks: "tracker_reachable R D C W tk \<Longrightarrow> tracker_reachable R D C W (tk\<lparr>tk_marks := dk\<rparr>)"
| reach_diff: "tracker_reachable R D C W tk \<Longrightarrow> (snap, f) \<in> W \<Longrightarrow> tracker_reachable R D C W (snd (tracker_diff R D C snap f tk))"
| reach_lines: "tracker_reachable R D C W tk \<Longrightarrow> (snap, f) \<in> W \<Longrightarrow> tracker_reachable R D C W (snd (tracker_lines R D C snap f tk))"
| reach_edit: "tracker_reachable R D C W tk \<Longrightarrow> (snap, f) \<in> W \<Longrightarrow> tracker_reachable R D C W (snd (edit R D C snap f change tk))"
| reach_hunks: "tracker_reachable R D C W tk \<Longrightarrow> (snap, f) \<in> W \<Longrightarrow>
    tracker_reachable R D C W (snd (review_hunks_where R D C snap f may who accept tk))"

lemma reachable_cache:
  assumes "polled W" "tracker_reachable R D C W tk"
  shows "cache_fine (right_diff R D C W) tk"
  using assms(2)
proof induction
  case (reach_open dk)
  show ?case by (auto simp: cache_fine_def diffs.right_def diff_held_def cache_new_def size_ok_def)
next
  case (reach_marks tk dk)
  then show ?case by (simp add: cache_fine_def)
next
  case (reach_diff tk snap f)
  then show ?case using keeps_cache_diff [OF assms(1)] by (auto simp: keeps_state_def cache_step_def)
next
  case (reach_lines tk snap f)
  then show ?case using keeps_cache_lines [OF assms(1)] by (auto simp: keeps_state_def cache_step_def)
next
  case (reach_edit tk snap f change)
  then show ?case using keeps_cache_edit [OF assms(1)] by (auto simp: keeps_state_def cache_step_def)
next
  case (reach_hunks tk snap f may who accept)
  then show ?case using keeps_cache_review_hunks [OF assms(1)] by (auto simp: keeps_state_def cache_step_def)
qed

end
