(* ===== verification/TrackerStates.thy ===== *)
theory TrackerStates
  imports TrackerLaws
begin

text \<open>
  What the review tracker makes of a mark it stored: the reviewed version that the next look at the path
  starts from, and the states of the paths, one at a time or all together.
\<close>

section \<open>What a stored version reads as\<close>

lemma store_mark_Inr:
  assumes "store_mark C unit path commit author partial dk = (Inr rr, dk')" "codec_ok C"
  shows "mark_on C dk' unit path = Reviewed (reread rr)" "rr_path rr = path" "rr_commit rr = commit"
    "rr_author rr = author" "rr_partial rr = partial"
proof -
  from assms(1) have "mark_on C dk' unit path = Reviewed (reread rr) \<and> rr_path rr = path \<and> rr_commit rr = commit \<and>
    rr_author rr = author \<and> rr_partial rr = partial"
  proof (cases rule: store_mark_cases)
    case (written now)
    define new where "new = \<lparr>rr_path = path, rr_commit = commit, rr_at = now, rr_author = author, rr_partial = partial\<rparr>"
    have "rr = new" using written(9) [OF refl] by (simp add: new_def)
    moreover have "mark_on C dk' unit (rr_path new) = Reviewed (reread new)"
      using written(4,8) mark_on_written [OF assms(2), of new dk' unit dk] by (simp add: new_def)
    ultimately show ?thesis by (simp add: new_def)
  qed simp
  then show "mark_on C dk' unit path = Reviewed (reread rr)" "rr_path rr = path" "rr_commit rr = commit"
    "rr_author rr = author" "rr_partial rr = partial" by blast+
qed

lemma store_partial_Inr:
  assumes "store_partial C snap path vs r tk = (Inr (), tk')" "codec_ok C"
  shows "\<exists>rr. mark_on C (tk_marks tk') (unit_of snap) path = Reviewed rr \<and> rr_commit rr = commit_of snap \<and>
    (\<exists>pr. rr_partial rr = Some pr \<and> pr_base pr = vs_base vs \<and> rv_text (pr_reviewed pr) = rv_text r) \<and>
    tk_cache tk' = tk_cache tk"
proof -
  obtain rr dk where m: "mark_partial C (unit_of snap) path (commit_of snap) \<lparr>pr_base = vs_base vs, pr_reviewed = r\<rparr> (tk_marks tk) = (Inr rr, dk)"
    "tk' = tk\<lparr>tk_marks := dk\<rparr>"
    using assms(1) by (auto simp: store_partial_def and_then_Inr in_store_Inr)
  from store_mark_Inr [OF m(1)[unfolded mark_partial_def] assms(2)] m(2) show ?thesis by (auto simp: reread_def)
qed

lemma mark_file_Inr:
  assumes "mark_file C unit path commit author dk = (Inr rr, dk')" "codec_ok C"
  shows "\<exists>rr. mark_on C dk' unit path = Reviewed rr \<and> rr_commit rr = commit \<and> rr_author rr = author \<and> rr_partial rr = None"
  using store_mark_Inr [OF assms(1)[unfolded mark_file_def] assms(2)] by (auto simp: reread_def)

text \<open>The mark behind a version: none, one of the whole file, or one that holds the version's text on
  its base.\<close>

definition marks_version :: "snapshot \<Rightarrow> versions \<Rightarrow> reviewed_version \<Rightarrow> load_result \<Rightarrow> bool" where
  "marks_version snap vs v l \<longleftrightarrow>
     (case l of
        Unreviewed \<Rightarrow> v = Base
      | UnknownSchema \<Rightarrow> False
      | Reviewed rr \<Rightarrow> rr_commit rr = commit_of snap \<and>
          (case rr_partial rr of
             None \<Rightarrow> (\<exists>at. v = Current at \<and> uniform_author at = Some (rr_author rr))
           | Some pr \<Rightarrow> pr_base pr = vs_base vs \<and> rv_text (pr_reviewed pr) = version_text (versions_review vs) v \<and>
               (\<forall>at. v = Current at \<longrightarrow> uniform_author at = None)))"

lemma versions_review_simps [simp]:
  "hr_base (versions_review vs) = vs_base vs" "hr_reviewed (versions_review vs) = rv_text (vs_reviewed vs)"
  "hr_current (versions_review vs) = vs_current vs" "hr_attribution (versions_review vs) = rv_attribution (vs_reviewed vs)"
  by (simp_all add: versions_review_def attributed_def hunk_review_new_def)

lemma store_version_marks:
  assumes "store_version C snap f vs v tk = (Inr (), tk')" "codec_ok C" "review_path f = Some path"
  shows "marks_version snap vs v (mark_on C (tk_marks tk') (unit_of snap) path) \<and> tk_cache tk' = tk_cache tk"
proof (cases v)
  case (Current at)
  show ?thesis
  proof (cases "uniform_author at")
    case (Some who)
    with assms(1,3) Current obtain rr dk where
      "mark_file C (unit_of snap) path (commit_of snap) who (tk_marks tk) = (Inr rr, dk)" "tk' = tk\<lparr>tk_marks := dk\<rparr>"
      by (auto simp: store_version_def and_then_Inr in_store_Inr)
    with mark_file_Inr [OF this(1) assms(2)] Current Some show ?thesis by (auto simp: marks_version_def)
  next
    case None
    with assms(1,3) Current have "store_partial C snap path vs \<lparr>rv_text = vs_current vs, rv_attribution = at\<rparr> tk = (Inr (), tk')"
      by (auto simp: store_version_def and_then_Inr)
    from store_partial_Inr [OF this assms(2)] Current None show ?thesis
      by (auto simp: marks_version_def version_text_def)
  qed
next
  case Base
  with assms(1,3) obtain dk where
    "unreview_mark C (unit_of snap) path (tk_marks tk) = (Inr (), dk)" "tk' = tk\<lparr>tk_marks := dk\<rparr>"
    by (auto simp: store_version_def and_then_Inr in_store_Inr)
  with unreview_mark_Inr [OF this(1)] Base show ?thesis by (simp add: marks_version_def)
next
  case (Partial r)
  with assms(1,3) have "store_partial C snap path vs r tk = (Inr (), tk')" by (auto simp: store_version_def and_then_Inr)
  from store_partial_Inr [OF this assms(2)] Partial show ?thesis by (auto simp: marks_version_def version_text_def)
qed

section \<open>The diff of a mark\<close>

definition blank_tracker :: tracker where
  "blank_tracker = \<lparr>tk_marks = \<lparr>md_records = (\<lambda>_. Map.empty), md_dirs = {}, md_stamps = Map.empty, md_held = {},
     md_faults = (\<lambda>_ _ _. None), md_torn = (\<lambda>_. {}), md_now = Inr [], md_random = (\<lambda>_. []), md_drawn = 0\<rparr>, tk_cache = cache_new\<rparr>"

lemma blank_tracker_faults: "no_faults blank_tracker"
  by (simp add: no_faults_def blank_tracker_def)

lemma computes_run: "computes R D C snap f r d \<Longrightarrow> \<exists>tk. load_diff R D C snap f r blank_tracker = (Inr d, tk)"
  using blank_tracker_faults unfolding computes_def by (metis prod.collapse)

lemma load_compared_Inr:
  assumes "load_compared R D snap f baseline u tk = (Inr d, tk')"
  shows "rd_unified d = u \<and> file_content R (commit_of snap) (new_path f) (new_kind f) = Inr (rd_new d)"
  using assms by (auto simp: load_compared_def and_then_Inr Let_def split: option.splits)

lemma compare_partial_Inr:
  assumes "compare_partial R D snap f pr baseline tk = (Inr c, tk')"
  obtains (same) base where "base_text R snap f = Inr base" "rv_text (replay D (pr_base pr) (pr_reviewed pr) base) = base"
      "c = NotCompared None"
  | (differs) base current path d hs where "base_text R snap f = Inr base" "review_path f = Some path"
      "rv_text (replay D (pr_base pr) (pr_reviewed pr) base) \<noteq> base"
      "file_content R (commit_of snap) (new_path f) (new_kind f) = Inr current"
      "d = unified_diff D (path_display path) (rv_text (replay D (pr_base pr) (pr_reviewed pr) base)) (text_or_empty current)"
      "hs = hunks D (hunk_review_new base (rv_text (replay D (pr_base pr) (pr_reviewed pr) base)) (text_or_empty current))
         (parse_file_diff d f) (mark_age_of R f baseline snap current)"
      "c = PartialComparison (replay D (pr_base pr) (pr_reviewed pr) base) current d hs"
proof -
  obtain base where base: "base_text R snap f = Inr base" using assms by (auto simp: compare_partial_def and_then_Inr)
  show thesis
  proof (cases "rv_text (replay D (pr_base pr) (pr_reviewed pr) base) = base")
    case True
    with assms base same show thesis by (auto simp: compare_partial_def and_then_Inr Let_def)
  next
    case False
    with assms base differs show thesis by (auto simp: compare_partial_def and_then_Inr Let_def)
  qed
qed

lemma compare_record_partial:
  assumes "compare_record R D C snap f r tk = (Inr (PartialComparison reviewed current u hs), tk')"
  obtains rr pr where "r = Reviewed rr" "rr_partial rr = Some pr"
    "compare_partial R D snap f pr (rr_commit rr) tk = (Inr (PartialComparison reviewed current u hs), tk')"
proof -
  obtain path where p: "review_path f = Some path" using assms by (auto simp: compare_record_def and_then_Inr)
  show thesis
  proof (cases r)
    case (Reviewed rr)
    show thesis
    proof (cases "rr_partial rr")
      case (Some pr)
      with assms p Reviewed that show thesis by (auto simp: compare_record_def and_then_Inr)
    next
      case None
      with assms p Reviewed obtain i where "rp_interdiff R (rr_commit rr) snap path = Inr i"
        by (auto simp: compare_record_def and_then_Inr)
      with assms p Reviewed None show thesis by (cases i) (auto simp: compare_record_def and_then_Inr)
    qed
  qed (use assms p in \<open>auto simp: compare_record_def and_then_Inr\<close>)
qed

text \<open>Every diff comes with the current file.\<close>

lemma computes_new:
  assumes "computes R D C snap f r d"
  shows "file_content R (commit_of snap) (new_path f) (new_kind f) = Inr (rd_new d)"
proof -
  obtain tk where "load_diff R D C snap f r blank_tracker = (Inr d, tk)" using computes_run [OF assms] by blast
  then obtain c tk1 where c: "compare_record R D C snap f r blank_tracker = (Inr c, tk1)"
    and rest: "(case c of NotCompared _ \<Rightarrow> load_unreviewed R snap f | Compared baseline d \<Rightarrow> load_compared R D snap f baseline d
      | PartialComparison reviewed current d hs \<Rightarrow>
          returning \<lparr>rd_unified = d, rd_old = Some (rv_text reviewed), rd_new = current, rd_hunks = hs\<rparr>) tk1 = (Inr d, tk)"
    by (auto simp: load_diff_def and_then_Inr)
  show ?thesis
  proof (cases c)
    case (NotCompared w)
    with rest show ?thesis by (auto simp: load_unreviewed_def and_then_Inr)
  next
    case (Compared b u)
    with rest load_compared_Inr show ?thesis by fastforce
  next
    case (PartialComparison reviewed current u hs)
    with c have "file_content R (commit_of snap) (new_path f) (new_kind f) = Inr current"
      by (auto elim!: compare_record_partial compare_partial_Inr)
    with rest PartialComparison show ?thesis by simp
  qed
qed

lemma reverse_apply_empty: "length (lines_new new) \<le> u32_max \<Longrightarrow> reverse_apply [] new = Some new"
  using lines_get_Some_iff [of "lines_new new" "(0, length (lines_new new))" "lines_new new"]
  by (simp add: reverse_apply_def reverse_step_def hunk_new_start_None copy_until_def Let_def)

text \<open>The open diff of a file marked whole at the snapshot itself is empty.\<close>

lemma computes_whole:
  assumes "computes R D C snap f (Reviewed rr) d" "rr_partial rr = None" "rr_commit rr = commit_of snap"
    and "same_snapshot_is_empty R"
  shows "rd_unified d = []"
proof -
  obtain tk where "load_diff R D C snap f (Reviewed rr) blank_tracker = (Inr d, tk)" using computes_run [OF assms(1)] by blast
  then obtain path where "load_compared R D snap f (commit_of snap) [] blank_tracker = (Inr d, tk)"
    using assms(2-4)
    by (auto simp: load_diff_def compare_record_def and_then_Inr same_snapshot_is_empty_def commit_of_def)
  from load_compared_Inr [OF this] show ?thesis by simp
qed

text \<open>The reviewed version that the stored version reads as, with any diff of its mark.\<close>

lemma reviewed_version_marked:
  assumes "marks_version snap vs v (mark_on C (tk_marks tk) (unit_of snap) path)" "review_path f = Some path"
    and "reviewed_version_of D C snap f d (vs_base vs) tk = (Inr r, tk')"
    and "computes R D C snap f (mark_on C (tk_marks tk) (unit_of snap) path) d" "same_snapshot_is_empty R"
    and "text_or_empty (rd_new d) = vs_current vs" "length (lines_new (vs_current vs)) \<le> u32_max"
  shows "rv_text r = version_text (versions_review vs) v"
proof -
  obtain l where l: "load_of C snap f tk = (Inr l, tk)" "l = mark_on C (tk_marks tk) (unit_of snap) path"
    using assms(2,3) load_of_Inr by (fastforce simp: reviewed_version_of_def and_then_Inr)
  have mv: "marks_version snap vs v l" using assms(1) l(2) by simp
  show ?thesis
  proof (cases l)
    case Unreviewed
    with assms(3) mv l(1) show ?thesis
      by (auto simp: reviewed_version_of_def and_then_Inr marks_version_def version_text_def)
  next
    case UnknownSchema
    with mv show ?thesis by (simp add: marks_version_def)
  next
    case (Reviewed rr)
    show ?thesis
    proof (cases "rr_partial rr")
      case (Some pr)
      with mv Reviewed have "pr_base pr = vs_base vs" "rv_text (pr_reviewed pr) = version_text (versions_review vs) v"
        by (auto simp: marks_version_def)
      with assms(3) l(1) Reviewed Some show ?thesis
        by (auto simp: reviewed_version_of_def and_then_Inr replay_def)
    next
      case None
      with mv Reviewed None obtain at where v: "v = Current at" "rr_commit rr = commit_of snap"
        by (auto simp: marks_version_def)
      have "rd_unified d = []" using computes_whole [OF _ None v(2) assms(5)] assms(4) l(2) Reviewed by simp
      then have "whole_file_reviewed_version d = Some (vs_current vs)"
        using reverse_apply_empty assms(6,7) by (simp add: whole_file_reviewed_version_def)
      with assms(3) l(1) Reviewed None v show ?thesis
        by (auto simp: reviewed_version_of_def and_then_Inr version_text_def)
    qed
  qed
qed

section \<open>After an edit\<close>

definition not_expired :: "repo \<Rightarrow> snapshot \<Rightarrow> changed_file \<Rightarrow> load_result \<Rightarrow> bool" where
  "not_expired R snap f r \<longleftrightarrow>
     (\<forall>rr path. r = Reviewed rr \<and> rr_partial rr = None \<and> review_path f = Some path \<longrightarrow>
        rp_interdiff R (rr_commit rr) snap path \<noteq> Inr MissingBaseline)"

lemma compare_record_state:
  assumes "compare_record R D C snap f r tk = (x, tk')" "not_expired R snap f r"
  shows "tk' = tk"
proof (cases "review_path f")
  case None
  with assms(1) show ?thesis by (simp add: compare_record_def and_then_def path_of_def reading_def)
next
  case (Some path)
  then have p: "path_of f tk = (Inr path, tk)" by simp
  show ?thesis
  proof (cases r)
    case (Reviewed rr)
    show ?thesis
    proof (cases "rr_partial rr")
      case (Some pr)
      with assms(1) Reviewed have "compare_partial R D snap f pr (rr_commit rr) tk = (x, tk')"
        by (simp add: compare_record_def and_then_def p)
      from stateless_run [OF stateless_compare_partial this] show ?thesis by simp
    next
      case None
      with assms(2) Reviewed Some have "rp_interdiff R (rr_commit rr) snap path \<noteq> Inr MissingBaseline"
        by (simp add: not_expired_def)
      with assms(1) Reviewed None show ?thesis
        by (cases "rp_interdiff R (rr_commit rr) snap path")
          (auto simp: compare_record_def and_then_def p asked_def reading_def split: interdiff.splits)
    qed
  qed (use assms(1) in \<open>simp_all add: compare_record_def and_then_def p\<close>)
qed

lemma load_diff_state:
  assumes "load_diff R D C snap f r tk = (x, tk')" "not_expired R snap f r"
  shows "tk' = tk"
proof -
  obtain y tk1 where y: "compare_record R D C snap f r tk = (y, tk1)" by fastforce
  have tk1: "tk1 = tk" by (rule compare_record_state [OF y assms(2)])
  show ?thesis
  proof (cases y)
    case (Inr c)
    let ?load = "case c of NotCompared _ \<Rightarrow> load_unreviewed R snap f | Compared baseline d \<Rightarrow> load_compared R D snap f baseline d
      | PartialComparison reviewed current d hs \<Rightarrow>
          returning \<lparr>rd_unified = d, rd_old = Some (rv_text reviewed), rd_new = current, rd_hunks = hs\<rparr>"
    have "stateless ?load" by (auto intro!: stateless_parts split: review_comparison.split)
    moreover have "?load tk = (x, tk')" using assms(1) y Inr tk1 by (simp add: load_diff_def and_then_def)
    ultimately show ?thesis using stateless_run by blast
  qed (use assms(1) y tk1 in \<open>simp add: load_diff_def and_then_def\<close>)
qed

lemma tracker_diff_marks:
  assumes "tracker_diff R D C snap f tk = (Inr d, tk')" "review_path f = Some path"
    and "not_expired R snap f (mark_on C (tk_marks tk) (unit_of snap) path)"
  shows "tk_marks tk' = tk_marks tk"
proof -
  from assms(1) obtain r where r: "load_of C snap f tk = (Inr r, tk)"
    using load_of_Inr by (fastforce simp: tracker_diff_def and_then_Inr)
  then have "r = mark_on C (tk_marks tk) (unit_of snap) path" using load_of_Inr assms(2) by fastforce
  with assms(3) have ok: "not_expired R snap f r" by simp
  obtain y dc where y: "cache_get (sn_identity snap) path r (tk_cache tk) = (y, dc)" by fastforce
  show ?thesis
  proof (cases y)
    case (Some d0)
    with assms(1,2) r y show ?thesis
      by (auto simp: tracker_diff_def and_then_def path_of_def reading_def from_cache_def returning_def)
  next
    case None
    with assms(1,2) r y obtain tk1 where "load_diff R D C snap f r (tk\<lparr>tk_cache := dc\<rparr>) = (Inr d, tk1)"
      "tk_marks tk' = tk_marks tk1"
      by (auto simp: tracker_diff_def and_then_Inr and_then_def [of "path_of f"] path_of_def reading_def from_cache_def into_cache_def)
    with load_diff_state [OF this(1) ok] show ?thesis by simp
  qed
qed

lemma marks_version_not_expired:
  "marks_version snap vs v l \<Longrightarrow> same_snapshot_is_empty R \<Longrightarrow> not_expired R snap f l"
  by (auto simp: marks_version_def not_expired_def same_snapshot_is_empty_def commit_of_def split: load_result.splits)

lemma mark_on_cong: "md_records dk = md_records dk' \<Longrightarrow> mark_on C dk = mark_on C dk'"
  by (simp add: fun_eq_iff mark_on_def stored_at_def)

lemma versions_of_Inr:
  "versions_of R D C snap f d tk = (Inr vs, tk') \<Longrightarrow>
     base_text R snap f = Inr (vs_base vs) \<and> vs_current vs = text_or_empty (rd_new d) \<and>
     (\<exists>tk1. reviewed_version_of D C snap f d (vs_base vs) tk = (Inr (vs_reviewed vs), tk1))"
  by (auto simp: versions_of_def and_then_Inr)

lemma with_marks_lock_Inr:
  assumes "with_marks_lock unit m tk = (Inr x, tk')"
  obtains dk tk1 where "m (tk\<lparr>tk_marks := dk\<rparr>) = (Inr x, tk1)" "md_records dk = md_records (tk_marks tk)"
    "tk_cache tk' = tk_cache tk1" "md_records (tk_marks tk') = md_records (tk_marks tk1)"
proof -
  from assms obtain dk where l: "lock_marks unit (tk_marks tk) = (Inr True, dk)"
    and m: "(case m (tk\<lparr>tk_marks := dk\<rparr>) of (r, tk) \<Rightarrow> (r, tk\<lparr>tk_marks := unlock_marks unit (tk_marks tk)\<rparr>)) = (Inr x, tk')"
    by (auto simp: with_marks_lock_def and_then_Inr in_store_Inr split: if_splits)
  from l have "md_records dk = md_records (tk_marks tk)"
    by (auto simp: lock_marks_def and_then_Inr attempt_eq split: if_splits)
  with m that show thesis by (auto simp: unlock_marks_def split: prod.splits)
qed

lemma reviewed_version_state:
  assumes "reviewed_version_of D C snap f d base tk = (Inr r, tk')"
  shows "tk' = tk"
proof -
  let ?rest = "\<lambda>l. case l of
       Unreviewed \<Rightarrow> returning \<lparr>rv_text = base, rv_attribution = no_attribution\<rparr>
     | UnknownSchema \<Rightarrow> refusing (''a newer reviewer wrote this file'' @ [CHR 0x27] @ ''s review mark'')
     | Reviewed rr \<Rightarrow>
         (case rr_partial rr of
            Some partial \<Rightarrow> returning (replay D (pr_base partial) (pr_reviewed partial) base)
          | None \<Rightarrow>
              (case whole_file_reviewed_version d of
                 None \<Rightarrow> refusing ''could not rebuild the reviewed version of the file''
               | Some text \<Rightarrow> returning \<lparr>rv_text = text, rv_attribution = uniform (rr_author rr)\<rparr>))"
  obtain l tk1 where l: "load_of C snap f tk = (Inr l, tk1)" "?rest l tk1 = (Inr r, tk')"
    using assms unfolding reviewed_version_of_def and_then_Inr by blast
  have "stateless (?rest l)" by (auto intro!: stateless_parts split: load_result.split option.split)
  from stateless_run [OF this l(2)] load_of_Inr [OF l(1)] show ?thesis by simp
qed

lemma edit_Marked:
  assumes "edit R D C snap f change tk = (Inr Marked, tk')"
  obtains dk d tk1 vs v tk2 where "md_records dk = md_records (tk_marks tk)"
    "tracker_diff R D C snap f (tk\<lparr>tk_marks := dk\<rparr>) = (Inr d, tk1)" "versions_of R D C snap f d tk1 = (Inr vs, tk1)"
    "change d (versions_review vs) = Inr (Some v)" "store_version C snap f vs v tk1 = (Inr (), tk2)"
    "tk_cache tk' = tk_cache tk2" "md_records (tk_marks tk') = md_records (tk_marks tk2)"
proof -
  have keep: "tk2 = tk1" if "versions_of R D C snap f d tk1 = (Inr vs, tk2)" for d tk1 vs tk2
  proof -
    from that obtain base r where "reviewed_version_of D C snap f d base tk1 = (Inr r, tk2)"
      by (auto simp: versions_of_def and_then_Inr)
    then show ?thesis by (rule reviewed_version_state)
  qed
  from assms obtain m where m: "with_marks_lock (unit_of snap) m tk = (Inr Marked, tk')"
    and m_def: "m = and_then (tracker_diff R D C snap f) (\<lambda>d.
        and_then (versions_of R D C snap f d) (\<lambda>vs.
        and_then (reading (\<lambda>_. map_sum Refused id (change d (versions_review vs)))) (\<lambda>v.
        case v of
          None \<Rightarrow> returning NothingToMark
        | Some v \<Rightarrow> and_then (store_version C snap f vs v) (\<lambda>_. returning Marked))))"
    by (auto simp: edit_def and_then_Inr split: if_splits)
  from m show thesis
  proof (rule with_marks_lock_Inr)
    fix dk tk1
    assume run: "m (tk\<lparr>tk_marks := dk\<rparr>) = (Inr Marked, tk1)" and dk: "md_records dk = md_records (tk_marks tk)"
      and tk': "tk_cache tk' = tk_cache tk1" "md_records (tk_marks tk') = md_records (tk_marks tk1)"
    from run obtain d tka vs tkb v where d: "tracker_diff R D C snap f (tk\<lparr>tk_marks := dk\<rparr>) = (Inr d, tka)"
      and vs: "versions_of R D C snap f d tka = (Inr vs, tkb)" and v: "change d (versions_review vs) = Inr (Some v)"
      and st: "store_version C snap f vs v tkb = (Inr (), tk1)"
      by (auto simp: m_def and_then_Inr map_sum_eq split: option.splits)
    have "tkb = tka" by (rule keep [OF vs])
    with that [OF dk d _ v _ tk'] vs st show thesis by simp
  qed
qed

text \<open>A change of the reviewed version that was stored is where the next look at the path starts.\<close>

lemma edit_then_versions:
  assumes "polled W" "(snap, f) \<in> W" "cache_fine (right_diff R D C W) tk" "codec_ok C" "same_snapshot_is_empty R"
    and "edit R D C snap f change tk = (Inr Marked, tk')"
  shows "\<exists>d vs v path. review_path f = Some path \<and> change d (versions_review vs) = Inr (Some v) \<and>
    computes R D C snap f (mark_on C (tk_marks tk) (unit_of snap) path) d \<and>
    base_text R snap f = Inr (vs_base vs) \<and> vs_current vs = text_or_empty (rd_new d) \<and>
    marks_version snap vs v (mark_on C (tk_marks tk') (unit_of snap) path) \<and>
    (\<forall>d' tk1 vs' tk2. tracker_diff R D C snap f tk' = (Inr d', tk1) \<longrightarrow> versions_of R D C snap f d' tk1 = (Inr vs', tk2) \<longrightarrow>
       length (lines_new (vs_current vs)) \<le> u32_max \<longrightarrow>
       vs_base vs' = vs_base vs \<and> vs_current vs' = vs_current vs \<and>
       rv_text (vs_reviewed vs') = version_text (versions_review vs) v)"
proof -
  obtain dk d tka vs v tkb where dk: "md_records dk = md_records (tk_marks tk)"
    and d: "tracker_diff R D C snap f (tk\<lparr>tk_marks := dk\<rparr>) = (Inr d, tka)"
    and vs: "versions_of R D C snap f d tka = (Inr vs, tka)" and v: "change d (versions_review vs) = Inr (Some v)"
    and st: "store_version C snap f vs v tka = (Inr (), tkb)"
    and tk': "tk_cache tk' = tk_cache tkb" "md_records (tk_marks tk') = md_records (tk_marks tkb)"
    using edit_Marked [OF assms(6)] by metis
  let ?P = "right_diff R D C W"
  have fine: "cache_fine ?P (tk\<lparr>tk_marks := dk\<rparr>)" using assms(3) by (simp add: cache_fine_def)
  from tracker_diff_right [OF assms(1,2) fine] d obtain path where path: "review_path f = Some path"
    and fine1: "cache_fine ?P tka"
    and comp: "computes R D C snap f (mark_on C dk (unit_of snap) path) d" by auto
  have comp: "computes R D C snap f (mark_on C (tk_marks tk) (unit_of snap) path) d"
    using comp mark_on_cong [OF dk, of C] by simp
  note vs' = versions_of_Inr [OF vs]
  have mv: "marks_version snap vs v (mark_on C (tk_marks tk') (unit_of snap) path)" and cache: "tk_cache tkb = tk_cache tka"
    using store_version_marks [OF st assms(4) path] mark_on_cong [OF tk'(2), of C] by simp_all
  have fine': "cache_fine ?P tk'" using fine1 tk'(1) cache by (simp add: cache_fine_def)
  have later: "vs_base ws = vs_base vs \<and> vs_current ws = vs_current vs \<and> rv_text (vs_reviewed ws) = version_text (versions_review vs) v"
    if e: "tracker_diff R D C snap f tk' = (Inr e, tk1)" and ws: "versions_of R D C snap f e tk1 = (Inr ws, tk2)"
      and len: "length (lines_new (vs_current vs)) \<le> u32_max" for e tk1 ws tk2
  proof -
    note ws' = versions_of_Inr [OF ws]
    have base: "vs_base ws = vs_base vs" using ws' vs' by simp
    have comp': "computes R D C snap f (mark_on C (tk_marks tk') (unit_of snap) path) e"
      using tracker_diff_right [OF assms(1,2) fine'] e path by auto
    have new: "rd_new e = rd_new d" using computes_new [OF comp] computes_new [OF comp'] by simp
    have "not_expired R snap f (mark_on C (tk_marks tk') (unit_of snap) path)"
      by (rule marks_version_not_expired [OF mv assms(5)])
    from tracker_diff_marks [OF e path this] have same: "tk_marks tk1 = tk_marks tk'" .
    from ws' base obtain tk3 where r: "reviewed_version_of D C snap f e (vs_base vs) tk1 = (Inr (vs_reviewed ws), tk3)" by auto
    have cur: "vs_current ws = vs_current vs" using ws' vs' new by simp
    have "rv_text (vs_reviewed ws) = version_text (versions_review vs) v"
    proof (rule reviewed_version_marked [OF _ path r _ assms(5) _ len])
      show "marks_version snap vs v (mark_on C (tk_marks tk1) (unit_of snap) path)" using mv same by simp
      show "computes R D C snap f (mark_on C (tk_marks tk1) (unit_of snap) path) e" using comp' same by simp
      show "text_or_empty (rd_new e) = vs_current vs" using new vs' by simp
    qed
    with base cur show ?thesis by blast
  qed
  show ?thesis
    by (rule exI [of _ d], rule exI [of _ vs], rule exI [of _ v], rule exI [of _ path])
      (use path v comp vs' mv later in blast)
qed

end
