(* ===== verification/GitCompare.thy ===== *)
theory GitCompare
  imports Snapshots
begin

text \<open>
  The grouped comparison of a Git repository with stored baselines
  (\<open>GitBackend::compare_baselines\<close> of crates/review-repository/src/repository/git.rs and
  \<open>ChangedFile::parse_git_stats\<close> of repository/git/records.rs): one \<open>git diff --numstat -z --find-renames\<close> for each
  baseline of the plan, whose records are read into the statistics of the paths that changed.

  What the two git commands answer is the record \<open>git\<close>. The errors carry the detail of the source's error.

  The lemmas: every baseline of a plan has its comparison, the one its own command answers; and the records that git
  prints are read back, where a rename counts for its new path alone.
\<close>

section \<open>Reading the statistics\<close>

definition nul :: byte where "nul = CHR 0x00"
definition tab :: byte where "tab = CHR 0x09"

text \<open>\<open>slice::split\<close>: the pieces between the separators.\<close>

fun split_at :: "byte \<Rightarrow> bytes \<Rightarrow> bytes list" where
  "split_at s [] = [[]]"
| "split_at s (c # cs) =
     (if c = s then [] # split_at s cs
      else case split_at s cs of [] \<Rightarrow> [[c]] | p # ps \<Rightarrow> (c # p) # ps)"

text \<open>\<open>str::parse::<u64>\<close> of bytes that have to be UTF-8.\<close>

definition parse_u64 :: "bytes \<Rightarrow> nat option" where
  "parse_u64 s =
     (let ds = (case strip_prefix ''+'' s of Some rest \<Rightarrow> rest | None \<Rightarrow> s)
      in if ds \<noteq> [] \<and> list_all is_digit ds \<and> digits_value ds \<le> u64_max then Some (digits_value ds) else None)"

text \<open>\<open>splitn(3, tab)\<close>: the three values of a record.\<close>

definition record_values :: "bytes \<Rightarrow> (bytes \<times> bytes \<times> bytes) option" where
  "record_values field =
     (case split_once [tab] field of
        None \<Rightarrow> None
      | Some (added, rest) \<Rightarrow>
          (case split_once [tab] rest of None \<Rightarrow> None | Some (removed, path) \<Rightarrow> Some (added, removed, path)))"

text \<open>A binary file has no counts: git prints a dash.\<close>

definition stat_count :: "bytes \<Rightarrow> bytes + nat" where
  "stat_count value =
     (if value = ''-'' then Inr 0
      else case parse_u64 value of Some n \<Rightarrow> Inr n | None \<Rightarrow> Inl ''Git returned an invalid line count'')"

text \<open>the path a record is about, with the fields after it: a rename has an empty path, and its old and new path follow.\<close>

definition record_path :: "bytes \<Rightarrow> bytes list \<Rightarrow> (repo_path \<times> bytes list) option" where
  "record_path path fs =
     (if path = [] then (case fs of old # new # rest \<Rightarrow> Some (new, rest) | _ \<Rightarrow> None) else Some (path, fs))"

lemma record_path_shorter: "record_path path fs = Some (p, rest) \<Longrightarrow> length rest \<le> length fs"
  by (auto simp: record_path_def split: if_splits list.splits)

function read_stats :: "bytes list \<Rightarrow> (repo_path \<rightharpoonup> diff_statistics) \<Rightarrow> bytes + (repo_path \<rightharpoonup> diff_statistics)" where
  "read_stats [] stats = Inr stats"
| "read_stats (field # fs) stats =
     (case record_values field of
        None \<Rightarrow> Inl ''Git returned incomplete diff statistics''
      | Some (added, removed, path) \<Rightarrow>
          (case record_path path fs of
             None \<Rightarrow> Inl ''Git returned an incomplete rename statistic''
           | Some (path, rest) \<Rightarrow>
               (case stat_count added of
                  Inl e \<Rightarrow> Inl e
                | Inr a \<Rightarrow>
                    (case stat_count removed of
                       Inl e \<Rightarrow> Inl e
                     | Inr r \<Rightarrow> read_stats rest (stats(path \<mapsto> \<lparr>lines_added = a, lines_removed = r\<rparr>))))))"
  by pat_completeness auto
termination
  by (relation "measure (\<lambda>(fs, _). length fs)") (auto dest: record_path_shorter)

definition parse_git_stats :: "bytes \<Rightarrow> bytes + (repo_path \<rightharpoonup> diff_statistics)" where
  "parse_git_stats output =
     (let fs = split_at nul output
      in if last fs \<noteq> [] then Inl ''Git returned invalid diff statistics'' else read_stats (butlast fs) Map.empty)"

section \<open>The comparison\<close>

text \<open>What git answers: whether the tree of a baseline exists; the difference of one path between two trees; and
  whether the statistics of several paths between two trees could be read, with the output.\<close>

record git =
  gt_diff :: "bytes \<Rightarrow> bytes \<Rightarrow> repo_path \<Rightarrow> bytes + bytes"
  gt_numstat :: "bytes \<Rightarrow> bytes \<Rightarrow> repo_path set \<Rightarrow> bytes + bool \<times> bytes"
  gt_tree :: "bytes \<Rightarrow> bytes + bool"

definition git_interdiff :: "git \<Rightarrow> bytes \<Rightarrow> snapshot \<Rightarrow> repo_path \<Rightarrow> bytes + interdiff" where
  "git_interdiff G baseline snap path =
     (case gt_tree G baseline of
        Inl e \<Rightarrow> Inl e
      | Inr present \<Rightarrow>
          if \<not> present then Inr MissingBaseline
          else map_sum id Diff (gt_diff G baseline (snapshot_id (sn_identity snap)) path))"

definition compare_baseline :: "git \<Rightarrow> snapshot \<Rightarrow> bytes \<Rightarrow> repo_path set \<Rightarrow> bytes + baseline_comparison" where
  "compare_baseline G snap baseline paths =
     (case gt_numstat G baseline (snapshot_id (sn_identity snap)) paths of
        Inl e \<Rightarrow> Inl e
      | Inr (success, output) \<Rightarrow>
          if \<not> success
          then (case gt_tree G baseline of
             Inl e \<Rightarrow> Inl e
           | Inr present \<Rightarrow> if present then Inl ''read Git repository'' else Inr Missing)
          else map_sum id ComparedPaths (parse_git_stats output))"

fun compare_each :: "git \<Rightarrow> snapshot \<Rightarrow> (bytes \<times> repo_path set) list \<Rightarrow> bytes + (bytes \<rightharpoonup> baseline_comparison)" where
  "compare_each G snap [] = Inr Map.empty"
| "compare_each G snap ((baseline, paths) # entries) =
     (case compare_baseline G snap baseline paths of
        Inl e \<Rightarrow> Inl e
      | Inr c \<Rightarrow>
          (case compare_each G snap entries of
             Inl e \<Rightarrow> Inl e
           | Inr results \<Rightarrow> Inr (results(baseline \<mapsto> c))))"

text \<open>A plan is iterated in the order of its baselines.\<close>

definition plan_entries :: "comparison_plan \<Rightarrow> (bytes \<times> repo_path set) list" where
  "plan_entries plan = map (\<lambda>b. (b, the (plan b))) (sorted_list_of_set (dom plan))"

definition git_compare :: "git \<Rightarrow> snapshot \<Rightarrow> comparison_plan \<Rightarrow> bytes + (bytes \<rightharpoonup> baseline_comparison)" where
  "git_compare G snap plan = compare_each G snap (plan_entries plan)"

text \<open>A repository whose comparisons are those of the Git backend.\<close>

definition git_backend :: "git \<Rightarrow> repo \<Rightarrow> repo" where
  "git_backend G R = R\<lparr>rp_interdiff := git_interdiff G, rp_compare := git_compare G\<rparr>"

section \<open>Every baseline has its comparison\<close>

lemma compare_each_Inr:
  "distinct (map fst entries) \<Longrightarrow>
     compare_each G snap entries = Inr results \<longleftrightarrow>
       dom results = fst ` set entries \<and>
       (\<forall>(b, ps) \<in> set entries. \<exists>c. compare_baseline G snap b ps = Inr c \<and> results b = Some c)"
proof (induction entries arbitrary: results)
  case (Cons e entries)
  obtain b ps where e: "e = (b, ps)" by (cases e)
  from Cons.prems e have new: "b \<notin> fst ` set entries" and rest: "distinct (map fst entries)" by auto
  show ?case
  proof (cases "compare_baseline G snap b ps")
    case (Inr c)
    show ?thesis
    proof
      assume "compare_each G snap (e # entries) = Inr results"
      then obtain r where r: "compare_each G snap entries = Inr r" "results = r(b \<mapsto> c)"
        using e Inr by (auto split: sum.splits)
      from Cons.IH [OF rest, of r] r(1) have IH: "dom r = fst ` set entries"
        "\<forall>(b, ps) \<in> set entries. \<exists>c. compare_baseline G snap b ps = Inr c \<and> r b = Some c" by simp_all
      have "\<forall>(b', qs) \<in> set entries. \<exists>c. compare_baseline G snap b' qs = Inr c \<and> results b' = Some c"
      proof (intro ballI, clarify)
        fix b' qs
        assume that: "(b', qs) \<in> set entries"
        with new have "b' \<noteq> b" by force
        with IH(2) that r(2) show "\<exists>c. compare_baseline G snap b' qs = Inr c \<and> results b' = Some c" by auto
      qed
      moreover have "compare_baseline G snap b ps = Inr c \<and> results b = Some c" using Inr r(2) by simp
      moreover have "dom results = insert b (fst ` set entries)" using IH(1) r(2) by simp
      ultimately show "dom results = fst ` set (e # entries) \<and>
          (\<forall>(b, ps) \<in> set (e # entries). \<exists>c. compare_baseline G snap b ps = Inr c \<and> results b = Some c)"
        unfolding e by simp
    next
      assume all: "dom results = fst ` set (e # entries) \<and>
          (\<forall>(b, ps) \<in> set (e # entries). \<exists>c. compare_baseline G snap b ps = Inr c \<and> results b = Some c)"
      then have b: "results b = Some c" using e Inr by auto
      have "\<exists>c. compare_baseline G snap b' qs = Inr c \<and> (results(b := None)) b' = Some c" if "(b', qs) \<in> set entries" for b' qs
      proof -
        from new that have "b' \<noteq> b" by force
        with all that show ?thesis by auto
      qed
      moreover have "dom (results(b := None)) = fst ` set entries" using all e new by auto
      ultimately have "compare_each G snap entries = Inr (results(b := None))"
        using Cons.IH [OF rest, of "results(b := None)"] by blast
      with b e Inr show "compare_each G snap (e # entries) = Inr results" by (simp add: fun_upd_idem)
    qed
  qed (use e in auto)
qed auto

lemma git_compare_Inr:
  assumes "finite (dom plan)"
  shows "git_compare G snap plan = Inr results \<longleftrightarrow>
    dom results = dom plan \<and>
    (\<forall>b ps. plan b = Some ps \<longrightarrow> (\<exists>c. compare_baseline G snap b ps = Inr c \<and> results b = Some c))"
proof -
  have "map fst (plan_entries plan) = sorted_list_of_set (dom plan)" by (simp add: plan_entries_def comp_def)
  then have "distinct (map fst (plan_entries plan))" by simp
  moreover have "set (plan_entries plan) = {(b, ps). plan b = Some ps}" using assms by (auto simp: plan_entries_def image_iff)
  moreover have "fst ` {(b, ps). plan b = Some ps} = dom plan" by force
  ultimately show ?thesis using compare_each_Inr [of "plan_entries plan" G snap results] by (simp add: git_compare_def)
qed

lemma compare_each_Inl:
  "compare_each G snap entries = Inl e \<Longrightarrow> \<exists>(b, ps) \<in> set entries. compare_baseline G snap b ps = Inl e"
  by (induction G snap entries rule: compare_each.induct) (auto split: sum.splits)

lemma git_compare_Inl:
  assumes "git_compare G snap plan = Inl e" "finite (dom plan)"
  obtains b ps where "plan b = Some ps" "compare_baseline G snap b ps = Inl e"
  using compare_each_Inl [OF assms(1)[unfolded git_compare_def]] assms(2) that by (auto simp: plan_entries_def)

section \<open>The records that git prints\<close>

datatype numstat = Plain repo_path diff_statistics | Renamed repo_path repo_path diff_statistics

definition print_counts :: "diff_statistics \<Rightarrow> bytes" where
  "print_counts s = show_nat (lines_added s) @ tab # show_nat (lines_removed s) @ [tab]"

definition print_fields :: "numstat \<Rightarrow> bytes list" where
  "print_fields r =
     (case r of
        Plain path s \<Rightarrow> [print_counts s @ path]
      | Renamed old new s \<Rightarrow> [print_counts s, old, new])"

definition print_numstat :: "numstat list \<Rightarrow> bytes" where
  "print_numstat rs = concat (map (\<lambda>f. f @ [nul]) (concat (map print_fields rs)))"

definition counts_for :: "numstat \<Rightarrow> (repo_path \<rightharpoonup> diff_statistics) \<Rightarrow> (repo_path \<rightharpoonup> diff_statistics)" where
  "counts_for r stats = (case r of Plain path s \<Rightarrow> stats(path \<mapsto> s) | Renamed old new s \<Rightarrow> stats(new \<mapsto> s))"

definition numstat_ok :: "numstat \<Rightarrow> bool" where
  "numstat_ok r \<longleftrightarrow>
     (case r of
        Plain path s \<Rightarrow> path \<noteq> [] \<and> nul \<notin> set path \<and> lines_added s \<le> u64_max \<and> lines_removed s \<le> u64_max
      | Renamed old new s \<Rightarrow> nul \<notin> set old \<and> nul \<notin> set new \<and> lines_added s \<le> u64_max \<and> lines_removed s \<le> u64_max)"

lemma split_at_piece: "s \<notin> set p \<Longrightarrow> split_at s (p @ s # t) = p # split_at s t"
  by (induction p) auto

lemma split_at_pieces: "\<forall>p \<in> set ps. s \<notin> set p \<Longrightarrow> split_at s (concat (map (\<lambda>p. p @ [s]) ps)) = ps @ [[]]"
  by (induction ps) (simp_all add: split_at_piece)

lemma digit_no_separator: "tab \<notin> set (show_nat n)" "nul \<notin> set (show_nat n)" "show_nat n \<noteq> ''-''"
  using set_show_nat [of tab n] set_show_nat [of nul n] set_show_nat [of "CHR ''-''" n]
  by (auto simp: tab_def nul_def is_digit_def)

lemma stat_count_show: "n \<le> u64_max \<Longrightarrow> stat_count (show_nat n) = Inr n"
proof -
  assume n: "n \<le> u64_max"
  have "strip_prefix ''+'' (show_nat n) = None"
    using set_show_nat [of "CHR ''+''" n] digit_not_special by (cases "show_nat n") auto
  with n show ?thesis by (simp add: stat_count_def parse_u64_def show_nat_digits digit_no_separator)
qed

lemma record_values_print: "record_values (print_counts s @ path) = Some (show_nat (lines_added s), show_nat (lines_removed s), path)"
  using split_once_append [of tab "show_nat (lines_added s)" "[]" "show_nat (lines_removed s) @ tab # path"]
    split_once_append [of tab "show_nat (lines_removed s)" "[]" path] digit_no_separator
  by (simp add: record_values_def print_counts_def)

lemma print_fields_simps [simp]:
  "print_fields (Plain path s) = [print_counts s @ path]"
  "print_fields (Renamed old new s) = [print_counts s, old, new]"
  by (simp_all add: print_fields_def)

lemma counts_for_simps [simp]:
  "counts_for (Plain path s) stats = stats(path \<mapsto> s)"
  "counts_for (Renamed old new s) stats = stats(new \<mapsto> s)"
  by (simp_all add: counts_for_def)

lemma counts_of_statistics [simp]: "\<lparr>lines_added = lines_added s, lines_removed = lines_removed s\<rparr> = s"
  by (cases s) simp

lemma read_stats_print:
  "list_all numstat_ok rs \<Longrightarrow> read_stats (concat (map print_fields rs)) stats = Inr (fold counts_for rs stats)"
proof (induction rs arbitrary: stats)
  case (Cons r rs)
  then have IH: "read_stats (concat (map print_fields rs)) stats' = Inr (fold counts_for rs stats')" for stats' by simp
  from Cons.prems have ok: "numstat_ok r" by simp
  show ?case
  proof (cases r)
    case (Plain path s)
    with ok IH show ?thesis
      by (simp add: record_values_print record_path_def stat_count_show numstat_ok_def)
  next
    case (Renamed old new s)
    with ok IH record_values_print [of s "[]"] show ?thesis
      by (simp add: record_path_def stat_count_show numstat_ok_def)
  qed
qed simp

text \<open>Reading what git prints gives the counts of each record's path, and a rename none for its old path.\<close>

lemma parse_printed_stats:
  assumes "list_all numstat_ok rs"
  shows "parse_git_stats (print_numstat rs) = Inr (fold counts_for rs Map.empty)"
proof -
  have "\<forall>p \<in> set (concat (map print_fields rs)). nul \<notin> set p"
    using assms digit_no_separator
    by (auto simp: list_all_iff print_fields_def numstat_ok_def print_counts_def tab_def nul_def split: numstat.splits)
  from split_at_pieces [OF this] read_stats_print [OF assms] show ?thesis
    by (simp add: parse_git_stats_def print_numstat_def)
qed

end
