(* ===== verification/TrackerStatuses.thy ===== *)
theory TrackerStatuses
  imports TrackerStates GitCompare
begin

text \<open>
  The states of all changed paths (\<open>ReviewTracker::statuses\<close>), which reads every mark first and compares the
  whole-file marks in one question per baseline, against the state of each path: that of \<open>ReviewTracker::status\<close> for
  a path without a whole-file mark, and else what the comparison of its baseline says of it.
\<close>

lemma and_then_run: "m s = (Inr x, s') \<Longrightarrow> and_then m f s = f x s'"
  by (simp add: and_then_def)

lemma and_then_fails: "m s = (Inl e, s') \<Longrightarrow> and_then m f s = (Inl e, s')"
  by (simp add: and_then_def)

lemma path_of_run: "path_of f tk = (case review_path f of Some p \<Rightarrow> Inr p | None \<Rightarrow> Inl PathMissing, tk)"
  by (simp add: path_of_def reading_def)

lemma load_of_state: "load_of C snap f tk = (x, tk') \<Longrightarrow> tk' = tk"
  using load_mark_state by (auto simp: load_of_def and_then_def path_of_run in_store_def split: option.splits prod.splits
      simp del: load_mark_state dest: arg_cong [of _ _ snd])

section \<open>The state of each path\<close>

text \<open>The baseline that a path has a whole-file mark at, the paths with a mark at a baseline, and the state that a path
  should get.\<close>

definition baseline_of :: "codec \<Rightarrow> snapshot \<Rightarrow> tracker \<Rightarrow> changed_file \<Rightarrow> bytes option" where
  "baseline_of C snap tk f =
     (case fst (load_of C snap f tk) of
        Inr (Reviewed rr) \<Rightarrow> (case rr_partial rr of None \<Rightarrow> Some (rr_commit rr) | Some _ \<Rightarrow> None)
      | _ \<Rightarrow> None)"

definition marked_at :: "codec \<Rightarrow> snapshot \<Rightarrow> tracker \<Rightarrow> changed_file list \<Rightarrow> bytes \<Rightarrow> repo_path set" where
  "marked_at C snap tk fs baseline = {path. \<exists>f \<in> set fs. review_path f = Some path \<and> baseline_of C snap tk f = Some baseline}"

definition compared_state :: "changed_file \<Rightarrow> baseline_comparison \<Rightarrow> review_state" where
  "compared_state f c =
     (case c of
        Missing \<Rightarrow> state_unreviewed (statistics f) (Some BaselineExpired)
      | ComparedPaths stats \<Rightarrow>
          (case Option.bind (review_path f) stats of
             Some s \<Rightarrow> state_changed_since_review s
           | None \<Rightarrow> state_reviewed))"

definition state_of ::
  "git \<Rightarrow> repo \<Rightarrow> differ \<Rightarrow> codec \<Rightarrow> snapshot \<Rightarrow> tracker \<Rightarrow> changed_file \<Rightarrow> tracker_error + review_state" where
  "state_of G R D C snap tk f =
     (case baseline_of C snap tk f of
        None \<Rightarrow> fst (tracker_status (git_backend G R) D C snap f tk)
      | Some b \<Rightarrow>
          map_sum RepositoryFailed (compared_state f) (compare_baseline G snap b (marked_at C snap tk (sn_files snap) b)))"

lemma baseline_of_Some:
  assumes "baseline_of C snap tk f = Some b"
  obtains path rr where "review_path f = Some path" "load_of C snap f tk = (Inr (Reviewed rr), tk)" "rr_partial rr = None"
    "rr_commit rr = b" "validate_unit (unit_of snap) = Inr ()" "validate_path path = Inr ()"
proof -
  obtain x where x: "load_of C snap f tk = (x, tk)" using load_of_state by (metis surj_pair)
  with assms obtain rr where rr: "x = Inr (Reviewed rr)" "rr_partial rr = None" "rr_commit rr = b"
    by (auto simp: baseline_of_def split: sum.splits load_result.splits option.splits)
  with load_of_Inr [of C snap f tk "Reviewed rr" tk] x that show thesis by auto
qed

section \<open>Planning\<close>

definition plan_step :: "codec \<Rightarrow> snapshot \<Rightarrow> tracker \<Rightarrow> changed_file \<Rightarrow> comparison_plan \<Rightarrow> comparison_plan" where
  "plan_step C snap tk f plan =
     (case (review_path f, baseline_of C snap tk f) of (Some path, Some b) \<Rightarrow> plan_add b path plan | _ \<Rightarrow> plan)"

definition planned_ok :: "git \<Rightarrow> repo \<Rightarrow> differ \<Rightarrow> codec \<Rightarrow> snapshot \<Rightarrow> tracker \<Rightarrow> changed_file \<Rightarrow> planned_state \<Rightarrow> bool" where
  "planned_ok G R D C snap tk f p \<longleftrightarrow>
     (case p of
        Resolved st \<Rightarrow> baseline_of C snap tk f = None \<and> fst (tracker_status (git_backend G R) D C snap f tk) = Inr st
      | Compare b \<Rightarrow> baseline_of C snap tk f = Some b)"

lemma plan_state_run:
  assumes "plan_state (git_backend G R) D C snap f plan tk = (r, tk')"
  shows "tk' = tk \<and> (case r of
      Inl e \<Rightarrow> state_of G R D C snap tk f = Inl e
    | Inr (p, plan') \<Rightarrow> plan' = plan_step C snap tk f plan \<and> planned_ok G R D C snap tk f p)"
proof (cases "review_path f")
  case None
  with assms show ?thesis
    by (auto simp: plan_state_def state_of_def baseline_of_def tracker_status_def compare_def load_of_def and_then_def path_of_run)
next
  case (Some path)
  then have p: "path_of f tk = (Inr path, tk)" by simp
  obtain x where x: "load_of C snap f tk = (x, tk)" using load_of_state by (metis surj_pair)
  show ?thesis
  proof (cases x)
    case (Inl e)
    with assms p x show ?thesis
      by (auto simp: plan_state_def state_of_def baseline_of_def tracker_status_def compare_def and_then_run and_then_fails)
  next
    case (Inr l)
    with x have l: "load_of C snap f tk = (Inr l, tk)" by simp
    show ?thesis
    proof (cases l)
      case (Reviewed rr)
      show ?thesis
      proof (cases "rr_partial rr")
        case (Some pr)
        obtain y tk2 where y: "compare_partial (git_backend G R) D snap f pr (rr_commit rr) tk = (y, tk2)" by fastforce
        have "tk2 = tk" using stateless_run [OF stateless_compare_partial y] by simp
        with assms p l y Reviewed Some show ?thesis
          by (cases y) (auto simp: plan_state_def state_of_def baseline_of_def plan_step_def tracker_status_def compare_def
              compare_record_def planned_ok_def and_then_run and_then_fails returning_def reading_def split: option.splits)
      next
        case None
        from assms p l Reviewed None have "r = Inr (Compare (rr_commit rr), plan_add (rr_commit rr) path plan)" "tk' = tk"
          by (auto simp: plan_state_def and_then_run)
        with \<open>review_path f = Some path\<close> l Reviewed None show ?thesis by (simp add: planned_ok_def baseline_of_def plan_step_def)
      qed
    qed (use assms p l in \<open>auto simp: plan_state_def plan_step_def baseline_of_def tracker_status_def compare_def compare_record_def
        planned_ok_def comparison_state_def and_then_run returning_def reading_def split: option.splits\<close>)
  qed
qed

lemma plan_states_run:
  "plan_states (git_backend G R) D C snap fs plan tk = (r, tk') \<Longrightarrow> tk' = tk \<and> (case r of
      Inl e \<Rightarrow> \<exists>f \<in> set fs. state_of G R D C snap tk f = Inl e
    | Inr (ps, plan') \<Rightarrow> plan' = fold (plan_step C snap tk) fs plan \<and> list_all2 (planned_ok G R D C snap tk) fs ps)"
proof (induction fs arbitrary: plan r tk')
  case (Cons f fs)
  obtain x tk1 where x: "plan_state (git_backend G R) D C snap f plan tk = (x, tk1)" by fastforce
  note one = plan_state_run [OF x]
  show ?case
  proof (cases x)
    case (Inl e)
    with Cons.prems x one show ?thesis by (auto simp: and_then_fails)
  next
    case (Inr pp)
    obtain p plan1 where pp: "pp = (p, plan1)" by fastforce
    obtain y tk2 where y: "plan_states (git_backend G R) D C snap fs plan1 tk = (y, tk2)" by fastforce
    note others = Cons.IH [OF y]
    show ?thesis
    proof (cases y)
      case e: (Inl e)
      with Cons.prems x one Inr pp y others show ?thesis by (auto simp: and_then_run and_then_fails)
    next
      case qs: (Inr qq)
      with Cons.prems x one Inr pp y others show ?thesis by (cases qq) (auto simp: and_then_run)
    qed
  qed
qed simp

text \<open>The plan asks for each baseline that a path has a mark at, and for exactly those paths.\<close>

lemma planned_paths:
  "fold (plan_step C snap tk) fs plan b =
     (if marked_at C snap tk fs b = {} then plan b
      else Some (marked_at C snap tk fs b \<union> (case plan b of Some ps \<Rightarrow> ps | None \<Rightarrow> {})))"
proof (induction fs arbitrary: plan)
  case (Cons f fs)
  have "marked_at C snap tk (f # fs) b =
      (case (review_path f, baseline_of C snap tk f) of (Some path, Some b') \<Rightarrow> if b' = b then {path} else {} | _ \<Rightarrow> {})
        \<union> marked_at C snap tk fs b"
    by (auto simp: marked_at_def split: option.splits)
  with Cons.IH show ?case by (auto simp: plan_step_def plan_add_def split: option.splits)
qed (simp add: marked_at_def)

lemma finite_plan: "finite (dom plan) \<Longrightarrow> finite (dom (fold (plan_step C snap tk) fs plan))"
  by (induction fs arbitrary: plan) (simp_all add: plan_step_def plan_add_def split: option.splits)

section \<open>Resolving\<close>

lemma resolve_state_run:
  assumes "planned_ok G R D C snap tk f p" "no_faults tk2"
    and "\<And>b. baseline_of C snap tk f = Some b \<Longrightarrow>
      \<exists>c. compare_baseline G snap b (marked_at C snap tk (sn_files snap) b) = Inr c \<and> results b = Some c"
  shows "\<exists>st tk3. resolve_state C snap results (f, p) tk2 = (Inr st, tk3) \<and> no_faults tk3 \<and> state_of G R D C snap tk f = Inr st"
proof (cases p)
  case (Resolved st)
  with assms show ?thesis by (simp add: resolve_state_def planned_ok_def state_of_def)
next
  case (Compare b)
  with assms(1) have b: "baseline_of C snap tk f = Some b" by (simp add: planned_ok_def)
  then obtain path where path: "review_path f = Some path" "validate_unit (unit_of snap) = Inr ()" "validate_path path = Inr ()"
    by (rule baseline_of_Some)
  from assms(3) [OF b] obtain c where
    c: "compare_baseline G snap b (marked_at C snap tk (sn_files snap) b) = Inr c" "results b = Some c" by blast
  have p: "path_of f tk = (Inr path, tk)" for tk using path(1) by simp
  show ?thesis
  proof (cases c)
    case Missing
    obtain dk where "unreview_mark C (unit_of snap) path (tk_marks tk2) = (Inr (), dk)" "md_faults dk = (\<lambda>_ _ _. None)"
      using unreview_mark_no_faults path(2,3) assms(2) unfolding no_faults_def by blast
    with Missing c b Compare show ?thesis
      by (simp add: resolve_state_def state_of_def compared_state_def and_then_def p in_store_def returning_def reading_def no_faults_def)
  next
    case (ComparedPaths stats)
    with c b path(1) Compare assms(2) show ?thesis
      by (simp add: resolve_state_def state_of_def compared_state_def and_then_def p returning_def reading_def)
  qed
qed

lemma resolve_states_run:
  assumes "list_all2 (planned_ok G R D C snap tk) fs ps" "no_faults tk2"
    and "\<And>f b. f \<in> set fs \<Longrightarrow> baseline_of C snap tk f = Some b \<Longrightarrow>
      \<exists>c. compare_baseline G snap b (marked_at C snap tk (sn_files snap) b) = Inr c \<and> results b = Some c"
  shows "\<exists>sts tk3. resolve_states C snap results (zip fs ps) tk2 = (Inr sts, tk3) \<and> map (state_of G R D C snap tk) fs = map Inr sts"
  using assms
proof (induction arbitrary: tk2 rule: list_all2_induct)
  case (Cons f fs p ps)
  from resolve_state_run [OF Cons(1) Cons.prems(1), of results] Cons.prems(2) obtain st tk3 where
    one: "resolve_state C snap results (f, p) tk2 = (Inr st, tk3)" "no_faults tk3" "state_of G R D C snap tk f = Inr st"
    by (metis list.set_intros(1))
  from Cons.IH [OF one(2)] Cons.prems(2) obtain sts tk4 where
    "resolve_states C snap results (zip fs ps) tk3 = (Inr sts, tk4)" "map (state_of G R D C snap tk) fs = map Inr sts"
    by (meson list.set_intros(2))
  with one show ?case by (auto simp: and_then_def returning_def reading_def)
qed simp

section \<open>All states\<close>

lemma map_not_all_Inr: "f \<in> set fs \<Longrightarrow> g f = Inl e \<Longrightarrow> map g fs \<noteq> map Inr sts"
  by (metis (no_types, lifting) Inl_Inr_False image_iff list.set_map)

lemma statuses_by_path:
  assumes "no_faults tk"
  shows "fst (statuses (git_backend G R) D C snap tk) = Inr sts \<longleftrightarrow>
    map (state_of G R D C snap tk) (sn_files snap) = map Inr sts"
proof -
  obtain x tk1 where x: "plan_states (git_backend G R) D C snap (sn_files snap) Map.empty tk = (x, tk1)" by fastforce
  note planned = plan_states_run [OF x]
  show ?thesis
  proof (cases x)
    case (Inl e)
    then obtain f where "f \<in> set (sn_files snap)" "state_of G R D C snap tk f = Inl e" using planned by auto
    from map_not_all_Inr [of f "sn_files snap" "state_of G R D C snap tk" e, OF this] Inl x show ?thesis by (simp add: statuses_def and_then_def)
  next
    case (Inr pp)
    obtain ps plan where pp: "pp = (ps, plan)" by fastforce
    from planned Inr pp have ok: "tk1 = tk" "list_all2 (planned_ok G R D C snap tk) (sn_files snap) ps"
      and plan: "plan = fold (plan_step C snap tk) (sn_files snap) Map.empty" by auto
    note asks = planned_paths [of C snap tk "sn_files snap" Map.empty, folded plan]
    have fin: "finite (dom plan)" unfolding plan by (rule finite_plan) simp
    show ?thesis
    proof (cases "git_compare G snap plan")
      case e: (Inl e)
      obtain b ps' where b: "plan b = Some ps'" "compare_baseline G snap b ps' = Inl e" by (rule git_compare_Inl [OF e fin])
      with asks [of b] have the: "ps' = marked_at C snap tk (sn_files snap) b" "marked_at C snap tk (sn_files snap) b \<noteq> {}"
        by (auto split: if_splits)
      then obtain f where f: "f \<in> set (sn_files snap)" "baseline_of C snap tk f = Some b" by (auto simp: marked_at_def)
      with b(2) the(1) have "state_of G R D C snap tk f = Inl (RepositoryFailed e)" by (simp add: state_of_def)
      from map_not_all_Inr [of f "sn_files snap" "state_of G R D C snap tk" "RepositoryFailed e", OF f(1) this] x Inr pp ok(1) e show ?thesis
        by (simp add: statuses_def and_then_def asked_def reading_def git_backend_def)
    next
      case results: (Inr results)
      have answers: "\<exists>c. compare_baseline G snap b (marked_at C snap tk (sn_files snap) b) = Inr c \<and> results b = Some c"
        if "f \<in> set (sn_files snap)" "baseline_of C snap tk f = Some b" for f b
      proof -
        from that(2) obtain path where "review_path f = Some path" by (rule baseline_of_Some)
        with that have "path \<in> marked_at C snap tk (sn_files snap) b" unfolding marked_at_def by blast
        then have "plan b = Some (marked_at C snap tk (sn_files snap) b)" using asks [of b] by auto
        with git_compare_Inr [OF fin, of G snap results] results show ?thesis by blast
      qed
      obtain sts' tk3 where "resolve_states C snap results (zip (sn_files snap) ps) tk = (Inr sts', tk3)"
        "map (state_of G R D C snap tk) (sn_files snap) = map Inr sts'"
        using resolve_states_run [OF ok(2) assms, of results] answers by blast
      moreover from this(2) have "map (state_of G R D C snap tk) (sn_files snap) = map Inr sts \<longleftrightarrow> sts' = sts"
        by (auto dest: map_injective)
      ultimately show ?thesis using x Inr pp ok(1) results
        by (simp add: statuses_def and_then_def asked_def reading_def git_backend_def)
    qed
  qed
qed

text \<open>The grouped comparison finds renames among its paths, and counts a rename for the new path alone: the old path
  reads as reviewed, where asking for it alone finds it changed.\<close>

lemma a_renamed_path_reads_as_reviewed:
  assumes "review_path f = Some old" "old \<noteq> new" "numstat_ok (Renamed old new s)" "baseline_of C snap tk f = Some b"
    and "gt_numstat G b (commit_of snap) (marked_at C snap tk (sn_files snap) b) = Inr (True, print_numstat [Renamed old new s])"
    and "gt_tree G b = Inr True" "gt_diff G b (commit_of snap) old = Inr d" "d \<noteq> []"
  shows "state_of G R D C snap tk f = Inr state_reviewed"
    "fst (tracker_status (git_backend G R) D C snap f tk) = Inr (state_changed_since_review (from_unified_diff d))"
proof -
  from parse_printed_stats [of "[Renamed old new s]"] assms show "state_of G R D C snap tk f = Inr state_reviewed"
    by (simp add: state_of_def compare_baseline_def compared_state_def commit_of_def)
  from baseline_of_Some [OF assms(4)] obtain path rr where "review_path f = Some path"
    "load_of C snap f tk = (Inr (Reviewed rr), tk)" "rr_partial rr = None" "rr_commit rr = b" by metis
  with assms show "fst (tracker_status (git_backend G R) D C snap f tk) = Inr (state_changed_since_review (from_unified_diff d))"
    by (simp add: tracker_status_def compare_def compare_record_def and_then_def path_of_run asked_def reading_def returning_def
        git_backend_def git_interdiff_def commit_of_def comparison_state_def)
qed

end
