(* ===== verification/ReviewProgress.thy ===== *)
theory ReviewProgress
  imports TrackerStates
begin

text \<open>
  The progress of a review, weighted by changed lines (crates/review-state/src/progress.rs), and the rows of a
  path's open diff with the line numbers that review marks use (open_rows.rs).

  The lemmas: the counters never lose a remaining line, so that a change reaches 100% exactly when every
  one of its files is reviewed.
\<close>

section \<open>Progress\<close>

record review_progress =
  pg_reviewed :: nat
  pg_total :: nat

definition progress_new :: review_progress where
  "progress_new = \<lparr>pg_reviewed = 0, pg_total = 0\<rparr>"

text \<open>\<open>changed_lines\<close> of progress.rs: at least one.\<close>

definition weight_of :: "diff_statistics \<Rightarrow> nat" where
  "weight_of s = max (stat_lines s) 1"

definition remaining_of :: "diff_statistics \<Rightarrow> review_state \<Rightarrow> nat" where
  "remaining_of s st =
     (case rs_status st of
        ReviewedStatus \<Rightarrow> 0
      | UnreviewedStatus \<Rightarrow> weight_of s
      | ChangedSinceReview \<Rightarrow> min (weight_of (rs_statistics st)) (weight_of s)
      | PartiallyReviewed \<Rightarrow> min (weight_of (rs_statistics st)) (weight_of s))"

definition progress_add :: "review_progress \<Rightarrow> diff_statistics \<times> review_state \<Rightarrow> review_progress" where
  "progress_add p fs =
     (case fs of (s, st) \<Rightarrow>
        p\<lparr>pg_reviewed := pg_reviewed p + (weight_of s - remaining_of s st), pg_total := pg_total p + weight_of s\<rparr>)"

definition progress_of :: "(diff_statistics \<times> review_state) list \<Rightarrow> review_progress" where
  "progress_of fs = foldl progress_add progress_new fs"

definition progress_is_empty :: "review_progress \<Rightarrow> bool" where
  "progress_is_empty p \<longleftrightarrow> pg_total p = 0"

definition share_of :: "review_progress \<Rightarrow> nat \<Rightarrow> nat" where
  "share_of p scale = (if pg_total p = 0 then 0 else u64_saturating_mul (pg_reviewed p) scale div pg_total p)"

definition progress_percent :: "review_progress \<Rightarrow> nat" where
  "progress_percent p = share_of p 100"

definition progress_filled :: "review_progress \<Rightarrow> nat \<Rightarrow> nat" where
  "progress_filled p cells = min (share_of p (min cells u64_max)) cells"

section \<open>Open rows\<close>

datatype row_change = UnchangedRow | RemovedRow | AddedRow

record open_row =
  or_change :: row_change
  or_base_line :: "nat option"
  or_current_line :: "nat option"
  or_text :: bytes

text \<open>A one-based line of the reviewed version as a one-based line of the base, and a row without its marker
  (\<open>text.get(1..)\<close> is nothing when the first character is not one octet).\<close>

definition base_row_line :: "differ \<Rightarrow> hunk_review \<Rightarrow> nat \<Rightarrow> nat option" where
  "base_row_line D hr l = map_option Suc (base_line D hr (l - 1))"

definition row_content :: "bytes \<Rightarrow> bytes" where
  "row_content t = (case t of _ # c # rest \<Rightarrow> if is_cont c then [] else c # rest | _ \<Rightarrow> [])"

definition open_row_of :: "differ \<Rightarrow> hunk_review \<Rightarrow> diff_row \<Rightarrow> open_row option" where
  "open_row_of D hr row =
     (case row of
        Context old new t \<Rightarrow> Some \<lparr>or_change = UnchangedRow, or_base_line = base_row_line D hr old,
          or_current_line = Some new, or_text = row_content t\<rparr>
      | Delete old t \<Rightarrow> Some \<lparr>or_change = RemovedRow, or_base_line = base_row_line D hr old,
          or_current_line = None, or_text = row_content t\<rparr>
      | Add new t \<Rightarrow> Some \<lparr>or_change = AddedRow, or_base_line = None, or_current_line = Some new, or_text = row_content t\<rparr>
      | _ \<Rightarrow> None)"

definition open_row_step :: "differ \<Rightarrow> hunk_review \<Rightarrow> open_row list list \<Rightarrow> diff_row \<Rightarrow> open_row list list" where
  "open_row_step D hr rows row =
     (case row of
        Hunk _ _ _ _ \<Rightarrow> rows @ [[]]
      | _ \<Rightarrow> (case open_row_of D hr row of
           None \<Rightarrow> rows
         | Some r \<Rightarrow> if rows = [] then [] else butlast rows @ [last rows @ [r]]))"

definition tracker_open_rows ::
  "repo \<Rightarrow> differ \<Rightarrow> codec \<Rightarrow> snapshot \<Rightarrow> changed_file \<Rightarrow> open_row list list tracker_op" where
  "tracker_open_rows R D C snap f =
     and_then (tracker_diff R D C snap f) (\<lambda>d.
     and_then (versions_of R D C snap f d) (\<lambda>vs.
     returning (foldl (open_row_step D (versions_review vs)) [] (parse_file_diff (rd_unified d) f))))"

section \<open>Lemmas\<close>

lemma weight_pos [simp]: "0 < weight_of s"
  by (simp add: weight_of_def)

lemma remaining_le [simp]: "remaining_of s st \<le> weight_of s"
  by (simp add: remaining_of_def split: review_status.split)

lemma remaining_zero: "remaining_of s st = 0 \<longleftrightarrow> rs_status st = ReviewedStatus"
  by (simp add: remaining_of_def min_def split: review_status.split)

lemma progress_sums:
  "pg_total (foldl progress_add p fs) = pg_total p + (\<Sum>(s, st) \<leftarrow> fs. weight_of s)"
  "pg_reviewed (foldl progress_add p fs) + (\<Sum>(s, st) \<leftarrow> fs. remaining_of s st) =
     pg_reviewed p + (\<Sum>(s, st) \<leftarrow> fs. weight_of s)"
proof (induction fs arbitrary: p)
  case (Cons fs' rest)
  { case 1 show ?case using Cons.IH(1) by (simp add: progress_add_def split: prod.split) }
  { case 2
    obtain s st where f: "fs' = (s, st)" by fastforce
    have "pg_reviewed (progress_add p fs') + remaining_of s st = pg_reviewed p + weight_of s"
      using remaining_le [of s st] by (simp add: progress_add_def f del: remaining_le)
    with Cons.IH(2) [of "progress_add p fs'"] show ?case by (simp add: f) }
qed simp_all

lemma progress_counts:
  shows "pg_total (progress_of fs) = (\<Sum>(s, st) \<leftarrow> fs. weight_of s)"
    and "pg_reviewed (progress_of fs) + (\<Sum>(s, st) \<leftarrow> fs. remaining_of s st) = pg_total (progress_of fs)"
  using progress_sums [of progress_new fs] by (simp_all add: progress_of_def progress_new_def)

lemma remaining_sum_zero: "(\<Sum>(s, st) \<leftarrow> fs. remaining_of s st) = 0 \<longleftrightarrow> list_all (\<lambda>(s, st). rs_status st = ReviewedStatus) fs"
  by (induction fs) (auto simp: remaining_zero)

lemma weight_sum_zero: "(\<Sum>(s, st) \<leftarrow> fs. weight_of s) = 0 \<longleftrightarrow> fs = []"
  by (cases fs) (auto split: prod.split)

lemma share_le: "pg_reviewed p \<le> pg_total p \<Longrightarrow> share_of p scale \<le> scale"
proof -
  assume le: "pg_reviewed p \<le> pg_total p"
  have "u64_saturating_mul (pg_reviewed p) scale \<le> scale * pg_total p"
    using mult_le_mono [OF le order_refl, of scale] by (simp add: u64_saturating_mul_def mult.commute min.coboundedI1)
  then have "u64_saturating_mul (pg_reviewed p) scale div pg_total p \<le> scale * pg_total p div pg_total p" by (rule div_le_mono)
  then show ?thesis by (simp add: share_of_def split: if_splits)
qed

lemma share_full:
  assumes "pg_reviewed p < pg_total p"
  shows "0 < scale \<Longrightarrow> share_of p scale < scale"
proof -
  assume scale: "0 < scale"
  have "u64_saturating_mul (pg_reviewed p) scale \<le> pg_reviewed p * scale" by (simp add: u64_saturating_mul_def)
  also have "\<dots> < scale * pg_total p" using assms scale by simp
  finally show ?thesis using assms by (simp add: share_of_def less_mult_imp_div_less)
qed

lemma share_whole: "pg_reviewed p = pg_total p \<Longrightarrow> 0 < pg_total p \<Longrightarrow> pg_total p * scale \<le> u64_max \<Longrightarrow> share_of p scale = scale"
  by (simp add: share_of_def u64_saturating_mul_def min_def)

end
