(* ===== verification/TrackerAccept.thy ===== *)
theory TrackerAccept
  imports TrackerStatuses ReviewProgress OpenDiff
begin

text \<open>
  Marking a path reviewed as a whole, and accepting all that is left open of it: the state of the path
  afterwards, through the stored mark, the cache and the diff as it is written and parsed back.
\<close>

section \<open>The state of a marked path\<close>

text \<open>Reading a mark does not fail when the disk has no faults and the review and the path can name one.\<close>

lemma load_of_run:
  assumes "no_faults tk" "review_path f = Some path" "validate_unit (unit_of snap) = Inr ()" "validate_path path = Inr ()"
  shows "load_of C snap f tk = (Inr (mark_on C (tk_marks tk) (unit_of snap) path), tk)"
  using assms load_mark_no_faults [of "tk_marks tk" "unit_of snap" path C]
  by (simp add: load_of_def and_then_def path_of_run in_store_def no_faults_def)

lemma whole_mark_status:
  assumes "load_of C snap f tk = (Inr (Reviewed rr), tk)" "review_path f = Some path" "rr_partial rr = None"
    and "rr_commit rr = commit_of snap" "same_snapshot_is_empty R"
  shows "fst (tracker_status R D C snap f tk) = Inr state_reviewed"
  using assms by (simp add: tracker_status_def compare_def compare_record_def and_then_def path_of_run asked_def reading_def
      returning_def same_snapshot_is_empty_def commit_of_def comparison_state_def)

lemma unified_diff_same: "line_diff D \<Longrightarrow> unified_diff D path t t = []"
  by (simp add: unified_diff_def line_diff_def)

lemma partial_mark_status:
  assumes "load_of C snap f tk = (Inr (Reviewed rr), tk)" "review_path f = Some path" "rr_partial rr = Some pr"
    and "base_text R snap f = Inr base" "pr_base pr = base" "rv_text (pr_reviewed pr) = text_or_empty current"
    and "file_content R (commit_of snap) (new_path f) (new_kind f) = Inr current" "text_or_empty current \<noteq> base" "line_diff D"
  shows "fst (tracker_status R D C snap f tk) = Inr state_reviewed"
proof -
  have "replay D (pr_base pr) (pr_reviewed pr) base = pr_reviewed pr" using assms(5) by (simp add: replay_def)
  with assms show ?thesis
    by (simp add: tracker_status_def compare_def compare_record_def compare_partial_def and_then_def path_of_run asked_def reading_def
        returning_def comparison_state_def unified_diff_same Let_def)
qed

lemma marked_current_status:
  assumes "load_of C snap f tk = (Inr (mark_on C (tk_marks tk) (unit_of snap) path), tk)" "review_path f = Some path"
    and "marks_version snap vs (Current at) (mark_on C (tk_marks tk) (unit_of snap) path)"
    and "base_text R snap f = Inr (vs_base vs)" "vs_current vs = text_or_empty current"
    and "file_content R (commit_of snap) (new_path f) (new_kind f) = Inr current"
    and "uniform_author at = None \<Longrightarrow> vs_current vs \<noteq> vs_base vs" "line_diff D" "same_snapshot_is_empty R"
  shows "fst (tracker_status R D C snap f tk) = Inr state_reviewed"
proof -
  from assms(3) obtain rr where rr: "mark_on C (tk_marks tk) (unit_of snap) path = Reviewed rr"
    by (auto simp: marks_version_def split: load_result.splits)
  with assms(1) have load: "load_of C snap f tk = (Inr (Reviewed rr), tk)" by simp
  show ?thesis
  proof (cases "rr_partial rr")
    case None
    with whole_mark_status [OF load assms(2) None _ assms(9)] assms(3) rr show ?thesis by (simp add: marks_version_def)
  next
    case (Some pr)
    with assms(3) rr have "pr_base pr = vs_base vs" "rv_text (pr_reviewed pr) = vs_current vs" "uniform_author at = None"
      by (auto simp: marks_version_def version_text_def)
    with partial_mark_status [OF load assms(2) Some assms(4) _ _ assms(6) _ assms(8)] assms(5,7) show ?thesis by simp
  qed
qed

text \<open>A version that is written attributes no line when it is the base.\<close>

lemma written_current_uniform:
  assumes "line_diff D" "version hr (rb_finish D rb (hr_base hr)) = Current at" "uniform_author at = None"
  shows "hr_current hr \<noteq> hr_base hr"
proof
  assume same: "hr_current hr = hr_base hr"
  from assms(2) have "rv_text (rb_finish D rb (hr_base hr)) = hr_current hr" "at = rv_attribution (rb_finish D rb (hr_base hr))"
    by (auto simp: version_def split: if_splits)
  with same assms(1) have "at_removed at = []" "at_added at = []"
    by (simp_all add: rb_finish_def Let_def line_diff_def changed_after_def changed_before_def runs_def)
  with assms(3) show False by (simp add: uniform_author_def)
qed

lemma review_all_current:
  assumes "line_diff D" "review_all D hr opened who = Some (Current at)" "uniform_author at = None"
  shows "hr_current hr \<noteq> hr_base hr"
  using assms written_current_uniform by (auto simp: review_all_write)

section \<open>Marking whole files\<close>

text \<open>Without faults and collisions a mark is stored.\<close>

lemma store_mark_no_faults:
  assumes "md_faults dk = (\<lambda>_ _ _. None)" "md_now dk = Inr now" "no_collision C dk unit path"
    and "validate_unit unit = Inr ()" "validate_commit commit = Inr ()" "validate_path path = Inr ()"
  shows "\<exists>rr dk'. store_mark C unit path commit author partial dk = (Inr rr, dk')"
proof -
  have read: "read_stored unit key dk1 = (Inr (stored_at dk1 unit key), dk1)" if "md_faults dk1 = (\<lambda>_ _ _. None)" for dk1 key
    using that by (simp add: read_stored_def and_then_def reading_def attempt_no_faults stored_at_def)
  from assms show ?thesis
    by (simp add: store_mark_def write_record_def and_then_def reading_def Let_def make_directory_def attempt_no_faults read
        put_record_eq stamp_marks_def no_collision_def stored_at_def split: option.split) auto
qed

lemma tracker_mark_Inr:
  assumes "tracker_mark R C snap f author tk = (Inr Marked, tk')" "codec_ok C"
  shows "\<exists>identity path rr. rp_identity R = Inr identity \<and> review_unit identity = unit_of snap \<and> review_path f = Some path \<and>
    validate_unit (unit_of snap) = Inr () \<and> validate_path path = Inr () \<and>
    mark_on C (tk_marks tk') (unit_of snap) path = Reviewed rr \<and> rr_partial rr = None \<and> rr_author rr = author \<and>
    rr_commit rr = snapshot_id identity"
proof -
  from assms(1) obtain identity m where identity: "rp_identity R = Inr identity" "review_unit identity = unit_of snap"
    and m: "with_marks_lock (unit_of snap) m tk = (Inr Marked, tk')"
    and m_def: "m = and_then (path_of f) (\<lambda>path.
        and_then (in_store (mark_file C (unit_of snap) path (snapshot_id identity) author)) (\<lambda>_. returning Marked))"
    by (auto simp: tracker_mark_def and_then_Inr split: if_splits)
  from m show ?thesis
  proof (rule with_marks_lock_Inr)
    fix dk tk1
    assume run: "m (tk\<lparr>tk_marks := dk\<rparr>) = (Inr Marked, tk1)" and records: "md_records (tk_marks tk') = md_records (tk_marks tk1)"
    from run obtain path rr dk' where path: "review_path f = Some path"
      and w: "mark_file C (unit_of snap) path (snapshot_id identity) author dk = (Inr rr, dk')" and tk1: "tk_marks tk1 = dk'"
      by (auto simp: m_def and_then_Inr in_store_Inr)
    from w have valid: "validate_unit (unit_of snap) = Inr ()" "validate_path path = Inr ()"
      by (auto simp: mark_file_def store_mark_def and_then_Inr)
    from mark_file_Inr [OF w assms(2)] tk1 mark_on_cong [OF records, of C] identity path valid show ?thesis by auto
  qed
qed

section \<open>Accepting all open hunks\<close>

text \<open>A path with some reviewed lines: its mark holds lines, and moved to the base they differ from it.\<close>

definition some_lines_reviewed :: "repo \<Rightarrow> differ \<Rightarrow> snapshot \<Rightarrow> changed_file \<Rightarrow> load_result \<Rightarrow> bool" where
  "some_lines_reviewed R D snap f l \<longleftrightarrow>
     (\<exists>rr pr base. l = Reviewed rr \<and> rr_partial rr = Some pr \<and> base_text R snap f = Inr base \<and>
        rv_text (replay D (pr_base pr) (pr_reviewed pr) base) \<noteq> base)"

text \<open>The written open diff is text that the parser reads whole.\<close>

definition readable_diff :: "bytes \<Rightarrow> bool" where
  "readable_diff u \<longleftrightarrow> utf8_valid u \<and> length u \<le> u32_max \<and> (\<forall>l \<in> set (split_nl u). length l \<le> MAX_LINE_BYTES)"

lemma review_hunks_Inr:
  assumes "review_hunks_where R D C snap f True author (\<lambda>_. True) tk = (Inr n, tk')" "0 < n"
  obtains dk d tk1 vs tk2 v tk3 where "md_records dk = md_records (tk_marks tk)"
    "tracker_diff R D C snap f (tk\<lparr>tk_marks := dk\<rparr>) = (Inr d, tk1)" "versions_of R D C snap f d tk1 = (Inr vs, tk2)"
    "review_all D (versions_review vs) (map oh_span (fh_open (rd_hunks d))) author = Some v"
    "store_version C snap f vs v tk2 = (Inr (), tk3)" "md_records (tk_marks tk') = md_records (tk_marks tk3)"
    "n = length (fh_open (rd_hunks d))"
proof -
  have len: "length (all_changed_lines D hr spans) = length spans" for spans hr by (simp add: all_changed_lines_def)
  have none: "all_changed_lines D hr (map oh_span hs) = [] \<longleftrightarrow> hs = []" for hs hr by (simp add: all_changed_lines_def)
  define m where "m = and_then (tracker_diff R D C snap f) (\<lambda>d.
        let spans = map oh_span (fh_open (rd_hunks d))
        in if spans = [] then returning 0
           else and_then (versions_of R D C snap f d) (\<lambda>vs.
             let hr = versions_review vs;
                 accepted = map fst (filter (\<lambda>(_, lines). True) (zip spans (all_changed_lines D hr spans)))
             in if accepted = [] \<or> \<not> True \<and> length accepted = length spans then returning 0
                else case review_all D hr accepted author of
                  None \<Rightarrow> refusing ''the open hunks overlap''
                | Some v \<Rightarrow> and_then (store_version C snap f vs v) (\<lambda>_. returning (length accepted))))"
  with assms(1) have m: "with_marks_lock (unit_of snap) m tk = (Inr n, tk')" by (simp add: review_hunks_where_def)
  from m show thesis
  proof (rule with_marks_lock_Inr)
    fix dk tk1
    assume run: "m (tk\<lparr>tk_marks := dk\<rparr>) = (Inr n, tk1)" and dk: "md_records dk = md_records (tk_marks tk)"
      and tk': "md_records (tk_marks tk') = md_records (tk_marks tk1)"
    from run assms(2) obtain d tka vs tkb v where d: "tracker_diff R D C snap f (tk\<lparr>tk_marks := dk\<rparr>) = (Inr d, tka)"
      and vs: "versions_of R D C snap f d tka = (Inr vs, tkb)"
      and v: "review_all D (versions_review vs) (map oh_span (fh_open (rd_hunks d))) author = Some v"
      and st: "store_version C snap f vs v tkb = (Inr (), tk1)" "n = length (fh_open (rd_hunks d))"
      by (auto simp: m_def len none and_then_Inr Let_def split: if_splits option.splits)
    from that [OF dk d vs v st(1) tk' st(2)] show thesis .
  qed
qed

lemma tracker_diff_valid:
  assumes "tracker_diff R D C snap f tk = (Inr d, tk')" "review_path f = Some path"
  shows "validate_unit (unit_of snap) = Inr () \<and> validate_path path = Inr ()"
  using assms by (auto simp: tracker_diff_def and_then_Inr dest!: load_of_Inr)

lemma review_hunks_valid:
  assumes "review_hunks_where R D C snap f True author (\<lambda>_. True) tk = (Inr n, tk')" "0 < n" "review_path f = Some path"
  shows "validate_unit (unit_of snap) = Inr () \<and> validate_path path = Inr ()"
  using review_hunks_Inr [OF assms(1,2)] tracker_diff_valid [OF _ assms(3)] by metis

text \<open>With nothing cached the diff is the one its mark computes.\<close>

lemma tracker_diff_blank:
  assumes "computes R D C snap f r d" "no_faults tk" "tk_cache tk = cache_new" "review_path f = Some path"
    and "load_of C snap f tk = (Inr r, tk)"
  shows "fst (tracker_diff R D C snap f tk) = Inr d"
proof -
  obtain dc where dc: "cache_get (sn_identity snap) path r (tk_cache tk) = (None, dc)"
    by (simp add: assms(3) cache_get_def cache_new_def Let_def)
  have "no_faults (tk\<lparr>tk_cache := dc\<rparr>)" using assms(2) by (simp add: no_faults_def)
  with assms(1) obtain tk1 where "load_diff R D C snap f r (tk\<lparr>tk_cache := dc\<rparr>) = (Inr d, tk1)"
    unfolding computes_def by (metis prod.collapse)
  with assms(4,5) dc show ?thesis
    by (simp add: tracker_diff_def and_then_def path_of_run from_cache_def into_cache_def returning_def reading_def)
qed

text \<open>The open diff of a path with some reviewed lines, as the tracker computes it.\<close>

lemma computes_partial:
  assumes "computes R D C snap f (Reviewed rr) d" "rr_partial rr = Some pr" "base_text R snap f = Inr base"
    and "rv_text (replay D (pr_base pr) (pr_reviewed pr) base) \<noteq> base"
  shows "\<exists>path. review_path f = Some path \<and>
    rd_unified d = unified_diff D (path_display path) (rv_text (replay D (pr_base pr) (pr_reviewed pr) base)) (text_or_empty (rd_new d)) \<and>
    rd_hunks d = hunks D (hunk_review_new base (rv_text (replay D (pr_base pr) (pr_reviewed pr) base)) (text_or_empty (rd_new d)))
      (parse_file_diff (rd_unified d) f) (mark_age_of R f (rr_commit rr) snap (rd_new d))"
proof -
  obtain tk where "load_diff R D C snap f (Reviewed rr) blank_tracker = (Inr d, tk)" using computes_run [OF assms(1)] by blast
  then obtain c tk1 where c: "compare_record R D C snap f (Reviewed rr) blank_tracker = (Inr c, tk1)"
    and rest: "(case c of NotCompared _ \<Rightarrow> load_unreviewed R snap f | Compared baseline d \<Rightarrow> load_compared R D snap f baseline d
      | PartialComparison reviewed current d hs \<Rightarrow>
          returning \<lparr>rd_unified = d, rd_old = Some (rv_text reviewed), rd_new = current, rd_hunks = hs\<rparr>) tk1 = (Inr d, tk)"
    by (auto simp: load_diff_def and_then_Inr)
  from c assms(2) have "compare_partial R D snap f pr (rr_commit rr) blank_tracker = (Inr c, tk1)"
    by (auto simp: compare_record_def and_then_Inr)
  then show ?thesis
  proof (cases rule: compare_partial_Inr)
    case (same base')
    with assms(3,4) show ?thesis by simp
  next
    case (differs base' current path u hs)
    with assms(3) rest show ?thesis by auto
  qed
qed

lemma versions_of_partial:
  assumes "versions_of R D C snap f d tk = (Inr vs, tk')" "review_path f = Some path"
    and "mark_on C (tk_marks tk) (unit_of snap) path = Reviewed rr" "rr_partial rr = Some pr" "base_text R snap f = Inr base"
  shows "tk' = tk \<and> vs_base vs = base \<and> vs_reviewed vs = replay D (pr_base pr) (pr_reviewed pr) base \<and>
    vs_current vs = text_or_empty (rd_new d)"
proof -
  note v = versions_of_Inr [OF assms(1)]
  have base: "vs_base vs = base" using v assms(5) by simp
  from v base obtain tk1 where r: "reviewed_version_of D C snap f d base tk = (Inr (vs_reviewed vs), tk1)" by auto
  then obtain l where l: "load_of C snap f tk = (Inr l, tk)" using load_of_Inr by (fastforce simp: reviewed_version_of_def and_then_Inr)
  have "l = Reviewed rr" using load_of_Inr [OF l] assms(2,3) by simp
  with r l assms(4) have "vs_reviewed vs = replay D (pr_base pr) (pr_reviewed pr) base"
    by (auto simp: reviewed_version_of_def and_then_Inr)
  moreover have "tk' = tk"
    using assms(1) reviewed_version_state by (fastforce simp: versions_of_def and_then_Inr)
  ultimately show ?thesis using base v by simp
qed

lemma accepting_all_status:
  assumes D: "line_diff D" and C: "codec_ok C" and R: "same_snapshot_is_empty R"
    and W: "polled W" "(snap, f) \<in> W" "cache_fine (right_diff R D C W) tk"
    and path: "review_path f = Some path" and "text_file f"
    and some: "some_lines_reviewed R D snap f (mark_on C (tk_marks tk) (unit_of snap) path)"
    and run: "review_hunks_where R D C snap f True author (\<lambda>_. True) tk = (Inr n, tk')" "0 < n"
    and sizes: "\<And>d. computes R D C snap f (mark_on C (tk_marks tk) (unit_of snap) path) d \<Longrightarrow>
      readable_diff (rd_unified d) \<and> length (lines_new (text_or_empty (rd_new d))) \<le> u32_max"
      "\<And>rr pr base. mark_on C (tk_marks tk) (unit_of snap) path = Reviewed rr \<Longrightarrow> rr_partial rr = Some pr \<Longrightarrow>
        base_text R snap f = Inr base \<Longrightarrow> length (lines_new (rv_text (replay D (pr_base pr) (pr_reviewed pr) base))) \<le> u32_max"
    and tk2: "load_of C snap f tk2 = (Inr (mark_on C (tk_marks tk') (unit_of snap) path), tk2)"
      "md_records (tk_marks tk2) = md_records (tk_marks tk')"
  shows "fst (tracker_status R D C snap f tk2) = Inr state_reviewed"
proof -
  from some obtain rr pr base where rr: "mark_on C (tk_marks tk) (unit_of snap) path = Reviewed rr" "rr_partial rr = Some pr"
    and base: "base_text R snap f = Inr base" and ne: "rv_text (replay D (pr_base pr) (pr_reviewed pr) base) \<noteq> base"
    by (auto simp: some_lines_reviewed_def)
  let ?r = "replay D (pr_base pr) (pr_reviewed pr) base"
  obtain dk d tka vs tkb v tkc where dk: "md_records dk = md_records (tk_marks tk)"
    and d: "tracker_diff R D C snap f (tk\<lparr>tk_marks := dk\<rparr>) = (Inr d, tka)" and vs: "versions_of R D C snap f d tka = (Inr vs, tkb)"
    and v: "review_all D (versions_review vs) (map oh_span (fh_open (rd_hunks d))) author = Some v"
    and st: "store_version C snap f vs v tkb = (Inr (), tkc)" "md_records (tk_marks tk') = md_records (tk_marks tkc)"
    and n: "n = length (fh_open (rd_hunks d))"
    using review_hunks_Inr [OF run] by metis
  have fine: "cache_fine (right_diff R D C W) (tk\<lparr>tk_marks := dk\<rparr>)" using W(3) by (simp add: cache_fine_def)
  have mark: "mark_on C dk (unit_of snap) path = Reviewed rr" using rr mark_on_cong [OF dk, of C] by simp
  have comp: "computes R D C snap f (Reviewed rr) d" using tracker_diff_right [OF W(1,2) fine] d path mark by auto
  from computes_partial [OF comp rr(2) base ne] path
  have unified: "rd_unified d = unified_diff D (path_display path) (rv_text ?r) (text_or_empty (rd_new d))"
    and hunks: "rd_hunks d = hunks D (hunk_review_new base (rv_text ?r) (text_or_empty (rd_new d))) (parse_file_diff (rd_unified d) f)
      (mark_age_of R f (rr_commit rr) snap (rd_new d))" by auto
  have "tk_marks tka = dk"
    using tracker_diff_marks [OF d path] mark rr(2) by (simp add: not_expired_def)
  with versions_of_partial [OF vs path _ rr(2) base] mark
  have vers: "vs_base vs = base" "vs_reviewed vs = ?r" "vs_current vs = text_or_empty (rd_new d)" by simp_all
  have "map oh_span (fh_open (rd_hunks d)) = map oh_span (open_hunks (parse_file_diff (rd_unified d) f))"
    using n run(2) by (simp add: hunks hunks_def Let_def no_hunks_def split: if_splits)
  also have "\<dots> = map group_span (hunk_groups (D (rv_text ?r) (text_or_empty (rd_new d))))"
    using open_diff_hunks [OF D, of "rv_text ?r" "text_or_empty (rd_new d)" "path_display path" f] sizes(1) [of d] comp rr sizes(2) base
      path_display_one_line \<open>text_file f\<close> unified
    by (simp add: readable_diff_def group_hunk_def)
  finally obtain at where at: "v = Current at"
    using review_all_hunks [OF D, of "versions_review vs" author] sizes(2) base rr v vers by auto
  have marked: "marks_version snap vs (Current at) (mark_on C (tk_marks tk2) (unit_of snap) path)"
    using store_version_marks [OF st(1) C path] at mark_on_cong [OF st(2), of C] mark_on_cong [OF tk2(2), of C] by simp
  show ?thesis
  proof (rule marked_current_status [OF _ path marked _ _ computes_new [OF comp] _ D R])
    show "load_of C snap f tk2 = (Inr (mark_on C (tk_marks tk2) (unit_of snap) path), tk2)"
      using tk2 mark_on_cong [OF tk2(2), of C] by simp
    show "vs_current vs \<noteq> vs_base vs" if "uniform_author at = None" using review_all_current [OF D _ that] v at by fastforce
  qed (use base vers in simp_all)
qed

end
