(* ===== verification/TrackerSamples.thy ===== *)
theory TrackerSamples
  imports TrackerAccept HunkProperties
begin

text \<open>
  A repository of one changed file and a store with marks of it, on which the properties of the review
  tracker are applied: the file's base, the lines reviewed so far and its current text are those of Samples.
\<close>

definition sample_codec :: codec where
  "sample_codec = \<lparr>b64_encode = id, b64_decode = Some, path_hash = id\<rparr>"

definition sample_identity :: snapshot_identity where
  "sample_identity = Git ''ba5e'' ''main'' ''c1''"

definition sample_snapshot :: snapshot where
  "sample_snapshot = \<lparr>sn_identity = sample_identity, sn_files = [sample_file]\<rparr>"

text \<open>The only baseline that is not lost is the snapshot itself.\<close>

definition sample_repo :: repo where
  "sample_repo =
     \<lparr>rp_identity = Inr sample_identity, rp_diff = (\<lambda>_ _. Inr (unified_diff trim_diff ''f'' v_base v_current)),
      rp_file_at = (\<lambda>_ _. Inr v_current), rp_base_file_at = (\<lambda>_ _. Inr v_base),
      rp_interdiff = (\<lambda>b snap _. Inr (if b = snapshot_id (sn_identity snap) then Diff [] else MissingBaseline)),
      rp_compare = (\<lambda>snap plan. Inr (\<lambda>b. map_option (\<lambda>_. if b = snapshot_id (sn_identity snap)
        then ComparedPaths Map.empty else Missing) (plan b)))\<rparr>"

definition sample_disk :: "review_record option \<Rightarrow> marks_disk" where
  "sample_disk stored =
     \<lparr>md_records = (\<lambda>_. Map.empty)(''ba5e'' := (\<lambda>_. None)(''f'' := map_option (\<lambda>rr. Some (encode_record sample_codec ''ba5e'' rr)) stored)),
      md_dirs = {}, md_stamps = Map.empty, md_held = {}, md_faults = (\<lambda>_ _ _. None), md_torn = (\<lambda>_. {}),
      md_now = Inr ''2026'', md_random = (\<lambda>_. ''r''), md_drawn = 0\<rparr>"

definition sample_record :: review_record where
  "sample_record = \<lparr>rr_path = ''f'', rr_commit = ''c1'', rr_at = ''2025'', rr_author = Reviewer,
     rr_partial = Some \<lparr>pr_base = v_base, pr_reviewed = \<lparr>rv_text = v_reviewed, rv_attribution = uniform Reviewer\<rparr>\<rparr>\<rparr>"

definition sample_tracker :: "review_record option \<Rightarrow> tracker" where
  "sample_tracker stored = \<lparr>tk_marks = sample_disk stored, tk_cache = cache_new\<rparr>"

lemma sample_codec_ok: "codec_ok sample_codec"
  by (simp add: codec_ok_def sample_codec_def)

lemma sample_repo_ok: "same_snapshot_is_empty sample_repo"
  by (simp add: same_snapshot_is_empty_def sample_repo_def)

text \<open>A mark of the whole file at an earlier tree, from which git counts one line added.\<close>

definition sample_whole :: review_record where
  "sample_whole = \<lparr>rr_path = ''f'', rr_commit = ''c0'', rr_at = ''2025'', rr_author = Jev, rr_partial = None\<rparr>"

definition sample_git :: git where
  "sample_git = \<lparr>gt_diff = (\<lambda>_ _ _. Inr []),
     gt_numstat = (\<lambda>_ _ _. Inr (True, print_numstat [Plain ''f'' \<lparr>lines_added = 1, lines_removed = 0\<rparr>])),
     gt_tree = (\<lambda>_. Inr True)\<rparr>"

lemma sample_names [simp]: "unit_of sample_snapshot = ''ba5e''" "commit_of sample_snapshot = ''c1''"
    "sn_identity sample_snapshot = sample_identity" "review_unit sample_identity = ''ba5e''" "snapshot_id sample_identity = ''c1''"
    "review_path sample_file = Some ''f''" "validate_unit ''ba5e'' = Inr ()" "validate_path ''f'' = Inr ()"
    "commit_valid ''c1''" "validate_commit ''c1'' = Inr ()"
  by (simp_all add: unit_of_def commit_of_def sample_snapshot_def sample_identity_def review_unit_def snapshot_id_def
      sample_file_def modified_file_def review_path_def validate_unit_def validate_path_def is_lower_def is_digit_def
      commit_valid_def validate_commit_def less_eq_char_def of_char_def)

lemma sample_hash [simp]: "path_hash sample_codec p = p"
  by (simp add: sample_codec_def)

lemma sample_record_simps [simp]: "rr_path sample_record = ''f''" "rr_commit sample_record = ''c1''" "reread sample_record = sample_record"
    "rr_partial sample_record = Some \<lparr>pr_base = v_base, pr_reviewed = \<lparr>rv_text = v_reviewed, rv_attribution = uniform Reviewer\<rparr>\<rparr>"
  by (simp_all add: sample_record_def reread_ok record_ok_def partial_ok_def)

lemma sample_mark:
  assumes "md_records dk = md_records (sample_disk (Some sample_record))"
  shows "mark_on sample_codec dk ''ba5e'' ''f'' = Reviewed sample_record"
  using loaded_encoded [OF sample_codec_ok, of sample_record "''ba5e''" "''f''"]
  by (simp add: mark_on_def stored_at_def assms sample_disk_def)

lemma sample_no_faults: "no_faults (sample_tracker stored)"
  by (simp add: no_faults_def sample_tracker_def sample_disk_def)

lemma sample_load:
  assumes "md_records (tk_marks tk) = md_records (sample_disk (Some sample_record))" "no_faults tk"
  shows "load_of sample_codec sample_snapshot sample_file tk = (Inr (Reviewed sample_record), tk)"
  using load_of_run [OF assms(2), of sample_file "''f''" sample_snapshot sample_codec] sample_mark [OF assms(1)] by simp

lemma sample_contents [simp]:
  "base_text sample_repo sample_snapshot sample_file = Inr v_base"
  "file_content sample_repo ''c1'' (new_path sample_file) (new_kind sample_file) = Inr (Some v_current)"
  by (simp_all add: base_text_def base_file_content_def file_content_def sample_repo_def sample_file_def modified_file_def text_or_empty_def)

definition sample_open :: bytes where
  "sample_open = unified_diff trim_diff ''f'' v_reviewed v_current"

definition sample_review_diff :: review_diff where
  "sample_review_diff =
     \<lparr>rd_unified = sample_open, rd_old = Some v_reviewed, rd_new = Some v_current,
      rd_hunks = hunks trim_diff (hunk_review_new v_base v_reviewed v_current) (parse_file_diff sample_open sample_file) CurrentMark\<rparr>"

lemma sample_open_readable: "readable_diff sample_open"
  unfolding sample_open_def sample_diff_text readable_diff_def
  by (simp_all add: utf8_valid.simps utf8_step_def second_ok_def seq_len_def is_cont_def u32_max_def MAX_LINE_BYTES_def nl_char)

lemma sample_display: "path_display ''f'' = ''f''"
proof -
  have "utf8_step ''f'' = (True, 1)" by (simp add: utf8_step_def seq_len_def)
  then show ?thesis
    by (simp add: path_display_def utf8_valid.simps [of "''f''"] utf8_valid.simps [of "[]"] display_chars.simps [of "''f''"]
        display_chars.simps [of "[]"] char_display_def ascii_escape_def
        backslash_def nl_def cr_def)
qed

lemma sample_diff_load:
  assumes "tk_cache tk = cache_new" "md_records (tk_marks tk) = md_records (sample_disk (Some sample_record))" "no_faults tk"
  shows "\<exists>dc. tracker_diff sample_repo trim_diff sample_codec sample_snapshot sample_file tk = (Inr sample_review_diff, tk\<lparr>tk_cache := dc\<rparr>)"
proof -
  obtain dc where dc: "cache_get sample_identity ''f'' (Reviewed sample_record) (tk_cache tk) = (None, dc)"
    by (simp add: assms(1) cache_get_def cache_new_def Let_def)
  have load: "load_of sample_codec sample_snapshot sample_file tk = (Inr (Reviewed sample_record), tk)" by (rule sample_load [OF assms(2,3)])
  have same: "replay trim_diff v_base \<lparr>rv_text = v_reviewed, rv_attribution = uniform Reviewer\<rparr> v_base =
      \<lparr>rv_text = v_reviewed, rv_attribution = uniform Reviewer\<rparr>" by (simp add: replay_def)
  have "load_diff sample_repo trim_diff sample_codec sample_snapshot sample_file (Reviewed sample_record) tk1 =
      (Inr sample_review_diff, tk1)" for tk1
    by (simp add: load_diff_def compare_record_def compare_partial_def and_then_def path_of_run asked_def reading_def returning_def
        same Let_def sample_display text_or_empty_def sample_review_diff_def sample_open_def mark_age_of_def)
  with load dc show ?thesis
    by (auto simp: tracker_diff_def and_then_def path_of_run from_cache_def into_cache_def returning_def reading_def)
qed

lemma sample_spans: "map oh_span (fh_open (rd_hunks sample_review_diff)) = map group_span (hunk_groups (trim_diff v_reviewed v_current))"
    "fh_open (rd_hunks sample_review_diff) \<noteq> []"
proof -
  have opened: "open_hunks (parse_file_diff sample_open sample_file) = map group_hunk (hunk_groups (trim_diff v_reviewed v_current))"
    using open_diff_hunks [OF line_diff_trim_diff, of v_reviewed v_current "''f''" sample_file] sample_open_readable sample_file_text
    unfolding readable_diff_def sample_open_def by (simp add: nl_char)
  moreover have "hunk_groups (trim_diff v_reviewed v_current) \<noteq> []" by (simp add: hunk_groups_def)
  ultimately have "\<not> list_ex is_notice (parse_file_diff sample_open sample_file)"
    by (auto simp: open_hunks_def split: if_splits)
  with opened show "map oh_span (fh_open (rd_hunks sample_review_diff)) = map group_span (hunk_groups (trim_diff v_reviewed v_current))"
    "fh_open (rd_hunks sample_review_diff) \<noteq> []"
    by (simp_all add: sample_review_diff_def hunks_def Let_def group_hunk_def hunk_groups_def)
qed

lemma sample_versions:
  assumes "md_records (tk_marks tk) = md_records (sample_disk (Some sample_record))" "no_faults tk"
  shows "versions_of sample_repo trim_diff sample_codec sample_snapshot sample_file sample_review_diff tk =
    (Inr \<lparr>vs_base = v_base, vs_reviewed = \<lparr>rv_text = v_reviewed, rv_attribution = uniform Reviewer\<rparr>, vs_current = v_current\<rparr>, tk)"
  using sample_load [OF assms]
  by (simp add: versions_of_def reviewed_version_of_def and_then_def asked_def reading_def returning_def replay_def
      text_or_empty_def sample_review_diff_def)

text \<open>Storing a version on the sample's disk succeeds.\<close>

lemma sample_store:
  assumes "tk_marks tk = sample_disk (Some sample_record)\<lparr>md_held := H\<rparr>" "v \<noteq> Base"
  shows "\<exists>tk'. store_version sample_codec sample_snapshot sample_file vs v tk = (Inr (), tk')"
proof -
  have "no_collision sample_codec (tk_marks tk) ''ba5e'' ''f''"
    using decode_path_encoded [OF sample_codec_ok, of "''ba5e''" sample_record]
    by (auto simp: assms(1) no_collision_def stored_at_def sample_disk_def)
  then have stored: "\<exists>rr dk'. store_mark sample_codec ''ba5e'' ''f'' ''c1'' author partial (tk_marks tk) = (Inr rr, dk')" for author partial
    by (rule store_mark_no_faults [rotated 2]) (simp_all add: assms(1) sample_disk_def)
  have "\<exists>tk'. store_partial sample_codec sample_snapshot ''f'' vs r tk = (Inr (), tk')" for r
    using stored [of "at_default (rv_attribution r)" "Some \<lparr>pr_base = vs_base vs, pr_reviewed = r\<rparr>"]
    by (auto simp: store_partial_def mark_partial_def and_then_def in_store_def returning_def reading_def)
  moreover have "\<exists>tk'. and_then (in_store (mark_file sample_codec ''ba5e'' ''f'' ''c1'' author)) (\<lambda>_. returning ()) tk = (Inr (), tk')" for author
    using stored [of author None] by (auto simp: mark_file_def and_then_def in_store_def returning_def reading_def)
  ultimately show ?thesis
    using assms(2) by (cases v) (auto simp: store_version_def and_then_def path_of_run split: option.split)
qed

lemma sample_lock: "lock_marks ''ba5e'' (sample_disk stored) = (Inr True, sample_disk stored\<lparr>md_held := {''ba5e''}\<rparr>)"
  by (simp add: lock_marks_def and_then_def reading_def attempt_def sample_disk_def)

lemma sample_accept_run:
  "\<exists>tk'. review_hunks_where sample_repo trim_diff sample_codec sample_snapshot sample_file True Jev (\<lambda>_. True)
     (sample_tracker (Some sample_record)) = (Inr (length (fh_open (rd_hunks sample_review_diff))), tk')"
proof -
  let ?tk = "sample_tracker (Some sample_record)\<lparr>tk_marks := sample_disk (Some sample_record)\<lparr>md_held := {''ba5e''}\<rparr>\<rparr>"
  have tk: "tk_cache ?tk = cache_new" "md_records (tk_marks ?tk) = md_records (sample_disk (Some sample_record))" "no_faults ?tk"
    by (simp_all add: sample_tracker_def no_faults_def) (simp add: sample_disk_def)
  obtain dc where d: "tracker_diff sample_repo trim_diff sample_codec sample_snapshot sample_file ?tk = (Inr sample_review_diff, ?tk\<lparr>tk_cache := dc\<rparr>)"
    using sample_diff_load [OF tk] by blast
  let ?tk1 = "?tk\<lparr>tk_cache := dc\<rparr>"
  let ?vs = "\<lparr>vs_base = v_base, vs_reviewed = \<lparr>rv_text = v_reviewed, rv_attribution = uniform Reviewer\<rparr>, vs_current = v_current\<rparr>"
  have "md_records (tk_marks ?tk1) = md_records (sample_disk (Some sample_record))" "no_faults ?tk1"
    using tk by (simp_all add: no_faults_def)
  note vs = sample_versions [OF this]
  obtain at where at: "review_all trim_diff (versions_review ?vs) (map oh_span (fh_open (rd_hunks sample_review_diff))) Jev = Some (Current at)"
    using review_all_hunks [OF line_diff_trim_diff, of "versions_review ?vs" Jev] unfolding sample_spans by auto
  obtain tk2 where st: "store_version sample_codec sample_snapshot sample_file ?vs (Current at) ?tk1 = (Inr (), tk2)"
    using sample_store [of ?tk1 "{''ba5e''}" "Current at" ?vs] by auto
  have pick: "length (all_changed_lines trim_diff hr spans) = length spans"
      "all_changed_lines trim_diff hr (map oh_span hs) = [] \<longleftrightarrow> hs = []" for spans hs hr
    by (simp_all add: all_changed_lines_def)
  have lock: "in_store (lock_marks ''ba5e'') (sample_tracker (Some sample_record)) = (Inr True, ?tk)"
    by (simp add: in_store_def sample_tracker_def sample_lock)
  show ?thesis
    using sample_spans(2)
    by (simp add: review_hunks_where_def with_marks_lock_def and_then_def lock d vs st pick at returning_def reading_def Let_def
        split: prod.split)
qed

lemma sample_edit_run:
  assumes "\<And>hr. hr = hunk_review_new v_base v_reviewed v_current \<Longrightarrow> change sample_review_diff hr = Inr (Some v)" "v \<noteq> Base"
  shows "\<exists>tk'. edit sample_repo trim_diff sample_codec sample_snapshot sample_file change (sample_tracker (Some sample_record)) =
    (Inr Marked, tk')"
proof -
  let ?tk = "sample_tracker (Some sample_record)\<lparr>tk_marks := sample_disk (Some sample_record)\<lparr>md_held := {''ba5e''}\<rparr>\<rparr>"
  let ?vs = "\<lparr>vs_base = v_base, vs_reviewed = \<lparr>rv_text = v_reviewed, rv_attribution = uniform Reviewer\<rparr>, vs_current = v_current\<rparr>"
  have tk: "tk_cache ?tk = cache_new" "md_records (tk_marks ?tk) = md_records (sample_disk (Some sample_record))" "no_faults ?tk"
    by (simp_all add: sample_tracker_def no_faults_def) (simp add: sample_disk_def)
  obtain dc where d: "tracker_diff sample_repo trim_diff sample_codec sample_snapshot sample_file ?tk = (Inr sample_review_diff, ?tk\<lparr>tk_cache := dc\<rparr>)"
    using sample_diff_load [OF tk] by blast
  let ?tk1 = "?tk\<lparr>tk_cache := dc\<rparr>"
  have "md_records (tk_marks ?tk1) = md_records (sample_disk (Some sample_record))" "no_faults ?tk1"
    using tk by (simp_all add: no_faults_def)
  note vs = sample_versions [OF this]
  have "versions_review ?vs = hunk_review_new v_base v_reviewed v_current"
    by (simp add: versions_review_def attributed_def hunk_review_new_def REVIEWER_ONLY_def uniform_def)
  note change = assms(1) [OF this]
  obtain tk2 where st: "store_version sample_codec sample_snapshot sample_file ?vs v ?tk1 = (Inr (), tk2)"
    using sample_store [OF _ assms(2), of ?tk1 "{''ba5e''}" ?vs] by auto
  have lock: "in_store (lock_marks ''ba5e'') (sample_tracker (Some sample_record)) = (Inr True, ?tk)"
    by (simp add: in_store_def sample_tracker_def sample_lock)
  have identity: "rp_identity sample_repo = Inr sample_identity" by (simp add: sample_repo_def)
  show ?thesis
    by (simp add: edit_def with_marks_lock_def and_then_def identity asked_def lock d vs change st returning_def reading_def
        split: prod.split)
qed

lemma sample_polled: "polled {(sample_snapshot, sample_file)}"
  by (simp add: polled_def)

lemma sample_reachable: "tracker_reachable R D C W (sample_tracker stored)"
  unfolding sample_tracker_def by (rule reach_open)

lemma sample_mark_run:
  "\<exists>tk'. tracker_mark sample_repo sample_codec sample_snapshot sample_file author (sample_tracker (Some sample_record)) = (Inr Marked, tk')"
proof -
  let ?tk = "sample_tracker (Some sample_record)\<lparr>tk_marks := sample_disk (Some sample_record)\<lparr>md_held := {''ba5e''}\<rparr>\<rparr>"
  let ?vs = "\<lparr>vs_base = v_base, vs_reviewed = \<lparr>rv_text = v_reviewed, rv_attribution = uniform Reviewer\<rparr>, vs_current = v_current\<rparr>"
  obtain tk2 where "store_version sample_codec sample_snapshot sample_file ?vs (Current (uniform author)) ?tk = (Inr (), tk2)"
    using sample_store [of ?tk "{''ba5e''}" "Current (uniform author)" ?vs] by auto
  then obtain rr where "in_store (mark_file sample_codec ''ba5e'' ''f'' ''c1'' author) ?tk = (Inr rr, tk2)"
    by (auto simp: store_version_def and_then_Inr uniform_author_def uniform_def)
  moreover have "in_store (lock_marks ''ba5e'') (sample_tracker (Some sample_record)) = (Inr True, ?tk)"
    by (simp add: in_store_def sample_tracker_def sample_lock)
  moreover have "rp_identity sample_repo = Inr sample_identity" by (simp add: sample_repo_def)
  ultimately show ?thesis
    by (simp add: tracker_mark_def with_marks_lock_def and_then_def asked_def returning_def reading_def path_of_run split: prod.split)
qed

end
