(* ===== verification/TrackerProperties.thy ===== *)
theory TrackerProperties
  imports TrackerSamples
begin

text \<open>
  The properties of the review tracker: states, marks, edits, the cache and the progress of a review.
\<close>

definition sizes_ok :: "repo \<Rightarrow> differ \<Rightarrow> codec \<Rightarrow> snapshot \<Rightarrow> changed_file \<Rightarrow> load_result \<Rightarrow> bool" where
  "sizes_ok R D C snap f l \<longleftrightarrow>
     (\<forall>d. computes R D C snap f l d \<longrightarrow>
        readable_diff (rd_unified d) \<and> length (lines_new (text_or_empty (rd_new d))) \<le> u32_max) \<and>
     (\<forall>rr pr base. l = Reviewed rr \<longrightarrow> rr_partial rr = Some pr \<longrightarrow>
        base_text R snap f = Inr base \<longrightarrow> length (lines_new (rv_text (replay D (pr_base pr) (pr_reviewed pr) base))) \<le> u32_max)"

text \<open>C1: once some lines of a path are reviewed, accepting all hunks that are open makes the path reviewed: the tracker
  reads the mark from disk, takes the diff from its cache or computes it, parses it back into hunks,
  accepts them and stores a mark; whoever reads the marks next, with any cache, finds the path reviewed.\<close>

theorem accepting_the_rest_reviews_the_path:
  assumes "line_diff D" "codec_ok C" "same_snapshot_is_empty R" "polled W" "tracker_reachable R D C W tk" "(snap, f) \<in> W"
    and "review_path f = Some path" "text_file f"
    and "some_lines_reviewed R D snap f (mark_on C (tk_marks tk) (unit_of snap) path)"
    and "sizes_ok R D C snap f (mark_on C (tk_marks tk) (unit_of snap) path)"
    and "review_hunks_where R D C snap f True author (\<lambda>_. True) tk = (Inr n, tk')" "0 < n"
    and "no_faults later" "md_records (tk_marks later) = md_records (tk_marks tk')"
  shows "fst (tracker_status R D C snap f later) = Inr state_reviewed"
proof -
  have "validate_unit (unit_of snap) = Inr () \<and> validate_path path = Inr ()"
    using review_hunks_valid [OF assms(11,12,7)] .
  then have "load_of C snap f later = (Inr (mark_on C (tk_marks later) (unit_of snap) path), later)"
    using load_of_run [OF assms(13,7)] by blast
  moreover have "mark_on C (tk_marks later) = mark_on C (tk_marks tk')" by (rule mark_on_cong [OF assms(14)])
  ultimately show ?thesis
    using accepting_all_status [OF assms(1-4,6) reachable_cache [OF assms(4,5)] assms(7-9,11,12)] assms(10,14)
    by (simp add: sizes_ok_def)
qed

lemma sample_sizes: "sizes_ok sample_repo trim_diff sample_codec sample_snapshot sample_file (Reviewed sample_record)"
  unfolding sizes_ok_def
proof (intro conjI allI impI)
  fix d
  assume d: "computes sample_repo trim_diff sample_codec sample_snapshot sample_file (Reviewed sample_record) d"
  have same: "rv_text (replay trim_diff v_base \<lparr>rv_text = v_reviewed, rv_attribution = uniform Reviewer\<rparr> v_base) = v_reviewed"
    by (simp add: replay_def)
  have new: "rd_new d = Some v_current" using computes_new [OF d] by simp
  have "rd_unified d = sample_open"
    using computes_partial [OF d, of "\<lparr>pr_base = v_base, pr_reviewed = \<lparr>rv_text = v_reviewed, rv_attribution = uniform Reviewer\<rparr>\<rparr>" v_base]
    by (auto simp: same new sample_display text_or_empty_def sample_open_def)
  with new sample_open_readable show "readable_diff (rd_unified d)" "length (lines_new (text_or_empty (rd_new d))) \<le> u32_max"
    by (simp_all add: text_or_empty_def)
qed (auto simp: replay_def)

lemma sample_some_lines: "some_lines_reviewed sample_repo trim_diff sample_snapshot sample_file (Reviewed sample_record)"
  by (simp add: some_lines_reviewed_def replay_def)

lemma sample_tracker_mark: "mark_on sample_codec (tk_marks (sample_tracker (Some sample_record))) ''ba5e'' ''f'' = Reviewed sample_record"
  by (rule sample_mark) (simp add: sample_tracker_def)

text \<open>The store of a tracker, as a process without faults finds it later.\<close>

definition reopened :: "tracker \<Rightarrow> tracker" where
  "reopened tk = \<lparr>tk_marks = (tk_marks tk)\<lparr>md_faults := (\<lambda>_ _ _. None)\<rparr>, tk_cache = cache_new\<rparr>"

lemma reopened_simps [simp]: "no_faults (reopened tk)" "md_records (tk_marks (reopened tk)) = md_records (tk_marks tk)"
    "tk_cache (reopened tk) = cache_new"
  by (simp_all add: reopened_def no_faults_def)

theorem accepting_the_rest_witness:
  "\<exists>n tk'. 0 < n \<and> review_hunks_where sample_repo trim_diff sample_codec sample_snapshot sample_file True Jev (\<lambda>_. True)
       (sample_tracker (Some sample_record)) = (Inr n, tk') \<and>
     fst (tracker_status sample_repo trim_diff sample_codec sample_snapshot sample_file (reopened tk')) = Inr state_reviewed"
proof -
  obtain n tk' where run: "review_hunks_where sample_repo trim_diff sample_codec sample_snapshot sample_file True Jev (\<lambda>_. True)
      (sample_tracker (Some sample_record)) = (Inr n, tk')" "0 < n"
    using sample_accept_run sample_spans(2) by (metis length_greater_0_conv)
  have "fst (tracker_status sample_repo trim_diff sample_codec sample_snapshot sample_file (reopened tk')) = Inr state_reviewed"
    by (rule accepting_the_rest_reviews_the_path [OF line_diff_trim_diff sample_codec_ok sample_repo_ok sample_polled sample_reachable
          _ sample_names(6) sample_file_text _ _ run])
      (simp_all add: sample_tracker_mark sample_sizes sample_some_lines)
  with run show ?thesis by blast
qed

text \<open>C6: an edit that stored a mark made it of the version that the change returned, computed from the three versions of
  the path behind its mark; and the next look at the path, with whatever the cache still holds, starts from that
  version, on the same base and the same current file.\<close>

theorem edits_are_where_the_next_look_starts:
  assumes "polled W" "(snap, f) \<in> W" "tracker_reachable R D C W tk" "codec_ok C" "same_snapshot_is_empty R"
    and "edit R D C snap f change tk = (Inr Marked, tk')"
  shows "\<exists>d vs v path. review_path f = Some path \<and> change d (versions_review vs) = Inr (Some v) \<and>
    computes R D C snap f (mark_on C (tk_marks tk) (unit_of snap) path) d \<and>
    base_text R snap f = Inr (vs_base vs) \<and> vs_current vs = text_or_empty (rd_new d) \<and>
    marks_version snap vs v (mark_on C (tk_marks tk') (unit_of snap) path) \<and>
    (\<forall>d' tk1 vs' tk2. tracker_diff R D C snap f tk' = (Inr d', tk1) \<longrightarrow> versions_of R D C snap f d' tk1 = (Inr vs', tk2) \<longrightarrow>
       length (lines_new (vs_current vs)) \<le> u32_max \<longrightarrow>
       vs_base vs' = vs_base vs \<and> vs_current vs' = vs_current vs \<and>
       rv_text (vs_reviewed vs') = version_text (versions_review vs) v)"
  using edit_then_versions [OF assms(1,2) reachable_cache [OF assms(1,3)] assms(4,5,6)] .

theorem edits_witness:
  "\<exists>tk' v. edit sample_repo trim_diff sample_codec sample_snapshot sample_file (\<lambda>_ _. Inr (Some (Partial v)))
       (sample_tracker (Some sample_record)) = (Inr Marked, tk') \<and>
     (\<exists>vs. marks_version sample_snapshot vs (Partial v) (mark_on sample_codec (tk_marks tk') ''ba5e'' ''f''))"
proof -
  obtain tk' where run: "edit sample_repo trim_diff sample_codec sample_snapshot sample_file
      (\<lambda>_ _. Inr (Some (Partial \<lparr>rv_text = v_appended, rv_attribution = uniform Jev\<rparr>))) (sample_tracker (Some sample_record)) = (Inr Marked, tk')"
    using sample_edit_run [of "\<lambda>_ _. Inr (Some (Partial \<lparr>rv_text = v_appended, rv_attribution = uniform Jev\<rparr>))"] by blast
  from edits_are_where_the_next_look_starts [OF sample_polled _ sample_reachable sample_codec_ok sample_repo_ok run]
  show ?thesis using run by auto
qed

text \<open>C5: the diff that the tracker answers is the one that an empty cache would load for the mark now on disk, in
  every state that its operations and other writers of the marks lead to.\<close>

theorem cached_diffs_are_fresh:
  assumes "polled W" "(snap, f) \<in> W" "tracker_reachable R D C W tk" "tracker_diff R D C snap f tk = (Inr d, tk')"
    and "no_faults fresh" "md_records (tk_marks fresh) = md_records (tk_marks tk)" "tk_cache fresh = cache_new"
  shows "fst (tracker_diff R D C snap f fresh) = Inr d"
proof -
  from tracker_diff_right [OF assms(1,2) reachable_cache [OF assms(1,3)]] assms(4) obtain path where path: "review_path f = Some path"
    and comp: "computes R D C snap f (mark_on C (tk_marks tk) (unit_of snap) path) d" by blast
  have "load_of C snap f fresh = (Inr (mark_on C (tk_marks tk) (unit_of snap) path), fresh)"
    using load_of_run [OF assms(5) path] tracker_diff_valid [OF assms(4) path] mark_on_cong [OF assms(6), of C] by simp
  with comp assms(5,7) path show ?thesis by (rule tracker_diff_blank)
qed

theorem cached_diffs_witness:
  "fst (tracker_diff sample_repo trim_diff sample_codec sample_snapshot sample_file (reopened (sample_tracker (Some sample_record)))) =
     Inr sample_review_diff"
proof -
  let ?tk = "sample_tracker (Some sample_record)"
  have "tk_cache ?tk = cache_new" "md_records (tk_marks ?tk) = md_records (sample_disk (Some sample_record))" by (simp_all add: sample_tracker_def)
  from sample_diff_load [OF this sample_no_faults] obtain tk' where
    "tracker_diff sample_repo trim_diff sample_codec sample_snapshot sample_file ?tk = (Inr sample_review_diff, tk')" by blast
  from cached_diffs_are_fresh [OF sample_polled _ sample_reachable this, of "reopened ?tk"] show ?thesis by simp
qed

text \<open>C35: the cache counts the bytes of the diffs it holds, and never holds more than its limit.\<close>

theorem the_cache_is_bounded:
  assumes "polled W" "tracker_reachable R D C W tk"
  shows "dc_bytes (tk_cache tk) = held_bytes (dc_files (tk_cache tk)) \<and> held_bytes (dc_files (tk_cache tk)) \<le> MAX_BYTES"
  using reachable_cache [OF assms] by (simp add: cache_fine_def size_ok_def)

theorem the_cache_witness:
  "held_bytes (dc_files (tk_cache (snd (tracker_diff sample_repo trim_diff sample_codec sample_snapshot sample_file
     (sample_tracker (Some sample_record)))))) \<le> MAX_BYTES"
  using the_cache_is_bounded [OF sample_polled reach_diff [OF sample_reachable singletonI]] by blast

text \<open>C4: in a Git repository and a store that answers, the states of all paths are, path by path: for a path with a
  whole-file mark what the comparison of the mark's baseline with exactly the paths marked at that baseline says of it (an
  expired baseline, changed since the review when it has statistics, else reviewed), and for every other path the state that
  asking for it alone finds. They are found exactly when each of those is: no marked path is left out of the plan.\<close>

theorem statuses_are_the_states_of_each_path:
  assumes "no_faults tk"
  shows "fst (statuses (git_backend G R) D C snap tk) = Inr sts \<longleftrightarrow>
    map (\<lambda>f.
        case baseline_of C snap tk f of
          None \<Rightarrow> fst (tracker_status (git_backend G R) D C snap f tk)
        | Some b \<Rightarrow>
            map_sum RepositoryFailed (compared_state f) (compare_baseline G snap b
              {path. \<exists>g \<in> set (sn_files snap). review_path g = Some path \<and> baseline_of C snap tk g = Some b}))
      (sn_files snap) = map Inr sts"
  using statuses_by_path [OF assms, of G R D C snap sts] unfolding state_of_def marked_at_def .

theorem statuses_witness:
  "fst (statuses (git_backend sample_git sample_repo) trim_diff sample_codec sample_snapshot (sample_tracker (Some sample_whole))) =
     Inr [state_changed_since_review \<lparr>lines_added = 1, lines_removed = 0\<rparr>]"
proof -
  let ?tk = "sample_tracker (Some sample_whole)"
  have "mark_on sample_codec (tk_marks ?tk) ''ba5e'' ''f'' = Reviewed (reread sample_whole)"
    using loaded_encoded [OF sample_codec_ok, of sample_whole "''ba5e''" "''f''"]
    by (simp add: mark_on_def stored_at_def sample_tracker_def sample_disk_def)
      (simp add: sample_whole_def commit_valid_def is_digit_def less_eq_char_def of_char_def)
  then have "load_of sample_codec sample_snapshot sample_file ?tk = (Inr (Reviewed (reread sample_whole)), ?tk)"
    using load_of_run [OF sample_no_faults, of sample_file "''f''" sample_snapshot sample_codec "Some sample_whole"] by simp
  then have baseline: "baseline_of sample_codec sample_snapshot ?tk sample_file = Some ''c0''"
    by (simp add: baseline_of_def) (simp add: reread_def sample_whole_def)
  have "parse_git_stats (print_numstat [Plain ''f'' \<lparr>lines_added = 1, lines_removed = 0\<rparr>]) =
      Inr [''f'' \<mapsto> \<lparr>lines_added = 1, lines_removed = 0\<rparr>]"
    by (subst parse_printed_stats) (simp_all add: numstat_ok_def nul_def u64_max_def)
  then have "compare_baseline sample_git sample_snapshot ''c0'' paths =
      Inr (ComparedPaths [''f'' \<mapsto> \<lparr>lines_added = 1, lines_removed = 0\<rparr>])" for paths
    by (simp add: compare_baseline_def sample_git_def)
  moreover have "sn_files sample_snapshot = [sample_file]" by (simp add: sample_snapshot_def)
  ultimately show ?thesis using baseline
    by (subst statuses_are_the_states_of_each_path [OF sample_no_faults]) (simp add: compared_state_def)
qed

text \<open>C36: an operation that marks takes the lock of its review once: when the process holds no lock it never waits for
  one that it holds itself, and it holds none when it is over, however it ends.\<close>

theorem marking_never_waits_for_itself:
  assumes "md_held (tk_marks tk) = {}"
  shows "lock_free (edit R D C snap f change) tk \<and> lock_free (tracker_mark R C snap f author) tk \<and>
    lock_free (review_hunks_where R D C snap f may author accept) tk \<and> lock_free (tracker_unreview C snap f) tk"
  by (intro conjI lock_free_edit lock_free_mark lock_free_review_hunks lock_free_unreview assms)

theorem marking_never_waits_witness:
  "fst (tracker_mark sample_repo sample_codec sample_snapshot sample_file Jev (sample_tracker None)) \<noteq> Inl LockedOut"
  using marking_never_waits_for_itself [of "sample_tracker None" sample_repo trim_diff sample_codec sample_snapshot sample_file
      "\<lambda>_ _. Inr None" Jev]
  by (simp add: lock_free_def sample_tracker_def sample_disk_def)

text \<open>C37: marking a path reviewed at the snapshot that is shown makes it reviewed, by the author given, for whoever reads the
  marks next.\<close>

theorem marked_paths_are_reviewed:
  assumes "tracker_mark R C snap f author tk = (Inr Marked, tk')" "rp_identity R = Inr (sn_identity snap)"
    and "codec_ok C" "same_snapshot_is_empty R" "no_faults later" "md_records (tk_marks later) = md_records (tk_marks tk')"
  shows "fst (tracker_status R D C snap f later) = Inr state_reviewed \<and>
    fst (whole_file_author C snap f later) = Inr (Some author)"
proof -
  from tracker_mark_Inr [OF assms(1,3)] assms(2) obtain path rr where path: "review_path f = Some path"
    and valid: "validate_unit (unit_of snap) = Inr ()" "validate_path path = Inr ()"
    and rr: "mark_on C (tk_marks tk') (unit_of snap) path = Reviewed rr" "rr_partial rr = None" "rr_author rr = author"
      "rr_commit rr = commit_of snap"
    by (auto simp: commit_of_def)
  have "load_of C snap f later = (Inr (Reviewed rr), later)"
    using load_of_run [OF assms(5) path valid, of C] rr(1) mark_on_cong [OF assms(6), of C] by simp
  with whole_mark_status [OF this path rr(2,4) assms(4)] rr show ?thesis
    by (simp add: whole_file_author_def and_then_def returning_def reading_def)
qed

theorem marked_paths_witness:
  "\<exists>tk'. tracker_mark sample_repo sample_codec sample_snapshot sample_file Jev (sample_tracker (Some sample_record)) = (Inr Marked, tk') \<and>
     fst (tracker_status sample_repo trim_diff sample_codec sample_snapshot sample_file (reopened tk')) = Inr state_reviewed"
proof -
  obtain tk' where run: "tracker_mark sample_repo sample_codec sample_snapshot sample_file Jev (sample_tracker (Some sample_record)) =
      (Inr Marked, tk')"
    using sample_mark_run by blast
  have "rp_identity sample_repo = Inr (sn_identity sample_snapshot)" by (simp add: sample_repo_def)
  from marked_paths_are_reviewed [OF run this sample_codec_ok sample_repo_ok, of "reopened tk'"] run show ?thesis by auto
qed

section \<open>The store of marks\<close>

text \<open>C16: a mark that was stored is the one that the next load answers, the attribution of its lines in order, and
  as it was when it was in order; no load of another path or of another review changes, but for a record of a newer
  reviewer under a path of the same hash, which is replaced.\<close>

theorem stored_marks_are_loaded:
  assumes "store_mark C unit path commit author partial dk = (Inr rr, dk')" "codec_ok C"
    and "md_faults later = (\<lambda>_ _ _. None)" "md_records later = md_records dk'"
  shows "fst (load_mark C unit path later) = Inr (Reviewed (reread rr)) \<and> (record_ok rr \<longrightarrow> reread rr = rr) \<and>
    rr_path rr = path \<and> rr_commit rr = commit \<and> rr_author rr = author \<and> rr_partial rr = partial \<and>
    (\<forall>unit' path'. (unit', path') \<noteq> (unit, path) \<longrightarrow> mark_on C later unit' path' = mark_on C dk unit' path' \<or>
       mark_on C dk unit' path' = UnknownSchema \<and> mark_on C later unit' path' = Unreviewed)"
proof -
  note on = store_mark_Inr [OF assms(1,2)] and same = mark_on_cong [OF assms(4), of C]
  from assms(1) show ?thesis
  proof (cases rule: store_mark_cases)
    case (written now)
    from load_mark_no_faults [OF assms(3) written(3,5)] same on have
      "fst (load_mark C unit path later) = Inr (Reviewed (reread rr))" by simp
    moreover have "mark_on C dk' unit' path' = mark_on C dk unit' path' \<or>
        mark_on C dk unit' path' = UnknownSchema \<and> mark_on C dk' unit' path' = Unreviewed"
      if "(unit', path') \<noteq> (unit, path)" for unit' path'
      by (rule mark_on_other [OF written(2) _ assms(2) that written(8)]) simp
    ultimately show ?thesis using on reread_ok same by simp
  qed simp
qed

theorem stored_marks_witness:
  "\<exists>rr dk'. store_mark sample_codec ''ba5e'' ''g'' ''c1'' Jev None (sample_disk (Some sample_record)) = (Inr rr, dk') \<and>
     fst (load_mark sample_codec ''ba5e'' ''g'' (dk'\<lparr>md_faults := (\<lambda>_ _ _. None)\<rparr>)) = Inr (Reviewed rr) \<and> rr_author rr = Jev"
proof -
  have "no_collision sample_codec (sample_disk (Some sample_record)) ''ba5e'' ''g''"
    by (simp add: no_collision_def stored_at_def sample_disk_def)
  then obtain rr dk' where run: "store_mark sample_codec ''ba5e'' ''g'' ''c1'' Jev None (sample_disk (Some sample_record)) = (Inr rr, dk')"
    using store_mark_no_faults [of "sample_disk (Some sample_record)" "''2026''" sample_codec "''ba5e''" "''g''" "''c1''" Jev None]
    by (auto simp: sample_disk_def validate_path_def)
  have "record_ok rr" using store_mark_Inr(5) [OF run sample_codec_ok] by (simp add: record_ok_def)
  with stored_marks_are_loaded [OF run sample_codec_ok, of "dk'\<lparr>md_faults := (\<lambda>_ _ _. None)\<rparr>"] run show ?thesis by auto
qed

text \<open>a mark that could not be stored left every record as it was, or had replaced the record of its own path by the
  new one already; a record of another path whose hash is the same is never overwritten.\<close>

theorem failed_marks_leave_the_records:
  assumes "store_mark C unit path commit author partial dk = (Inl e, dk')"
  shows "md_records dk' = md_records dk \<or>
    no_collision C dk unit path \<and> (\<exists>now. md_now dk = Inr now \<and>
      md_records dk' = with_record unit (path_hash C path) (Some (Some (encode_record C unit
        \<lparr>rr_path = path, rr_commit = commit, rr_at = now, rr_author = author, rr_partial = partial\<rparr>))) dk)"
  using assms by (cases rule: store_mark_cases) auto

theorem failed_marks_witness:
  "fst (store_mark sample_codec ''ba5e'' ''f'' ''XYZ'' Jev None (sample_disk None)) = Inl (InvalidStateKey ''commit ID'') \<and>
   md_records (snd (store_mark sample_codec ''ba5e'' ''f'' ''XYZ'' Jev None (sample_disk None))) = md_records (sample_disk None)"
proof -
  have run: "store_mark sample_codec ''ba5e'' ''f'' ''XYZ'' Jev None (sample_disk None) = (Inl (InvalidStateKey ''commit ID''), sample_disk None)"
    by (simp add: store_mark_def and_then_def reading_def validate_commit_def commit_valid_def is_digit_def less_eq_char_def of_char_def)
  from failed_marks_leave_the_records [OF this] run show ?thesis by auto
qed

text \<open>removing a mark whose baseline expired removes the mark that was found, and not one that was written since; no
  record of another path is touched.\<close>

theorem expired_marks_do_not_take_newer_ones:
  assumes "unreview_expired C unit path written_at dk = (r, dk')"
  shows "(\<forall>rr. mark_on C dk unit path = Reviewed rr \<longrightarrow> rr_at rr \<noteq> written_at \<longrightarrow> md_records dk' = md_records dk) \<and>
    (\<forall>unit' key. (unit', key) \<noteq> (unit, path_hash C path) \<longrightarrow> md_records dk' unit' key = md_records dk unit' key) \<and>
    (\<forall>rr. r = Inr () \<longrightarrow> mark_on C dk' unit path = Reviewed rr \<longrightarrow> rr_at rr \<noteq> written_at)"
  using assms
proof (cases rule: unreview_expired_cases)
  case kept
  with mark_on_cong [OF kept(1), of C] show ?thesis by auto
next
  case (removed rr)
  with mark_on_removed [OF removed(3)] show ?thesis by (auto simp: with_record_def)
qed

theorem expired_marks_witness:
  "md_records (snd (unreview_expired sample_codec ''ba5e'' ''f'' ''2024'' (sample_disk (Some sample_record)))) =
     md_records (sample_disk (Some sample_record))"
proof -
  let ?run = "unreview_expired sample_codec ''ba5e'' ''f'' ''2024'' (sample_disk (Some sample_record))"
  have "mark_on sample_codec (sample_disk (Some sample_record)) ''ba5e'' ''f'' = Reviewed sample_record" by (rule sample_mark) simp
  with expired_marks_do_not_take_newer_ones [of sample_codec "''ba5e''" "''f''" "''2024''" "sample_disk (Some sample_record)" "fst ?run" "snd ?run"]
  show ?thesis by (simp add: sample_record_def)
qed

text \<open>C38: an attribution is read from a record with its lines in order, nonempty and disjoint, whatever the record holds;
  one that is in order is read back as it was written, and those of rebuilt versions are.\<close>

theorem attributions_are_in_order:
  "attribution_ok (to_attribution sa) \<and>
   (attribution_ok at \<longrightarrow> to_attribution (from_attribution at) = at) \<and>
   (line_diff D \<longrightarrow> attribution_ok (rv_attribution (rb_finish D rb base)))"
  using attribution_ok_loaded to_attribution_from attribution_ok_finish by blast

theorem attributions_witness:
  "to_attribution (from_attribution \<lparr>at_default = Reviewer, at_removed = [\<lparr>al_lines = (1, 3), al_author = Jev\<rparr>], at_added = []\<rparr>) =
     \<lparr>at_default = Reviewer, at_removed = [\<lparr>al_lines = (1, 3), al_author = Jev\<rparr>], at_added = []\<rparr>"
  using attributions_are_in_order [of undefined "\<lparr>at_default = Reviewer, at_removed = [\<lparr>al_lines = (1, 3), al_author = Jev\<rparr>], at_added = []\<rparr>"]
  by (simp add: attribution_ok_def)

text \<open>the progress of a change stays within its scale, and reaches 100% only when every file is reviewed; it does then,
  unless the change is empty or has more lines than a count of 64 bits holds in percent.\<close>

theorem progress_is_100_when_all_is_reviewed:
  "progress_percent (progress_of fs) \<le> 100 \<and> progress_filled (progress_of fs) cells \<le> cells \<and>
   (progress_percent (progress_of fs) = 100 \<longrightarrow> fs \<noteq> [] \<and> list_all (\<lambda>(s, st). rs_status st = ReviewedStatus) fs) \<and>
   (fs \<noteq> [] \<longrightarrow> list_all (\<lambda>(s, st). rs_status st = ReviewedStatus) fs \<longrightarrow> pg_total (progress_of fs) * 100 \<le> u64_max \<longrightarrow>
      progress_percent (progress_of fs) = 100)"
proof -
  let ?p = "progress_of fs"
  note counts = progress_counts [of fs]
  have le: "pg_reviewed ?p \<le> pg_total ?p" using counts(2) by simp
  have all: "pg_reviewed ?p = pg_total ?p \<longleftrightarrow> list_all (\<lambda>(s, st). rs_status st = ReviewedStatus) fs"
    using counts(2) remaining_sum_zero [of fs] by linarith
  have some: "0 < pg_total ?p \<longleftrightarrow> fs \<noteq> []" 
    unfolding counts(1) weight_sum_zero [symmetric] by (rule neq0_conv [symmetric])
  have "pg_reviewed ?p = pg_total ?p \<and> 0 < pg_total ?p" if "progress_percent ?p = 100"
    using that le share_full [of ?p 100] by (cases "pg_total ?p = 0") (auto simp: progress_percent_def share_of_def le_less)
  with le share_le share_whole all some show ?thesis
    by (simp add: progress_percent_def progress_filled_def)
qed

theorem progress_witness:
  "progress_percent (progress_of [(\<lparr>lines_added = 3, lines_removed = 1\<rparr>, state_reviewed)]) = 100"
  using progress_is_100_when_all_is_reviewed [of "[(\<lparr>lines_added = 3, lines_removed = 1\<rparr>, state_reviewed)]"]
  by (simp add: state_reviewed_def progress_of_def progress_add_def progress_new_def weight_of_def stat_lines_def u64_max_def)

end
