(* ===== verification/CharText.thy ===== *)
theory CharText
  imports ByteText
begin

text \<open>
  Rust's text operations by character, on UTF-8 octets: the characters of a string, white space, trimming and
  splitting at it, and maps with ordered keys (\<open>BTreeMap\<close>).

  The lower case of a string, whether a character is alphanumeric, and how a string is escaped for
  debugging come from the tables of Unicode: the parameter \<open>unicode\<close>.
\<close>

record unicode =
  uc_lower :: "bytes \<Rightarrow> bytes"
  uc_alphanumeric :: "bytes \<Rightarrow> bool"
  uc_debug :: "bytes \<Rightarrow> bytes"

section \<open>Characters\<close>

function chars_of :: "bytes \<Rightarrow> bytes list" where
  "chars_of t =
     (if t = [] then [] else take (snd (utf8_step t)) t # chars_of (drop (snd (utf8_step t)) t))"
  by pat_completeness auto
termination
proof (relation "measure length")
  fix t :: bytes
  assume "t \<noteq> []"
  then show "(drop (snd (utf8_step t)) t, t) \<in> measure length"
    using utf8_step_pos [of t] by simp
qed simp

declare chars_of.simps [simp del]

lemma chars_of_Nil [simp]: "chars_of [] = []"
  by (subst chars_of.simps) simp

lemma chars_of_ascii [simp]: "(of_char c :: nat) < 128 \<Longrightarrow> chars_of (c # t) = [c] # chars_of t"
  by (subst chars_of.simps) (simp add: utf8_step_ascii)

lemma concat_chars_of [simp]: "concat (chars_of t) = t"
proof (induction t rule: chars_of.induct)
  case (1 t)
  then show ?case by (subst chars_of.simps) simp
qed

definition char_count :: "bytes \<Rightarrow> nat" where
  "char_count t = length (chars_of t)"

text \<open>\<open>char::is_whitespace\<close> and \<open>char::is_control\<close>.\<close>

definition space_char :: "bytes \<Rightarrow> bool" where
  "space_char c \<longleftrightarrow>
     (case c of
        [b] \<Rightarrow> (9 \<le> (of_char b :: nat) \<and> (of_char b :: nat) \<le> 13) \<or> b = CHR '' ''
      | [b, d] \<Rightarrow> b = CHR 0xC2 \<and> (d = CHR 0x85 \<or> d = CHR 0xA0)
      | [b, d, e] \<Rightarrow> b = CHR 0xE1 \<and> d = CHR 0x9A \<and> e = CHR 0x80 \<or>
          b = CHR 0xE2 \<and> d = CHR 0x80 \<and> (128 \<le> (of_char e :: nat) \<and> (of_char e :: nat) \<le> 138 \<or>
            e = CHR 0xA8 \<or> e = CHR 0xA9 \<or> e = CHR 0xAF) \<or>
          b = CHR 0xE2 \<and> d = CHR 0x81 \<and> e = CHR 0x9F \<or>
          b = CHR 0xE3 \<and> d = CHR 0x80 \<and> e = CHR 0x80
      | _ \<Rightarrow> False)"

definition control_char :: "bytes \<Rightarrow> bool" where
  "control_char c \<longleftrightarrow>
     (case c of
        [b] \<Rightarrow> (of_char b :: nat) < 32 \<or> (of_char b :: nat) = 127
      | [b, d] \<Rightarrow> b = CHR 0xC2 \<and> (of_char d :: nat) < 160
      | _ \<Rightarrow> False)"

definition trim :: "bytes \<Rightarrow> bytes" where
  "trim t = concat (rev (dropWhile space_char (rev (dropWhile space_char (chars_of t)))))"

definition trim_end :: "bytes \<Rightarrow> bytes" where
  "trim_end t = concat (rev (dropWhile space_char (rev (chars_of t))))"

text \<open>\<open>t.trim().is_empty()\<close>.\<close>

definition blank :: "bytes \<Rightarrow> bool" where
  "blank t \<longleftrightarrow> list_all space_char (chars_of t)"

fun words_from :: "bytes \<Rightarrow> bytes list \<Rightarrow> bytes list" where
  "words_from w [] = (if w = [] then [] else [w])"
| "words_from w (c # cs) =
     (if space_char c then (if w = [] then words_from [] cs else w # words_from [] cs) else words_from (w @ c) cs)"

definition split_whitespace :: "bytes \<Rightarrow> bytes list" where
  "split_whitespace t = words_from [] (chars_of t)"

lemma chars_of_nonempty: "c \<in> set (chars_of t) \<Longrightarrow> c \<noteq> []"
proof (induction t rule: chars_of.induct)
  case (1 t)
  show ?case
  proof (cases "t = []")
    case False
    with "1.prems" consider "c = take (snd (utf8_step t)) t" | "c \<in> set (chars_of (drop (snd (utf8_step t)) t))"
      by (subst (asm) chars_of.simps) auto
    then show ?thesis using "1.IH" [OF False] utf8_step_pos [OF False] False by cases auto
  qed (use "1.prems" in simp)
qed

lemma trim_Nil_iff: "trim t = [] \<longleftrightarrow> blank t"
proof -
  have none: "concat cs = [] \<longleftrightarrow> cs = []" if "\<forall>c \<in> set cs. c \<noteq> []" for cs :: "bytes list"
    using that by (cases cs) auto
  let ?cs = "rev (dropWhile space_char (rev (dropWhile space_char (chars_of t))))"
  have "\<forall>c \<in> set ?cs. c \<noteq> []"
    using chars_of_nonempty by (metis set_dropWhileD set_rev)
  note empty = none [OF this]
  have "dropWhile space_char cs = [] \<longleftrightarrow> list_all space_char (dropWhile space_char cs)" for cs
    by (induction cs) auto
  with empty show ?thesis
    by (simp add: trim_def blank_def dropWhile_eq_Nil_conv list_all_iff)
qed

section \<open>Ordered maps\<close>

text \<open>A map as the list of its entries by ascending key.\<close>

fun bt_insert :: "bytes \<Rightarrow> 'a \<Rightarrow> (bytes \<times> 'a) list \<Rightarrow> (bytes \<times> 'a) list" where
  "bt_insert k v [] = [(k, v)]"
| "bt_insert k v (e # m) =
     (if k < fst e then (k, v) # e # m else if k = fst e then (k, v) # m else e # bt_insert k v m)"

definition bt_remove :: "bytes \<Rightarrow> (bytes \<times> 'a) list \<Rightarrow> (bytes \<times> 'a) list" where
  "bt_remove k m = filter (\<lambda>e. fst e \<noteq> k) m"

definition bt_extend :: "(bytes \<times> 'a) list \<Rightarrow> (bytes \<times> 'a) list \<Rightarrow> (bytes \<times> 'a) list" where
  "bt_extend es m = foldl (\<lambda>m (k, v). bt_insert k v m) m es"

definition bt_ok :: "(bytes \<times> 'a) list \<Rightarrow> bool" where
  "bt_ok m \<longleftrightarrow> sorted_wrt (<) (map fst m)"

lemma bt_insert_lookup: "bt_ok m \<Longrightarrow> map_of (bt_insert k v m) = (map_of m)(k \<mapsto> v)"
  by (induction m) (auto simp: bt_ok_def fun_eq_iff)

lemma bt_insert_keys: "fst ` set (bt_insert k v m) = insert k (fst ` set m)"
  by (induction m) auto

lemma bt_insert_ok: "bt_ok m \<Longrightarrow> bt_ok (bt_insert k v m)"
proof (induction m)
  case (Cons e m)
  have "\<forall>x \<in> fst ` set (bt_insert k v m). fst e < x" if "fst e < k"
    using that Cons.prems by (auto simp: bt_insert_keys bt_ok_def)
  with Cons show ?case by (auto simp: bt_ok_def)
qed (simp add: bt_ok_def)

lemma bt_insert_set: "set (bt_insert k v m) \<subseteq> insert (k, v) (set m)"
  by (induction m) auto

lemma bt_insert_mem: "(k, v) \<in> set (bt_insert k v m)"
  by (induction m) auto

lemma bt_ok_distinct: "bt_ok m \<Longrightarrow> distinct (map fst m)"
  by (simp add: bt_ok_def strict_sorted_iff)

lemma bt_remove_lookup: "map_of (bt_remove k m) = (map_of m)(k := None)"
  by (induction m) (auto simp: bt_remove_def fun_eq_iff)

lemma bt_remove_ok: "bt_ok m \<Longrightarrow> bt_ok (bt_remove k m)"
  by (induction m) (auto simp: bt_remove_def bt_ok_def)

lemma bt_ok_Nil [simp]: "bt_ok []"
  by (simp add: bt_ok_def)

lemma bt_extend_ok: "bt_ok m \<Longrightarrow> bt_ok (bt_extend es m)"
  by (induction es arbitrary: m) (auto simp: bt_extend_def bt_insert_ok)

section \<open>Checks that can fail\<close>

text \<open>\<open>eyre::ensure!\<close>, the \<open>?\<close> of a check that returns nothing, and \<open>try_for_each\<close>.\<close>

type_synonym checked = "bytes + unit"

definition ensure :: "bool \<Rightarrow> bytes \<Rightarrow> checked" where
  "ensure b message = (if b then Inr () else Inl message)"

definition also_check :: "checked \<Rightarrow> checked \<Rightarrow> checked" where
  "also_check a b = (case a of Inl e \<Rightarrow> Inl e | Inr _ \<Rightarrow> b)"

fun checks :: "checked list \<Rightarrow> checked" where
  "checks [] = Inr ()"
| "checks (c # cs) = also_check c (checks cs)"

definition passes :: "'e + 'a \<Rightarrow> bool" where
  "passes c \<longleftrightarrow> \<not> isl c"

lemma ensure_passes [simp]: "passes (ensure b m) \<longleftrightarrow> b"
  by (simp add: ensure_def passes_def)

lemma also_check_passes [simp]: "passes (also_check a b) \<longleftrightarrow> passes a \<and> passes b"
  by (auto simp: also_check_def passes_def split: sum.splits)

lemma checks_passes [simp]: "passes (checks cs) \<longleftrightarrow> list_all passes cs"
  by (induction cs) (auto simp: passes_def also_check_def split: sum.splits)

lemma passes_sum [simp]: "passes (Inr x)" "\<not> passes (Inl e)"
  by (simp_all add: passes_def)

lemma passes_iff: "passes c \<longleftrightarrow> c = Inr ()" for c :: checked
  by (cases c) (auto simp: passes_def)

text \<open>A set that a loop fills, refusing what is already in it: \<open>all(|x| set.insert(x))\<close>.\<close>

fun all_new :: "'a set \<Rightarrow> 'a list \<Rightarrow> bool" where
  "all_new seen [] = True"
| "all_new seen (x # xs) = (x \<notin> seen \<and> all_new (insert x seen) xs)"

lemma all_new_iff: "all_new seen xs \<longleftrightarrow> distinct xs \<and> set xs \<inter> seen = {}"
  by (induction xs arbitrary: seen) auto

end
