(* ===== verification/ExploreData.thy ===== *)
theory ExploreData
  imports CharText DiffRows Snapshots Anchors Attribution AgentPort
begin

text \<open>
  The data of an Explore round (crates/review-explore/src): the topics, questions, answers and turns of an interview
  of the reviewer by the agent, the comparison the interview is about, and the records a round keeps of the requests it
  sent.

  Identities, texts and paths are strings; a \<open>BTreeMap\<close> is the sorted list of its entries (\<open>CharText\<close>).
\<close>

section \<open>Locations and evidence\<close>

datatype source_side = OldSide | NewSide

definition side_pick :: "source_side \<Rightarrow> 'a \<Rightarrow> 'a \<Rightarrow> 'a" where
  "side_pick side old new = (case side of OldSide \<Rightarrow> old | NewSide \<Rightarrow> new)"

definition path_in :: "source_side \<Rightarrow> changed_file \<Rightarrow> repo_path option" where
  "path_in side f = side_pick side (old_path f) (new_path f)"

definition side_display :: "source_side \<Rightarrow> bytes" where
  "side_display side = (case side of OldSide \<Rightarrow> ''old'' | NewSide \<Rightarrow> ''new'')"

record code_location =
  lo_path :: repo_path
  lo_side :: source_side
  lo_lines :: "source_line_range option"

definition location_display :: "code_location \<Rightarrow> bytes" where
  "location_display l =
     (case lo_lines l of
        Some lines \<Rightarrow> path_display (lo_path l) @ '' '' @ side_display (lo_side l) @ '' '' @ source_range_display lines
      | None \<Rightarrow> path_display (lo_path l) @ '' (whole file)'')"

text \<open>The one-based location of zero-based lines on one side of a file; \<open>None\<close> for a file without a path.\<close>

definition location_on :: "changed_file \<Rightarrow> source_side \<Rightarrow> range \<Rightarrow> code_location option" where
  "location_on f side lines =
     map_option (\<lambda>path. \<lparr>lo_path = path, lo_side = side, lo_lines = Some (from_zero_based lines)\<rparr>)
       (case path_in side f of Some p \<Rightarrow> Some p | None \<Rightarrow> review_path f)"

definition names_file :: "code_location \<Rightarrow> changed_file \<Rightarrow> bool" where
  "names_file l f =
     (let old = old_path f = Some (lo_path l); new = new_path f = Some (lo_path l)
      in (case lo_lines l of
            None \<Rightarrow> old \<or> new
          | Some _ \<Rightarrow> (case lo_side l of OldSide \<Rightarrow> old | NewSide \<Rightarrow> new)))"

record evidence_ref =
  ev_location :: code_location
  ev_notes :: bytes

record test_location =
  tl_path :: repo_path
  tl_lines :: source_line_range

datatype not_relevant_reason = RemovedCode | TestedMechanics | FollowsCode

record not_relevant_mark =
  nr_location :: code_location
  nr_reason :: "not_relevant_reason option"
  nr_test :: "test_location option"

definition mark_locations :: "not_relevant_mark list \<Rightarrow> code_location list" where
  "mark_locations ms = map nr_location ms"

definition test_display :: "test_location \<Rightarrow> bytes" where
  "test_display t = path_display (tl_path t) @ '' '' @ source_range_display (tl_lines t)"

definition reason_text :: "not_relevant_reason \<Rightarrow> bytes" where
  "reason_text r =
     (case r of
        RemovedCode \<Rightarrow> ''removed code the change is about''
      | TestedMechanics \<Rightarrow> ''mechanics covered by tests''
      | FollowsCode \<Rightarrow> ''follows the code'')"

definition mark_why :: "not_relevant_mark \<Rightarrow> bytes" where
  "mark_why m =
     (case nr_reason m of
        None \<Rightarrow> ''not relevant''
      | Some r \<Rightarrow>
          (case nr_test m of
             Some t \<Rightarrow> ''not relevant: '' @ reason_text r @ '', see '' @ test_display t
           | None \<Rightarrow> ''not relevant: '' @ reason_text r))"

definition mark_display :: "not_relevant_mark \<Rightarrow> bytes" where
  "mark_display m = location_display (nr_location m) @ '' ('' @ mark_why m @ '')''"

section \<open>Topics and questions\<close>

datatype topic_status = TopicOpen | TopicAccepted | NeedsFollowUp

datatype change_author = ByReviewer | ByOther

definition toggle_author :: "change_author \<Rightarrow> change_author" where
  "toggle_author a = (case a of ByReviewer \<Rightarrow> ByOther | ByOther \<Rightarrow> ByReviewer)"

datatype writing_style = Plain | SimplifiedTechnicalEnglish | Concise

definition ASK_AUTHOR :: bytes where "ASK_AUTHOR = ''ask-author''"

record topic =
  tp_id :: bytes
  tp_title :: bytes
  tp_entries :: "code_location list"
  tp_status :: topic_status
  tp_prompt :: bytes
  tp_prerequisites :: "bytes list"
  tp_rank :: nat

definition same_but_status :: "topic \<Rightarrow> topic \<Rightarrow> bool" where
  "same_but_status t other \<longleftrightarrow> t = other\<lparr>tp_status := tp_status t\<rparr>"

record alternative =
  ch_id :: bytes
  ch_text :: bytes
  ch_outcome :: topic_status
  ch_recommendation :: "bytes option"

datatype door = OneWay | TwoWay | MixedDoor | UnknownDoor

definition door_label :: "door \<Rightarrow> bytes" where
  "door_label d =
     (case d of
        OneWay \<Rightarrow> ''One-way / hard to reverse''
      | TwoWay \<Rightarrow> ''Two-way''
      | MixedDoor \<Rightarrow> ''Mixed''
      | UnknownDoor \<Rightarrow> ''Unknown'')"

record consequence =
  cq_summary :: bytes
  cq_details :: bytes
  cq_evidence :: "evidence_ref list"
  cq_unknowns :: "bytes list"

record assessments =
  am_door :: door
  am_reversibility :: consequence
  am_blast_radius :: consequence

record question =
  qu_id :: bytes
  qu_version :: nat
  qu_topic :: bytes
  qu_text :: bytes
  qu_rationale :: "bytes option"
  qu_visual :: "bytes option"
  qu_alternatives :: "alternative list"
  qu_evidence :: "evidence_ref list"
  qu_assessments :: "assessments option"

definition is_version :: "question \<Rightarrow> bytes \<Rightarrow> nat \<Rightarrow> bool" where
  "is_version q i v \<longleftrightarrow> qu_id q = i \<and> qu_version q = v"

definition NONE_OF_THE_ABOVE :: alternative where
  "NONE_OF_THE_ABOVE =
     \<lparr>ch_id = ''none-of-the-above'', ch_text = ''None of the above'', ch_outcome = TopicOpen,
      ch_recommendation = None\<rparr>"

definition choices :: "question \<Rightarrow> alternative list" where
  "choices q = qu_alternatives q @ [NONE_OF_THE_ABOVE]"

definition choice :: "question \<Rightarrow> bytes \<Rightarrow> alternative option" where
  "choice q i = find (\<lambda>c. ch_id c = i) (choices q)"

definition is_none_of_the_above :: "alternative \<Rightarrow> bool" where
  "is_none_of_the_above c \<longleftrightarrow> ch_id c = ch_id NONE_OF_THE_ABOVE"

section \<open>Answers\<close>

record reviewer_answer =
  ra_id :: bytes
  ra_checkpoint :: review_checkpoint
  ra_question :: "question option"
  ra_in_reply_to :: bytes
  ra_option :: "alternative option"
  ra_text :: bytes
  ra_author :: bytes
  ra_first_pick :: "bytes option"
  ra_drawing_board :: bool

definition answers_question :: "reviewer_answer \<Rightarrow> question \<Rightarrow> bool" where
  "answers_question a q \<longleftrightarrow> ra_question a = Some q"

record answer_input =
  ai_option :: "bytes option"
  ai_text :: bytes
  ai_in_reply_to :: "bytes option"
  ai_first_pick :: "bytes option"
  ai_drawing_board :: bool

record answer_interpretation =
  ip_answer :: bytes
  ip_status :: topic_status
  ip_recap :: bytes
  ip_follow_ups :: "bytes list"

datatype agenda_action = Retire | Supersede | Reconsider

record agenda_change =
  gc_topic :: bytes
  gc_action :: agenda_action
  gc_reason :: bytes
  gc_answer :: "bytes option"
  gc_evidence :: "evidence_ref list"
  gc_replacement :: "bytes option"
  gc_decision :: "bytes option"

definition inactive :: "agenda_change option \<Rightarrow> bool" where
  "inactive c \<longleftrightarrow> (case c of None \<Rightarrow> False | Some c \<Rightarrow> gc_action c = Retire \<or> gc_action c = Supersede)"

record reply =
  ry_text :: bytes
  ry_evidence :: "evidence_ref list"

datatype proposal_result = Asked | Merged | Retired | Kept

record challenger_proposal =
  cp_title :: bytes
  cp_result :: proposal_result
  cp_reason :: "bytes option"

record design_part =
  dp_thesis :: "bytes option"
  dp_body :: bytes

record design =
  de_thesis :: "bytes option"
  de_overview :: design_part
  de_data_flow :: design_part
  de_algorithm :: design_part
  de_alternatives :: design_part

record quiz_item =
  qi_question :: bytes
  qi_answers :: "bytes list"
  qi_correct :: nat
  qi_why :: bytes
  qi_proof :: "evidence_ref list"
  qi_level :: bytes

datatype quiz_response = PickAnswer nat nat | SkipQuiz

record quiz_pick =
  qp_item :: nat
  qp_answer :: nat
  qp_correct :: bool

record quiz_answers =
  qa_picks :: "quiz_pick list"
  qa_skipped :: bool

definition no_quiz_answers :: quiz_answers where
  "no_quiz_answers = \<lparr>qa_picks = [], qa_skipped = False\<rparr>"

record conclusion =
  co_summary :: bytes
  co_to_be_implemented :: bytes
  co_future_work :: bytes
  co_quiz :: "quiz_item list"
  co_quiz_empty_reason :: "bytes option"

section \<open>Turns of the agent\<close>

record interview_update =
  iu_instance :: bytes
  iu_request :: bytes
  iu_checkpoint :: review_checkpoint
  iu_interpretation :: "answer_interpretation option"
  iu_reviewed :: "code_location list"
  iu_reopened :: "code_location list"
  iu_not_relevant :: "not_relevant_mark list"
  iu_proposals :: "challenger_proposal list"
  iu_reply :: "reply option"
  iu_design :: "design option"
  iu_glossary :: "(bytes \<times> bytes) list"
  iu_agenda :: "agenda_change list"
  iu_topics :: "topic list"
  iu_next :: "question option"
  iu_conclusion :: "conclusion option"
  iu_limitations :: "bytes list"
  iu_findings :: "bytes list"

definition requests_marks :: "interview_update \<Rightarrow> bool" where
  "requests_marks u \<longleftrightarrow> \<not> (iu_reviewed u = [] \<and> iu_reopened u = [] \<and> iu_not_relevant u = [])"

record conclusion_submission =
  cs_review :: bytes
  cs_instance :: bytes
  cs_request :: bytes
  cs_checkpoint :: review_checkpoint
  cs_interpretation :: "answer_interpretation option"
  cs_reviewed :: "code_location list"
  cs_reopened :: "code_location list"
  cs_not_relevant :: "not_relevant_mark list"
  cs_proposals :: "challenger_proposal list"
  cs_glossary :: "(bytes \<times> bytes) list"
  cs_conclusion :: conclusion

definition into_update :: "conclusion_submission \<Rightarrow> interview_update" where
  "into_update c =
     \<lparr>iu_instance = cs_instance c, iu_request = cs_request c, iu_checkpoint = cs_checkpoint c,
      iu_interpretation = cs_interpretation c, iu_reviewed = cs_reviewed c, iu_reopened = cs_reopened c,
      iu_not_relevant = cs_not_relevant c, iu_proposals = cs_proposals c, iu_reply = None, iu_design = None,
      iu_glossary = cs_glossary c, iu_agenda = [], iu_topics = [], iu_next = None,
      iu_conclusion = Some (cs_conclusion c), iu_limitations = [], iu_findings = []\<rparr>"

record revision =
  rn_message :: bytes
  rn_reason :: bytes

record question_revision =
  qr_instance :: bytes
  qr_checkpoint :: review_checkpoint
  qr_revision :: revision
  qr_question :: question
  qr_glossary :: "(bytes \<times> bytes) list"

record conversation_turn =
  ct_answer :: "bytes option"
  ct_update :: interview_update
  ct_revision :: "revision option"

record turn_request =
  tr_instance :: bytes
  tr_request :: bytes
  tr_checkpoint :: review_checkpoint
  tr_answer :: "reviewer_answer option"
  tr_cancelled :: "bytes list"
  tr_response_error :: "bytes option"
  tr_challenger :: bool
  tr_author :: change_author
  tr_reviewer :: "bytes option"
  tr_writing :: writing_style

definition is_kickoff :: "turn_request \<Rightarrow> bool" where
  "is_kickoff r \<longleftrightarrow> tr_answer r = None"

definition at_drawing_board :: "turn_request \<Rightarrow> bool" where
  "at_drawing_board r \<longleftrightarrow> (case tr_answer r of None \<Rightarrow> False | Some a \<Rightarrow> ra_drawing_board a)"

record diagram_error =
  dg_question :: bytes
  dg_version :: nat
  dg_source :: bytes
  dg_message :: bytes

record implementation_request =
  ir_instance :: bytes
  ir_conclusion :: bytes
  ir_delivery :: bytes
  ir_text :: bytes

section \<open>The comparison a round is about\<close>

record frozen_file =
  ff_path :: bytes
  ff_old_path :: "bytes option"
  ff_new_path :: "bytes option"
  ff_old_content :: "bytes option"
  ff_new_content :: "bytes option"
  ff_hunk_count :: nat
  ff_hunks :: "frozen_hunk list"
  ff_diff_hash :: bytes

record manifest_entry =
  me_file :: nat
  me_hunk :: "nat option"

record source =
  so_path :: repo_path
  so_display :: bytes
  so_side :: source_side
  so_content :: "bytes option"
  so_limitation :: "bytes option"
  so_base :: "snapshot_identity option"

record comparison =
  cm_root :: bytes
  cm_checkpoint :: review_checkpoint
  cm_files :: "changed_file list"
  cm_context :: "frozen_file list"
  cm_diffs :: "bytes list"
  cm_manifest :: "manifest_entry list"
  cm_sources :: "source list"
  cm_base :: "snapshot_identity option"

section \<open>The interview\<close>

record exploration =
  ex_instance :: bytes
  ex_comparison :: comparison
  ex_topics :: "(bytes \<times> topic) list"
  ex_questions :: "question list"
  ex_answers :: "reviewer_answer list"
  ex_interpretations :: "answer_interpretation list"
  ex_limitations :: "bytes list"
  ex_findings :: "bytes list"
  ex_conclusion :: "conclusion option"
  ex_conversation :: "conversation_turn list"
  ex_elapsed :: "(bytes \<times> nat) list"
  ex_outstanding :: "turn_request option"
  ex_retry :: "turn_request option"
  ex_cancelled :: "bytes list"
  ex_challenger :: bool
  ex_author :: change_author
  ex_reviewer :: "bytes option"
  ex_writing :: writing_style
  ex_glossary :: "(bytes \<times> bytes) list"
  ex_diagram_errors :: "diagram_error list"
  ex_quiz_answers :: "(bytes \<times> quiz_answers) list"

definition exploration_new :: "bytes \<Rightarrow> comparison \<Rightarrow> exploration" where
  "exploration_new instance_id c =
     \<lparr>ex_instance = instance_id, ex_comparison = c, ex_topics = [], ex_questions = [], ex_answers = [],
      ex_interpretations = [], ex_limitations = [], ex_findings = [], ex_conclusion = None, ex_conversation = [],
      ex_elapsed = [], ex_outstanding = None, ex_retry = None, ex_cancelled = [], ex_challenger = False,
      ex_author = ByReviewer, ex_reviewer = None, ex_writing = Plain, ex_glossary = [], ex_diagram_errors = [],
      ex_quiz_answers = []\<rparr>"

definition ex_checkpoint :: "exploration \<Rightarrow> review_checkpoint" where
  "ex_checkpoint x = cm_checkpoint (ex_comparison x)"

definition topic_status_of :: "exploration \<Rightarrow> bytes \<Rightarrow> topic_status option" where
  "topic_status_of x i = map_option tp_status (map_of (ex_topics x) i)"

definition turn_pending :: "exploration \<Rightarrow> bool" where
  "turn_pending x \<longleftrightarrow> ex_outstanding x \<noteq> None"

definition cancelled_since_last_turn :: "exploration \<Rightarrow> bool" where
  "cancelled_since_last_turn x \<longleftrightarrow> ex_cancelled x \<noteq> []"

definition turn_after :: "exploration \<Rightarrow> bytes \<Rightarrow> conversation_turn option" where
  "turn_after x a = find (\<lambda>t. ct_answer t = Some a) (ex_conversation x)"

definition took_up :: "exploration \<Rightarrow> bytes \<Rightarrow> bool" where
  "took_up x a \<longleftrightarrow> turn_after x a \<noteq> None"

definition interpretation_of :: "exploration \<Rightarrow> bytes \<Rightarrow> answer_interpretation option" where
  "interpretation_of x a = find (\<lambda>i. ip_answer i = a) (rev (ex_interpretations x))"

text \<open>The answer of the request that the agent works on.\<close>

definition submitted_answer :: "exploration \<Rightarrow> reviewer_answer option" where
  "submitted_answer x = Option.bind (ex_outstanding x) tr_answer"

definition ex_design :: "exploration \<Rightarrow> design option" where
  "ex_design x =
     (case ex_conversation x of
        [] \<Rightarrow> None
      | t # _ \<Rightarrow> (if ct_answer t \<noteq> None then None else iu_design (ct_update t)))"

text \<open>Whether the round concluded at the drawing board.\<close>

definition concluded_at_drawing_board :: "exploration \<Rightarrow> bool" where
  "concluded_at_drawing_board x \<longleftrightarrow>
     ex_conclusion x \<noteq> None \<and> ex_answers x \<noteq> [] \<and> ra_drawing_board (last (ex_answers x))"

definition pending_request :: "exploration \<Rightarrow> turn_request option" where
  "pending_request x = ex_outstanding x"

definition retry_request :: "exploration \<Rightarrow> turn_request option" where
  "retry_request x = ex_retry x"

text \<open>The turn whose question the round waits for an answer to.\<close>

definition waiting_turn :: "exploration \<Rightarrow> interview_update option" where
  "waiting_turn x =
     (if ex_outstanding x \<noteq> None \<or> ex_retry x \<noteq> None \<or> ex_conversation x = [] then None
      else let u = ct_update (last (ex_conversation x)) in if iu_next u \<noteq> None then Some u else None)"

section \<open>Starting a round\<close>

datatype start_block = NothingToReview

fun start_block_from :: "bool \<Rightarrow> bool list \<Rightarrow> start_block option" where
  "start_block_from changed [] = (if changed then Some NothingToReview else None)"
| "start_block_from changed (u # us) = (if u then None else start_block_from True us)"

definition start_block_of :: "bool list \<Rightarrow> start_block option" where
  "start_block_of unreviewed = start_block_from False unreviewed"

lemma start_block_of_iff: "start_block_of us = Some NothingToReview \<longleftrightarrow> us \<noteq> [] \<and> list_all Not us"
proof -
  have "start_block_from c us = Some NothingToReview \<longleftrightarrow> (c \<or> us \<noteq> []) \<and> list_all Not us" for c
    by (induction us arbitrary: c) auto
  then show ?thesis by (simp add: start_block_of_def)
qed

record round_choices =
  rc_challenger :: bool
  rc_author :: change_author
  rc_reviewer :: "bytes option"

definition NAME_LENGTH :: nat where "NAME_LENGTH = 80"

text \<open>The line breaks a typed name stops at: line feed, carriage return, next line and the two Unicode
  separators.\<close>

definition line_break :: "bytes \<Rightarrow> bool" where
  "line_break c \<longleftrightarrow>
     c = [CHR 0x0A] \<or> c = [CHR 0x0D] \<or> c = [CHR 0xC2, CHR 0x85] \<or> c = [CHR 0xE2, CHR 0x80, CHR 0xA8] \<or>
     c = [CHR 0xE2, CHR 0x80, CHR 0xA9]"

definition typed_name :: "bytes \<Rightarrow> bytes" where
  "typed_name name =
     concat (take NAME_LENGTH (chars_of (trim
       (concat (filter (Not \<circ> control_char) (takeWhile (Not \<circ> line_break) (chars_of name)))))))"

definition round_choices_new :: "bool \<Rightarrow> change_author \<Rightarrow> bytes \<Rightarrow> round_choices" where
  "round_choices_new challenger author name =
     \<lparr>rc_challenger = challenger, rc_author = author,
      rc_reviewer = (if author = ByOther \<and> typed_name name \<noteq> [] then Some (typed_name name) else None)\<rparr>"

definition choose_start :: "round_choices \<Rightarrow> exploration \<Rightarrow> exploration" where
  "choose_start c x = x\<lparr>ex_challenger := rc_challenger c, ex_author := rc_author c, ex_reviewer := rc_reviewer c\<rparr>"

end
