(* ===== verification/ExploreSources.thy ===== *)
theory ExploreSources
  imports ExploreData LineMarks MarkStore
begin

text \<open>
  The sources of the change a round is about (crates/review-explore/src: source.rs, capture.rs, named_lines.rs): reading
  the base and the working copy, preparing the comparison a round keeps, and which locations an agent may cite or mark.

  The working copy is the parameter \<open>worktree\<close>: what the file system answers for a path, and the base of a
  snapshot as the repository gives it.
\<close>

record worktree =
  wt_is_file :: "bytes \<Rightarrow> bytes + bool"
  wt_canonical :: "bytes \<Rightarrow> bytes + bytes"
  wt_read :: "bytes \<Rightarrow> bytes + bytes"
  wt_base :: "snapshot_identity \<Rightarrow> repo_path \<Rightarrow> bytes + bytes"

section \<open>Paths\<close>

definition path_parts :: "bytes \<Rightarrow> bytes list" where
  "path_parts p = split_on (CHR ''/'') p"

text \<open>\<open>Path::components\<close> gives only \<open>Normal\<close> parts: empty parts and a dot after the first part are skipped, a root,
  a leading dot and a double dot are parts of another kind.\<close>

definition normal_path :: "bytes \<Rightarrow> bool" where
  "normal_path p \<longleftrightarrow>
     p \<noteq> [] \<and> hd p \<noteq> CHR ''/'' \<and> hd (path_parts p) \<noteq> ''.'' \<and> ''..'' \<notin> set (path_parts p)"

definition relative_path :: "code_location \<Rightarrow> repo_path option" where
  "relative_path l = (if normal_path (lo_path l) then Some (lo_path l) else None)"

definition join_path :: "bytes \<Rightarrow> bytes \<Rightarrow> bytes" where
  "join_path root p =
     (if p \<noteq> [] \<and> hd p = CHR ''/'' then p
      else if root = [] \<or> last root = CHR ''/'' then root @ p else root @ ''/'' @ p)"

text \<open>\<open>Path::starts_with\<close> between canonical paths: by whole components.\<close>

definition path_within :: "bytes \<Rightarrow> bytes \<Rightarrow> bool" where
  "path_within root p \<longleftrightarrow> starts_with (filter (\<lambda>c. c \<noteq> []) (path_parts root)) (filter (\<lambda>c. c \<noteq> []) (path_parts p))"

section \<open>Reading a source\<close>

definition disk_path :: "worktree \<Rightarrow> bytes \<Rightarrow> source \<Rightarrow> bytes + bytes" where
  "disk_path W root s =
     (let path = join_path root (so_path s) in
      case wt_is_file W path of
        Inl e \<Rightarrow> Inl e
      | Inr False \<Rightarrow> Inl ''Source is not a regular working-copy file''
      | Inr True \<Rightarrow>
         (case wt_canonical W path of
            Inl e \<Rightarrow> Inl e
          | Inr real \<Rightarrow>
             (case wt_canonical W root of
                Inl e \<Rightarrow> Inl e
              | Inr real_root \<Rightarrow>
                 if path_within real_root real then Inr real else Inl ''Source is outside the repository'')))"

definition read_source :: "worktree \<Rightarrow> bytes \<Rightarrow> source \<Rightarrow> bytes + bytes" where
  "read_source W root s =
     (if so_side s = OldSide then
        (case so_content s of
           Some content \<Rightarrow> Inr content
         | None \<Rightarrow>
            (case so_limitation s of
               Some limitation \<Rightarrow> Inl limitation
             | None \<Rightarrow>
                (case so_base s of
                   None \<Rightarrow> Inl ''Base source unavailable''
                 | Some identity \<Rightarrow> wt_base W identity (so_path s))))
      else (case disk_path W root s of Inl e \<Rightarrow> Inl e | Inr path \<Rightarrow> wt_read W path))"

definition citable_text :: "bytes \<Rightarrow> bytes + bytes" where
  "citable_text t =
     (if CHR 0x00 \<in> set t then Inl ''Non-text source; use file-level evidence''
      else if utf8_valid t then Inr t else Inl ''invalid utf-8 sequence'')"

definition read_text :: "worktree \<Rightarrow> bytes \<Rightarrow> source \<Rightarrow> bytes + bytes" where
  "read_text W root s = (case read_source W root s of Inl e \<Rightarrow> Inl e | Inr t \<Rightarrow> citable_text t)"

section \<open>The sources of a comparison\<close>

definition working_source :: "repo_path \<Rightarrow> source" where
  "working_source path =
     \<lparr>so_path = path, so_display = path_display path, so_side = NewSide, so_content = None, so_limitation = None,
      so_base = None\<rparr>"

definition source_of :: "comparison \<Rightarrow> code_location \<Rightarrow> source option" where
  "source_of c l =
     (case relative_path l of
        None \<Rightarrow> None
      | Some _ \<Rightarrow>
         (case find (\<lambda>s. so_side s = lo_side l \<and> so_path s = lo_path l) (cm_sources c) of
            Some s \<Rightarrow> Some s
          | None \<Rightarrow> Some ((working_source (lo_path l))\<lparr>so_side := lo_side l, so_base := cm_base c\<rparr>)))"

definition changed_side :: "comparison \<Rightarrow> code_location \<Rightarrow> bool" where
  "changed_side c l \<longleftrightarrow> list_ex (\<lambda>f. path_in (lo_side l) f = Some (lo_path l)) (cm_files c)"

definition lines_in_text :: "source_line_range \<Rightarrow> bytes \<Rightarrow> bool" where
  "lines_in_text r t \<longleftrightarrow> 0 < sl_first r \<and> sl_first r \<le> sl_last r \<and> sl_last r \<le> length (str_lines t)"

definition validate_location :: "worktree \<Rightarrow> comparison \<Rightarrow> code_location \<Rightarrow> bool" where
  "validate_location W c l =
     (case source_of c l of
        None \<Rightarrow> False
      | Some s \<Rightarrow>
          if so_side s = NewSide \<and> isl (disk_path W (cm_root c) s) then lo_lines l = None \<and> changed_side c l
          else if isl (read_source W (cm_root c) s)
            then lo_lines l = None \<and> (so_limitation s \<noteq> None \<or> changed_side c l)
          else (case lo_lines l of
                  None \<Rightarrow> True
                | Some r \<Rightarrow> (case read_text W (cm_root c) s of Inl _ \<Rightarrow> False | Inr t \<Rightarrow> lines_in_text r t)))"

definition validate_mark :: "worktree \<Rightarrow> comparison \<Rightarrow> code_location \<Rightarrow> bool" where
  "validate_mark W c l \<longleftrightarrow> list_ex (names_file l) (cm_files c) \<and> validate_location W c l"

definition validate_evidence :: "worktree \<Rightarrow> comparison \<Rightarrow> evidence_ref \<Rightarrow> bool" where
  "validate_evidence W c e \<longleftrightarrow> \<not> blank (ev_notes e) \<and> validate_location W c (ev_location e)"

section \<open>Lines a set of locations names\<close>

datatype named_lines = WholeFile | NamedLines line_selection

fun named_from :: "line_selection \<Rightarrow> code_location list \<Rightarrow> named_lines" where
  "named_from s [] = NamedLines s"
| "named_from s (l # ls) =
     (case lo_lines l of
        None \<Rightarrow> WholeFile
      | Some r \<Rightarrow>
          let lines = {sl_first r - 1..<sl_last r} in
          (case lo_side l of
             OldSide \<Rightarrow> named_from (s\<lparr>ls_removed := ls_removed s \<union> lines\<rparr>) ls
           | NewSide \<Rightarrow> named_from (s\<lparr>ls_added := ls_added s \<union> lines\<rparr>) ls))"

definition named_of :: "code_location list \<Rightarrow> named_lines" where
  "named_of ls = named_from \<lparr>ls_removed = {}, ls_added = {}\<rparr> ls"

definition named_in_file :: "changed_file \<Rightarrow> code_location list \<Rightarrow> named_lines option" where
  "named_in_file f ls =
     (let named = filter (\<lambda>l. names_file l f) ls in if named = [] then None else Some (named_of named))"

definition or_whole :: "named_lines \<Rightarrow> line_selection \<Rightarrow> line_selection" where
  "or_whole n whole = (case n of WholeFile \<Rightarrow> whole | NamedLines s \<Rightarrow> s)"

definition names_line :: "named_lines \<Rightarrow> source_side \<Rightarrow> nat \<Rightarrow> bool" where
  "names_line n side l \<longleftrightarrow>
     (case n of
        WholeFile \<Rightarrow> True
      | NamedLines s \<Rightarrow> (case side of OldSide \<Rightarrow> l \<in> ls_removed s | NewSide \<Rightarrow> l \<in> ls_added s))"

text \<open>A line is named when a location of its side holds it, or a location names the whole file.\<close>

lemma names_line_iff:
  "names_line (named_of ls) side l \<longleftrightarrow>
     (\<exists>x \<in> set ls. lo_lines x = None) \<or>
     (\<exists>x \<in> set ls. \<exists>r. lo_lines x = Some r \<and> lo_side x = side \<and> sl_first r - 1 \<le> l \<and> l < sl_last r)"
proof -
  have "names_line (named_from s ls) side l \<longleftrightarrow>
      (\<exists>x \<in> set ls. lo_lines x = None) \<or> names_line (NamedLines s) side l \<or>
      (\<exists>x \<in> set ls. \<exists>r. lo_lines x = Some r \<and> lo_side x = side \<and> sl_first r - 1 \<le> l \<and> l < sl_last r)" for s
  proof (induction ls arbitrary: s)
    case (Cons x ls)
    then show ?case
      by (cases "lo_lines x"; cases "lo_side x"; cases side)
        (auto simp: names_line_def Let_def split: named_lines.splits)
  qed simp
  then show ?thesis by (cases side) (simp_all add: named_of_def names_line_def)
qed

section \<open>Preparing a comparison\<close>

text \<open>The hash of a diff is the parameter \<open>sha\<close> (SHA-256, in hexadecimal).\<close>

definition frozen_hunk_of :: "diff_row \<Rightarrow> frozen_hunk option" where
  "frozen_hunk_of row =
     (case row of
        Hunk old_start old_count new_start new_count \<Rightarrow>
          Some \<lparr>fz_old = (if 0 < old_count then Some (old_start - 1, u32_add (old_start - 1) old_count) else None),
                fz_new = (if 0 < new_count then Some (new_start - 1, u32_add (new_start - 1) new_count) else None)\<rparr>
      | _ \<Rightarrow> None)"

datatype 'a prepared = Prepared 'a | PrepareFailed bytes | PreparePanicked

definition base_source :: "comparison \<Rightarrow> repo_path \<Rightarrow> bytes + bytes \<Rightarrow> bytes option \<times> comparison" where
  "base_source c path result =
     (let content = (case result of Inl _ \<Rightarrow> None | Inr t \<Rightarrow> Some t);
          limitation = (case result of Inl e \<Rightarrow> Some e | Inr _ \<Rightarrow> None);
          s = \<lparr>so_path = path, so_display = path_display path, so_side = OldSide, so_content = content,
               so_limitation = limitation, so_base = None\<rparr>
      in (content, c\<lparr>cm_sources := cm_sources c @ [s]\<rparr>))"

definition new_source :: "worktree \<Rightarrow> comparison \<Rightarrow> repo_path \<Rightarrow> bytes option \<times> comparison" where
  "new_source W c path =
     (let s = working_source path in
      case read_source W (cm_root c) s of
        Inr t \<Rightarrow> (Some t, c\<lparr>cm_sources := cm_sources c @ [s]\<rparr>)
      | Inl e \<Rightarrow> (None, c\<lparr>cm_sources := cm_sources c @ [s\<lparr>so_limitation := Some e\<rparr>]\<rparr>))"

definition file_entries :: "nat \<Rightarrow> nat \<Rightarrow> manifest_entry list" where
  "file_entries i n =
     \<lparr>me_file = i, me_hunk = None\<rparr> # map (\<lambda>h. \<lparr>me_file = i, me_hunk = Some h\<rparr>) [1..<n + 1]"

definition prepare_file ::
  "(bytes \<Rightarrow> bytes) \<Rightarrow> worktree \<Rightarrow> repo \<Rightarrow> snapshot \<Rightarrow> nat \<times> changed_file \<Rightarrow> comparison \<Rightarrow> comparison prepared" where
  "prepare_file sha W R snap e c =
     (case e of (i, f) \<Rightarrow>
      (case rp_diff R snap f of
         Inl err \<Rightarrow> PrepareFailed err
       | Inr diff \<Rightarrow>
          (let (old_content, c) = (case old_path f of
                  None \<Rightarrow> (None, c) | Some p \<Rightarrow> base_source c p (rp_base_file_at R snap p));
               (new_content, c) = (case new_path f of None \<Rightarrow> (None, c) | Some p \<Rightarrow> new_source W c p);
               hunks = List.map_filter frozen_hunk_of (parse_file_diff diff f)
           in (case review_path f of
                 None \<Rightarrow> PreparePanicked
               | Some p \<Rightarrow> Prepared (c\<lparr>
                   cm_manifest := cm_manifest c @ file_entries i (length hunks),
                   cm_context := cm_context c @
                     [\<lparr>ff_path = path_display p, ff_old_path = map_option path_display (old_path f),
                       ff_new_path = map_option path_display (new_path f), ff_old_content = old_content,
                       ff_new_content = new_content, ff_hunk_count = length hunks, ff_hunks = hunks,
                       ff_diff_hash = sha diff\<rparr>],
                   cm_diffs := cm_diffs c @ [diff]\<rparr>)))))"

fun prepare_files ::
  "(bytes \<Rightarrow> bytes) \<Rightarrow> worktree \<Rightarrow> repo \<Rightarrow> snapshot \<Rightarrow> (nat \<times> changed_file) list \<Rightarrow> comparison \<Rightarrow> comparison prepared"
where
  "prepare_files sha W R snap [] c = Prepared c"
| "prepare_files sha W R snap (e # es) c =
     (case prepare_file sha W R snap e c of Prepared c \<Rightarrow> prepare_files sha W R snap es c | p \<Rightarrow> p)"

definition prepare ::
  "(bytes \<Rightarrow> bytes) \<Rightarrow> worktree \<Rightarrow> repo \<Rightarrow> bytes \<Rightarrow> snapshot \<Rightarrow> comparison prepared" where
  "prepare sha W R root snap =
     prepare_files sha W R snap (enumerate 0 (sn_files snap))
       \<lparr>cm_root = root,
        cm_checkpoint = \<lparr>ck_review_unit = review_unit (sn_identity snap), ck_checkpoint = snapshot_id (sn_identity snap)\<rparr>,
        cm_files = sn_files snap, cm_context = [], cm_diffs = [], cm_manifest = [], cm_sources = [],
        cm_base = Some (sn_identity snap)\<rparr>"

section \<open>What a location covers\<close>

definition maps :: "comparison \<Rightarrow> manifest_entry \<Rightarrow> code_location \<Rightarrow> bool" where
  "maps c e l \<longleftrightarrow>
     (if me_file e < length (cm_files c) then
        (let f = cm_files c ! me_file e in
         if path_in (lo_side l) f \<noteq> Some (lo_path l) then False
         else (case (me_hunk e, lo_lines l) of
                 (Some h, Some r) \<Rightarrow>
                   if me_file e < length (cm_context c) \<and> 0 < h \<and> h - 1 < length (ff_hunks (cm_context c ! me_file e)) then
                     (let hunk = ff_hunks (cm_context c ! me_file e) ! (h - 1) in
                      case side_pick (lo_side l) (fz_old hunk) (fz_new hunk) of
                        None \<Rightarrow> False
                      | Some rng \<Rightarrow> sl_first r \<le> snd rng \<and> fst rng < sl_last r)
                   else True
               | _ \<Rightarrow> True))
      else False)"

definition unmapped :: "exploration \<Rightarrow> manifest_entry list" where
  "unmapped x =
     filter (\<lambda>e. \<not> list_ex (\<lambda>t. list_ex (maps (ex_comparison x) e) (tp_entries t)) (map snd (ex_topics x)))
       (cm_manifest (ex_comparison x))"

text \<open>What a restored round checks of its comparison.\<close>

definition manifest_ok :: "comparison \<Rightarrow> bool" where
  "manifest_ok c \<longleftrightarrow>
     list_all (\<lambda>e. me_file e < length (cm_files c) \<and> (case me_hunk e of None \<Rightarrow> True | Some h \<Rightarrow> 0 < h)) (cm_manifest c)"

lemma base_source_keeps [simp]:
  "cm_files (snd (base_source c p r)) = cm_files c" "cm_manifest (snd (base_source c p r)) = cm_manifest c"
  "cm_checkpoint (snd (base_source c p r)) = cm_checkpoint c"
  by (simp_all add: base_source_def Let_def)

lemma new_source_keeps [simp]:
  "cm_files (snd (new_source W c p)) = cm_files c" "cm_manifest (snd (new_source W c p)) = cm_manifest c"
  "cm_checkpoint (snd (new_source W c p)) = cm_checkpoint c"
  by (simp_all add: new_source_def Let_def split: sum.splits)

lemma file_entries_ok:
  "me \<in> set (file_entries i n) \<Longrightarrow> me_file me = i \<and> (case me_hunk me of None \<Rightarrow> True | Some h \<Rightarrow> 0 < h)"
  by (auto simp: file_entries_def)

lemma prepare_file_keeps:
  assumes "prepare_file sha W R snap (i, f) c = Prepared c'"
  shows "cm_files c' = cm_files c" "cm_checkpoint c' = cm_checkpoint c"
    "\<exists>n. cm_manifest c' = cm_manifest c @ file_entries i n"
  using assms
  by (auto simp: prepare_file_def Let_def split: sum.splits option.splits prod.splits
      dest: arg_cong [where f = snd])
    (metis base_source_keeps new_source_keeps snd_conv)+

lemma prepare_files_ok:
  "prepare_files sha W R snap (enumerate i fs) c = Prepared c' \<Longrightarrow> manifest_ok c \<Longrightarrow>
     i + length fs \<le> length (cm_files c) \<Longrightarrow>
     manifest_ok c' \<and> cm_files c' = cm_files c \<and> cm_checkpoint c' = cm_checkpoint c"
proof (induction fs arbitrary: i c)
  case (Cons f fs)
  from Cons.prems(1) obtain c1 where one: "prepare_file sha W R snap (i, f) c = Prepared c1"
    and rest: "prepare_files sha W R snap (enumerate (Suc i) fs) c1 = Prepared c'"
    by (auto split: prepared.splits)
  note keeps = prepare_file_keeps [OF one]
  have "manifest_ok c1"
    using keeps Cons.prems(2,3) file_entries_ok by (fastforce simp: manifest_ok_def list_all_iff)
  with Cons.IH [OF rest] keeps Cons.prems(3) show ?case by simp
qed simp

lemma comparison_prepared:
  assumes "prepare sha W R root snap = Prepared c"
  shows "manifest_ok c" "cm_files c = sn_files snap"
    "checkpoint_matches (cm_checkpoint c) (review_unit (sn_identity snap)) (snapshot_id (sn_identity snap))"
  using prepare_files_ok [OF assms [unfolded prepare_def]]
  by (auto simp: manifest_ok_def checkpoint_matches_def)

end
