(* ===== verification/ExploreChecks.thy ===== *)
theory ExploreChecks
  imports ExploreSources
begin

text \<open>
  What a round checks of a turn of the agent before it takes it (crates/review-explore/src: validation.rs,
  agenda_validation.rs, agenda.rs, drawing_board.rs, design.rs, challenger.rs, not_relevant.rs, quiz.rs,
  consequence.rs, choices.rs).

  A check is \<open>Inr ()\<close> or the message of the first rule the turn breaks. The walk along the prerequisites of a
  topic is a loop over a stack: it is proved to end, and to accept exactly a topic whose prerequisites are known and
  do not lead back to it.
\<close>

section \<open>Choices\<close>

definition MARK :: bytes where "MARK = ''recommended''"

fun rfind_byte :: "byte \<Rightarrow> bytes \<Rightarrow> nat option" where
  "rfind_byte c [] = None"
| "rfind_byte c (b # t) =
     (case rfind_byte c t of Some i \<Rightarrow> Some (Suc i) | None \<Rightarrow> if b = c then Some 0 else None)"

definition ascii_lower :: "byte \<Rightarrow> byte" where
  "ascii_lower b =
     (if 65 \<le> (of_char b :: nat) \<and> (of_char b :: nat) \<le> 90 then char_of ((of_char b :: nat) + 32) else b)"

definition trim_marks :: "bytes \<Rightarrow> bytes" where
  "trim_marks t = rev (dropWhile (\<lambda>b. b = CHR ''.'' \<or> b = CHR ''!'') (rev t))"

text \<open>The parenthesised mark that ends a choice's text when the text says that the choice is recommended.\<close>

definition recommended_mark :: "unicode \<Rightarrow> alternative \<Rightarrow> bytes option" where
  "recommended_mark U c =
     (let t = trim_end (trim_marks (trim_end (ch_text c))) in
      case strip_last (CHR '')'') t of
        None \<Rightarrow> None
      | Some stem \<Rightarrow>
         (case rfind_byte (CHR ''('') stem of
            None \<Rightarrow> None
          | Some at \<Rightarrow>
             (let inside = trim (drop (Suc at) stem) in
              if map ascii_lower (take (length MARK) inside) = MARK then
                (case chars_of (drop (length MARK) inside) of
                   [] \<Rightarrow> Some (drop at t)
                 | next # _ \<Rightarrow>
                     if \<not> uc_alphanumeric U next \<and> \<not> space_char next then Some (drop at t) else None)
              else None)))"

section \<open>The agenda\<close>

definition answered_on :: "reviewer_answer \<Rightarrow> bytes \<Rightarrow> bool" where
  "answered_on a i \<longleftrightarrow> (case ra_question a of None \<Rightarrow> False | Some q \<Rightarrow> qu_topic q = i)"

text \<open>Whether a turn decides the topic: it reads an answer on one of its questions as settling it.\<close>

definition decides :: "exploration \<Rightarrow> interview_update \<Rightarrow> bytes \<Rightarrow> bool" where
  "decides x u i \<longleftrightarrow>
     (case iu_interpretation u of
        None \<Rightarrow> False
      | Some ip \<Rightarrow>
          ip_status ip \<noteq> TopicOpen \<and>
          list_ex (\<lambda>a. ra_id a = ip_answer ip \<and> answered_on a i) (ex_answers x))"

definition change_in :: "bytes \<Rightarrow> agenda_change list \<Rightarrow> agenda_change option" where
  "change_in i cs = find (\<lambda>c. gc_topic c = i) cs"

definition latest_change :: "exploration \<Rightarrow> bytes \<Rightarrow> agenda_change option" where
  "latest_change x i = change_in i (concat (map (\<lambda>t. iu_agenda (ct_update t)) (rev (ex_conversation x))))"

fun agenda_from :: "exploration \<Rightarrow> bytes \<Rightarrow> conversation_turn list \<Rightarrow> agenda_change option" where
  "agenda_from x i [] = None"
| "agenda_from x i (t # ts) =
     (case change_in i (iu_agenda (ct_update t)) of
        Some c \<Rightarrow> Some c
      | None \<Rightarrow>
          if decides x (ct_update t) i then
            (case latest_change x i of
               None \<Rightarrow> None
             | Some c \<Rightarrow> if gc_action c \<noteq> Reconsider then Some c else None)
          else agenda_from x i ts)"

definition agenda_of :: "exploration \<Rightarrow> bytes \<Rightarrow> agenda_change option" where
  "agenda_of x i = agenda_from x i (rev (ex_conversation x))"

definition can_choose :: "exploration \<Rightarrow> question \<Rightarrow> bool" where
  "can_choose x q \<longleftrightarrow>
     (case map_option gc_action (agenda_of x (qu_topic q)) of
        Some Retire \<Rightarrow> False
      | Some Supersede \<Rightarrow> False
      | Some Reconsider \<Rightarrow> True
      | None \<Rightarrow> topic_status_of x (qu_topic q) = Some TopicOpen) \<and>
     \<not> list_ex (\<lambda>a. ra_question a = Some q) (ex_answers x) \<and>
     \<not> list_ex (\<lambda>n. qu_id n = qu_id q \<and> qu_version q < qu_version n) (ex_questions x)"

text \<open>The label of a topic; \<open>None\<close> is the panic of a topic the round does not have.\<close>

definition agenda_label :: "exploration \<Rightarrow> bytes \<Rightarrow> bytes option" where
  "agenda_label x i =
     (case map_option gc_action (agenda_of x i) of
        Some Retire \<Rightarrow> Some ''Retired''
      | Some Supersede \<Rightarrow> Some ''Superseded''
      | Some Reconsider \<Rightarrow> Some ''Reconsider''
      | None \<Rightarrow> map_option (\<lambda>s. case s of
            TopicOpen \<Rightarrow> ''Outstanding'' | TopicAccepted \<Rightarrow> ''Accepted'' | NeedsFollowUp \<Rightarrow> ''Follow-up required'')
          (topic_status_of x i))"

section \<open>The parts of a turn\<close>

definition validate_drawing_board :: "exploration \<Rightarrow> interview_update \<Rightarrow> checked" where
  "validate_drawing_board x u =
     (if \<not> (case ex_outstanding x of None \<Rightarrow> False | Some r \<Rightarrow> at_drawing_board r) then Inr ()
      else case iu_conclusion u of
        None \<Rightarrow> Inl ''The reviewer sent you back to the drawing board: conclude with submit_conclusion''
      | Some c \<Rightarrow> checks
          [ensure (\<not> blank (co_to_be_implemented c))
             ''List the changes the design needs in to_be_implemented'',
           ensure (co_quiz c = []) ''The quiz waits for the new design: leave quiz empty'',
           ensure (iu_interpretation u = None)
             ''Back to the drawing board decides no topic: leave interpretation null'',
           ensure (iu_reviewed u = [] \<and> iu_reopened u = [] \<and> iu_not_relevant u = [])
             ''The code will change: leave reviewed, reopened and not_relevant empty''])"

definition validate_interpretation :: "exploration \<Rightarrow> interview_update \<Rightarrow> checked" where
  "validate_interpretation x u =
     (case (submitted_answer x, iu_interpretation u) of
        (None, None) \<Rightarrow> Inr ()
      | (Some a, None) \<Rightarrow>
          ensure ((case ra_option a of None \<Rightarrow> True | Some c \<Rightarrow> ch_outcome c = TopicOpen) \<or> ra_text a \<noteq> [])
            ''An explicit decision needs an interpretation''
      | (Some a, Some ip) \<Rightarrow> checks
          [ensure (ra_question a \<noteq> None) ''Conversation context is not a policy decision'',
           ensure (ip_answer ip = ra_id a \<and> \<not> blank (ip_recap ip))
             ''Interpretation must reference the exact submitted answer'',
           ensure (ra_text a = [] \<longrightarrow> (case ra_option a of None \<Rightarrow> True | Some c \<Rightarrow> ip_status ip = ch_outcome c))
             ''An explicit choice must keep its stated outcome'',
           ensure (ip_follow_ups ip \<noteq> [] \<longrightarrow> ip_status ip = NeedsFollowUp)
             ''Required changes must remain follow-ups'']
      | (None, Some _) \<Rightarrow> Inl ''An interpretation is required only for the submitted human answer'')"

definition validate_quiz_item :: "unicode \<Rightarrow> worktree \<Rightarrow> comparison \<Rightarrow> quiz_item \<Rightarrow> checked" where
  "validate_quiz_item U W c q = checks
     [ensure (list_all (\<lambda>t. \<not> blank t) [qi_question q, qi_why q, qi_level q]) ''question, why and level need text'',
      ensure (2 \<le> length (qi_answers q) \<and> length (qi_answers q) \<le> 4 \<and> list_all (\<lambda>t. \<not> blank t) (qi_answers q) \<and>
          all_new {} (map (\<lambda>t. uc_lower U (trim t)) (qi_answers q)))
        ''answers needs two to four distinct options'',
      ensure (qi_correct q < length (qi_answers q)) ''correct must be the zero-based index of one of its answers'',
      ensure (qi_proof q \<noteq> [] \<and>
          list_all (\<lambda>p. lo_lines (ev_location p) \<noteq> None \<and> validate_evidence W c p) (qi_proof q))
        (''proof needs the lines that establish the correct answer: valid paths and line '' @
         ''ranges, each with notes'')]"

definition numbered_check :: "nat \<Rightarrow> checked \<Rightarrow> checked" where
  "numbered_check i r = map_sum (\<lambda>e. ''Quiz item '' @ show_nat (i + 1) @ '': '' @ e) id r"

definition validate_quiz :: "unicode \<Rightarrow> worktree \<Rightarrow> comparison \<Rightarrow> conclusion \<Rightarrow> checked" where
  "validate_quiz U W c k =
     (let reason = (case co_quiz_empty_reason k of None \<Rightarrow> False | Some r \<Rightarrow> \<not> blank r) in
      if co_quiz k = [] then
        ensure reason
          (''An empty quiz needs quiz_empty_reason: one sentence on why the change has '' @
           ''nothing at whiteboard level'')
      else also_check
        (ensure (\<not> reason) ''quiz_empty_reason explains an empty quiz; leave it null when the quiz has items'')
        (checks (map (\<lambda>(i, q). numbered_check i (validate_quiz_item U W c q)) (enumerate 0 (co_quiz k)))))"

definition is_one_line :: "bytes \<Rightarrow> bool" where
  "is_one_line t \<longleftrightarrow> \<not> blank t \<and> nl \<notin> set (trim t)"

definition design_parts :: "design \<Rightarrow> design_part list" where
  "design_parts d = [de_overview d, de_data_flow d, de_algorithm d, de_alternatives d]"

definition one_line :: "bytes option \<Rightarrow> bool" where
  "one_line t \<longleftrightarrow> (case t of None \<Rightarrow> False | Some t \<Rightarrow> is_one_line t)"

definition design_validate :: "design \<Rightarrow> checked" where
  "design_validate d = checks
     [ensure (one_line (de_thesis d)) ''The design needs a thesis: the change in one sentence, on one line'',
      ensure (list_all (\<lambda>p. one_line (dp_thesis p)) (design_parts d))
        ''Every part of design needs a thesis: the part in one sentence, on one line'',
      ensure (list_all (\<lambda>p. \<not> blank (dp_body p)) (design_parts d))
        ''Every part of design needs text; say so when a part does not apply'']"

definition validate_design :: "exploration \<Rightarrow> interview_update \<Rightarrow> checked" where
  "validate_design x u =
     (let kickoff = (case ex_outstanding x of None \<Rightarrow> False | Some r \<Rightarrow> is_kickoff r) in
      case iu_design u of
        None \<Rightarrow> ensure (\<not> kickoff \<or> iu_next u = None)
          ''The first question comes after the design of the change: fill design''
      | Some d \<Rightarrow> also_check
          (ensure kickoff
            ''Only the first turn explains the design; leave design null and correct it in reply'')
          (design_validate d))"

definition test_location_of :: "test_location \<Rightarrow> code_location" where
  "test_location_of t = \<lparr>lo_path = tl_path t, lo_side = NewSide, lo_lines = Some (tl_lines t)\<rparr>"

definition mark_validate :: "worktree \<Rightarrow> comparison \<Rightarrow> not_relevant_mark \<Rightarrow> checked" where
  "mark_validate W c m =
     (let l = location_display (nr_location m) in
      also_check
        (ensure (nr_reason m \<noteq> None)
          (''not_relevant '' @ l @ '' needs a reason: removed_code, tested_mechanics or follows_code''))
        (case nr_test m of
           None \<Rightarrow> ensure (nr_reason m \<noteq> Some TestedMechanics)
             (''not_relevant '' @ l @ '' is tested_mechanics and needs `test`, the path and '' @
              ''lines of a test that covers it'')
         | Some t \<Rightarrow> ensure (validate_location W c (test_location_of t))
             (''not_relevant '' @ l @ '': its test '' @ test_display t @ '' does not exist at the checkpoint'')))"

definition validate_marks :: "worktree \<Rightarrow> exploration \<Rightarrow> interview_update \<Rightarrow> comparison \<Rightarrow> checked" where
  "validate_marks W x u c = checks
     [ensure ((iu_reviewed u = [] \<and> iu_reopened u = []) \<or> submitted_answer x \<noteq> None)
        ''reviewed and reopened follow a human answer; this turn has none to mark lines from'',
      ensure (list_all (validate_mark W c) (iu_reviewed u @ iu_reopened u @ mark_locations (iu_not_relevant u)))
        (''reviewed, reopened and not_relevant need changed paths, on the side that has them, '' @
         ''with valid lines''),
      checks (map (mark_validate W c) (iu_not_relevant u))]"

definition proposal_validate :: "challenger_proposal \<Rightarrow> checked" where
  "proposal_validate p = checks
     [ensure (\<not> blank (cp_title p)) ''Every challenger proposal needs a title'',
      ensure (cp_result p \<noteq> Retired \<or> (case cp_reason p of None \<Rightarrow> False | Some r \<Rightarrow> \<not> blank r))
        (''challenger proposal \"'' @ trim (cp_title p) @ ''\" is retired and needs `reason`, the fact that '' @
         ''settles it and the lines that show it'')]"

definition validate_proposals :: "exploration \<Rightarrow> interview_update \<Rightarrow> checked" where
  "validate_proposals x u = also_check
     (ensure (ex_challenger x \<or> iu_proposals u = [])
       ''challenger_proposals belong to a round with a challenger; this round has none'')
     (checks (map proposal_validate (iu_proposals u)))"

section \<open>The glossary\<close>

definition TERM_SHORTEST :: nat where "TERM_SHORTEST = 2"
definition TERM_LENGTH :: nat where "TERM_LENGTH = 60"
definition DEFINITION_LENGTH :: nat where "DEFINITION_LENGTH = 300"
definition TERMS :: nat where "TERMS = 100"

definition same_term :: "unicode \<Rightarrow> bytes \<Rightarrow> bytes \<Rightarrow> bool" where
  "same_term U a b \<longleftrightarrow> map (uc_lower U) (split_whitespace a) = map (uc_lower U) (split_whitespace b)"

definition validate_term :: "unicode \<Rightarrow> bytes \<Rightarrow> bytes \<Rightarrow> checked" where
  "validate_term U term meaning = checks
     [ensure (trim term = term \<and> TERM_SHORTEST \<le> char_count term \<and> char_count term \<le> TERM_LENGTH \<and>
          \<not> list_ex control_char (chars_of term))
        (''Glossary term '' @ uc_debug U term @ '' must be a word or a short phrase on one line, without spaces '' @
         ''around it, of '' @ show_nat TERM_SHORTEST @ '' to '' @ show_nat TERM_LENGTH @ '' characters''),
      ensure (\<not> blank meaning \<and> char_count meaning \<le> DEFINITION_LENGTH)
        (''The definition of glossary term '' @ uc_debug U term @ '' must be one plain sentence of at most '' @
         show_nat DEFINITION_LENGTH @ '' characters'')]"

definition distinct_term :: "unicode \<Rightarrow> bytes list \<Rightarrow> bytes \<Rightarrow> checked" where
  "distinct_term U terms term =
     (case find (\<lambda>t. same_term U t term \<and> t \<noteq> term) terms of
        None \<Rightarrow> Inr ()
      | Some same \<Rightarrow> Inl (''Glossary term '' @ uc_debug U term @ '' differs from '' @ uc_debug U same @
          '' only by case or spaces: send one '' @ ''of them, as the page marks a term whatever its case and spaces''))"

definition validate_glossary :: "unicode \<Rightarrow> exploration \<Rightarrow> (bytes \<times> bytes) list \<Rightarrow> checked" where
  "validate_glossary U x g =
     (let terms = map fst (ex_glossary x) @ map fst g; n = length (remdups terms) in
      also_check
        (checks (map (\<lambda>(term, meaning). also_check (validate_term U term meaning) (distinct_term U terms term)) g))
        (ensure (n \<le> TERMS)
          (''The glossary would hold '' @ show_nat n @ '' terms, above '' @ show_nat TERMS @
           '': keep the terms a reviewer new '' @ ''to the code needs'')))"

section \<open>Topics\<close>

definition validate_topic :: "worktree \<Rightarrow> exploration \<Rightarrow> comparison \<Rightarrow> bytes set \<Rightarrow> topic \<Rightarrow> checked" where
  "validate_topic W x c seen t = checks
     [ensure (tp_id t \<noteq> []) ''A topic needs an ID'',
      ensure (tp_id t \<notin> seen) (''Topic '' @ tp_id t @ '' is sent twice: send it once''),
      ensure (\<not> blank (tp_title t)) (''Topic '' @ tp_id t @ '' needs a title''),
      ensure (list_all (validate_location W c) (tp_entries t))
        (''Topic '' @ tp_id t @ '' references an invalid code location''),
      ensure (case map_of (ex_topics x) (tp_id t) of
            None \<Rightarrow> True
          | Some previous \<Rightarrow> tp_status previous = TopicOpen \<or> same_but_status previous t)
        (''Topic '' @ tp_id t @ '' is settled and cannot be rewritten: leave it out of topics'')]"

fun validate_topics :: "worktree \<Rightarrow> exploration \<Rightarrow> comparison \<Rightarrow> bytes set \<Rightarrow> topic list \<Rightarrow> checked" where
  "validate_topics W x c seen [] = Inr ()"
| "validate_topics W x c seen (t # ts) =
     also_check (validate_topic W x c seen t) (validate_topics W x c (insert (tp_id t) seen) ts)"

section \<open>Prerequisites\<close>

text \<open>The walk along the prerequisites of the topic \<open>self\<close>: what is pending, latest first, and what was
  visited.\<close>

function prerequisite_walk :: "(bytes \<times> topic) list \<Rightarrow> bytes \<Rightarrow> bytes set \<Rightarrow> bytes list \<Rightarrow> checked" where
  "prerequisite_walk m self visited [] = Inr ()"
| "prerequisite_walk m self visited (i # todo) =
     (if i = self then Inl (''The prerequisites of topic '' @ self @ '' lead back to it'')
      else case map_of m i of
        None \<Rightarrow> Inl (''Topic '' @ self @ '' has an unknown prerequisite '' @ i)
      | Some p \<Rightarrow>
          if i \<in> visited then prerequisite_walk m self visited todo
          else prerequisite_walk m self (insert i visited) (rev (tp_prerequisites p) @ todo))"
  by pat_completeness auto
termination
proof (relation "measures [\<lambda>(m, _, visited, _). card (fst ` set m - visited), \<lambda>(_, _, _, todo). length todo]",
    goal_cases)
  case (3 m self visited i todo p)
  then have "i \<in> fst ` set m - visited"
    by (metis DiffI domI dom_map_of_conv_image_fst)
  then have "card (fst ` set m - insert i visited) < card (fst ` set m - visited)"
    by (intro psubset_card_mono) auto
  then show ?case by simp
qed auto

definition validate_prerequisites :: "(bytes \<times> topic) list \<Rightarrow> topic \<Rightarrow> checked" where
  "validate_prerequisites m t = prerequisite_walk m (tp_id t) {} (rev (tp_prerequisites t))"

declare prerequisite_walk.simps(2) [simp del]

lemma walk_step:
  "i \<noteq> self \<Longrightarrow> map_of m i = Some p \<Longrightarrow>
     prerequisite_walk m self visited (i # todo) =
       (if i \<in> visited then prerequisite_walk m self visited todo
        else prerequisite_walk m self (insert i visited) (rev (tp_prerequisites p) @ todo))"
  by (simp add: prerequisite_walk.simps(2))

lemma walk_passes_head:
  "passes (prerequisite_walk m self visited (i # todo)) \<Longrightarrow> i \<noteq> self \<and> map_of m i \<noteq> None"
  by (auto simp: prerequisite_walk.simps(2) split: if_splits option.splits)

text \<open>One topic leads to another when it has it as a prerequisite.\<close>

definition leads_to :: "(bytes \<times> topic) list \<Rightarrow> (bytes \<times> bytes) set" where
  "leads_to m = {(i, j). \<exists>p. map_of m i = Some p \<and> j \<in> set (tp_prerequisites p)}"

lemma walk_accepts:
  assumes "\<forall>j \<in> (leads_to m)\<^sup>* `` set todo. j \<noteq> self \<and> map_of m j \<noteq> None"
  shows "passes (prerequisite_walk m self visited todo)"
  using assms
proof (induction m self visited todo rule: prerequisite_walk.induct)
  case (2 m self visited i todo)
  have here: "i \<noteq> self" "map_of m i \<noteq> None" using "2.prems" by auto
  then obtain p where p: "map_of m i = Some p" by auto
  have sub: "(leads_to m)\<^sup>* `` set (rev (tp_prerequisites p) @ todo) \<subseteq> (leads_to m)\<^sup>* `` set (i # todo)"
    "(leads_to m)\<^sup>* `` set todo \<subseteq> (leads_to m)\<^sup>* `` set (i # todo)"
    using p by (auto simp: leads_to_def intro: converse_rtrancl_into_rtrancl)
  note walk_step [OF here(1) p, of visited todo]
  moreover have "passes (prerequisite_walk m self visited todo)" if "i \<in> visited"
    using "2.IH"(1) [OF here(1) p that] "2.prems" sub(2) by blast
  moreover have "passes (prerequisite_walk m self (insert i visited) (rev (tp_prerequisites p) @ todo))" if "i \<notin> visited"
    using "2.IH"(2) [OF here(1) p that] "2.prems" sub(1) by blast
  ultimately show ?case by simp
qed simp

lemma walk_closed:
  assumes "passes (prerequisite_walk m self visited todo)" "self \<notin> visited" "visited \<subseteq> dom (map_of m)"
    "leads_to m `` visited \<subseteq> visited \<union> set todo"
  shows "\<exists>V. visited \<union> set todo \<subseteq> V \<and> self \<notin> V \<and> V \<subseteq> dom (map_of m) \<and> leads_to m `` V \<subseteq> V"
  using assms
proof (induction m self visited todo rule: prerequisite_walk.induct)
  case (1 m self visited)
  then show ?case by auto
next
  case (2 m self visited i todo)
  from walk_passes_head [OF "2.prems"(1)] obtain p where here: "i \<noteq> self" and p: "map_of m i = Some p" by auto
  note step = "2.prems"(1) [unfolded walk_step [OF here p]]
  show ?case
  proof (cases "i \<in> visited")
    case True
    then have walk: "passes (prerequisite_walk m self visited todo)" using step by simp
    have "leads_to m `` visited \<subseteq> visited \<union> set todo" using "2.prems"(4) True by (simp add: insert_absorb)
    from "2.IH"(1) [OF here p True walk "2.prems"(2,3) this] True show ?thesis by (simp add: insert_absorb)
  next
    case False
    then have walk: "passes (prerequisite_walk m self (insert i visited) (rev (tp_prerequisites p) @ todo))"
      using step by simp
    have more: "self \<notin> insert i visited" "insert i visited \<subseteq> dom (map_of m)"
      using "2.prems"(2,3) here p by auto
    have "leads_to m `` insert i visited \<subseteq> insert i visited \<union> set (rev (tp_prerequisites p) @ todo)"
      using "2.prems"(4) p by (auto simp: leads_to_def)
    from "2.IH"(2) [OF here p False walk more this] obtain V where
      V: "insert i visited \<union> set (rev (tp_prerequisites p) @ todo) \<subseteq> V"
      and closed: "self \<notin> V \<and> V \<subseteq> dom (map_of m) \<and> leads_to m `` V \<subseteq> V" by blast
    from V have "visited \<union> set (i # todo) \<subseteq> V" by simp
    with closed show ?thesis by blast
  qed
qed

lemma validate_prerequisites_iff:
  "passes (validate_prerequisites m t) \<longleftrightarrow>
     (\<forall>j \<in> (leads_to m)\<^sup>* `` set (tp_prerequisites t). j \<noteq> tp_id t \<and> j \<in> dom (map_of m))"
proof
  assume "passes (validate_prerequisites m t)"
  from walk_closed [OF this [unfolded validate_prerequisites_def]]
  obtain V where V: "set (tp_prerequisites t) \<subseteq> V" "tp_id t \<notin> V" "V \<subseteq> dom (map_of m)" "leads_to m `` V \<subseteq> V"
    by auto
  have "(leads_to m)\<^sup>* `` set (tp_prerequisites t) \<subseteq> V"
    using Image_closed_trancl [OF V(4)] V(1) by blast
  with V show "\<forall>j \<in> (leads_to m)\<^sup>* `` set (tp_prerequisites t). j \<noteq> tp_id t \<and> j \<in> dom (map_of m)"
    by blast
next
  assume "\<forall>j \<in> (leads_to m)\<^sup>* `` set (tp_prerequisites t). j \<noteq> tp_id t \<and> j \<in> dom (map_of m)"
  then show "passes (validate_prerequisites m t)"
    unfolding validate_prerequisites_def by (intro walk_accepts) auto
qed

section \<open>Agenda changes\<close>

definition knows_answer :: "exploration \<Rightarrow> bytes \<Rightarrow> bool" where
  "knows_answer x i \<longleftrightarrow> list_ex (\<lambda>a. ra_id a = i) (ex_answers x)"

definition validate_reason :: "worktree \<Rightarrow> exploration \<Rightarrow> comparison \<Rightarrow> agenda_change \<Rightarrow> checked" where
  "validate_reason W x c g = checks
     [ensure (\<not> blank (gc_reason g) \<and> (gc_answer g \<noteq> None \<or> gc_evidence g \<noteq> []))
        ''Agenda changes need an attributed reason'',
      ensure ((case gc_answer g of None \<Rightarrow> True | Some i \<Rightarrow> knows_answer x i) \<and>
          list_all (validate_evidence W c) (gc_evidence g))
        ''Unknown agenda reason reference'']"

definition validate_decision :: "exploration \<Rightarrow> agenda_change \<Rightarrow> checked" where
  "validate_decision x g = also_check
     (case gc_decision g of
        None \<Rightarrow> Inr ()
      | Some d \<Rightarrow> ensure (gc_action g = Reconsider \<and> list_ex (\<lambda>ip. ip_answer ip = d) (ex_interpretations x) \<and>
            list_ex (\<lambda>a. ra_id a = d \<and> answered_on a (gc_topic g)) (ex_answers x))
          ''Reconsideration must reference a decision on this topic'')
     (if gc_action g = Reconsider \<and>
         list_ex (\<lambda>ip. list_ex (\<lambda>a. ra_id a = ip_answer ip \<and> answered_on a (gc_topic g)) (ex_answers x))
           (ex_interpretations x)
      then ensure (gc_decision g \<noteq> None) ''Preserve the decision being reconsidered''
      else Inr ())"

definition validate_replacement ::
  "exploration \<Rightarrow> interview_update \<Rightarrow> (bytes \<times> topic) list \<Rightarrow> agenda_change \<Rightarrow> checked" where
  "validate_replacement x u m g =
     (if gc_action g = Supersede then
        (case gc_replacement g of
           None \<Rightarrow> Inl ''Supersede needs a replacement''
         | Some r \<Rightarrow> checks
             [ensure (r \<noteq> gc_topic g \<and> map_of m r \<noteq> None) ''Invalid replacement topic'',
              ensure (\<not> inactive (case change_in r (iu_agenda u) of Some c \<Rightarrow> Some c | None \<Rightarrow> agenda_of x r))
                ''Replacement topic must remain active''])
      else ensure (gc_replacement g = None) ''Only supersede has a replacement'')"

definition validate_change ::
  "worktree \<Rightarrow> exploration \<Rightarrow> interview_update \<Rightarrow> comparison \<Rightarrow> (bytes \<times> topic) list \<Rightarrow> bytes set \<Rightarrow>
   agenda_change \<Rightarrow> checked" where
  "validate_change W x u c m seen g = checks
     [ensure (map_of m (gc_topic g) \<noteq> None) (''Agenda change on unknown topic '' @ gc_topic g),
      ensure (gc_topic g \<notin> seen) (''Topic '' @ gc_topic g @ '' has two agenda changes: send one''),
      validate_reason W x c g,
      validate_replacement x u m g,
      validate_decision x g]"

fun validate_changes ::
  "worktree \<Rightarrow> exploration \<Rightarrow> interview_update \<Rightarrow> comparison \<Rightarrow> (bytes \<times> topic) list \<Rightarrow> bytes set \<Rightarrow>
   agenda_change list \<Rightarrow> checked" where
  "validate_changes W x u c m seen [] = Inr ()"
| "validate_changes W x u c m seen (g # gs) =
     also_check (validate_change W x u c m seen g) (validate_changes W x u c m (insert (gc_topic g) seen) gs)"

definition validate_retired :: "exploration \<Rightarrow> topic \<Rightarrow> checked" where
  "validate_retired x t =
     (if inactive (agenda_of x (tp_id t)) then
        ensure (case map_of (ex_topics x) (tp_id t) of None \<Rightarrow> False | Some previous \<Rightarrow> same_but_status previous t)
          (''Topic '' @ tp_id t @ '' is retired or superseded: leave it out of topics'')
      else Inr ())"

definition merged_topics :: "exploration \<Rightarrow> interview_update \<Rightarrow> (bytes \<times> topic) list" where
  "merged_topics x u = bt_extend (map (\<lambda>t. (tp_id t, t)) (iu_topics u)) (ex_topics x)"

definition validate_agenda :: "worktree \<Rightarrow> exploration \<Rightarrow> interview_update \<Rightarrow> comparison \<Rightarrow> checked" where
  "validate_agenda W x u c =
     (let m = merged_topics x u in checks
       [checks (map (validate_retired x) (iu_topics u)),
        checks (map (\<lambda>(i, t). validate_prerequisites m t) m),
        validate_changes W x u c m {} (iu_agenda u)])"

section \<open>Questions\<close>

definition consequence_ok :: "worktree \<Rightarrow> comparison \<Rightarrow> consequence \<Rightarrow> bool" where
  "consequence_ok W c q \<longleftrightarrow>
     \<not> blank (cq_summary q) \<and> (cq_evidence q \<noteq> [] \<or> cq_unknowns q \<noteq> []) \<and>
     list_all (\<lambda>t. \<not> blank t) (cq_unknowns q) \<and> list_all (validate_evidence W c) (cq_evidence q)"

definition assessments_validate :: "worktree \<Rightarrow> comparison \<Rightarrow> assessments \<Rightarrow> checked" where
  "assessments_validate W c a = checks
     [checks (map (\<lambda>q. ensure (consequence_ok W c q)
        ''Assessments need a reason and valid evidence, or explicit unknowns'')
        [am_reversibility a, am_blast_radius a]),
      ensure (\<not> (am_door a = OneWay \<or> am_door a = TwoWay) \<or> cq_evidence (am_reversibility a) \<noteq> [])
        ''A known door assessment needs evidence; otherwise use unknown'',
      ensure (am_door a \<noteq> UnknownDoor \<or> cq_unknowns (am_reversibility a) \<noteq> [])
        ''An unknown door must name the missing evidence'']"

definition validate_ask_author :: "exploration \<Rightarrow> question \<Rightarrow> checked" where
  "validate_ask_author x q = ensure
     (ex_author x = ByReviewer \<or>
      list_ex (\<lambda>c. ch_id c = ASK_AUTHOR \<and> ch_outcome c = TopicOpen) (qu_alternatives q))
     (''In a review of someone else's change, every question offers the choice \"'' @ ASK_AUTHOR @ ''\", '' @
      ''with outcome open: \"Ask the author: \" and the question to ask them'')"

definition question_topic_status :: "exploration \<Rightarrow> bytes \<Rightarrow> interview_update \<Rightarrow> topic_status option" where
  "question_topic_status x i u =
     (case (submitted_answer x, iu_interpretation u) of
        (Some a, Some ip) \<Rightarrow>
          if answered_on a i then Some (ip_status ip)
          else (case topic_status_of x i of
                  Some s \<Rightarrow> Some s
                | None \<Rightarrow> if list_ex (\<lambda>t. tp_id t = i) (iu_topics u) then Some TopicOpen else None)
      | _ \<Rightarrow> (case topic_status_of x i of
                Some s \<Rightarrow> Some s
              | None \<Rightarrow> if list_ex (\<lambda>t. tp_id t = i) (iu_topics u) then Some TopicOpen else None))"

definition snippet :: "evidence_ref \<Rightarrow> repo_path \<times> source_side \<times> (nat \<times> nat) option" where
  "snippet e =
     (let l = ev_location e in
      (lo_path l, lo_side l, map_option (\<lambda>r. (sl_first r, sl_last r)) (lo_lines l)))"

definition recommended_check :: "unicode \<Rightarrow> question \<Rightarrow> checked" where
  "recommended_check U q =
     (case List.map_filter (\<lambda>c. map_option (\<lambda>m. (c, m)) (recommended_mark U c)) (qu_alternatives q) of
        [] \<Rightarrow> Inr ()
      | (c, m) # _ \<Rightarrow> Inl (''Choice \"'' @ ch_id c @ ''\" says in its text that it is recommended: remove \"'' @ m @
          ''\" from its text. A choice's text never says that it is recommended, preferred or the '' @
          ''default; the recommendation goes only in its recommendation field''))"

definition validate_question :: "unicode \<Rightarrow> worktree \<Rightarrow> exploration \<Rightarrow> question \<Rightarrow> interview_update \<Rightarrow> comparison \<Rightarrow> checked"
where
  "validate_question U W x q u c =
     (let agenda = (case change_in (qu_topic q) (iu_agenda u) of
            Some g \<Rightarrow> Some g | None \<Rightarrow> agenda_of x (qu_topic q)) in
      checks
       [ensure (qu_id q \<noteq> [] \<and> 0 < qu_version q \<and> \<not> blank (qu_text q)) ''Question identity and text are required'',
        ensure (map_of (ex_topics x) (qu_topic q) \<noteq> None \<or> list_ex (\<lambda>t. tp_id t = qu_topic q) (iu_topics u))
          ''Question has an unknown topic'',
        ensure (\<not> list_ex (\<lambda>old. qu_id old = qu_id q \<and>
            (qu_version q \<le> qu_version old \<or> qu_topic old \<noteq> qu_topic q)) (ex_questions x))
          ''A displayed question version is immutable'',
        ensure (qu_evidence q \<noteq> [] \<and>
            list_all (\<lambda>e. validate_evidence W c e \<and> \<not> blank (ev_notes e)) (qu_evidence q))
          ''Question evidence needs valid sources/ranges and nonempty notes'',
        ensure (all_new {} (map snippet (qu_evidence q)))
          (''Combine duplicate snippets; each displayed excerpt must add distinct decision-relevant information''),
        ensure (2 \<le> length (qu_alternatives q) \<and> length (qu_alternatives q) \<le> 5 \<and>
            list_all (\<lambda>a. ch_id a \<noteq> [] \<and> \<not> blank (ch_text a)) (choices q) \<and>
            all_new {} (map ch_id (choices q)) \<and> all_new {} (map (\<lambda>a. uc_lower U (trim (ch_text a))) (choices q)))
          (''Every question needs two to five distinct choices with unique IDs and text; '' @
           ''None of the above is provided by the reviewer''),
        recommended_check U q,
        validate_ask_author x q,
        (case qu_assessments q of None \<Rightarrow> Inr () | Some a \<Rightarrow> assessments_validate W c a),
        ensure (\<not> inactive agenda) ''Next question belongs to an inactive agenda topic'',
        ensure (\<not> (case (iu_interpretation u, submitted_answer x) of
            (Some ip, Some a) \<Rightarrow> ip_status ip \<noteq> TopicOpen \<and> answered_on a (qu_topic q) | _ \<Rightarrow> False))
          ''Do not ask again on a topic just decided'',
        ensure (question_topic_status x (qu_topic q) u = Some TopicOpen \<or> map_option gc_action agenda = Some Reconsider)
          ''Agent cannot reopen a settled topic without reconsidering it''])"

section \<open>The turn\<close>

definition validate :: "unicode \<Rightarrow> worktree \<Rightarrow> exploration \<Rightarrow> interview_update \<Rightarrow> comparison \<Rightarrow> checked" where
  "validate U W x u c = checks
     [ensure (iu_checkpoint u = ex_checkpoint x) ''Response checkpoint does not match'',
      ensure ((iu_next u \<noteq> None) \<noteq> (iu_conclusion u \<noteq> None)) ''Return one question or an explicit closing state'',
      validate_drawing_board x u,
      validate_interpretation x u,
      (case iu_conclusion u of
         None \<Rightarrow> Inr ()
       | Some k \<Rightarrow> also_check (ensure (\<not> blank (co_summary k)) ''Conclusion summary is required'') (validate_quiz U W c k)),
      validate_design x u,
      ensure (submitted_answer x \<noteq> None \<longrightarrow> iu_reply u \<noteq> None \<or> iu_conclusion u \<noteq> None)
        ''Respond directly to the reviewer contribution'',
      (case iu_reply u of
         None \<Rightarrow> Inr ()
       | Some r \<Rightarrow> ensure (\<not> blank (ry_text r) \<and> list_all (validate_evidence W c) (ry_evidence r))
           ''Direct reply needs text and valid evidence''),
      validate_topics W x c {} (iu_topics u),
      validate_glossary U x (iu_glossary u),
      validate_agenda W x u c,
      validate_marks W x u c,
      validate_proposals x u,
      (case iu_next u of None \<Rightarrow> Inr () | Some q \<Rightarrow> validate_question U W x q u c)]"

end
