(* ===== verification/ExploreRounds.thy ===== *)
theory ExploreRounds
  imports ExploreChecks
begin

text \<open>
  The interview (crates/review-explore/src: interview.rs, revision.rs, cancel.rs, quiz.rs, diagram.rs, conclusion.rs,
  recovery.rs): posting the reviewer's answers, taking the turns of the agent, revising the open question, taking
  an answer back by replaying the turns that remain, and checking what was saved.

  An operation that can fail returns its error, or its result, and the interview it leaves. The fresh identities it
  makes (\<open>uuid::Uuid::new_v4\<close>) are arguments.
\<close>

type_synonym 'a interview_op = "(exploration, bytes, 'a) fallible"

section \<open>Posting an answer\<close>

definition context_turn :: "exploration \<Rightarrow> answer_input \<Rightarrow> question option \<Rightarrow> conversation_turn option" where
  "context_turn x input question =
     find (\<lambda>t. case question of
         Some q \<Rightarrow> iu_next (ct_update t) = Some q
       | None \<Rightarrow> iu_conclusion (ct_update t) \<noteq> None \<and>
           (case ai_in_reply_to input of None \<Rightarrow> True | Some i \<Rightarrow> i = iu_request (ct_update t)))
       (rev (ex_conversation x))"

definition replies_at_drawing_board :: "exploration \<Rightarrow> conversation_turn \<Rightarrow> question option \<Rightarrow> bool" where
  "replies_at_drawing_board x t question \<longleftrightarrow>
     question = None \<and>
     (case ct_answer t of
        None \<Rightarrow> False
      | Some i \<Rightarrow> list_ex (\<lambda>a. ra_id a = i \<and> ra_drawing_board a) (ex_answers x))"

definition picked_option :: "answer_input \<Rightarrow> question option \<Rightarrow> bytes + alternative option" where
  "picked_option input question =
     (case ai_option input of
        None \<Rightarrow> Inr None
      | Some i \<Rightarrow>
         (case question of
            None \<Rightarrow> Inl ''No question is selected''
          | Some q \<Rightarrow> (case choice q i of None \<Rightarrow> Inl ''Unknown option'' | Some c \<Rightarrow> Inr (Some c))))"

definition record_answer :: "bytes \<Rightarrow> answer_input \<Rightarrow> question option \<Rightarrow> reviewer_answer interview_op" where
  "record_answer answer_id input question x =
     (case context_turn x input question of
        None \<Rightarrow> (Inl ''Unknown question or conversation context'', x)
      | Some t \<Rightarrow>
         (case also_check
             (ensure (question \<noteq> None \<or> ai_option input = None) ''A conversation reply has no policy choices'')
             (if ai_drawing_board input
              then ensure (question \<noteq> None \<and> ai_option input = None)
                (''Back to the drawing board takes the place of an answer to the question, with '' @ ''no choice'')
              else ensure (ai_option input \<noteq> None \<or> \<not> blank (ai_text input)) ''Write an answer or choose an option'') of
            Inl e \<Rightarrow> (Inl e, x)
          | Inr _ \<Rightarrow>
             (case picked_option input question of
                Inl e \<Rightarrow> (Inl e, x)
              | Inr picked \<Rightarrow>
                 (case also_check
                     (ensure (ai_option input = None \<or> (case question of None \<Rightarrow> False | Some q \<Rightarrow> can_choose x q))
                       ''This choice is no longer pending; reply in free text'')
                     (ensure (case ai_first_pick input of None \<Rightarrow> True
                        | Some i \<Rightarrow> (case question of None \<Rightarrow> False | Some q \<Rightarrow> choice q i \<noteq> None))
                       ''The first pick is not a choice of this question'') of
                    Inl e \<Rightarrow> (Inl e, x)
                  | Inr _ \<Rightarrow>
                     (let a = \<lparr>ra_id = answer_id, ra_checkpoint = ex_checkpoint x, ra_question = question,
                               ra_in_reply_to = iu_request (ct_update t), ra_option = picked, ra_text = ai_text input,
                               ra_author = ''reviewer'', ra_first_pick = ai_first_pick input,
                               ra_drawing_board = (ai_drawing_board input \<or> replies_at_drawing_board x t question)\<rparr>
                      in (Inr a, x\<lparr>ex_answers := ex_answers x @ [a]\<rparr>))))))"

definition new_request :: "bytes \<Rightarrow> reviewer_answer option \<Rightarrow> bytes list \<Rightarrow> exploration \<Rightarrow> turn_request" where
  "new_request request_id answer cancelled x =
     \<lparr>tr_instance = ex_instance x, tr_request = request_id, tr_checkpoint = ex_checkpoint x, tr_answer = answer,
      tr_cancelled = cancelled, tr_response_error = None, tr_challenger = ex_challenger x, tr_author = ex_author x,
      tr_reviewer = ex_reviewer x, tr_writing = ex_writing x\<rparr>"

definition request_cancelled :: "exploration \<Rightarrow> bytes list" where
  "request_cancelled x = (case ex_retry x of None \<Rightarrow> [] | Some r \<Rightarrow> tr_cancelled r) @ ex_cancelled x"

definition send_request :: "bytes \<Rightarrow> reviewer_answer option \<Rightarrow> turn_request interview_op" where
  "send_request request_id answer x =
     (let r = new_request request_id answer (request_cancelled x) x
      in (Inr r, x\<lparr>ex_cancelled := [], ex_outstanding := Some r, ex_retry := Some r\<rparr>))"

definition make_request :: "bytes \<Rightarrow> bytes \<Rightarrow> answer_input option \<Rightarrow> question option \<Rightarrow> turn_request interview_op" where
  "make_request answer_id request_id input question x =
     (if turn_pending x then (Inl ''An interview request is already pending'', x)
      else case input of
        None \<Rightarrow> send_request request_id None x
      | Some i \<Rightarrow> and_then (record_answer answer_id i question) (\<lambda>a. send_request request_id (Some a)) x)"

definition cancel :: "exploration \<Rightarrow> exploration" where
  "cancel x = x\<lparr>ex_outstanding := None\<rparr>"

definition pause_delivery :: "exploration \<Rightarrow> exploration" where
  "pause_delivery x = x\<lparr>ex_outstanding := None\<rparr>"

definition failed :: "bytes \<Rightarrow> bytes \<Rightarrow> exploration \<Rightarrow> bool \<times> exploration" where
  "failed request_id err x =
     (if (case ex_outstanding x of None \<Rightarrow> True | Some r \<Rightarrow> tr_request r \<noteq> request_id) then (False, x)
      else (True, x\<lparr>ex_outstanding := None,
                   ex_retry := map_option (\<lambda>r. r\<lparr>tr_response_error := Some err\<rparr>) (ex_retry x)\<rparr>))"

definition retry_turn :: "turn_request interview_op" where
  "retry_turn x =
     (if turn_pending x then (Inl ''An interview request is already pending'', x)
      else case ex_retry x of
        None \<Rightarrow> (Inl ''No request to retry'', x)
      | Some r \<Rightarrow> (Inr r, x\<lparr>ex_retry := Some r, ex_outstanding := Some r\<rparr>))"

section \<open>Taking a turn\<close>

definition absorb_topic :: "(bytes \<times> topic) list \<Rightarrow> topic \<Rightarrow> (bytes \<times> topic) list" where
  "absorb_topic m t =
     bt_insert (tp_id t)
       (t\<lparr>tp_status := (case map_of m (tp_id t) of None \<Rightarrow> TopicOpen | Some previous \<Rightarrow> tp_status previous)\<rparr>) m"

definition absorb_topics :: "topic list \<Rightarrow> exploration \<Rightarrow> exploration" where
  "absorb_topics ts x = x\<lparr>ex_topics := foldl absorb_topic (ex_topics x) ts\<rparr>"

definition set_status :: "bytes \<Rightarrow> topic_status \<Rightarrow> (bytes \<times> topic) list \<Rightarrow> (bytes \<times> topic) list" where
  "set_status i s m = (case map_of m i of None \<Rightarrow> m | Some t \<Rightarrow> bt_insert i (t\<lparr>tp_status := s\<rparr>) m)"

definition absorb_decision ::
  "answer_interpretation option \<Rightarrow> reviewer_answer option \<Rightarrow> exploration \<Rightarrow> exploration" where
  "absorb_decision ip a x =
     (case (ip, a) of
        (Some ip, Some a) \<Rightarrow>
          x\<lparr>ex_topics := (case ra_question a of None \<Rightarrow> ex_topics x
              | Some q \<Rightarrow> set_status (qu_topic q) (ip_status ip) (ex_topics x)),
            ex_interpretations := ex_interpretations x @ [ip]\<rparr>
      | _ \<Rightarrow> x)"

fun add_findings :: "bytes list \<Rightarrow> bytes list \<Rightarrow> bytes list" where
  "add_findings known [] = known"
| "add_findings known (f # fs) = add_findings (if f \<in> set known then known else known @ [f]) fs"

definition record_report :: "bytes list \<Rightarrow> bytes list \<Rightarrow> bool \<Rightarrow> exploration \<Rightarrow> exploration" where
  "record_report limitations findings concluded x =
     x\<lparr>ex_limitations := (if \<not> concluded \<or> limitations \<noteq> [] then limitations else ex_limitations x),
       ex_findings := add_findings (ex_findings x) findings\<rparr>"

definition absorb :: "interview_update \<Rightarrow> reviewer_answer option \<Rightarrow> exploration \<Rightarrow> exploration" where
  "absorb u a x =
     (let x = x\<lparr>ex_glossary := bt_extend (iu_glossary u) (ex_glossary x)\<rparr>;
          x = absorb_topics (iu_topics u) x;
          x = absorb_decision (iu_interpretation u) a x;
          x = (case iu_next u of None \<Rightarrow> x | Some q \<Rightarrow> x\<lparr>ex_questions := ex_questions x @ [q]\<rparr>);
          x = record_report (iu_limitations u) (iu_findings u) (iu_conclusion u \<noteq> None) x
      in x\<lparr>ex_conclusion := iu_conclusion u\<rparr>)"

definition push_turn :: "bytes option \<Rightarrow> interview_update \<Rightarrow> revision option \<Rightarrow> exploration \<Rightarrow> exploration" where
  "push_turn a u r x = x\<lparr>ex_conversation := ex_conversation x @ [\<lparr>ct_answer = a, ct_update = u, ct_revision = r\<rparr>]\<rparr>"

definition apply_turn :: "unicode \<Rightarrow> worktree \<Rightarrow> interview_update \<Rightarrow> bool interview_op" where
  "apply_turn U W u x =
     (case ex_outstanding x of
        None \<Rightarrow> (Inr False, x)
      | Some r \<Rightarrow>
         if tr_instance r \<noteq> iu_instance u \<or> tr_request r \<noteq> iu_request u then (Inr False, x)
         else (case validate U W x u (ex_comparison x) of
             Inl e \<Rightarrow> (Inl e, x)
           | Inr _ \<Rightarrow>
               (Inr True,
                (absorb u (tr_answer r) (push_turn (map_option ra_id (tr_answer r)) u None x))
                  \<lparr>ex_outstanding := None, ex_retry := None\<rparr>)))"

definition turn_of :: "exploration \<Rightarrow> bytes \<Rightarrow> conversation_turn option" where
  "turn_of x i = find (\<lambda>t. iu_request (ct_update t) = i) (ex_conversation x)"

definition submit :: "unicode \<Rightarrow> worktree \<Rightarrow> interview_update \<Rightarrow> bool interview_op" where
  "submit U W u x =
     (if iu_instance u \<noteq> ex_instance x then (Inl ''This Explore round is no longer active'', x)
      else case turn_of x (iu_request u) of
        Some previous \<Rightarrow>
          if ct_update previous \<noteq> u
          then (Inl ''An accepted turn cannot be replaced; retry the identical payload'', x)
          else (Inr False, x)
      | None \<Rightarrow>
          if (case ex_outstanding x of None \<Rightarrow> False | Some r \<Rightarrow> tr_request r = iu_request u) then apply_turn U W u x
          else (Inl ''This Explore request is cancelled or obsolete'', x))"

section \<open>Revising the open question\<close>

definition revised_update :: "bytes \<Rightarrow> question \<Rightarrow> (bytes \<times> bytes) list \<Rightarrow> interview_update \<Rightarrow> interview_update" where
  "revised_update request_id q g previous = previous
     \<lparr>iu_request := request_id, iu_interpretation := None, iu_proposals := [], iu_design := None, iu_agenda := [],
      iu_topics := [], iu_next := Some q, iu_glossary := g\<rparr>"

definition revise_open ::
  "unicode \<Rightarrow> worktree \<Rightarrow> bytes \<Rightarrow> question_revision \<Rightarrow> conversation_turn \<Rightarrow> question \<Rightarrow> bool interview_op" where
  "revise_open U W request_id v previous open_question x =
     (let q = qr_question v;
          u = revised_update request_id q (qr_glossary v) (ct_update previous)
      in (case checks
          [ensure (qu_id q = qu_id open_question \<and> qu_version open_question < qu_version q)
             (''Revise the open question '' @ qu_id open_question @ '': keep its ID and give a version above '' @
              show_nat (qu_version open_question)),
           ensure (\<not> blank (rn_reason (qr_revision v))) ''Say in reason what changed in the question and why'',
           validate U W x (u\<lparr>iu_reviewed := [], iu_reopened := []\<rparr>) (ex_comparison x)] of
            Inl e \<Rightarrow> (Inl e, x)
          | Inr _ \<Rightarrow> (Inr True, absorb u None (push_turn (ct_answer previous) u (Some (qr_revision v)) x))))"

definition revise :: "unicode \<Rightarrow> worktree \<Rightarrow> bytes \<Rightarrow> question_revision \<Rightarrow> bool interview_op" where
  "revise U W request_id v x =
     (case checks
         [ensure (qr_instance v = ex_instance x) ''This Explore round is no longer active'',
          ensure (qr_checkpoint v = ex_checkpoint x) ''Revision checkpoint does not match''] of
        Inl e \<Rightarrow> (Inl e, x)
      | Inr _ \<Rightarrow>
         (case find (\<lambda>t. iu_next (ct_update t) = Some (qr_question v)) (ex_conversation x) of
            Some previous \<Rightarrow>
              if ct_revision previous = Some (qr_revision v) \<and> iu_glossary (ct_update previous) = qr_glossary v
              then (Inr False, x)
              else (Inl ''An accepted revision cannot be replaced; retry the identical payload'', x)
          | None \<Rightarrow>
              if ex_outstanding x \<noteq> None \<or> ex_retry x \<noteq> None
              then (Inl ''The reviewer's answer is on its way: ask the new version in your next Explore turn'', x)
              else if ex_conversation x = [] then (Inl ''The round has no open question to revise'', x)
              else (case iu_next (ct_update (last (ex_conversation x))) of
                  None \<Rightarrow> (Inl ''The round has no open question to revise'', x)
                | Some open_question \<Rightarrow> revise_open U W request_id v (last (ex_conversation x)) open_question x)))"

section \<open>The quiz and the diagrams of a turn\<close>

definition posted :: "exploration \<Rightarrow> diagram_error \<Rightarrow> bool" where
  "posted x e \<longleftrightarrow> list_ex (\<lambda>q. is_version q (dg_question e) (dg_version e)) (ex_questions x)"

definition same_diagram :: "diagram_error \<Rightarrow> diagram_error \<Rightarrow> bool" where
  "same_diagram e f \<longleftrightarrow>
     dg_question e = dg_question f \<and> dg_version e = dg_version f \<and> dg_source e = dg_source f"

fun keep_diagram_error :: "diagram_error \<Rightarrow> diagram_error list \<Rightarrow> bool \<times> diagram_error list" where
  "keep_diagram_error e [] = (True, [e])"
| "keep_diagram_error e (k # ks) =
     (if same_diagram k e then (if k = e then (False, k # ks) else (True, e # ks))
      else (case keep_diagram_error e ks of (new, ks) \<Rightarrow> (new, k # ks)))"

definition record_diagram_error :: "diagram_error \<Rightarrow> bool interview_op" where
  "record_diagram_error e x =
     (if \<not> posted x e then
        (Inl (''the round never posted version '' @ show_nat (dg_version e) @ '' of question '' @ dg_question e), x)
      else case keep_diagram_error e (ex_diagram_errors x) of
        (new, es) \<Rightarrow> (Inr new, x\<lparr>ex_diagram_errors := es\<rparr>))"

definition forget_diagram_errors :: "exploration \<Rightarrow> exploration" where
  "forget_diagram_errors x = x\<lparr>ex_diagram_errors := filter (posted x) (ex_diagram_errors x)\<rparr>"

definition pick_of :: "quiz_answers \<Rightarrow> nat \<Rightarrow> quiz_pick option" where
  "pick_of a item = find (\<lambda>p. qp_item p = item) (qa_picks a)"

text \<open>The numbers of a refusal are those of a form post, counted from one without overflow.\<close>

definition record_pick :: "quiz_item list \<Rightarrow> nat \<Rightarrow> nat \<Rightarrow> (quiz_answers, bytes, bool) fallible" where
  "record_pick quiz item answer a =
     (let number = (\<lambda>n. show_nat (min (n + 1) u64_max)) in
      case pick_of a item of
        Some earlier \<Rightarrow>
          if qp_answer earlier = answer then (Inr False, a)
          else (Inl (''quiz item '' @ number item @ '' has another answer already''), a)
      | None \<Rightarrow>
          if qa_skipped a then (Inl ''the reviewer skipped the quiz'', a)
          else if item \<noteq> length (qa_picks a) then (Inl (''quiz item '' @ number item @ '' is not the next to answer''), a)
          else if length quiz \<le> item then (Inl (''the quiz has no item '' @ number item), a)
          else if length (qi_answers (quiz ! item)) \<le> answer
            then (Inl (''quiz item '' @ number item @ '' has no option '' @ number answer), a)
          else (Inr True, a\<lparr>qa_picks := qa_picks a @
            [\<lparr>qp_item = item, qp_answer = answer, qp_correct = (answer = qi_correct (quiz ! item))\<rparr>]\<rparr>))"

definition record_quiz :: "quiz_item list \<Rightarrow> quiz_response \<Rightarrow> (quiz_answers, bytes, bool) fallible" where
  "record_quiz quiz r a =
     (case r of
        SkipQuiz \<Rightarrow>
          (let skips = \<not> qa_skipped a \<and> length (qa_picks a) < length quiz
           in (Inr skips, a\<lparr>qa_skipped := qa_skipped a \<or> skips\<rparr>))
      | PickAnswer item answer \<Rightarrow> record_pick quiz item answer a)"

definition next_item :: "quiz_answers \<Rightarrow> nat \<Rightarrow> nat option" where
  "next_item a items = (if \<not> qa_skipped a \<and> length (qa_picks a) < items then Some (length (qa_picks a)) else None)"

definition correct_picks :: "quiz_answers \<Rightarrow> nat" where
  "correct_picks a = length (filter qp_correct (qa_picks a))"

definition conclusion_request :: "exploration \<Rightarrow> bytes option" where
  "conclusion_request x =
     (if ex_conclusion x = None \<or> ex_conversation x = [] then None
      else let u = ct_update (last (ex_conversation x)) in
        if iu_conclusion u \<noteq> None then Some (iu_request u) else None)"

definition answer_quiz :: "bytes \<Rightarrow> quiz_response \<Rightarrow> bool interview_op" where
  "answer_quiz conclusion_id r x =
     (if conclusion_request x \<noteq> Some conclusion_id
        then (Inl ''the quiz belongs to a conclusion that is no longer current'', x)
      else let quiz = (case ex_conclusion x of None \<Rightarrow> [] | Some k \<Rightarrow> co_quiz k) in
        if quiz = [] then (Inl ''the conclusion has no quiz'', x)
        else (let kept = (case map_of (ex_quiz_answers x) conclusion_id of None \<Rightarrow> no_quiz_answers | Some a \<Rightarrow> a)
              in (case record_quiz quiz r kept of
                  (result, a) \<Rightarrow> (result, x\<lparr>ex_quiz_answers := bt_insert conclusion_id a (ex_quiz_answers x)\<rparr>))))"

definition quiz_answers_of :: "exploration \<Rightarrow> bytes \<Rightarrow> quiz_answers option" where
  "quiz_answers_of x i = map_of (ex_quiz_answers x) i"

definition concludes :: "exploration \<Rightarrow> bytes \<Rightarrow> bool" where
  "concludes x i \<longleftrightarrow>
     list_ex (\<lambda>t. iu_request (ct_update t) = i \<and> iu_conclusion (ct_update t) \<noteq> None) (ex_conversation x)"

definition forget_quiz_answers :: "exploration \<Rightarrow> exploration" where
  "forget_quiz_answers x = x\<lparr>ex_quiz_answers := filter (\<lambda>e. concludes x (fst e)) (ex_quiz_answers x)\<rparr>"

definition implementation :: "bytes \<Rightarrow> bytes \<Rightarrow> exploration \<Rightarrow> bytes + implementation_request" where
  "implementation delivery_id t x =
     (case checks
         [ensure (ex_outstanding x = None) ''Wait for the pending interview turn'',
          ensure (ex_conclusion x \<noteq> None) ''No current conclusion to implement'',
          ensure (\<not> blank t) ''Add implementation tasks first''] of
        Inl e \<Rightarrow> Inl e
      | Inr _ \<Rightarrow>
         (case conclusion_request x of
            None \<Rightarrow> Inl ''No accepted conclusion to implement''
          | Some c \<Rightarrow> Inr \<lparr>ir_instance = ex_instance x, ir_conclusion = c, ir_delivery = delivery_id, ir_text = t\<rparr>))"

section \<open>Taking an answer back\<close>

definition answer_named :: "exploration \<Rightarrow> bytes option \<Rightarrow> reviewer_answer option" where
  "answer_named x i = (case i of None \<Rightarrow> None | Some i \<Rightarrow> find (\<lambda>a. ra_id a = i) (ex_answers x))"

definition absorb_turn :: "exploration \<Rightarrow> conversation_turn \<Rightarrow> exploration" where
  "absorb_turn x t = absorb (ct_update t) (answer_named x (ct_answer t)) x"

definition blank_interview :: "exploration \<Rightarrow> exploration" where
  "blank_interview x = x\<lparr>ex_topics := [], ex_interpretations := [], ex_questions := [], ex_limitations := [],
     ex_findings := [], ex_glossary := [], ex_conclusion := None\<rparr>"

definition replayed :: "exploration \<Rightarrow> exploration" where
  "replayed x = foldl absorb_turn (blank_interview x) (ex_conversation x)"

definition replay_turns :: "exploration \<Rightarrow> exploration" where
  "replay_turns x = forget_quiz_answers (forget_diagram_errors (replayed x))"

definition carries :: "bytes \<Rightarrow> turn_request option \<Rightarrow> bool" where
  "carries i r \<longleftrightarrow>
     (case r of None \<Rightarrow> False | Some r \<Rightarrow> (case tr_answer r of None \<Rightarrow> False | Some a \<Rightarrow> ra_id a = i))"

definition carrying_request :: "bytes \<Rightarrow> exploration \<Rightarrow> turn_request option" where
  "carrying_request i x =
     (if carries i (ex_outstanding x) then ex_outstanding x else if carries i (ex_retry x) then ex_retry x else None)"

definition drop_request :: "bytes \<Rightarrow> exploration \<Rightarrow> exploration" where
  "drop_request i x = (if carrying_request i x = None then x else x\<lparr>ex_outstanding := None, ex_retry := None\<rparr>)"

definition drop_turns :: "bytes \<Rightarrow> exploration \<Rightarrow> exploration" where
  "drop_turns i x =
     (if turn_after x i = None then x
      else replay_turns (x\<lparr>ex_conversation := filter (\<lambda>t. ct_answer t \<noteq> Some i) (ex_conversation x)\<rparr>))"

text \<open>Answers cancelled earlier that only the dropped request would have told the agent about are told with the next
  one, before this one.\<close>

definition withdraw :: "bytes \<Rightarrow> exploration \<Rightarrow> exploration" where
  "withdraw i x =
     (let told_by = (case carrying_request i x of None \<Rightarrow> [] | Some r \<Rightarrow> tr_cancelled r);
          y = drop_turns i (drop_request i (x\<lparr>ex_answers := butlast (ex_answers x)\<rparr>))
      in y\<lparr>ex_cancelled := told_by @ ex_cancelled y @ [i]\<rparr>)"

text \<open>The answer that is taken back, and the request that carried it.\<close>

definition cancel_latest :: "bytes \<Rightarrow> (reviewer_answer \<times> bytes option) interview_op" where
  "cancel_latest i x =
     (if ex_answers x = [] \<or> ra_id (last (ex_answers x)) \<noteq> i
        then (Inl ''Only the latest answer can be cancelled'', x)
      else let taken = (case turn_after x i of
                 Some t \<Rightarrow> Some (iu_request (ct_update t))
               | None \<Rightarrow> map_option tr_request (carrying_request i x))
        in (Inr (last (ex_answers x), taken), withdraw i x))"

section \<open>What a saved interview must hold\<close>

fun saved_turns :: "exploration \<Rightarrow> bytes set \<Rightarrow> conversation_turn list \<Rightarrow> checked" where
  "saved_turns x seen [] = Inr ()"
| "saved_turns x seen (t # ts) = checks
     [ensure (iu_instance (ct_update t) = ex_instance x \<and> iu_checkpoint (ct_update t) = ex_checkpoint x \<and>
          iu_request (ct_update t) \<notin> seen) ''invalid saved turn identity'',
      ensure (case ct_answer t of None \<Rightarrow> True | Some i \<Rightarrow> knows_answer x i) ''saved turn lost its original answer'',
      saved_turns x (insert (iu_request (ct_update t)) seen) ts]"

definition known_topic :: "exploration \<Rightarrow> bytes \<Rightarrow> bool" where
  "known_topic x i \<longleftrightarrow> map_of (ex_topics x) i \<noteq> None"

definition known_option :: "(bytes \<Rightarrow> bool) \<Rightarrow> bytes option \<Rightarrow> bool" where
  "known_option p i \<longleftrightarrow> (case i of None \<Rightarrow> True | Some i \<Rightarrow> p i)"

definition turn_updates :: "exploration \<Rightarrow> interview_update list" where
  "turn_updates x = map ct_update (ex_conversation x)"

definition saved_topic_ok :: "exploration \<Rightarrow> topic \<Rightarrow> bool" where
  "saved_topic_ok x t \<longleftrightarrow> known_topic x (tp_id t) \<and> list_all (known_topic x) (tp_prerequisites t)"

definition saved_change_ok :: "exploration \<Rightarrow> agenda_change \<Rightarrow> checked" where
  "saved_change_ok x g = also_check
     (ensure (known_topic x (gc_topic g) \<and> known_option (known_topic x) (gc_replacement g))
        ''saved agenda lost its topic or replacement'')
     (ensure (known_option (knows_answer x) (gc_answer g) \<and> known_option (knows_answer x) (gc_decision g))
        ''saved agenda lost its attribution'')"

definition validate_saved_agenda :: "exploration \<Rightarrow> checked" where
  "validate_saved_agenda x = checks
     [ensure (list_all (\<lambda>(i, t). i = tp_id t) (ex_topics x)) ''invalid saved topic identity'',
      ensure (list_all (saved_topic_ok x) (map snd (ex_topics x) @ concat (map iu_topics (turn_updates x))))
        ''saved agenda lost a topic or prerequisite'',
      ensure (list_all (\<lambda>q. known_topic x (qu_topic q)) (ex_questions x)) ''saved question lost its topic'',
      checks (map (saved_change_ok x) (concat (map iu_agenda (turn_updates x))))]"

definition replies_to :: "reviewer_answer \<Rightarrow> conversation_turn \<Rightarrow> bool" where
  "replies_to a t \<longleftrightarrow>
     (case ra_question a of
        Some q \<Rightarrow> iu_next (ct_update t) = Some q | None \<Rightarrow> iu_conclusion (ct_update t) \<noteq> None)"

definition option_ok :: "reviewer_answer \<Rightarrow> bool" where
  "option_ok a \<longleftrightarrow>
     (case ra_option a of
        None \<Rightarrow> True
      | Some c \<Rightarrow> (case ra_question a of None \<Rightarrow> False | Some q \<Rightarrow> c \<in> set (choices q)))"

definition validate_saved_answer :: "exploration \<Rightarrow> reviewer_answer \<Rightarrow> checked" where
  "validate_saved_answer x a = also_check
     (ensure (case turn_of x (ra_in_reply_to a) of None \<Rightarrow> False | Some t \<Rightarrow> replies_to a t)
        ''saved answer lost its original context'')
     (ensure (option_ok a) ''saved answer lost its exact option'')"

text \<open>The answers are checked one by one, with the identities seen before.\<close>

fun saved_answers :: "exploration \<Rightarrow> bytes set \<Rightarrow> reviewer_answer list \<Rightarrow> checked" where
  "saved_answers x seen [] = Inr ()"
| "saved_answers x seen (a # as) = checks
     [ensure (ra_checkpoint a = ex_checkpoint x \<and> ra_id a \<notin> seen) ''invalid saved answer identity'',
      ensure (case ra_question a of None \<Rightarrow> True | Some q \<Rightarrow> q \<in> set (ex_questions x))
        ''saved answer lost its question version'',
      validate_saved_answer x a,
      saved_answers x (insert (ra_id a) seen) as]"

definition saved_request :: "exploration \<Rightarrow> turn_request \<Rightarrow> checked" where
  "saved_request x r = ensure
     (tr_instance r = ex_instance x \<and> tr_checkpoint r = ex_checkpoint x \<and>
      (case tr_answer r of None \<Rightarrow> True | Some a \<Rightarrow> a \<in> set (ex_answers x)))
     ''invalid saved pending turn''"

definition optional :: "'a option \<Rightarrow> 'a list" where
  "optional v = (case v of None \<Rightarrow> [] | Some v \<Rightarrow> [v])"

definition validate_restored :: "exploration \<Rightarrow> checked" where
  "validate_restored x = checks
     [ensure (ex_instance x \<noteq> []) ''missing round identity'',
      saved_turns x {} (ex_conversation x),
      ensure (concat (map (\<lambda>u. optional (iu_next u)) (turn_updates x)) = ex_questions x)
        ''saved question history is inconsistent'',
      validate_saved_agenda x,
      saved_answers x {} (ex_answers x),
      ensure (list_all (\<lambda>ip. knows_answer x (ip_answer ip)) (ex_interpretations x))
        ''saved interpretation lost its answer'',
      checks (map (saved_request x) (optional (ex_outstanding x) @ optional (ex_retry x))),
      ensure (manifest_ok (ex_comparison x)) ''invalid saved comparison mapping'']"

lemma absorb_answers [simp]: "ex_answers (absorb u a x) = ex_answers x"
  by (simp add: absorb_def Let_def absorb_topics_def absorb_decision_def record_report_def
      split: option.splits)

lemma absorb_turns_answers [simp]: "ex_answers (foldl absorb_turn x ts) = ex_answers x"
  by (induction ts arbitrary: x) (simp_all add: absorb_turn_def)

lemma replay_answers [simp]: "ex_answers (replay_turns x) = ex_answers x"
  by (simp add: replay_turns_def forget_quiz_answers_def forget_diagram_errors_def replayed_def blank_interview_def)

lemma withdraw_answers [simp]: "ex_answers (withdraw i x) = butlast (ex_answers x)"
  by (simp add: withdraw_def Let_def drop_turns_def drop_request_def)

end
