(* ===== verification/ExploreReplay.thy ===== *)
theory ExploreReplay
  imports ExploreRounds
begin

text \<open>
  What an interview decided is the replay of its turns: the laws of \<open>absorb\<close> and \<open>replayed\<close>, and the order in which
  answers and turns come (the relation \<open>told\<close>), with what each of them may refer to. Taking the latest answer
  back keeps that order, which is why a round that goes back to an earlier question is still a round.
\<close>

section \<open>What taking a turn writes\<close>

definition decided_topics :: "interview_update \<Rightarrow> reviewer_answer option \<Rightarrow> (bytes \<times> topic) list \<Rightarrow> (bytes \<times> topic) list" where
  "decided_topics u a m =
     (let m = foldl absorb_topic m (iu_topics u) in
      case (iu_interpretation u, a) of
        (Some ip, Some a) \<Rightarrow>
          (case ra_question a of None \<Rightarrow> m | Some q \<Rightarrow> set_status (qu_topic q) (ip_status ip) m)
      | _ \<Rightarrow> m)"

definition decided_interpretations :: "interview_update \<Rightarrow> reviewer_answer option \<Rightarrow> answer_interpretation list" where
  "decided_interpretations u a = (case (iu_interpretation u, a) of (Some ip, Some a) \<Rightarrow> [ip] | _ \<Rightarrow> [])"

lemma absorb_eq:
  "absorb u a x = x
     \<lparr>ex_topics := decided_topics u a (ex_topics x),
      ex_questions := ex_questions x @ optional (iu_next u),
      ex_interpretations := ex_interpretations x @ decided_interpretations u a,
      ex_limitations := (if iu_conclusion u = None \<or> iu_limitations u \<noteq> [] then iu_limitations u else ex_limitations x),
      ex_findings := add_findings (ex_findings x) (iu_findings u),
      ex_conclusion := iu_conclusion u,
      ex_glossary := bt_extend (iu_glossary u) (ex_glossary x)\<rparr>"
  by (simp add: absorb_def Let_def absorb_topics_def absorb_decision_def record_report_def decided_topics_def
      decided_interpretations_def optional_def split: option.splits)

text \<open>The parts of an interview that no turn writes.\<close>

definition kept :: "exploration \<Rightarrow> exploration" where
  "kept x = blank_interview x"

lemma kept_absorb [simp]: "kept (absorb u a x) = kept x"
  by (simp add: absorb_eq kept_def blank_interview_def)

lemma kept_eq_iff:
  "kept x = kept y \<longleftrightarrow>
     ex_instance x = ex_instance y \<and> ex_comparison x = ex_comparison y \<and> ex_answers x = ex_answers y \<and>
     ex_conversation x = ex_conversation y \<and> ex_elapsed x = ex_elapsed y \<and> ex_outstanding x = ex_outstanding y \<and>
     ex_retry x = ex_retry y \<and> ex_cancelled x = ex_cancelled y \<and> ex_challenger x = ex_challenger y \<and>
     ex_author x = ex_author y \<and> ex_reviewer x = ex_reviewer y \<and> ex_writing x = ex_writing y \<and>
     ex_diagram_errors x = ex_diagram_errors y \<and> ex_quiz_answers x = ex_quiz_answers y"
  by (cases x; cases y) (auto simp: kept_def blank_interview_def)

text \<open>The parts that turns write.\<close>

definition decided :: "exploration \<Rightarrow> (bytes \<times> topic) list \<times> question list \<times> answer_interpretation list \<times> bytes list \<times>
    bytes list \<times> conclusion option \<times> (bytes \<times> bytes) list" where
  "decided x =
     (ex_topics x, ex_questions x, ex_interpretations x, ex_limitations x, ex_findings x, ex_conclusion x, ex_glossary x)"

lemma exploration_eq: "x = y \<longleftrightarrow> kept x = kept y \<and> decided x = decided y" for x y :: exploration
  by (cases x; cases y) (auto simp: kept_eq_iff decided_def)

lemma decided_absorb: "decided x = decided y \<Longrightarrow> decided (absorb u a x) = decided (absorb u a y)"
  by (simp add: absorb_eq decided_def)

lemma absorb_turn_fields [simp]:
  "kept (absorb_turn x t) = kept x"
  by (simp add: absorb_turn_def)

lemma absorb_turns_kept [simp]: "kept (foldl absorb_turn x ts) = kept x"
  by (induction ts arbitrary: x) simp_all

lemma kept_fields:
  assumes "kept x = kept y"
  shows "ex_answers x = ex_answers y" "ex_conversation x = ex_conversation y" "ex_outstanding x = ex_outstanding y"
    "ex_retry x = ex_retry y" "ex_instance x = ex_instance y" "ex_comparison x = ex_comparison y"
    "ex_cancelled x = ex_cancelled y"
  using assms by (simp_all add: kept_eq_iff)

lemma replayed_kept [simp]: "kept (replayed x) = kept x"
  by (simp add: replayed_def kept_def blank_interview_def flip: kept_def) (simp add: kept_def blank_interview_def)

lemma decided_absorb_turns:
  assumes "decided x = decided y" "\<And>t. t \<in> set ts \<Longrightarrow> answer_named x (ct_answer t) = answer_named y (ct_answer t)"
  shows "decided (foldl absorb_turn x ts) = decided (foldl absorb_turn y ts)"
  using assms
proof (induction ts arbitrary: x y)
  case (Cons t ts)
  have named: "answer_named (absorb_turn z t) = answer_named z" for z
    by (rule ext) (simp add: answer_named_def absorb_turn_def split: option.splits)
  have "decided (absorb_turn x t) = decided (absorb_turn y t)"
    using Cons.prems(2) [of t] decided_absorb [OF Cons.prems(1)] by (simp add: absorb_turn_def)
  from Cons.IH [OF this] Cons.prems(2) show ?case by (simp add: named)
qed simp

text \<open>The replay reads the conversation and the answers its turns follow, nothing else.\<close>

lemma replayed_decided:
  assumes "ex_conversation x = ex_conversation y"
    "\<And>t. t \<in> set (ex_conversation x) \<Longrightarrow> answer_named x (ct_answer t) = answer_named y (ct_answer t)"
  shows "decided (replayed x) = decided (replayed y)"
proof -
  have "answer_named (blank_interview z) = answer_named z" for z
    by (rule ext) (simp add: answer_named_def blank_interview_def split: option.splits)
  then show ?thesis
    unfolding replayed_def assms(1)
    using assms by (intro decided_absorb_turns) (simp_all add: decided_def blank_interview_def)
qed

section \<open>What turns leave in the interview\<close>

lemma bt_extend_keys: "fst ` set (bt_extend es m) = fst ` set es \<union> fst ` set m"
proof (induction es arbitrary: m)
  case (Cons e es)
  from Cons [of "bt_insert (fst e) (snd e) m"] show ?case
    by (simp add: bt_extend_def bt_insert_keys case_prod_beta)
qed (simp add: bt_extend_def)

lemma bt_extend_mem:
  "distinct (map fst es) \<Longrightarrow> e \<in> set es \<Longrightarrow> e \<in> set (bt_extend es m)"
proof (induction es arbitrary: m)
  case (Cons d es)
  have keep: "e \<in> set (bt_insert k v m)" if "fst e \<noteq> k" "e \<in> set m" for k v and m :: "(bytes \<times> 'a) list"
    using that by (induction m) auto
  have "e \<in> set (bt_extend es m)" if "e \<in> set m" "fst e \<notin> fst ` set es" for m
    using that by (induction es arbitrary: m) (auto simp: bt_extend_def keep split: prod.splits)
  with Cons show ?case
    by (cases d) (auto simp: bt_extend_def bt_insert_mem)
qed simp

lemma bt_extend_set: "set (bt_extend es m) \<subseteq> set es \<union> set m"
proof (induction es arbitrary: m)
  case (Cons e es)
  then show ?case using bt_insert_set by (fastforce simp: bt_extend_def split: prod.splits)
qed (simp add: bt_extend_def)

lemma absorb_topic_keys: "fst ` set (absorb_topic m t) = insert (tp_id t) (fst ` set m)"
  by (simp add: absorb_topic_def bt_insert_keys)

lemma absorb_topics_keys: "fst ` set (foldl absorb_topic m ts) = tp_id ` set ts \<union> fst ` set m"
  by (induction ts arbitrary: m) (auto simp: absorb_topic_keys)

lemma set_status_keys: "fst ` set (set_status i s m) = fst ` set m"
  by (auto simp: set_status_def bt_insert_keys split: option.splits dest: map_of_SomeD)
    (metis domI dom_map_of_conv_image_fst image_iff fst_conv)

lemma decided_topics_keys: "fst ` set (decided_topics u a m) = tp_id ` set (iu_topics u) \<union> fst ` set m"
  by (auto simp: decided_topics_def Let_def absorb_topics_keys set_status_keys simp del: split_paired_All
      split: option.splits)

text \<open>Every topic kept is one that a turn sent, but for its status.\<close>

definition sent_topic :: "topic list \<Rightarrow> bytes \<times> topic \<Rightarrow> bool" where
  "sent_topic ts e \<longleftrightarrow>
     (\<exists>t \<in> set ts. fst e = tp_id t \<and> tp_id (snd e) = tp_id t \<and> tp_prerequisites (snd e) = tp_prerequisites t)"

lemma sent_topic_mono: "sent_topic ts e \<Longrightarrow> set ts \<subseteq> set ts' \<Longrightarrow> sent_topic ts' e"
  by (auto simp: sent_topic_def)

lemma absorb_topics_sent:
  "\<forall>e \<in> set m. sent_topic ts e \<Longrightarrow> \<forall>e \<in> set (foldl absorb_topic m ss). sent_topic (ts @ ss) e"
proof (induction ss arbitrary: m ts)
  case (Cons s ss)
  have "\<forall>e \<in> set (absorb_topic m s). sent_topic (ts @ [s]) e"
  proof
    fix e
    assume "e \<in> set (absorb_topic m s)"
    then consider "e \<in> set m" | "fst e = tp_id s" "tp_id (snd e) = tp_id s" "tp_prerequisites (snd e) = tp_prerequisites s"
      using bt_insert_set by (fastforce simp: absorb_topic_def)
    then show "sent_topic (ts @ [s]) e"
      using Cons.prems by cases (auto simp: sent_topic_def)
  qed
  from Cons.IH [OF this] show ?case by simp
qed simp

lemma set_status_sent: "\<forall>e \<in> set m. sent_topic ts e \<Longrightarrow> \<forall>e \<in> set (set_status i s m). sent_topic ts e"
proof (cases "map_of m i")
  case (Some t)
  assume sent: "\<forall>e \<in> set m. sent_topic ts e"
  with Some have "sent_topic ts (i, t)" by (auto dest: map_of_SomeD)
  then have "sent_topic ts (i, t\<lparr>tp_status := s\<rparr>)" by (auto simp: sent_topic_def)
  with sent Some show ?thesis using bt_insert_set by (fastforce simp: set_status_def)
qed (simp add: set_status_def)

lemma decided_topics_sent:
  "\<forall>e \<in> set m. sent_topic ts e \<Longrightarrow> \<forall>e \<in> set (decided_topics u a m). sent_topic (ts @ iu_topics u) e"
  using absorb_topics_sent [of m ts "iu_topics u"] set_status_sent [where m = "foldl absorb_topic m (iu_topics u)"]
  by (auto simp: decided_topics_def Let_def split: option.splits)

definition all_topics :: "conversation_turn list \<Rightarrow> topic list" where
  "all_topics ts = concat (map (\<lambda>t. iu_topics (ct_update t)) ts)"

definition all_nexts :: "conversation_turn list \<Rightarrow> question list" where
  "all_nexts ts = concat (map (\<lambda>t. optional (iu_next (ct_update t))) ts)"

lemma absorb_turns_leave:
  assumes "\<forall>e \<in> set (ex_topics x). sent_topic us e"
  shows "ex_questions (foldl absorb_turn x ts) = ex_questions x @ all_nexts ts"
    "fst ` set (ex_topics (foldl absorb_turn x ts)) = fst ` set (ex_topics x) \<union> tp_id ` set (all_topics ts)"
    "\<forall>e \<in> set (ex_topics (foldl absorb_turn x ts)). sent_topic (us @ all_topics ts) e"
    "\<forall>ip \<in> set (ex_interpretations (foldl absorb_turn x ts)).
       ip \<in> set (ex_interpretations x) \<or> (\<exists>t \<in> set ts. iu_interpretation (ct_update t) = Some ip \<and> ct_answer t \<noteq> None)"
  using assms
proof (induction ts arbitrary: x us)
  case Nil
  { case 1 then show ?case by (simp add: all_nexts_def) }
  { case 2 then show ?case by (simp add: all_topics_def) }
  { case 3 then show ?case by (simp add: all_topics_def) }
  { case 4 then show ?case by simp }
next
  case (Cons t ts)
  have one: "ex_questions (absorb_turn x t) = ex_questions x @ optional (iu_next (ct_update t))"
    "fst ` set (ex_topics (absorb_turn x t)) = tp_id ` set (iu_topics (ct_update t)) \<union> fst ` set (ex_topics x)"
    "\<forall>ip \<in> set (ex_interpretations (absorb_turn x t)).
       ip \<in> set (ex_interpretations x) \<or> iu_interpretation (ct_update t) = Some ip \<and> ct_answer t \<noteq> None" for x
    by (auto simp: absorb_turn_def absorb_eq decided_topics_keys decided_interpretations_def answer_named_def
        split: option.splits)
  have two: "\<forall>e \<in> set (ex_topics (absorb_turn x t)). sent_topic (us @ iu_topics (ct_update t)) e"
    if "\<forall>e \<in> set (ex_topics x). sent_topic us e" for x us
    using decided_topics_sent [OF that] by (simp add: absorb_turn_def absorb_eq)
  { case 1 from Cons.IH(1) [OF two [OF 1]] one show ?case by (simp add: all_nexts_def) }
  { case 2 from Cons.IH(2) [OF two [OF 2]] one show ?case by (auto simp: all_topics_def) }
  { case 3 from Cons.IH(3) [OF two [OF 3]] show ?case by (simp add: all_topics_def) }
  { case 4 from Cons.IH(4) [OF two [OF 4]] one(3) [of x] show ?case by fastforce }
qed

lemma replayed_leaves:
  "ex_questions (replayed x) = all_nexts (ex_conversation x)"
  "fst ` set (ex_topics (replayed x)) = tp_id ` set (all_topics (ex_conversation x))"
  "\<forall>e \<in> set (ex_topics (replayed x)). sent_topic (all_topics (ex_conversation x)) e"
  "\<forall>ip \<in> set (ex_interpretations (replayed x)).
     \<exists>t \<in> set (ex_conversation x). iu_interpretation (ct_update t) = Some ip \<and> ct_answer t \<noteq> None"
  using absorb_turns_leave [of "blank_interview x" "[]" "ex_conversation x"]
  by (simp_all add: replayed_def blank_interview_def)

section \<open>The order of answers and turns\<close>

definition topic_ids :: "conversation_turn list \<Rightarrow> bytes set" where
  "topic_ids ts = tp_id ` set (all_topics ts)"

definition answer_ids :: "reviewer_answer list \<Rightarrow> bytes set" where
  "answer_ids as = ra_id ` set as"

definition last_id :: "reviewer_answer list \<Rightarrow> bytes option" where
  "last_id as = (if as = [] then None else Some (ra_id (last as)))"

definition agenda_fits :: "reviewer_answer list \<Rightarrow> bytes set \<Rightarrow> agenda_change \<Rightarrow> bool" where
  "agenda_fits as K g \<longleftrightarrow>
     gc_topic g \<in> K \<and> set (optional (gc_replacement g)) \<subseteq> K \<and>
     set (optional (gc_answer g)) \<subseteq> answer_ids as \<and> set (optional (gc_decision g)) \<subseteq> answer_ids as"

definition refers_to :: "reviewer_answer list \<Rightarrow> bytes set \<Rightarrow> interview_update \<Rightarrow> bool" where
  "refers_to as K u \<longleftrightarrow>
     (\<forall>t \<in> set (iu_topics u). set (tp_prerequisites t) \<subseteq> K) \<and>
     (\<forall>q \<in> set (optional (iu_next u)). qu_topic q \<in> K) \<and>
     (\<forall>g \<in> set (iu_agenda u). agenda_fits as K g)"

definition turn_fits ::
  "bytes \<Rightarrow> review_checkpoint \<Rightarrow> reviewer_answer list \<Rightarrow> conversation_turn list \<Rightarrow> conversation_turn \<Rightarrow> bool" where
  "turn_fits i c as ts t \<longleftrightarrow>
     iu_instance (ct_update t) = i \<and> iu_checkpoint (ct_update t) = c \<and>
     iu_request (ct_update t) \<notin> (\<lambda>t. iu_request (ct_update t)) ` set ts \<and>
     refers_to as (topic_ids (ts @ [t])) (ct_update t) \<and>
     (\<forall>ip. iu_interpretation (ct_update t) = Some ip \<longrightarrow> ct_answer t = Some (ip_answer ip))"

definition turn_named :: "conversation_turn list \<Rightarrow> bytes \<Rightarrow> conversation_turn option" where
  "turn_named ts r = find (\<lambda>t. iu_request (ct_update t) = r) ts"

text \<open>An interview is told answer by answer and turn by turn: an answer replies to a turn that is there, a turn of the
  agent follows the latest answer, once, and a revision follows what the turn before it followed.\<close>

inductive told :: "bytes \<Rightarrow> review_checkpoint \<Rightarrow> reviewer_answer list \<Rightarrow> conversation_turn list \<Rightarrow> bool" for i c where
  told_nothing: "told i c [] []"
| told_answer:
    "told i c as ts \<Longrightarrow> ra_id a \<notin> answer_ids as \<Longrightarrow> ra_checkpoint a = c \<Longrightarrow>
     turn_named ts (ra_in_reply_to a) = Some t \<Longrightarrow> replies_to a t \<Longrightarrow> option_ok a \<Longrightarrow>
     told i c (as @ [a]) ts"
| told_turn:
    "told i c as ts \<Longrightarrow> turn_fits i c as ts t \<Longrightarrow> ct_answer t = last_id as \<Longrightarrow>
     (\<forall>a. ct_answer t = Some a \<longrightarrow> Some a \<notin> ct_answer ` set ts) \<Longrightarrow> told i c as (ts @ [t])"
| told_revision:
    "told i c as ts \<Longrightarrow> ts \<noteq> [] \<Longrightarrow> turn_fits i c as ts t \<Longrightarrow> ct_answer t = ct_answer (last ts) \<Longrightarrow>
     iu_topics (ct_update t) = [] \<Longrightarrow> iu_agenda (ct_update t) = [] \<Longrightarrow> iu_conclusion (ct_update t) = None \<Longrightarrow>
     told i c as (ts @ [t])"

lemma topic_ids_append [simp]: "topic_ids (ts @ us) = topic_ids ts \<union> topic_ids us"
  by (auto simp: topic_ids_def all_topics_def)

lemma topic_ids_one [simp]: "topic_ids [t] = tp_id ` set (iu_topics (ct_update t))"
  by (simp add: topic_ids_def all_topics_def)

lemma answer_ids_append [simp]: "answer_ids (as @ bs) = answer_ids as \<union> answer_ids bs"
  by (auto simp: answer_ids_def)

lemma answer_ids_simps [simp]: "answer_ids [] = {}" "answer_ids [a] = {ra_id a}"
  by (simp_all add: answer_ids_def)

lemma refers_to_mono: "refers_to as K u \<Longrightarrow> answer_ids as \<subseteq> answer_ids bs \<Longrightarrow> K \<subseteq> L \<Longrightarrow> refers_to bs L u"
  by (fastforce simp: refers_to_def agenda_fits_def)

lemma told_turns_follow: "told i c as ts \<Longrightarrow> t \<in> set ts \<Longrightarrow> ct_answer t = Some a \<Longrightarrow> a \<in> answer_ids as"
proof (induction arbitrary: t rule: told.induct)
  case (told_turn as ts u)
  then show ?case by (auto simp: last_id_def answer_ids_def split: if_splits)
next
  case (told_revision as ts u)
  have "last ts \<in> set ts" using told_revision.hyps(2) by simp
  then show ?case
    using told_revision.IH [of t] told_revision.IH [of "last ts"] told_revision.prems told_revision.hyps(4)
    by (cases "t = u") auto
qed auto

lemma told_distinct:
  "told i c as ts \<Longrightarrow> distinct (map ra_id as) \<and> distinct (map (\<lambda>t. iu_request (ct_update t)) ts)"
  by (induction rule: told.induct) (auto simp: answer_ids_def turn_fits_def)

lemma told_identities:
  "told i c as ts \<Longrightarrow>
     (\<forall>a \<in> set as. ra_checkpoint a = c \<and> option_ok a) \<and>
     (\<forall>t \<in> set ts. iu_instance (ct_update t) = i \<and> iu_checkpoint (ct_update t) = c)"
  by (induction rule: told.induct) (auto simp: turn_fits_def)

lemma refers_to_appended:
  "turn_fits i c as ts u \<Longrightarrow> t \<in> set (ts @ [u]) \<Longrightarrow>
     (\<And>t. t \<in> set ts \<Longrightarrow> refers_to as (topic_ids ts) (ct_update t)) \<Longrightarrow>
     refers_to as (topic_ids (ts @ [u])) (ct_update t)"
  by (cases "t = u") (auto simp: turn_fits_def intro: refers_to_mono [where K = "topic_ids ts" and as = as])

lemma told_refers: "told i c as ts \<Longrightarrow> t \<in> set ts \<Longrightarrow> refers_to as (topic_ids ts) (ct_update t)"
proof (induction arbitrary: t rule: told.induct)
  case (told_answer as ts a u)
  show ?case by (rule refers_to_mono [OF told_answer.IH [OF told_answer.prems]]) auto
next
  case (told_turn as ts u)
  from refers_to_appended [OF told_turn.hyps(2) told_turn.prems told_turn.IH] show ?case .
next
  case (told_revision as ts u)
  from refers_to_appended [OF told_revision.hyps(3) told_revision.prems told_revision.IH] show ?case .
qed simp

lemma told_interpretations:
  "told i c as ts \<Longrightarrow> t \<in> set ts \<Longrightarrow> iu_interpretation (ct_update t) = Some ip \<Longrightarrow> ct_answer t = Some (ip_answer ip)"
  by (induction rule: told.induct) (auto simp: turn_fits_def)

lemma find_appended: "find P (xs @ ys) = (case find P xs of None \<Rightarrow> find P ys | Some x \<Rightarrow> Some x)"
  by (induction xs) auto

lemma told_contexts: "told i c as ts \<Longrightarrow> a \<in> set as \<Longrightarrow> \<exists>t. turn_named ts (ra_in_reply_to a) = Some t \<and> replies_to a t"
  by (induction rule: told.induct) (auto simp: turn_named_def find_appended)

text \<open>Once a turn followed the latest answer, every later turn does.\<close>

lemma told_latest_last:
  "told i c as ts \<Longrightarrow> last_id as = Some a \<Longrightarrow> Some a \<in> ct_answer ` set ts \<Longrightarrow> ct_answer (last ts) = Some a"
proof (induction rule: told.induct)
  case (told_answer as ts b t)
  then have "Some (ra_id b) \<in> ct_answer ` set ts" by (simp add: last_id_def)
  then have "ra_id b \<in> answer_ids as" using told_turns_follow [OF told_answer.hyps(1)] by (metis image_iff)
  with told_answer.hyps show ?case by simp
next
  case (told_revision as ts t)
  then show ?case by auto
qed auto

lemma told_without_latest:
  "told i c bs ts \<Longrightarrow> bs = as @ [a] \<Longrightarrow> told i c as (filter (\<lambda>t. ct_answer t \<noteq> Some (ra_id a)) ts)"
proof (induction arbitrary: as a rule: told.induct)
  case (told_answer cs ts b t)
  then have "\<forall>t \<in> set ts. ct_answer t \<noteq> Some (ra_id b)"
    using told_turns_follow by blast
  with told_answer show ?case by (simp add: filter_True)
next
  case (told_turn bs ts t)
  then show ?case by (simp add: last_id_def)
next
  case (told_revision bs ts t)
  show ?case
  proof (cases "ct_answer t = Some (ra_id a)")
    case True
    with told_revision show ?thesis by simp
  next
    case False
    then have "Some (ra_id a) \<notin> ct_answer ` set ts"
      using told_latest_last [OF told_revision.hyps(1)] told_revision.hyps(4) told_revision.prems
      by (auto simp: last_id_def)
    then have all: "filter (\<lambda>t. ct_answer t \<noteq> Some (ra_id a)) ts = ts"
      by (intro filter_True) (metis image_eqI)
    have "turn_fits i c as ts t"
      using told_revision.hyps(3,6) by (auto simp: turn_fits_def refers_to_def)
    from told_revision.IH [OF told_revision.prems] have "told i c as ts" by (simp add: all)
    from told.told_revision [OF this told_revision.hyps(2) \<open>turn_fits i c as ts t\<close> told_revision.hyps(4-7)]
    show ?thesis using all False by simp
  qed
qed simp

text \<open>A concluding turn that follows an answer is the first that does.\<close>

lemma told_conclusion_first:
  "told i c as ts \<Longrightarrow> t \<in> set ts \<Longrightarrow> ct_answer t = Some a \<Longrightarrow> iu_conclusion (ct_update t) \<noteq> None \<Longrightarrow>
     find (\<lambda>t. ct_answer t = Some a) ts = Some t"
proof (induction rule: told.induct)
  case (told_turn as ts u)
  show ?case
  proof (cases "t \<in> set ts")
    case False
    with told_turn.prems have "t = u" by simp
    have "Some a \<notin> ct_answer ` set ts" using told_turn.hyps(4) told_turn.prems(2) \<open>t = u\<close> by blast
    then have "\<forall>s \<in> set ts. ct_answer s \<noteq> Some a" by (metis image_eqI)
    then have "find (\<lambda>t. ct_answer t = Some a) ts = None" by (auto simp: find_None_iff)
    with told_turn.prems(2) \<open>t = u\<close> show ?thesis by (simp add: find_appended)
  qed (use told_turn in \<open>simp add: find_appended\<close>)
next
  case (told_revision as ts u)
  then show ?case by (auto simp: find_appended)
qed auto

end
