(* ===== verification/ExploreLaws.thy ===== *)
theory ExploreLaws
  imports ExploreReplay
begin

text \<open>
  The invariant of an interview, \<open>interview_ok\<close>: it was told answer by answer and turn by turn, what it decided is
  the replay of its turns, and the request that is out carries its latest answer. The invariant gives what a restored
  interview is checked for, and every operation of the interview keeps it.
\<close>

definition latest_answer :: "exploration \<Rightarrow> reviewer_answer option" where
  "latest_answer x = (if ex_answers x = [] then None else Some (last (ex_answers x)))"

definition requests_ok :: "exploration \<Rightarrow> bool" where
  "requests_ok x \<longleftrightarrow>
     (\<forall>r. ex_retry x = Some r \<longrightarrow>
        tr_instance r = ex_instance x \<and> tr_checkpoint r = ex_checkpoint x \<and> tr_answer r = latest_answer x \<and>
        (\<forall>a. tr_answer r = Some a \<longrightarrow> Some (ra_id a) \<notin> ct_answer ` set (ex_conversation x))) \<and>
     (\<forall>r. ex_outstanding x = Some r \<longrightarrow> ex_retry x = Some r)"

definition interview_ok :: "exploration \<Rightarrow> bool" where
  "interview_ok x \<longleftrightarrow>
     ex_instance x \<noteq> [] \<and> manifest_ok (ex_comparison x) \<and>
     told (ex_instance x) (ex_checkpoint x) (ex_answers x) (ex_conversation x) \<and> replayed x = x \<and> requests_ok x"

section \<open>The checks of a restored interview\<close>

lemma optional_set [simp]: "set (optional v) = {w. v = Some w}"
  by (auto simp: optional_def split: option.splits)

lemma known_topic_iff: "known_topic x i \<longleftrightarrow> i \<in> fst ` set (ex_topics x)"
  by (simp add: known_topic_def flip: dom_map_of_conv_image_fst) auto

lemma knows_answer_iff: "knows_answer x i \<longleftrightarrow> i \<in> answer_ids (ex_answers x)"
  by (auto simp: knows_answer_def answer_ids_def list_ex_iff)

lemma known_option_iff: "known_option P v \<longleftrightarrow> (\<forall>w. v = Some w \<longrightarrow> P w)"
  by (auto simp: known_option_def split: option.splits)

lemma saved_turns_passes:
  "passes (saved_turns x seen ts) \<longleftrightarrow>
     (\<forall>t \<in> set ts. iu_instance (ct_update t) = ex_instance x \<and> iu_checkpoint (ct_update t) = ex_checkpoint x \<and>
        (\<forall>i. ct_answer t = Some i \<longrightarrow> knows_answer x i)) \<and>
     distinct (map (\<lambda>t. iu_request (ct_update t)) ts) \<and> seen \<inter> (\<lambda>t. iu_request (ct_update t)) ` set ts = {}"
  by (induction ts arbitrary: seen) (auto split: option.splits)

lemma saved_answers_passes:
  "passes (saved_answers x seen as) \<longleftrightarrow>
     (\<forall>a \<in> set as. ra_checkpoint a = ex_checkpoint x \<and> (\<forall>q. ra_question a = Some q \<longrightarrow> q \<in> set (ex_questions x)) \<and>
        passes (validate_saved_answer x a)) \<and>
     distinct (map ra_id as) \<and> seen \<inter> ra_id ` set as = {}"
  by (induction as arbitrary: seen) (auto split: option.splits)

lemma next_in_nexts: "t \<in> set ts \<Longrightarrow> iu_next (ct_update t) = Some q \<Longrightarrow> q \<in> set (all_nexts ts)"
  by (auto simp: all_nexts_def)

lemma turn_named_in: "turn_named ts r = Some t \<Longrightarrow> t \<in> set ts \<and> iu_request (ct_update t) = r"
  by (auto simp: turn_named_def find_Some_iff)

lemma interview_agenda_saved:
  assumes "interview_ok x"
  shows "passes (validate_saved_agenda x)"
proof -
  let ?K = "topic_ids (ex_conversation x)"
  have told: "told (ex_instance x) (ex_checkpoint x) (ex_answers x) (ex_conversation x)" and state: "replayed x = x"
    using assms by (simp_all add: interview_ok_def)
  note leaves = replayed_leaves [of x, unfolded state]
  have known: "known_topic x i \<longleftrightarrow> i \<in> ?K" for i
    by (simp add: known_topic_iff leaves(2) topic_ids_def)
  have turn: "refers_to (ex_answers x) ?K u" if "u \<in> set (turn_updates x)" for u
    using told_refers [OF told] that by (auto simp: turn_updates_def)
  have sent: "t \<in> set (all_topics (ex_conversation x)) \<Longrightarrow> tp_id t \<in> ?K \<and> set (tp_prerequisites t) \<subseteq> ?K" for t
    using turn by (fastforce simp: all_topics_def topic_ids_def turn_updates_def refers_to_def)
  have topics: "saved_topic_ok x t \<and> i = tp_id t" if "(i, t) \<in> set (ex_topics x)" for i t
  proof -
    from leaves(3) that have "sent_topic (all_topics (ex_conversation x)) (i, t)" by blast
    then obtain u where "u \<in> set (all_topics (ex_conversation x))" "i = tp_id u" "tp_id t = tp_id u"
      "tp_prerequisites t = tp_prerequisites u" by (auto simp: sent_topic_def)
    with sent [of u] show ?thesis by (auto simp: saved_topic_ok_def known list_all_iff)
  qed
  have updates: "saved_topic_ok x t" if "u \<in> set (turn_updates x)" "t \<in> set (iu_topics u)" for u t
    using sent that by (fastforce simp: saved_topic_ok_def known list_all_iff all_topics_def turn_updates_def)
  have questions: "known_topic x (qu_topic q)" if "q \<in> set (ex_questions x)" for q
    using that turn leaves(1) by (fastforce simp: all_nexts_def known turn_updates_def refers_to_def)
  have agenda: "passes (saved_change_ok x g)" if "u \<in> set (turn_updates x)" "g \<in> set (iu_agenda u)" for u g
    using turn [OF that(1)] that(2)
    by (auto simp: saved_change_ok_def known known_option_iff knows_answer_iff refers_to_def agenda_fits_def)
  show ?thesis
    using topics updates questions agenda
    by (auto simp: validate_saved_agenda_def list_all_iff)
qed

lemma interview_restored:
  assumes "interview_ok x"
  shows "passes (validate_restored x)"
proof -
  have told: "told (ex_instance x) (ex_checkpoint x) (ex_answers x) (ex_conversation x)" and state: "replayed x = x"
    and requests: "requests_ok x" and rest: "ex_instance x \<noteq> []" "manifest_ok (ex_comparison x)"
    using assms by (simp_all add: interview_ok_def)
  note leaves = replayed_leaves [of x, unfolded state]
  have turns: "passes (saved_turns x {} (ex_conversation x))"
    using told_identities [OF told] told_distinct [OF told] told_turns_follow [OF told]
    by (auto simp: saved_turns_passes knows_answer_iff)
  have context_of: "\<exists>t. turn_named (ex_conversation x) (ra_in_reply_to a) = Some t \<and> replies_to a t"
    if "a \<in> set (ex_answers x)" for a
    using told_contexts [OF told that] .
  have answers: "passes (validate_saved_answer x a)" if "a \<in> set (ex_answers x)" for a
    using context_of [OF that] told_identities [OF told] that
    by (auto simp: validate_saved_answer_def turn_of_def turn_named_def)
  have asked: "q \<in> set (ex_questions x)" if "a \<in> set (ex_answers x)" "ra_question a = Some q" for a q
    using context_of [OF that(1)] that(2) turn_named_in next_in_nexts leaves(1)
    by (auto simp: replies_to_def) blast
  from answers asked
  have saved: "passes (saved_answers x {} (ex_answers x))"
    using told_identities [OF told] told_distinct [OF told] by (auto simp: saved_answers_passes)
  have interpretations: "knows_answer x (ip_answer ip)" if "ip \<in> set (ex_interpretations x)" for ip
    using that leaves(4) told_interpretations [OF told] told_turns_follow [OF told]
    by (auto simp: knows_answer_iff)
  have turn_pending: "passes (saved_request x r)" if "ex_outstanding x = Some r \<or> ex_retry x = Some r" for r
    using that requests
    by (auto simp: requests_ok_def saved_request_def latest_answer_def split: option.splits if_splits)
  have nexts: "concat (map (\<lambda>u. optional (iu_next u)) (turn_updates x)) = ex_questions x"
    by (simp add: leaves(1) all_nexts_def turn_updates_def comp_def)
  show ?thesis
    using turns saved interpretations turn_pending nexts rest interview_agenda_saved [OF assms]
    by (auto simp: validate_restored_def list_all_iff)
qed

section \<open>What an accepted turn refers to\<close>

lemma validate_topics_distinct:
  "passes (validate_topics W x c seen ts) \<Longrightarrow> distinct (map tp_id ts) \<and> seen \<inter> tp_id ` set ts = {}"
  by (induction ts arbitrary: seen) (auto simp: validate_topic_def)

lemma validate_changes_each:
  "passes (validate_changes W x u c m seen gs) \<Longrightarrow> g \<in> set gs \<Longrightarrow> \<exists>seen. passes (validate_change W x u c m seen g)"
  by (induction gs arbitrary: seen) auto

lemma merged_topics_keys: "fst ` set (merged_topics x u) = tp_id ` set (iu_topics u) \<union> fst ` set (ex_topics x)"
  by (simp add: merged_topics_def bt_extend_keys image_image)

lemma validate_change_fits:
  assumes "passes (validate_change W x u c (merged_topics x u) seen g)"
  shows "agenda_fits (ex_answers x) (tp_id ` set (iu_topics u) \<union> fst ` set (ex_topics x)) g"
proof -
  have known: "map_of (merged_topics x u) i \<noteq> None \<longleftrightarrow> i \<in> tp_id ` set (iu_topics u) \<union> fst ` set (ex_topics x)" for i
    by (metis merged_topics_keys map_of_eq_None_iff)
  have "gc_topic g \<in> tp_id ` set (iu_topics u) \<union> fst ` set (ex_topics x)"
    using assms known by (simp add: validate_change_def)
  moreover have "r \<in> tp_id ` set (iu_topics u) \<union> fst ` set (ex_topics x)" if "gc_replacement g = Some r" for r
    using assms that known [of r]
    by (auto simp: validate_change_def validate_replacement_def split: if_splits)
  moreover have "i \<in> answer_ids (ex_answers x)" if "gc_answer g = Some i" for i
    using assms that by (simp add: validate_change_def validate_reason_def knows_answer_iff)
  moreover have "i \<in> answer_ids (ex_answers x)" if "gc_decision g = Some i" for i
    using assms that
    by (auto simp: validate_change_def validate_decision_def list_ex_iff answer_ids_def) (metis image_eqI)
  ultimately show ?thesis by (auto simp: agenda_fits_def)
qed

lemma validate_agenda_fits:
  assumes "passes (validate_agenda W x u c)" "distinct (map tp_id (iu_topics u))"
  defines "K \<equiv> tp_id ` set (iu_topics u) \<union> fst ` set (ex_topics x)"
  shows "g \<in> set (iu_agenda u) \<Longrightarrow> agenda_fits (ex_answers x) K g"
    "t \<in> set (iu_topics u) \<Longrightarrow> set (tp_prerequisites t) \<subseteq> K"
proof -
  show "agenda_fits (ex_answers x) K g" if "g \<in> set (iu_agenda u)"
  proof -
    have "passes (validate_changes W x u c (merged_topics x u) {} (iu_agenda u))"
      using assms(1) by (simp add: validate_agenda_def Let_def)
    from validate_changes_each [OF this that] show ?thesis
      unfolding K_def using validate_change_fits by blast
  qed
  show "set (tp_prerequisites t) \<subseteq> K" if "t \<in> set (iu_topics u)"
  proof -
    have "distinct (map fst (map (\<lambda>t. (tp_id t, t)) (iu_topics u)))" using assms(2) by (simp add: comp_def)
    from bt_extend_mem [OF this, of "(tp_id t, t)"] that have "(tp_id t, t) \<in> set (merged_topics x u)"
      by (auto simp: merged_topics_def)
    with assms(1) have "passes (validate_prerequisites (merged_topics x u) t)"
      by (auto simp: validate_agenda_def Let_def list_all_iff)
    then have "set (tp_prerequisites t) \<subseteq> dom (map_of (merged_topics x u))"
      by (auto simp: validate_prerequisites_iff)
    then show ?thesis by (simp add: dom_map_of_conv_image_fst merged_topics_keys K_def)
  qed
qed

lemma validate_facts:
  assumes "passes (validate U W x u (ex_comparison x))"
  shows "iu_checkpoint u = ex_checkpoint x" "(iu_next u \<noteq> None) \<noteq> (iu_conclusion u \<noteq> None)"
    "iu_interpretation u = Some ip \<Longrightarrow> \<exists>a. submitted_answer x = Some a \<and> ip_answer ip = ra_id a"
    "refers_to (ex_answers x) (tp_id ` set (iu_topics u) \<union> fst ` set (ex_topics x)) u"
proof -
  let ?K = "tp_id ` set (iu_topics u) \<union> fst ` set (ex_topics x)"
  show "iu_checkpoint u = ex_checkpoint x" "(iu_next u \<noteq> None) \<noteq> (iu_conclusion u \<noteq> None)"
    using assms by (simp_all add: validate_def)
  show "\<exists>a. submitted_answer x = Some a \<and> ip_answer ip = ra_id a" if "iu_interpretation u = Some ip"
    using assms that by (auto simp: validate_def validate_interpretation_def split: option.splits)
  have "passes (validate_topics W x (ex_comparison x) {} (iu_topics u))"
    and agenda: "passes (validate_agenda W x u (ex_comparison x))"
    using assms by (simp_all add: validate_def)
  from validate_topics_distinct [OF this(1)] have distinct: "distinct (map tp_id (iu_topics u))" by simp
  have "qu_topic q \<in> ?K" if "iu_next u = Some q" for q
  proof -
    have "map_of (ex_topics x) (qu_topic q) \<noteq> None \<or> list_ex (\<lambda>t. tp_id t = qu_topic q) (iu_topics u)"
      using assms that by (simp add: validate_def validate_question_def Let_def)
    then show ?thesis by (auto simp: map_of_eq_None_iff list_ex_iff simp del: not_None_eq) (metis image_eqI)
  qed
  with validate_agenda_fits [OF agenda distinct] show "refers_to (ex_answers x) ?K u"
    by (auto simp: refers_to_def)
qed

section \<open>Operations keep the invariant\<close>

lemma find_by_id: "distinct (map ra_id as) \<Longrightarrow> a \<in> set as \<Longrightarrow> find (\<lambda>b. ra_id b = ra_id a) as = Some a"
  by (induction as) auto

lemma find_turn_none: "find P ts = None \<longleftrightarrow> (\<forall>t \<in> set ts. \<not> P t)"
  by (auto simp: find_None_iff)

lemma replayed_stays:
  assumes "replayed x = x" "decided y = decided x" "ex_conversation y = ex_conversation x"
    "\<And>t. t \<in> set (ex_conversation x) \<Longrightarrow> answer_named y (ct_answer t) = answer_named x (ct_answer t)"
  shows "replayed y = y"
proof -
  have "decided (replayed y) = decided (replayed x)" using assms(3,4) by (intro replayed_decided) simp_all
  with assms(1,2) show ?thesis by (simp add: exploration_eq)
qed

lemma replayed_again: "replayed (replayed x) = replayed x"
proof -
  have "decided (replayed (replayed x)) = decided (replayed x)"
    using kept_fields [OF replayed_kept [of x]]
    by (intro replayed_decided) (auto simp: answer_named_def split: option.splits)
  then show ?thesis by (simp add: exploration_eq)
qed

definition with_turn :: "exploration \<Rightarrow> conversation_turn \<Rightarrow> exploration" where
  "with_turn x t = absorb_turn (x\<lparr>ex_conversation := ex_conversation x @ [t]\<rparr>) t"

lemma with_turn_fields [simp]:
  "ex_conversation (with_turn x t) = ex_conversation x @ [t]" "ex_answers (with_turn x t) = ex_answers x"
  "ex_instance (with_turn x t) = ex_instance x" "ex_comparison (with_turn x t) = ex_comparison x"
  "ex_outstanding (with_turn x t) = ex_outstanding x" "ex_retry (with_turn x t) = ex_retry x"
  by (simp_all add: with_turn_def absorb_turn_def absorb_eq)

lemma answer_named_cong: "ex_answers z = ex_answers x \<Longrightarrow> answer_named z = answer_named x"
  by (rule ext) (simp add: answer_named_def split: option.splits)

lemma replayed_with_turn:
  assumes "replayed x = x"
  shows "replayed (with_turn x t) = with_turn x t"
proof -
  let ?x = "x\<lparr>ex_conversation := ex_conversation x @ [t]\<rparr>" and ?y = "with_turn x t"
  let ?fold = "\<lambda>z. foldl absorb_turn (blank_interview z) (ex_conversation x)"
  have blank: "ex_answers (blank_interview z) = ex_answers z" for z by (simp add: blank_interview_def)
  have "answer_named (blank_interview ?y) = answer_named (blank_interview x)"
    by (intro answer_named_cong) (simp add: blank)
  then have "decided (?fold ?y) = decided (?fold x)"
    by (intro decided_absorb_turns) (simp_all add: decided_def blank_interview_def)
  also have "\<dots> = decided ?x"
    using assms by (simp add: replayed_def decided_def)
  finally have folded: "decided (?fold ?y) = decided ?x" .
  have "answer_named (?fold ?y) = answer_named ?x"
    by (intro answer_named_cong) (simp add: blank)
  with decided_absorb [OF folded] have "decided (replayed ?y) = decided (absorb_turn ?x t)"
    by (simp add: replayed_def absorb_turn_def)
  then show ?thesis by (simp add: exploration_eq with_turn_def)
qed

lemma interview_facts:
  assumes "interview_ok x"
  shows "told (ex_instance x) (ex_checkpoint x) (ex_answers x) (ex_conversation x)" "replayed x = x" "requests_ok x"
    "fst ` set (ex_topics x) = topic_ids (ex_conversation x)"
  using assms replayed_leaves(2) [of x] by (simp_all add: interview_ok_def topic_ids_def)

lemma answer_named_latest:
  assumes "interview_ok x"
  shows "answer_named x (map_option ra_id (latest_answer x)) = latest_answer x"
  using told_distinct [OF interview_facts(1) [OF assms]] find_by_id [of "ex_answers x" "last (ex_answers x)"]
  by (auto simp: answer_named_def latest_answer_def)

lemma last_id_latest: "last_id (ex_answers x) = map_option ra_id (latest_answer x)"
  by (simp add: last_id_def latest_answer_def)

lemma submit_turn:
  assumes "interview_ok x" "submit U W u x = (Inr True, y)"
  obtains r where "ex_outstanding x = Some r" "tr_request r = iu_request u" "passes (validate U W x u (ex_comparison x))"
    "iu_instance u = ex_instance x" "turn_of x (iu_request u) = None" "tr_answer r = latest_answer x"
    "y = (with_turn x \<lparr>ct_answer = map_option ra_id (latest_answer x), ct_update = u, ct_revision = None\<rparr>)
       \<lparr>ex_outstanding := None, ex_retry := None\<rparr>"
proof -
  from assms(2) obtain r where r: "ex_outstanding x = Some r" "tr_request r = iu_request u"
    "passes (validate U W x u (ex_comparison x))" "iu_instance u = ex_instance x" "turn_of x (iu_request u) = None"
    "y = (absorb u (tr_answer r) (push_turn (map_option ra_id (tr_answer r)) u None x))
      \<lparr>ex_outstanding := None, ex_retry := None\<rparr>"
    by (auto simp: submit_def apply_turn_def passes_iff split: if_splits option.splits sum.splits)
  have "tr_answer r = latest_answer x"
    using interview_facts(3) [OF assms(1)] r(1) by (auto simp: requests_ok_def)
  moreover have "answer_named (x\<lparr>ex_conversation := ts\<rparr>) = answer_named x" for ts
    by (rule answer_named_cong) simp
  ultimately show ?thesis
    using that r answer_named_latest [OF assms(1)]
    by (simp add: with_turn_def absorb_turn_def push_turn_def)
qed

lemma submit_keeps:
  assumes "interview_ok x" "submit U W u x = (Inr b, y)"
  shows "interview_ok y"
proof (cases b)
  case False
  with assms have "y = x"
    by (auto simp: submit_def apply_turn_def split: if_splits option.splits sum.splits)
  with assms(1) show ?thesis by simp
next
  case True
  note facts = interview_facts [OF assms(1)]
  let ?t = "\<lparr>ct_answer = map_option ra_id (latest_answer x), ct_update = u, ct_revision = None\<rparr>"
  from True assms(2) have "submit U W u x = (Inr True, y)" by simp
  from submit_turn [OF assms(1) this] obtain r where
    r: "ex_outstanding x = Some r" "passes (validate U W x u (ex_comparison x))"
    "iu_instance u = ex_instance x" "turn_of x (iu_request u) = None" "tr_answer r = latest_answer x"
    and y: "y = (with_turn x ?t)\<lparr>ex_outstanding := None, ex_retry := None\<rparr>" by metis
  note valid = validate_facts [OF r(2)]
  have submitted: "submitted_answer x = latest_answer x" using r(1,5) by (simp add: submitted_answer_def)
  have "turn_fits (ex_instance x) (ex_checkpoint x) (ex_answers x) (ex_conversation x) ?t"
    using r(3,4) valid(1,3,4) submitted facts(4)
    by (auto simp: turn_fits_def turn_of_def find_turn_none Un_commute)
  moreover have "\<forall>a. ct_answer ?t = Some a \<longrightarrow> Some a \<notin> ct_answer ` set (ex_conversation x)"
    using facts(3) r(1,5) by (auto simp: requests_ok_def)
  ultimately have "told (ex_instance x) (ex_checkpoint x) (ex_answers x) (ex_conversation x @ [?t])"
    by (intro told_turn facts(1)) (simp_all add: last_id_latest)
  moreover have "replayed y = y"
    by (rule replayed_stays [OF replayed_with_turn [OF facts(2), of ?t]])
      (simp_all add: y decided_def answer_named_def cong: option.case_cong)
  ultimately show ?thesis
    using assms(1) by (simp add: interview_ok_def y requests_ok_def ex_checkpoint_def)
qed

text \<open>A revision is a turn of the question it revises.\<close>

lemma absorb_undecided: "iu_interpretation u = None \<Longrightarrow> absorb u a x = absorb u b x"
  by (simp add: absorb_eq decided_topics_def decided_interpretations_def)

lemma revise_turn:
  assumes "revise U W request_id v x = (Inr True, y)"
  obtains previous u where "ex_conversation x \<noteq> []" "previous = last (ex_conversation x)" "ex_outstanding x = None" "ex_retry x = None"
    "u = revised_update request_id (qr_question v) (qr_glossary v) (ct_update previous)"
    "passes (validate U W x (u\<lparr>iu_reviewed := [], iu_reopened := []\<rparr>) (ex_comparison x))"
    "y = with_turn x \<lparr>ct_answer = ct_answer previous, ct_update = u, ct_revision = Some (qr_revision v)\<rparr>"
proof -
  let ?p = "last (ex_conversation x)"
  let ?u = "revised_update request_id (qr_question v) (qr_glossary v) (ct_update ?p)"
  from assms have r: "ex_conversation x \<noteq> []" "ex_outstanding x = None" "ex_retry x = None"
    "passes (validate U W x (?u\<lparr>iu_reviewed := [], iu_reopened := []\<rparr>) (ex_comparison x))"
    "y = absorb ?u None (push_turn (ct_answer ?p) ?u (Some (qr_revision v)) x)"
    by (auto simp: revise_def revise_open_def Let_def also_check_def ensure_def passes_iff
        split: if_splits option.splits sum.splits)
  have "iu_interpretation ?u = None" by (simp add: revised_update_def)
  with r(5) have "y = with_turn x \<lparr>ct_answer = ct_answer ?p, ct_update = ?u, ct_revision = Some (qr_revision v)\<rparr>"
    using absorb_undecided [of ?u] by (simp add: with_turn_def absorb_turn_def push_turn_def)
  with r that show ?thesis by blast
qed

lemma revise_keeps:
  assumes "interview_ok x" "revise U W request_id v x = (Inr b, y)" "turn_of x request_id = None"
  shows "interview_ok y"
proof (cases b)
  case False
  with assms have "y = x"
    by (auto simp: revise_def revise_open_def Let_def split: if_splits option.splits sum.splits)
  with assms(1) show ?thesis by simp
next
  case True
  note facts = interview_facts [OF assms(1)]
  from True assms(2) have "revise U W request_id v x = (Inr True, y)" by simp
  from revise_turn [OF this] obtain previous u where
    r: "ex_conversation x \<noteq> []" "previous = last (ex_conversation x)" "ex_outstanding x = None" "ex_retry x = None"
      "u = revised_update request_id (qr_question v) (qr_glossary v) (ct_update previous)"
    and valid: "passes (validate U W x (u\<lparr>iu_reviewed := [], iu_reopened := []\<rparr>) (ex_comparison x))"
    and y: "y = with_turn x \<lparr>ct_answer = ct_answer previous, ct_update = u, ct_revision = Some (qr_revision v)\<rparr>" .
  let ?t = "\<lparr>ct_answer = ct_answer previous, ct_update = u, ct_revision = Some (qr_revision v)\<rparr>"
  have u: "iu_topics u = []" "iu_agenda u = []" "iu_interpretation u = None" "iu_request u = request_id"
    "iu_next u = Some (qr_question v)" "iu_instance u = iu_instance (ct_update previous)"
    by (simp_all add: r(5) revised_update_def)
  have "previous \<in> set (ex_conversation x)" using r(1,2) by simp
  then have "iu_instance u = ex_instance x" using told_identities [OF facts(1)] u(6) by simp
  then have "turn_fits (ex_instance x) (ex_checkpoint x) (ex_answers x) (ex_conversation x) ?t"
    using validate_facts(1,4) [OF valid] facts(4) assms(3) u
    by (auto simp: turn_fits_def turn_of_def find_turn_none refers_to_def)
  moreover have "iu_conclusion u = None" using validate_facts(2) [OF valid] u by simp
  ultimately have "told (ex_instance x) (ex_checkpoint x) (ex_answers x) (ex_conversation x @ [?t])"
    using r(1,2) u by (intro told_revision facts(1)) simp_all
  moreover have "replayed y = y" unfolding y by (rule replayed_with_turn [OF facts(2)])
  ultimately show ?thesis
    using assms(1) r(3,4) by (simp add: interview_ok_def y requests_ok_def ex_checkpoint_def)
qed

text \<open>Recording an answer, and the request that carries it.\<close>

lemma record_answer_facts:
  assumes "interview_ok x" "record_answer i input question x = (Inr a, y)"
  shows "\<exists>t. turn_named (ex_conversation x) (ra_in_reply_to a) = Some t \<and> replies_to a t"
    "option_ok a" "ra_checkpoint a = ex_checkpoint x" "ra_id a = i" "ra_question a = question"
proof -
  from assms(2) obtain t picked where
    t: "context_turn x input question = Some t" "picked_option input question = Inr picked"
    and a: "a = \<lparr>ra_id = i, ra_checkpoint = ex_checkpoint x, ra_question = question,
        ra_in_reply_to = iu_request (ct_update t), ra_option = picked, ra_text = ai_text input,
        ra_author = ''reviewer'', ra_first_pick = ai_first_pick input,
        ra_drawing_board = (ai_drawing_board input \<or> replies_at_drawing_board x t question)\<rparr>"
    by (auto simp: record_answer_def Let_def split: option.splits sum.splits)
  from t(1) have "t \<in> set (ex_conversation x)" and replies: "replies_to a t"
    by (auto simp: context_turn_def find_Some_iff replies_to_def a split: option.splits)
      (metis nth_mem length_rev set_rev)+
  moreover have "find (\<lambda>s. iu_request (ct_update s) = iu_request (ct_update t)) ts = Some t"
    if "distinct (map (\<lambda>t. iu_request (ct_update t)) ts)" "t \<in> set ts" for ts
    using that by (induction ts) auto
  ultimately show "\<exists>t. turn_named (ex_conversation x) (ra_in_reply_to a) = Some t \<and> replies_to a t"
    using told_distinct [OF interview_facts(1) [OF assms(1)]] by (auto simp: turn_named_def a)
  show "option_ok a"
    using t(2) by (auto simp: option_ok_def a picked_option_def choice_def find_Some_iff
        split: option.splits)
  show "ra_checkpoint a = ex_checkpoint x" "ra_id a = i" "ra_question a = question" by (simp_all add: a)
qed

lemma answer_keeps:
  assumes "interview_ok x" "record_answer i input question x = (Inr e, y)" "a = e\<lparr>ra_id := ra_id a\<rparr>"
    "\<not> knows_answer x (ra_id a)" "tr_answer r = Some a" "tr_instance r = ex_instance x"
    "tr_checkpoint r = ex_checkpoint x"
  shows "interview_ok (x\<lparr>ex_cancelled := cs, ex_answers := ex_answers x @ [a], ex_outstanding := Some r, ex_retry := Some r\<rparr>)"
    (is "interview_ok ?y")
proof -
  note facts = interview_facts [OF assms(1)]
  note e = record_answer_facts [OF assms(1,2)]
  have fields: "ra_in_reply_to a = ra_in_reply_to e" "ra_checkpoint a = ra_checkpoint e" "ra_question a = ra_question e"
    "ra_option a = ra_option e"
    by (subst assms(3), simp)+
  then have eq: "ra_in_reply_to a = ra_in_reply_to e" "ra_checkpoint a = ra_checkpoint e" "option_ok a = option_ok e"
    "replies_to a = replies_to e"
    by (simp_all add: option_ok_def replies_to_def fun_eq_iff cong: option.case_cong)
  have new: "ra_id a \<notin> answer_ids (ex_answers x)" using assms(4) by (simp add: knows_answer_iff)
  obtain t where "turn_named (ex_conversation x) (ra_in_reply_to a) = Some t" "replies_to a t"
    using e(1) eq by auto
  with facts(1) new e(2,3) eq have "told (ex_instance x) (ex_checkpoint x) (ex_answers x @ [a]) (ex_conversation x)"
    by (intro told_answer) simp_all
  moreover have follow: "i \<in> answer_ids (ex_answers x)" if "t \<in> set (ex_conversation x)" "ct_answer t = Some i" for t i
    using told_turns_follow [OF facts(1) that] .
  have "replayed ?y = ?y"
  proof (rule replayed_stays [OF facts(2)])
    fix t
    assume t: "t \<in> set (ex_conversation x)"
    have "find (\<lambda>b. ra_id b = i) (ex_answers x) \<noteq> None" if "ct_answer t = Some i" for i
    proof -
      from follow [OF t that] obtain b where "b \<in> set (ex_answers x)" "ra_id b = i"
        by (auto simp: answer_ids_def)
      then show ?thesis by (subst find_None_iff) auto
    qed
    then show "answer_named ?y (ct_answer t) = answer_named x (ct_answer t)"
      by (cases "ct_answer t") (auto simp: answer_named_def find_appended)
  qed (simp_all add: decided_def)
  moreover have "Some (ra_id a) \<notin> ct_answer ` set (ex_conversation x)"
    using follow new by auto
  ultimately show ?thesis
    using assms(1,5-) by (simp add: interview_ok_def requests_ok_def ex_checkpoint_def latest_answer_def)
qed

lemma kickoff_keeps:
  assumes "interview_ok x" "ex_answers x = []" "tr_answer r = None" "tr_instance r = ex_instance x"
    "tr_checkpoint r = ex_checkpoint x"
  shows "interview_ok (x\<lparr>ex_cancelled := cs, ex_outstanding := Some r, ex_retry := Some r\<rparr>)" (is "interview_ok ?y")
proof -
  have "replayed ?y = ?y"
    by (rule replayed_stays [OF interview_facts(2) [OF assms(1)]])
      (simp_all add: decided_def answer_named_def cong: option.case_cong)
  with assms show ?thesis
    by (simp add: interview_ok_def requests_ok_def ex_checkpoint_def latest_answer_def)
qed

text \<open>Taking back the latest answer.\<close>

lemma drop_request_idle:
  assumes "interview_ok x" "ex_answers x \<noteq> []" "i = ra_id (last (ex_answers x))"
  shows "drop_request i (x\<lparr>ex_answers := as\<rparr>) = x\<lparr>ex_answers := as, ex_outstanding := None, ex_retry := None\<rparr>"
proof (cases "ex_retry x")
  case None
  then have "ex_outstanding x = None"
    using interview_facts(3) [OF assms(1)] by (cases "ex_outstanding x") (auto simp: requests_ok_def)
  with None show ?thesis
    by (simp add: drop_request_def carrying_request_def carries_def)
next
  case (Some r)
  then have "carries i (ex_retry x)"
    using interview_facts(3) [OF assms(1)] assms(2,3) by (simp add: requests_ok_def carries_def latest_answer_def)
  then have "carrying_request i (x\<lparr>ex_answers := as\<rparr>) \<noteq> None"
    by (auto simp: carrying_request_def carries_def split: option.splits)
  then show ?thesis by (auto simp: drop_request_def)
qed

lemma replay_fields [simp]:
  "ex_conversation (replay_turns x) = ex_conversation x" "ex_outstanding (replay_turns x) = ex_outstanding x"
  "ex_retry (replay_turns x) = ex_retry x" "ex_instance (replay_turns x) = ex_instance x" "ex_comparison (replay_turns x) = ex_comparison x"
  "ex_cancelled (replay_turns x) = ex_cancelled x"
  using kept_fields [OF replayed_kept [of x]]
  by (simp_all add: replay_turns_def forget_quiz_answers_def forget_diagram_errors_def)

lemma drop_turns_fields [simp]:
  "ex_conversation (drop_turns i x) = filter (\<lambda>t. ct_answer t \<noteq> Some i) (ex_conversation x)"
  "ex_answers (drop_turns i x) = ex_answers x" "ex_outstanding (drop_turns i x) = ex_outstanding x"
  "ex_retry (drop_turns i x) = ex_retry x" "ex_instance (drop_turns i x) = ex_instance x"
  "ex_comparison (drop_turns i x) = ex_comparison x"
proof -
  have "filter (\<lambda>t. ct_answer t \<noteq> Some i) (ex_conversation x) = ex_conversation x" if "turn_after x i = None"
    using that by (auto simp: turn_after_def find_turn_none intro!: filter_True)
  then show "ex_conversation (drop_turns i x) = filter (\<lambda>t. ct_answer t \<noteq> Some i) (ex_conversation x)"
    by (simp add: drop_turns_def)
qed (simp_all add: drop_turns_def)

lemma replayed_replay: "replayed (replay_turns x) = replay_turns x"
  by (rule replayed_stays [OF replayed_again [of x]])
    (simp_all add: replay_turns_def forget_quiz_answers_def forget_diagram_errors_def decided_def answer_named_def
      cong: option.case_cong)

lemma answer_named_butlast:
  assumes "ex_answers x \<noteq> []" "ex_answers y = butlast (ex_answers x)" "j \<noteq> Some (ra_id (last (ex_answers x)))"
  shows "answer_named y j = answer_named x j"
proof (cases j)
  case (Some k)
  have "find (\<lambda>a. ra_id a = k) (ex_answers x) =
      find (\<lambda>a. ra_id a = k) (butlast (ex_answers x) @ [last (ex_answers x)])"
    using assms(1) by simp
  with Some assms show ?thesis
    by (simp add: answer_named_def find_appended del: append_butlast_last_id split: option.splits)
qed (simp add: answer_named_def)

lemma replayed_drop_turns:
  assumes "replayed x = x" "ex_answers x \<noteq> []" "i = ra_id (last (ex_answers x))"
    "ex_answers y = butlast (ex_answers x)" "decided y = decided x" "ex_conversation y = ex_conversation x"
  shows "replayed (drop_turns i y) = drop_turns i y"
proof (cases "turn_after y i = None")
  case True
  have "replayed y = y"
  proof (rule replayed_stays [OF assms(1,5,6)])
    fix t
    assume "t \<in> set (ex_conversation x)"
    then have "ct_answer t \<noteq> Some i" using True assms(6) by (auto simp: turn_after_def find_turn_none)
    then show "answer_named y (ct_answer t) = answer_named x (ct_answer t)"
      using assms(2-4) by (intro answer_named_butlast) simp_all
  qed
  with True show ?thesis by (simp add: drop_turns_def)
next
  case False
  then show ?thesis by (auto simp: drop_turns_def replayed_replay)
qed

lemma withdraw_eq:
  assumes "interview_ok x" "ex_answers x \<noteq> []" "i = ra_id (last (ex_answers x))"
  shows "ex_outstanding (withdraw i x) = None" "ex_retry (withdraw i x) = None"
    "ex_conversation (withdraw i x) = filter (\<lambda>t. ct_answer t \<noteq> Some i) (ex_conversation x)"
    "ex_instance (withdraw i x) = ex_instance x" "ex_comparison (withdraw i x) = ex_comparison x"
    "replayed (withdraw i x) = withdraw i x"
proof -
  let ?y = "x\<lparr>ex_answers := butlast (ex_answers x), ex_outstanding := None, ex_retry := None\<rparr>"
  obtain cs where w: "withdraw i x = (drop_turns i ?y)\<lparr>ex_cancelled := cs\<rparr>"
    using drop_request_idle [OF assms] by (simp add: withdraw_def Let_def)
  then show "ex_outstanding (withdraw i x) = None" "ex_retry (withdraw i x) = None"
    "ex_conversation (withdraw i x) = filter (\<lambda>t. ct_answer t \<noteq> Some i) (ex_conversation x)"
    "ex_instance (withdraw i x) = ex_instance x" "ex_comparison (withdraw i x) = ex_comparison x"
    by simp_all
  have "replayed (drop_turns i ?y) = drop_turns i ?y"
    using interview_facts(2) [OF assms(1)] assms(2,3) by (rule replayed_drop_turns) (simp_all add: decided_def)
  then show "replayed (withdraw i x) = withdraw i x"
    unfolding w by (rule replayed_stays) (simp_all add: decided_def answer_named_def cong: option.case_cong)
qed

lemma withdraw_keeps:
  assumes "interview_ok x" "ex_answers x \<noteq> []" "i = ra_id (last (ex_answers x))"
  shows "interview_ok (withdraw i x)"
proof -
  note w = withdraw_eq [OF assms]
  have "ex_answers x = butlast (ex_answers x) @ [last (ex_answers x)]" using assms(2) by simp
  from told_without_latest [OF interview_facts(1) [OF assms(1)] this, folded assms(3)]
  have "told (ex_instance x) (ex_checkpoint x) (butlast (ex_answers x)) (ex_conversation (withdraw i x))"
    by (simp only: w(3))
  with w assms(1) show ?thesis by (simp add: interview_ok_def requests_ok_def ex_checkpoint_def)
qed

text \<open>Operations that change neither the answers nor the turns.\<close>

lemma unread_keeps:
  assumes "interview_ok x" "decided y = decided x" "ex_conversation y = ex_conversation x" "ex_answers y = ex_answers x"
    "ex_instance y = ex_instance x" "ex_comparison y = ex_comparison x" "requests_ok y"
  shows "interview_ok y"
proof -
  have "replayed y = y"
    by (rule replayed_stays [OF interview_facts(2) [OF assms(1)] assms(2,3)])
      (simp add: answer_named_cong [OF assms(4)])
  with assms show ?thesis by (simp add: interview_ok_def ex_checkpoint_def)
qed

lemma cancel_keeps: "interview_ok x \<Longrightarrow> interview_ok (cancel x)"
  by (rule unread_keeps [where x = x])
    (auto simp: cancel_def decided_def requests_ok_def ex_checkpoint_def latest_answer_def dest: interview_facts(3))

lemma failed_keeps: "interview_ok x \<Longrightarrow> interview_ok (snd (failed r e x))"
  by (rule unread_keeps [where x = x])
    (auto simp: failed_def decided_def requests_ok_def ex_checkpoint_def latest_answer_def dest: interview_facts(3))

lemma record_diagram_error_keeps: "interview_ok x \<Longrightarrow> interview_ok (snd (record_diagram_error e x))"
  by (rule unread_keeps [where x = x])
    (auto simp: record_diagram_error_def decided_def requests_ok_def ex_checkpoint_def latest_answer_def
      split: prod.splits dest: interview_facts(3))

lemma answer_quiz_keeps: "interview_ok x \<Longrightarrow> interview_ok (snd (answer_quiz c r x))"
  by (rule unread_keeps [where x = x])
    (auto simp: answer_quiz_def Let_def decided_def requests_ok_def ex_checkpoint_def latest_answer_def
      split: prod.splits dest: interview_facts(3))

lemma elapsed_keeps: "interview_ok x \<Longrightarrow> interview_ok (x\<lparr>ex_elapsed := m\<rparr>)"
  by (rule unread_keeps [where x = x])
    (auto simp: decided_def requests_ok_def ex_checkpoint_def latest_answer_def dest: interview_facts(3))

lemma new_interview_ok:
  assumes "instance_id \<noteq> []" "manifest_ok c"
  shows "interview_ok ((choose_start ch (exploration_new instance_id c))\<lparr>ex_writing := style\<rparr>)" (is "interview_ok ?x")
proof -
  have "ex_conversation ?x = []" "ex_answers ?x = []" "ex_retry ?x = None" "ex_outstanding ?x = None"
    "ex_instance ?x = instance_id" "ex_comparison ?x = c"
    by (simp_all add: choose_start_def exploration_new_def)
  moreover have "replayed ?x = ?x"
    by (simp add: exploration_eq) (simp add: replayed_def decided_def blank_interview_def choose_start_def exploration_new_def)
  ultimately show ?thesis
    using assms by (simp add: interview_ok_def requests_ok_def told_nothing)
qed

end
