(* ===== verification/ExploreDurable.thy ===== *)
theory ExploreDurable
  imports ExploreRounds Delivery
begin

text \<open>
  The saved round (crates/review-explore/src: durable.rs, cancel.rs, recovery.rs, implementation_state.rs, and
  dispatch.rs of crates/review-explore-session): the interview together with what the dispatcher knows of each
  request, the requests to implement a conclusion, and the review marks each turn applied.

  The time and the fresh identities are arguments. An operation that fails returns its error and the round as it left
  it; the caller that saves rounds drops a round whose operation failed.
\<close>

section \<open>What the dispatcher knows of a request\<close>

datatype dispatch_state =
  Queued | Attempting | Delivered | NotStarted | NotSent bytes | DispatchCancelled | OutcomeUnknown

definition recovered :: "dispatch_state \<Rightarrow> dispatch_state" where
  "recovered s = (if s = Attempting then OutcomeUnknown else s)"

definition never_delivered :: "dispatch_state \<Rightarrow> bool" where
  "never_delivered s \<longleftrightarrow> (case s of NotSent _ \<Rightarrow> True | DispatchCancelled \<Rightarrow> True | _ \<Rightarrow> False)"

definition may_retry :: "dispatch_state \<Rightarrow> bool" where
  "may_retry s \<longleftrightarrow>
     (case s of Queued \<Rightarrow> True | NotStarted \<Rightarrow> True | NotSent _ \<Rightarrow> True | DispatchCancelled \<Rightarrow> True | _ \<Rightarrow> False)"

text \<open>What a prompt's result tells (\<open>DurableDispatch::outcome\<close>).\<close>

definition dispatch_outcome :: "prompt_result \<Rightarrow> dispatch_state" where
  "dispatch_outcome r =
     (case r of
        Inr _ \<Rightarrow> Delivered
      | Inl PromptCancelled \<Rightarrow> DispatchCancelled
      | Inl PromptNotStarted \<Rightarrow> NotStarted
      | Inl (PromptDelivery e) \<Rightarrow> NotSent e
      | Inl (PromptBlocked l) \<Rightarrow> NotSent (prompt_error_text (PromptBlocked l))
      | Inl (PromptUnknown _) \<Rightarrow> OutcomeUnknown)"

datatype implementation_state =
  Sending | Sent | Paused | ImplementationUnknown | ImplementationNotStarted | ImplementationNotSent bytes |
  ImplementationCancelled

definition implementation_state_of :: "dispatch_state \<Rightarrow> bool \<Rightarrow> implementation_state" where
  "implementation_state_of s sending =
     (case s of
        Queued \<Rightarrow> if sending then Sending else Paused
      | Attempting \<Rightarrow> if sending then Sending else ImplementationUnknown
      | OutcomeUnknown \<Rightarrow> ImplementationUnknown
      | Delivered \<Rightarrow> Sent
      | NotStarted \<Rightarrow> ImplementationNotStarted
      | NotSent e \<Rightarrow> ImplementationNotSent e
      | DispatchCancelled \<Rightarrow> ImplementationCancelled)"

definition allows_another :: "implementation_state \<Rightarrow> bool" where
  "allows_another s \<longleftrightarrow>
     (case s of
        Paused \<Rightarrow> True | ImplementationUnknown \<Rightarrow> True | ImplementationNotSent _ \<Rightarrow> True
      | ImplementationCancelled \<Rightarrow> True | _ \<Rightarrow> False)"

record conversation_binding =
  cb_agent :: "bytes option"
  cb_session :: agent_session

definition binding_of :: "agent \<Rightarrow> conversation_binding option" where
  "binding_of a = map_option (\<lambda>s. \<lparr>cb_agent = ag_agent a, cb_session = s\<rparr>) (ag_session a)"

definition binding_matches :: "conversation_binding \<Rightarrow> agent \<Rightarrow> bool" where
  "binding_matches b a \<longleftrightarrow>
     cb_agent b = ag_agent a \<and>
     (case ag_session a of
        None \<Rightarrow> False
      | Some s \<Rightarrow> as_agent (cb_session b) = as_agent s \<and> as_kind (cb_session b) = as_kind s \<and>
          as_value (cb_session b) = as_value s)"

section \<open>The round\<close>

record implementation_delivery =
  im_authorized_at :: nat
  im_attempt :: bytes
  im_request :: implementation_request
  im_state :: dispatch_state
  im_sent_at :: "nat option"

datatype dispatch_id = InterviewDispatch bytes bytes | ImplementationDispatch bytes bytes

record dispatch_result =
  ds_id :: dispatch_id
  ds_began :: bool
  ds_state :: dispatch_state

record interview_delivery =
  dv_attempt :: bytes
  dv_editor_sequence :: "nat option"
  dv_request :: turn_request
  dv_state :: dispatch_state
  dv_started_at :: "nat option"
  dv_diverged :: "bytes list"

record review_completion =
  cn_request :: bytes
  cn_baseline :: bytes

record reopened_lines =
  ro_location :: code_location
  ro_author :: mark_author

record turn_marks =
  tm_answer :: "bytes option"
  tm_reviewed :: "code_location list"
  tm_not_relevant :: "not_relevant_mark list"
  tm_reopened :: "reopened_lines list"
  tm_problem :: "bytes option"

record explore_round =
  er_revision :: nat
  er_exploration :: exploration
  er_last_session :: "conversation_binding option"
  er_turns :: "(bytes \<times> interview_delivery) list"
  er_implementations :: "(bytes \<times> implementation_delivery) list"
  er_completion :: "review_completion option"
  er_marks :: "(bytes \<times> turn_marks) list"

type_synonym 'a round_op = "(explore_round, bytes, 'a) fallible"

definition round_new :: "exploration \<Rightarrow> explore_round" where
  "round_new x =
     \<lparr>er_revision = 0, er_exploration = x, er_last_session = None, er_turns = [], er_implementations = [],
      er_completion = None, er_marks = []\<rparr>"

definition round_is_at :: "explore_round \<Rightarrow> snapshot_identity \<Rightarrow> bool" where
  "round_is_at s i \<longleftrightarrow> checkpoint_matches (ex_checkpoint (er_exploration s)) (review_unit i) (snapshot_id i)"

text \<open>Who holds the lines a turn's marks applied.\<close>

definition marks_author :: "turn_marks \<Rightarrow> bytes \<Rightarrow> mark_author" where
  "marks_author m request_id = (case tm_answer m of Some a \<Rightarrow> Explore a | None \<Rightarrow> ExploreRead request_id)"

text \<open>The review marks that the answers which \<open>applied\<close> selects applied, in the order of the turns.\<close>

definition marks_applied_by :: "explore_round \<Rightarrow> (reviewer_answer \<Rightarrow> bool) \<Rightarrow> turn_marks list" where
  "marks_applied_by s applied =
     filter (\<lambda>m. case tm_answer m of None \<Rightarrow> False
         | Some i \<Rightarrow> list_ex (\<lambda>a. ra_id a = i \<and> applied a) (ex_answers (er_exploration s)))
       (List.map_filter (\<lambda>t. map_of (er_marks s) (iu_request (ct_update t))) (ex_conversation (er_exploration s)))"

section \<open>Posting, submitting and revising\<close>

definition round_submit :: "unicode \<Rightarrow> worktree \<Rightarrow> nat \<Rightarrow> interview_update \<Rightarrow> bool round_op" where
  "round_submit U W now u s =
     (case submit U W u (er_exploration s) of
        (Inl e, _) \<Rightarrow> (Inl e, s)
      | (Inr False, _) \<Rightarrow> (Inr False, s)
      | (Inr True, x) \<Rightarrow>
          (Inr True, s\<lparr>er_exploration :=
             (case Option.bind (map_of (er_turns s) (iu_request u)) dv_started_at of
                None \<Rightarrow> x
              | Some started \<Rightarrow> x\<lparr>ex_elapsed := bt_insert (iu_request u) (now - started) (ex_elapsed x)\<rparr>)\<rparr>))"

definition repost :: "bytes \<Rightarrow> turn_request \<Rightarrow> interview_delivery \<Rightarrow> bool round_op" where
  "repost attempt_id r previous s =
     (let x = er_exploration s in
      case checks
        [ensure ((case ex_retry x of None \<Rightarrow> False | Some q \<Rightarrow> tr_request q = tr_request r) \<and>
            (case ex_outstanding x of None \<Rightarrow> True | Some q \<Rightarrow> tr_request q = tr_request r))
           ''This interrupted turn has been superseded; restore the latest question'',
         ensure (tr_answer (dv_request previous) = tr_answer r \<and> tr_checkpoint (dv_request previous) = tr_checkpoint r)
           ''This turn identity already has different content'',
         ensure (turn_of x (tr_request r) = None)
           ''The response is already saved; restore it instead of sending again''] of
        Inl e \<Rightarrow> (Inl e, s)
      | Inr _ \<Rightarrow>
          (Inr False, s\<lparr>
             er_turns := bt_insert (tr_request r)
               (previous\<lparr>dv_attempt := attempt_id, dv_state := Queued, dv_request := r, dv_started_at := None\<rparr>) (er_turns s),
             er_exploration := x\<lparr>ex_outstanding := Some r, ex_retry := Some r\<rparr>\<rparr>))"

definition input_of :: "reviewer_answer \<Rightarrow> answer_input" where
  "input_of a =
     \<lparr>ai_option = map_option ch_id (ra_option a), ai_text = ra_text a, ai_in_reply_to = Some (ra_in_reply_to a),
      ai_first_pick = ra_first_pick a, ai_drawing_board = ra_drawing_board a\<rparr>"

text \<open>The answer of a post is what the round itself would record for it, but for its identity.\<close>

definition accept_answer :: "reviewer_answer option \<Rightarrow> reviewer_answer option \<Rightarrow> unit round_op" where
  "accept_answer expected posted_answer s =
     (case (expected, posted_answer) of
        (Some e, Some a) \<Rightarrow>
          (let x = er_exploration s in
           case checks
             [ensure (e\<lparr>ra_id := ra_id a\<rparr> = a) ''Answer content does not match the displayed question'',
              ensure (\<not> knows_answer x (ra_id a)) ''Answer identity already used''] of
             Inl err \<Rightarrow> (Inl err, s)
           | Inr _ \<Rightarrow> (Inr (), s\<lparr>er_exploration := x\<lparr>ex_answers := ex_answers x @ [a]\<rparr>\<rparr>))
      | _ \<Rightarrow> (Inr (), s))"

definition enqueue :: "bytes \<Rightarrow> turn_request \<Rightarrow> bool round_op" where
  "enqueue attempt_id r s =
     (Inr True, s\<lparr>
        er_exploration := (er_exploration s)\<lparr>ex_outstanding := Some r, ex_retry := Some r\<rparr>,
        er_turns := bt_insert (tr_request r)
          \<lparr>dv_attempt = attempt_id, dv_editor_sequence = None, dv_request = r, dv_state = Queued, dv_started_at = None,
           dv_diverged = []\<rparr> (er_turns s)\<rparr>)"

definition post_new :: "bytes \<Rightarrow> bytes \<Rightarrow> bytes \<Rightarrow> turn_request \<Rightarrow> bool round_op" where
  "post_new answer_id request_id attempt_id r s =
     (case make_request answer_id request_id (map_option input_of (tr_answer r)) (Option.bind (tr_answer r) ra_question)
         (er_exploration s) of
        (Inl e, _) \<Rightarrow> (Inl e, s)
      | (Inr validated, _) \<Rightarrow>
          if tr_cancelled validated \<noteq> tr_cancelled r
          then (Inl ''This turn does not name the answers cancelled since the last one'', s)
          else and_then (accept_answer (tr_answer validated) (tr_answer r)) (\<lambda>_. enqueue attempt_id r)
            (s\<lparr>er_exploration := (er_exploration s)\<lparr>ex_cancelled := []\<rparr>\<rparr>))"

definition post_request :: "bytes \<Rightarrow> bytes \<Rightarrow> bytes \<Rightarrow> turn_request \<Rightarrow> bool round_op" where
  "post_request answer_id request_id attempt_id r s =
     (let x = er_exploration s in
      if tr_instance r \<noteq> ex_instance x \<or> tr_checkpoint r \<noteq> ex_checkpoint x
      then (Inl ''This answer belongs to another Explore round'', s)
      else case map_of (er_turns s) (tr_request r) of
        Some previous \<Rightarrow> repost attempt_id r previous s
      | None \<Rightarrow> post_new answer_id request_id attempt_id r s)"

section \<open>Implementing the conclusion\<close>

definition later_implementation ::
  "implementation_delivery option \<Rightarrow> implementation_delivery \<Rightarrow> implementation_delivery option" where
  "later_implementation best d =
     (case best of None \<Rightarrow> Some d | Some b \<Rightarrow> if im_authorized_at b \<le> im_authorized_at d then Some d else Some b)"

definition latest_implementation :: "explore_round \<Rightarrow> bytes \<Rightarrow> implementation_delivery option" where
  "latest_implementation s conclusion_id =
     foldl later_implementation None
       (filter (\<lambda>d. ir_conclusion (im_request d) = conclusion_id) (map snd (er_implementations s)))"

definition authorize :: "bytes \<Rightarrow> bytes \<Rightarrow> implementation_request \<Rightarrow> bool round_op" where
  "authorize delivery_id attempt_id r s =
     (let x = er_exploration s in
      case checks
        [ensure (er_completion s \<noteq> None) ''Explore has not accepted a conclusion'',
         ensure (ir_instance r = ex_instance x \<and> conclusion_request x = Some (ir_conclusion r))
           ''This conclusion is no longer current'',
         map_sum id (\<lambda>_. ()) (implementation delivery_id (ir_text r) x)] of
        Inl e \<Rightarrow> (Inl e, s)
      | Inr _ \<Rightarrow>
         (case map_of (er_implementations s) (ir_delivery r) of
            Some previous \<Rightarrow>
             (case checks
                [ensure (im_request previous = r) ''Implementation authorization cannot change'',
                 ensure (may_retry (im_state previous)) ''Implementation delivery is already sent or uncertain''] of
                Inl e \<Rightarrow> (Inl e, s)
              | Inr _ \<Rightarrow>
                  (Inr False, s\<lparr>er_implementations :=
                     bt_insert (ir_delivery r) (previous\<lparr>im_attempt := attempt_id, im_state := Queued\<rparr>)
                       (er_implementations s)\<rparr>))
          | None \<Rightarrow>
              (Inr True, s\<lparr>er_implementations :=
                 bt_insert (ir_delivery r)
                   \<lparr>im_authorized_at = er_revision s + 1, im_attempt = attempt_id, im_request = r, im_state = Queued,
                    im_sent_at = None\<rparr> (er_implementations s)\<rparr>)))"

text \<open>The session's guard of a new implementation request (\<open>admit\<close>): another request holds the conclusion when
  the agent received it, or while this process sends it. The last clause is the lookup that the source expects to
  succeed.\<close>

definition held :: "explore_round \<Rightarrow> implementation_request \<Rightarrow> bool \<Rightarrow> bool" where
  "held s r sending \<longleftrightarrow>
     (case latest_implementation s (ir_conclusion r) of
        None \<Rightarrow> False
      | Some latest \<Rightarrow>
          ir_delivery (im_request latest) \<noteq> ir_delivery r \<and>
          (case im_state latest of
             Delivered \<Rightarrow> True | Queued \<Rightarrow> sending | Attempting \<Rightarrow> sending | _ \<Rightarrow> False))"

definition set_queued :: "bytes \<Rightarrow> unit round_op" where
  "set_queued delivery s =
     (case map_of (er_implementations s) delivery of
        None \<Rightarrow> (Inl ''authorized'', s)
      | Some d \<Rightarrow> (Inr (), s\<lparr>er_implementations := bt_insert delivery (d\<lparr>im_state := Queued\<rparr>) (er_implementations s)\<rparr>))"

definition admit :: "bytes \<Rightarrow> bytes \<Rightarrow> implementation_request \<Rightarrow> bool \<Rightarrow> unit round_op" where
  "admit delivery_id attempt_id r sending s =
     (if held s r sending then (Inl ''An implementation request for this conclusion was sent already'', s)
      else and_then (authorize delivery_id attempt_id r) (\<lambda>_. set_queued (ir_delivery r)) s)"

section \<open>Dispatching\<close>

definition state_at :: "dispatch_id \<Rightarrow> explore_round \<Rightarrow> dispatch_state option" where
  "state_at d s =
     (case d of
        InterviewDispatch r a \<Rightarrow>
          (case map_of (er_turns s) r of None \<Rightarrow> None
           | Some v \<Rightarrow> if dv_attempt v = a then Some (dv_state v) else None)
      | ImplementationDispatch r a \<Rightarrow>
          (case map_of (er_implementations s) r of None \<Rightarrow> None
           | Some v \<Rightarrow> if im_attempt v = a then Some (im_state v) else None))"

definition set_state :: "dispatch_id \<Rightarrow> dispatch_state \<Rightarrow> explore_round \<Rightarrow> explore_round" where
  "set_state d st s =
     (case d of
        InterviewDispatch r _ \<Rightarrow>
          (case map_of (er_turns s) r of None \<Rightarrow> s
           | Some v \<Rightarrow> s\<lparr>er_turns := bt_insert r (v\<lparr>dv_state := st\<rparr>) (er_turns s)\<rparr>)
      | ImplementationDispatch r _ \<Rightarrow>
          (case map_of (er_implementations s) r of None \<Rightarrow> s
           | Some v \<Rightarrow> s\<lparr>er_implementations := bt_insert r (v\<lparr>im_state := st\<rparr>) (er_implementations s)\<rparr>))"

definition set_started :: "dispatch_id \<Rightarrow> nat \<Rightarrow> explore_round \<Rightarrow> explore_round" where
  "set_started d now s =
     (case d of
        InterviewDispatch r _ \<Rightarrow>
          (case map_of (er_turns s) r of None \<Rightarrow> s
           | Some v \<Rightarrow> s\<lparr>er_turns := bt_insert r (v\<lparr>dv_started_at := Some now\<rparr>) (er_turns s)\<rparr>)
      | ImplementationDispatch _ _ \<Rightarrow> s)"

definition set_sent :: "dispatch_id \<Rightarrow> nat \<Rightarrow> explore_round \<Rightarrow> explore_round" where
  "set_sent d now s =
     (case d of
        ImplementationDispatch r _ \<Rightarrow>
          (case map_of (er_implementations s) r of None \<Rightarrow> s
           | Some v \<Rightarrow> s\<lparr>er_implementations := bt_insert r (v\<lparr>im_sent_at := Some now\<rparr>) (er_implementations s)\<rparr>)
      | InterviewDispatch _ _ \<Rightarrow> s)"

definition superseded :: "dispatch_id \<Rightarrow> explore_round \<Rightarrow> bool" where
  "superseded d s \<longleftrightarrow>
     (case d of
        InterviewDispatch r _ \<Rightarrow>
          (case ex_outstanding (er_exploration s) of None \<Rightarrow> True | Some q \<Rightarrow> tr_request q \<noteq> r)
      | ImplementationDispatch _ _ \<Rightarrow> False)"

definition begin_dispatch :: "nat \<Rightarrow> dispatch_id \<Rightarrow> agent \<Rightarrow> unit round_op" where
  "begin_dispatch now d a s =
     (if superseded d s then (Inl ''Interview turn cancelled or superseded'', s)
      else let s = s\<lparr>er_last_session := binding_of a\<rparr> in
        (case state_at d s of
           None \<Rightarrow> (Inl ''Delivery attempt superseded'', s)
         | Some st \<Rightarrow>
             if st \<noteq> Queued then (Inl ''Delivery already attempted or cancelled'', s)
             else (Inr (), set_started d now (set_state d Attempting s))))"

definition finish_dispatch :: "nat \<Rightarrow> dispatch_result \<Rightarrow> explore_round \<Rightarrow> explore_round" where
  "finish_dispatch now r s =
     (case state_at (ds_id r) s of
        None \<Rightarrow> s
      | Some st \<Rightarrow>
          if (ds_began r \<and> st = Attempting) \<or> (\<not> ds_began r \<and> st = Queued)
          then (let s = set_state (ds_id r) (ds_state r) s
                in if ds_state r = Delivered then set_sent (ds_id r) now s else s)
          else s)"

section \<open>Cancelling answers\<close>

record cancelled_answer =
  ca_answer :: reviewer_answer
  ca_request :: "bytes option"
  ca_marks :: "turn_marks list"

text \<open>Forget a request: its delivery, its marks, which the cancelled answer gives back, its time, and the completion
  it was.\<close>

definition forget_request :: "turn_marks list \<times> explore_round \<Rightarrow> bytes \<Rightarrow> turn_marks list \<times> explore_round" where
  "forget_request st request_id =
     (case st of (marks, s) \<Rightarrow>
        (marks @ optional (map_of (er_marks s) request_id),
         s\<lparr>er_turns := bt_remove request_id (er_turns s), er_marks := bt_remove request_id (er_marks s),
           er_exploration := (er_exploration s)
             \<lparr>ex_elapsed := bt_remove request_id (ex_elapsed (er_exploration s))\<rparr>,
           er_completion := (case er_completion s of None \<Rightarrow> None
             | Some c \<Rightarrow> if cn_request c = request_id then None else Some c)\<rparr>))"

definition deliveries_of :: "bytes \<Rightarrow> explore_round \<Rightarrow> bytes list" where
  "deliveries_of i s = map fst (filter (\<lambda>(_, v). carries i (Some (dv_request v))) (er_turns s))"

definition cancel_answer :: "bytes \<Rightarrow> cancelled_answer round_op" where
  "cancel_answer i s =
     (if er_implementations s \<noteq> []
        then (Inl ''Implementation was requested; answers can no longer be cancelled'', s)
      else case cancel_latest i (er_exploration s) of
        (Inl e, x) \<Rightarrow> (Inl e, s\<lparr>er_exploration := x\<rparr>)
      | (Inr (a, taken), x) \<Rightarrow>
         (let s = s\<lparr>er_exploration := x\<rparr>;
              (marks, s) = foldl forget_request ([], s) (deliveries_of i s @ optional taken);
              question = ra_in_reply_to a
          in (case map_of (er_marks s) question of
                Some m \<Rightarrow>
                  if tm_answer m = Some i
                  then (Inr \<lparr>ca_answer = a, ca_request = taken, ca_marks = marks @ [m]\<rparr>,
                        s\<lparr>er_marks := bt_remove question (er_marks s)\<rparr>)
                  else (Inr \<lparr>ca_answer = a, ca_request = taken, ca_marks = marks\<rparr>, s)
              | None \<Rightarrow> (Inr \<lparr>ca_answer = a, ca_request = taken, ca_marks = marks\<rparr>, s))))"

lemma forget_requests_answers [simp]:
  "ex_answers (er_exploration (snd (foldl forget_request st rs))) = ex_answers (er_exploration (snd st))"
  by (induction rs arbitrary: st) (auto simp: forget_request_def split: prod.splits)

lemma cancel_answer_answers:
  assumes "cancel_answer i s = (Inr c, s')"
  shows "ex_answers (er_exploration s) \<noteq> [] \<and> ra_id (last (ex_answers (er_exploration s))) = i \<and>
    ex_answers (er_exploration s') = butlast (ex_answers (er_exploration s))"
proof -
  from assms obtain a taken x where
    latest: "cancel_latest i (er_exploration s) = (Inr (a, taken), x)"
    by (auto simp: cancel_answer_def split: if_splits sum.splits prod.splits)
  then have "ex_answers (er_exploration s) \<noteq> []" "ra_id (last (ex_answers (er_exploration s))) = i"
    "ex_answers x = butlast (ex_answers (er_exploration s))"
    by (auto simp: cancel_latest_def Let_def split: if_splits)
  moreover have "ex_answers (er_exploration s') = ex_answers x"
    using assms latest forget_requests_answers [of "([], s\<lparr>er_exploration := x\<rparr>)"]
    by (auto simp: cancel_answer_def Let_def split: if_splits prod.splits option.splits simp del: forget_requests_answers)
      (metis forget_requests_answers snd_conv explore_round.select_convs(2) explore_round.update_convs(2))+
  ultimately show ?thesis by simp
qed

text \<open>The loop ends, since every turn of it takes an answer away.\<close>

function cancel_down :: "bytes \<Rightarrow> cancelled_answer list \<Rightarrow> cancelled_answer list round_op" where
  "cancel_down i cs s =
     (if ex_answers (er_exploration s) = [] then (Inr cs, s)
      else let latest = ra_id (last (ex_answers (er_exploration s))) in
        (case cancel_answer latest s of
           (Inl e, s) \<Rightarrow> (Inl e, s)
         | (Inr c, s) \<Rightarrow> if latest = i then (Inr (cs @ [c]), s) else cancel_down i (cs @ [c]) s))"
  by pat_completeness auto
termination
proof (relation "measure (\<lambda>(_, _, s). length (ex_answers (er_exploration s)))", goal_cases)
  case (2 i cs s latest r s' e)
  then show ?case by (auto dest!: cancel_answer_answers [OF sym] simp del: length_butlast) (metis diff_less length_butlast length_greater_0_conv zero_less_one)
qed simp

declare cancel_down.simps [simp del]

definition cancel_answers_from :: "bytes \<Rightarrow> cancelled_answer list round_op" where
  "cancel_answers_from i s =
     (if \<not> knows_answer (er_exploration s) i then (Inl ''This answer is not in the round'', s)
      else cancel_down i [] s)"

section \<open>What a saved round must hold\<close>

definition saved_completion :: "explore_round \<Rightarrow> checked" where
  "saved_completion s =
     (case er_completion s of
        None \<Rightarrow> Inr ()
      | Some c \<Rightarrow> ensure (concludes (er_exploration s) (cn_request c) \<and>
            ck_checkpoint (ex_checkpoint (er_exploration s)) = cn_baseline c)
          ''saved completion lost its conclusion or baseline'')"

definition saved_delivery :: "explore_round \<Rightarrow> bytes \<times> interview_delivery \<Rightarrow> checked" where
  "saved_delivery s e =
     (case e of (i, v) \<Rightarrow> let x = er_exploration s; r = dv_request v in also_check
       (ensure (i = tr_request r \<and> tr_instance r = ex_instance x \<and> tr_checkpoint r = ex_checkpoint x \<and>
           dv_attempt v \<noteq> []) ''invalid saved delivery identity'')
       (ensure (case tr_answer r of None \<Rightarrow> True | Some a \<Rightarrow> a \<in> set (ex_answers x))
         ''saved delivery lost its exact answer''))"

definition saved_implementation :: "explore_round \<Rightarrow> bytes \<times> implementation_delivery \<Rightarrow> checked" where
  "saved_implementation s e =
     (case e of (i, v) \<Rightarrow> let x = er_exploration s; r = im_request v in also_check
       (ensure (i = ir_delivery r \<and> ir_instance r = ex_instance x \<and> im_attempt v \<noteq> [])
         ''invalid saved implementation identity'')
       (ensure (concludes x (ir_conclusion r)) ''saved implementation lost its conclusion''))"

definition round_restored :: "explore_round \<Rightarrow> checked" where
  "round_restored s = checks
     [validate_restored (er_exploration s),
      saved_completion s,
      checks (map (saved_delivery s) (er_turns s)),
      checks (map (saved_implementation s) (er_implementations s))]"

section \<open>Counting marks\<close>

record mark_counts =
  mc_reviewed_lines :: nat
  mc_reviewed_files :: nat
  mc_not_relevant_lines :: nat
  mc_not_relevant_files :: nat
  mc_reopened_lines :: nat
  mc_reopened_files :: nat

datatype mark_tense = AppliedMarks | PendingMarks | AnsweringMarks

definition count_location :: "nat \<times> nat \<Rightarrow> code_location \<Rightarrow> nat \<times> nat" where
  "count_location n l =
     (case lo_lines l of
        Some r \<Rightarrow> (u32_add (fst n) (source_range_count r), snd n)
      | None \<Rightarrow> (fst n, u32_add (snd n) 1))"

definition count_locations :: "code_location list \<Rightarrow> nat \<times> nat" where
  "count_locations ls = foldl count_location (0, 0) ls"

definition count_marks :: "code_location list \<Rightarrow> code_location list \<Rightarrow> code_location list \<Rightarrow> mark_counts" where
  "count_marks rs ns os =
     \<lparr>mc_reviewed_lines = fst (count_locations rs), mc_reviewed_files = snd (count_locations rs),
      mc_not_relevant_lines = fst (count_locations ns), mc_not_relevant_files = snd (count_locations ns),
      mc_reopened_lines = fst (count_locations os), mc_reopened_files = snd (count_locations os)\<rparr>"

definition requested_marks :: "interview_update \<Rightarrow> mark_counts" where
  "requested_marks u = count_marks (iu_reviewed u) (mark_locations (iu_not_relevant u)) (iu_reopened u)"

definition turn_counts :: "turn_marks \<Rightarrow> mark_counts" where
  "turn_counts m = count_marks (tm_reviewed m) (mark_locations (tm_not_relevant m)) (map ro_location (tm_reopened m))"

definition plural :: "nat \<Rightarrow> bytes \<Rightarrow> bytes \<Rightarrow> bytes" where
  "plural n one many = show_nat n @ '' '' @ (if n = 1 then one else many)"

definition mark_amount :: "nat \<Rightarrow> nat \<Rightarrow> bytes option" where
  "mark_amount lines files =
     (if lines = 0 \<and> files = 0 then None
      else if files = 0 then Some (plural lines ''line'' ''lines'')
      else if lines = 0 then Some (plural files ''whole file'' ''whole files'')
      else Some (plural lines ''line'' ''lines'' @ '' and '' @ plural files ''whole file'' ''whole files''))"

definition tense_words :: "mark_tense \<Rightarrow> bytes \<times> bytes \<times> bytes" where
  "tense_words t =
     (case t of
        AppliedMarks \<Rightarrow> (''Marked'', ''Reopened'', ''reopened'')
      | PendingMarks \<Rightarrow> (''Will mark'', ''Will reopen'', ''reopen'')
      | AnsweringMarks \<Rightarrow> (''Answering marks'', ''Answering reopens'', ''reopens''))"

text \<open>The verb of a summary and what it marks.\<close>

definition mark_phrase :: "mark_counts \<Rightarrow> mark_tense \<Rightarrow> bytes \<times> bytes list" where
  "mark_phrase c t =
     (case tense_words t of (mark, reopen, reopen_also) \<Rightarrow>
       let parts = optional (map_option (\<lambda>a. a @ '' reviewed'') (mark_amount (mc_reviewed_lines c) (mc_reviewed_files c))) @
             optional (map_option (\<lambda>a. a @ '' not relevant'') (mark_amount (mc_not_relevant_lines c) (mc_not_relevant_files c)));
           reopened = mark_amount (mc_reopened_lines c) (mc_reopened_files c);
           verb = (if parts = [] \<and> reopened \<noteq> None then reopen else mark)
       in (verb, parts @ (case reopened of None \<Rightarrow> []
            | Some a \<Rightarrow> [if parts = [] then a else reopen_also @ '' '' @ a])))"

fun join_with :: "bytes \<Rightarrow> bytes list \<Rightarrow> bytes" where
  "join_with sep [] = []"
| "join_with sep [t] = t"
| "join_with sep (t # ts) = t @ sep @ join_with sep ts"

definition mark_summary :: "mark_counts \<Rightarrow> mark_tense \<Rightarrow> bytes" where
  "mark_summary c t =
     (case mark_phrase c t of (verb, parts) \<Rightarrow>
        if parts = [] then []
        else verb @ '' '' @ join_with ('' '' @ [CHR 0xC2, CHR 0xB7] @ '' '') parts)"

definition covered_phrase :: "mark_counts \<Rightarrow> mark_tense \<Rightarrow> bytes \<times> bytes list" where
  "covered_phrase c t = mark_phrase
     (c\<lparr>mc_reviewed_lines := u32_add (mc_reviewed_lines c) (mc_not_relevant_lines c),
        mc_reviewed_files := u32_add (mc_reviewed_files c) (mc_not_relevant_files c),
        mc_not_relevant_lines := 0, mc_not_relevant_files := 0\<rparr>) t"

end
