(* ===== verification/ExploreRecords.thy ===== *)
theory ExploreRecords
  imports ExploreDurable "HOL-Library.AList"
begin

text \<open>
  The saved rounds of one review (crates/review-explore-session/src/records.rs, the Explore documents of
  crates/review-store/src/explore.rs, and \<open>ExploreHistory\<close> of crates/review-explore/src/durable.rs): which round may
  change, how a round is saved under the next revision, and how damaged records are repaired.

  The records of a review are read and written under its lock, so one operation is one step. A document on disk that
  cannot be decoded is an error message in the model; the steps of the file system that fail are the set
  \<open>es_faults\<close> of the store. A document is replaced atomically (\<open>atomic_write\<close>): a write that fails keeps the
  original, and the sync of the directory that follows it can fail with the new document in place.
\<close>

section \<open>The history of a review's rounds\<close>

record explore_history =
  eh_rounds :: "bytes list"
  eh_latest_editable :: bool
  eh_closed :: bool
  eh_reset_rounds :: nat

definition history_new :: explore_history where
  "history_new = \<lparr>eh_rounds = [], eh_latest_editable = True, eh_closed = False, eh_reset_rounds = 0\<rparr>"

definition latest_round :: "explore_history \<Rightarrow> bytes option" where
  "latest_round h = (if eh_rounds h = [] then None else Some (last (eh_rounds h)))"

definition restorable :: "explore_history \<Rightarrow> bytes option" where
  "restorable h = (if eh_closed h then None else latest_round h)"

definition rounds_before :: "explore_history \<Rightarrow> bytes \<Rightarrow> nat \<times> bytes list" where
  "rounds_before h i =
     (let earlier = length (takeWhile (\<lambda>r. r \<noteq> i) (eh_rounds h));
          reset = min (eh_reset_rounds h) earlier
      in (reset, take (earlier - reset) (drop reset (eh_rounds h))))"

definition is_historical :: "explore_history \<Rightarrow> bytes \<Rightarrow> bool" where
  "is_historical h i \<longleftrightarrow> eh_closed h \<or> \<not> eh_latest_editable h \<or> latest_round h \<noteq> Some i"

section \<open>The documents\<close>

record view_save =
  vs_review_unit :: bytes
  vs_instance :: bytes
  vs_sequence :: nat
  vs_state :: bytes

datatype records_step =
  LockRecords | SaveIndex | SyncIndex | SaveRound | SyncRound | SaveView | SyncView | RemoveRound | RemoveView | RemoveForks | SyncRecords

text \<open>The round documents with the time each was last written.\<close>

record explore_store =
  es_unit :: bytes
  es_history :: "bytes + explore_history"
  es_rounds :: "(bytes \<times> nat \<times> (bytes + explore_round)) list"
  es_views :: "(bytes \<times> (bytes + view_save)) list"
  es_faults :: "records_step set"

datatype records_error = StoreFault records_step | ExploreFault bytes | ExploreRefused bytes

type_synonym 'a records_op = "(explore_store, records_error, 'a) fallible"

definition reach_step :: "records_step \<Rightarrow> unit records_op" where
  "reach_step p st = (if p \<in> es_faults st then Inl (StoreFault p) else Inr (), st)"

definition fault :: "bytes \<Rightarrow> 'a records_op" where
  "fault m st = (Inl (ExploreFault m), st)"

definition explore_id_valid :: "bytes \<Rightarrow> bool" where
  "explore_id_valid i \<longleftrightarrow>
     i \<noteq> [] \<and> length i \<le> 128 \<and>
     list_all (\<lambda>c. let n = (of_char c :: nat) in
       (48 \<le> n \<and> n \<le> 57) \<or> (65 \<le> n \<and> n \<le> 90) \<or> (97 \<le> n \<and> n \<le> 122) \<or> c = CHR ''-'') i"

definition load_history :: "explore_history records_op" where
  "load_history = reading (\<lambda>st. map_sum ExploreFault id (es_history st))"

text \<open>The parts of a comparison that are not stored (\<open>serde(skip)\<close>) are empty in a round that is read.\<close>

definition stored_round :: "explore_round \<Rightarrow> explore_round" where
  "stored_round s = s\<lparr>er_exploration := (er_exploration s)\<lparr>ex_comparison :=
     (ex_comparison (er_exploration s))\<lparr>cm_context := [], cm_sources := []\<rparr>\<rparr>\<rparr>"

definition load_round :: "bytes \<Rightarrow> explore_round option records_op" where
  "load_round i = reading (\<lambda>st.
     if \<not> explore_id_valid i then Inl (ExploreFault ''invalid stored identity'')
     else case map_of (es_rounds st) i of
       None \<Rightarrow> Inr None
     | Some (_, Inl e) \<Rightarrow> Inl (ExploreFault e)
     | Some (_, Inr s) \<Rightarrow>
         let s = stored_round s in
         if ex_instance (er_exploration s) \<noteq> i \<or> ck_review_unit (ex_checkpoint (er_exploration s)) \<noteq> es_unit st
         then Inl (ExploreFault ''stored round identity does not match its review'')
         else (case round_restored s of Inl e \<Rightarrow> Inl (ExploreFault e) | Inr _ \<Rightarrow> Inr (Some s)))"

definition write_document :: "records_step \<Rightarrow> records_step \<Rightarrow> (explore_store \<Rightarrow> explore_store) \<Rightarrow> unit records_op" where
  "write_document save sync f = and_then (reach_step save) (\<lambda>_ st. reach_step sync (f st))"

definition save_history :: "explore_history \<Rightarrow> unit records_op" where
  "save_history h = write_document SaveIndex SyncIndex (\<lambda>st. st\<lparr>es_history := Inr h\<rparr>)"

definition save_round :: "nat \<Rightarrow> explore_round \<Rightarrow> unit records_op" where
  "save_round now s st =
     (let x = er_exploration s in
      if ck_review_unit (ex_checkpoint x) \<noteq> es_unit st then fault ''round belongs to another review'' st
      else if \<not> explore_id_valid (ex_instance x) then fault ''invalid stored identity'' st
      else write_document SaveRound SyncRound
        (\<lambda>st. st\<lparr>es_rounds := AList.update (ex_instance x) (now, Inr s) (es_rounds st)\<rparr>) st)"

definition create_round :: "nat \<Rightarrow> explore_round \<Rightarrow> unit records_op" where
  "create_round now s = and_then (load_round (ex_instance (er_exploration s)))
     (\<lambda>old. if old \<noteq> None then fault ''round already exists'' else save_round now s)"

text \<open>A saved round changes through its record only, under the next revision, and is written only when it changed.\<close>

definition update_round :: "nat \<Rightarrow> bytes \<Rightarrow> 'a round_op \<Rightarrow> ('a \<times> explore_round) records_op" where
  "update_round now i change = and_then (load_round i) (\<lambda>old.
     case old of
       None \<Rightarrow> fault ''saved round is missing''
     | Some s \<Rightarrow>
        (case change s of
           (Inl e, _) \<Rightarrow> (\<lambda>st. (Inl (ExploreRefused e), st))
         | (Inr r, s') \<Rightarrow>
             if s' = s then (\<lambda>st. (Inr (r, s), st))
             else if er_revision s' = u64_max then fault ''revision exhausted''
             else (let s' = s'\<lparr>er_revision := er_revision s' + 1\<rparr>
                   in and_then (save_round now s') (\<lambda>_ st. (Inr (r, s'), st)))))"

section \<open>The rules of a change\<close>

definition create :: "nat \<Rightarrow> explore_round \<Rightarrow> explore_round records_op" where
  "create now s = and_then (reach_step LockRecords) (\<lambda>_. and_then load_history (\<lambda>h.
     and_then (create_round now s) (\<lambda>_.
       let h = (if eh_closed h then h\<lparr>eh_reset_rounds := length (eh_rounds h)\<rparr> else h);
           h = h\<lparr>eh_rounds := eh_rounds h @ [ex_instance (er_exploration s)], eh_latest_editable := True,
                 eh_closed := False\<rparr>
       in and_then (save_history h) (\<lambda>_ st. (Inr s, st)))))"

definition editable :: "bytes \<Rightarrow> unit records_op" where
  "editable i = and_then (reach_step LockRecords) (\<lambda>_. and_then load_history (\<lambda>h.
     if is_historical h i then fault ''this round is history; open the latest round to continue''
     else (\<lambda>st. (Inr (), st))))"

definition update_saved :: "nat \<Rightarrow> bytes \<Rightarrow> 'a round_op \<Rightarrow> ('a \<times> explore_round) records_op" where
  "update_saved now i change = and_then (editable i) (\<lambda>_. update_round now i change)"

fun merge_diverged :: "bytes list \<Rightarrow> bytes list \<Rightarrow> bytes list" where
  "merge_diverged diverged [] = diverged"
| "merge_diverged diverged (p # ps) =
     merge_diverged (if p \<in> set diverged then diverged else diverged @ [p]) ps"

text \<open>What accepting a turn changes beside the interview: the files that diverged, and the first conclusion, which
  authorizes implementation.\<close>

definition note_diverged :: "bytes \<Rightarrow> bytes list \<Rightarrow> explore_round \<Rightarrow> explore_round" where
  "note_diverged request_id diverged s =
     (case map_of (er_turns s) request_id of
        None \<Rightarrow> s
      | Some v \<Rightarrow> s\<lparr>er_turns := bt_insert request_id (v\<lparr>dv_diverged := merge_diverged (dv_diverged v) diverged\<rparr>)
          (er_turns s)\<rparr>)"

definition note_completion :: "interview_update \<Rightarrow> explore_round \<Rightarrow> explore_round" where
  "note_completion u s =
     (if iu_conclusion u \<noteq> None \<and> er_completion s = None
      then s\<lparr>er_completion := Some \<lparr>cn_request = iu_request u,
              cn_baseline = ck_checkpoint (ex_checkpoint (er_exploration s))\<rparr>\<rparr>
      else s)"

definition submit_change :: "unicode \<Rightarrow> worktree \<Rightarrow> nat \<Rightarrow> interview_update \<Rightarrow> bytes list \<Rightarrow> bool round_op" where
  "submit_change U W now u diverged s =
     (case round_submit U W now u s of
        (Inr True, s) \<Rightarrow> (Inr True, note_completion u (note_diverged (iu_request u) diverged s))
      | other \<Rightarrow> other)"

definition submit_saved ::
  "unicode \<Rightarrow> worktree \<Rightarrow> nat \<Rightarrow> bytes \<Rightarrow> interview_update \<Rightarrow> bytes list \<Rightarrow> (bool \<times> explore_round) records_op" where
  "submit_saved U W now i u diverged = update_saved now i (submit_change U W now u diverged)"

definition revise_change :: "unicode \<Rightarrow> worktree \<Rightarrow> bytes \<Rightarrow> question_revision \<Rightarrow> bool round_op" where
  "revise_change U W request_id v s =
     (case revise U W request_id v (er_exploration s) of (r, x) \<Rightarrow> (r, s\<lparr>er_exploration := x\<rparr>))"

definition revise_saved ::
  "unicode \<Rightarrow> worktree \<Rightarrow> nat \<Rightarrow> bytes \<Rightarrow> bytes \<Rightarrow> question_revision \<Rightarrow> (bool \<times> explore_round) records_op" where
  "revise_saved U W now i request_id v = update_saved now i (revise_change U W request_id v)"

text \<open>Posting a request (\<open>persist_request\<close>): a retry names the agent it goes to, and a new turn keeps the sequence
  number of the editor's latest save. The turn of a new post is there (\<open>expect\<close>).\<close>

definition set_editor :: "bytes \<Rightarrow> nat \<Rightarrow> explore_round \<Rightarrow> explore_round" where
  "set_editor request_id n s =
     (case map_of (er_turns s) request_id of
        None \<Rightarrow> s
      | Some v \<Rightarrow> s\<lparr>er_turns := bt_insert request_id (v\<lparr>dv_editor_sequence := Some n\<rparr>) (er_turns s)\<rparr>)"

definition persist_request ::
  "bytes \<Rightarrow> bytes \<Rightarrow> bytes \<Rightarrow> turn_request \<Rightarrow> agent option \<Rightarrow> nat option \<Rightarrow> bool round_op" where
  "persist_request answer_id request_id attempt_id r retried editor s =
     (case post_request answer_id request_id attempt_id r s of
        (Inl e, s) \<Rightarrow> (Inl e, s)
      | (Inr new, s) \<Rightarrow>
         (let s = (case retried of None \<Rightarrow> s | Some a \<Rightarrow> s\<lparr>er_last_session := binding_of a\<rparr>)
          in (Inr new, if new then (case editor of None \<Rightarrow> s | Some n \<Rightarrow> set_editor (tr_request r) n s) else s)))"

definition open_round ::
  "bytes \<Rightarrow> bytes \<Rightarrow> bytes \<Rightarrow> turn_request \<Rightarrow> comparison \<Rightarrow> agent option \<Rightarrow> bytes + explore_round" where
  "open_round answer_id request_id attempt_id r c pinned =
     (let x = (choose_start \<lparr>rc_challenger = tr_challenger r, rc_author = tr_author r, rc_reviewer = tr_reviewer r\<rparr>
                (exploration_new (tr_instance r) c))\<lparr>ex_writing := tr_writing r\<rparr>
      in (case post_request answer_id request_id attempt_id r (round_new x) of
            (Inl e, _) \<Rightarrow> Inl e
          | (Inr _, s) \<Rightarrow> Inr (s\<lparr>er_last_session := Option.bind pinned binding_of\<rparr>)))"

text \<open>Only a dispatch result reaches a round of the past.\<close>

definition finish_saved :: "nat \<Rightarrow> bytes \<Rightarrow> dispatch_result \<Rightarrow> explore_round records_op" where
  "finish_saved now i r = and_then (reach_step LockRecords) (\<lambda>_. and_then load_history (\<lambda>h.
     if i \<notin> set (eh_rounds h) then fault ''saved round is missing''
     else and_then (update_round now i (\<lambda>s. (Inr (), finish_dispatch now r s))) (\<lambda>(_, s) st. (Inr s, st))))"

definition close :: "bytes \<Rightarrow> unit records_op" where
  "close i = and_then (reach_step LockRecords) (\<lambda>_. and_then load_history (\<lambda>h.
     if latest_round h \<noteq> Some i \<or> eh_closed h then (\<lambda>st. (Inr (), st))
     else and_then (save_history (h\<lparr>eh_closed := True\<rparr>)) (\<lambda>_. reach_step SyncRecords)))"

definition readable :: "explore_store \<Rightarrow> bytes \<Rightarrow> bool" where
  "readable st i \<longleftrightarrow> (case fst (load_round i st) of Inr (Some _) \<Rightarrow> True | _ \<Rightarrow> False)"

definition rounds_by_age :: "explore_store \<Rightarrow> bytes list" where
  "rounds_by_age st =
     map snd (sort_key fst (sort_key snd
       (map (\<lambda>(i, t, _). (t, i)) (filter (\<lambda>(i, _). explore_id_valid i \<and> i \<noteq> ''index'' \<and> readable st i) (es_rounds st)))))"

definition repair_history :: "explore_history records_op" where
  "repair_history = and_then (reach_step LockRecords) (\<lambda>_ st.
     let h = history_new\<lparr>eh_rounds := rounds_by_age st, eh_latest_editable := False\<rparr>
     in and_then (save_history h) (\<lambda>_ st. (Inr h, st)) st)"

definition remove_document :: "records_step \<Rightarrow> (explore_store \<Rightarrow> explore_store) \<Rightarrow> unit records_op" where
  "remove_document p f = and_then (reach_step p) (\<lambda>_ st. (Inr (), f st))"

definition remove_round :: "bytes \<Rightarrow> unit records_op" where
  "remove_round i = remove_document RemoveRound (\<lambda>st. st\<lparr>es_rounds := AList.delete i (es_rounds st)\<rparr>)"

definition remove_view :: "bytes \<Rightarrow> unit records_op" where
  "remove_view i = remove_document RemoveView (\<lambda>st. st\<lparr>es_views := AList.delete i (es_views st)\<rparr>)"

definition clear_round :: "bytes \<Rightarrow> unit records_op" where
  "clear_round i = and_then (reach_step LockRecords) (\<lambda>_. and_then load_history (\<lambda>h.
     let h = (if latest_round h = Some i then h\<lparr>eh_latest_editable := False\<rparr> else h);
         h = h\<lparr>eh_rounds := filter (\<lambda>r. r \<noteq> i) (eh_rounds h)\<rparr>
     in and_then (save_history h) (\<lambda>_. and_then (remove_round i) (\<lambda>_. and_then (remove_view i) (\<lambda>_.
        and_then (remove_document RemoveForks id) (\<lambda>_. reach_step SyncRecords))))))"

definition clear_view :: "bytes \<Rightarrow> unit records_op" where
  "clear_view i = and_then (reach_step LockRecords) (\<lambda>_. and_then (remove_view i) (\<lambda>_. reach_step SyncRecords))"

definition load_view :: "bytes \<Rightarrow> view_save option records_op" where
  "load_view i = reading (\<lambda>st.
     if \<not> explore_id_valid i then Inl (ExploreFault ''invalid stored identity'')
     else case map_of (es_views st) i of
       None \<Rightarrow> Inr None
     | Some (Inl e) \<Rightarrow> Inl (ExploreFault e)
     | Some (Inr v) \<Rightarrow>
         if vs_instance v \<noteq> i \<or> vs_review_unit v \<noteq> es_unit st then Inl (ExploreFault ''editor belongs to another round'')
         else Inr (Some v))"

definition write_view :: "view_save \<Rightarrow> unit records_op" where
  "write_view v st =
     (if vs_review_unit v \<noteq> es_unit st then fault ''editor belongs to another review'' st
      else if \<not> explore_id_valid (vs_instance v) then fault ''invalid stored identity'' st
      else write_document SaveView SyncView
        (\<lambda>st. st\<lparr>es_views := AList.update (vs_instance v) (Inr v) (es_views st)\<rparr>) st)"

text \<open>An older autosave never replaces a newer one, and one sequence number never changes content.\<close>

definition save_view :: "view_save \<Rightarrow> unit records_op" where
  "save_view v st =
     (if vs_review_unit v \<noteq> es_unit st then fault ''editor belongs to another review'' st
      else and_then (reach_step LockRecords) (\<lambda>_. and_then load_history (\<lambda>h.
        if vs_instance v \<notin> set (eh_rounds h) then fault ''saved round is missing''
        else and_then (load_view (vs_instance v)) (\<lambda>previous.
          case previous of
            None \<Rightarrow> write_view v
          | Some p \<Rightarrow>
              if vs_sequence p = vs_sequence v \<and> p \<noteq> v
              then fault ''editor sequence already has different content; original retained''
              else if vs_sequence v \<le> vs_sequence p then (\<lambda>st. (Inr (), st))
              else write_view v))) st)"

end
