(* ===== verification/ExploreStates.thy ===== *)
theory ExploreStates
  imports ExploreLaws ExploreRecords
begin

text \<open>
  The saved round as a state machine: the changes the session makes of a saved round, which rounds they reach, and
  the invariant \<open>round_ok\<close> of all of them, which contains every check of a restored round. A round that the reviewer
  saved is therefore never cleared as unreadable by the next start.

  The front ends make the requests that are posted: a request without an answer only opens a round that has no answer
  yet, and the identities they draw are fresh (\<open>allowed\<close>).
\<close>

section \<open>The changes of a saved round\<close>

datatype round_event =
  PostEvent bytes bytes bytes turn_request "agent option" "nat option"
| SubmitEvent worktree nat interview_update "bytes list"
| ReviseEvent worktree bytes question_revision
| CancelEvent bytes
| StopEvent
| FailEvent bytes bytes bytes
| AdmitEvent bytes bytes implementation_request bool
| BeginEvent nat dispatch_id agent
| FinishEvent nat dispatch_id bool prompt_result
| QuizEvent bytes quiz_response
| DiagramEvent diagram_error
| SessionEvent "conversation_binding option"
| DivergedEvent bytes "bytes list"
| MarksEvent bytes turn_marks

definition discard :: "'a round_op \<Rightarrow> unit round_op" where
  "discard m s = (case m s of (r, s') \<Rightarrow> (map_sum id (\<lambda>_. ()) r, s'))"

definition on_interview :: "'a interview_op \<Rightarrow> 'a round_op" where
  "on_interview m s = (case m (er_exploration s) of (r, x) \<Rightarrow> (r, s\<lparr>er_exploration := x\<rparr>))"

text \<open>A prompt that failed tells the round only while its attempt is the turn's attempt (\<open>prompt_finished\<close>).\<close>

definition fail_turn :: "bytes \<Rightarrow> bytes \<Rightarrow> bytes \<Rightarrow> bool round_op" where
  "fail_turn request_id attempt_id err s =
     (if (case map_of (er_turns s) request_id of None \<Rightarrow> True | Some v \<Rightarrow> dv_attempt v \<noteq> attempt_id)
      then (Inr False, s)
      else (case failed request_id err (er_exploration s) of (b, x) \<Rightarrow> (Inr b, s\<lparr>er_exploration := x\<rparr>)))"

definition dispatched :: "dispatch_id \<Rightarrow> bool \<Rightarrow> prompt_result \<Rightarrow> dispatch_result" where
  "dispatched d began r = \<lparr>ds_id = d, ds_began = began, ds_state = dispatch_outcome r\<rparr>"

definition round_change :: "unicode \<Rightarrow> round_event \<Rightarrow> unit round_op" where
  "round_change U e =
     (case e of
        PostEvent answer_id request_id attempt_id r retried editor \<Rightarrow>
          discard (persist_request answer_id request_id attempt_id r retried editor)
      | SubmitEvent W now u diverged \<Rightarrow> discard (submit_change U W now u diverged)
      | ReviseEvent W request_id v \<Rightarrow> discard (revise_change U W request_id v)
      | CancelEvent i \<Rightarrow> discard (cancel_answers_from i)
      | StopEvent \<Rightarrow> (\<lambda>s. (Inr (), s\<lparr>er_exploration := cancel (er_exploration s)\<rparr>))
      | FailEvent request_id attempt_id err \<Rightarrow> discard (fail_turn request_id attempt_id err)
      | AdmitEvent delivery_id attempt_id r sending \<Rightarrow> admit delivery_id attempt_id r sending
      | BeginEvent now d a \<Rightarrow> begin_dispatch now d a
      | FinishEvent now d began r \<Rightarrow> (\<lambda>s. (Inr (), finish_dispatch now (dispatched d began r) s))
      | QuizEvent c r \<Rightarrow> discard (on_interview (answer_quiz c r))
      | DiagramEvent d \<Rightarrow> discard (on_interview (record_diagram_error d))
      | SessionEvent b \<Rightarrow> (\<lambda>s. (Inr (), s\<lparr>er_last_session := b\<rparr>))
      | DivergedEvent request_id ps \<Rightarrow> (\<lambda>s. (Inr (), note_diverged request_id ps s))
      | MarksEvent request_id ms \<Rightarrow> (\<lambda>s. (Inr (), s\<lparr>er_marks := bt_insert request_id ms (er_marks s)\<rparr>)))"

definition allowed :: "explore_round \<Rightarrow> round_event \<Rightarrow> bool" where
  "allowed s e \<longleftrightarrow>
     (case e of
        PostEvent _ _ attempt_id r _ _ \<Rightarrow>
          attempt_id \<noteq> [] \<and>
          (is_kickoff r \<longrightarrow> map_of (er_turns s) (tr_request r) = None \<longrightarrow> ex_answers (er_exploration s) = [])
      | ReviseEvent _ request_id _ \<Rightarrow> turn_of (er_exploration s) request_id = None
      | AdmitEvent _ attempt_id _ _ \<Rightarrow> attempt_id \<noteq> []
      | _ \<Rightarrow> True)"

text \<open>A round begins with its kickoff, on the comparison that was prepared for it; each change is saved under some
  revision, and the round is read again.\<close>

inductive reachable_round :: "unicode \<Rightarrow> explore_round \<Rightarrow> bool" for U where
  round_starts:
    "prepare sha W R root snap = Prepared c \<Longrightarrow> tr_instance r \<noteq> [] \<Longrightarrow> attempt_id \<noteq> [] \<Longrightarrow>
     open_round answer_id request_id attempt_id r c pinned = Inr s \<Longrightarrow> reachable_round U s"
| round_changes:
    "reachable_round U s \<Longrightarrow> allowed s e \<Longrightarrow> round_change U e s = (Inr (), s') \<Longrightarrow>
     reachable_round U (s'\<lparr>er_revision := n\<rparr>)"
| round_read: "reachable_round U s \<Longrightarrow> reachable_round U (stored_round s)"

section \<open>The invariant\<close>

definition delivery_ok :: "exploration \<Rightarrow> bytes \<times> interview_delivery \<Rightarrow> bool" where
  "delivery_ok x e \<longleftrightarrow>
     fst e = tr_request (dv_request (snd e)) \<and> tr_instance (dv_request (snd e)) = ex_instance x \<and>
     tr_checkpoint (dv_request (snd e)) = ex_checkpoint x \<and> dv_attempt (snd e) \<noteq> [] \<and>
     (\<forall>a. tr_answer (dv_request (snd e)) = Some a \<longrightarrow> a \<in> set (ex_answers x))"

definition implementation_ok :: "exploration \<Rightarrow> bytes \<times> implementation_delivery \<Rightarrow> bool" where
  "implementation_ok x e \<longleftrightarrow>
     fst e = ir_delivery (im_request (snd e)) \<and> ir_instance (im_request (snd e)) = ex_instance x \<and>
     im_attempt (snd e) \<noteq> [] \<and> concludes x (ir_conclusion (im_request (snd e)))"

definition completion_ok :: "exploration \<Rightarrow> review_completion option \<Rightarrow> bool" where
  "completion_ok x c \<longleftrightarrow>
     (\<forall>k. c = Some k \<longrightarrow> concludes x (cn_request k) \<and> ck_checkpoint (ex_checkpoint x) = cn_baseline k)"

definition retry_linked :: "exploration \<Rightarrow> (bytes \<times> interview_delivery) list \<Rightarrow> bool" where
  "retry_linked x m \<longleftrightarrow>
     (\<forall>r. ex_retry x = Some r \<longrightarrow> (\<exists>v. map_of m (tr_request r) = Some v \<and> tr_answer (dv_request v) = tr_answer r))"

definition round_ok :: "explore_round \<Rightarrow> bool" where
  "round_ok s \<longleftrightarrow>
     interview_ok (er_exploration s) \<and>
     bt_ok (er_turns s) \<and> (\<forall>e \<in> set (er_turns s). delivery_ok (er_exploration s) e) \<and>
     retry_linked (er_exploration s) (er_turns s) \<and>
     bt_ok (er_implementations s) \<and> (\<forall>e \<in> set (er_implementations s). implementation_ok (er_exploration s) e) \<and>
     completion_ok (er_exploration s) (er_completion s)"

lemma round_ok_restored:
  assumes "round_ok s"
  shows "round_restored s = Inr ()"
proof -
  have "passes (validate_restored (er_exploration s))" using assms by (simp add: round_ok_def interview_restored)
  moreover have "passes (saved_completion s)"
    using assms by (auto simp: round_ok_def completion_ok_def saved_completion_def split: option.splits)
  moreover have "passes (saved_delivery s e)" if "e \<in> set (er_turns s)" for e
    using assms that by (cases e) (auto simp: round_ok_def delivery_ok_def saved_delivery_def Let_def split: option.splits)
  moreover have "passes (saved_implementation s e)" if "e \<in> set (er_implementations s)" for e
    using assms that by (cases e) (auto simp: round_ok_def implementation_ok_def saved_implementation_def Let_def)
  ultimately have "passes (round_restored s)" by (simp add: round_restored_def list_all_iff)
  then show ?thesis by (simp add: passes_iff)
qed

section \<open>Every change keeps the invariant\<close>

lemma bt_insert_all: "\<forall>e \<in> set m. P e \<Longrightarrow> P (k, v) \<Longrightarrow> \<forall>e \<in> set (bt_insert k v m). P e"
  using bt_insert_set by fastforce

lemma bt_remove_all: "\<forall>e \<in> set m. P e \<Longrightarrow> \<forall>e \<in> set (bt_remove k m). P e"
  by (simp add: bt_remove_def)

lemma round_ok_unread:
  "round_ok (s\<lparr>er_last_session := b\<rparr>) = round_ok s" "round_ok (s\<lparr>er_marks := ms\<rparr>) = round_ok s"
  "round_ok (s\<lparr>er_revision := n\<rparr>) = round_ok s"
  by (simp_all add: round_ok_def)

lemma delivery_update:
  assumes "round_ok s" "map_of (er_turns s) r = Some v" "dv_request v' = dv_request v" "dv_attempt v' \<noteq> []"
  shows "round_ok (s\<lparr>er_turns := bt_insert r v' (er_turns s)\<rparr>)"
proof -
  have "delivery_ok (er_exploration s) (r, v)" using assms(1,2) by (auto simp: round_ok_def dest: map_of_SomeD)
  then have "delivery_ok (er_exploration s) (r, v')" using assms(3,4) by (simp add: delivery_ok_def)
  moreover have "retry_linked (er_exploration s) (bt_insert r v' (er_turns s))"
  proof -
    have "bt_ok (er_turns s)" "retry_linked (er_exploration s) (er_turns s)" using assms(1) by (simp_all add: round_ok_def)
    then show ?thesis using assms(2,3) by (auto simp: retry_linked_def bt_insert_lookup)
  qed
  moreover have "\<forall>e \<in> set (er_turns s). delivery_ok (er_exploration s) e" using assms(1) by (simp add: round_ok_def)
  ultimately have "\<forall>e \<in> set (bt_insert r v' (er_turns s)). delivery_ok (er_exploration s) e" by (intro bt_insert_all)
  with \<open>retry_linked _ _\<close> assms(1) show ?thesis by (simp add: round_ok_def bt_insert_ok)
qed

lemma implementation_update:
  assumes "round_ok s" "implementation_ok (er_exploration s) (i, d)"
  shows "round_ok (s\<lparr>er_implementations := bt_insert i d (er_implementations s)\<rparr>)"
proof -
  have "\<forall>e \<in> set (er_implementations s). implementation_ok (er_exploration s) e" using assms(1) by (simp add: round_ok_def)
  from bt_insert_all [OF this assms(2)] assms(1) show ?thesis by (simp add: round_ok_def bt_insert_ok)
qed

lemma implementation_at:
  "round_ok s \<Longrightarrow> map_of (er_implementations s) i = Some d \<Longrightarrow> implementation_ok (er_exploration s) (i, d)"
  by (auto simp: round_ok_def dest: map_of_SomeD)

lemma delivery_at: "round_ok s \<Longrightarrow> map_of (er_turns s) i = Some v \<Longrightarrow> delivery_ok (er_exploration s) (i, v)"
  by (auto simp: round_ok_def dest: map_of_SomeD)

lemma set_state_keeps: "round_ok s \<Longrightarrow> round_ok (set_state d st s)"
  by (cases d)
    (auto simp: set_state_def implementation_ok_def delivery_ok_def split: option.splits
      intro!: delivery_update implementation_update dest: implementation_at delivery_at)

lemma set_started_keeps: "round_ok s \<Longrightarrow> round_ok (set_started d now s)"
  by (cases d)
    (auto simp: set_started_def delivery_ok_def split: option.splits intro!: delivery_update dest: delivery_at)

lemma set_sent_keeps: "round_ok s \<Longrightarrow> round_ok (set_sent d now s)"
  by (cases d)
    (auto simp: set_sent_def implementation_ok_def split: option.splits intro!: implementation_update
      dest: implementation_at)

lemma begin_dispatch_keeps: "round_ok s \<Longrightarrow> round_ok (snd (begin_dispatch now d a s))"
  by (auto simp: begin_dispatch_def Let_def round_ok_unread set_state_keeps set_started_keeps split: option.splits)

lemma finish_dispatch_keeps: "round_ok s \<Longrightarrow> round_ok (finish_dispatch now r s)"
  by (auto simp: finish_dispatch_def Let_def set_state_keeps set_sent_keeps split: option.splits)

text \<open>The conversation only grows: what concludes stays.\<close>

lemma interview_grows:
  assumes "round_ok s" "interview_ok x" "ex_instance x = ex_instance (er_exploration s)"
    "ex_comparison x = ex_comparison (er_exploration s)" "set (ex_answers (er_exploration s)) \<subseteq> set (ex_answers x)"
    "set (ex_conversation (er_exploration s)) \<subseteq> set (ex_conversation x)" "retry_linked x (er_turns s)"
  shows "round_ok (s\<lparr>er_exploration := x\<rparr>)"
proof -
  have "concludes x i" if "concludes (er_exploration s) i" for i
    using that assms(6) by (auto simp: concludes_def list_ex_iff)
  with assms show ?thesis
    by (fastforce simp: round_ok_def delivery_ok_def implementation_ok_def completion_ok_def ex_checkpoint_def)
qed

lemma interview_quiet:
  assumes "round_ok s" "interview_ok x" "ex_instance x = ex_instance (er_exploration s)"
    "ex_comparison x = ex_comparison (er_exploration s)" "ex_answers x = ex_answers (er_exploration s)"
    "ex_conversation x = ex_conversation (er_exploration s)"
    "map_option (\<lambda>r. (tr_request r, tr_answer r)) (ex_retry x) =
       map_option (\<lambda>r. (tr_request r, tr_answer r)) (ex_retry (er_exploration s))"
  shows "round_ok (s\<lparr>er_exploration := x\<rparr>)"
proof (rule interview_grows [OF assms(1-4)])
  have "retry_linked (er_exploration s) (er_turns s)" using assms(1) by (simp add: round_ok_def)
  with assms(7) show "retry_linked x (er_turns s)"
    by (cases "ex_retry x"; cases "ex_retry (er_exploration s)") (auto simp: retry_linked_def)
qed (simp_all add: assms)

lemma interview_of: "round_ok s \<Longrightarrow> interview_ok (er_exploration s)"
  by (simp add: round_ok_def)

lemma cancel_round_keeps: "round_ok s \<Longrightarrow> round_ok (s\<lparr>er_exploration := cancel (er_exploration s)\<rparr>)"
  by (rule interview_quiet [OF _ cancel_keeps [OF interview_of]]) (simp_all add: cancel_def)

lemma fail_turn_keeps: "round_ok s \<Longrightarrow> round_ok (snd (fail_turn r a e s))"
proof -
  assume ok: "round_ok s"
  have "round_ok (s\<lparr>er_exploration := snd (failed r e (er_exploration s))\<rparr>)"
    by (rule interview_quiet [OF ok failed_keeps [OF interview_of [OF ok]]])
      (auto simp: failed_def option.map_comp comp_def)
  with ok show ?thesis by (auto simp: fail_turn_def split: prod.splits)
qed

lemma answer_quiz_round_keeps: "round_ok s \<Longrightarrow> round_ok (snd (on_interview (answer_quiz c r) s))"
proof -
  assume ok: "round_ok s"
  have "round_ok (s\<lparr>er_exploration := snd (answer_quiz c r (er_exploration s))\<rparr>)"
    by (rule interview_quiet [OF ok answer_quiz_keeps [OF interview_of [OF ok]]])
      (auto simp: answer_quiz_def Let_def split: prod.splits)
  then show ?thesis by (auto simp: on_interview_def split: prod.splits)
qed

lemma diagram_round_keeps: "round_ok s \<Longrightarrow> round_ok (snd (on_interview (record_diagram_error d) s))"
proof -
  assume ok: "round_ok s"
  have "round_ok (s\<lparr>er_exploration := snd (record_diagram_error d (er_exploration s))\<rparr>)"
    by (rule interview_quiet [OF ok record_diagram_error_keeps [OF interview_of [OF ok]]])
      (auto simp: record_diagram_error_def split: prod.splits)
  then show ?thesis by (auto simp: on_interview_def split: prod.splits)
qed

lemma last_concludes:
  "conclusion_request x = Some i \<Longrightarrow> concludes x i"
  by (auto simp: conclusion_request_def concludes_def list_ex_iff Let_def split: if_splits)

lemma authorize_cases:
  "snd (authorize delivery_id attempt_id r s) = s \<or>
   ir_instance r = ex_instance (er_exploration s) \<and>
   conclusion_request (er_exploration s) = Some (ir_conclusion r) \<and>
   (\<exists>d. im_request d = r \<and> im_attempt d = attempt_id \<and>
      snd (authorize delivery_id attempt_id r s) =
        s\<lparr>er_implementations := bt_insert (ir_delivery r) d (er_implementations s)\<rparr>)"
  (is "?same \<or> ?here \<and> ?last \<and> (\<exists>d. ?kept d)")
proof (cases "?here \<and> ?last")
  case current: True
  show ?thesis
  proof (cases "map_of (er_implementations s) (ir_delivery r)")
    case None
    let ?d = "\<lparr>im_authorized_at = er_revision s + 1, im_attempt = attempt_id, im_request = r, im_state = Queued,
       im_sent_at = None\<rparr>"
    from None have "?same \<or> ?kept ?d" by (simp add: authorize_def Let_def split: sum.split)
    with current show ?thesis by blast
  next
    case (Some p)
    let ?d = "p\<lparr>im_attempt := attempt_id, im_state := Queued\<rparr>"
    have "?same" if "im_request p \<noteq> r"
    proof -
      have refused: "\<not> passes (checks [ensure (im_request p = r) m, c])" for m c using that by simp
      then obtain e where "checks [ensure (im_request p = r) ''Implementation authorization cannot change'',
          ensure (may_retry (im_state p)) ''Implementation delivery is already sent or uncertain''] = Inl e"
        by (metis passes_def sum.collapse(1))
      with Some show ?thesis by (simp add: authorize_def Let_def del: checks.simps split: sum.split)
    qed
    moreover have "?same \<or> ?kept ?d" if "im_request p = r"
      using Some that by (simp add: authorize_def Let_def del: checks.simps split: sum.split)
    ultimately show ?thesis using current by blast
  qed
next
  case False
  then have ?same by (auto simp: authorize_def Let_def also_check_def ensure_def split: sum.split)
  then show ?thesis ..
qed

lemma authorize_keeps:
  assumes "round_ok s" "attempt_id \<noteq> []"
  shows "round_ok (snd (authorize delivery_id attempt_id r s))"
  using authorize_cases [of delivery_id attempt_id r s]
proof (elim disjE conjE exE)
  fix d
  assume d: "ir_instance r = ex_instance (er_exploration s)"
    "conclusion_request (er_exploration s) = Some (ir_conclusion r)" "im_request d = r" "im_attempt d = attempt_id"
    "snd (authorize delivery_id attempt_id r s) =
      s\<lparr>er_implementations := bt_insert (ir_delivery r) d (er_implementations s)\<rparr>"
  have "implementation_ok (er_exploration s) (ir_delivery r, d)"
    using d(1-4) assms(2) last_concludes by (simp add: implementation_ok_def)
  from implementation_update [OF assms(1) this] d(5) show ?thesis by simp
qed (use assms in simp)

lemma admit_keeps:
  assumes "round_ok s" "attempt_id \<noteq> []"
  shows "round_ok (snd (admit delivery_id attempt_id r sending s))"
proof -
  have queued: "round_ok (snd (set_queued i s))" if "round_ok s" for i s
    using that by (auto simp: set_queued_def implementation_ok_def split: option.splits intro!: implementation_update
        dest: implementation_at)
  obtain q s1 where a: "authorize delivery_id attempt_id r s = (q, s1)" by fastforce
  with authorize_keeps [OF assms, of delivery_id r] have "round_ok s1" by simp
  with a assms(1) queued show ?thesis by (auto simp: admit_def and_then_def split: sum.splits)
qed

end
