(* ===== verification/ExploreReach.thy ===== *)
theory ExploreReach
  imports ExploreStates
begin

text \<open>
  The changes of a saved round that post, take or withdraw something keep the invariant of \<open>ExploreStates\<close>, so every
  reachable round has it.
\<close>

section \<open>Posting\<close>

lemma installed_request:
  assumes "round_ok s" "interview_ok y" "ex_instance y = ex_instance (er_exploration s)"
    "ex_comparison y = ex_comparison (er_exploration s)" "set (ex_answers (er_exploration s)) \<subseteq> set (ex_answers y)"
    "ex_conversation y = ex_conversation (er_exploration s)" "ex_retry y = Some r" "dv_request v = r" "dv_attempt v \<noteq> []"
  shows "round_ok (s\<lparr>er_exploration := y, er_turns := bt_insert (tr_request r) v (er_turns s)\<rparr>)"
proof -
  have turns: "bt_ok (er_turns s)" "\<forall>e \<in> set (er_turns s). delivery_ok (er_exploration s) e"
    using assms(1) by (simp_all add: round_ok_def)
  have "requests_ok y" using assms(2) by (rule interview_facts)
  with assms(7) have r: "tr_instance r = ex_instance y" "tr_checkpoint r = ex_checkpoint y" "tr_answer r = latest_answer y"
    by (simp_all add: requests_ok_def)
  have "\<forall>a. tr_answer r = Some a \<longrightarrow> a \<in> set (ex_answers y)"
    using r(3) by (auto simp: latest_answer_def split: if_splits)
  with r assms(8,9) have new: "delivery_ok y (tr_request r, v)" by (simp add: delivery_ok_def)
  have "\<forall>e \<in> set (er_turns s). delivery_ok y e"
    using turns(2) assms(3-5) by (fastforce simp: delivery_ok_def ex_checkpoint_def)
  from bt_insert_all [OF this new]
  have deliveries: "\<forall>e \<in> set (bt_insert (tr_request r) v (er_turns s)). delivery_ok y e" .
  have "retry_linked y (bt_insert (tr_request r) v (er_turns s))"
    using assms(7,8) by (simp add: retry_linked_def bt_insert_lookup [OF turns(1)])
  with deliveries assms(1-6) turns(1) show ?thesis
    by (auto simp: round_ok_def bt_insert_ok implementation_ok_def completion_ok_def concludes_def ex_checkpoint_def)
qed

lemma repost_keeps:
  assumes "round_ok s" "repost attempt_id r p s = (Inr b, s')" "map_of (er_turns s) (tr_request r) = Some p"
    "attempt_id \<noteq> []" "tr_instance r = ex_instance (er_exploration s)" "tr_checkpoint r = ex_checkpoint (er_exploration s)"
  shows "round_ok s'"
proof -
  let ?x = "er_exploration s"
  have ok: "interview_ok ?x" and linked: "retry_linked ?x (er_turns s)" using assms(1) by (simp_all add: round_ok_def)
  let ?y = "?x\<lparr>ex_outstanding := Some r, ex_retry := Some r\<rparr>"
  let ?v = "p\<lparr>dv_attempt := attempt_id, dv_state := Queued, dv_request := r, dv_started_at := None\<rparr>"
  from assms(2) obtain q where q: "ex_retry ?x = Some q" "tr_request q = tr_request r" "tr_answer (dv_request p) = tr_answer r"
    and s': "s' = s\<lparr>er_exploration := ?y, er_turns := bt_insert (tr_request r) ?v (er_turns s)\<rparr>"
    by (auto simp: repost_def Let_def also_check_def ensure_def split: if_splits option.splits)
  from linked q assms(3) have "tr_answer q = tr_answer r" by (simp add: retry_linked_def)
  with interview_facts(3) [OF ok] q(1) assms(5,6) have "requests_ok ?y"
    by (simp add: requests_ok_def latest_answer_def ex_checkpoint_def)
  then have "interview_ok ?y" by (intro unread_keeps [OF ok]) (simp_all add: decided_def)
  from installed_request [OF assms(1) this, of r ?v] assms(4) show ?thesis by (simp add: s')
qed

lemma accepted_post:
  assumes "accept_answer e a s = (Inr (), s')"
  shows "s' = s \<and> (e = None \<or> a = None) \<or>
    (\<exists>b c. e = Some b \<and> a = Some c \<and> b\<lparr>ra_id := ra_id c\<rparr> = c \<and> \<not> knows_answer (er_exploration s) (ra_id c) \<and>
       s' = s\<lparr>er_exploration := (er_exploration s)\<lparr>ex_answers := ex_answers (er_exploration s) @ [c]\<rparr>\<rparr>)"
  using assms
  by (auto simp: accept_answer_def Let_def also_check_def ensure_def split: if_splits option.splits)

lemma request_answer:
  assumes "make_request answer_id request_id input q x = (Inr v, y)"
  shows "(tr_answer v = None \<longleftrightarrow> input = None)"
    "input = Some i \<Longrightarrow> \<exists>e z. tr_answer v = Some e \<and> record_answer answer_id i q x = (Inr e, z)"
  using assms
  by (auto simp: make_request_def and_then_def send_request_def new_request_def Let_def split: if_splits option.splits
      sum.splits prod.splits)

lemma post_new_keeps:
  assumes "round_ok s" "post_new answer_id request_id attempt_id r s = (Inr b, s')" "attempt_id \<noteq> []"
    "tr_instance r = ex_instance (er_exploration s)" "tr_checkpoint r = ex_checkpoint (er_exploration s)"
    "is_kickoff r \<Longrightarrow> ex_answers (er_exploration s) = []"
  shows "round_ok s'"
proof -
  let ?x = "er_exploration s"
  let ?input = "map_option input_of (tr_answer r)" and ?q = "Option.bind (tr_answer r) ra_question"
  have ok: "interview_ok ?x" using assms(1) by (simp add: round_ok_def)
  from assms(2) obtain v y s1 where v: "make_request answer_id request_id ?input ?q ?x = (Inr v, y)"
    and accept: "accept_answer (tr_answer v) (tr_answer r) (s\<lparr>er_exploration := ?x\<lparr>ex_cancelled := []\<rparr>\<rparr>) = (Inr (), s1)"
    and s': "(Inr b, s') = enqueue attempt_id r s1"
    by (auto simp: post_new_def and_then_Inr split: sum.splits if_splits prod.splits)
  let ?new = "\<lparr>dv_attempt = attempt_id, dv_editor_sequence = None, dv_request = r, dv_state = Queued,
    dv_started_at = None, dv_diverged = []\<rparr>"
  show ?thesis
  proof (cases "tr_answer r")
    case None
    let ?y = "?x\<lparr>ex_cancelled := [], ex_outstanding := Some r, ex_retry := Some r\<rparr>"
    have "interview_ok ?y" using assms(4-6) None by (intro kickoff_keeps [OF ok]) (simp_all add: is_kickoff_def)
    from installed_request [OF assms(1) this, of r ?new] assms(3) None accept s' show ?thesis
      by (auto simp: accept_answer_def enqueue_def split: option.splits)
  next
    case (Some a)
    from request_answer(2) [OF v, of "input_of a"] Some obtain e z where
      e: "tr_answer v = Some e" "record_answer answer_id (input_of a) ?q ?x = (Inr e, z)" by auto
    let ?y = "?x\<lparr>ex_cancelled := [], ex_answers := ex_answers ?x @ [a], ex_outstanding := Some r, ex_retry := Some r\<rparr>"
    from accepted_post [OF accept] e(1) Some have a: "e\<lparr>ra_id := ra_id a\<rparr> = a" "\<not> knows_answer ?x (ra_id a)"
      "s1 = s\<lparr>er_exploration := ?x\<lparr>ex_cancelled := [], ex_answers := ex_answers ?x @ [a]\<rparr>\<rparr>"
      by (auto simp: knows_answer_def)
    have "interview_ok ?y"
      using a(1,2) assms(4,5) Some by (intro answer_keeps [OF ok e(2)]) simp_all
    moreover have "s' = s\<lparr>er_exploration := ?y, er_turns := bt_insert (tr_request r) ?new (er_turns s)\<rparr>"
      using s' by (simp add: enqueue_def a(3))
    ultimately show ?thesis
      using installed_request [OF assms(1), of ?y r ?new] assms(3) by (simp add: subset_insertI)
  qed
qed

lemma post_keeps:
  assumes "round_ok s" "post_request answer_id request_id attempt_id r s = (Inr b, s')"
    "attempt_id \<noteq> []"
    "is_kickoff r \<Longrightarrow> map_of (er_turns s) (tr_request r) = None \<Longrightarrow> ex_answers (er_exploration s) = []"
  shows "round_ok s'"
proof -
  have here: "tr_instance r = ex_instance (er_exploration s)" "tr_checkpoint r = ex_checkpoint (er_exploration s)"
    using assms(2) by (auto simp: post_request_def Let_def split: if_splits)
  show ?thesis
  proof (cases "map_of (er_turns s) (tr_request r)")
    case None
    with assms here show ?thesis
      by (intro post_new_keeps [of s answer_id request_id attempt_id r b s']) (auto simp: post_request_def)
  next
    case (Some p)
    with assms here show ?thesis
      by (intro repost_keeps [of s attempt_id r p b s']) (auto simp: post_request_def)
  qed
qed

lemma set_editor_keeps: "round_ok s \<Longrightarrow> round_ok (set_editor i n s)"
  by (auto simp: set_editor_def delivery_ok_def split: option.splits intro!: delivery_update dest: delivery_at)

lemma post_change_keeps:
  assumes "round_ok s" "persist_request answer_id request_id attempt_id r retried editor s = (Inr b, s')"
    "allowed s (PostEvent answer_id request_id attempt_id r retried editor)"
  shows "round_ok s'"
proof -
  from assms(2) obtain s1 where "post_request answer_id request_id attempt_id r s = (Inr b, s1)"
    and s': "s' = s1 \<or> (\<exists>a. s' = s1\<lparr>er_last_session := a\<rparr>) \<or> (\<exists>n. s' = set_editor (tr_request r) n s1) \<or>
      (\<exists>a n. s' = set_editor (tr_request r) n (s1\<lparr>er_last_session := a\<rparr>))"
    by (auto simp: persist_request_def Let_def split: prod.splits sum.splits option.splits if_splits)
  then have "round_ok s1" using assms(1,3) by (auto simp: allowed_def intro: post_keeps)
  with s' show ?thesis by (auto simp: round_ok_unread set_editor_keeps)
qed

section \<open>Taking a turn\<close>

lemma note_diverged_keeps: "round_ok s \<Longrightarrow> round_ok (note_diverged i ps s)"
  by (auto simp: note_diverged_def delivery_ok_def split: option.splits intro!: delivery_update dest: delivery_at)

lemma note_diverged_interview [simp]: "er_exploration (note_diverged i ps s) = er_exploration s"
  by (simp add: note_diverged_def split: option.splits)

lemma note_completion_keeps:
  "round_ok s \<Longrightarrow> (iu_conclusion u \<noteq> None \<Longrightarrow> concludes (er_exploration s) (iu_request u)) \<Longrightarrow>
     round_ok (note_completion u s)"
  by (auto simp: note_completion_def round_ok_def completion_ok_def)

lemma round_submit_taken:
  assumes "round_submit U W now u s = (Inr True, s')"
  shows "\<exists>x m. submit U W u (er_exploration s) = (Inr True, x) \<and> s' = s\<lparr>er_exploration := x\<lparr>ex_elapsed := m\<rparr>\<rparr>"
  using assms
  by (auto simp: round_submit_def split: sum.splits prod.splits bool.splits option.splits)
    (metis exploration.surjective exploration.update_convs(11))

lemma submit_change_taken:
  assumes "submit_change U W now u ps s = (Inr True, s')"
  shows "\<exists>s1. round_submit U W now u s = (Inr True, s1) \<and>
    s' = note_completion u (note_diverged (iu_request u) ps s1)"
  using assms by (auto simp: submit_change_def split: prod.splits sum.splits bool.splits)

lemma note_completion_interview [simp]: "er_exploration (note_completion u s) = er_exploration s"
  by (simp add: note_completion_def)

lemma round_submit_keeps:
  assumes "round_ok s" "round_submit U W now u s = (Inr True, s')"
  shows "round_ok s'" "iu_conclusion u \<noteq> None \<Longrightarrow> concludes (er_exploration s') (iu_request u)"
proof -
  let ?x = "er_exploration s"
  have ok: "interview_ok ?x" using assms(1) by (simp add: round_ok_def)
  from assms(2) obtain x m where x: "submit U W u ?x = (Inr True, x)"
    and s': "s' = s\<lparr>er_exploration := x\<lparr>ex_elapsed := m\<rparr>\<rparr>"
    by (auto dest: round_submit_taken)
  from submit_turn [OF ok x] obtain t where t: "ct_update t = u"
    and y: "x = (with_turn ?x t)\<lparr>ex_outstanding := None, ex_retry := None\<rparr>"
    by (metis conversation_turn.select_convs(2))
  show "round_ok s'"
    unfolding s' using y elapsed_keeps [OF submit_keeps [OF ok x]]
    by (intro interview_grows [OF assms(1)]) (auto simp: retry_linked_def)
  show "concludes (er_exploration s') (iu_request u)" if "iu_conclusion u \<noteq> None"
    using that t by (simp add: s' y concludes_def)
qed

lemma submit_change_keeps:
  assumes "round_ok s" "submit_change U W now u ps s = (Inr b, s')"
  shows "round_ok s'"
proof (cases b)
  case True
  with assms(2) obtain s1 where "round_submit U W now u s = (Inr True, s1)"
    "s' = note_completion u (note_diverged (iu_request u) ps s1)"
    by (auto dest: submit_change_taken)
  with round_submit_keeps [OF assms(1), of U W now u s1] show ?thesis
    by (auto intro!: note_completion_keeps note_diverged_keeps)
next
  case False
  with assms(2) have "round_submit U W now u s = (Inr False, s')"
    by (auto simp: submit_change_def split: prod.splits sum.splits bool.splits)
  then have "s' = s" by (auto simp: round_submit_def split: prod.splits sum.splits bool.splits)
  with assms(1) show ?thesis by simp
qed

lemma revise_change_keeps:
  assumes "round_ok s" "revise_change U W i v s = (Inr b, s')" "turn_of (er_exploration s) i = None"
  shows "round_ok s'"
proof -
  let ?x = "er_exploration s"
  have ok: "interview_ok ?x" using assms(1) by (simp add: round_ok_def)
  from assms(2) obtain y where y: "revise U W i v ?x = (Inr b, y)" "s' = s\<lparr>er_exploration := y\<rparr>"
    by (auto simp: revise_change_def split: prod.splits)
  show ?thesis
  proof (cases b)
    case True
    with y have "revise U W i v ?x = (Inr True, y)" by simp
    from revise_turn [OF this] obtain t where "ex_retry ?x = None" "y = with_turn ?x t" by metis
    then show ?thesis
      unfolding y(2) using revise_keeps [OF ok y(1) assms(3)]
      by (intro interview_grows [OF assms(1)]) (auto simp: retry_linked_def)
  next
    case False
    with y(1) have "y = ?x" by (auto simp: revise_def revise_open_def Let_def split: if_splits option.splits sum.splits)
    with assms(1) y(2) show ?thesis by simp
  qed
qed

section \<open>Cancelling answers\<close>

definition without_keys :: "bytes list \<Rightarrow> (bytes \<times> 'a) list \<Rightarrow> (bytes \<times> 'a) list" where
  "without_keys rs m = filter (\<lambda>e. fst e \<notin> set rs) m"

lemma without_keys_remove: "without_keys rs (bt_remove r m) = without_keys (r # rs) m"
  by (auto simp: without_keys_def bt_remove_def intro: filter_cong)

lemma forget_requests:
  "snd (foldl forget_request (ms, s) rs) = s
     \<lparr>er_turns := without_keys rs (er_turns s), er_marks := without_keys rs (er_marks s),
      er_exploration := (er_exploration s)\<lparr>ex_elapsed := without_keys rs (ex_elapsed (er_exploration s))\<rparr>,
      er_completion := (case er_completion s of None \<Rightarrow> None
        | Some c \<Rightarrow> if cn_request c \<in> set rs then None else Some c)\<rparr>"
proof (induction rs arbitrary: ms s)
  case (Cons r rs)
  obtain ms' s' where step: "forget_request (ms, s) r = (ms', s')" by fastforce
  then have s': "s' = s
     \<lparr>er_turns := bt_remove r (er_turns s), er_marks := bt_remove r (er_marks s),
      er_exploration := (er_exploration s)\<lparr>ex_elapsed := bt_remove r (ex_elapsed (er_exploration s))\<rparr>,
      er_completion := (case er_completion s of None \<Rightarrow> None | Some c \<Rightarrow> if cn_request c = r then None else Some c)\<rparr>"
    by (simp add: forget_request_def)
  have "snd (foldl forget_request (ms, s) (r # rs)) = snd (foldl forget_request (ms', s') rs)"
    by (simp add: step)
  also note Cons.IH
  finally show ?case
    by (simp add: s' without_keys_remove split: option.splits)
qed (simp add: without_keys_def split: option.splits)

lemma without_keys_ok: "bt_ok m \<Longrightarrow> bt_ok (without_keys rs m)"
  by (simp add: bt_ok_def without_keys_def sorted_wrt_map sorted_wrt_filter)

lemma without_keys_all [simp]: "e \<in> set (without_keys rs m) \<longleftrightarrow> e \<in> set m \<and> fst e \<notin> set rs"
  by (auto simp: without_keys_def)

text \<open>What cancelling the latest answer leaves, but for the marks.\<close>

lemma cancel_answer_leaves:
  assumes "cancel_answer i s = (Inr c, s')"
  obtains rs taken where "er_implementations s = []" "ex_answers (er_exploration s) \<noteq> []"
    "i = ra_id (last (ex_answers (er_exploration s)))"
    "rs = deliveries_of i s @ optional taken"
    "taken = (case turn_after (er_exploration s) i of Some t \<Rightarrow> Some (iu_request (ct_update t))
       | None \<Rightarrow> map_option tr_request (carrying_request i (er_exploration s)))"
    "er_exploration s' = (withdraw i (er_exploration s))
       \<lparr>ex_elapsed := without_keys rs (ex_elapsed (withdraw i (er_exploration s)))\<rparr>"
    "er_turns s' = without_keys rs (er_turns s)" "er_implementations s' = []"
    "er_completion s' = (case er_completion s of None \<Rightarrow> None
       | Some k \<Rightarrow> if cn_request k \<in> set rs then None else Some k)"
proof -
  let ?x = "er_exploration s"
  let ?taken = "case turn_after ?x i of Some t \<Rightarrow> Some (iu_request (ct_update t))
    | None \<Rightarrow> map_option tr_request (carrying_request i ?x)"
  let ?s = "s\<lparr>er_exploration := withdraw i ?x\<rparr>"
  let ?rs = "deliveries_of i s @ optional ?taken"
  have guards: "er_implementations s = []" "ex_answers ?x \<noteq> []" "i = ra_id (last (ex_answers ?x))"
    using assms cancel_answer_answers [OF assms] by (auto simp: cancel_answer_def split: if_splits)
  have latest: "cancel_latest i ?x = (Inr (last (ex_answers ?x), ?taken), withdraw i ?x)"
    using guards(2) guards(3) [symmetric] by (simp add: cancel_latest_def Let_def)
  have "deliveries_of i ?s = deliveries_of i s" by (simp add: deliveries_of_def)
  moreover obtain ms s1 where folded: "foldl forget_request ([], ?s) ?rs = (ms, s1)" by fastforce
  ultimately have "\<exists>m. s' = s1\<lparr>er_marks := m\<rparr>"
    using assms guards(1) latest
    by (auto simp: cancel_answer_def Let_def split: option.splits if_splits) (metis explore_round.surjective explore_round.update_convs(7))+
  moreover note forget_requests [of "[]" ?s ?rs, unfolded folded snd_conv]
  ultimately show ?thesis
    using that [of ?rs ?taken] guards by auto
qed

lemma cancel_answer_keeps:
  assumes "round_ok s" "cancel_answer i s = (Inr c, s')"
  shows "round_ok s'"
proof -
  let ?x = "er_exploration s"
  let ?y = "er_exploration s'"
  have ok: "interview_ok ?x" using assms(1) by (simp add: round_ok_def)
  obtain rs taken where "er_implementations s = []" and guards: "ex_answers ?x \<noteq> []" "i = ra_id (last (ex_answers ?x))"
    and rs: "rs = deliveries_of i s @ optional taken"
    and taken: "taken = (case turn_after ?x i of Some t \<Rightarrow> Some (iu_request (ct_update t))
       | None \<Rightarrow> map_option tr_request (carrying_request i ?x))"
    and y: "?y = (withdraw i ?x)\<lparr>ex_elapsed := without_keys rs (ex_elapsed (withdraw i ?x))\<rparr>"
    and left: "er_turns s' = without_keys rs (er_turns s)" "er_implementations s' = []"
      "er_completion s' = (case er_completion s of None \<Rightarrow> None
         | Some k \<Rightarrow> if cn_request k \<in> set rs then None else Some k)"
    by (rule cancel_answer_leaves [OF assms(2)])
  note w = withdraw_eq [OF ok guards]
  have "interview_ok ?y" unfolding y by (intro elapsed_keeps withdraw_keeps [OF ok guards])
  moreover have "delivery_ok ?y e" if e: "e \<in> set (er_turns s')" for e
  proof -
    have old: "e \<in> set (er_turns s)" "fst e \<notin> set rs" using e by (simp_all add: left(1))
    then have "delivery_ok ?x e" using assms(1) by (simp add: round_ok_def)
    moreover have "a \<in> set (butlast (ex_answers ?x))" if "tr_answer (dv_request (snd e)) = Some a" for a
    proof (rule ccontr)
      assume "a \<notin> set (butlast (ex_answers ?x))"
      moreover have "a \<in> set (butlast (ex_answers ?x) @ [last (ex_answers ?x)])"
        using \<open>delivery_ok ?x e\<close> that guards(1) by (simp add: delivery_ok_def)
      ultimately have "ra_id a = i" using guards(2) by simp
      with that have "carries i (Some (dv_request (snd e)))" by (simp add: carries_def)
      with old(1) have "fst e \<in> set (deliveries_of i s)" by (force simp: deliveries_of_def)
      with old(2) show False by (simp add: rs)
    qed
    ultimately show ?thesis by (simp add: delivery_ok_def y w ex_checkpoint_def)
  qed
  moreover have "completion_ok ?y (er_completion s')"
  proof -
    have "concludes ?y (cn_request k)" if k: "er_completion s = Some k" "cn_request k \<notin> set rs" for k
    proof -
      from assms(1) k(1) have "concludes ?x (cn_request k)" by (simp add: round_ok_def completion_ok_def)
      then obtain t where t: "t \<in> set (ex_conversation ?x)" "iu_request (ct_update t) = cn_request k"
        "iu_conclusion (ct_update t) \<noteq> None"
        by (auto simp: concludes_def list_ex_iff)
      have "ct_answer t \<noteq> Some i"
      proof
        assume "ct_answer t = Some i"
        from told_conclusion_first [OF interview_facts(1) [OF ok] t(1) this t(3)]
        have "taken = Some (cn_request k)" using t(2) by (simp add: taken turn_after_def)
        with k(2) show False by (simp add: rs)
      qed
      with t have "t \<in> set (ex_conversation ?y)" by (simp add: y w)
      with t(2,3) show ?thesis by (auto simp: concludes_def list_ex_iff)
    qed
    with assms(1) show ?thesis
      by (auto simp: completion_ok_def left round_ok_def y w ex_checkpoint_def split: option.splits)
  qed
  moreover have "retry_linked ?y (er_turns s')" by (simp add: retry_linked_def y w)
  ultimately show ?thesis
    using assms(1) left by (simp add: round_ok_def without_keys_ok)
qed

lemma cancel_down_keeps: "round_ok s \<Longrightarrow> cancel_down i cs s = (Inr r, s') \<Longrightarrow> round_ok s'"
proof (induction i cs s rule: cancel_down.induct)
  case (1 i cs s)
  show ?case
  proof (cases "ex_answers (er_exploration s) = []")
    case True
    with 1(2,3) show ?thesis by (simp add: cancel_down.simps [of i cs s])
  next
    case False
    let ?latest = "ra_id (last (ex_answers (er_exploration s)))"
    obtain c s1 where c: "cancel_answer ?latest s = (Inr c, s1)"
      using 1(3) False by (auto simp: cancel_down.simps [of i cs s] Let_def split: sum.splits prod.splits)
    from cancel_answer_keeps [OF 1(2) c] have ok: "round_ok s1" .
    show ?thesis
    proof (cases "?latest = i")
      case True
      with 1(3) False c ok show ?thesis by (simp add: cancel_down.simps [of i cs s])
    next
      case other: False
      with 1(3) False c have "cancel_down i (cs @ [c]) s1 = (Inr r, s')"
        by (simp add: cancel_down.simps [of i cs s] Let_def)
      from 1(1) [OF False refl c [symmetric] refl other ok this] show ?thesis .
    qed
  qed
qed

lemma cancel_answers_from_keeps: "round_ok s \<Longrightarrow> cancel_answers_from i s = (Inr r, s') \<Longrightarrow> round_ok s'"
  by (auto simp: cancel_answers_from_def split: if_splits dest: cancel_down_keeps)

section \<open>Every reachable round\<close>

lemma stored_round_fields [simp]:
  "er_turns (stored_round s) = er_turns s" "er_implementations (stored_round s) = er_implementations s"
  "er_completion (stored_round s) = er_completion s" "er_revision (stored_round s) = er_revision s"
  "ex_instance (er_exploration (stored_round s)) = ex_instance (er_exploration s)"
  "ex_answers (er_exploration (stored_round s)) = ex_answers (er_exploration s)"
  "ex_conversation (er_exploration (stored_round s)) = ex_conversation (er_exploration s)"
  "ex_retry (er_exploration (stored_round s)) = ex_retry (er_exploration s)"
  "ex_outstanding (er_exploration (stored_round s)) = ex_outstanding (er_exploration s)"
  "ex_checkpoint (er_exploration (stored_round s)) = ex_checkpoint (er_exploration s)"
  "decided (er_exploration (stored_round s)) = decided (er_exploration s)"
  by (simp_all add: stored_round_def ex_checkpoint_def decided_def)

lemma stored_round_keeps:
  assumes "round_ok s"
  shows "round_ok (stored_round s)"
proof -
  let ?x = "er_exploration s" and ?y = "er_exploration (stored_round s)"
  have ok: "interview_ok ?x" using assms by (simp add: round_ok_def)
  have "replayed ?y = ?y"
    by (rule replayed_stays [OF interview_facts(2) [OF ok]]) (simp_all add: answer_named_cong [of ?y ?x])
  moreover have "requests_ok ?y = requests_ok ?x" by (simp add: requests_ok_def latest_answer_def)
  moreover have "manifest_ok (ex_comparison ?y)"
    using ok by (simp add: interview_ok_def manifest_ok_def stored_round_def)
  ultimately have "interview_ok ?y"
    using ok interview_facts(3) [OF ok] by (simp add: interview_ok_def)
  moreover have "delivery_ok ?y = delivery_ok ?x" "implementation_ok ?y = implementation_ok ?x"
    "completion_ok ?y = completion_ok ?x" "retry_linked ?y = retry_linked ?x"
    by (simp_all add: fun_eq_iff delivery_ok_def implementation_ok_def completion_ok_def retry_linked_def concludes_def)
  ultimately show ?thesis using assms by (simp add: round_ok_def)
qed

lemma discard_ok: "discard m s = (Inr (), s') \<longleftrightarrow> (\<exists>r. m s = (Inr r, s'))"
  by (cases "m s"; cases "fst (m s)") (auto simp: discard_def)

lemma round_change_keeps:
  assumes "round_ok s" "allowed s e" "round_change U e s = (Inr (), s')"
  shows "round_ok s'"
proof (cases e)
  case (PostEvent a i t r g n)
  with assms show ?thesis by (auto simp: round_change_def discard_ok intro: post_change_keeps)
next
  case (SubmitEvent W n u ps)
  with assms show ?thesis by (auto simp: round_change_def discard_ok intro: submit_change_keeps)
next
  case (ReviseEvent W i v)
  with assms show ?thesis by (auto simp: round_change_def discard_ok allowed_def intro: revise_change_keeps)
next
  case (CancelEvent i)
  with assms show ?thesis by (auto simp: round_change_def discard_ok intro: cancel_answers_from_keeps)
next
  case StopEvent
  with assms show ?thesis by (auto simp: round_change_def cancel_round_keeps)
next
  case (FailEvent i a t)
  with assms(3) obtain b where "fail_turn i a t s = (Inr b, s')" by (auto simp: round_change_def discard_ok)
  with fail_turn_keeps [OF assms(1), of i a t] show ?thesis by simp
next
  case (AdmitEvent d a r b)
  with assms(2,3) have "admit d a r b s = (Inr (), s')" "a \<noteq> []" by (simp_all add: round_change_def allowed_def)
  with admit_keeps [OF assms(1), of a d r b] show ?thesis by simp
next
  case (BeginEvent n d a)
  with assms(3) begin_dispatch_keeps [OF assms(1), of n d a] show ?thesis by (simp add: round_change_def)
next
  case (FinishEvent n d b r)
  with assms(3) finish_dispatch_keeps [OF assms(1)] show ?thesis by (auto simp: round_change_def)
next
  case (QuizEvent c r)
  with assms(3) obtain b where "on_interview (answer_quiz c r) s = (Inr b, s')" by (auto simp: round_change_def discard_ok)
  with answer_quiz_round_keeps [OF assms(1), of c r] show ?thesis by simp
next
  case (DiagramEvent d)
  with assms(3) obtain b where "on_interview (record_diagram_error d) s = (Inr b, s')"
    by (auto simp: round_change_def discard_ok)
  with diagram_round_keeps [OF assms(1), of d] show ?thesis by simp
next
  case (SessionEvent b)
  with assms show ?thesis by (auto simp: round_change_def round_ok_unread)
next
  case (DivergedEvent i ps)
  with assms show ?thesis by (auto simp: round_change_def note_diverged_keeps)
next
  case (MarksEvent i ms)
  with assms show ?thesis by (auto simp: round_change_def round_ok_unread)
qed

lemma open_round_ok:
  assumes "manifest_ok c" "tr_instance r \<noteq> []" "attempt_id \<noteq> []"
    "open_round answer_id request_id attempt_id r c pinned = Inr s"
  shows "round_ok s"
proof -
  let ?ch = "\<lparr>rc_challenger = tr_challenger r, rc_author = tr_author r, rc_reviewer = tr_reviewer r\<rparr>"
  let ?x = "(choose_start ?ch (exploration_new (tr_instance r) c))\<lparr>ex_writing := tr_writing r\<rparr>"
  have fields: "ex_retry ?x = None" "ex_answers ?x = []" by (simp_all add: choose_start_def exploration_new_def)
  have "interview_ok ?x" by (rule new_interview_ok [OF assms(2,1)])
  with fields have "round_ok (round_new ?x)"
    by (simp add: round_new_def round_ok_def retry_linked_def completion_ok_def)
  moreover obtain b s1 where "post_request answer_id request_id attempt_id r (round_new ?x) = (Inr b, s1)"
    "s = s1\<lparr>er_last_session := Option.bind pinned binding_of\<rparr>"
    using assms(4) by (auto simp: open_round_def Let_def split: prod.splits sum.splits)
  moreover have "map_of (er_turns (round_new ?x)) i = None" "ex_answers (er_exploration (round_new ?x)) = []" for i
    using fields by (simp_all add: round_new_def)
  ultimately show ?thesis
    using post_keeps assms(3) by (simp add: round_ok_unread)
qed

lemma reachable_round_ok: "reachable_round U s \<Longrightarrow> round_ok s"
proof (induction rule: reachable_round.induct)
  case (round_starts sha W R root snap c r attempt_id answer_id request_id pinned s)
  show ?case by (rule open_round_ok [OF comparison_prepared(1) [OF round_starts(1)] round_starts(2-4)])
next
  case (round_changes s e s' n)
  then show ?case by (auto simp: round_ok_unread dest: round_change_keeps)
qed (rule stored_round_keeps)

end
