(* ===== verification/ExploreDispatch.thy ===== *)
theory ExploreDispatch
  imports ExploreReach
begin

text \<open>
  Attempts of the dispatcher over the life of a saved round: an attempt that has begun never begins again, whatever
  the session does to the round in between, as long as new attempts draw new identities (\<open>new_attempts\<close>).
\<close>

definition attempt_of :: "dispatch_id \<Rightarrow> bytes" where
  "attempt_of d = (case d of InterviewDispatch _ a \<Rightarrow> a | ImplementationDispatch _ a \<Rightarrow> a)"

definition new_attempts :: "dispatch_id \<Rightarrow> round_event \<Rightarrow> bool" where
  "new_attempts d e \<longleftrightarrow>
     (case e of
        PostEvent _ _ attempt_id _ _ _ \<Rightarrow> attempt_id \<noteq> attempt_of d
      | AdmitEvent _ attempt_id _ _ \<Rightarrow> attempt_id \<noteq> attempt_of d
      | _ \<Rightarrow> True)"

text \<open>The rounds a round becomes by allowed changes that \<open>P\<close> selects, each saved under some revision, and read again.\<close>

inductive goes_on :: "unicode \<Rightarrow> (round_event \<Rightarrow> bool) \<Rightarrow> explore_round \<Rightarrow> explore_round \<Rightarrow> bool" for U P where
  goes_nowhere: "goes_on U P s s"
| goes_further:
    "goes_on U P s s1 \<Longrightarrow> allowed s1 e \<Longrightarrow> P e \<Longrightarrow> round_change U e s1 = (Inr (), s2) \<Longrightarrow>
     goes_on U P s (s2\<lparr>er_revision := n\<rparr>)"
| goes_read: "goes_on U P s s1 \<Longrightarrow> goes_on U P s (stored_round s1)"

text \<open>What each change that \<open>P\<close> selects keeps, and saving and reading a round as well, is kept along the way.\<close>

locale kept_along =
  fixes U :: unicode and P :: "round_event \<Rightarrow> bool" and K :: "explore_round \<Rightarrow> bool"
  assumes kept_change: "K s \<Longrightarrow> round_ok s \<Longrightarrow> allowed s e \<Longrightarrow> P e \<Longrightarrow> round_change U e s = (Inr (), s') \<Longrightarrow> K s'"
    and kept_saved: "K s \<Longrightarrow> K (s\<lparr>er_revision := n\<rparr>)"
    and kept_read: "K s \<Longrightarrow> K (stored_round s)"
begin

lemma along: "goes_on U P s s' \<Longrightarrow> round_ok s \<Longrightarrow> K s \<Longrightarrow> round_ok s' \<and> K s'"
proof (induction rule: goes_on.induct)
  case (goes_further s s1 e s2 n)
  then have "round_ok s1" "K s1" by simp_all
  with goes_further have "round_ok s2" "K s2" by (blast intro: round_change_keeps kept_change)+
  then show ?case by (simp add: round_ok_unread kept_saved)
next
  case (goes_read s s1)
  then show ?case by (simp add: stored_round_keeps kept_read)
qed simp

end

definition spent :: "dispatch_id \<Rightarrow> explore_round \<Rightarrow> bool" where
  "spent d s \<longleftrightarrow> state_at d s \<noteq> Some Queued"

section \<open>A spent attempt stays spent\<close>

lemma spent_cong:
  "er_turns s' = er_turns s \<Longrightarrow> er_implementations s' = er_implementations s \<Longrightarrow> spent d s' = spent d s"
  by (cases d) (simp_all add: spent_def state_at_def)

lemma spent_turn:
  assumes "spent d s" "bt_ok (er_turns s)"
    "dv_attempt v' \<noteq> attempt_of d \<or> dv_state v' \<noteq> Queued \<or>
       (\<exists>v. map_of (er_turns s) i = Some v \<and> dv_attempt v' = dv_attempt v \<and> dv_state v' = dv_state v)"
  shows "spent d (s\<lparr>er_turns := bt_insert i v' (er_turns s)\<rparr>)"
  using assms by (cases d) (auto simp: spent_def state_at_def attempt_of_def bt_insert_lookup split: option.splits)

lemma spent_implementation:
  assumes "spent d s" "bt_ok (er_implementations s)"
    "im_attempt v' \<noteq> attempt_of d \<or> im_state v' \<noteq> Queued \<or>
       (\<exists>v. map_of (er_implementations s) i = Some v \<and> im_attempt v' = im_attempt v \<and> im_state v' = im_state v)"
  shows "spent d (s\<lparr>er_implementations := bt_insert i v' (er_implementations s)\<rparr>)"
  using assms by (cases d) (auto simp: spent_def state_at_def attempt_of_def bt_insert_lookup split: option.splits)

lemma round_maps_ok: "round_ok s \<Longrightarrow> bt_ok (er_turns s)" "round_ok s \<Longrightarrow> bt_ok (er_implementations s)"
  by (simp_all add: round_ok_def)

lemma spent_set_state:
  "spent d s \<Longrightarrow> round_ok s \<Longrightarrow> st \<noteq> Queued \<Longrightarrow> spent d (set_state d' st s)"
  by (auto simp: set_state_def round_maps_ok split: dispatch_id.splits option.splits
      intro!: spent_turn spent_implementation)

lemma spent_set_started: "spent d s \<Longrightarrow> round_ok s \<Longrightarrow> spent d (set_started d' now s)"
  by (auto simp: set_started_def round_maps_ok split: dispatch_id.splits option.splits intro!: spent_turn)

lemma spent_set_sent: "spent d s \<Longrightarrow> round_ok s \<Longrightarrow> spent d (set_sent d' now s)"
  by (auto simp: set_sent_def round_maps_ok split: dispatch_id.splits option.splits intro!: spent_implementation)

lemma spent_editor: "spent d s \<Longrightarrow> round_ok s \<Longrightarrow> spent d (set_editor i n s)"
  by (auto simp: set_editor_def round_maps_ok split: option.splits intro!: spent_turn)

lemma spent_diverged: "spent d s \<Longrightarrow> round_ok s \<Longrightarrow> spent d (note_diverged i ps s)"
  by (auto simp: note_diverged_def round_maps_ok split: option.splits intro!: spent_turn)

lemma spent_without:
  assumes "spent d s" "er_turns s' = without_keys rs (er_turns s)" "er_implementations s' = er_implementations s"
  shows "spent d s'"
proof -
  have "map_of (without_keys rs m) i = (if i \<in> set rs then None else map_of m i)" for i and m :: "(bytes \<times> interview_delivery) list"
    by (induction m) (auto simp: without_keys_def)
  with assms show ?thesis by (cases d) (auto simp: spent_def state_at_def)
qed

lemma cancel_answer_turns:
  assumes "cancel_answer i s = (Inr c, s')"
  shows "\<exists>rs. er_turns s' = without_keys rs (er_turns s) \<and> er_implementations s' = er_implementations s"
  by (rule cancel_answer_leaves [OF assms], rule exI, rule conjI, assumption, rule trans, assumption, rule sym, assumption)

lemma spent_cancel_down: "cancel_down i cs s = (Inr r, s') \<Longrightarrow> spent d s \<Longrightarrow> spent d s'"
proof (induction i cs s rule: cancel_down.induct)
  case (1 i cs s)
  show ?case
  proof (cases "ex_answers (er_exploration s) = []")
    case True
    with 1(2,3) show ?thesis by (simp add: cancel_down.simps [of i cs s])
  next
    case False
    let ?latest = "ra_id (last (ex_answers (er_exploration s)))"
    obtain c s1 where c: "cancel_answer ?latest s = (Inr c, s1)"
      using 1(2) False by (auto simp: cancel_down.simps [of i cs s] Let_def split: sum.splits prod.splits)
    from cancel_answer_turns [OF c] 1(3) have spent: "spent d s1" by (auto intro: spent_without)
    show ?thesis
    proof (cases "?latest = i")
      case True
      with 1(2) False c spent show ?thesis by (simp add: cancel_down.simps [of i cs s])
    next
      case other: False
      with 1(2) False c have "cancel_down i (cs @ [c]) s1 = (Inr r, s')"
        by (simp add: cancel_down.simps [of i cs s] Let_def)
      from 1(1) [OF False refl c [symmetric] refl other this spent] show ?thesis .
    qed
  qed
qed

lemma repost_turns:
  assumes "repost attempt_id r p s = (Inr b, s')"
  shows "\<exists>v. er_turns s' = bt_insert (tr_request r) v (er_turns s) \<and> dv_attempt v = attempt_id \<and>
    er_implementations s' = er_implementations s"
proof -
  let ?v = "p\<lparr>dv_attempt := attempt_id, dv_state := Queued, dv_request := r, dv_started_at := None\<rparr>"
  have "er_turns s' = bt_insert (tr_request r) ?v (er_turns s) \<and> er_implementations s' = er_implementations s"
    using assms by (auto simp: repost_def Let_def also_check_def ensure_def split: if_splits)
  then show ?thesis by (intro exI [of _ ?v]) simp
qed

lemma post_new_turns:
  assumes "post_new answer_id request_id attempt_id r s = (Inr b, s')"
  shows "\<exists>v. er_turns s' = bt_insert (tr_request r) v (er_turns s) \<and> dv_attempt v = attempt_id \<and>
    er_implementations s' = er_implementations s"
proof -
  let ?v = "\<lparr>dv_attempt = attempt_id, dv_editor_sequence = None, dv_request = r, dv_state = Queued,
    dv_started_at = None, dv_diverged = []\<rparr>"
  from assms obtain e x s1 where accept: "accept_answer e (tr_answer r) (s\<lparr>er_exploration := x\<rparr>) = (Inr (), s1)"
    and s': "(Inr b, s') = enqueue attempt_id r s1"
    by (auto simp: post_new_def and_then_Inr split: sum.splits if_splits prod.splits)
  from accepted_post [OF accept] have "er_turns s1 = er_turns s \<and> er_implementations s1 = er_implementations s" by auto
  with s' have "er_turns s' = bt_insert (tr_request r) ?v (er_turns s) \<and> er_implementations s' = er_implementations s"
    by (simp add: enqueue_def)
  then show ?thesis by (intro exI [of _ ?v]) simp
qed

lemma spent_post:
  assumes "spent d s" "round_ok s" "post_request answer_id request_id attempt_id r s = (Inr b, s')" "attempt_id \<noteq> attempt_of d"
  shows "spent d s'"
proof -
  have "\<exists>v. er_turns s' = bt_insert (tr_request r) v (er_turns s) \<and> dv_attempt v = attempt_id \<and>
      er_implementations s' = er_implementations s"
    using assms(3) repost_turns post_new_turns by (auto simp: post_request_def Let_def split: if_splits option.splits)
  then obtain v where v: "er_turns s' = bt_insert (tr_request r) v (er_turns s)" "dv_attempt v = attempt_id"
    "er_implementations s' = er_implementations s" by blast
  have "spent d (s\<lparr>er_turns := bt_insert (tr_request r) v (er_turns s)\<rparr>)"
    using v(2) assms(4) by (intro spent_turn [OF assms(1) round_maps_ok(1) [OF assms(2)]]) simp
  moreover have "spent d s' = spent d (s\<lparr>er_turns := bt_insert (tr_request r) v (er_turns s)\<rparr>)"
    by (rule spent_cong) (simp_all add: v)
  ultimately show ?thesis by simp
qed

lemma spent_post_change:
  assumes "spent d s" "round_ok s" "allowed s (PostEvent answer_id request_id attempt_id r retried editor)"
    "persist_request answer_id request_id attempt_id r retried editor s = (Inr b, s')" "attempt_id \<noteq> attempt_of d"
  shows "spent d s'"
proof -
  from assms(4) obtain s1 where s1: "post_request answer_id request_id attempt_id r s = (Inr b, s1)"
    and s': "s' = s1 \<or> (\<exists>a. s' = s1\<lparr>er_last_session := a\<rparr>) \<or> (\<exists>n. s' = set_editor (tr_request r) n s1) \<or>
      (\<exists>a n. s' = set_editor (tr_request r) n (s1\<lparr>er_last_session := a\<rparr>))"
    by (auto simp: persist_request_def Let_def split: prod.splits sum.splits option.splits if_splits)
  have "round_ok s1" using assms(2,3) s1 by (auto simp: allowed_def intro: post_keeps)
  moreover from spent_post [OF assms(1,2) s1 assms(5)] have "spent d s1" .
  moreover have "spent d (s1\<lparr>er_last_session := a\<rparr>) = spent d s1" for a by (rule spent_cong) simp_all
  ultimately show ?thesis using s' by (auto simp: round_ok_unread spent_editor)
qed

lemma spent_submit_change:
  assumes "spent d s" "round_ok s" "submit_change U W now u ps s = (Inr b, s')"
  shows "spent d s'"
proof -
  from assms(3) obtain s1 where s1: "round_submit U W now u s = (Inr b, s1)"
    and s': "s' = s1 \<or> b \<and> s' = note_completion u (note_diverged (iu_request u) ps s1)"
    by (auto simp: submit_change_def split: prod.splits sum.splits bool.splits)
  have same: "er_turns s1 = er_turns s" "er_implementations s1 = er_implementations s"
    using s1 by (auto simp: round_submit_def split: sum.splits prod.splits bool.splits)
  have spent: "spent d s1" using assms(1) spent_cong [OF same] by simp
  have noted: "spent d (note_completion u s2) = spent d s2" for s2
    by (rule spent_cong) (simp_all add: note_completion_def)
  have ok: "round_ok s1" if b using round_submit_keeps(1) [OF assms(2), of U W now u s1] that s1 by simp
  from s' show ?thesis
  proof (elim disjE conjE)
    assume "b" and s': "s' = note_completion u (note_diverged (iu_request u) ps s1)"
    from spent_diverged [OF spent ok [OF \<open>b\<close>]] show ?thesis by (simp only: s' noted)
  qed (simp only: spent)
qed

lemma spent_authorize:
  assumes "spent d s" "round_ok s" "attempt_id \<noteq> attempt_of d"
  shows "spent d (snd (authorize delivery_id attempt_id r s))"
  using authorize_cases [of delivery_id attempt_id r s] assms
  by (auto simp: round_maps_ok intro!: spent_implementation)

text \<open>The delivery that is queued again has the new attempt.\<close>

lemma spent_admit:
  assumes "spent d s" "round_ok s" "attempt_id \<noteq> []" "attempt_id \<noteq> attempt_of d"
    "admit delivery_id attempt_id r sending s = (Inr (), s')"
  shows "spent d s'"
proof -
  from assms(5) obtain q s1 where a: "authorize delivery_id attempt_id r s = (Inr q, s1)"
    and q: "set_queued (ir_delivery r) s1 = (Inr (), s')"
    by (auto simp: admit_def and_then_Inr split: if_splits)
  from spent_authorize [OF assms(1,2,4), of delivery_id r] authorize_keeps [OF assms(2,3), of delivery_id r] a
  have ok: "spent d s1" "round_ok s1" by simp_all
  have "\<exists>v. map_of (er_implementations s1) (ir_delivery r) = Some v \<and> im_attempt v = attempt_id"
    using a assms(2)
    by (auto simp: authorize_def Let_def also_check_def ensure_def bt_insert_lookup round_maps_ok
        split: if_splits sum.splits option.splits)
  with q obtain v where "im_attempt v = attempt_id"
    "s' = s1\<lparr>er_implementations := bt_insert (ir_delivery r) (v\<lparr>im_state := Queued\<rparr>) (er_implementations s1)\<rparr>"
    by (auto simp: set_queued_def)
  with ok assms(4) show ?thesis by (auto simp: round_maps_ok intro!: spent_implementation)
qed

lemma spent_change:
  assumes "spent d s" "round_ok s" "allowed s e" "new_attempts d e" "round_change U e s = (Inr (), s')"
  shows "spent d s'"
proof (cases e)
  case (PostEvent a i t r g n)
  with assms obtain b where "persist_request a i t r g n s = (Inr b, s')" by (auto simp: round_change_def discard_ok)
  from spent_post_change [OF assms(1,2) assms(3) [unfolded PostEvent] this] assms(4) PostEvent show ?thesis
    by (simp add: new_attempts_def)
next
  case (SubmitEvent W n u ps)
  with assms obtain b where "submit_change U W n u ps s = (Inr b, s')" by (auto simp: round_change_def discard_ok)
  from spent_submit_change [OF assms(1,2) this] show ?thesis .
next
  case (CancelEvent i)
  with assms obtain r where "cancel_answers_from i s = (Inr r, s')" by (auto simp: round_change_def discard_ok)
  then have "cancel_down i [] s = (Inr r, s')" by (simp add: cancel_answers_from_def split: if_splits)
  from spent_cancel_down [OF this assms(1)] show ?thesis .
next
  case (AdmitEvent i t r b)
  with assms have "admit i t r b s = (Inr (), s')" "t \<noteq> []" "t \<noteq> attempt_of d"
    by (simp_all add: round_change_def allowed_def new_attempts_def)
  from spent_admit [OF assms(1,2) this(2,3,1)] show ?thesis .
next
  case (BeginEvent n i a)
  let ?s = "s\<lparr>er_last_session := binding_of a\<rparr>"
  have "spent d ?s" "round_ok ?s" using assms(1,2) spent_cong [of ?s s d] by (simp_all add: round_ok_unread)
  moreover have "s' = set_started i n (set_state i Attempting ?s)"
    using assms(5) BeginEvent by (auto simp: round_change_def begin_dispatch_def Let_def split: if_splits option.splits)
  ultimately show ?thesis by (simp add: spent_set_started spent_set_state set_state_keeps)
next
  case (FinishEvent n i b r)
  have "dispatch_outcome r \<noteq> Queued"
    by (auto simp: dispatch_outcome_def split: sum.splits prompt_error.splits)
  with assms(1,2) have "spent d (set_state i (dispatch_outcome r) s)" "round_ok (set_state i (dispatch_outcome r) s)"
    by (simp_all add: spent_set_state set_state_keeps)
  with assms(1,5) FinishEvent show ?thesis
    by (auto simp: round_change_def finish_dispatch_def dispatched_def Let_def spent_set_sent split: option.splits if_splits)
next
  case (DivergedEvent i ps)
  with assms(1,2,5) show ?thesis by (auto simp: round_change_def spent_diverged)
next
  case (ReviseEvent W i v)
  with assms(1,5) show ?thesis
    by (auto simp: round_change_def discard_ok revise_change_def split: prod.splits intro: spent_cong [THEN iffD2])
next
  case (FailEvent i a t)
  with assms(1,5) show ?thesis
    by (auto simp: round_change_def discard_ok fail_turn_def split: prod.splits if_splits intro: spent_cong [THEN iffD2])
next
  case (QuizEvent c r)
  with assms(1,5) show ?thesis
    by (auto simp: round_change_def discard_ok on_interview_def split: prod.splits intro: spent_cong [THEN iffD2])
next
  case (DiagramEvent g)
  with assms(1,5) show ?thesis
    by (auto simp: round_change_def discard_ok on_interview_def split: prod.splits intro: spent_cong [THEN iffD2])
qed (use assms in \<open>auto simp: round_change_def intro: spent_cong [THEN iffD2]\<close>)

interpretation spent_along: kept_along U "new_attempts d" "spent d" for U d
proof unfold_locales
  show "spent d s'" if "spent d s" "round_ok s" "allowed s e" "new_attempts d e" "round_change U e s = (Inr (), s')" for s e s'
    using that by (rule spent_change)
  show "spent d (s\<lparr>er_revision := n\<rparr>)" if "spent d s" for s n
    using that spent_cong [of "s\<lparr>er_revision := n\<rparr>" s d] by simp
  show "spent d (stored_round s)" if "spent d s" for s
    using that spent_cong [of "stored_round s" s d] by simp
qed

lemma begun_spent:
  assumes "round_ok s" "begin_dispatch now d a s = (Inr (), s')"
  shows "spent d s'" "round_ok s'"
proof -
  let ?s = "s\<lparr>er_last_session := binding_of a\<rparr>"
  have s': "s' = set_started d now (set_state d Attempting ?s)" and "state_at d ?s = Some Queued"
    using assms(2) by (auto simp: begin_dispatch_def Let_def split: if_splits option.splits)
  have ok: "round_ok ?s" using assms(1) by (simp add: round_ok_unread)
  have "spent d (set_state d Attempting ?s)"
    using round_maps_ok [OF ok]
    by (cases d) (auto simp: spent_def state_at_def set_state_def bt_insert_lookup split: option.splits)
  then show "spent d s'" unfolding s' by (rule spent_set_started [OF _ set_state_keeps [OF ok]])
  show "round_ok s'" using begin_dispatch_keeps [OF assms(1), of now d a] assms(2) by simp
qed

lemma spent_refused: "spent d s \<Longrightarrow> \<exists>e. fst (begin_dispatch now d a s) = Inl e"
  by (auto simp: begin_dispatch_def Let_def spent_def state_at_def split: option.splits dispatch_id.splits)

end
