(* ===== verification/ExploreSamples.thy ===== *)
theory ExploreSamples
  imports ExploreDispatch
begin

text \<open>
  A small Explore round, on which the properties of rounds are applied: the kickoff, the agent's first turn with one
  topic and its question, the reviewer's answer, and the turn that reads the answer and concludes.
\<close>

definition plain_unicode :: unicode where
  "plain_unicode = \<lparr>uc_lower = id, uc_alphanumeric = (\<lambda>_. True), uc_debug = id\<rparr>"

definition calm_worktree :: worktree where
  "calm_worktree =
     \<lparr>wt_is_file = (\<lambda>_. Inr True), wt_canonical = Inr, wt_read = (\<lambda>_. Inr []), wt_base = (\<lambda>_ _. Inr [])\<rparr>"

definition small_identity :: snapshot_identity where
  "small_identity = Git ''ba5e'' ''main'' ''c1''"

definition small_snapshot :: snapshot where
  "small_snapshot = \<lparr>sn_identity = small_identity, sn_files = []\<rparr>"

definition small_checkpoint :: review_checkpoint where
  "small_checkpoint = \<lparr>ck_review_unit = ''ba5e'', ck_checkpoint = ''c1''\<rparr>"

definition small_comparison :: comparison where
  "small_comparison =
     \<lparr>cm_root = ''/w'', cm_checkpoint = small_checkpoint, cm_files = [], cm_context = [], cm_diffs = [], cm_manifest = [],
      cm_sources = [], cm_base = Some small_identity\<rparr>"

definition small_repo :: repo where
  "small_repo =
     \<lparr>rp_identity = Inr small_identity, rp_diff = (\<lambda>_ _. Inr []), rp_file_at = (\<lambda>_ _. Inr []),
      rp_base_file_at = (\<lambda>_ _. Inr []), rp_interdiff = (\<lambda>_ _ _. Inr MissingBaseline),
      rp_compare = (\<lambda>_ plan. Inr (\<lambda>b. map_option (\<lambda>_. Missing) (plan b)))\<rparr>"

lemma small_prepared: "prepare id calm_worktree small_repo ''/w'' small_snapshot = Prepared small_comparison"
  by (simp add: prepare_def small_snapshot_def small_comparison_def small_checkpoint_def small_identity_def
      review_unit_def snapshot_id_def)

definition small_request :: "bytes \<Rightarrow> reviewer_answer option \<Rightarrow> turn_request" where
  "small_request i a =
     \<lparr>tr_instance = ''x'', tr_request = i, tr_checkpoint = small_checkpoint, tr_answer = a, tr_cancelled = [],
      tr_response_error = None, tr_challenger = False, tr_author = ByReviewer, tr_reviewer = None, tr_writing = Plain\<rparr>"

definition kickoff :: turn_request where "kickoff = small_request ''k'' None"

definition small_part :: design_part where "small_part = \<lparr>dp_thesis = Some ''t'', dp_body = ''b''\<rparr>"

definition small_design :: design where
  "small_design =
     \<lparr>de_thesis = Some ''t'', de_overview = small_part, de_data_flow = small_part, de_algorithm = small_part,
      de_alternatives = small_part\<rparr>"

definition small_topic :: topic where
  "small_topic =
     \<lparr>tp_id = ''t'', tp_title = ''T'', tp_entries = [], tp_status = TopicOpen, tp_prompt = [], tp_prerequisites = [],
      tp_rank = 0\<rparr>"

definition small_evidence :: evidence_ref where
  "small_evidence = \<lparr>ev_location = \<lparr>lo_path = ''f'', lo_side = OldSide, lo_lines = None\<rparr>, ev_notes = ''n''\<rparr>"

definition small_choice :: alternative where
  "small_choice = \<lparr>ch_id = ''y'', ch_text = ''yes'', ch_outcome = TopicAccepted, ch_recommendation = None\<rparr>"

definition small_question :: question where
  "small_question =
     \<lparr>qu_id = ''q'', qu_version = 1, qu_topic = ''t'', qu_text = ''Q'', qu_rationale = None, qu_visual = None,
      qu_alternatives = [small_choice, small_choice\<lparr>ch_id := ''n'', ch_text := ''no'', ch_outcome := TopicOpen\<rparr>],
      qu_evidence = [small_evidence], qu_assessments = None\<rparr>"

definition empty_update :: "bytes \<Rightarrow> interview_update" where
  "empty_update i =
     \<lparr>iu_instance = ''x'', iu_request = i, iu_checkpoint = small_checkpoint, iu_interpretation = None, iu_reviewed = [],
      iu_reopened = [], iu_not_relevant = [], iu_proposals = [], iu_reply = None, iu_design = None, iu_glossary = [],
      iu_agenda = [], iu_topics = [], iu_next = None, iu_conclusion = None, iu_limitations = [], iu_findings = []\<rparr>"

definition first_update :: interview_update where
  "first_update = (empty_update ''k'')
     \<lparr>iu_design := Some small_design, iu_topics := [small_topic], iu_next := Some small_question\<rparr>"

definition small_answer :: reviewer_answer where
  "small_answer =
     \<lparr>ra_id = ''a'', ra_checkpoint = small_checkpoint, ra_question = Some small_question, ra_in_reply_to = ''k'',
      ra_option = Some small_choice, ra_text = [], ra_author = ''reviewer'', ra_first_pick = None, ra_drawing_board = False\<rparr>"

definition answering :: turn_request where "answering = small_request ''r'' (Some small_answer)"

definition last_update :: interview_update where
  "last_update = (empty_update ''r'')
     \<lparr>iu_interpretation := Some \<lparr>ip_answer = ''a'', ip_status = TopicAccepted, ip_recap = ''R'', ip_follow_ups = []\<rparr>,
      iu_conclusion := Some \<lparr>co_summary = ''S'', co_to_be_implemented = [], co_future_work = [], co_quiz = [],
        co_quiz_empty_reason = Some ''small''\<rparr>\<rparr>"

section \<open>The rounds\<close>

definition small_delivery :: "bytes \<Rightarrow> turn_request \<Rightarrow> interview_delivery" where
  "small_delivery t r =
     \<lparr>dv_attempt = t, dv_editor_sequence = None, dv_request = r, dv_state = Queued, dv_started_at = None, dv_diverged = []\<rparr>"

definition opened_interview :: exploration where
  "opened_interview = (exploration_new ''x'' small_comparison)\<lparr>ex_outstanding := Some kickoff, ex_retry := Some kickoff\<rparr>"

definition opened_round :: explore_round where
  "opened_round = (round_new opened_interview)\<lparr>er_turns := [(''k'', small_delivery ''t1'' kickoff)]\<rparr>"

definition asked_round :: explore_round where
  "asked_round = opened_round\<lparr>er_exploration := (exploration_new ''x'' small_comparison)
     \<lparr>ex_topics := [(''t'', small_topic)], ex_questions := [small_question],
      ex_conversation := [\<lparr>ct_answer = None, ct_update = first_update, ct_revision = None\<rparr>]\<rparr>\<rparr>"

definition answered_round :: explore_round where
  "answered_round = asked_round
     \<lparr>er_exploration := (er_exploration asked_round)\<lparr>ex_answers := [small_answer], ex_outstanding := Some answering,
        ex_retry := Some answering\<rparr>,
      er_turns := [(''k'', small_delivery ''t1'' kickoff), (''r'', small_delivery ''t2'' answering)]\<rparr>"

definition concluded_round :: explore_round where
  "concluded_round = answered_round
     \<lparr>er_exploration := (er_exploration asked_round)
        \<lparr>ex_answers := [small_answer], ex_topics := [(''t'', small_topic\<lparr>tp_status := TopicAccepted\<rparr>)],
         ex_interpretations := optional (iu_interpretation last_update), ex_conclusion := iu_conclusion last_update,
         ex_conversation := [\<lparr>ct_answer = None, ct_update = first_update, ct_revision = None\<rparr>,
           \<lparr>ct_answer = Some ''a'', ct_update = last_update, ct_revision = None\<rparr>]\<rparr>,
      er_completion := Some \<lparr>cn_request = ''r'', cn_baseline = ''c1''\<rparr>\<rparr>"

lemmas small_defs = opened_interview_def opened_round_def asked_round_def answered_round_def concluded_round_def
  small_delivery_def kickoff_def answering_def small_request_def first_update_def last_update_def empty_update_def
  small_answer_def small_question_def small_choice_def small_evidence_def small_topic_def small_design_def small_part_def

lemma opened: "open_round ''a'' ''r'' ''t1'' kickoff small_comparison None = Inr opened_round"
  by code_simp

lemma asked: "submit_change plain_unicode calm_worktree 7 first_update [] opened_round = (Inr True, asked_round)"
  by code_simp

lemma answered: "persist_request ''b'' ''c'' ''t2'' answering None None asked_round = (Inr True, answered_round)"
  by code_simp

lemma concluded: "submit_change plain_unicode calm_worktree 9 last_update [] answered_round = (Inr True, concluded_round)"
  by code_simp

end
