(* ===== verification/ExploreGrowth.thy ===== *)
theory ExploreGrowth
  imports ExploreDispatch
begin

text \<open>
  How a change moves the conversation of a round: it grows at the end, by at most one turn, unless answers are
  cancelled, and a turn that is added follows the latest answer or what the turn before it follows.
\<close>

definition posts :: "round_event \<Rightarrow> bool" where
  "posts e \<longleftrightarrow> (case e of PostEvent _ _ _ _ _ _ \<Rightarrow> True | _ \<Rightarrow> False)"

definition cancels :: "round_event \<Rightarrow> bool" where
  "cancels e \<longleftrightarrow> (case e of CancelEvent _ \<Rightarrow> True | _ \<Rightarrow> False)"

definition admits :: "round_event \<Rightarrow> bool" where
  "admits e \<longleftrightarrow> (case e of AdmitEvent _ _ _ _ \<Rightarrow> True | _ \<Rightarrow> False)"

definition adds_turn :: "exploration \<Rightarrow> exploration \<Rightarrow> conversation_turn \<Rightarrow> bool" where
  "adds_turn x y t \<longleftrightarrow>
     ex_conversation y = ex_conversation x @ [t] \<and>
     (ct_answer t = map_option ra_id (latest_answer x) \<or>
      ex_retry x = None \<and> ex_conversation x \<noteq> [] \<and> ct_answer t = ct_answer (last (ex_conversation x)))"

definition stays_quiet :: "exploration \<Rightarrow> exploration \<Rightarrow> bool" where
  "stays_quiet x y \<longleftrightarrow>
     ex_instance y = ex_instance x \<and> ex_answers y = ex_answers x \<and>
     (ex_conversation y = ex_conversation x \<and> (ex_retry y = None \<longleftrightarrow> ex_retry x = None) \<or> (\<exists>t. adds_turn x y t))"

lemma quiet_refl [simp]: "stays_quiet x x"
  by (simp add: stays_quiet_def)

lemma quiet_idle: "ex_instance y = ex_instance x \<Longrightarrow> ex_answers y = ex_answers x \<Longrightarrow>
    ex_conversation y = ex_conversation x \<Longrightarrow> (ex_retry y = None) = (ex_retry x = None) \<Longrightarrow> stays_quiet x y"
  by (simp add: stays_quiet_def)

lemma set_state_interview [simp]: "er_exploration (set_state d st s) = er_exploration s"
  "er_exploration (set_started d now s) = er_exploration s" "er_exploration (set_sent d now s) = er_exploration s"
  by (simp_all add: set_state_def set_started_def set_sent_def split: dispatch_id.splits option.splits)

lemma set_state_unimplemented:
  assumes "er_implementations s = []"
  shows "er_implementations (set_state d st s) = []" "er_implementations (set_started d now s) = []"
    "er_implementations (set_sent d now s) = []"
  using assms by (simp_all add: set_state_def set_started_def set_sent_def split: dispatch_id.splits option.splits)

lemma submit_change_quiet:
  assumes "round_ok s" "submit_change U W now u ps s = (Inr b, s')"
  shows "stays_quiet (er_exploration s) (er_exploration s')" "er_implementations s' = er_implementations s"
    "b \<Longrightarrow> \<exists>t. ct_update t = u \<and> ex_conversation (er_exploration s') = ex_conversation (er_exploration s) @ [t]"
proof -
  from assms(2) obtain s1 where s1: "round_submit U W now u s = (Inr b, s1)"
    and s': "s' = s1 \<or> s' = note_completion u (note_diverged (iu_request u) ps s1)"
    by (auto simp: submit_change_def split: prod.splits sum.splits bool.splits)
  have keep: "er_exploration s' = er_exploration s1" "er_implementations s' = er_implementations s1"
    using s' by (auto simp: note_completion_def note_diverged_def split: option.splits)
  have "stays_quiet (er_exploration s) (er_exploration s1) \<and> er_implementations s1 = er_implementations s \<and>
      (b \<longrightarrow> (\<exists>t. ct_update t = u \<and> ex_conversation (er_exploration s1) = ex_conversation (er_exploration s) @ [t]))"
  proof (cases b)
    case True
    with s1 obtain x m where x: "submit U W u (er_exploration s) = (Inr True, x)"
      and s1': "s1 = s\<lparr>er_exploration := x\<lparr>ex_elapsed := m\<rparr>\<rparr>"
      by (auto dest: round_submit_taken)
    obtain r where "x = (with_turn (er_exploration s)
        \<lparr>ct_answer = map_option ra_id (latest_answer (er_exploration s)), ct_update = u, ct_revision = None\<rparr>)
        \<lparr>ex_outstanding := None, ex_retry := None\<rparr>"
      using submit_turn [OF interview_of [OF assms(1)] x] by metis
    then show ?thesis by (simp add: stays_quiet_def adds_turn_def s1')
  next
    case False
    with s1 have "s1 = s" by (auto simp: round_submit_def split: sum.splits prod.splits bool.splits)
    with False show ?thesis by simp
  qed
  then show "stays_quiet (er_exploration s) (er_exploration s')" "er_implementations s' = er_implementations s"
    "b \<Longrightarrow> \<exists>t. ct_update t = u \<and> ex_conversation (er_exploration s') = ex_conversation (er_exploration s) @ [t]"
    by (simp_all add: keep)
qed

lemma revise_change_quiet:
  assumes "revise_change U W i v s = (Inr b, s')"
  shows "stays_quiet (er_exploration s) (er_exploration s') \<and> er_implementations s' = er_implementations s"
proof -
  let ?x = "er_exploration s"
  from assms obtain y where y: "revise U W i v ?x = (Inr b, y)" "s' = s\<lparr>er_exploration := y\<rparr>"
    by (auto simp: revise_change_def split: prod.splits)
  show ?thesis
  proof (cases b)
    case True
    with y have "revise U W i v ?x = (Inr True, y)" by simp
    from revise_turn [OF this] obtain t where "ex_conversation ?x \<noteq> []" "ex_retry ?x = None" "y = with_turn ?x t"
      "ct_answer t = ct_answer (last (ex_conversation ?x))"
      by (metis conversation_turn.select_convs(1))
    then show ?thesis by (simp add: y stays_quiet_def adds_turn_def)
  next
    case False
    with y(1) have "y = ?x" by (auto simp: revise_def revise_open_def Let_def split: if_splits option.splits sum.splits)
    then show ?thesis by (simp add: y)
  qed
qed

lemma change_quiet:
  assumes "round_ok s" "round_change U e s = (Inr (), s')" "\<not> posts e" "\<not> cancels e" "\<not> admits e"
  shows "stays_quiet (er_exploration s) (er_exploration s') \<and> (er_implementations s = [] \<longrightarrow> er_implementations s' = [])"
proof (cases e)
  case (SubmitEvent W n u ps)
  with assms obtain b where "submit_change U W n u ps s = (Inr b, s')" by (auto simp: round_change_def discard_ok)
  from submit_change_quiet(1,2) [OF assms(1) this] show ?thesis by simp
next
  case (ReviseEvent W i v)
  with assms obtain b where "revise_change U W i v s = (Inr b, s')" by (auto simp: round_change_def discard_ok)
  from revise_change_quiet [OF this] show ?thesis by simp
next
  case (BeginEvent n i a)
  then show ?thesis
    using assms(2) by (auto simp: round_change_def begin_dispatch_def Let_def set_state_unimplemented
        split: if_splits option.splits)
next
  case (FinishEvent n i b r)
  then show ?thesis
    using assms(2) by (auto simp: round_change_def finish_dispatch_def dispatched_def Let_def set_state_unimplemented
        split: if_splits option.splits)
next
  case (DivergedEvent i ps)
  then show ?thesis
    using assms(2) by (auto simp: round_change_def note_diverged_def split: option.splits)
next
  case (FailEvent i a t)
  then show ?thesis
    using assms(2) by (auto simp: round_change_def discard_ok fail_turn_def failed_def split: if_splits intro!: quiet_idle)
next
  case (QuizEvent c r)
  then show ?thesis
    using assms(2)
    by (auto simp: round_change_def discard_ok on_interview_def answer_quiz_def Let_def split: if_splits prod.splits
        intro!: quiet_idle)
next
  case (DiagramEvent g)
  then show ?thesis
    using assms(2)
    by (auto simp: round_change_def discard_ok on_interview_def record_diagram_error_def split: if_splits prod.splits
        intro!: quiet_idle)
next
  case StopEvent
  then show ?thesis using assms(2) by (auto simp: round_change_def cancel_def intro!: quiet_idle)
qed (use assms in \<open>auto simp: round_change_def posts_def cancels_def admits_def\<close>)

text \<open>Posting and admitting leave the conversation.\<close>

lemma post_conversation:
  assumes "post_request answer_id request_id attempt_id r s = (Inr b, s')"
  shows "ex_conversation (er_exploration s') = ex_conversation (er_exploration s) \<and>
    ex_instance (er_exploration s') = ex_instance (er_exploration s)"
proof -
  have "ex_conversation (er_exploration s') = ex_conversation (er_exploration s) \<and>
      ex_instance (er_exploration s') = ex_instance (er_exploration s)"
    if "repost attempt_id r p s = (Inr b, s')" for p
    using that by (auto simp: repost_def Let_def also_check_def ensure_def split: if_splits)
  moreover have "ex_conversation (er_exploration s') = ex_conversation (er_exploration s) \<and>
      ex_instance (er_exploration s') = ex_instance (er_exploration s)"
    if "post_new answer_id request_id attempt_id r s = (Inr b, s')"
  proof -
    from that obtain e s1 where
      accept: "accept_answer e (tr_answer r) (s\<lparr>er_exploration := (er_exploration s)\<lparr>ex_cancelled := []\<rparr>\<rparr>) = (Inr (), s1)"
      and s': "(Inr b, s') = enqueue attempt_id r s1"
      by (auto simp: post_new_def and_then_Inr split: sum.splits if_splits prod.splits)
    from accepted_post [OF accept] s' show ?thesis by (auto simp: enqueue_def)
  qed
  ultimately show ?thesis using assms by (auto simp: post_request_def Let_def split: if_splits option.splits)
qed

lemma change_grows:
  assumes "round_ok s" "round_change U e s = (Inr (), s')" "\<not> cancels e"
  shows "(\<exists>ts. ex_conversation (er_exploration s') = ex_conversation (er_exploration s) @ ts) \<and>
    ex_instance (er_exploration s') = ex_instance (er_exploration s)"
proof (cases "posts e \<or> admits e")
  case False
  with change_quiet [OF assms(1,2)] assms(3) show ?thesis by (auto simp: stays_quiet_def adds_turn_def)
next
  case True
  then consider a i t r g n where "e = PostEvent a i t r g n" | d a r b where "e = AdmitEvent d a r b"
    by (cases e) (auto simp: posts_def admits_def)
  then show ?thesis
  proof cases
    case 1
    with assms(2) obtain b where "persist_request a i t r g n s = (Inr b, s')" by (auto simp: round_change_def discard_ok)
    then obtain s1 where "post_request a i t r s = (Inr b, s1)" "er_exploration s' = er_exploration s1"
      by (auto simp: persist_request_def set_editor_def Let_def split: prod.splits sum.splits option.splits if_splits)
    with post_conversation show ?thesis by (metis append_Nil2)
  next
    case 2
    with assms(2) have "admit d a r b s = (Inr (), s')" by (simp add: round_change_def)
    then obtain q s1 where "authorize d a r s = (Inr q, s1)" "er_exploration s' = er_exploration s1"
      by (auto simp: admit_def and_then_Inr set_queued_def split: if_splits option.splits)
    with authorize_cases [of d a r s] have "er_exploration s' = er_exploration s" by auto
    then show ?thesis by simp
  qed
qed

lemma cancel_answer_interview:
  assumes "cancel_answer i s = (Inr c, s')"
  shows "\<exists>m. er_exploration s' = (withdraw i (er_exploration s))\<lparr>ex_elapsed := m\<rparr>"
  by (rule cancel_answer_leaves [OF assms], rule exI, assumption)

lemma cancel_down_instance:
  "round_ok s \<Longrightarrow> cancel_down i cs s = (Inr r, s') \<Longrightarrow> ex_instance (er_exploration s') = ex_instance (er_exploration s)"
proof (induction i cs s rule: cancel_down.induct)
  case (1 i cs s)
  show ?case
  proof (cases "ex_answers (er_exploration s) = []")
    case True
    with 1(2,3) show ?thesis by (simp add: cancel_down.simps [of i cs s])
  next
    case False
    let ?latest = "ra_id (last (ex_answers (er_exploration s)))"
    obtain c s1 where c: "cancel_answer ?latest s = (Inr c, s1)"
      using 1(3) False by (auto simp: cancel_down.simps [of i cs s] Let_def split: sum.splits prod.splits)
    from cancel_answer_keeps [OF 1(2) c] have ok: "round_ok s1" .
    have same: "ex_instance (er_exploration s1) = ex_instance (er_exploration s)"
      using cancel_answer_interview [OF c] withdraw_eq(4) [OF interview_of [OF 1(2)] False refl] by auto
    show ?thesis
    proof (cases "?latest = i")
      case True
      with 1(3) False c same show ?thesis by (simp add: cancel_down.simps [of i cs s])
    next
      case other: False
      with 1(3) False c have "cancel_down i (cs @ [c]) s1 = (Inr r, s')"
        by (simp add: cancel_down.simps [of i cs s] Let_def)
      from 1(1) [OF False refl c [symmetric] refl other ok this] same show ?thesis by simp
    qed
  qed
qed

lemma change_instance:
  assumes "round_ok s" "round_change U e s = (Inr (), s')"
  shows "ex_instance (er_exploration s') = ex_instance (er_exploration s)"
proof (cases "cancels e")
  case True
  then obtain i where "e = CancelEvent i" by (cases e) (auto simp: cancels_def)
  with assms(2) obtain r where "cancel_down i [] s = (Inr r, s')"
    by (auto simp: round_change_def discard_ok cancel_answers_from_def split: if_splits)
  from cancel_down_instance [OF assms(1) this] show ?thesis .
qed (use change_grows [OF assms] in simp)

end
