(* ===== verification/ExploreProperties.thy ===== *)
theory ExploreProperties
  imports ExploreSamples ExploreGrowth
begin

text \<open>The properties of Explore rounds, each applied to the round of \<open>ExploreSamples\<close>.\<close>

section \<open>Taking an answer back\<close>

definition agent_only :: "round_event \<Rightarrow> bool" where
  "agent_only e \<longleftrightarrow> \<not> posts e \<and> \<not> cancels e \<and> \<not> admits e"

text \<open>Since \<open>s\<close>, whose latest answer is \<open>a\<close>, only turns came that follow it.\<close>

definition only_followed :: "explore_round \<Rightarrow> reviewer_answer list \<Rightarrow> reviewer_answer \<Rightarrow> explore_round \<Rightarrow> bool" where
  "only_followed s as a s' \<longleftrightarrow>
     ex_answers (er_exploration s') = as @ [a] \<and> er_implementations s' = [] \<and>
     (\<exists>ts. ex_conversation (er_exploration s') = ex_conversation (er_exploration s) @ ts \<and>
        (\<forall>t \<in> set ts. ct_answer t = Some (ra_id a)) \<and> (ts = [] \<longrightarrow> ex_retry (er_exploration s') \<noteq> None))"

lemma only_followed_change:
  assumes "only_followed s as a s1" "round_ok s1" "agent_only e" "round_change U e s1 = (Inr (), s2)"
  shows "only_followed s as a s2"
proof -
  let ?x = "er_exploration s1" and ?y = "er_exploration s2"
  from assms(1) obtain ts where before: "ex_answers ?x = as @ [a]" "er_implementations s1 = []"
    "ex_conversation ?x = ex_conversation (er_exploration s) @ ts" "\<forall>t \<in> set ts. ct_answer t = Some (ra_id a)"
    "ts = [] \<longrightarrow> ex_retry ?x \<noteq> None" by (auto simp: only_followed_def)
  have q: "stays_quiet ?x ?y" "er_implementations s2 = []"
    using change_quiet [OF assms(2,4)] assms(3) before(2) by (simp_all add: agent_only_def)
  have answers: "ex_answers ?y = as @ [a]" using q(1) before(1) by (simp add: stays_quiet_def)
  have "\<exists>us. ex_conversation ?y = ex_conversation (er_exploration s) @ us \<and>
      (\<forall>t \<in> set us. ct_answer t = Some (ra_id a)) \<and> (us = [] \<longrightarrow> ex_retry ?y \<noteq> None)"
  proof (cases "\<exists>t. adds_turn ?x ?y t")
    case True
    then obtain t where t: "ex_conversation ?y = ex_conversation ?x @ [t]"
      "ct_answer t = map_option ra_id (latest_answer ?x) \<or> ex_retry ?x = None \<and> ct_answer t = ct_answer (last (ex_conversation ?x))"
      by (auto simp: adds_turn_def)
    have "ct_answer t = Some (ra_id a)"
      using t(2)
    proof
      assume "ct_answer t = map_option ra_id (latest_answer ?x)"
      then show ?thesis by (simp add: latest_answer_def before(1))
    next
      assume revised: "ex_retry ?x = None \<and> ct_answer t = ct_answer (last (ex_conversation ?x))"
      with before(5) have "ts \<noteq> []" by auto
      with revised before(3,4) show ?thesis by simp
    qed
    with t(1) before(3,4) show ?thesis by (intro exI [of _ "ts @ [t]"]) auto
  next
    case False
    with q(1) before(3-5) show ?thesis by (intro exI [of _ ts]) (auto simp: stays_quiet_def)
  qed
  with answers q(2) show ?thesis by (simp add: only_followed_def)
qed

interpretation followed_along: kept_along U agent_only "only_followed s as a" for U s as a
proof unfold_locales
  show "only_followed s as a s'"
    if "only_followed s as a s1" "round_ok s1" "allowed s1 e" "agent_only e" "round_change U e s1 = (Inr (), s')" for s1 e s'
    using that(1,2,4,5) by (rule only_followed_change)
qed (simp_all add: only_followed_def)

lemma posted_answer:
  assumes "post_request answer_id request_id attempt_id r s = (Inr True, s')" "tr_answer r = Some a"
  shows "er_exploration s' = (er_exploration s)\<lparr>ex_cancelled := [], ex_answers := ex_answers (er_exploration s) @ [a],
      ex_outstanding := Some r, ex_retry := Some r\<rparr>"
    "\<not> knows_answer (er_exploration s) (ra_id a)" "er_implementations s' = er_implementations s"
proof -
  let ?x = "er_exploration s"
  have "fst (repost attempt_id r p s) \<noteq> Inr True" for p
    by (auto simp: repost_def Let_def also_check_def ensure_def)
  then have "post_new answer_id request_id attempt_id r s = (Inr True, s')"
    using assms(1) by (auto simp: post_request_def Let_def split: if_splits option.splits) (metis fst_conv)
  then obtain v y s1 where v: "make_request answer_id request_id (map_option input_of (tr_answer r))
      (Option.bind (tr_answer r) ra_question) ?x = (Inr v, y)"
    and accept: "accept_answer (tr_answer v) (tr_answer r) (s\<lparr>er_exploration := ?x\<lparr>ex_cancelled := []\<rparr>\<rparr>) = (Inr (), s1)"
    and s': "(Inr True, s') = enqueue attempt_id r s1"
    by (auto simp: post_new_def and_then_Inr split: sum.splits if_splits prod.splits)
  from request_answer(1) [OF v] assms(2) have "tr_answer v \<noteq> None" by simp
  with accepted_post [OF accept] assms(2) have a: "\<not> knows_answer ?x (ra_id a)"
    "s1 = s\<lparr>er_exploration := ?x\<lparr>ex_cancelled := [], ex_answers := ex_answers ?x @ [a]\<rparr>\<rparr>"
    by (auto simp: knows_answer_def)
  from a(1) show "\<not> knows_answer ?x (ra_id a)" .
  from s' show "er_exploration s' = ?x\<lparr>ex_cancelled := [], ex_answers := ex_answers ?x @ [a], ex_outstanding := Some r,
      ex_retry := Some r\<rparr>" "er_implementations s' = er_implementations s"
    by (simp_all add: enqueue_def a(2))
qed

lemma cancel_latest_answer:
  assumes "er_implementations s = []" "ex_answers (er_exploration s) = as @ [a]"
  shows "\<exists>c s'. cancel_answer (ra_id a) s = (Inr c, s') \<and> cancel_answers_from (ra_id a) s = (Inr [c], s')"
proof -
  let ?x = "er_exploration s"
  let ?s = "s\<lparr>er_exploration := withdraw (ra_id a) ?x\<rparr>"
  obtain taken where latest: "cancel_latest (ra_id a) ?x = (Inr (a, taken), withdraw (ra_id a) ?x)"
    by (simp add: cancel_latest_def Let_def assms(2))
  obtain ms s1 where "foldl forget_request ([], ?s) (deliveries_of (ra_id a) ?s @ optional taken) = (ms, s1)"
    by fastforce
  with latest assms(1) have "\<exists>c s'. cancel_answer (ra_id a) s = (Inr c, s')"
    by (simp add: cancel_answer_def Let_def del: foldl_append split: option.split)
  then obtain c s' where c: "cancel_answer (ra_id a) s = (Inr c, s')" by blast
  moreover have "knows_answer ?x (ra_id a)" by (simp add: knows_answer_def assms(2))
  ultimately show ?thesis
    by (simp add: cancel_answers_from_def cancel_down.simps [of "ra_id a" "[]" s] assms(2))
qed

lemma answer_taken_back:
  assumes "round_ok s2" "cancel_answer (ra_id a) s2 = (Inr c, s3)"
    "ex_answers (er_exploration s2) = as @ [a]" "ex_conversation (er_exploration s2) = ts @ us"
    "\<forall>t \<in> set us. ct_answer t = Some (ra_id a)" "\<forall>t \<in> set ts. ct_answer t \<noteq> Some (ra_id a)"
    "replayed x = x" "ex_conversation x = ts" "ex_answers x = as"
  shows "decided (er_exploration s3) = decided x \<and> ex_answers (er_exploration s3) = as \<and>
    ex_conversation (er_exploration s3) = ts"
proof -
  let ?x2 = "er_exploration s2" and ?x3 = "er_exploration s3" and ?w = "withdraw (ra_id a) (er_exploration s2)"
  have "decided ?x3 = decided ?w \<and> ex_answers ?x3 = ex_answers ?w \<and> ex_conversation ?x3 = ex_conversation ?w"
    using cancel_answer_interview [OF assms(2)] by (auto simp: decided_def)
  moreover have "ex_answers ?x2 \<noteq> []" "ra_id a = ra_id (last (ex_answers ?x2))" by (simp_all add: assms(3))
  note w = withdraw_eq [OF interview_of [OF assms(1)] this]
  have conversation: "ex_conversation ?w = ts"
    using assms(5,6) by (simp add: w(3) assms(4) filter_True filter_False filter_empty_conv)
  moreover have answers: "ex_answers ?w = as" by (simp add: assms(3))
  moreover have "decided ?w = decided x"
  proof -
    have "decided (replayed ?w) = decided (replayed x)"
      using conversation answers assms(8,9)
      by (intro replayed_decided) (simp_all add: answer_named_cong [of ?w x])
    then show ?thesis by (simp add: w(6) assms(7))
  qed
  ultimately show ?thesis by simp
qed

section \<open>Accepted turns\<close>

definition continues :: "explore_round \<Rightarrow> explore_round \<Rightarrow> bool" where
  "continues s s' \<longleftrightarrow>
     (\<exists>ts. ex_conversation (er_exploration s') = ex_conversation (er_exploration s) @ ts) \<and>
     ex_instance (er_exploration s') = ex_instance (er_exploration s)"

interpretation continued_along: kept_along U "Not \<circ> cancels" "continues s" for U s
proof unfold_locales
  show "continues s s'"
    if "continues s s1" "round_ok s1" "allowed s1 e" "(Not \<circ> cancels) e" "round_change U e s1 = (Inr (), s')" for s1 e s'
    using change_grows [OF that(2,5)] that(1,4) by (auto simp: continues_def)
qed (simp_all add: continues_def)

lemma accepted_turn:
  assumes "round_submit U W now u s = (Inr True, s')"
  shows "iu_instance u = ex_instance (er_exploration s)" "turn_of (er_exploration s) (iu_request u) = None"
  using assms
  by (auto simp: round_submit_def submit_def split: sum.splits prod.splits bool.splits if_splits option.splits)

lemma turn_of_accepted:
  assumes "turn_of x (iu_request u) = None" "ct_update t = u" "ex_conversation y = ex_conversation x @ t # ts"
  shows "turn_of y (iu_request u) = Some t"
  using assms by (simp add: turn_of_def find_appended)

section \<open>The status of a topic\<close>

lemma absorb_topics_status:
  "bt_ok m \<Longrightarrow> bt_ok (foldl absorb_topic m ts) \<and>
     map_option tp_status (map_of (foldl absorb_topic m ts) i) =
       (case map_of m i of Some t \<Rightarrow> Some (tp_status t)
        | None \<Rightarrow> if i \<in> tp_id ` set ts then Some TopicOpen else None)"
proof (induction ts arbitrary: m)
  case (Cons t ts)
  have ok: "bt_ok (absorb_topic m t)" using Cons.prems by (simp add: absorb_topic_def bt_insert_ok)
  from Cons.IH [OF this] show ?case
    using bt_insert_lookup [OF Cons.prems] by (auto simp: absorb_topic_def split: option.splits)
qed (simp split: option.splits)

lemma decided_topics_status:
  assumes "bt_ok m"
  shows "bt_ok (decided_topics u a m)"
    "map_option tp_status (map_of (decided_topics u a m) i) =
       (let known = (case map_of m i of Some t \<Rightarrow> Some (tp_status t)
            | None \<Rightarrow> if i \<in> tp_id ` set (iu_topics u) then Some TopicOpen else None)
        in (case (iu_interpretation u, a) of
              (Some ip, Some a) \<Rightarrow> if answered_on a i \<and> known \<noteq> None then Some (ip_status ip) else known
            | _ \<Rightarrow> known))"
proof -
  note absorbed = absorb_topics_status [OF assms, of "iu_topics u"]
  show "bt_ok (decided_topics u a m)"
    using absorbed by (auto simp: decided_topics_def Let_def set_status_def bt_insert_ok split: option.splits)
  have set_status: "map_option tp_status (map_of (set_status j st n) i) =
      (if i = j \<and> map_option tp_status (map_of n i) \<noteq> None then Some st else map_option tp_status (map_of n i))"
    if "bt_ok n" for j st n
    using that by (auto simp: set_status_def bt_insert_lookup split: option.splits)
  let ?n = "foldl absorb_topic m (iu_topics u)"
  define known where "known = (case map_of m i of Some t \<Rightarrow> Some (tp_status t)
    | None \<Rightarrow> if i \<in> tp_id ` set (iu_topics u) then Some TopicOpen else None)"
  have sent: "map_option tp_status (map_of ?n i) = known" using absorbed by (simp add: known_def)
  have "map_option tp_status (map_of (decided_topics u a m) i) =
      (case (iu_interpretation u, a) of
         (Some ip, Some a) \<Rightarrow> if answered_on a i \<and> known \<noteq> None then Some (ip_status ip) else known | _ \<Rightarrow> known)"
  proof (cases "iu_interpretation u")
    case None
    then show ?thesis using sent by (simp add: decided_topics_def Let_def)
  next
    case (Some ip)
    note interpreted = Some
    show ?thesis
    proof (cases a)
      case None
      then show ?thesis using sent by (simp add: decided_topics_def Let_def interpreted)
    next
      case (Some b)
      with interpreted sent set_status [OF conjunct1 [OF absorbed]] show ?thesis
        by (cases "ra_question b") (simp_all add: decided_topics_def Let_def answered_on_def)
    qed
  qed
  then show "map_option tp_status (map_of (decided_topics u a m) i) =
       (let known = (case map_of m i of Some t \<Rightarrow> Some (tp_status t)
            | None \<Rightarrow> if i \<in> tp_id ` set (iu_topics u) then Some TopicOpen else None)
        in (case (iu_interpretation u, a) of
              (Some ip, Some a) \<Rightarrow> if answered_on a i \<and> known \<noteq> None then Some (ip_status ip) else known
            | _ \<Rightarrow> known))"
    by (simp only: known_def Let_def)
qed

lemma replayed_topics_ok: "bt_ok (ex_topics (replayed x))"
proof -
  have "bt_ok (ex_topics (foldl absorb_turn y ts))" if "bt_ok (ex_topics y)" for y ts
    using that by (induction ts arbitrary: y) (simp_all add: absorb_turn_def absorb_eq decided_topics_status(1))
  then show ?thesis by (simp add: replayed_def blank_interview_def)
qed

lemma answered_topic_known:
  assumes "interview_ok x" "a \<in> set (ex_answers x)" "ra_question a = Some q"
  shows "map_of (ex_topics x) (qu_topic q) \<noteq> None"
proof -
  note restored = interview_restored [OF assms(1)]
  have "q \<in> set (ex_questions x)"
    using restored assms(2,3) by (auto simp: validate_restored_def saved_answers_passes)
  then show ?thesis
    using restored by (auto simp: validate_restored_def validate_saved_agenda_def list_all_iff known_topic_def)
qed

lemma submitted_status:
  assumes "round_ok s" "submit_change U W now u ps s = (Inr True, s')"
  shows "topic_status_of (er_exploration s') i = question_topic_status (er_exploration s) i u"
proof -
  let ?x = "er_exploration s"
  have ok: "interview_ok ?x" using assms(1) by (simp add: round_ok_def)
  from submit_change_taken [OF assms(2)] obtain s1 where s1: "round_submit U W now u s = (Inr True, s1)"
    "er_exploration s' = er_exploration s1" by auto
  from round_submit_taken [OF s1(1)] s1(2) obtain x m where x: "submit U W u ?x = (Inr True, x)"
    "er_exploration s' = x\<lparr>ex_elapsed := m\<rparr>" by auto
  from x(2) have status: "topic_status_of (er_exploration s') i = topic_status_of x i" by (simp add: topic_status_of_def)
  from submit_turn [OF ok x(1)] obtain r where r: "ex_outstanding ?x = Some r" "tr_answer r = latest_answer ?x"
    "passes (validate U W ?x u (ex_comparison ?x))"
    and y: "x = (with_turn ?x \<lparr>ct_answer = map_option ra_id (latest_answer ?x), ct_update = u, ct_revision = None\<rparr>)
      \<lparr>ex_outstanding := None, ex_retry := None\<rparr>" by metis
  have submitted: "submitted_answer ?x = latest_answer ?x" using r(1,2) by (simp add: submitted_answer_def)
  have "answer_named (?x\<lparr>ex_conversation := ts\<rparr>) = answer_named ?x" for ts by (rule answer_named_cong) simp
  then have topics: "ex_topics x = decided_topics u (latest_answer ?x) (ex_topics ?x)"
    by (simp add: y with_turn_def absorb_turn_def absorb_eq answer_named_latest [OF ok])
  have "bt_ok (ex_topics ?x)" using replayed_topics_ok [of ?x] interview_facts(2) [OF ok] by simp
  note decided = decided_topics_status(2) [OF this, of u "latest_answer ?x" i, folded topics]
  have known: "map_of (ex_topics ?x) i \<noteq> None" if "latest_answer ?x = Some a" "answered_on a i" for a
    using answered_topic_known [OF ok, of a] that
    by (auto simp: latest_answer_def answered_on_def split: if_splits option.splits)
  show ?thesis
    unfolding status
    using decided known submitted
    by (auto simp: topic_status_of_def question_topic_status_def Let_def list_ex_iff split: option.splits if_splits)
qed

section \<open>Changes of a saved round\<close>

lemma load_round_named:
  "load_round i st = (Inr (Some s), st') \<Longrightarrow> ex_instance (er_exploration s) = i \<and> stored_round s = s"
  by (auto simp: load_round_def reading_def Let_def split: if_splits option.splits sum.splits prod.splits)
    (simp add: stored_round_def)

text \<open>A store in which one round is the given one, but for the parts that are not stored, and the rest is as before.\<close>

definition holds_change :: "bytes \<Rightarrow> explore_round \<Rightarrow> explore_store \<Rightarrow> explore_store \<Rightarrow> bool" where
  "holds_change i s st st' \<longleftrightarrow>
     load_round i st' = (Inr (Some (stored_round s)), st') \<and> es_history st' = es_history st \<and> es_views st' = es_views st \<and>
     (\<forall>j. j \<noteq> i \<longrightarrow> map_of (es_rounds st') j = map_of (es_rounds st) j)"

lemma save_round_result:
  assumes "round_restored (stored_round s) = Inr ()" "ex_instance (er_exploration s) = i" "save_round now s st = (r, st')"
  shows "case r of Inl e \<Rightarrow> st' = st \<or> e = StoreFault SyncRound \<and> holds_change i s st st' | Inr _ \<Rightarrow> holds_change i s st st'"
  using assms
  by (auto simp: save_round_def Let_def fault_def write_document_def and_then_def reach_step_def load_round_def reading_def
      update_conv' holds_change_def split: if_splits)

lemma update_round_result:
  assumes "load_round i st = (Inr (Some s), st)" "update_round now i change st = (r, st')"
    "\<And>v s'. change s = (Inr v, s') \<Longrightarrow> s' \<noteq> s \<Longrightarrow>
       round_restored (stored_round (s'\<lparr>er_revision := er_revision s' + 1\<rparr>)) = Inr () \<and> ex_instance (er_exploration s') = i"
  shows "case r of
      Inl e \<Rightarrow> st' = st \<or>
        e = StoreFault SyncRound \<and> (\<exists>v t. change s = (Inr v, t) \<and> holds_change i (t\<lparr>er_revision := er_revision t + 1\<rparr>) st st')
    | Inr (v, s') \<Rightarrow> holds_change i s' st st' \<and>
        (\<exists>t. change s = (Inr v, t) \<and> (s' = s \<and> t = s \<or> s' = t\<lparr>er_revision := er_revision t + 1\<rparr>))"
proof (cases "change s")
  case (Pair v s')
  show ?thesis
  proof (cases v)
    case (Inl e)
    then show ?thesis using assms(1,2) Pair by (auto simp: update_round_def and_then_def)
  next
    case (Inr w)
    note changed = Pair [unfolded Inr]
    consider "s' = s" | "s' \<noteq> s" "er_revision s' = u64_max" | "s' \<noteq> s" "er_revision s' \<noteq> u64_max" by blast
    then show ?thesis
    proof cases
      case 3
      let ?t = "s'\<lparr>er_revision := er_revision s' + 1\<rparr>"
      obtain q st1 where saved: "save_round now ?t st = (q, st1)" by fastforce
      have "round_restored (stored_round ?t) = Inr () \<and> ex_instance (er_exploration ?t) = i"
        using assms(3) [OF changed 3(1)] by simp
      then have "case q of Inl e \<Rightarrow> st1 = st \<or> e = StoreFault SyncRound \<and> holds_change i ?t st st1 | Inr _ \<Rightarrow> holds_change i ?t st st1"
        using save_round_result [OF _ _ saved] by blast
      then show ?thesis
        using assms(1,2) changed 3 saved by (auto simp: update_round_def and_then_def Let_def split: sum.splits)
    qed (use assms(1,2) changed load_round_named [OF assms(1)] in
        \<open>auto simp: update_round_def and_then_def fault_def holds_change_def\<close>)
  qed
qed

lemma update_saved_result:
  assumes "load_round i st = (Inr (Some s), st)" "update_saved now i change st = (r, st')"
  shows "(\<exists>e. r = Inl e) \<and> st' = st \<or>
    update_round now i change st = (r, st') \<and> (\<exists>h. es_history st = Inr h \<and> \<not> is_historical h i)"
  using assms(2)
  by (cases "es_history st")
    (auto simp: update_saved_def editable_def and_then_def reach_step_def load_history_def reading_def fault_def
      split: if_splits sum.splits prod.splits)

section \<open>The small round is reachable\<close>

lemma small_revision: "opened_round\<lparr>er_revision := 0\<rparr> = opened_round" "asked_round\<lparr>er_revision := 0\<rparr> = asked_round"
  "answered_round\<lparr>er_revision := 0\<rparr> = answered_round" "concluded_round\<lparr>er_revision := 0\<rparr> = concluded_round"
  by (simp_all add: opened_round_def asked_round_def answered_round_def concluded_round_def round_new_def)

lemma opened_reachable: "reachable_round plain_unicode opened_round"
  by (rule round_starts [OF small_prepared _ _ opened]) (simp_all add: kickoff_def small_request_def)

lemma asked_change:
  "round_change plain_unicode (SubmitEvent calm_worktree 7 first_update []) opened_round = (Inr (), asked_round)"
  by (simp add: round_change_def discard_def asked)

lemma answered_change:
  "round_change plain_unicode (PostEvent ''b'' ''c'' ''t2'' answering None None) asked_round = (Inr (), answered_round)"
  "allowed asked_round (PostEvent ''b'' ''c'' ''t2'' answering None None)"
proof -
  show "round_change plain_unicode (PostEvent ''b'' ''c'' ''t2'' answering None None) asked_round = (Inr (), answered_round)"
    by (simp add: round_change_def discard_def answered)
qed (simp add: allowed_def is_kickoff_def answering_def small_request_def)

lemma concluded_change:
  "round_change plain_unicode (SubmitEvent calm_worktree 9 last_update []) answered_round = (Inr (), concluded_round)"
  by (simp add: round_change_def discard_def concluded)

lemma submit_allowed: "allowed s (SubmitEvent W n u ps)"
  by (simp add: allowed_def)

lemma asked_reachable: "reachable_round plain_unicode asked_round"
  using round_changes [OF opened_reachable submit_allowed asked_change, of 0] by (simp add: small_revision)

lemma answered_reachable: "reachable_round plain_unicode answered_round"
  using round_changes [OF asked_reachable answered_change(2,1), of 0] by (simp add: small_revision)

lemma concluded_reachable: "reachable_round plain_unicode concluded_round"
  using round_changes [OF answered_reachable submit_allowed concluded_change, of 0] by (simp add: small_revision)

lemma posted_small: "post_request ''b'' ''c'' ''t2'' answering asked_round = (Inr True, answered_round)"
  by code_simp

lemma concluded_goes_on: "goes_on plain_unicode agent_only answered_round concluded_round"
  using goes_further [OF goes_nowhere submit_allowed _ concluded_change, of agent_only 0]
  by (simp add: small_revision agent_only_def posts_def cancels_def admits_def)

lemma answered_goes_on: "goes_on plain_unicode (Not \<circ> cancels) asked_round answered_round"
  using goes_further [OF goes_nowhere answered_change(2) _ answered_change(1), of "Not \<circ> cancels" 0]
  by (simp add: small_revision cancels_def)

definition small_agent :: agent where
  "small_agent =
     \<lparr>ag_pane = ''p'', ag_tab = ''1'', ag_workspace = ''w'', ag_name = None, ag_display = None, ag_agent = Some ''claude'',
      ag_status = StatusIdle, ag_session = None, ag_cwd = None\<rparr>"

definition begun_round :: explore_round where
  "begun_round = snd (begin_dispatch 3 (InterviewDispatch ''k'' ''t1'') small_agent opened_round)"

definition unsent_round :: explore_round where
  "unsent_round =
     (finish_dispatch 4 (dispatched (InterviewDispatch ''k'' ''t1'') True (Inl PromptNotStarted)) begun_round)\<lparr>er_revision := 2\<rparr>"

lemma begun: "begin_dispatch 3 (InterviewDispatch ''k'' ''t1'') small_agent opened_round = (Inr (), begun_round)"
proof -
  have "fst (begin_dispatch 3 (InterviewDispatch ''k'' ''t1'') small_agent opened_round) = Inr ()" by code_simp
  then show ?thesis by (simp add: begun_round_def prod_eq_iff)
qed

lemma unsent_goes_on:
  "goes_on plain_unicode (new_attempts (InterviewDispatch ''k'' ''t1'')) begun_round unsent_round"
  unfolding unsent_round_def
  by (rule goes_further [OF goes_nowhere, of _ "FinishEvent 4 (InterviewDispatch ''k'' ''t1'') True (Inl PromptNotStarted)"])
    (simp_all add: allowed_def new_attempts_def round_change_def)

definition small_store :: explore_store where
  "small_store =
     \<lparr>es_unit = ''ba5e'', es_history = Inr (history_new\<lparr>eh_rounds := [''x'']\<rparr>), es_rounds = [(''x'', 1, Inr opened_round)],
      es_views = [], es_faults = {}\<rparr>"

definition asked_store :: explore_store where
  "asked_store = small_store\<lparr>es_rounds := [(''x'', 5, Inr (asked_round\<lparr>er_revision := 1\<rparr>))]\<rparr>"

lemma opened_fields: "ex_instance (er_exploration opened_round) = ''x''"
  "ck_review_unit (ex_checkpoint (er_exploration opened_round)) = ''ba5e''"
  "ex_instance (er_exploration asked_round) = ''x''"
  "ck_review_unit (ex_checkpoint (er_exploration asked_round)) = ''ba5e''" "er_revision asked_round = 0"
  by (simp_all add: opened_round_def asked_round_def opened_interview_def round_new_def exploration_new_def
      ex_checkpoint_def small_comparison_def small_checkpoint_def)

lemma small_id: "explore_id_valid ''x''" by code_simp

lemma small_stored: "stored_round opened_round = opened_round" "stored_round (asked_round\<lparr>er_revision := n\<rparr>) = asked_round\<lparr>er_revision := n\<rparr>"
  by (simp_all add: stored_round_def opened_round_def asked_round_def opened_interview_def round_new_def exploration_new_def
      small_comparison_def)

lemma small_loaded: "load_round ''x'' small_store = (Inr (Some opened_round), small_store)"
  using round_ok_restored [OF reachable_round_ok [OF opened_reachable]]
  by (simp add: load_round_def reading_def small_store_def opened_fields small_id small_stored)

lemma asked_new: "asked_round \<noteq> opened_round"
  by (simp add: asked_round_def opened_round_def opened_interview_def round_new_def exploration_new_def)

lemma asked_saved:
  "update_saved 5 ''x'' (round_change plain_unicode (SubmitEvent calm_worktree 7 first_update [])) small_store =
     (Inr ((), asked_round\<lparr>er_revision := 1\<rparr>), asked_store)"
proof -
  have "update_round 5 ''x'' (round_change plain_unicode (SubmitEvent calm_worktree 7 first_update [])) small_store =
     (Inr ((), asked_round\<lparr>er_revision := 1\<rparr>), asked_store)"
    using small_loaded
    by (simp add: update_round_def and_then_def asked_change asked_new save_round_def Let_def write_document_def reach_step_def opened_fields
        small_id asked_store_def u64_max_def) (simp add: small_store_def)
  then show ?thesis
    by (simp add: update_saved_def editable_def and_then_def reach_step_def load_history_def reading_def is_historical_def
        latest_round_def history_new_def) (simp add: small_store_def history_new_def)
qed

section \<open>The properties\<close>

text \<open>C9: A round that the session saved can be read again: every round reached from the start of a round by posts,
  accepted turns, revisions, cancelled answers, dispatches and their failures, quiz answers and marks passes every
  check that a saved round is read with.\<close>

theorem saved_rounds_are_readable:
  assumes "reachable_round U s"
  shows "round_restored s = Inr ()"
  using assms by (intro round_ok_restored reachable_round_ok)

theorem saved_rounds_are_readable_witness: "round_restored concluded_round = Inr ()"
  by (rule saved_rounds_are_readable [OF concluded_reachable])

text \<open>C7: Taking an answer back restores the round: after an answer was posted in a round that asked for no implementation,
  and whatever the agent and the session did since without another post, a cancelled answer or an authorized implementation, turns
  and revisions and failures included, cancelling from it succeeds and takes only it back, and
  the topics, questions, interpretations, findings, conclusion and glossary, the answers and the turns are again those
  from before the post.\<close>

theorem taking_an_answer_back_restores_the_round:
  assumes "reachable_round U s" "er_implementations s = []" "tr_answer r = Some a" "attempt_id \<noteq> []"
    "post_request answer_id request_id attempt_id r s = (Inr True, s1)" "goes_on U agent_only s1 s2"
  shows "\<exists>c s3. cancel_answers_from (ra_id a) s2 = (Inr [c], s3) \<and>
    decided (er_exploration s3) = decided (er_exploration s) \<and>
    ex_answers (er_exploration s3) = ex_answers (er_exploration s) \<and>
    ex_conversation (er_exploration s3) = ex_conversation (er_exploration s)"
proof -
  let ?x = "er_exploration s"
  have ok: "round_ok s" using assms(1) by (rule reachable_round_ok)
  note posted = posted_answer [OF assms(5,3)]
  have "round_ok s1" using assms(3,4) by (intro post_keeps [OF ok assms(5)]) (auto simp: is_kickoff_def)
  moreover have "only_followed s1 (ex_answers ?x) a s1" using posted assms(2) by (simp add: only_followed_def)
  moreover have "ex_conversation (er_exploration s1) = ex_conversation ?x" by (simp add: posted(1))
  ultimately obtain ts where
    s2: "round_ok s2" "ex_answers (er_exploration s2) = ex_answers ?x @ [a]" "er_implementations s2 = []"
    "ex_conversation (er_exploration s2) = ex_conversation ?x @ ts" "\<forall>t \<in> set ts. ct_answer t = Some (ra_id a)"
    using followed_along.along [OF assms(6), of s1 "ex_answers ?x" a] by (auto simp: only_followed_def)
  have "\<forall>t \<in> set (ex_conversation ?x). ct_answer t \<noteq> Some (ra_id a)"
    using told_turns_follow [OF interview_facts(1) [OF interview_of [OF ok]]] posted(2) by (auto simp: knows_answer_iff)
  moreover from cancel_latest_answer [OF s2(3,2)] obtain c s3 where
    c: "cancel_answer (ra_id a) s2 = (Inr c, s3)" "cancel_answers_from (ra_id a) s2 = (Inr [c], s3)" by blast
  ultimately show ?thesis
    using answer_taken_back [OF s2(1) c(1) s2(2,4,5) _ interview_facts(2) [OF interview_of [OF ok]]] by blast
qed

theorem taking_an_answer_back_restores_the_round_witness:
  "\<exists>c s3. cancel_answers_from ''a'' concluded_round = (Inr [c], s3) \<and>
     decided (er_exploration s3) = decided (er_exploration asked_round) \<and>
     ex_answers (er_exploration s3) = [] \<and>
     ex_conversation (er_exploration s3) = ex_conversation (er_exploration asked_round)"
proof -
  have "er_implementations asked_round = []" "tr_answer answering = Some small_answer" "ra_id small_answer = ''a''"
    "ex_answers (er_exploration asked_round) = []"
    by (simp_all add: asked_round_def opened_round_def round_new_def exploration_new_def answering_def small_request_def
        small_answer_def)
  with taking_an_answer_back_restores_the_round [OF asked_reachable _ _ _ posted_small concluded_goes_on, of small_answer]
  show ?thesis by simp
qed

text \<open>C39: An accepted turn is final: until answers are cancelled, sending the same payload again is acknowledged
  without any change, and any other payload under its request is refused without any change.\<close>

theorem accepted_turns_are_final:
  assumes "reachable_round U s" "submit_change U W now u ps s = (Inr True, s1)" "goes_on U (Not \<circ> cancels) s1 s2"
    "iu_request v = iu_request u" "iu_instance v = iu_instance u"
  shows "submit_change U W' now' v qs s2 =
    (if v = u then Inr False else Inl ''An accepted turn cannot be replaced; retry the identical payload'', s2)"
proof -
  have ok: "round_ok s" using assms(1) by (rule reachable_round_ok)
  from submit_change_taken [OF assms(2)] obtain s0 where "round_submit U W now u s = (Inr True, s0)" by blast
  note first = accepted_turn [OF this]
  note calm = submit_change_quiet [OF ok assms(2)]
  have "continues s1 s2"
    using continued_along.along [OF assms(3) submit_change_keeps [OF ok assms(2)]] by (simp add: continues_def)
  with calm(1,3) obtain t ts where
    t: "ct_update t = u" "ex_conversation (er_exploration s2) = ex_conversation (er_exploration s) @ t # ts"
    "ex_instance (er_exploration s2) = ex_instance (er_exploration s)"
    by (fastforce simp: stays_quiet_def continues_def)
  from turn_of_accepted [OF first(2) t(1,2)] first(1) t(1,3) assms(4,5) show ?thesis
    by (auto simp: submit_change_def round_submit_def submit_def)
qed

theorem accepted_turns_are_final_witness:
  "submit_change plain_unicode calm_worktree 20 first_update [] answered_round = (Inr False, answered_round) \<and>
   submit_change plain_unicode calm_worktree 20 (first_update\<lparr>iu_findings := [''F'']\<rparr>) [] answered_round =
     (Inl ''An accepted turn cannot be replaced; retry the identical payload'', answered_round)"
proof -
  note final = accepted_turns_are_final [OF opened_reachable asked answered_goes_on]
  have "first_update\<lparr>iu_findings := [''F'']\<rparr> \<noteq> first_update"
    by (simp add: first_update_def empty_update_def)
  then show ?thesis using final [of first_update] final [of "first_update\<lparr>iu_findings := [''F'']\<rparr>"] by simp
qed

text \<open>C8: An attempt to send a prompt begins at most once: once its beginning is saved, it is never begun again,
  whatever is saved in between, whether its end was saved or the process stopped before, as long as new attempts have
  new identities.\<close>

theorem attempts_begin_once:
  assumes "reachable_round U s" "begin_dispatch now d a s = (Inr (), s1)" "goes_on U (new_attempts d) s1 s2"
  shows "\<exists>e. fst (begin_dispatch now' d a' s2) = Inl e"
  using spent_along.along [OF assms(3)] begun_spent [OF reachable_round_ok [OF assms(1)] assms(2)]
  by (intro spent_refused) blast

theorem attempts_begin_once_witness:
  "\<exists>e. fst (begin_dispatch 8 (InterviewDispatch ''k'' ''t1'') small_agent unsent_round) = Inl e"
  by (rule attempts_begin_once [OF opened_reachable begun unsent_goes_on])

text \<open>C11: The status of a topic is the reviewer's: after an accepted turn every topic has the status that the checks
  of the turn predicted for it, which is its earlier status, the interpreted status when the turn reads the outstanding
  answer on it, and open when it is new.\<close>

theorem statuses_are_predicted:
  assumes "reachable_round U s" "submit_change U W now u ps s = (Inr True, s')"
  shows "topic_status_of (er_exploration s') i = question_topic_status (er_exploration s) i u"
  using assms by (intro submitted_status reachable_round_ok)

theorem statuses_are_predicted_witness:
  "topic_status_of (er_exploration concluded_round) ''t'' = Some TopicAccepted"
proof -
  have "question_topic_status (er_exploration answered_round) ''t'' last_update = Some TopicAccepted" by code_simp
  with statuses_are_predicted [OF answered_reachable concluded] show ?thesis by simp
qed

text \<open>C40: The walk along the prerequisites of a topic returns on every set of topics, cycles included, and accepts
  the topic exactly when every topic its prerequisites lead to is known and none is the topic itself.\<close>

theorem prerequisites_are_known_and_acyclic:
  "validate_prerequisites m t = Inr () \<longleftrightarrow>
     (leads_to m)\<^sup>* `` set (tp_prerequisites t) \<subseteq> dom (map_of m) - {tp_id t}"
  using validate_prerequisites_iff [of m t] by (auto simp: passes_iff)

text \<open>C10: A change of a saved round is saved or leaves the store as it was: after a change that succeeds the round is
  the latest that may change, it loads as the change left it, under the next revision, but for the parts that are not stored,
  and no other round nor the history nor an editor has changed; a change that fails leaves the store as it was, unless only the
  sync after the write failed: then it is stored in the same way.\<close>

theorem saved_changes_are_loaded:
  assumes "load_round i st = (Inr (Some s), st)" "reachable_round U s" "allowed s e"
    "update_saved now i (round_change U e) st = (r, st')"
  shows "case r of
      Inl err \<Rightarrow> st' = st \<or>
        err = StoreFault SyncRound \<and> (\<exists>h. es_history st = Inr h \<and> \<not> is_historical h i) \<and>
        (\<exists>t s'. round_change U e s = (Inr (), t) \<and> s' = t\<lparr>er_revision := er_revision t + 1\<rparr> \<and> reachable_round U s' \<and>
           holds_change i s' st st')
    | Inr (_, s') \<Rightarrow> (\<exists>h. es_history st = Inr h \<and> \<not> is_historical h i) \<and> reachable_round U s' \<and>
        (\<exists>t. round_change U e s = (Inr (), t) \<and> (s' = s \<and> t = s \<or> s' = t\<lparr>er_revision := er_revision t + 1\<rparr>)) \<and>
        holds_change i s' st st'"
proof -
  have next_round: "reachable_round U (t\<lparr>er_revision := n\<rparr>)" if "round_change U e s = (Inr v, t)" for v t n
    using round_changes [OF assms(2,3)] that by simp
  have named: "ex_instance (er_exploration s) = i" using load_round_named [OF assms(1)] by simp
  from update_saved_result [OF assms(1,4)] show ?thesis
  proof (elim disjE conjE exE)
    fix h
    assume h: "update_round now i (round_change U e) st = (r, st')" "es_history st = Inr h" "\<not> is_historical h i"
    have "round_restored (stored_round (t\<lparr>er_revision := er_revision t + 1\<rparr>)) = Inr () \<and> ex_instance (er_exploration t) = i"
      if "round_change U e s = (Inr v, t)" for v t
      using round_ok_restored [OF reachable_round_ok [OF round_read [OF next_round [OF that]]]]
        change_instance [OF reachable_round_ok [OF assms(2)], of U e t] that named by simp
    from update_round_result [OF assms(1) h(1) this] show ?thesis
      using h(2,3) next_round assms(2) by (fastforce split: sum.splits)
  qed simp
qed

theorem saved_changes_are_loaded_witness:
  "load_round ''x'' asked_store = (Inr (Some (asked_round\<lparr>er_revision := 1\<rparr>)), asked_store)"
  using saved_changes_are_loaded [OF small_loaded opened_reachable submit_allowed asked_saved]
  by (simp add: small_stored holds_change_def)

end
