(* ===== verification/Spec2Isabelle.thy ===== *)
theory Spec2Isabelle
  imports TextLines Attribution DiffRows Hunks HunkReview LineMarks Classify Patch OpenDiff Samples ServiceProperties TrackerProperties ExploreProperties
begin

text \<open>
  A verification library for the progressive reviewer, a code review pane that sits beside a coding agent. The
  user marks files, hunks or lines as reviewed and only what changes later comes back; the user's comments form
  threads, and the reviewer wakes the agent that answers them. The paths below are under src/crates.

  \<^bold>\<open>The parts and how they interact.\<close> For each file the reviewer keeps three versions: the base, the
  reviewed version and the current file. The open changes are the edits from the reviewed version to the
  current file; accepting writes a new reviewed version that contains them, reopening writes one that has the
  base's lines back, and an attribution records who accepted each line. The pane shows the open changes as a
  unified diff that it parses back and whose hunks it offers. Threads are anchored to lines of a version and
  carried to later versions by the edits in between. The review tracker keeps a mark per path on disk (the whole file, or the
  reviewed lines with their base), compares it with the snapshot that is shown, caches the open diffs and stores what is
  accepted. One worker owns the threads: it changes the stored book
  of a review under a lock, grants the agent of the pane's tab an access value, hands the courier a wakeup
  prompt for it, and serves that agent's calls. The courier's thread sends the prompts one at a time through a gate
  that others can hold shut. An Explore round is an interview of the user by the agent about the change: the agent sends
  turns with topics, questions and at last a conclusion, each checked before it is taken, the user answers, can take
  answers back, and can have the conclusion implemented; the round is saved with what is known of every prompt it sent.

  \<^bold>\<open>What every theory uses.\<close>
  \<^item> Prelude: types for Rust's, the checked and the wrapping integer conversions, folds that can
    fail, and lemmas on lists, association lists and maps. ByteText: Rust's operations on byte strings.

  \<^bold>\<open>The review of one file.\<close>
  \<^item> TextLines (review-hunks/src/text.rs): lines, changes, and the translation of lines and ranges
    across edits. The diff algorithm is the third-party gix-imara-diff: the parameter \<open>D\<close> of the definitions,
    with the laws \<open>line_diff\<close> (nonempty changes in order, with equal lines between them, that turn one text into
    the other; none for equal texts). OpenDiff and Samples instantiate it with a concrete differ.
  \<^item> Attribution (attribution.rs): authors of reviewed lines and the writer \<open>rebuild\<close>, with the locale
    \<open>line_writer\<close> for what its clients rely on, interpreted on \<open>rb_push\<close> and \<open>rb_remove\<close>.
  \<^item> Hunks (hunks.rs): the walk over parsed rows, counts and the percentage. HunkReview (review.rs):
    accepting and reopening hunks, replay onto a new base. LineMarks (lines.rs): the same for picked lines,
    with the widening of picks that other lines would pay for. Classify (classify.rs): open and reviewed hunks
    with their rows.
  \<^item> Patch (patch.rs): writing unified diffs and applying them backwards. DiffRows
    (review-repository/src/diff.rs and the data of repository.rs): the parser of unified diffs, display of paths.
    OpenDiff: the composition, what Patch writes is what DiffRows and Hunks read.
  \<^item> HunkProperties: the properties of all of these.

  \<^bold>\<open>The review of a change.\<close>
  \<^item> MarkStore (review-store/src/checkpoint.rs; StoreError: lib.rs): the stored marks of the paths and every operation on
    them. Base64 and SHA-256 are the parameter \<open>codec\<close>: decoding what was encoded gives it back, hashes may collide. MarkLaws: what a
    mark reads as later, what other marks keep, the round trip of attributions.
  \<^item> Snapshots (review-repository/src/repository.rs, repository/comparison_plan.rs): identities of snapshots and the plan of
    comparisons. What the tracker asks of a repository is the record \<open>repo\<close> of functions; a snapshot names immutable content. What some
    theorems use of it: a snapshot does not differ from itself.
  \<^item> GitCompare (repository/git.rs, git/records.rs): the comparisons of the Git backend with one baseline and, grouped, with all
    baselines of a plan, and the parser of the statistics that git prints. The answers of the git commands are the record
    \<open>git\<close>, arbitrary in the theorem about all states.
  \<^item> DiffCache (review-state/src/diff_cache.rs): the cache of open diffs, an interpretation of the locale \<open>memory\<close>, and its count
    of bytes.
  \<^item> ReviewTracker (review-state/src/review.rs): the states of paths, their diffs, and marking files, hunks and lines,
    over the marks, the cache and the repository. ReviewProgress (progress.rs, open_rows.rs). TrackerLaws: locks, the operations that
    only read, and the invariant of the cache in every reachable state. TrackerStates: what a stored version reads as.
    TrackerStatuses: the states of all paths in a Git repository against a state per path, and where the grouped comparison and
    the comparison of a path alone differ (\<open>a_renamed_path_reads_as_reviewed\<close>). TrackerAccept: accepting all that is open.
  \<^item> TrackerSamples, TrackerProperties: a repository and a store to apply the properties on, and the properties.

  \<^bold>\<open>The conversations.\<close>
  \<^item> Anchors (review-source/src/lib.rs): anchors of threads and the mapping of their lines. The
    histogram diff of gix-imara-diff is the parameter \<open>H\<close>, with the same laws.
  \<^item> Threads (review-threads/src, except merge.rs, draft.rs and paths.rs): messages, threads, the book of a review and its
    operations. ThreadLaws: the invariant \<open>book_ok\<close> and its preservation. ThreadMerge (merge.rs): merging two
    documents of a review. Drafts (draft.rs, paths.rs): drafts, with the locale \<open>publications\<close> for what
    forgetting a posted draft relies on, interpreted on posting and on answering.
  \<^item> ThreadProperties: the properties of books, drafts and anchors.

  \<^bold>\<open>The thread service.\<close>
  \<^item> AgentPort (herdr-client/src/protocol.rs): the host's agents and the choice of the target. The
    socket to the host is the record \<open>port\<close> of functions, arbitrary in every theorem.
  \<^item> AgentIdentity (review-thread-service/src/agent_identity.rs, pinned_agent.rs, access.rs): is a live
    agent still the one that was granted or pinned; \<open>matched\<close> runs a check along a history of agents.
  \<^item> Delivery (delivery.rs): submitting a prompt, waiting requests, the queue, and the functions of the
    gate. PromptGate: the courier's thread, the worker, holds and withdrawals as the step relation
    \<open>courier_step\<close>, one action under a lock, one channel operation or one flag access per step, with the invariant
    \<open>courier_ok\<close>.
  \<^item> ThreadStore (review-store/src/threads.rs, drafts.rs): the stored books and drafts; every read, lock
    and write can fail, as the record \<open>store_faults\<close> and the documents of \<open>disk\<close> say, and so can the sync of the directory after the rename
    of \<open>atomic_write\<close>: then the error is answered and the document is written. The locale \<open>thread_library\<close> is the abstract specification:
    a map from reviews to books, run by \<open>book_changes\<close>, where a change answered with success is taken with its result, one
    answered with the error of the sync is taken, and any other answer takes nothing and has a cause; interpreted on
    \<open>update_threads\<close> under the faults of each change's time.
  \<^item> ThreadService (state.rs, lib.rs, wakeup.rs, notification.rs): the state of the worker, every handler of its
    loop and the loop's turn \<open>service_turn\<close>; indexing a book that is not loaded is \<open>None\<close> of the handler and \<open>Panicked\<close> of the turn.
    ServiceLaws: the invariant \<open>service_ok\<close>, kept by every handler, and
    the states \<open>service_reachable\<close> when other processes change the disk between turns. WakeupLaws: what one turn
    hands to the courier, each wakeup tied to the access that the service holds for its token.
  \<^item> ServiceProperties: the properties of the service, the store and the courier.

  \<^bold>\<open>The rounds of Explore.\<close>
  \<^item> CharText: characters of strings, maps in the order of their keys, and checks that return the message of the first
    rule that is broken. The Unicode tables (lower case, alphanumeric characters, the quoting of a string) are the
    parameter \<open>unicode\<close>, arbitrary in every theorem.
  \<^item> ExploreData (review-explore/src: interview.rs, source.rs, agenda.rs, consequence.rs, conclusion.rs, revision.rs,
    quiz.rs, start.rs and others): topics, questions, answers, turns, requests, the interview and the start of a round.
  \<^item> ExploreSources (source.rs, capture.rs, named_lines.rs): reading sources, preparing the comparison of a round, and the
    locations that may be cited. The working copy and the bases are the record \<open>worktree\<close> of functions, the hash of a
    diff the parameter \<open>sha\<close>.
  \<^item> ExploreChecks (validation.rs, agenda_validation.rs and the checks of the other files): every check of a turn, with
    the walk along prerequisites.
  \<^item> ExploreRounds (interview.rs, revision.rs, cancel.rs, quiz.rs, diagram.rs, conclusion.rs, recovery.rs): the operations
    of the interview and the checks of a saved one. ExploreReplay: what the interview decided is the replay of its turns;
    the relation \<open>told\<close> is the order of answers and turns. ExploreLaws: the invariant \<open>interview_ok\<close>, kept by every
    operation.
  \<^item> ExploreDurable (durable.rs, cancel.rs, recovery.rs, implementation_state.rs; review-explore-session/src/dispatch.rs and
    the guard of implementation.rs): the saved round, its deliveries, implementation requests, completion and marks.
  \<^item> ExploreRecords (review-explore-session/src/records.rs and persist_request of turn.rs, review-store/src/explore.rs): the
    rounds of a review on disk, their history, and which round may change. Steps of the file system fail on demand
    (\<open>es_faults\<close>), the sync after a rename included, which leaves the document written (\<open>write_document\<close>).
  \<^item> ExploreStates: the changes of a saved round (\<open>round_event\<close>), the rounds they reach (\<open>reachable_round\<close>) and the
    invariant \<open>round_ok\<close>; ExploreReach: every change keeps it. ExploreDispatch: the locale \<open>kept_along\<close> for what a
    series of changes keeps, interpreted on attempts that have begun, on the turns since an answer and on the growing
    conversation. ExploreGrowth: how a change moves the conversation.
  \<^item> ExploreSamples, ExploreProperties: a small round to apply the properties on, and the properties.

  \<^bold>\<open>Conventions.\<close> An operation that can fail returns an option or a sum whose left side is the error; an
  operation that panics returns \<open>Panicked\<close>. A string is the list of its octets. Line numbers are naturals, with
  the bounds of u32 and u64 written where the code converts, saturates or wraps. A hash map is a map, or an
  association list where the order of iteration is visible. Random identities, the clock, the answers of
  the host and of the agents' hooks and the flags that withdraw a prompt are arguments. Loops are structural recursions and
  folds; the few that are not (decimal numbers, escaping a path, decoding UTF-8, the walk along prerequisites, cancelling
  answers down to one) have termination proofs. No definition
  uses fuel, and every function is total.

  \<^bold>\<open>Not modelled.\<close> The JSON and zstd forms of stored documents and the conversion of old thread documents
  (a document is its content or an error); the HTTP server of the agents' calls, the sockets to the host and to the
  hooks; the log of vision turns that the service writes beside its work; the other reading of the repository through git and
  jj; the terminal user interface, rendering and key handling; of Explore the prompts' texts, the pages a view shows and the citations in them, the marks that a turn
  applies to files, the server of the agents' calls, and the forks of agents that run ahead.
\<close>

end
